(* ===== verification/Prelude.thy ===== *)
theory Prelude
  imports Main "HOL-Library.List_Lexorder" "HOL-Library.Char_ord" "HOL-Library.Product_Lexorder"
begin

text \<open>
  What every component shares: the Go and JavaScript string functions the sources call, on
  char lists; 64-bit integer parsing; the scan loop that keeps the best element so far; SQLite
  tables as lists of rows with the four statements the store uses (look up by key, upsert,
  update where, delete where); the text order of stored timestamps.

  Strings are byte sequences. Case folding and trimming are modelled on ASCII, which is what the
  inputs of these functions are (host names, tags, container states, header values).
\<close>

named_theorems go_simps \<open>defining equations and rewrite rules of the modelled string functions\<close>
named_theorems row_simps \<open>what a lookup sees after a table statement\<close>
named_theorems inv_intros \<open>preservation of the invariants\<close>

type_synonym ('e, 'a) result = "'e + 'a"

section \<open>Strings\<close>

definition has_prefix :: "string \<Rightarrow> string \<Rightarrow> bool" where
  "has_prefix s p \<longleftrightarrow> take (length p) s = p"

definition has_suffix :: "string \<Rightarrow> string \<Rightarrow> bool" where
  "has_suffix s p \<longleftrightarrow> has_prefix (rev s) (rev p)"

definition trim_prefix :: "string \<Rightarrow> string \<Rightarrow> string" where
  "trim_prefix s p = (if has_prefix s p then drop (length p) s else s)"

definition trim_suffix :: "string \<Rightarrow> string \<Rightarrow> string" where
  "trim_suffix s p = (if has_suffix s p then take (length s - length p) s else s)"

fun str_contains :: "string \<Rightarrow> string \<Rightarrow> bool" where
  "str_contains [] p \<longleftrightarrow> p = []"
| "str_contains (c # s) p \<longleftrightarrow> has_prefix (c # s) p \<or> str_contains s p"

text \<open>The split of a string at the first and at the last occurrence of a character
  (\<^verbatim>\<open>strings.Cut\<close>, \<^verbatim>\<open>strings.LastIndex\<close>).\<close>

fun cut_first :: "char \<Rightarrow> string \<Rightarrow> (string \<times> string) option" where
  "cut_first c [] = None"
| "cut_first c (x # xs) =
    (if x = c then Some ([], xs)
     else (case cut_first c xs of None \<Rightarrow> None | Some (a, b) \<Rightarrow> Some (x # a, b)))"

definition cut_last :: "char \<Rightarrow> string \<Rightarrow> (string \<times> string) option" where
  "cut_last c s = (case cut_first c (rev s) of
     None \<Rightarrow> None | Some (a, b) \<Rightarrow> Some (rev b, rev a))"

fun split_on :: "char \<Rightarrow> string \<Rightarrow> string list" where
  "split_on c [] = [[]]"
| "split_on c (x # xs) =
    (if x = c then [] # split_on c xs
     else (case split_on c xs of [] \<Rightarrow> [[x]] | y # ys \<Rightarrow> (x # y) # ys))"

fun join_with :: "string \<Rightarrow> string list \<Rightarrow> string" where
  "join_with sep [] = []"
| "join_with sep [x] = x"
| "join_with sep (x # y # ys) = x @ sep @ join_with sep (y # ys)"

definition is_space :: "char \<Rightarrow> bool" where
  "is_space c \<longleftrightarrow> c \<in> {CHR '' '', CHR 0x09, CHR 0x0A, CHR 0x0B, CHR 0x0C, CHR 0x0D}"

definition trim_space :: "string \<Rightarrow> string" where
  "trim_space s = rev (dropWhile is_space (rev (dropWhile is_space s)))"

definition to_lower_char :: "char \<Rightarrow> char" where
  "to_lower_char c = (if CHR ''A'' \<le> c \<and> c \<le> CHR ''Z'' then char_of (of_char c + 32 :: nat) else c)"

definition to_lower :: "string \<Rightarrow> string" where
  "to_lower s = map to_lower_char s"

definition equal_fold :: "string \<Rightarrow> string \<Rightarrow> bool" where
  "equal_fold s t \<longleftrightarrow> to_lower s = to_lower t"

definition is_digit :: "char \<Rightarrow> bool" where
  "is_digit c \<longleftrightarrow> CHR ''0'' \<le> c \<and> c \<le> CHR ''9''"

text \<open>\<^verbatim>\<open>[0-9]+\<close>\<close>
definition all_digits :: "string \<Rightarrow> bool" where
  "all_digits s \<longleftrightarrow> s \<noteq> [] \<and> list_all is_digit s"

definition max_int64 :: int where
  "max_int64 = 2 ^ 63 - 1"

definition digit_val :: "char \<Rightarrow> int" where
  "digit_val c = int (of_char c) - 48"

definition digits_val :: "string \<Rightarrow> int" where
  "digits_val s = foldl (\<lambda>n c. n * 10 + digit_val c) 0 s"

text \<open>The value \<^verbatim>\<open>strconv.Atoi\<close> returns for a string of digits when its error is ignored:
  an out-of-range number is clamped to the largest 64-bit integer.\<close>
definition atoi_clamped :: "string \<Rightarrow> int" where
  "atoi_clamped s = min (digits_val s) max_int64"

lemma has_prefix_iff [go_simps]: "has_prefix s p \<longleftrightarrow> (\<exists>t. s = p @ t)"
  unfolding has_prefix_def by (metis append_eq_conv_conj)

lemma has_suffix_iff [go_simps]: "has_suffix s p \<longleftrightarrow> (\<exists>t. s = t @ p)"
  unfolding has_suffix_def has_prefix_iff
  by (metis rev_append rev_rev_ident)

lemma trim_prefix_append [simp]: "trim_prefix (p @ s) p = s"
  by (simp add: trim_prefix_def has_prefix_iff)

lemma trim_suffix_append [simp]: "trim_suffix (s @ p) p = s"
  by (simp add: trim_suffix_def has_suffix_iff)

lemma trim_space_idem: "trim_space (trim_space s) = trim_space s"
proof -
  have dw: "dropWhile P (rev (dropWhile P (rev xs))) = rev (dropWhile P (rev xs))"
    if fixed: "dropWhile P xs = xs" for P and xs :: string
  proof (cases "rev (dropWhile P (rev xs))")
    case (Cons y ys)
    have "xs = rev (dropWhile P (rev xs)) @ rev (takeWhile P (rev xs))"
      by (metis rev_append rev_rev_ident takeWhile_dropWhile_id)
    then obtain zs where zs: "xs = y # zs" using Cons by (metis append_Cons)
    then have "\<not> P y" using fixed hd_dropWhile[of P xs] by simp
    then show ?thesis using Cons by simp
  next
    case Nil
    then show ?thesis by (simp only: dropWhile.simps)
  qed
  show ?thesis
    unfolding trim_space_def by (simp add: dw)
qed

lemma to_lower_char_idem [simp]: "to_lower_char (to_lower_char c) = to_lower_char c"
proof -
  have "of_char c + 32 < (256 :: nat)" if "c \<le> CHR ''Z''" using that by (simp add: less_eq_char_def)
  then show ?thesis by (auto simp: to_lower_char_def less_eq_char_def)
qed

lemma is_space_lower [simp]: "is_space (to_lower_char c) \<longleftrightarrow> is_space c"
proof -
  have "of_char c + 32 < (256 :: nat)" if "c \<le> CHR ''Z''" using that by (simp add: less_eq_char_def)
  moreover have "is_space d \<longleftrightarrow> (of_char d :: nat) \<in> {32, 9, 10, 11, 12, 13}" for d
    by (simp add: is_space_def flip: of_char_eq_iff[where 'a = nat])
  ultimately show ?thesis by (simp add: to_lower_char_def less_eq_char_def)
qed

lemma to_lower_idem [simp]: "to_lower (to_lower s) = to_lower s"
  by (simp add: to_lower_def)

lemma trim_space_lower: "trim_space (to_lower s) = to_lower (trim_space s)"
  by (simp add: trim_space_def to_lower_def rev_map dropWhile_map comp_def)

text \<open>A host is normalised once and for all.\<close>
lemma host_key_idem [simp]: "to_lower (trim_space (to_lower (trim_space s))) = to_lower (trim_space s)"
  by (simp add: trim_space_lower trim_space_idem)

lemma str_contains_iff [go_simps]: "str_contains s p \<longleftrightarrow> (\<exists>a b. s = a @ p @ b)"
proof (induction s)
  case (Cons c s)
  have "(\<exists>a b. c # s = a @ p @ b) \<longleftrightarrow> (\<exists>b. c # s = p @ b) \<or> (\<exists>a b. s = a @ p @ b)"
    (is "?l \<longleftrightarrow> ?r")
  proof
    assume ?l
    then obtain a b where "c # s = a @ p @ b" by blast
    then show ?r by (cases a) auto
  next
    assume ?r
    then show ?l by (elim disjE exE) (metis append_Nil, metis append_Cons)
  qed
  then show ?case using Cons by (simp add: has_prefix_iff)
qed simp

lemma cut_first_None [simp]: "cut_first c s = None \<longleftrightarrow> c \<notin> set s"
  by (induction s) (auto split: option.splits)

lemma cut_first_SomeD: "cut_first c s = Some (a, b) \<Longrightarrow> s = a @ c # b \<and> c \<notin> set a"
  by (induction s arbitrary: a) (auto split: if_splits option.splits)

lemma cut_first_intro: "c \<notin> set a \<Longrightarrow> cut_first c (a @ c # b) = Some (a, b)"
  by (induction a) auto

lemma cut_first_Some: "cut_first c s = Some (a, b) \<longleftrightarrow> s = a @ c # b \<and> c \<notin> set a"
  using cut_first_SomeD cut_first_intro by metis

lemma cut_first_mem: "cut_first c s = Some p \<Longrightarrow> c \<in> set s"
  by (cases p) (simp add: cut_first_Some)

lemma cut_first_append [simp]: "c \<notin> set a \<Longrightarrow> cut_first c (a @ c # b) = Some (a, b)"
  by (simp add: cut_first_Some)

lemma cut_last_None [simp]: "cut_last c s = None \<longleftrightarrow> c \<notin> set s"
  using cut_first_None[of c "rev s"] by (auto simp: cut_last_def split: option.splits dest: cut_first_mem)

lemma cut_last_Some: "cut_last c s = Some (a, b) \<longleftrightarrow> s = a @ c # b \<and> c \<notin> set b"
proof -
  have "cut_last c s = Some (a, b) \<longleftrightarrow> cut_first c (rev s) = Some (rev b, rev a)"
    by (auto simp: cut_last_def split: option.splits dest: cut_first_mem)
  also have "\<dots> \<longleftrightarrow> rev s = rev b @ c # rev a \<and> c \<notin> set b"
    by (simp add: cut_first_Some)
  also have "rev s = rev b @ c # rev a \<longleftrightarrow> s = a @ c # b"
    by (metis append_Cons append_Nil append_assoc rev.simps(2) rev_append rev_rev_ident)
  finally show ?thesis .
qed

lemma split_on_ne [simp]: "split_on c s \<noteq> []"
  by (induction s) (auto split: list.splits)

lemma split_on_none [simp]: "c \<notin> set s \<Longrightarrow> split_on c s = [s]"
  by (induction s) auto

lemma split_on_append [simp]: "c \<notin> set a \<Longrightarrow> split_on c (a @ c # b) = a # split_on c b"
  by (induction a) auto

lemma join_split_on [simp]: "join_with [c] (split_on c s) = s"
proof (induction s)
  case (Cons x xs)
  obtain y ys where s: "split_on c xs = y # ys" by (meson neq_Nil_conv split_on_ne)
  show ?case using Cons s by (cases ys) auto
qed simp

lemma split_on_free: "t \<in> set (split_on c s) \<Longrightarrow> c \<notin> set t"
  by (induction s arbitrary: t) (auto split: if_splits list.splits)

lemma all_digits_no_dot: "all_digits s \<Longrightarrow> CHR ''.'' \<notin> set s"
  by (auto simp: all_digits_def list_all_iff is_digit_def less_eq_char_def)

lemma digits_val_nonneg: "list_all is_digit s \<Longrightarrow> 0 \<le> digits_val s"
proof -
  have "0 \<le> n \<Longrightarrow> list_all is_digit s \<Longrightarrow> 0 \<le> foldl (\<lambda>n c. n * 10 + digit_val c) n s" for n
    by (induction s arbitrary: n) (auto simp: is_digit_def less_eq_char_def digit_val_def)
  then show "list_all is_digit s \<Longrightarrow> 0 \<le> digits_val s" by (simp add: digits_val_def)
qed

lemma atoi_clamped_range: "all_digits s \<Longrightarrow> 0 \<le> atoi_clamped s \<and> atoi_clamped s \<le> max_int64"
  using digits_val_nonneg[of s] by (simp add: all_digits_def atoi_clamped_def max_int64_def)

section \<open>The loop that keeps the best element\<close>

text \<open>Several loops of the program walk a collection and replace the element kept so far by a
  strictly better eligible one: the choice of update candidates, the claim of the next
  notification.\<close>

primrec scan_best :: "('a \<Rightarrow> bool) \<Rightarrow> ('a \<Rightarrow> 'a \<Rightarrow> bool) \<Rightarrow> 'a option \<Rightarrow> 'a list \<Rightarrow> 'a option" where
  "scan_best ok better acc [] = acc"
| "scan_best ok better acc (x # xs) = scan_best ok better
     (if ok x \<and> (case acc of None \<Rightarrow> True | Some y \<Rightarrow> better x y) then Some x else acc) xs"

locale preference =
  fixes better :: "'a \<Rightarrow> 'a \<Rightarrow> bool"
  assumes better_irrefl: "\<not> better x x"
    and better_trans: "better x y \<Longrightarrow> better y z \<Longrightarrow> better x z"
    and better_neg_trans: "better x z \<Longrightarrow> better x y \<or> better y z"
begin

lemma scan_best_mem:
  "scan_best ok better acc xs = Some r \<Longrightarrow> (r \<in> set xs \<and> ok r) \<or> acc = Some r"
  by (induction xs arbitrary: acc) (force split: if_splits option.splits)+

lemma scan_best_keeps:
  "scan_best ok better (Some y) xs = Some r \<Longrightarrow> \<not> better y r"
proof (induction xs arbitrary: y)
  case (Cons x xs)
  show ?case
  proof (cases "ok x \<and> better x y")
    case True
    then have "\<not> better x r" using Cons by simp
    then show ?thesis using True better_trans by blast
  next
    case False
    then have "scan_best ok better (Some y) (x # xs) = scan_best ok better (Some y) xs" by auto
    then show ?thesis using Cons by metis
  qed
qed (simp add: better_irrefl)

lemma scan_best_some: "scan_best ok better (Some y) xs \<noteq> None"
  by (induction xs arbitrary: y) auto

lemma scan_best_max:
  "scan_best ok better acc xs = Some r \<Longrightarrow> x \<in> set xs \<Longrightarrow> ok x \<Longrightarrow> \<not> better x r"
proof (induction xs arbitrary: acc)
  case (Cons y ys)
  show ?case
  proof (cases "x = y")
    case False
    then show ?thesis using Cons by (auto split: if_splits)
  next
    case True
    show ?thesis
    proof (cases acc)
      case None
      then show ?thesis using Cons.prems True scan_best_keeps by simp
    next
      case (Some z)
      show ?thesis
      proof (cases "better y z")
        case better: True
        then show ?thesis using Cons.prems True Some scan_best_keeps by simp
      next
        case worse: False
        then have "\<not> better z r" using Cons.prems Some scan_best_keeps by simp
        then show ?thesis using worse True better_neg_trans by blast
      qed
    qed
  qed
qed simp

lemma scan_best_None_iff:
  "scan_best ok better None xs = None \<longleftrightarrow> (\<forall>x \<in> set xs. \<not> ok x)"
  by (induction xs) (auto simp: scan_best_some)

lemma scan_best_cases:
  "case scan_best ok better None xs of
     None \<Rightarrow> \<forall>x \<in> set xs. \<not> ok x
   | Some r \<Rightarrow> r \<in> set xs \<and> ok r \<and> (\<forall>x \<in> set xs. ok x \<longrightarrow> \<not> better x r)"
proof (cases "scan_best ok better None xs")
  case (Some r)
  then show ?thesis using scan_best_mem[OF Some] scan_best_max[OF Some] by simp
next
  case None
  then show ?thesis using scan_best_None_iff[of ok xs] by simp
qed

end

section \<open>Tables\<close>

text \<open>A SQLite table is the list of its rows, in insertion order; \<^term>\<open>key\<close> is the column (or
  columns) of its primary key.\<close>

definition get_row :: "('r \<Rightarrow> 'k) \<Rightarrow> 'k \<Rightarrow> 'r list \<Rightarrow> 'r option" where
  "get_row key k rows = find (\<lambda>r. key r = k) rows"

definition keys_distinct :: "('r \<Rightarrow> 'k) \<Rightarrow> 'r list \<Rightarrow> bool" where
  "keys_distinct key rows \<longleftrightarrow> distinct (map key rows)"

definition update_where :: "('r \<Rightarrow> bool) \<Rightarrow> ('r \<Rightarrow> 'r) \<Rightarrow> 'r list \<Rightarrow> 'r list" where
  "update_where p f rows = map (\<lambda>r. if p r then f r else r) rows"

definition delete_where :: "('r \<Rightarrow> bool) \<Rightarrow> 'r list \<Rightarrow> 'r list" where
  "delete_where p rows = filter (\<lambda>r. \<not> p r) rows"

text \<open>\<^verbatim>\<open>INSERT ... ON CONFLICT(key) DO UPDATE\<close>: an existing row with the key of the new one is
  changed by \<^term>\<open>f\<close>, otherwise the new row is added.\<close>
definition upsert_row :: "('r \<Rightarrow> 'k) \<Rightarrow> 'r \<Rightarrow> ('r \<Rightarrow> 'r) \<Rightarrow> 'r list \<Rightarrow> 'r list" where
  "upsert_row key new f rows =
    (if key new \<in> set (map key rows) then update_where (\<lambda>r. key r = key new) f rows
     else rows @ [new])"

text \<open>\<^verbatim>\<open>RowsAffected\<close> of an update or a delete.\<close>
definition rows_affected :: "('r \<Rightarrow> bool) \<Rightarrow> 'r list \<Rightarrow> nat" where
  "rows_affected p rows = length (filter p rows)"

lemma get_row_Nil [row_simps]: "get_row key k [] = None"
  by (simp add: get_row_def)

lemma get_row_Cons [row_simps]:
  "get_row key k (r # rows) = (if key r = k then Some r else get_row key k rows)"
  by (simp add: get_row_def)

lemma get_row_append [row_simps]:
  "get_row key k (xs @ ys) = (case get_row key k xs of None \<Rightarrow> get_row key k ys | Some r \<Rightarrow> Some r)"
  by (induction xs) (auto simp: get_row_Nil get_row_Cons)

lemma get_row_None: "get_row key k rows = None \<longleftrightarrow> k \<notin> key ` set rows"
  by (induction rows) (auto simp: row_simps)

lemma get_row_SomeD: "get_row key k rows = Some r \<Longrightarrow> r \<in> set rows \<and> key r = k"
  by (induction rows) (auto simp: get_row_Nil get_row_Cons split: if_splits)

lemma get_row_key: "get_row key k rows = Some r \<Longrightarrow> key r = k"
  by (drule get_row_SomeD) simp

lemma get_row_mem:
  "keys_distinct key rows \<Longrightarrow> r \<in> set rows \<Longrightarrow> get_row key (key r) rows = Some r"
  by (induction rows) (auto simp: get_row_Nil get_row_Cons keys_distinct_def)

lemma get_update_where [row_simps]:
  "(\<And>r. key (f r) = key r) \<Longrightarrow> get_row key k (update_where p f rows) =
     map_option (\<lambda>r. if p r then f r else r) (get_row key k rows)"
  by (induction rows) (auto simp: get_row_Nil get_row_Cons update_where_def)

lemma get_delete_where [row_simps]:
  "keys_distinct key rows \<Longrightarrow> get_row key k (delete_where p rows) =
     (case get_row key k rows of None \<Rightarrow> None | Some r \<Rightarrow> if p r then None else Some r)"
proof (induction rows)
  case (Cons r rows)
  then have "key r \<notin> key ` set rows" "keys_distinct key rows" by (auto simp: keys_distinct_def)
  moreover have "key r \<notin> key ` set (delete_where p rows)"
    using \<open>key r \<notin> key ` set rows\<close> by (auto simp: delete_where_def)
  ultimately show ?case
    using Cons.IH by (auto simp: delete_where_def row_simps get_row_None[THEN iffD2])
qed (simp add: delete_where_def row_simps)

lemma get_delete_key [row_simps]:
  assumes "keys_distinct key rows"
  shows "get_row key k (delete_where (\<lambda>r. key r = j) rows) = (if k = j then None else get_row key k rows)"
proof (cases "get_row key k rows")
  case (Some r)
  then have "key r = k" by (rule get_row_key)
  then show ?thesis using Some assms by (auto simp: get_delete_where)
qed (use assms in \<open>auto simp: get_delete_where\<close>)

lemma get_upsert_row [row_simps]:
  assumes "\<And>r. key (f r) = key r"
  shows "get_row key k (upsert_row key new f rows) =
    (if k = key new then (case get_row key k rows of None \<Rightarrow> Some new | Some r \<Rightarrow> Some (f r))
     else get_row key k rows)"
proof (cases "key new \<in> key ` set rows")
  case True
  then obtain r where r: "get_row key (key new) rows = Some r"
    using get_row_None by (metis not_None_eq)
  have "map_option (\<lambda>r. if key r = key new then f r else r) (get_row key k rows) =
      (if k = key new then (case get_row key k rows of None \<Rightarrow> Some new | Some r \<Rightarrow> Some (f r))
       else get_row key k rows)"
    using r by (cases "get_row key k rows") (auto dest: get_row_key)
  then show ?thesis using True assms by (simp add: upsert_row_def row_simps)
next
  case False
  then have "get_row key (key new) rows = None" by (simp add: get_row_None)
  then show ?thesis
    using False by (auto simp: upsert_row_def row_simps split: option.splits)
qed

lemma update_where_keys [simp]:
  "(\<And>r. key (f r) = key r) \<Longrightarrow> map key (update_where p f rows) = map key rows"
  by (simp add: update_where_def)

lemma update_where_distinct [inv_intros]:
  "(\<And>r. key (f r) = key r) \<Longrightarrow> keys_distinct key rows \<Longrightarrow> keys_distinct key (update_where p f rows)"
  by (simp add: keys_distinct_def)

lemma delete_where_distinct [inv_intros]:
  "keys_distinct key rows \<Longrightarrow> keys_distinct key (delete_where p rows)"
  by (simp add: keys_distinct_def delete_where_def distinct_map_filter)

lemma upsert_row_distinct [inv_intros]:
  "(\<And>r. key (f r) = key r) \<Longrightarrow> keys_distinct key rows \<Longrightarrow> keys_distinct key (upsert_row key new f rows)"
  by (simp add: upsert_row_def keys_distinct_def)

lemma rows_affected_pos: "0 < rows_affected p rows \<longleftrightarrow> (\<exists>r \<in> set rows. p r)"
  by (auto simp: rows_affected_def filter_empty_conv)

lemma rows_affected_key:
  "keys_distinct key rows \<Longrightarrow> rows_affected (\<lambda>r. key r = k) rows =
     (case get_row key k rows of None \<Rightarrow> 0 | Some _ \<Rightarrow> 1)"
proof (induction rows)
  case (Cons r rows)
  have "key r = k \<Longrightarrow> get_row key k rows = None"
    using Cons.prems by (auto simp: get_row_None keys_distinct_def)
  then show ?case using Cons by (auto simp: rows_affected_def row_simps keys_distinct_def)
qed (simp add: rows_affected_def row_simps)

text \<open>The contract of a table with an upsert: \<^term>\<open>stored r old\<close> is the row kept for the new row
  \<^term>\<open>r\<close> when \<^term>\<open>old\<close> was there before. What a sequence of upserts leaves is proved once.\<close>

locale upsert_table =
  fixes lookup :: "'k \<Rightarrow> 't \<Rightarrow> 'r option"
    and put :: "'a \<Rightarrow> 't \<Rightarrow> 't"
    and keyof :: "'a \<Rightarrow> 'k"
    and stored :: "'a \<Rightarrow> 'r option \<Rightarrow> 'r"
  assumes lookup_put: "lookup k (put a t) =
    (if k = keyof a then Some (stored a (lookup k t)) else lookup k t)"
begin

lemma lookup_put_same: "lookup (keyof a) (put a t) = Some (stored a (lookup (keyof a) t))"
  by (simp add: lookup_put)

lemma lookup_put_other: "k \<noteq> keyof a \<Longrightarrow> lookup k (put a t) = lookup k t"
  by (simp add: lookup_put)

lemma lookup_put_all_other:
  "k \<notin> keyof ` set as \<Longrightarrow> lookup k (fold put as t) = lookup k t"
  by (induction as arbitrary: t) (auto simp: lookup_put)

lemma lookup_put_all:
  "distinct (map keyof as) \<Longrightarrow> a \<in> set as \<Longrightarrow>
     lookup (keyof a) (fold put as t) = Some (stored a (lookup (keyof a) t))"
proof (induction as arbitrary: t)
  case (Cons b as)
  show ?case
  proof (cases "a = b")
    case True
    then show ?thesis
      using Cons.prems lookup_put_all_other[of "keyof b" as "put b t"] by (simp add: lookup_put)
  next
    case False
    then have "a \<in> set as" "keyof a \<noteq> keyof b" using Cons.prems by (auto simp: rev_image_eqI)
    then show ?thesis using Cons by (simp add: lookup_put)
  qed
qed simp

lemma lookup_put_all_dom:
  "lookup k (fold put as t) \<noteq> None \<longleftrightarrow> k \<in> keyof ` set as \<or> lookup k t \<noteq> None"
  by (induction as arbitrary: t) (auto simp: lookup_put)

end

section \<open>Stored timestamps\<close>

text \<open>A time is the number of nanoseconds since the epoch. The store writes it as RFC 3339 text
  with the fraction's trailing zeros cut, and SQL compares these texts. The date and the time to
  the second have a fixed width, so they compare like the number of seconds; the fraction and
  the closing \<^verbatim>\<open>Z\<close> compare byte by byte.\<close>

type_synonym time = int

definition nanos :: int where
  "nanos = 1000000000"

fun digit_string :: "nat \<Rightarrow> int \<Rightarrow> string" where
  "digit_string 0 n = []"
| "digit_string (Suc w) n = digit_string w (n div 10) @ [char_of (48 + n mod 10)]"

definition fraction_text :: "int \<Rightarrow> string" where
  "fraction_text n = (if n = 0 then ''Z''
     else CHR ''.'' # rev (dropWhile (\<lambda>c. c = CHR ''0'') (rev (digit_string 9 n))) @ ''Z'')"

definition text_key :: "time \<Rightarrow> int \<times> string" where
  "text_key a = (a div nanos, fraction_text (a mod nanos))"

definition text_less :: "time \<Rightarrow> time \<Rightarrow> bool" where
  "text_less a b \<longleftrightarrow> text_key a < text_key b"

definition text_le :: "time \<Rightarrow> time \<Rightarrow> bool" where
  "text_le a b \<longleftrightarrow> \<not> text_less b a"

lemma text_less_irrefl [simp]: "\<not> text_less a a"
  by (simp add: text_less_def)

lemma text_less_trans: "text_less a b \<Longrightarrow> text_less b c \<Longrightarrow> text_less a c"
  unfolding text_less_def by (rule less_trans)

lemma text_less_neg_trans: "text_less a c \<Longrightarrow> text_less a b \<or> text_less b c"
  unfolding text_less_def by (metis linorder_neqE order_less_trans)

lemma text_le_refl [simp]: "text_le a a"
  by (simp add: text_le_def)

lemma text_le_trans: "text_le a b \<Longrightarrow> text_le b c \<Longrightarrow> text_le a c"
  using text_less_neg_trans by (auto simp: text_le_def)

lemma text_le_total: "text_le a b \<or> text_le b a"
  using text_less_trans[of a b a] by (auto simp: text_le_def)

text \<open>Between instants of different seconds the text order is the order of time.\<close>

lemma text_less_seconds: "a div nanos < b div nanos \<Longrightarrow> text_less a b"
  by (simp add: text_less_def text_key_def)

lemma text_le_seconds: "text_le a b \<Longrightarrow> a div nanos \<le> b div nanos"
  by (metis text_le_def linorder_not_less text_less_seconds)

lemma text_le_bound: "text_le a b \<Longrightarrow> a < b + nanos"
proof -
  assume "text_le a b"
  then have "a div nanos \<le> b div nanos" by (rule text_le_seconds)
  then have "a div nanos * nanos \<le> b div nanos * nanos" by (simp add: nanos_def)
  moreover have "a < a div nanos * nanos + nanos" "b div nanos * nanos \<le> b"
    using pos_mod_bound[of nanos a] pos_mod_sign[of nanos b]
      div_mult_mod_eq[of a nanos] div_mult_mod_eq[of b nanos]
    by (simp_all add: nanos_def)
  ultimately show "a < b + nanos" by simp
qed

lemma text_less_late: "a + nanos \<le> b \<Longrightarrow> text_less a b"
proof (rule text_less_seconds)
  assume "a + nanos \<le> b"
  then have "(a + nanos) div nanos \<le> b div nanos" by (simp add: nanos_def zdiv_mono1)
  then show "a div nanos < b div nanos" by (simp add: nanos_def)
qed

end
