(* ===== verification/Semver.thy ===== *)
theory Semver
  imports Prelude
begin

text \<open>
  \<^verbatim>\<open>internal/registry/semver.go\<close>: strict semantic version tags and the choice of the newest
  compatible tag for each update scope. The registry's tag map is a list of its keys in the
  order a run happens to visit them; Go leaves that order open, so the theorems hold for every
  order.
\<close>

section \<open>Versions\<close>

datatype semanticVersion = SemanticVersion (major: int) (minor: int) (patch: int)

definition greater :: "semanticVersion \<Rightarrow> semanticVersion \<Rightarrow> bool" where
  "greater v other =
    (if major v \<noteq> major other then major v > major other
     else if minor v \<noteq> minor other then minor v > minor other
     else patch v > patch other)"

text \<open>The submatches of \<^verbatim>\<open>^v?([0-9]+)\.([0-9]+)\.([0-9]+)$\<close>.\<close>
definition strictSemverTag :: "string \<Rightarrow> (string \<times> string \<times> string) option" where
  "strictSemverTag tag =
    (case split_on CHR ''.'' (trim_prefix tag ''v'') of
       [a, b, c] \<Rightarrow>
         if all_digits a \<and> all_digits b \<and> all_digits c then Some (a, b, c) else None
     | _ \<Rightarrow> None)"

definition parseSemanticVersion :: "string \<Rightarrow> semanticVersion option" where
  "parseSemanticVersion tag =
    (case strictSemverTag tag of
       None \<Rightarrow> None
     | Some (a, b, c) \<Rightarrow>
         Some (SemanticVersion (atoi_clamped a) (atoi_clamped b) (atoi_clamped c)))"

definition IsStrictSemverTag :: "string \<Rightarrow> bool" where
  "IsStrictSemverTag tag \<longleftrightarrow> strictSemverTag tag \<noteq> None"

section \<open>Selection\<close>

record choice =
  ch_tag :: string
  ch_version :: semanticVersion

definition zero_choice :: choice where
  "zero_choice = \<lparr>ch_tag = '''', ch_version = SemanticVersion 0 0 0\<rparr>"

definition scopes :: "string list" where
  "scopes = [''major'', ''minor'', ''patch'']"

definition compatible :: "string \<Rightarrow> semanticVersion \<Rightarrow> semanticVersion \<Rightarrow> bool" where
  "compatible scope candidate current \<longleftrightarrow>
     scope = ''major''
     \<or> (major candidate = major current \<and> scope = ''minor'')
     \<or> (major candidate = major current \<and> minor candidate = minor current \<and> scope = ''patch'')"

text \<open>Reading a Go map at an absent key gives the zero value.\<close>
definition choice_at :: "(string \<rightharpoonup> choice) \<Rightarrow> string \<Rightarrow> choice" where
  "choice_at choices scope = (case choices scope of None \<Rightarrow> zero_choice | Some c \<Rightarrow> c)"

definition choose_scope ::
    "semanticVersion \<Rightarrow> string \<Rightarrow> semanticVersion \<Rightarrow> string \<Rightarrow> (string \<rightharpoonup> choice) \<Rightarrow> (string \<rightharpoonup> choice)" where
  "choose_scope current tag candidate scope choices =
    (if compatible scope candidate current
        \<and> (ch_tag (choice_at choices scope) = ''''
           \<or> greater candidate (ch_version (choice_at choices scope)))
     then choices(scope \<mapsto> \<lparr>ch_tag = tag, ch_version = candidate\<rparr>)
     else choices)"

definition consider_tag :: "semanticVersion \<Rightarrow> string \<Rightarrow> (string \<rightharpoonup> choice) \<Rightarrow> (string \<rightharpoonup> choice)" where
  "consider_tag current tag choices =
    (case parseSemanticVersion tag of
       None \<Rightarrow> choices
     | Some candidate \<Rightarrow>
         if \<not> greater candidate current then choices
         else fold (choose_scope current tag candidate) scopes choices)"

definition SelectSemverCandidates :: "string list \<Rightarrow> string \<Rightarrow> (string \<rightharpoonup> string) option" where
  "SelectSemverCandidates tags currentTag =
    (case parseSemanticVersion currentTag of
       None \<Rightarrow> None
     | Some current \<Rightarrow>
         Some (\<lambda>scope. map_option ch_tag (fold (consider_tag current) tags Map.empty scope)))"

section \<open>The order of versions\<close>

instantiation semanticVersion :: linorder
begin

definition less_semanticVersion :: "semanticVersion \<Rightarrow> semanticVersion \<Rightarrow> bool" where
  "less_semanticVersion a b \<longleftrightarrow> greater b a"

definition less_eq_semanticVersion :: "semanticVersion \<Rightarrow> semanticVersion \<Rightarrow> bool" where
  "less_eq_semanticVersion a b \<longleftrightarrow> a = b \<or> greater b a"

instance
  by standard
    (auto simp: less_semanticVersion_def less_eq_semanticVersion_def greater_def
      semanticVersion.expand split: if_splits)

end

lemma greater_less: "greater a b \<longleftrightarrow> b < a"
  by (simp add: less_semanticVersion_def)

text \<open>Tags ordered by the version they parse to; a tag that is no version is below all.\<close>
definition newer :: "string \<Rightarrow> string \<Rightarrow> bool" where
  "newer a b \<longleftrightarrow> (case (parseSemanticVersion a, parseSemanticVersion b) of
     (Some v, Some w) \<Rightarrow> greater v w | (Some v, None) \<Rightarrow> True | _ \<Rightarrow> False)"

interpretation tag_order: preference newer
  by unfold_locales (auto simp: newer_def greater_less split: option.splits)

section \<open>Parsing\<close>

lemma trim_prefix_v:
  "trim_prefix tag ''v'' = (case tag of [] \<Rightarrow> [] | c # cs \<Rightarrow> if c = CHR ''v'' then cs else tag)"
  by (auto simp: trim_prefix_def has_prefix_def split: list.splits)

lemma strictSemverTag_shape:
  "strictSemverTag tag = Some (a, b, c) \<longleftrightarrow>
     all_digits a \<and> all_digits b \<and> all_digits c \<and>
     trim_prefix tag ''v'' = a @ ''.'' @ b @ ''.'' @ c"
proof
  assume *: "strictSemverTag tag = Some (a, b, c)"
  then have "split_on CHR ''.'' (trim_prefix tag ''v'') = [a, b, c]"
    by (auto simp: strictSemverTag_def split: list.splits if_splits)
  then have "trim_prefix tag ''v'' = join_with ''.'' [a, b, c]" by (metis join_split_on)
  then show "all_digits a \<and> all_digits b \<and> all_digits c \<and>
     trim_prefix tag ''v'' = a @ ''.'' @ b @ ''.'' @ c"
    using * by (auto simp: strictSemverTag_def split: list.splits if_splits)
next
  assume "all_digits a \<and> all_digits b \<and> all_digits c \<and>
     trim_prefix tag ''v'' = a @ ''.'' @ b @ ''.'' @ c"
  then show "strictSemverTag tag = Some (a, b, c)"
    using all_digits_no_dot by (simp add: strictSemverTag_def)
qed

lemma parse_nonempty: "parseSemanticVersion tag = Some v \<Longrightarrow> tag \<noteq> ''''"
  by (auto simp: parseSemanticVersion_def strictSemverTag_def trim_prefix_def has_prefix_def)

lemma parse_int64:
  "parseSemanticVersion tag = Some v \<Longrightarrow>
     0 \<le> major v \<and> major v \<le> max_int64 \<and> 0 \<le> minor v \<and> minor v \<le> max_int64
     \<and> 0 \<le> patch v \<and> patch v \<le> max_int64"
  by (auto simp: parseSemanticVersion_def strictSemverTag_shape atoi_clamped_range
      split: option.splits)

section \<open>The selection loop\<close>

text \<open>Which tags compete for a scope.\<close>
definition eligible :: "semanticVersion \<Rightarrow> string \<Rightarrow> string \<Rightarrow> bool" where
  "eligible current scope tag \<longleftrightarrow>
     (case parseSemanticVersion tag of
        None \<Rightarrow> False
      | Some v \<Rightarrow> greater v current \<and> scope \<in> set scopes \<and> compatible scope v current)"

definition tag_of :: "(string \<rightharpoonup> choice) \<Rightarrow> string \<Rightarrow> string option" where
  "tag_of choices scope = map_option ch_tag (choices scope)"

text \<open>A kept choice carries the version its tag parses to.\<close>
definition choices_ok :: "(string \<rightharpoonup> choice) \<Rightarrow> bool" where
  "choices_ok choices \<longleftrightarrow>
     (\<forall>scope c. choices scope = Some c \<longrightarrow> parseSemanticVersion (ch_tag c) = Some (ch_version c))"

lemma choose_scope_ok:
  "parseSemanticVersion tag = Some v \<Longrightarrow> choices_ok ch \<Longrightarrow> choices_ok (choose_scope cur tag v scope ch)"
  by (auto simp: choose_scope_def choices_ok_def)

lemma choose_scope_other:
  "scope' \<noteq> scope \<Longrightarrow> choose_scope cur tag v scope ch scope' = ch scope'"
  by (simp add: choose_scope_def)

lemma choose_scope_tag:
  assumes "parseSemanticVersion tag = Some v" "choices_ok ch"
  shows "tag_of (choose_scope cur tag v scope ch) scope =
    (if compatible scope v cur \<and> (case tag_of ch scope of None \<Rightarrow> True | Some y \<Rightarrow> newer tag y)
     then Some tag else tag_of ch scope)"
proof (cases "ch scope")
  case None
  then show ?thesis by (simp add: choose_scope_def tag_of_def choice_at_def zero_choice_def)
next
  case (Some c)
  then have p: "parseSemanticVersion (ch_tag c) = Some (ch_version c)"
    using assms by (simp add: choices_ok_def)
  then have "newer tag (ch_tag c) \<longleftrightarrow> greater v (ch_version c)"
    using assms by (simp add: newer_def)
  then show ?thesis
    using Some parse_nonempty[OF p] by (simp add: choose_scope_def tag_of_def choice_at_def)
qed

lemma consider_tag_ok: "choices_ok ch \<Longrightarrow> choices_ok (consider_tag cur tag ch)"
  by (auto simp: consider_tag_def scopes_def choose_scope_ok split: option.splits)

lemma tag_of_choose_other:
  "scope' \<noteq> scope \<Longrightarrow> tag_of (choose_scope cur tag v scope ch) scope' = tag_of ch scope'"
  by (simp add: tag_of_def choose_scope_other)

lemma consider_tag_step:
  assumes "choices_ok ch"
  shows "tag_of (consider_tag cur tag ch) scope =
    (if eligible cur scope tag \<and> (case tag_of ch scope of None \<Rightarrow> True | Some y \<Rightarrow> newer tag y)
     then Some tag else tag_of ch scope)"
proof (cases "parseSemanticVersion tag")
  case None
  then show ?thesis by (simp add: consider_tag_def eligible_def)
next
  case (Some v)
  consider "scope = ''major''" | "scope = ''minor''" | "scope = ''patch''" | "scope \<notin> set scopes"
    by (auto simp: scopes_def)
  then show ?thesis
    by cases
      (use Some assms in \<open>auto simp: consider_tag_def eligible_def scopes_def choose_scope_tag
        choose_scope_ok tag_of_choose_other\<close>)
qed

text \<open>Each scope of the two nested loops is one scan for the newest eligible tag.\<close>

lemma selection_is_scan:
  "choices_ok ch \<Longrightarrow> tag_of (fold (consider_tag cur) tags ch) scope =
     scan_best (eligible cur scope) newer (tag_of ch scope) tags"
  by (induction tags arbitrary: ch) (simp_all add: consider_tag_ok consider_tag_step)

lemma SelectSemverCandidates_scan:
  "parseSemanticVersion currentTag = Some cur \<Longrightarrow>
     SelectSemverCandidates tags currentTag =
       Some (\<lambda>scope. scan_best (eligible cur scope) newer None tags)"
  using selection_is_scan[of "Map.empty" cur tags]
  by (simp add: SelectSemverCandidates_def tag_of_def choices_ok_def)

section \<open>Properties\<close>

text \<open>C18: for every update scope and every order in which the registry's tags are visited,
  \<^verbatim>\<open>SelectSemverCandidates\<close> picks a tag of the registry that parses as a strict version, is
  newer than the running one and stays inside the scope, and no other such tag is newer; it
  picks none only when there is none.\<close>
theorem select_is_newest_compatible:
  assumes "parseSemanticVersion currentTag = Some cur"
    and "SelectSemverCandidates tags currentTag = Some out"
  shows "(case out scope of
      None \<Rightarrow> \<forall>t \<in> set tags. \<not> eligible cur scope t
    | Some best \<Rightarrow> best \<in> set tags \<and> eligible cur scope best
        \<and> (\<forall>t \<in> set tags. eligible cur scope t \<longrightarrow> \<not> newer t best))"
proof -
  have "out scope = scan_best (eligible cur scope) newer None tags"
    using assms SelectSemverCandidates_scan[OF assms(1)] by auto
  then show ?thesis using tag_order.scan_best_cases[of tags "eligible cur scope"] by simp
qed

theorem select_is_newest_compatible_witness:
  "let tags = [''1.3.0'', ''2.0.0'', ''1.2.10'', ''1.2.4-rc1'', ''latest''];
       out = the (SelectSemverCandidates tags ''1.2.3'')
   in out ''patch'' = Some ''1.2.10'' \<and> out ''minor'' = Some ''1.3.0'' \<and> out ''major'' = Some ''2.0.0''
      \<and> (\<forall>t \<in> set tags. eligible (SemanticVersion 1 2 3) ''patch'' t \<longrightarrow> \<not> newer t ''1.2.10'')"
proof -
  let ?tags = "[''1.3.0'', ''2.0.0'', ''1.2.10'', ''1.2.4-rc1'', ''latest'']"
  let ?out = "the (SelectSemverCandidates ?tags ''1.2.3'')"
  have parse: "parseSemanticVersion ''1.2.3'' = Some (SemanticVersion 1 2 3)" by code_simp
  have out: "?out ''patch'' = Some ''1.2.10''" "?out ''minor'' = Some ''1.3.0''"
    "?out ''major'' = Some ''2.0.0''" by code_simp+
  have sel: "SelectSemverCandidates ?tags ''1.2.3'' = Some ?out"
    by (simp only: SelectSemverCandidates_def parse option.case option.sel)
  have "\<forall>t \<in> set ?tags. eligible (SemanticVersion 1 2 3) ''patch'' t \<longrightarrow> \<not> newer t ''1.2.10''"
    using select_is_newest_compatible[OF parse sel, of "''patch''"] unfolding out option.case
    by blast
  then show ?thesis unfolding Let_def using out by blast
qed

lemma selected_eligible:
  assumes "parseSemanticVersion currentTag = Some cur"
    and "SelectSemverCandidates tags currentTag = Some out" "out scope = Some best"
  shows "best \<in> set tags" "eligible cur scope best"
    "t \<in> set tags \<Longrightarrow> eligible cur scope t \<Longrightarrow> \<not> newer t best"
  using tag_order.scan_best_cases[of tags "eligible cur scope"] assms
    SelectSemverCandidates_scan[OF assms(1), of tags] by auto

lemma newer_iff:
  "parseSemanticVersion a = Some v \<Longrightarrow> parseSemanticVersion b = Some w \<Longrightarrow> newer a b \<longleftrightarrow> w < v"
  by (simp add: newer_def greater_less)

text \<open>the version chosen for a scope does not depend on the order in which Go visits the tag
  map: two visits of the same set of tags choose tags that parse to the same version.\<close>
theorem select_version_order_independent:
  assumes "set tags = set tags'"
    and "SelectSemverCandidates tags currentTag = Some out"
    and "SelectSemverCandidates tags' currentTag = Some out'"
  shows "map_option parseSemanticVersion (out scope) = map_option parseSemanticVersion (out' scope)"
proof -
  obtain cur where cur: "parseSemanticVersion currentTag = Some cur"
    using assms(2) by (auto simp: SelectSemverCandidates_def split: option.splits)
  have o: "out scope = scan_best (eligible cur scope) newer None tags"
    "out' scope = scan_best (eligible cur scope) newer None tags'"
    using assms SelectSemverCandidates_scan[OF cur] by auto
  show ?thesis
  proof (cases "out scope")
    case None
    then have "out' scope = None" using o assms(1) tag_order.scan_best_None_iff by metis
    then show ?thesis using None by simp
  next
    case (Some a)
    then obtain b where b: "out' scope = Some b"
      using o assms(1) tag_order.scan_best_None_iff by (metis not_None_eq)
    note A = selected_eligible[OF cur assms(2) Some] and B = selected_eligible[OF cur assms(3) b]
    obtain v w where vw: "parseSemanticVersion a = Some v" "parseSemanticVersion b = Some w"
      using A(2) B(2) by (auto simp: eligible_def split: option.splits)
    have "\<not> w < v" "\<not> v < w"
      using A(1,2) B(1,2) A(3)[of b] B(3)[of a] assms(1) newer_iff[OF vw] newer_iff[OF vw(2,1)]
      by auto
    then show ?thesis using Some b vw by simp
  qed
qed

theorem select_version_order_independent_witness:
  "let out = the (SelectSemverCandidates [''v1.2.4'', ''1.2.4'', ''1.2.0''] ''1.2.3'');
       out' = the (SelectSemverCandidates [''1.2.0'', ''1.2.4'', ''v1.2.4''] ''1.2.3'')
   in out ''patch'' = Some ''v1.2.4'' \<and> out' ''patch'' = Some ''1.2.4''
      \<and> map_option parseSemanticVersion (out ''patch'') = map_option parseSemanticVersion (out' ''patch'')"
proof -
  let ?a = "SelectSemverCandidates [''v1.2.4'', ''1.2.4'', ''1.2.0''] ''1.2.3''"
  let ?b = "SelectSemverCandidates [''1.2.0'', ''1.2.4'', ''v1.2.4''] ''1.2.3''"
  have parse: "parseSemanticVersion ''1.2.3'' = Some (SemanticVersion 1 2 3)" by code_simp
  have some: "?a = Some (the ?a)" "?b = Some (the ?b)"
    by (simp_all only: SelectSemverCandidates_def parse option.case option.sel)
  have out: "the ?a ''patch'' = Some ''v1.2.4''" "the ?b ''patch'' = Some ''1.2.4''"
    by code_simp+
  show ?thesis
    unfolding Let_def
    using select_version_order_independent[OF _ some, of "''patch''"] out by auto
qed

lemma eligible_nested:
  "eligible cur ''patch'' t \<Longrightarrow> eligible cur ''minor'' t"
  "eligible cur ''minor'' t \<Longrightarrow> eligible cur ''major'' t"
  by (auto simp: eligible_def compatible_def scopes_def split: option.splits)

text \<open>the scopes nest. When a patch update is offered, a minor update at least as new is
  offered, and when a minor update is offered, a major update at least as new is offered; every
  offered version is newer than the current one.\<close>
theorem select_scopes_nest:
  assumes "parseSemanticVersion currentTag = Some cur"
    and "SelectSemverCandidates tags currentTag = Some out"
    and "(inner, outer) \<in> {(''patch'', ''minor''), (''minor'', ''major'')}"
    and "out inner = Some a"
  shows "\<exists>b v w. out outer = Some b \<and> parseSemanticVersion a = Some v
    \<and> parseSemanticVersion b = Some w \<and> cur < v \<and> v \<le> w"
proof -
  note A = selected_eligible[OF assms(1,2,4)]
  have a: "eligible cur outer a" using A(2) assms(3) eligible_nested by auto
  then obtain b where b: "out outer = Some b"
    using A(1) assms(1,2) SelectSemverCandidates_scan[OF assms(1), of tags]
      tag_order.scan_best_None_iff[of "eligible cur outer" tags] by (cases "out outer") auto
  note B = selected_eligible[OF assms(1,2) b]
  obtain v w where vw: "parseSemanticVersion a = Some v" "parseSemanticVersion b = Some w" "cur < v"
    using A(2) B(2) by (auto simp: eligible_def greater_less split: option.splits)
  then have "\<not> w < v" using B(3)[OF A(1) a] newer_iff by blast
  then show ?thesis using b vw by auto
qed

theorem select_scopes_nest_witness:
  "\<exists>b v w. the (SelectSemverCandidates [''1.2.5'', ''1.9.0'', ''3.0.0''] ''1.2.3'') ''minor'' = Some b
     \<and> parseSemanticVersion ''1.2.5'' = Some v \<and> parseSemanticVersion b = Some w
     \<and> SemanticVersion 1 2 3 < v \<and> v \<le> w"
proof -
  let ?s = "SelectSemverCandidates [''1.2.5'', ''1.9.0'', ''3.0.0''] ''1.2.3''"
  have parse: "parseSemanticVersion ''1.2.3'' = Some (SemanticVersion 1 2 3)" by code_simp
  have some: "?s = Some (the ?s)"
    by (simp only: SelectSemverCandidates_def parse option.case option.sel)
  have out: "the ?s ''patch'' = Some ''1.2.5''" by code_simp
  show ?thesis
    by (rule select_scopes_nest[OF parse some _ out]) simp
qed

end
