(* ===== verification/Reference.thy ===== *)
theory Reference
  imports Semver
begin

text \<open>
  The pure part of \<^verbatim>\<open>internal/registry/registry.go\<close> and \<^verbatim>\<open>semver.go\<close>'s \<^verbatim>\<open>ReplaceTag\<close>: image references,
  the shape of version tags, publisher version labels, and the resolution of a digest to the most
  specific tag. A Go map is the list of its entries in the order a range loop visits them, which
  Go leaves open: the theorems hold for every order. The digest grammar belongs to the package
  \<^verbatim>\<open>go-digest\<close> and is the parameter \<^term>\<open>digest_valid\<close>.
\<close>

section \<open>References\<close>

record Ref =
  Registry :: string
  Repository :: string
  Tag :: string

definition hub_registry :: string where
  "hub_registry = ''registry-1.docker.io''"

definition host_like :: "string \<Rightarrow> bool" where
  "host_like first \<longleftrightarrow> CHR ''.'' \<in> set first \<or> CHR '':'' \<in> set first \<or> first = ''localhost''"

definition ParseRef :: "string \<Rightarrow> Ref" where
  "ParseRef img =
    (let (registry, remainder) =
       (case cut_first (CHR ''/'') img of
          None \<Rightarrow> (hub_registry, img)
        | Some (first, rest) \<Rightarrow> if host_like first then (first, rest) else (hub_registry, img));
       (repo, tag) =
       (case cut_last (CHR '':'') remainder of
          None \<Rightarrow> (remainder, ''latest'')
        | Some (r, t) \<Rightarrow> (r, t));
       registry = (if registry = ''docker.io'' \<or> registry = ''index.docker.io'' then hub_registry
                   else registry);
       repo = (if registry = hub_registry \<and> \<not> str_contains repo ''/'' then ''library/'' @ repo else repo)
     in \<lparr>Registry = registry, Repository = repo, Tag = tag\<rparr>)"

definition ReplaceTag :: "Ref \<Rightarrow> string \<Rightarrow> string" where
  "ReplaceTag ref tag =
    (let prefix =
       (if Registry ref \<noteq> hub_registry then Registry ref @ ''/'' @ Repository ref
        else if length (Repository ref) > length ''library/'' \<and> has_prefix (Repository ref) ''library/''
        then drop (length ''library/'') (Repository ref)
        else Repository ref)
     in prefix @ '':'' @ tag)"

definition IsDigestReference :: "(string \<Rightarrow> bool) \<Rightarrow> string \<Rightarrow> bool" where
  "IsDigestReference digest_valid img =
    (let s = trim_space img;
         s = (case cut_last (CHR ''@'') s of None \<Rightarrow> s | Some (_, d) \<Rightarrow> d)
     in digest_valid s)"

definition ClassifyUpdate :: "string \<Rightarrow> string \<Rightarrow> bool \<Rightarrow> string" where
  "ClassifyUpdate currentVersion availableVersion updateAvailable =
    (if \<not> updateAvailable then ''''
     else if currentVersion \<noteq> '''' \<and> availableVersion \<noteq> ''''
       \<and> \<not> has_prefix currentVersion ''sha256:'' \<and> \<not> has_prefix availableVersion ''sha256:''
       \<and> currentVersion = availableVersion
     then ''rebuild'' else ''version'')"

section \<open>Version tags\<close>

definition floatingTags :: "string list" where
  "floatingTags = [''latest'', ''stable'', ''edge'', ''nightly'', ''master'', ''main'', ''dev'',
     ''beta'', ''alpha'', ''rc'', ''testing'', ''unstable'']"

definition is_alnum :: "char \<Rightarrow> bool" where
  "is_alnum c \<longleftrightarrow> is_digit c \<or> (CHR ''A'' \<le> c \<and> c \<le> CHR ''Z'') \<or> (CHR ''a'' \<le> c \<and> c \<le> CHR ''z'')"

text \<open>An optional \<^verbatim>\<open>v\<close>, one to four numbers separated by dots, then hyphenated qualifiers.\<close>
definition versionTagPattern :: "string \<Rightarrow> bool" where
  "versionTagPattern s =
    (let segments = split_on (CHR ''-'') s;
         numbers = split_on (CHR ''.'') (trim_prefix (hd segments) ''v'')
     in length numbers \<le> 4 \<and> list_all all_digits numbers
        \<and> list_all (\<lambda>q. q \<noteq> [] \<and> list_all is_alnum q) (tl segments))"

text \<open>\<^verbatim>\<open>([._-][A-Za-z0-9]+)*$\<close>\<close>
function qualifiers :: "string \<Rightarrow> bool" where
  "qualifiers [] = True"
| "qualifiers (c # s) =
    (c \<in> {CHR ''.'', CHR ''_'', CHR ''-''} \<and> takeWhile is_alnum s \<noteq> []
     \<and> qualifiers (dropWhile is_alnum s))"
  by pat_completeness auto
termination
  by (relation "measure length") (auto simp: le_imp_less_Suc length_dropWhile_le)

text \<open>\<^verbatim>\<open>v?[0-9]+\.[0-9]+\.[0-9]+([._-][A-Za-z0-9]+)*$\<close> from the start of the string.\<close>
definition release_here :: "string \<Rightarrow> bool" where
  "release_here s =
    (let a = trim_prefix s ''v'' in
     takeWhile is_digit a \<noteq> []
     \<and> (case dropWhile is_digit a of
          c # b \<Rightarrow> c = CHR ''.'' \<and> takeWhile is_digit b \<noteq> []
            \<and> (case dropWhile is_digit b of
                 d # e \<Rightarrow> d = CHR ''.'' \<and> takeWhile is_digit e \<noteq> [] \<and> qualifiers (dropWhile is_digit e)
               | [] \<Rightarrow> False)
        | [] \<Rightarrow> False))"

fun release_later :: "string \<Rightarrow> bool" where
  "release_later [] = False"
| "release_later (c # s) = ((c = CHR ''-'' \<or> c = CHR ''_'') \<and> release_here s \<or> release_later s)"

definition compositeVersionTagPattern :: "string \<Rightarrow> bool" where
  "compositeVersionTagPattern s = (release_here s \<or> release_later s)"

definition IsVersionTag :: "string \<Rightarrow> bool" where
  "IsVersionTag tag =
    (to_lower tag \<notin> set floatingTags \<and> (versionTagPattern tag \<or> compositeVersionTagPattern tag))"

definition NormalizeVersionLabel :: "string \<Rightarrow> string" where
  "NormalizeVersionLabel v =
    (let w = fold (\<lambda>p s. trim_prefix s p) [''refs/tags/'', ''refs/heads/'', ''version/''] (trim_space v)
     in if \<not> IsVersionTag w then '''' else w)"

definition normalizeKey :: "string \<Rightarrow> string" where
  "normalizeKey s = map to_lower_char (filter is_alnum s)"

text \<open>The entries of a label map whose key names a version of the repository.\<close>
definition repo_version :: "string \<Rightarrow> string \<times> string \<Rightarrow> string" where
  "repo_version repoKey kv =
    (if \<not> str_contains (to_lower (fst kv)) ''version'' \<or> \<not> str_contains (normalizeKey (fst kv)) repoKey
     then '''' else NormalizeVersionLabel (snd kv))"

text \<open>The loop over the labels; it returns the empty string at the first disagreement.\<close>
fun match_labels :: "string \<Rightarrow> string \<Rightarrow> (string \<times> string) list \<Rightarrow> string" where
  "match_labels repoKey found [] = found"
| "match_labels repoKey found (kv # kvs) =
    (if repo_version repoKey kv = '''' then match_labels repoKey found kvs
     else if found \<noteq> '''' \<and> found \<noteq> repo_version repoKey kv then ''''
     else match_labels repoKey (repo_version repoKey kv) kvs)"

definition label_at :: "(string \<times> string) list \<Rightarrow> string \<Rightarrow> string" where
  "label_at labels key = (case map_of labels key of None \<Rightarrow> '''' | Some v \<Rightarrow> v)"

definition VersionFromLabels :: "(string \<times> string) list \<Rightarrow> string \<Rightarrow> string" where
  "VersionFromLabels labels repository =
    (let oci = NormalizeVersionLabel (label_at labels ''org.opencontainers.image.version'');
         schema = NormalizeVersionLabel (label_at labels ''org.label-schema.version'')
     in if oci \<noteq> '''' then oci
        else if schema \<noteq> '''' then schema
        else if trim_space repository = '''' then ''''
        else let repoName = (case cut_last (CHR ''/'') repository of None \<Rightarrow> repository | Some (_, r) \<Rightarrow> r);
                 repoKey = normalizeKey repoName
             in if repoKey = '''' then '''' else match_labels repoKey '''' labels)"

section \<open>The most specific tag of a digest\<close>

definition dot_count :: "string \<Rightarrow> nat" where
  "dot_count s = length (filter (\<lambda>c. c = CHR ''.'') s)"

text \<open>The loop keeps a name with more dot-separated parts, or a shorter one with as many. Every
  name that gets past the filter matches the version pattern, so the code's flag
  \<^verbatim>\<open>direct\<close> is always set.\<close>
definition more_specific :: "string \<Rightarrow> string \<Rightarrow> bool" where
  "more_specific a b \<longleftrightarrow>
    dot_count a > dot_count b \<or> (dot_count a = dot_count b \<and> length a < length b)"

definition resolvable :: "string \<Rightarrow> string \<times> string \<Rightarrow> bool" where
  "resolvable target kv \<longleftrightarrow>
    snd kv = target \<and> to_lower (fst kv) \<notin> set floatingTags \<and> versionTagPattern (fst kv)"

text \<open>The state of the loop: \<^verbatim>\<open>best\<close>, \<^verbatim>\<open>bestDirect\<close> and \<^verbatim>\<open>bestParts\<close>.\<close>
definition resolve_step :: "string \<Rightarrow> string \<times> string \<Rightarrow> string \<times> bool \<times> int \<Rightarrow> string \<times> bool \<times> int" where
  "resolve_step target kv acc =
    (let (name, digest) = kv; (best, bestDirect, bestParts) = acc in
     if digest \<noteq> target \<or> to_lower name \<in> set floatingTags then acc
     else if \<not> versionTagPattern name then acc
     else (let direct = versionTagPattern name;
               parts = int (dot_count name) + 1
           in if best = '''' \<or> (direct \<and> \<not> bestDirect)
                \<or> (direct = bestDirect
                    \<and> (parts > bestParts \<or> (parts = bestParts \<and> length name < length best)))
              then (name, direct, parts) else acc))"

definition ResolveVersion :: "(string \<times> string) list \<Rightarrow> string \<Rightarrow> string option" where
  "ResolveVersion tags target =
    (if target = '''' then None
     else let (best, _, _) = fold (resolve_step target) tags ('''', False, -1)
          in if best \<noteq> '''' then Some best else None)"

section \<open>Round trip of references\<close>

lemma str_contains_char: "str_contains s [c] \<longleftrightarrow> c \<in> set s"
proof -
  have "(\<exists>a b. s = a @ c # b) \<longleftrightarrow> c \<in> set s" by (metis in_set_conv_decomp)
  then show ?thesis by (simp add: str_contains_iff)
qed

lemma cut_last_append [simp]: "c \<notin> set b \<Longrightarrow> cut_last c (a @ c # b) = Some (a, b)"
  by (simp add: cut_last_Some)

text \<open>The host of a parsed reference, other than Docker Hub, looks like a host and has no slash.\<close>

lemma ParseRef_registry:
  assumes "Registry (ParseRef img) \<noteq> hub_registry"
  shows "host_like (Registry (ParseRef img)) \<and> CHR ''/'' \<notin> set (Registry (ParseRef img))
     \<and> Registry (ParseRef img) \<notin> {''docker.io'', ''index.docker.io''}"
  using assms
  by (auto simp: ParseRef_def Let_def hub_registry_def split: option.splits if_splits prod.splits
      dest!: cut_first_SomeD)

lemma ParseRef_host:
  assumes "host_like h" "CHR ''/'' \<notin> set h" "h \<notin> {''docker.io'', ''index.docker.io''}"
    "h \<noteq> hub_registry" "CHR '':'' \<notin> set t"
  shows "ParseRef (h @ ''/'' @ repo @ '':'' @ t) = \<lparr>Registry = h, Repository = repo, Tag = t\<rparr>"
  using assms by (simp add: ParseRef_def)

lemma ParseRef_hub_repo:
  assumes "CHR ''/'' \<notin> set a" "\<not> host_like a" "CHR '':'' \<notin> set t"
  shows "ParseRef (a @ ''/'' @ b @ '':'' @ t) =
    \<lparr>Registry = hub_registry, Repository = a @ ''/'' @ b, Tag = t\<rparr>"
proof -
  have "cut_last (CHR '':'') (a @ ''/'' @ b @ '':'' @ t) = Some (a @ ''/'' @ b, t)"
    using cut_last_append[of "CHR '':''" t "a @ ''/'' @ b"] assms(3) by simp
  then show ?thesis using assms(1,2) by (simp add: ParseRef_def str_contains_char hub_registry_def)
qed

lemma ParseRef_hub_library:
  assumes "CHR ''/'' \<notin> set r" "CHR '':'' \<notin> set t" "CHR ''/'' \<notin> set t"
  shows "ParseRef (r @ '':'' @ t) =
    \<lparr>Registry = hub_registry, Repository = ''library/'' @ r, Tag = t\<rparr>"
proof -
  have "cut_last (CHR '':'') (r @ '':'' @ t) = Some (r, t)"
    using cut_last_append[of "CHR '':''" t r] assms(2) by simp
  then show ?thesis using assms(1,3)
    by (simp add: ParseRef_def str_contains_char hub_registry_def cut_first_None[THEN iffD2])
qed

text \<open>The references whose tag can be replaced and read back: those of a registry with its own
  host, and on Docker Hub the official images and the namespaces that cannot be mistaken for a
  host name.\<close>

definition replaceable :: "Ref \<Rightarrow> bool" where
  "replaceable ref \<longleftrightarrow> Registry ref \<noteq> hub_registry
    \<or> (case cut_first (CHR ''/'') (Repository ref) of
         None \<Rightarrow> False
       | Some (ns, name) \<Rightarrow>
           if ns = ''library'' then name \<noteq> '''' \<and> CHR ''/'' \<notin> set name else \<not> host_like ns)"

text \<open>C25: The reference the check builds for a newer tag of an image parses back to the same
  registry and repository with that tag, so the update that is offered is an update of the same
  image.\<close>

theorem replaced_tag_same_image:
  assumes "replaceable (ParseRef img)" "CHR '':'' \<notin> set t" "CHR ''/'' \<notin> set t"
  shows "ParseRef (ReplaceTag (ParseRef img) t) = (ParseRef img)\<lparr>Tag := t\<rparr>"
proof (cases "Registry (ParseRef img) = hub_registry")
  case False
  then show ?thesis
    using ParseRef_host[of "Registry (ParseRef img)" t "Repository (ParseRef img)"]
      ParseRef_registry[OF False] assms(2)
    by (simp add: ReplaceTag_def Let_def)
next
  case hub: True
  then obtain ns name where
    cut: "cut_first (CHR ''/'') (Repository (ParseRef img)) = Some (ns, name)"
    and ok: "if ns = ''library'' then name \<noteq> '''' \<and> CHR ''/'' \<notin> set name else \<not> host_like ns"
    using assms(1) by (auto simp: replaceable_def split: option.splits)
  have repo: "Repository (ParseRef img) = ns @ ''/'' @ name" and ns: "CHR ''/'' \<notin> set ns"
    using cut_first_SomeD[OF cut] by auto
  show ?thesis
  proof (cases "ns = ''library''")
    case True
    have "ReplaceTag (ParseRef img) t = name @ '':'' @ t"
      using True repo ok hub by (auto simp: ReplaceTag_def has_prefix_iff)
    then show ?thesis using ParseRef_hub_library[of name t] assms True repo ok hub by simp
  next
    case False
    have "\<not> has_prefix (ns @ ''/'' @ name) ''library/''"
    proof
      assume "has_prefix (ns @ ''/'' @ name) ''library/''"
      then obtain u where "ns @ CHR ''/'' # name = ''library'' @ CHR ''/'' # u"
        by (auto simp: has_prefix_iff)
      then have "cut_first (CHR ''/'') (''library'' @ CHR ''/'' # u) = Some (ns, name)"
        using cut_first_append[OF ns, of name] by (simp only:)
      moreover have "cut_first (CHR ''/'') (''library'' @ CHR ''/'' # u) = Some (''library'', u)"
        by (rule cut_first_append) simp
      ultimately show False using False by simp
    qed
    then have "ReplaceTag (ParseRef img) t = ns @ ''/'' @ name @ '':'' @ t"
      using repo hub by (simp add: ReplaceTag_def)
    then show ?thesis using ParseRef_hub_repo[of ns t name] assms False repo ok ns hub by simp
  qed
qed

theorem replaced_tag_same_image_witness:
  "ParseRef (ReplaceTag (ParseRef ''ghcr.io/karakeep-app/karakeep:release'') ''1.2.3'') =
     (ParseRef ''ghcr.io/karakeep-app/karakeep:release'')\<lparr>Tag := ''1.2.3''\<rparr>
   \<and> ReplaceTag (ParseRef ''redis:7'') ''8.0.0'' = ''redis:8.0.0''"
proof
  show "ParseRef (ReplaceTag (ParseRef ''ghcr.io/karakeep-app/karakeep:release'') ''1.2.3'') =
     (ParseRef ''ghcr.io/karakeep-app/karakeep:release'')\<lparr>Tag := ''1.2.3''\<rparr>"
    by (rule replaced_tag_same_image) code_simp+
  show "ReplaceTag (ParseRef ''redis:7'') ''8.0.0'' = ''redis:8.0.0''" by code_simp
qed

text \<open>A Docker Hub namespace with a dot is not read back: the tag replacement drops the registry
  host, and the namespace is then taken for one.\<close>

lemma replaced_tag_dotted_namespace:
  "ParseRef ''docker.io/foo.bar/app:1.0.0'' =
     \<lparr>Registry = hub_registry, Repository = ''foo.bar/app'', Tag = ''1.0.0''\<rparr>
   \<and> ParseRef (ReplaceTag (ParseRef ''docker.io/foo.bar/app:1.0.0'') ''1.1.0'') =
     \<lparr>Registry = ''foo.bar'', Repository = ''app'', Tag = ''1.1.0''\<rparr>"
  by code_simp

section \<open>Resolution of a digest\<close>

interpretation specific: preference more_specific
  by unfold_locales (auto simp: more_specific_def)

definition resolve_state :: "string option \<Rightarrow> string \<times> bool \<times> int" where
  "resolve_state o1 = (case o1 of None \<Rightarrow> ('''', False, -1) | Some b \<Rightarrow> (b, True, int (dot_count b) + 1))"

lemma versionTagPattern_ne: "versionTagPattern s \<Longrightarrow> s \<noteq> []"
  by (auto simp: versionTagPattern_def all_digits_def trim_prefix_def has_prefix_def)

lemma resolve_fold:
  assumes "case acc of None \<Rightarrow> True | Some b \<Rightarrow> b \<noteq> ''''"
  shows "fold (resolve_step target) tags (resolve_state acc) =
    resolve_state (scan_best (\<lambda>n. n \<noteq> '''') more_specific acc (map fst (filter (resolvable target) tags)))"
  using assms
proof (induction tags arbitrary: acc)
  case (Cons kv tags)
  obtain name digest where kv: "kv = (name, digest)" by (cases kv)
  show ?case
  proof (cases "resolvable target kv")
    case False
    then have "resolve_step target kv (resolve_state acc) = resolve_state acc"
      by (auto simp: resolve_step_def kv resolvable_def split: prod.splits)
    then show ?thesis using False Cons by simp
  next
    case True
    then have v: "versionTagPattern name" and ne: "name \<noteq> ''''"
      and d: "digest = target" "to_lower name \<notin> set floatingTags"
      using versionTagPattern_ne by (auto simp: resolvable_def kv)
    have step: "resolve_step target kv (resolve_state acc) =
      resolve_state (if case acc of None \<Rightarrow> True | Some b \<Rightarrow> more_specific name b then Some name else acc)"
      using Cons.prems v d
      by (cases acc) (auto simp: resolve_step_def kv resolve_state_def more_specific_def)
    have "case (if case acc of None \<Rightarrow> True | Some b \<Rightarrow> more_specific name b then Some name else acc)
      of None \<Rightarrow> True | Some b \<Rightarrow> b \<noteq> ''''"
      using Cons.prems ne by (auto split: option.splits)
    from Cons.IH[OF this] show ?thesis using True step ne by (simp add: kv)
  qed
qed simp

text \<open>\<^verbatim>\<open>ResolveVersion\<close> names a digest by a version tag that the registry publishes for it;
  no other version tag of that digest has more components, or as many in fewer characters. It
  answers nothing only when the digest has no version tag. The order in which the map is visited
  does not matter for this.\<close>

theorem resolve_version_most_specific:
  assumes "target \<noteq> ''''"
  shows "case ResolveVersion tags target of
      Some name \<Rightarrow> (name, target) \<in> set tags \<and> versionTagPattern name
        \<and> to_lower name \<notin> set floatingTags
        \<and> (\<forall>other. (other, target) \<in> set tags \<and> versionTagPattern other
             \<and> to_lower other \<notin> set floatingTags
             \<longrightarrow> dot_count other \<le> dot_count name
               \<and> (dot_count other = dot_count name \<longrightarrow> length name \<le> length other))
    | None \<Rightarrow> \<not> (\<exists>name. (name, target) \<in> set tags \<and> versionTagPattern name
        \<and> to_lower name \<notin> set floatingTags)"
proof -
  let ?names = "map fst (filter (resolvable target) tags)"
  have mem: "n \<in> set ?names \<longleftrightarrow>
      (n, target) \<in> set tags \<and> versionTagPattern n \<and> to_lower n \<notin> set floatingTags" for n
    by (force simp: resolvable_def)
  have ne: "n \<in> set ?names \<Longrightarrow> n \<noteq> ''''" for n using mem versionTagPattern_ne by blast
  have fold: "fold (resolve_step target) tags ('''', False, - 1) =
      resolve_state (scan_best (\<lambda>n. n \<noteq> '''') more_specific None ?names)"
    using resolve_fold[of None target tags] by (simp add: resolve_state_def)
  show ?thesis
  proof (cases "scan_best (\<lambda>n. n \<noteq> '''') more_specific None ?names")
    case None
    then have "\<forall>n \<in> set ?names. n = ''''"
      using specific.scan_best_None_iff[of "\<lambda>n. n \<noteq> ''''" ?names] by blast
    then have "\<not> (\<exists>n. n \<in> set ?names)" using ne by blast
    moreover have "ResolveVersion tags target = None"
      unfolding ResolveVersion_def fold None resolve_state_def using assms by simp
    ultimately show ?thesis unfolding mem by simp
  next
    case (Some b)
    then have b: "b \<in> set ?names" "b \<noteq> ''''" using specific.scan_best_mem[OF Some] by auto
    have max: "n \<in> set ?names \<Longrightarrow> \<not> more_specific n b" for n
      using specific.scan_best_max[OF Some] ne by blast
    have "ResolveVersion tags target = Some b"
      unfolding ResolveVersion_def fold Some resolve_state_def using assms b by simp
    then show ?thesis using b(1) max unfolding mem by (auto simp: more_specific_def not_less)
  qed
qed

theorem resolve_version_most_specific_witness:
  "ResolveVersion [(''1'', ''sha256:a''), (''latest'', ''sha256:a''), (''1.25.3'', ''sha256:a''),
     (''1.25'', ''sha256:a'')] ''sha256:a'' = Some ''1.25.3''
   \<and> dot_count ''1.25'' \<le> dot_count ''1.25.3''"
proof -
  have eq: "ResolveVersion [(''1'', ''sha256:a''), (''latest'', ''sha256:a''), (''1.25.3'', ''sha256:a''),
     (''1.25'', ''sha256:a'')] ''sha256:a'' = Some ''1.25.3''" by code_simp
  have "versionTagPattern ''1.25''" "to_lower ''1.25'' \<notin> set floatingTags" by code_simp+
  then show ?thesis
    using resolve_version_most_specific[of "''sha256:a''"
      "[(''1'', ''sha256:a''), (''latest'', ''sha256:a''), (''1.25.3'', ''sha256:a''), (''1.25'', ''sha256:a'')]"]
      eq by auto
qed

section \<open>Labels\<close>

text \<open>The version the repository's own labels agree on.\<close>
definition agreed :: "string list \<Rightarrow> string" where
  "agreed vs = (case filter (\<lambda>v. v \<noteq> '''') vs of
     [] \<Rightarrow> '''' | v # rest \<Rightarrow> if list_all (\<lambda>w. w = v) rest then v else '''')"

lemma match_labels_agreed: "match_labels k found kvs = agreed (found # map (repo_version k) kvs)"
proof (induction kvs arbitrary: found)
  case (Cons kv kvs)
  then show ?case by (auto simp: agreed_def)
qed (auto simp: agreed_def)

lemma agreed_iff: "agreed vs = v \<and> v \<noteq> '''' \<longleftrightarrow> v \<noteq> '''' \<and> v \<in> set vs \<and> set vs \<subseteq> {'''', v}"
proof -
  have "filter (\<lambda>v. v \<noteq> '''') vs = [] \<longleftrightarrow> set vs \<subseteq> {''''}" by (auto simp: filter_empty_conv)
  moreover have "set (filter (\<lambda>v. v \<noteq> '''') vs) = set vs - {''''}" by auto
  ultimately show ?thesis
    by (cases "filter (\<lambda>v. v \<noteq> '''') vs") (auto simp: agreed_def list_all_iff split: if_splits)
qed

lemma agreed_set: "set vs = set ws \<Longrightarrow> agreed vs = agreed ws"
  using agreed_iff[of vs "agreed vs"] agreed_iff[of ws "agreed ws"]
    agreed_iff[of ws "agreed vs"] agreed_iff[of vs "agreed ws"] by metis

text \<open>The version read from an image's labels does not depend on the order in which Go visits
  the label map, and it is a version tag whenever there is one.\<close>

theorem version_from_labels_deterministic:
  assumes "distinct (map fst labels)" "distinct (map fst labels')" "set labels = set labels'"
  shows "VersionFromLabels labels repo = VersionFromLabels labels' repo
    \<and> (VersionFromLabels labels repo \<noteq> '''' \<longrightarrow> IsVersionTag (VersionFromLabels labels repo))"
proof
  have m: "map_of labels = map_of labels'"
    using assms by (metis map_of_inject_set)
  have "agreed ('''' # map (repo_version k) labels) = agreed ('''' # map (repo_version k) labels')" for k
    using assms(3) by (intro agreed_set) simp
  then show "VersionFromLabels labels repo = VersionFromLabels labels' repo"
    using m by (simp add: VersionFromLabels_def label_at_def match_labels_agreed Let_def)
  have n: "NormalizeVersionLabel v \<noteq> '''' \<Longrightarrow> IsVersionTag (NormalizeVersionLabel v)" for v
    by (simp add: NormalizeVersionLabel_def Let_def split: if_splits)
  have a: "agreed ('''' # map (repo_version k) labels) \<noteq> '''' \<Longrightarrow>
      IsVersionTag (agreed ('''' # map (repo_version k) labels))" for k
    using agreed_iff[of "'''' # map (repo_version k) labels" "agreed ('''' # map (repo_version k) labels)"] n
    by (auto simp: repo_version_def split: if_splits)
  show "VersionFromLabels labels repo \<noteq> '''' \<longrightarrow> IsVersionTag (VersionFromLabels labels repo)"
    using n a by (auto simp: VersionFromLabels_def Let_def match_labels_agreed split: option.splits)
qed

theorem version_from_labels_deterministic_witness:
  "VersionFromLabels [(''io.grav.version'', ''1.7.48''), (''maintainer'', ''x'')] ''getgrav/grav'' =
     VersionFromLabels [(''maintainer'', ''x''), (''io.grav.version'', ''1.7.48'')] ''getgrav/grav''
   \<and> VersionFromLabels [(''io.grav.version'', ''1.7.48''), (''maintainer'', ''x'')] ''getgrav/grav'' = ''1.7.48''"
proof
  show "VersionFromLabels [(''io.grav.version'', ''1.7.48''), (''maintainer'', ''x'')] ''getgrav/grav'' =
     VersionFromLabels [(''maintainer'', ''x''), (''io.grav.version'', ''1.7.48'')] ''getgrav/grav''"
    by (rule version_from_labels_deterministic[THEN conjunct1]) auto
  show "VersionFromLabels [(''io.grav.version'', ''1.7.48''), (''maintainer'', ''x'')] ''getgrav/grav'' = ''1.7.48''"
    by code_simp
qed

end
