(* ===== verification/Watches.thy ===== *)
theory Watches
  imports Prelude
begin

text \<open>
  \<^verbatim>\<open>internal/store/crashloop.go\<close>: the durable record that protects a freshly updated container.
  A watch counts crashes inside its window and hands the automatic rollback to exactly one
  caller. The table is the list of its rows, keyed by container name.
\<close>

section \<open>The table\<close>

datatype store_error = ErrNotFound | ErrProtected | ErrInvalid | ErrConflict

record RollbackWatch =
  w_container_name :: string
  w_container_id :: string
  w_update_applied_at :: time
  w_window_expires_at :: time
  w_crash_count :: int
  w_threshold :: int
  w_observed_restart_count :: int
  w_last_event_nano :: int
  w_last_crash_at :: "time option"
  w_triggered_at :: "time option"
  w_status :: string

type_synonym watch_table = "RollbackWatch list"

definition ArmRollbackWatch ::
    "string \<Rightarrow> string \<Rightarrow> time \<Rightarrow> int \<Rightarrow> int \<Rightarrow> int \<Rightarrow> watch_table \<Rightarrow> watch_table" where
  "ArmRollbackWatch name cid appliedAt window threshold restartCount tbl =
    (let new = \<lparr>w_container_name = name, w_container_id = cid, w_update_applied_at = appliedAt,
                w_window_expires_at = appliedAt + window, w_crash_count = 0,
                w_threshold = threshold, w_observed_restart_count = restartCount,
                w_last_event_nano = 0, w_last_crash_at = None, w_triggered_at = None,
                w_status = ''active''\<rparr>
     in upsert_row w_container_name new
       (\<lambda>r. r\<lparr>w_container_id := cid, w_update_applied_at := appliedAt,
              w_window_expires_at := appliedAt + window, w_crash_count := 0,
              w_threshold := threshold, w_observed_restart_count := restartCount,
              w_last_event_nano := 0, w_last_crash_at := None, w_triggered_at := None,
              w_status := ''active''\<rparr>) tbl)"

definition GetRollbackWatch :: "string \<Rightarrow> watch_table \<Rightarrow> (store_error, RollbackWatch) result" where
  "GetRollbackWatch name tbl =
    (case get_row w_container_name name tbl of None \<Rightarrow> Inl ErrNotFound | Some w \<Rightarrow> Inr w)"

definition listRollbackWatches :: "string \<Rightarrow> watch_table \<Rightarrow> RollbackWatch list" where
  "listRollbackWatches status tbl =
    sort_key (\<lambda>w. text_key (w_update_applied_at w)) (filter (\<lambda>w. w_status w = status) tbl)"

definition ListActiveRollbackWatches :: "watch_table \<Rightarrow> RollbackWatch list" where
  "ListActiveRollbackWatches = listRollbackWatches ''active''"

definition ListTriggeredRollbackWatches :: "watch_table \<Rightarrow> RollbackWatch list" where
  "ListTriggeredRollbackWatches = listRollbackWatches ''triggered''"

definition count_crash :: "int \<Rightarrow> time \<Rightarrow> RollbackWatch \<Rightarrow> RollbackWatch" where
  "count_crash eventNano at watch =
    (let w = watch\<lparr>w_crash_count := w_crash_count watch + 1,
                   w_observed_restart_count := w_observed_restart_count watch + 1,
                   w_last_event_nano := eventNano, w_last_crash_at := Some at\<rparr>
     in if w_crash_count w \<ge> w_threshold w
        then w\<lparr>w_status := ''triggered'', w_triggered_at := Some at\<rparr>
        else w)"

text \<open>The answer is the watch, whether the crash was counted, and whether this call reached the
  threshold.\<close>
definition RecordCrash :: "string \<Rightarrow> string \<Rightarrow> int \<Rightarrow> time \<Rightarrow> watch_table \<Rightarrow>
    (store_error, RollbackWatch \<times> bool \<times> bool) result \<times> watch_table" where
  "RecordCrash name cid eventNano at tbl =
    (case get_row w_container_name name tbl of
       None \<Rightarrow> (Inl ErrNotFound, tbl)
     | Some watch \<Rightarrow>
         if w_status watch \<noteq> ''active'' \<or> w_container_id watch \<noteq> cid
            \<or> \<not> at < w_window_expires_at watch \<or> eventNano \<le> w_last_event_nano watch
         then (Inr (watch, False, False), tbl)
         else
           (let w = count_crash eventNano at watch
            in (Inr (w, True, w_crash_count w \<ge> w_threshold w),
                update_where (\<lambda>r. w_container_name r = name)
                  (\<lambda>r. r\<lparr>w_crash_count := w_crash_count w,
                         w_observed_restart_count := w_observed_restart_count w,
                         w_last_event_nano := eventNano, w_last_crash_at := Some at,
                         w_triggered_at := (if w_crash_count w \<ge> w_threshold w then Some at else None),
                         w_status := (if w_crash_count w \<ge> w_threshold w then ''triggered'' else ''active'')\<rparr>)
                  tbl)))"

definition SetRollbackWatchRestartCount :: "string \<Rightarrow> int \<Rightarrow> watch_table \<Rightarrow> watch_table" where
  "SetRollbackWatchRestartCount name count tbl =
    update_where (\<lambda>r. w_container_name r = name) (\<lambda>r. r\<lparr>w_observed_restart_count := count\<rparr>) tbl"

definition CompleteRollbackWatch :: "string \<Rightarrow> string \<Rightarrow> watch_table \<Rightarrow> watch_table" where
  "CompleteRollbackWatch name status tbl =
    update_where (\<lambda>r. w_container_name r = name) (\<lambda>r. r\<lparr>w_status := status\<rparr>) tbl"

definition watch_due :: "time \<Rightarrow> RollbackWatch \<Rightarrow> bool" where
  "watch_due now r \<longleftrightarrow> w_status r = ''active'' \<and> text_le (w_window_expires_at r) now"

definition ExpireRollbackWatches :: "time \<Rightarrow> watch_table \<Rightarrow> nat \<times> watch_table" where
  "ExpireRollbackWatches now tbl =
    (rows_affected (watch_due now) tbl,
     update_where (watch_due now) (\<lambda>r. r\<lparr>w_status := ''expired''\<rparr>) tbl)"

definition CountActiveRollbackWatches :: "watch_table \<Rightarrow> nat" where
  "CountActiveRollbackWatches tbl = rows_affected (\<lambda>r. w_status r = ''active'') tbl"

section \<open>What each statement does to a row\<close>

abbreviation watch_of :: "string \<Rightarrow> watch_table \<Rightarrow> RollbackWatch option" where
  "watch_of \<equiv> get_row w_container_name"

lemma watch_after_arm [row_simps]:
  "watch_of m (ArmRollbackWatch n cid at win th rc tbl) =
    (if m = n then Some \<lparr>w_container_name = n, w_container_id = cid, w_update_applied_at = at,
                w_window_expires_at = at + win, w_crash_count = 0, w_threshold = th,
                w_observed_restart_count = rc, w_last_event_nano = 0, w_last_crash_at = None,
                w_triggered_at = None, w_status = ''active''\<rparr>
     else watch_of m tbl)"
  by (auto simp: ArmRollbackWatch_def Let_def get_upsert_row dest!: get_row_key
      split: option.splits)

lemma watch_after_complete [row_simps]:
  "watch_of m (CompleteRollbackWatch n st tbl) =
    (if m = n then map_option (\<lambda>w. w\<lparr>w_status := st\<rparr>) (watch_of m tbl) else watch_of m tbl)"
  by (cases "watch_of m tbl") (auto simp: CompleteRollbackWatch_def row_simps dest: get_row_key)

lemma watch_after_expire [row_simps]:
  "watch_of m (snd (ExpireRollbackWatches now tbl)) =
    map_option (\<lambda>w. if watch_due now w then w\<lparr>w_status := ''expired''\<rparr> else w) (watch_of m tbl)"
  by (simp add: ExpireRollbackWatches_def row_simps)

definition countable :: "string \<Rightarrow> int \<Rightarrow> time \<Rightarrow> RollbackWatch \<Rightarrow> bool" where
  "countable cid nano at w \<longleftrightarrow> w_status w = ''active'' \<and> w_container_id w = cid
     \<and> at < w_window_expires_at w \<and> w_last_event_nano w < nano"

lemma RecordCrash_row:
  assumes "watch_of n tbl = Some w" "w_triggered_at w = None"
  shows "fst (RecordCrash n cid nano at tbl) =
      (if countable cid nano at w
       then Inr (count_crash nano at w, True, w_crash_count w + 1 \<ge> w_threshold w)
       else Inr (w, False, False))"
    and "watch_of m (snd (RecordCrash n cid nano at tbl)) =
      (if m = n \<and> countable cid nano at w then Some (count_crash nano at w) else watch_of m tbl)"
proof -
  have key: "w_container_name w = n" using assms(1) by (rule get_row_key)
  show "fst (RecordCrash n cid nano at tbl) =
      (if countable cid nano at w
       then Inr (count_crash nano at w, True, w_crash_count w + 1 \<ge> w_threshold w)
       else Inr (w, False, False))"
    using assms by (auto simp: RecordCrash_def countable_def count_crash_def Let_def)
  show "watch_of m (snd (RecordCrash n cid nano at tbl)) =
      (if m = n \<and> countable cid nano at w then Some (count_crash nano at w) else watch_of m tbl)"
  proof (cases "countable cid nano at w")
    case False
    then show ?thesis using assms by (auto simp: RecordCrash_def countable_def)
  next
    case True
    show ?thesis
    proof (cases "m = n")
      case other: False
      then show ?thesis
        using True assms
        by (cases "watch_of m tbl")
          (auto simp: RecordCrash_def countable_def Let_def row_simps dest: get_row_key)
    next
      case same: True
      then show ?thesis
        using True assms key
        by (auto simp: RecordCrash_def countable_def count_crash_def Let_def row_simps)
    qed
  qed
qed

section \<open>Sequences of crash reports\<close>

text \<open>A report is the container ID, the event's nanosecond stamp and its time. Reports come from
  the event stream and from the restart counter, repeated and out of order.\<close>
type_synonym report = "string \<times> int \<times> time"

fun record_all :: "string \<Rightarrow> report list \<Rightarrow> watch_table \<Rightarrow> (bool \<times> bool) list \<times> watch_table" where
  "record_all name [] tbl = ([], tbl)"
| "record_all name ((cid, nano, at) # rs) tbl =
    (case RecordCrash name cid nano at tbl of
       (Inl _, tbl') \<Rightarrow> (let (outs, tbl'') = record_all name rs tbl' in ((False, False) # outs, tbl''))
     | (Inr (_, counted, triggered), tbl') \<Rightarrow>
         (let (outs, tbl'') = record_all name rs tbl' in ((counted, triggered) # outs, tbl'')))"

text \<open>The specification: the reports of the watched container inside the window whose stamps
  rise strictly.\<close>
fun accepted :: "string \<Rightarrow> time \<Rightarrow> int \<Rightarrow> report list \<Rightarrow> report list" where
  "accepted cid expires last_nano [] = []"
| "accepted cid expires last_nano ((c, nano, at) # rs) =
    (if c = cid \<and> at < expires \<and> last_nano < nano
     then (c, nano, at) # accepted cid expires nano rs
     else accepted cid expires last_nano rs)"

lemma record_all_done:
  assumes "watch_of n tbl = Some w" "w_status w \<noteq> ''active''"
  shows "filter snd (fst (record_all n rs tbl)) = [] \<and> snd (record_all n rs tbl) = tbl"
  using assms
  by (induction rs rule: record_all.induct[of _ n _ tbl]) (auto simp: RecordCrash_def case_prod_beta)

definition open_watch :: "RollbackWatch \<Rightarrow> bool" where
  "open_watch w \<longleftrightarrow> w_status w = ''active'' \<and> w_triggered_at w = None
     \<and> 0 \<le> w_crash_count w \<and> w_crash_count w < w_threshold w"

lemma count_crash_open:
  "open_watch w \<Longrightarrow> w_crash_count w + 1 < w_threshold w \<Longrightarrow> open_watch (count_crash nano at w)"
  by (simp add: open_watch_def count_crash_def)

lemma record_all_open:
  assumes "watch_of n tbl = Some w" "open_watch w"
  shows "\<exists>w'. watch_of n (snd (record_all n rs tbl)) = Some w'
    \<and> (let acc = int (length (accepted (w_container_id w) (w_window_expires_at w) (w_last_event_nano w) rs));
           hit = w_threshold w \<le> w_crash_count w + acc
       in length (filter snd (fst (record_all n rs tbl))) = (if hit then 1 else 0)
          \<and> w_crash_count w' = min (w_threshold w) (w_crash_count w + acc)
          \<and> w_status w' = (if hit then ''triggered'' else ''active''))"
  using assms
proof (induction rs arbitrary: tbl w)
  case Nil
  then show ?case by (simp add: open_watch_def)
next
  case (Cons r rs)
  obtain cid nano at where r: "r = (cid, nano, at)" by (cases r)
  have tr: "w_triggered_at w = None" and act: "w_status w = ''active''"
    using Cons.prems by (auto simp: open_watch_def)
  note row = RecordCrash_row[OF Cons.prems(1) tr, where cid = cid and nano = nano and at = at]
  obtain res tbl' where rc: "RecordCrash n cid nano at tbl = (res, tbl')" by (meson surj_pair)
  show ?case
  proof (cases "countable cid nano at w")
    case False
    then have res: "res = Inr (w, False, False)" and tbl': "watch_of n tbl' = Some w"
      using row(1) row(2)[where m = n] rc Cons.prems by auto
    have "accepted (w_container_id w) (w_window_expires_at w) (w_last_event_nano w) (r # rs) =
        accepted (w_container_id w) (w_window_expires_at w) (w_last_event_nano w) rs"
      using False act by (auto simp: r countable_def)
    then show ?thesis
      using Cons.IH[OF tbl' Cons.prems(2)] rc res by (simp add: r case_prod_beta Let_def)
  next
    case True
    define w1 where "w1 = count_crash nano at w"
    have res: "res = Inr (w1, True, w_crash_count w + 1 \<ge> w_threshold w)"
      and tbl': "watch_of n tbl' = Some w1"
      using row(1) row(2)[where m = n] rc True by (auto simp: w1_def)
    have acc: "accepted (w_container_id w) (w_window_expires_at w) (w_last_event_nano w) (r # rs) =
        r # accepted (w_container_id w1) (w_window_expires_at w1) (w_last_event_nano w1) rs"
      using True by (auto simp: r countable_def w1_def count_crash_def Let_def)
    show ?thesis
    proof (cases "w_crash_count w + 1 < w_threshold w")
      case more: True
      then have "open_watch w1" using Cons.prems(2) count_crash_open by (simp add: w1_def)
      moreover have "w_threshold w1 = w_threshold w" "w_crash_count w1 = w_crash_count w + 1"
        by (auto simp: w1_def count_crash_def Let_def)
      ultimately show ?thesis
        using Cons.IH[OF tbl'] rc res more acc
        by (simp add: r case_prod_beta Let_def algebra_simps)
    next
      case hit: False
      then have st: "w_status w1 = ''triggered''" "w_crash_count w1 = w_threshold w"
        using Cons.prems(2) by (auto simp: w1_def count_crash_def Let_def open_watch_def)
      then have "w_status w1 \<noteq> ''active''" by simp
      from record_all_done[OF tbl' this, of rs] show ?thesis
        using rc res hit acc tbl' st by (simp add: r case_prod_beta Let_def)
    qed
  qed
qed

section \<open>Properties\<close>

text \<open>C14: the automatic rollback is handed to exactly one caller. After a watch is armed with a
  positive threshold, whatever crash reports arrive, in whatever order and however often
  repeated, exactly one call answers that it reached the threshold if enough distinct reports of
  this container fall inside the window, and none otherwise; the stored count is the number of
  those reports, capped at the threshold.\<close>
theorem rollback_triggered_exactly_once:
  assumes "1 \<le> threshold"
  shows "\<exists>w. let armed = ArmRollbackWatch name cid appliedAt window threshold rc tbl;
                 acc = int (length (accepted cid (appliedAt + window) 0 reports))
    in watch_of name (snd (record_all name reports armed)) = Some w
       \<and> length (filter snd (fst (record_all name reports armed))) = (if threshold \<le> acc then 1 else 0)
       \<and> w_crash_count w = min threshold acc
       \<and> w_status w = (if threshold \<le> acc then ''triggered'' else ''active'')"
proof -
  let ?w = "\<lparr>w_container_name = name, w_container_id = cid, w_update_applied_at = appliedAt,
      w_window_expires_at = appliedAt + window, w_crash_count = 0, w_threshold = threshold,
      w_observed_restart_count = rc, w_last_event_nano = 0, w_last_crash_at = None,
      w_triggered_at = None, w_status = ''active''\<rparr>"
  have "watch_of name (ArmRollbackWatch name cid appliedAt window threshold rc tbl) = Some ?w"
    by (simp add: row_simps)
  moreover have "open_watch ?w" using assms by (simp add: open_watch_def)
  ultimately show ?thesis using record_all_open[of name _ ?w reports] by (simp add: Let_def)
qed

theorem rollback_triggered_exactly_once_witness:
  "length (filter snd (fst (record_all ''web''
      [(''c1'', 5, 10), (''c1'', 5, 10), (''old'', 6, 11), (''c1'', 9, 12), (''c1'', 30, 13)]
      (ArmRollbackWatch ''web'' ''c1'' 0 600 2 0 [])))) = 1"
proof -
  have acc: "accepted ''c1'' (0 + 600) 0
      [(''c1'', 5, 10), (''c1'', 5, 10), (''old'', 6, 11), (''c1'', 9, 12), (''c1'', 30, 13)] =
      [(''c1'', 5, 10), (''c1'', 9, 12), (''c1'', 30, 13)]" by code_simp
  have "(1::int) \<le> 2" by simp
  from rollback_triggered_exactly_once[OF this, of "''web''" "''c1''" 0 600 0 "[]"
      "[(''c1'', 5, 10), (''c1'', 5, 10), (''old'', 6, 11), (''c1'', 9, 12), (''c1'', 30, 13)]"]
  show ?thesis unfolding acc Let_def by (elim exE conjE) simp
qed

text \<open>expiry is exact to the second. A watch whose window ended at least a second ago is
  expired, one whose window ends a second or more from now is kept, and only the status of active
  watches changes; the count returned is the number of watches expired.\<close>
theorem expire_within_a_second:
  assumes "watch_of name tbl = Some w" "w_status w = ''active''"
  shows "(w_window_expires_at w + nanos \<le> now \<longrightarrow>
      watch_of name (snd (ExpireRollbackWatches now tbl)) = Some (w\<lparr>w_status := ''expired''\<rparr>)
      \<and> 0 < fst (ExpireRollbackWatches now tbl))
    \<and> (now + nanos \<le> w_window_expires_at w \<longrightarrow>
      watch_of name (snd (ExpireRollbackWatches now tbl)) = Some w)"
proof (intro conjI impI)
  assume "w_window_expires_at w + nanos \<le> now"
  then have "watch_due now w"
    using assms(2) text_less_late text_less_trans text_less_irrefl
    by (metis text_le_def watch_due_def)
  then show "watch_of name (snd (ExpireRollbackWatches now tbl)) = Some (w\<lparr>w_status := ''expired''\<rparr>)"
    "0 < fst (ExpireRollbackWatches now tbl)"
    using assms(1) get_row_SomeD[OF assms(1)]
    by (auto simp: row_simps ExpireRollbackWatches_def rows_affected_pos)
next
  assume "now + nanos \<le> w_window_expires_at w"
  then have "\<not> watch_due now w"
    using text_less_late by (simp add: watch_due_def text_le_def)
  then show "watch_of name (snd (ExpireRollbackWatches now tbl)) = Some w"
    using assms(1) by (simp add: row_simps)
qed

definition sample_watch :: RollbackWatch where
  "sample_watch = \<lparr>w_container_name = ''web'', w_container_id = ''c1'', w_update_applied_at = 0,
      w_window_expires_at = 5 * nanos + 510000000, w_crash_count = 1, w_threshold = 3,
      w_observed_restart_count = 1, w_last_event_nano = 7, w_last_crash_at = Some 7,
      w_triggered_at = None, w_status = ''active''\<rparr>"

theorem expire_within_a_second_witness:
  "watch_of ''web'' (snd (ExpireRollbackWatches (7 * nanos) [sample_watch])) =
     Some (sample_watch\<lparr>w_status := ''expired''\<rparr>)
   \<and> watch_of ''web'' (snd (ExpireRollbackWatches (4 * nanos) [sample_watch])) = Some sample_watch"
proof -
  have w: "watch_of ''web'' [sample_watch] = Some sample_watch"
    and st: "w_status sample_watch = ''active''" by (simp_all add: row_simps sample_watch_def)
  show ?thesis
    using expire_within_a_second[OF w st, of "7 * nanos"]
      expire_within_a_second[OF w st, of "4 * nanos"]
    by (simp add: sample_watch_def nanos_def)
qed

text \<open>inside one second the stored texts do not compare like the times. A watch whose window
  ends at .51 of a second is expired at .5 of it, ten milliseconds early, and a crash in that gap
  is no longer counted; one whose window ended on the full second is still active half a second
  later.\<close>
theorem expiry_text_order_not_chronological:
  "(let now = 5 * nanos + 500000000;
        tbl = snd (ExpireRollbackWatches now [sample_watch])
    in now < w_window_expires_at sample_watch
       \<and> map_option w_status (watch_of ''web'' tbl) = Some ''expired''
       \<and> fst (RecordCrash ''web'' ''c1'' 8 now tbl) =
           Inr (sample_watch\<lparr>w_status := ''expired''\<rparr>, False, False))
   \<and> (let w = sample_watch\<lparr>w_window_expires_at := 5 * nanos\<rparr>
      in w_window_expires_at w < 5 * nanos + 500000000
         \<and> snd (ExpireRollbackWatches (5 * nanos + 500000000) [w]) = [w])"
proof -
  have a: "text_le (5 * nanos + 510000000) (5 * nanos + 500000000)"
    and b: "\<not> text_le (5 * nanos) (5 * nanos + 500000000)" by code_simp+
  show ?thesis
    using a b by (simp add: Let_def ExpireRollbackWatches_def update_where_def watch_due_def
        sample_watch_def RecordCrash_def row_simps nanos_def)
qed

end
