(* ===== verification/Events.thy ===== *)
theory Events
  imports Prelude
begin

text \<open>
  \<^verbatim>\<open>internal/events/events.go\<close> and \<^verbatim>\<open>internal/store/events.go\<close>: the structured event, its
  redaction, its two destinations (the standard output line and the events table) and the
  filtered listing behind the Logs page. The free text of an event's message is not modelled.
\<close>

section \<open>Events\<close>

datatype level = LevelDebug | LevelInfo | LevelWarn | LevelError

datatype actor = ActorNone | ActorSystem | ActorUser | ActorSchedule

text \<open>The metadata values the program logs.\<close>
datatype any = AStr string | AInt int | ABool bool | AList "string list"

type_synonym metadata = "(string \<times> any) list"

record event =
  ev_level :: level
  ev_type :: string
  ev_container :: string
  ev_stack :: string
  ev_from_version :: string
  ev_to_version :: string
  ev_actor :: actor
  ev_actor_id :: string
  ev_request_id :: string
  ev_metadata :: metadata

definition event_of :: "level \<Rightarrow> string \<Rightarrow> string \<Rightarrow> actor \<Rightarrow> string \<Rightarrow> metadata \<Rightarrow> event" where
  "event_of lvl typ container act aid meta =
    \<lparr>ev_level = lvl, ev_type = typ, ev_container = container, ev_stack = '''',
     ev_from_version = '''', ev_to_version = '''', ev_actor = act, ev_actor_id = aid,
     ev_request_id = '''', ev_metadata = meta\<rparr>"

definition redactedKeys :: "string list" where
  "redactedKeys = [''password'', ''token'', ''api_key'', ''apikey'', ''secret'', ''credential'',
     ''webhook_url'']"

definition redact :: "metadata \<Rightarrow> metadata" where
  "redact meta =
     map (\<lambda>(k, v). if to_lower k \<in> set redactedKeys then (k, AStr ''[REDACTED]'') else (k, v)) meta"

definition parseLevel :: "string \<Rightarrow> level" where
  "parseLevel name =
    (let n = to_lower name in
     if n = ''debug'' then LevelDebug
     else if n = ''warn'' \<or> n = ''warning'' then LevelWarn
     else if n = ''error'' then LevelError
     else LevelInfo)"

definition actor_string :: "actor \<Rightarrow> string" where
  "actor_string a = (case a of ActorNone \<Rightarrow> '''' | ActorSystem \<Rightarrow> ''system'' | ActorUser \<Rightarrow> ''user''
     | ActorSchedule \<Rightarrow> ''schedule'')"

definition attr :: "string \<Rightarrow> string \<Rightarrow> metadata" where
  "attr k v = (if v \<noteq> '''' then [(k, AStr v)] else [])"

section \<open>The events table\<close>

record event_row =
  er_id :: int
  er_timestamp :: time
  er_event :: event

record log_state =
  lg_rows :: "event_row list"   \<comment> \<open>the table, in insertion order\<close>
  lg_stdout :: "metadata list"  \<comment> \<open>the attributes of each line written\<close>

definition InsertEvent :: "time \<Rightarrow> event \<Rightarrow> event_row list \<Rightarrow> event_row list" where
  "InsertEvent now e rows =
     rows @ [\<lparr>er_id = int (length rows) + 1, er_timestamp = now, er_event = e\<rparr>]"

text \<open>\<^verbatim>\<open>Emit\<close> with the store attached as sink (\<^term>\<open>sink\<close>), or before it is attached.\<close>
definition Emit :: "bool \<Rightarrow> time \<Rightarrow> event \<Rightarrow> log_state \<Rightarrow> log_state" where
  "Emit sink now e lg =
    \<lparr>lg_rows = (if sink then InsertEvent now e (lg_rows lg) else lg_rows lg),
     lg_stdout = lg_stdout lg @
       [[(''event'', AStr (ev_type e))]
        @ attr ''container'' (ev_container e)
        @ attr ''stack'' (ev_stack e)
        @ attr ''from_version'' (ev_from_version e)
        @ attr ''to_version'' (ev_to_version e)
        @ attr ''actor'' (actor_string (ev_actor e))
        @ attr ''actor_id'' (ev_actor_id e)
        @ attr ''request_id'' (ev_request_id e)
        @ map (\<lambda>(k, v). (''metadata.'' @ k, v)) (redact (ev_metadata e))]\<rparr>"

text \<open>SQLite's \<^verbatim>\<open>LIKE ... ESCAPE '\'\<close>: \<^verbatim>\<open>%\<close> matches any run, \<^verbatim>\<open>_\<close> one character, the
  escape character makes the next one literal, and ASCII letters match in either case.\<close>
fun sql_like :: "string \<Rightarrow> string \<Rightarrow> bool" where
  "sql_like [] s \<longleftrightarrow> s = []"
| "sql_like (p # ps) [] \<longleftrightarrow> p = CHR ''%'' \<and> sql_like ps []"
| "sql_like (p # ps) (c # s) \<longleftrightarrow>
    (if p = CHR ''%'' then sql_like ps (c # s) \<or> sql_like (p # ps) s
     else if p = CHR ''_'' then sql_like ps s
     else if p = CHR 0x5C then
       (case ps of [] \<Rightarrow> False | q # qs \<Rightarrow> to_lower_char q = to_lower_char c \<and> sql_like qs s)
     else to_lower_char p = to_lower_char c \<and> sql_like ps s)"

definition escapeLike :: "string \<Rightarrow> string" where
  "escapeLike s = concat (map (\<lambda>c.
     if c = CHR 0x5C then [CHR 0x5C, CHR 0x5C]
     else if c = CHR ''%'' then [CHR 0x5C, CHR ''%'']
     else if c = CHR ''_'' then [CHR 0x5C, CHR ''_'']
     else [c]) s)"

record EventFilter =
  fl_event_type :: string
  fl_container :: string
  fl_level :: string
  fl_limit :: int

definition DefaultLogsPageSize :: int where "DefaultLogsPageSize = 300"
definition MaxLogsPageSize :: int where "MaxLogsPageSize = 1000"

definition level_string :: "level \<Rightarrow> string" where
  "level_string l = (case l of LevelDebug \<Rightarrow> ''DEBUG'' | LevelInfo \<Rightarrow> ''INFO'' | LevelWarn \<Rightarrow> ''WARN''
     | LevelError \<Rightarrow> ''ERROR'')"

definition event_matches :: "EventFilter \<Rightarrow> event_row \<Rightarrow> bool" where
  "event_matches f r \<longleftrightarrow>
     (fl_event_type f = '''' \<or> sql_like (''%'' @ escapeLike (fl_event_type f) @ ''%'') (ev_type (er_event r)))
     \<and> (fl_container f = '''' \<or> sql_like (''%'' @ escapeLike (fl_container f) @ ''%'') (ev_container (er_event r)))
     \<and> (fl_level f = '''' \<or> level_string (ev_level (er_event r)) = fl_level f)"

definition ListEvents :: "EventFilter \<Rightarrow> event_row list \<Rightarrow> event_row list" where
  "ListEvents f rows =
    (let limit = (if fl_limit f \<le> 0 then DefaultLogsPageSize else fl_limit f);
         limit = (if limit > MaxLogsPageSize then MaxLogsPageSize else limit)
     in take (nat limit) (filter (event_matches f) (rev rows)))"

section \<open>Redaction\<close>

lemma redact_keys: "map fst (redact meta) = map fst meta"
  by (auto simp: redact_def)

text \<open>a value under a sensitive metadata key, in any letter case, never reaches the standard
  output line: every metadata attribute of the line that \<^verbatim>\<open>Emit\<close> adds is either a logged value of
  an insensitive key, unchanged, or the redaction marker, and no key is lost.\<close>
theorem emit_stdout_redacted:
  "\<exists>base. lg_stdout (Emit sink now e lg) =
       lg_stdout lg @ [base @ map (\<lambda>(k, v). (''metadata.'' @ k, v)) (redact (ev_metadata e))]
     \<and> length (redact (ev_metadata e)) = length (ev_metadata e)
     \<and> (\<forall>i < length (ev_metadata e). redact (ev_metadata e) ! i =
          (fst (ev_metadata e ! i),
           if to_lower (fst (ev_metadata e ! i)) \<in> set redactedKeys then AStr ''[REDACTED]''
           else snd (ev_metadata e ! i)))"
  unfolding Emit_def
  by (rule exI, intro conjI) (auto simp: redact_def case_prod_beta)

theorem emit_stdout_redacted_witness:
  "let e = event_of LevelInfo ''notification.sent'' ''web'' ActorUser ''admin''
         [(''Webhook_URL'', AStr ''https://example.org/hook''), (''count'', AInt 2)]
   in 0 < length (ev_metadata e)
      \<and> redact (ev_metadata e) ! 0 = (''Webhook_URL'', AStr ''[REDACTED]'')"
proof -
  let ?e = "event_of LevelInfo ''notification.sent'' ''web'' ActorUser ''admin''
         [(''Webhook_URL'', AStr ''https://example.org/hook''), (''count'', AInt 2)]"
  have low: "to_lower ''Webhook_URL'' \<in> set redactedKeys" by code_simp
  have len: "0 < length (ev_metadata ?e)" by (simp add: event_of_def)
  have "redact (ev_metadata ?e) ! 0 = (fst (ev_metadata ?e ! 0),
      if to_lower (fst (ev_metadata ?e ! 0)) \<in> set redactedKeys then AStr ''[REDACTED]''
      else snd (ev_metadata ?e ! 0))"
    using emit_stdout_redacted[of True 0 ?e "\<lparr>lg_rows = [], lg_stdout = []\<rparr>"] len by blast
  then show ?thesis using low len by (simp add: event_of_def)
qed

text \<open>the redaction is applied to the standard output line only. A sensitive value that a
  caller logs by mistake is absent from the line, but the events table keeps it as it was
  logged.\<close>
theorem emit_persists_unredacted:
  assumes "(k, v) \<in> set (ev_metadata e)" "to_lower k \<in> set redactedKeys" "v \<noteq> AStr ''[REDACTED]''"
  shows "(''metadata.'' @ k, v) \<notin> set (last (lg_stdout (Emit True now e lg)))
    \<and> (k, v) \<in> set (ev_metadata (er_event (last (lg_rows (Emit True now e lg)))))"
  using assms
  by (auto simp: Emit_def InsertEvent_def redact_def attr_def split: if_splits)

theorem emit_persists_unredacted_witness:
  "let e = event_of LevelInfo ''registry.tested'' '''' ActorUser ''admin'' [(''token'', AStr ''hunter2'')];
       lg = Emit True 0 e \<lparr>lg_rows = [], lg_stdout = []\<rparr>
   in (''metadata.'' @ ''token'', AStr ''hunter2'') \<notin> set (last (lg_stdout lg))
      \<and> (''token'', AStr ''hunter2'') \<in> set (ev_metadata (er_event (last (lg_rows lg))))"
proof -
  let ?e = "event_of LevelInfo ''registry.tested'' '''' ActorUser ''admin'' [(''token'', AStr ''hunter2'')]"
  have low: "to_lower ''token'' \<in> set redactedKeys" by code_simp
  have mem: "(''token'', AStr ''hunter2'') \<in> set (ev_metadata ?e)" by (simp add: event_of_def)
  show ?thesis
    unfolding Let_def by (rule emit_persists_unredacted[OF mem low]) simp
qed

section \<open>The log filter\<close>

lemma sql_like_percent: "sql_like [CHR ''%''] s"
  by (induction s) auto

lemma sql_like_any:
  "sql_like (CHR ''%'' # ps) s \<longleftrightarrow> (\<exists>a b. s = a @ b \<and> sql_like ps b)"
proof (induction s)
  case (Cons c s)
  show ?case
  proof
    assume "sql_like (CHR ''%'' # ps) (c # s)"
    then consider "sql_like ps (c # s)" | "sql_like (CHR ''%'' # ps) s" by auto
    then show "\<exists>a b. c # s = a @ b \<and> sql_like ps b"
    proof cases
      case 1
      then show ?thesis by (metis append_Nil)
    next
      case 2
      then show ?thesis using Cons by (metis append_Cons)
    qed
  next
    assume "\<exists>a b. c # s = a @ b \<and> sql_like ps b"
    then obtain a b where "c # s = a @ b" "sql_like ps b" by blast
    then show "sql_like (CHR ''%'' # ps) (c # s)" using Cons by (cases a) auto
  qed
qed auto

lemma escapeLike_Cons:
  "escapeLike (c # s) =
     (if c \<in> {CHR 0x5C, CHR ''%'', CHR ''_''} then [CHR 0x5C, c] else [c]) @ escapeLike s"
  by (auto simp: escapeLike_def)

lemma sql_like_escaped:
  "sql_like (escapeLike p @ [CHR ''%'']) s \<longleftrightarrow> (\<exists>a b. s = a @ b \<and> to_lower a = to_lower p)"
proof (induction p arbitrary: s)
  case Nil
  then show ?case using sql_like_percent by (auto simp: escapeLike_def to_lower_def)
next
  case (Cons c p)
  have step: "sql_like (escapeLike (c # p) @ [CHR ''%'']) s \<longleftrightarrow>
      (\<exists>d t. s = d # t \<and> to_lower_char c = to_lower_char d \<and> sql_like (escapeLike p @ [CHR ''%'']) t)"
    by (cases s) (auto simp: escapeLike_Cons)
  show ?case
  proof
    assume "sql_like (escapeLike (c # p) @ [CHR ''%'']) s"
    then obtain d t a b where "s = d # t" "to_lower_char c = to_lower_char d"
      "t = a @ b" "to_lower a = to_lower p"
      using step Cons by blast
    then have "s = (d # a) @ b \<and> to_lower (d # a) = to_lower (c # p)" by (simp add: to_lower_def)
    then show "\<exists>a b. s = a @ b \<and> to_lower a = to_lower (c # p)" by blast
  next
    assume "\<exists>a b. s = a @ b \<and> to_lower a = to_lower (c # p)"
    then obtain a b where ab: "s = a @ b" "to_lower a = to_lower (c # p)" by blast
    then obtain d a' where "a = d # a'" by (cases a) (auto simp: to_lower_def)
    then show "sql_like (escapeLike (c # p) @ [CHR ''%'']) s"
      using step Cons ab by (auto simp: to_lower_def)
  qed
qed

lemma to_lower_contains:
  "str_contains (to_lower s) (to_lower p) \<longleftrightarrow> (\<exists>a m b. s = a @ m @ b \<and> to_lower m = to_lower p)"
proof
  assume "str_contains (to_lower s) (to_lower p)"
  then obtain a b where "map to_lower_char s = a @ to_lower p @ b"
    by (auto simp: str_contains_iff to_lower_def)
  then obtain us ms vs where "s = us @ ms @ vs" "map to_lower_char ms = to_lower p"
    by (auto simp: map_eq_append_conv append_eq_map_conv)
  then show "\<exists>a m b. s = a @ m @ b \<and> to_lower m = to_lower p" by (auto simp: to_lower_def)
next
  assume "\<exists>a m b. s = a @ m @ b \<and> to_lower m = to_lower p"
  then obtain a m b where "s = a @ m @ b" "to_lower m = to_lower p" by blast
  then have "to_lower s = to_lower a @ to_lower p @ to_lower b" by (simp add: to_lower_def)
  then show "str_contains (to_lower s) (to_lower p)" unfolding str_contains_iff by blast
qed

text \<open>the escaping of the log filter is right: whatever the user types, wildcards and
  backslashes included, the SQL pattern built from it matches exactly the texts that contain it,
  ignoring letter case.\<close>
theorem log_filter_is_substring_search:
  "sql_like (''%'' @ escapeLike p @ ''%'') s \<longleftrightarrow> str_contains (to_lower s) (to_lower p)"
  unfolding to_lower_contains using sql_like_any[of "escapeLike p @ [CHR ''%'']" s]
  by (auto simp: sql_like_escaped)

text \<open>the Logs page listing is bounded, newest first, and drops nothing but the rows outside
  the filter and those past the limit: it is the longest allowed prefix of the matching rows
  taken from the newest.\<close>
theorem list_events_bounded_newest_first:
  "length (ListEvents f rows) \<le> nat MaxLogsPageSize
   \<and> (\<exists>rest. filter (event_matches f) (rev rows) = ListEvents f rows @ rest
        \<and> (rest = [] \<or> length (ListEvents f rows) =
             nat (if fl_limit f \<le> 0 then DefaultLogsPageSize else min (fl_limit f) MaxLogsPageSize)))"
proof -
  define n where "n = nat (if fl_limit f \<le> 0 then DefaultLogsPageSize else min (fl_limit f) MaxLogsPageSize)"
  have l: "ListEvents f rows = take n (filter (event_matches f) (rev rows))"
    by (auto simp: ListEvents_def n_def Let_def DefaultLogsPageSize_def MaxLogsPageSize_def min_def)
  have "n \<le> nat MaxLogsPageSize"
    by (auto simp: n_def DefaultLogsPageSize_def MaxLogsPageSize_def)
  then show ?thesis
    unfolding l n_def[symmetric]
    by (auto intro!: exI[of _ "drop n (filter (event_matches f) (rev rows))"])
qed

end
