(* ===== verification/Containers.thy ===== *)
theory Containers
  imports Watches Events
begin

text \<open>
  The containers table of \<^verbatim>\<open>internal/store/store.go\<close>: what discovery, the registry check and the
  updater write about a container, and the two transactions that commit an update or a rollback
  together with the container's watch. The column \<^verbatim>\<open>updated_at\<close>, which nothing reads, is left
  out.
\<close>

section \<open>The table\<close>

record ContainerRecord =
  c_id :: string
  c_name :: string
  c_stack :: string
  c_state :: string
  c_status :: string
  c_current_image :: string
  c_previous_image :: string
  c_current_version :: string
  c_available_version :: string
  c_update_available :: bool
  c_excluded :: bool
  c_last_checked_at :: "time option"

type_synonym container_table = "ContainerRecord list"

text \<open>The SQL test for an image reference pinned by digest.\<close>
definition digest_shaped :: "string \<Rightarrow> bool" where
  "digest_shaped img \<longleftrightarrow> sql_like ''sha256:%'' img \<or> sql_like ''%@%:%'' img"

definition seen_image :: "string \<Rightarrow> string \<Rightarrow> string" where
  "seen_image seen kept =
    (if digest_shaped seen \<and> kept \<noteq> '''' \<and> \<not> digest_shaped kept then kept else seen)"

definition UpsertSeen :: "ContainerRecord \<Rightarrow> container_table \<Rightarrow> container_table" where
  "UpsertSeen c tbl = upsert_row c_id
    \<lparr>c_id = c_id c, c_name = c_name c, c_stack = c_stack c, c_state = c_state c,
     c_status = c_status c, c_current_image = c_current_image c, c_previous_image = '''',
     c_current_version = '''', c_available_version = '''', c_update_available = False,
     c_excluded = c_excluded c, c_last_checked_at = None\<rparr>
    (\<lambda>r. r\<lparr>c_name := c_name c, c_stack := c_stack c, c_state := c_state c, c_status := c_status c,
           c_current_image := seen_image (c_current_image c) (c_current_image r),
           c_excluded := c_excluded c\<rparr>) tbl"

definition SetContainerState :: "string \<Rightarrow> string \<Rightarrow> string \<Rightarrow> container_table \<Rightarrow> container_table" where
  "SetContainerState cid state status tbl =
    update_where (\<lambda>r. c_id r = cid)
      (\<lambda>r. r\<lparr>c_state := state, c_status := (if status = '''' then c_status r else status)\<rparr>) tbl"

text \<open>The rows of the \<^verbatim>\<open>candidates\<close> view: timestamp, event ID, position, image.\<close>
type_synonym image_mention = "(int \<times> string) \<times> int \<times> int \<times> string"

definition image_mentions :: "string \<Rightarrow> event_row list \<Rightarrow> image_mention list" where
  "image_mentions name rows =
    concat (map (\<lambda>r. [(text_key (er_timestamp r), er_id r, 0, ev_from_version (er_event r)),
                      (text_key (er_timestamp r), er_id r, 1, ev_to_version (er_event r))])
      (filter (\<lambda>r. ev_container (er_event r) = name) rows))"

text \<open>\<^verbatim>\<open>ORDER BY timestamp DESC, id DESC, position ASC\<close>\<close>
definition later_mention :: "image_mention \<Rightarrow> image_mention \<Rightarrow> bool" where
  "later_mention a b \<longleftrightarrow>
    (fst b, fst (snd b), - fst (snd (snd b))) < (fst a, fst (snd a), - fst (snd (snd a)))"

definition mutable_mention :: "image_mention \<Rightarrow> bool" where
  "mutable_mention m \<longleftrightarrow>
    (let img = snd (snd (snd m)) in img \<noteq> '''' \<and> \<not> digest_shaped img)"

definition RecoverImageReference :: "string \<Rightarrow> event_row list \<Rightarrow> (store_error, string) result" where
  "RecoverImageReference name rows =
    (case scan_best mutable_mention later_mention None (image_mentions name rows) of
       None \<Rightarrow> Inl ErrNotFound
     | Some m \<Rightarrow> Inr (snd (snd (snd m))))"

definition RepairCurrentImage :: "string \<Rightarrow> string \<Rightarrow> container_table \<Rightarrow> container_table" where
  "RepairCurrentImage cid img tbl =
    update_where (\<lambda>r. c_id r = cid \<and> digest_shaped (c_current_image r))
      (\<lambda>r. r\<lparr>c_current_image := img\<rparr>) tbl"

definition PruneContainers :: "string list \<Rightarrow> container_table \<Rightarrow> container_table" where
  "PruneContainers liveIDs tbl =
    (if liveIDs = [] then tbl else delete_where (\<lambda>r. c_id r \<notin> set liveIDs) tbl)"

record Exclusions =
  ex_containers :: "string list"
  ex_stacks :: "string list"

definition ApplyExclusions :: "Exclusions \<Rightarrow> container_table \<Rightarrow> container_table" where
  "ApplyExclusions ex tbl =
    (let names = (if ex_containers ex = [] then [CHR 0x00 # ''doupro-no-such-container''] else ex_containers ex);
         stacks = (if ex_stacks ex = [] then [CHR 0x00 # ''doupro-no-such-stack''] else ex_stacks ex)
     in update_where (\<lambda>r. True)
          (\<lambda>r. r\<lparr>c_excluded := (c_name r \<in> set names \<or> c_stack r \<in> set stacks)\<rparr>) tbl)"

definition GetContainer :: "string \<Rightarrow> container_table \<Rightarrow> (store_error, ContainerRecord) result" where
  "GetContainer cid tbl =
    (case get_row c_id cid tbl of None \<Rightarrow> Inl ErrNotFound | Some c \<Rightarrow> Inr c)"

definition GetContainerByName :: "string \<Rightarrow> container_table \<Rightarrow> (store_error, ContainerRecord) result" where
  "GetContainerByName name tbl =
    (case get_row c_name name tbl of None \<Rightarrow> Inl ErrNotFound | Some c \<Rightarrow> GetContainer (c_id c) tbl)"

definition replaceContainerTx :: "string \<Rightarrow> ContainerRecord \<Rightarrow> container_table \<Rightarrow> container_table" where
  "replaceContainerTx oldID rec tbl =
    (let tbl' = (if oldID \<noteq> '''' \<and> oldID \<noteq> c_id rec
                 then delete_where (\<lambda>r. c_id r = oldID) tbl else tbl)
     in upsert_row c_id
       \<lparr>c_id = c_id rec, c_name = c_name rec, c_stack = c_stack rec, c_state = c_state rec,
        c_status = c_status rec, c_current_image = c_current_image rec,
        c_previous_image = c_previous_image rec, c_current_version = '''',
        c_available_version = '''', c_update_available = False, c_excluded = False,
        c_last_checked_at = None\<rparr>
       (\<lambda>r. r\<lparr>c_name := c_name rec, c_stack := c_stack rec, c_state := c_state rec,
              c_status := c_status rec, c_current_image := c_current_image rec,
              c_previous_image := c_previous_image rec, c_update_available := False,
              c_current_version := '''', c_available_version := ''''\<rparr>) tbl')"

definition ReplaceContainer :: "string \<Rightarrow> ContainerRecord \<Rightarrow> container_table \<Rightarrow> container_table" where
  "ReplaceContainer oldID rec tbl = replaceContainerTx oldID rec tbl"

definition ReplaceContainerAndArmRollback ::
    "string \<Rightarrow> ContainerRecord \<Rightarrow> time \<Rightarrow> int \<Rightarrow> int \<Rightarrow> int \<Rightarrow>
     container_table \<times> watch_table \<Rightarrow> container_table \<times> watch_table" where
  "ReplaceContainerAndArmRollback oldID rec appliedAt window threshold restartCount db =
    (replaceContainerTx oldID rec (fst db),
     ArmRollbackWatch (c_name rec) (c_id rec) appliedAt window threshold restartCount (snd db))"

definition ReplaceContainerAndCompleteRollback ::
    "string \<Rightarrow> ContainerRecord \<Rightarrow> string \<Rightarrow> container_table \<times> watch_table \<Rightarrow> container_table \<times> watch_table" where
  "ReplaceContainerAndCompleteRollback oldID rec watchStatus db =
    (replaceContainerTx oldID rec (fst db), CompleteRollbackWatch (c_name rec) watchStatus (snd db))"

definition SetUpdateAvailable :: "string \<Rightarrow> bool \<Rightarrow> time \<Rightarrow> container_table \<Rightarrow> container_table" where
  "SetUpdateAvailable cid available now tbl =
    update_where (\<lambda>r. c_id r = cid)
      (\<lambda>r. r\<lparr>c_update_available := available, c_last_checked_at := Some now\<rparr>) tbl"

definition SetVersions :: "string \<Rightarrow> string \<Rightarrow> string \<Rightarrow> container_table \<Rightarrow> container_table" where
  "SetVersions cid currentVersion availableVersion tbl =
    update_where (\<lambda>r. c_id r = cid)
      (\<lambda>r. r\<lparr>c_current_version := currentVersion, c_available_version := availableVersion\<rparr>) tbl"

definition ListContainers :: "container_table \<Rightarrow> ContainerRecord list" where
  "ListContainers tbl = sort_key (\<lambda>c. (c_stack c, c_name c)) tbl"

section \<open>Rows after each statement\<close>

abbreviation container_of :: "string \<Rightarrow> container_table \<Rightarrow> ContainerRecord option" where
  "container_of \<equiv> get_row c_id"

definition seen_row :: "ContainerRecord \<Rightarrow> ContainerRecord option \<Rightarrow> ContainerRecord" where
  "seen_row c old = (case old of
     None \<Rightarrow> c\<lparr>c_previous_image := '''', c_current_version := '''', c_available_version := '''',
              c_update_available := False, c_last_checked_at := None\<rparr>
   | Some r \<Rightarrow> r\<lparr>c_name := c_name c, c_stack := c_stack c, c_state := c_state c,
                 c_status := c_status c,
                 c_current_image := seen_image (c_current_image c) (c_current_image r),
                 c_excluded := c_excluded c\<rparr>)"

interpretation seen: upsert_table container_of UpsertSeen c_id seen_row
  by unfold_locales (auto simp: UpsertSeen_def seen_row_def row_simps split: option.splits)

definition replaced_row :: "ContainerRecord \<Rightarrow> ContainerRecord option \<Rightarrow> ContainerRecord" where
  "replaced_row rec old =
    rec\<lparr>c_current_version := '''', c_available_version := '''', c_update_available := False,
        c_excluded := (case old of None \<Rightarrow> False | Some r \<Rightarrow> c_excluded r),
        c_last_checked_at := (case old of None \<Rightarrow> None | Some r \<Rightarrow> c_last_checked_at r)\<rparr>"

lemma container_after_replace [row_simps]:
  assumes "keys_distinct c_id tbl"
  shows "container_of k (replaceContainerTx oldID rec tbl) =
    (if k = c_id rec then Some (replaced_row rec (container_of k tbl))
     else if k = oldID \<and> oldID \<noteq> '''' then None
     else container_of k tbl)"
proof -
  let ?t = "if oldID \<noteq> '''' \<and> oldID \<noteq> c_id rec then delete_where (\<lambda>r. c_id r = oldID) tbl else tbl"
  have del: "container_of k ?t =
      (if k = oldID \<and> oldID \<noteq> '''' \<and> oldID \<noteq> c_id rec then None else container_of k tbl)"
  proof (cases "container_of k tbl")
    case (Some r)
    then have "c_id r = k" by (rule get_row_key)
    then show ?thesis using Some assms by (auto simp: get_delete_where)
  qed (auto simp: get_delete_where assms)
  show ?thesis
  proof (cases "k = c_id rec")
    case False
    then show ?thesis by (simp add: replaceContainerTx_def Let_def get_upsert_row del)
  next
    case True
    show ?thesis
    proof (cases "container_of (c_id rec) tbl")
      case None
      then show ?thesis using True
        by (simp add: replaceContainerTx_def Let_def get_upsert_row del[unfolded True] replaced_row_def)
    next
      case (Some r)
      then have "c_id r = c_id rec" by (rule get_row_key)
      then show ?thesis using True Some
        by (auto simp: replaceContainerTx_def Let_def get_upsert_row del[unfolded True] replaced_row_def)
    qed
  qed
qed

lemma replace_distinct [inv_intros]:
  "keys_distinct c_id tbl \<Longrightarrow> keys_distinct c_id (replaceContainerTx oldID rec tbl)"
  by (auto simp: replaceContainerTx_def Let_def intro!: inv_intros)

lemma seen_distinct [inv_intros]:
  "keys_distinct c_id tbl \<Longrightarrow> keys_distinct c_id (UpsertSeen c tbl)"
  by (auto simp: UpsertSeen_def intro!: inv_intros)

lemma seen_all_distinct:
  "keys_distinct c_id tbl \<Longrightarrow> keys_distinct c_id (fold UpsertSeen cs tbl)"
  by (induction cs arbitrary: tbl) (auto intro: seen_distinct)

lemma prune_distinct [inv_intros]:
  "keys_distinct c_id tbl \<Longrightarrow> keys_distinct c_id (PruneContainers ids tbl)"
  by (auto simp: PruneContainers_def intro: inv_intros)

lemma container_after_prune [row_simps]:
  "keys_distinct c_id tbl \<Longrightarrow> container_of k (PruneContainers ids tbl) =
    (if ids \<noteq> [] \<and> k \<notin> set ids then None else container_of k tbl)"
  by (cases "container_of k tbl") (auto simp: PruneContainers_def row_simps dest: get_row_key)

interpretation mentions: preference later_mention
  by unfold_locales (auto simp: later_mention_def)

section \<open>Discovery\<close>

text \<open>What one check writes: every listed container is upserted, then the rows Docker no longer
  knows are pruned (\<^verbatim>\<open>Check\<close> in \<^verbatim>\<open>internal/scheduler/check.go\<close>).\<close>
definition discover :: "ContainerRecord list \<Rightarrow> container_table \<Rightarrow> container_table" where
  "discover live tbl = PruneContainers (map c_id live) (fold UpsertSeen live tbl)"

lemma seen_row_id [simp]: "c_id (seen_row c old) = (case old of None \<Rightarrow> c_id c | Some r \<Rightarrow> c_id r)"
  by (simp add: seen_row_def split: option.splits)

lemma seen_row_name [simp]: "c_name (seen_row c old) = c_name c"
  by (simp add: seen_row_def split: option.splits)

lemma container_after_discover:
  assumes "keys_distinct c_id tbl" "distinct (map c_id live)" "c \<in> set live"
  shows "container_of (c_id c) (discover live tbl) = Some (seen_row c (container_of (c_id c) tbl))"
proof -
  have "map c_id live \<noteq> []" "c_id c \<in> set (map c_id live)" using assms(3) by auto
  then show ?thesis
    using assms seen.lookup_put_all[of live c tbl] seen_all_distinct[of tbl live]
    by (simp add: discover_def container_after_prune)
qed

lemma discover_rows:
  assumes "keys_distinct c_id tbl" "distinct (map c_id live)" "live \<noteq> []" "r \<in> set (discover live tbl)"
  shows "\<exists>c \<in> set live. r = seen_row c (container_of (c_id c) tbl)"
proof -
  have d: "keys_distinct c_id (discover live tbl)"
    using assms(1) by (simp add: discover_def prune_distinct seen_all_distinct)
  have "c_id r \<in> c_id ` set live"
    using assms(3,4) by (auto simp: discover_def PruneContainers_def delete_where_def)
  then obtain c where c: "c \<in> set live" "c_id c = c_id r" by auto
  then show ?thesis
    using container_after_discover[OF assms(1,2) c(1)] get_row_mem[OF d assms(4)] by force
qed

text \<open>after a discovery pass a container's name resolves to the container Docker runs under
  that name. Docker's listing has distinct IDs and names; whatever rows the table held before,
  rows of containers recreated outside DoUpRo under a new ID included, exactly the listed
  containers remain, each with its freshly seen state, and every row carrying the name is the live
  one.\<close>
theorem discovery_resolves_names:
  assumes "keys_distinct c_id tbl" "distinct (map c_id live)" "distinct (map c_name live)"
    and "c \<in> set live"
  shows "GetContainerByName (c_name c) (discover live tbl) = Inr (seen_row c (container_of (c_id c) tbl))
    \<and> (\<forall>r \<in> set (discover live tbl). c_name r = c_name c \<longrightarrow> c_id r = c_id c)
    \<and> c_id ` set (discover live tbl) = c_id ` set live"
proof -
  have ne: "live \<noteq> []" using assms(4) by auto
  note at = container_after_discover[OF assms(1,2)]
  note rows = discover_rows[OF assms(1,2) ne]
  have id_of: "c_id (seen_row d (container_of (c_id d) tbl)) = c_id d" for d
    by (auto split: option.splits dest: get_row_key)
  have unique: "r = seen_row c (container_of (c_id c) tbl)"
    if r: "r \<in> set (discover live tbl)" and n: "c_name r = c_name c" for r
  proof -
    obtain d where "d \<in> set live" "r = seen_row d (container_of (c_id d) tbl)"
      using rows[OF r] by blast
    moreover from this have "d = c" using n assms(3,4) by (auto simp: distinct_map inj_on_def)
    ultimately show ?thesis by simp
  qed
  have mem: "seen_row d (container_of (c_id d) tbl) \<in> set (discover live tbl)" if "d \<in> set live" for d
    using get_row_SomeD[OF at[OF that]] by simp
  obtain r where r: "get_row c_name (c_name c) (discover live tbl) = Some r"
    using mem[OF assms(4)] get_row_None[of c_name "c_name c"] by (metis imageI not_None_eq seen_row_name)
  have "r = seen_row c (container_of (c_id c) tbl)"
    using get_row_SomeD[OF r] unique by blast
  then have "GetContainerByName (c_name c) (discover live tbl) = Inr (seen_row c (container_of (c_id c) tbl))"
    using r at[OF assms(4)] id_of by (simp add: GetContainerByName_def GetContainer_def)
  moreover have "c_id ` set (discover live tbl) = c_id ` set live"
  proof (intro subset_antisym image_subsetI)
    fix r
    assume "r \<in> set (discover live tbl)"
    from rows[OF this] show "c_id r \<in> c_id ` set live" using id_of by auto
  next
    fix d
    assume "d \<in> set live"
    from imageI[OF mem[OF this], of c_id] show "c_id d \<in> c_id ` set (discover live tbl)"
      unfolding id_of .
  qed
  ultimately show ?thesis using unique id_of by blast
qed

definition sample_container :: "string \<Rightarrow> string \<Rightarrow> string \<Rightarrow> ContainerRecord" where
  "sample_container cid name img = \<lparr>c_id = cid, c_name = name, c_stack = ''web'', c_state = ''running'',
     c_status = ''Up 2 hours'', c_current_image = img, c_previous_image = '''', c_current_version = '''',
     c_available_version = '''', c_update_available = False, c_excluded = False, c_last_checked_at = None\<rparr>"

lemma sample_container_sel [simp]:
  "c_id (sample_container i n img) = i" "c_name (sample_container i n img) = n"
  "c_current_image (sample_container i n img) = img"
  by (simp_all add: sample_container_def)

theorem discovery_resolves_names_witness:
  "let old = [sample_container ''dead'' ''nginx'' ''nginx:1.24''];
       live = [sample_container ''c2'' ''nginx'' ''nginx:1.25'', sample_container ''c3'' ''db'' ''postgres:16'']
   in GetContainerByName ''nginx'' (discover live old) = Inr (sample_container ''c2'' ''nginx'' ''nginx:1.25'')"
proof -
  let ?old = "[sample_container ''dead'' ''nginx'' ''nginx:1.24'']"
  let ?c = "sample_container ''c2'' ''nginx'' ''nginx:1.25''"
  let ?live = "[?c, sample_container ''c3'' ''db'' ''postgres:16'']"
  have "keys_distinct c_id ?old" "distinct (map c_id ?live)" "distinct (map c_name ?live)"
    "?c \<in> set ?live" by (simp_all add: keys_distinct_def sample_container_def)
  from discovery_resolves_names[OF this] show ?thesis
    by (simp add: Let_def sample_container_def seen_row_def row_simps)
qed

lemma seen_image_mutable:
  "kept \<noteq> '''' \<Longrightarrow> \<not> digest_shaped kept \<Longrightarrow> seen \<noteq> '''' \<Longrightarrow>
     seen_image seen kept \<noteq> '''' \<and> \<not> digest_shaped (seen_image seen kept)"
  by (simp add: seen_image_def)

text \<open>discovery never loses a readable image reference. Once the table knows a container by a
  tag, no number of later observations, those of a container that a rollback pinned to a digest
  included, replaces it by a digest or blanks it, so the next update still has a tag to pull.\<close>
theorem discovery_keeps_readable_tag:
  assumes "container_of k tbl = Some r" "c_current_image r \<noteq> ''''" "\<not> digest_shaped (c_current_image r)"
    and "\<forall>c \<in> set cs. c_current_image c \<noteq> ''''"
  shows "\<exists>r'. container_of k (fold UpsertSeen cs tbl) = Some r'
    \<and> c_current_image r' \<noteq> '''' \<and> \<not> digest_shaped (c_current_image r')"
  using assms
proof (induction cs arbitrary: tbl r)
  case (Cons c cs)
  let ?r = "if k = c_id c then seen_row c (Some r) else r"
  have "container_of k (UpsertSeen c tbl) = Some ?r"
    using Cons.prems(1) by (auto simp: seen.lookup_put)
  moreover have "c_current_image ?r \<noteq> ''''" "\<not> digest_shaped (c_current_image ?r)"
    using Cons.prems seen_image_mutable by (auto simp: seen_row_def)
  moreover have "\<forall>c \<in> set cs. c_current_image c \<noteq> ''''" using Cons.prems(4) by simp
  ultimately show ?case using Cons.IH by simp
qed auto

theorem discovery_keeps_readable_tag_witness:
  "\<exists>r'. container_of ''c2'' (fold UpsertSeen [sample_container ''c2'' ''nginx'' ''sha256:ab12'']
      [sample_container ''c2'' ''nginx'' ''nginx:1.25'']) = Some r'
    \<and> c_current_image r' \<noteq> '''' \<and> \<not> digest_shaped (c_current_image r')"
proof -
  have "\<not> digest_shaped ''nginx:1.25''" by code_simp
  then show ?thesis
    by (intro discovery_keeps_readable_tag) (auto simp: sample_container_def row_simps)
qed

section \<open>Commits of the updater\<close>

text \<open>the commit of an update is complete: the replaced container's row is gone, the new one
  is there with its update flag and its versions reset, the watch of its name is active with no
  crash counted and bound to the new container ID, and no other container or watch changes.\<close>
theorem update_commit_protects:
  assumes "keys_distinct c_id tbl" "oldID \<noteq> ''''" "oldID \<noteq> c_id rec"
  shows "let (tbl', ws') = ReplaceContainerAndArmRollback oldID rec at window threshold rc (tbl, ws)
    in container_of (c_id rec) tbl' = Some (replaced_row rec (container_of (c_id rec) tbl))
       \<and> container_of oldID tbl' = None
       \<and> (\<forall>k. k \<noteq> oldID \<longrightarrow> k \<noteq> c_id rec \<longrightarrow> container_of k tbl' = container_of k tbl)
       \<and> (\<exists>w. watch_of (c_name rec) ws' = Some w \<and> w_status w = ''active'' \<and> w_crash_count w = 0
            \<and> w_container_id w = c_id rec \<and> w_window_expires_at w = at + window
            \<and> w_threshold w = threshold)
       \<and> (\<forall>n. n \<noteq> c_name rec \<longrightarrow> watch_of n ws' = watch_of n ws)"
proof -
  have "container_of k (replaceContainerTx oldID rec tbl) =
    (if k = c_id rec then Some (replaced_row rec (container_of (c_id rec) tbl))
     else if k = oldID then None else container_of k tbl)" for k
    using assms(2) by (auto simp: container_after_replace[OF assms(1)])
  then show ?thesis
    using assms(3) by (simp add: ReplaceContainerAndArmRollback_def watch_after_arm)
qed

theorem update_commit_protects_witness:
  "\<exists>w. watch_of ''nginx'' (snd (ReplaceContainerAndArmRollback ''c1''
        (sample_container ''c2'' ''nginx'' ''nginx:1.25'') 10 600 3 0
        ([sample_container ''c1'' ''nginx'' ''nginx:1.24''], []))) = Some w
     \<and> w_status w = ''active'' \<and> w_container_id w = ''c2''"
  using update_commit_protects[of "[sample_container ''c1'' ''nginx'' ''nginx:1.24'']" "''c1''"
      "sample_container ''c2'' ''nginx'' ''nginx:1.25''" 10 600 3 0 "[]"]
  by (auto simp: keys_distinct_def Let_def case_prod_beta)

text \<open>the recovery of a tag from the event log answers the latest mention of a readable image of
  this container, by time, then event, then the event's \<^verbatim>\<open>from\<close> before its \<^verbatim>\<open>to\<close>, and reports
  not found only when the log has none.\<close>
theorem recover_latest_mention:
  "(case RecoverImageReference name rows of
      Inl err \<Rightarrow> err = ErrNotFound \<and> (\<forall>m \<in> set (image_mentions name rows). \<not> mutable_mention m)
    | Inr img \<Rightarrow> img \<noteq> '''' \<and> \<not> digest_shaped img
        \<and> (\<exists>m \<in> set (image_mentions name rows). snd (snd (snd m)) = img
             \<and> (\<forall>m' \<in> set (image_mentions name rows). mutable_mention m' \<longrightarrow> \<not> later_mention m' m)))"
proof (cases "scan_best mutable_mention later_mention None (image_mentions name rows)")
  case None
  then show ?thesis
    using mentions.scan_best_cases[of "image_mentions name rows" mutable_mention]
    by (simp add: RecoverImageReference_def)
next
  case (Some m)
  then have m: "m \<in> set (image_mentions name rows)" "mutable_mention m"
    "\<forall>m' \<in> set (image_mentions name rows). mutable_mention m' \<longrightarrow> \<not> later_mention m' m"
    using mentions.scan_best_cases[of "image_mentions name rows" mutable_mention] by simp_all
  have "RecoverImageReference name rows = Inr (snd (snd (snd m)))"
    using Some by (simp add: RecoverImageReference_def)
  moreover have "snd (snd (snd m)) \<noteq> ''''" "\<not> digest_shaped (snd (snd (snd m)))"
    using m(2) by (simp_all add: mutable_mention_def Let_def)
  ultimately show ?thesis using m(1,3) by auto
qed

definition sample_log :: "event_row list" where
  "sample_log =
    [\<lparr>er_id = 1, er_timestamp = 5 * nanos, er_event =
       (event_of LevelInfo ''update.succeeded'' ''web'' ActorUser ''root'' [])
         \<lparr>ev_from_version := ''nginx:1.24'', ev_to_version := ''nginx:1.25''\<rparr>\<rparr>,
     \<lparr>er_id = 2, er_timestamp = 9 * nanos, er_event =
       (event_of LevelInfo ''rollback.succeeded'' ''web'' ActorUser ''root'' [])
         \<lparr>ev_from_version := ''nginx:1.26'', ev_to_version := ''nginx@sha256:ab''\<rparr>\<rparr>]"

theorem recover_latest_mention_witness:
  "RecoverImageReference ''web'' sample_log = Inr ''nginx:1.26''
   \<and> (\<exists>m \<in> set (image_mentions ''web'' sample_log). snd (snd (snd m)) = ''nginx:1.26''
        \<and> (\<forall>m' \<in> set (image_mentions ''web'' sample_log). mutable_mention m' \<longrightarrow> \<not> later_mention m' m))"
proof -
  have r: "RecoverImageReference ''web'' sample_log = Inr ''nginx:1.26''" by code_simp
  from recover_latest_mention[of "''web''" sample_log] show ?thesis unfolding r sum.case by blast
qed

end
