(* ===== verification/Json.thy ===== *)
theory Json
  imports Prelude
begin

text \<open>
  \<^verbatim>\<open>JSON.parse\<close> and \<^verbatim>\<open>JSON.stringify\<close> as the browser code uses them, and Go's
  \<^verbatim>\<open>encoding/json\<close> as the server does, on UTF-8 byte strings. The two printers differ only in
  the characters they escape.
  A number is kept as its token. An object is the list of its members in source order; a
  repeated name counts at its last place.
\<close>

datatype json =
    JNull
  | JBool bool
  | JNum string
  | JStr string
  | JArr "json list"
  | JObj "(string \<times> json) list"

definition json_get :: "(string \<times> json) list \<Rightarrow> string \<Rightarrow> json option" where
  "json_get members name = map_of (rev members) name"

section \<open>Printing\<close>

definition hex_digit :: "nat \<Rightarrow> char" where
  "hex_digit n = (if n < 10 then char_of (48 + n) else char_of (87 + n))"

definition quote_char :: "char \<Rightarrow> string" where
  "quote_char c =
    (if c = CHR 0x22 then [CHR 0x5C, CHR 0x22]
     else if c = CHR 0x5C then [CHR 0x5C, CHR 0x5C]
     else if c = CHR 0x08 then [CHR 0x5C, CHR ''b'']
     else if c = CHR 0x09 then [CHR 0x5C, CHR ''t'']
     else if c = CHR 0x0A then [CHR 0x5C, CHR ''n'']
     else if c = CHR 0x0C then [CHR 0x5C, CHR ''f'']
     else if c = CHR 0x0D then [CHR 0x5C, CHR ''r'']
     else if (of_char c :: nat) < 32 then
       [CHR 0x5C, CHR ''u'', CHR ''0'', CHR ''0'', hex_digit (of_char c div 16), hex_digit (of_char c mod 16)]
     else [c])"

text \<open>Go also escapes the characters that are special in HTML.\<close>
definition go_quote_char :: "char \<Rightarrow> string" where
  "go_quote_char c =
    (if c = CHR ''<'' \<or> c = CHR ''>'' \<or> c = CHR ''&'' then
       [CHR 0x5C, CHR ''u'', CHR ''0'', CHR ''0'', hex_digit (of_char c div 16), hex_digit (of_char c mod 16)]
     else quote_char c)"

definition quote_string :: "(char \<Rightarrow> string) \<Rightarrow> string \<Rightarrow> string" where
  "quote_string q s = CHR 0x22 # concat (map q s) @ [CHR 0x22]"

fun json_print :: "(char \<Rightarrow> string) \<Rightarrow> json \<Rightarrow> string"
  and print_elems :: "(char \<Rightarrow> string) \<Rightarrow> json list \<Rightarrow> string"
  and print_members :: "(char \<Rightarrow> string) \<Rightarrow> (string \<times> json) list \<Rightarrow> string" where
  "json_print q JNull = ''null''"
| "json_print q (JBool b) = (if b then ''true'' else ''false'')"
| "json_print q (JNum t) = t"
| "json_print q (JStr s) = quote_string q s"
| "json_print q (JArr vs) = CHR ''['' # print_elems q vs"
| "json_print q (JObj ms) = CHR ''{'' # print_members q ms"
| "print_elems q [] = '']''"
| "print_elems q [v] = json_print q v @ '']''"
| "print_elems q (v # w # vs) = json_print q v @ '','' @ print_elems q (w # vs)"
| "print_members q [] = ''}''"
| "print_members q [(k, v)] = quote_string q k @ '':'' @ json_print q v @ ''}''"
| "print_members q ((k, v) # m # ms) =
     quote_string q k @ '':'' @ json_print q v @ '','' @ print_members q (m # ms)"

definition json_stringify :: "json \<Rightarrow> string" where
  "json_stringify = json_print quote_char"

text \<open>\<^verbatim>\<open>json.Marshal\<close>, on text without the two line separators U+2028 and U+2029 that it also
  escapes.\<close>
definition json_marshal :: "json \<Rightarrow> string" where
  "json_marshal = json_print go_quote_char"

section \<open>Parsing\<close>

definition json_space :: "char \<Rightarrow> bool" where
  "json_space c \<longleftrightarrow> c \<in> {CHR '' '', CHR 0x09, CHR 0x0A, CHR 0x0D}"

definition skip_ws :: "string \<Rightarrow> string" where
  "skip_ws s = dropWhile json_space s"

definition hex_val :: "char \<Rightarrow> nat option" where
  "hex_val c =
    (let n = of_char c :: nat in
     if 48 \<le> n \<and> n \<le> 57 then Some (n - 48)
     else if 97 \<le> n \<and> n \<le> 102 then Some (n - 87)
     else if 65 \<le> n \<and> n \<le> 70 then Some (n - 55)
     else None)"

definition utf8_encode :: "nat \<Rightarrow> string" where
  "utf8_encode n =
    (if n < 128 then [char_of n]
     else if n < 2048 then [char_of (192 + n div 64), char_of (128 + n mod 64)]
     else [char_of (224 + n div 4096), char_of (128 + n div 64 mod 64), char_of (128 + n mod 64)])"

definition simple_escape :: "char \<Rightarrow> char option" where
  "simple_escape e =
    (if e = CHR 0x22 \<or> e = CHR 0x5C \<or> e = CHR ''/'' then Some e
     else if e = CHR ''b'' then Some (CHR 0x08)
     else if e = CHR ''t'' then Some (CHR 0x09)
     else if e = CHR ''n'' then Some (CHR 0x0A)
     else if e = CHR ''f'' then Some (CHR 0x0C)
     else if e = CHR ''r'' then Some (CHR 0x0D)
     else None)"

definition prepend :: "string \<Rightarrow> (string \<times> string) option \<Rightarrow> (string \<times> string) option" where
  "prepend cs r = (case r of None \<Rightarrow> None | Some (s, rest) \<Rightarrow> Some (cs @ s, rest))"

text \<open>The characters of a string literal after its opening quote, and what follows it.\<close>
fun parse_chars :: "nat \<Rightarrow> string \<Rightarrow> (string \<times> string) option" where
  "parse_chars 0 s = None"
| "parse_chars (Suc n) s =
    (case s of
       [] \<Rightarrow> None
     | c # r \<Rightarrow>
         if c = CHR 0x22 then Some ([], r)
         else if c = CHR 0x5C then
           (case r of
              [] \<Rightarrow> None
            | e # r' \<Rightarrow>
                if e = CHR ''u'' then
                  (case r' of
                     a # b # d # f # r'' \<Rightarrow>
                       (case (hex_val a, hex_val b, hex_val d, hex_val f) of
                          (Some i, Some j, Some k, Some l) \<Rightarrow>
                            prepend (utf8_encode (((i * 16 + j) * 16 + k) * 16 + l)) (parse_chars n r'')
                        | _ \<Rightarrow> None)
                   | _ \<Rightarrow> None)
                else (case simple_escape e of
                        None \<Rightarrow> None | Some x \<Rightarrow> prepend [x] (parse_chars n r')))
         else if (of_char c :: nat) < 32 then None
         else prepend [c] (parse_chars n r))"

definition parse_string :: "string \<Rightarrow> (string \<times> string) option" where
  "parse_string s = parse_chars (Suc (length s)) s"

definition digits_of :: "string \<Rightarrow> string \<times> string" where
  "digits_of s = (takeWhile is_digit s, dropWhile is_digit s)"

text \<open>\<^verbatim>\<open>-?(0|[1-9][0-9]*)(\.[0-9]+)?([eE][+-]?[0-9]+)?\<close>\<close>
definition parse_number :: "string \<Rightarrow> (string \<times> string) option" where
  "parse_number s =
    (let (sign, s1) = (case s of c # r \<Rightarrow> if c = CHR ''-'' then ([c], r) else ([], s) | [] \<Rightarrow> ([], s));
         (ip, s2) = (case s1 of c # r \<Rightarrow> if c = CHR ''0'' then ([c], r) else digits_of s1 | [] \<Rightarrow> ([], s1));
         (fp, s3) = (case s2 of c # r \<Rightarrow> if c = CHR ''.'' \<and> fst (digits_of r) \<noteq> []
                       then (c # fst (digits_of r), snd (digits_of r)) else ([], s2) | [] \<Rightarrow> ([], s2));
         (ep, s4) = (case s3 of c # r \<Rightarrow>
                       if c = CHR ''e'' \<or> c = CHR ''E'' then
                         (let (sg, r') = (case r of d # q \<Rightarrow> if d = CHR ''+'' \<or> d = CHR ''-'' then ([d], q) else ([], r)
                                          | [] \<Rightarrow> ([], r))
                          in if fst (digits_of r') \<noteq> [] then (c # sg @ fst (digits_of r'), snd (digits_of r'))
                             else ([], s3))
                       else ([], s3) | [] \<Rightarrow> ([], s3))
     in if ip = [] then None else Some (sign @ ip @ fp @ ep, s4))"

text \<open>The text left shrinks with every second call at least, so a fuel of twice its length is
  enough for any nesting.\<close>
fun parse_value :: "nat \<Rightarrow> string \<Rightarrow> (json \<times> string) option"
  and parse_elems :: "nat \<Rightarrow> string \<Rightarrow> (json list \<times> string) option"
  and parse_members :: "nat \<Rightarrow> string \<Rightarrow> ((string \<times> json) list \<times> string) option" where
  "parse_value 0 s = None"
| "parse_value (Suc n) s =
    (case skip_ws s of
       [] \<Rightarrow> None
     | c # r \<Rightarrow>
         if c = CHR 0x22 then map_option (\<lambda>(t, rest). (JStr t, rest)) (parse_string r)
         else if c = CHR ''['' then
           (case skip_ws r of
              d # r' \<Rightarrow> if d = CHR '']'' then Some (JArr [], r')
                        else map_option (\<lambda>(vs, rest). (JArr vs, rest)) (parse_elems n r)
            | [] \<Rightarrow> None)
         else if c = CHR ''{'' then
           (case skip_ws r of
              d # r' \<Rightarrow> if d = CHR ''}'' then Some (JObj [], r')
                        else map_option (\<lambda>(ms, rest). (JObj ms, rest)) (parse_members n r)
            | [] \<Rightarrow> None)
         else if has_prefix (c # r) ''null'' then Some (JNull, drop 3 r)
         else if has_prefix (c # r) ''true'' then Some (JBool True, drop 3 r)
         else if has_prefix (c # r) ''false'' then Some (JBool False, drop 4 r)
         else map_option (\<lambda>(t, rest). (JNum t, rest)) (parse_number (c # r)))"
| "parse_elems 0 s = None"
| "parse_elems (Suc n) s =
    (case parse_value n s of
       None \<Rightarrow> None
     | Some (v, rest) \<Rightarrow>
         (case skip_ws rest of
            d # r' \<Rightarrow> if d = CHR '']'' then Some ([v], r')
                      else if d = CHR '','' then map_option (\<lambda>(vs, q). (v # vs, q)) (parse_elems n r')
                      else None
          | [] \<Rightarrow> None))"
| "parse_members 0 s = None"
| "parse_members (Suc n) s =
    (case skip_ws s of
       [] \<Rightarrow> None
     | c # r \<Rightarrow>
         if c \<noteq> CHR 0x22 then None
         else (case parse_string r of
                 None \<Rightarrow> None
               | Some (k, rest) \<Rightarrow>
                   (case skip_ws rest of
                      [] \<Rightarrow> None
                    | d # r1 \<Rightarrow>
                        if d \<noteq> CHR '':'' then None
                        else (case parse_value n r1 of
                                None \<Rightarrow> None
                              | Some (v, rest2) \<Rightarrow>
                                  (case skip_ws rest2 of
                                     e # r2 \<Rightarrow> if e = CHR ''}'' then Some ([(k, v)], r2)
                                       else if e = CHR '','' then
                                         map_option (\<lambda>(ms, q). ((k, v) # ms, q)) (parse_members n r2)
                                       else None
                                   | [] \<Rightarrow> None)))))"

definition json_parse :: "string \<Rightarrow> json option" where
  "json_parse s =
    (case parse_value (2 * length s + 2) s of
       None \<Rightarrow> None
     | Some (v, rest) \<Rightarrow> if skip_ws rest = [] then Some v else None)"

section \<open>Round trip\<close>

lemma hex_val_digit: "n < 16 \<Longrightarrow> hex_val (hex_digit n) = Some n"
proof -
  have "list_all (\<lambda>k. hex_val (hex_digit k) = Some k) [0..<16]"
    by (simp add: upt_rec hex_val_def hex_digit_def)
  moreover assume "n < 16"
  ultimately show ?thesis by (simp add: list_all_iff)
qed

lemma quote_char_cases:
  obtains e where "quote_char c = [CHR 0x5C, e]" "e \<noteq> CHR ''u''" "simple_escape e = Some c"
  | "quote_char c = [CHR 0x5C, CHR ''u'', CHR ''0'', CHR ''0'', hex_digit (of_char c div 16),
       hex_digit (of_char c mod 16)]" "(of_char c :: nat) < 32"
  | "quote_char c = [c]" "c \<noteq> CHR 0x22" "c \<noteq> CHR 0x5C" "\<not> (of_char c :: nat) < 32"
  by (cases "c \<in> {CHR 0x22, CHR 0x5C, CHR 0x08, CHR 0x09, CHR 0x0A, CHR 0x0C, CHR 0x0D}")
    (auto simp: quote_char_def simple_escape_def split: if_splits)

lemma parse_unicode_escape:
  assumes "parse_chars n s = Some r" "(of_char c :: nat) < 128"
  shows "parse_chars (Suc n) ([CHR 0x5C, CHR ''u'', CHR ''0'', CHR ''0'', hex_digit (of_char c div 16),
       hex_digit (of_char c mod 16)] @ s) = prepend [c] (Some r)"
proof -
  let ?n = "of_char c :: nat"
  have h: "hex_val (hex_digit (?n div 16)) = Some (?n div 16)"
    "hex_val (hex_digit (?n mod 16)) = Some (?n mod 16)" "hex_val (CHR ''0'') = Some 0"
    using assms(2) by (simp_all add: hex_val_digit hex_val_def[of "CHR ''0''"])
  have "utf8_encode (?n div 16 * 16 + ?n mod 16) = [c]"
    using assms(2) by (simp add: utf8_encode_def)
  then show ?thesis using assms h by (simp add: mult.commute)
qed

lemma parse_quote_char:
  assumes "parse_chars n s = Some r"
  shows "parse_chars (Suc n) (quote_char c @ s) = prepend [c] (Some r)"
proof (cases rule: quote_char_cases[of c])
  case (1 e)
  then show ?thesis using assms by simp
next
  case 2
  then show ?thesis using parse_unicode_escape[OF assms, of c] by (simp del: parse_chars.simps)
next
  case 3
  then show ?thesis using assms by simp
qed

lemma quote_char_length: "1 \<le> length (quote_char c)"
  by (cases rule: quote_char_cases[of c]) auto

fun plain :: "json \<Rightarrow> bool" where
  "plain (JNum t) = False"
| "plain (JArr vs) = (\<forall>v \<in> set vs. plain v)"
| "plain (JObj ms) = (\<forall>m \<in> set ms. plain (snd m))"
| "plain _ = True"

lemma skip_ws_Cons [simp]: "\<not> json_space c \<Longrightarrow> skip_ws (c # s) = c # s"
  by (simp add: skip_ws_def)

lemma json_punctuation [simp]:
  "\<not> json_space (CHR 0x22)" "\<not> json_space (CHR '','')" "\<not> json_space (CHR '':'')"
  "\<not> json_space (CHR ''}'')" "\<not> json_space (CHR '']'')" "\<not> json_space (CHR ''{'')"
  "\<not> json_space (CHR ''['')"
  by (simp_all add: json_space_def)

lemma parse_elems_step:
  assumes "parse_value n s = Some (v, d # r)" "\<not> json_space d"
  shows "parse_elems (Suc n) s =
    (if d = CHR '']'' then Some ([v], r)
     else if d = CHR '','' then map_option (\<lambda>(vs, q). (v # vs, q)) (parse_elems n r) else None)"
  using assms by simp

lemmas print_induct = json_print_print_elems_print_members.induct
  [of "\<lambda>_. P" "\<lambda>_. Q" "\<lambda>_. R" for P Q R, case_names Null Bool Num Str Arr Obj Elems0 Elems1 Elems2 Members0 Members1 Members2]

text \<open>What a printer's escaping has to satisfy for its output to be read back.\<close>

locale escaping =
  fixes quote :: "char \<Rightarrow> string"
  assumes quoted_char_length: "1 \<le> length (quote c)"
    and parse_quoted_char: "parse_chars n s = Some r \<Longrightarrow>
      parse_chars (Suc n) (quote c @ s) = prepend [c] (Some r)"
begin

lemma parse_quoted:
  "length s \<le> n \<Longrightarrow> parse_chars (Suc n) (concat (map quote s) @ CHR 0x22 # rest) = Some (s, rest)"
proof (induction s arbitrary: n)
  case (Cons c s)
  then obtain m where m: "n = Suc m" by (cases n) auto
  have "parse_chars (Suc m) (concat (map quote s) @ CHR 0x22 # rest) = Some (s, rest)"
    using Cons m by simp
  from parse_quoted_char[OF this, of c] show ?case by (simp add: m prepend_def del: parse_chars.simps)
qed simp

lemma quoted_length: "length s \<le> length (concat (map quote s))"
proof (induction s)
  case (Cons c s)
  then show ?case using quoted_char_length[of c] by simp
qed simp

lemma parse_quote_string:
  "\<exists>body. quote_string quote s = CHR 0x22 # body \<and> parse_string (body @ rest) = Some (s, rest)"
  using parse_quoted[of s _ rest] quoted_length[of s]
  by (auto simp: quote_string_def parse_string_def)

lemma print_head:
  "plain v \<Longrightarrow> \<exists>c t. json_print quote v = c # t \<and> \<not> json_space c \<and> c \<noteq> CHR '']''"
  by (cases v) (auto simp: json_space_def quote_string_def)

lemma parse_value_string:
  "parse_value (Suc n) (quote_string quote s @ rest) = Some (JStr s, rest)"
  using parse_quote_string[of s rest] by auto

lemma parse_members_step:
  assumes "parse_value n s = Some (v, e # r)" "\<not> json_space e"
  shows "parse_members (Suc n) (quote_string quote k @ CHR '':'' # s) =
    (if e = CHR ''}'' then Some ([(k, v)], r)
     else if e = CHR '','' then map_option (\<lambda>(ms, q). ((k, v) # ms, q)) (parse_members n r) else None)"
proof -
  obtain body where body: "quote_string quote k = CHR 0x22 # body"
    "parse_string (body @ CHR '':'' # s) = Some (k, CHR '':'' # s)"
    using parse_quote_string[of k "CHR '':'' # s"] by blast
  show ?thesis using assms by (simp add: body)
qed

lemma parse_print:
  "plain v \<Longrightarrow> length (json_print quote v) \<le> n \<Longrightarrow>
     parse_value (Suc n) (json_print quote v @ rest) = Some (v, rest)"
  "vs \<noteq> [] \<Longrightarrow> \<forall>v \<in> set vs. plain v \<Longrightarrow> length (print_elems quote vs) \<le> n \<Longrightarrow>
     parse_elems (Suc n) (print_elems quote vs @ rest) = Some (vs, rest)"
  "ms \<noteq> [] \<Longrightarrow> \<forall>m \<in> set ms. plain (snd m) \<Longrightarrow> length (print_members quote ms) \<le> n \<Longrightarrow>
     parse_members (Suc n) (print_members quote ms @ rest) = Some (ms, rest)"
proof (induction v and vs and ms arbitrary: n rest and n rest and n rest
    rule: print_induct)
  case (Null q)
  then show ?case by (simp add: json_space_def has_prefix_def)
next
  case (Bool q b)
  then show ?case by (simp add: json_space_def has_prefix_def)
next
  case (Str q s)
  then show ?case by (simp only: json_print.simps parse_value_string)
next
  case (Arr q vs)
  then obtain m where m: "n = Suc m" "length (print_elems quote vs) \<le> m" by (cases n) auto
  show ?case
  proof (cases vs)
    case (Cons v vs')
    obtain c t where ct: "json_print quote v = c # t" "\<not> json_space c" "c \<noteq> CHR '']''"
      using Arr(2) Cons print_head[of v] by auto
    have "\<exists>t'. print_elems quote vs = c # t'" using ct Cons by (cases vs') auto
    then obtain t' where t': "print_elems quote vs = c # t'" ..
    have "parse_elems (Suc m) (print_elems quote vs @ rest) = Some (vs, rest)"
      using Arr Cons m by simp
    then show ?thesis using ct t' m by (simp del: parse_elems.simps)
  qed simp
next
  case (Obj q ms)
  then obtain m where m: "n = Suc m" "length (print_members quote ms) \<le> m" by (cases n) auto
  show ?case
  proof (cases ms)
    case (Cons p ms')
    obtain t' where t': "print_members quote ms = CHR 0x22 # t'"
      using Cons by (cases p; cases ms') (auto simp: quote_string_def)
    have "parse_members (Suc m) (print_members quote ms @ rest) = Some (ms, rest)"
      using Obj Cons m by simp
    then show ?thesis using t' m by (simp del: parse_members.simps)
  qed simp
next
  case (Elems1 q v)
  then obtain m where m: "n = Suc m" "length (json_print quote v) \<le> m" by (cases n) auto
  have "parse_value n (json_print quote v @ CHR '']'' # rest) = Some (v, CHR '']'' # rest)"
    using Elems1(1)[of m] Elems1(3) m by simp
  from parse_elems_step[OF this] show ?case by simp
next
  case (Elems2 q v w vs)
  then obtain m where m: "n = Suc m" "length (json_print quote v) \<le> m"
    "length (print_elems quote (w # vs)) \<le> m" by (cases n) auto
  have "parse_value n (json_print quote v @ CHR '','' # print_elems quote (w # vs) @ rest) =
      Some (v, CHR '','' # print_elems quote (w # vs) @ rest)"
    using Elems2(1)[of m] Elems2(4) m by simp
  from parse_elems_step[OF this] show ?case
    using Elems2(2)[of m rest] Elems2(4) m by simp
next
  case (Members1 q k v)
  then obtain m where m: "n = Suc m" "length (json_print quote v) \<le> m" by (cases n) auto
  have "parse_value n (json_print quote v @ CHR ''}'' # rest) = Some (v, CHR ''}'' # rest)"
    using Members1(1)[of m] Members1(3) m by simp
  from parse_members_step[OF this, of k] show ?case by simp
next
  case (Members2 q k v p ms)
  then obtain m where m: "n = Suc m" "length (json_print quote v) \<le> m"
    "length (print_members quote (p # ms)) \<le> m" by (cases n) auto
  have "parse_value n (json_print quote v @ CHR '','' # print_members quote (p # ms) @ rest) =
      Some (v, CHR '','' # print_members quote (p # ms) @ rest)"
    using Members2(1)[of m] Members2(4) m by simp
  from parse_members_step[OF this, of k] show ?case
    using Members2(2)[of m rest] Members2(4) m by simp
qed auto

text \<open>Printing and parsing are inverse on values without numbers.\<close>
lemma print_parse: "plain v \<Longrightarrow> json_parse (json_print quote v) = Some v"
  using parse_print(1)[of v "2 * length (json_print quote v) + 1" "[]"]
  by (simp add: json_parse_def skip_ws_def del: parse_value.simps)

end

interpretation js: escaping quote_char
  by unfold_locales (use parse_quote_char quote_char_length in auto)

lemma go_quote_char_length: "1 \<le> length (go_quote_char c)"
  using quote_char_length[of c] by (auto simp: go_quote_char_def)

lemma parse_go_quote_char:
  assumes "parse_chars n s = Some r"
  shows "parse_chars (Suc n) (go_quote_char c @ s) = prepend [c] (Some r)"
proof (cases "c = CHR ''<'' \<or> c = CHR ''>'' \<or> c = CHR ''&''")
  case True
  then show ?thesis using assms parse_unicode_escape[of n s r c]
    by (auto simp: go_quote_char_def simp del: parse_chars.simps)
next
  case False
  then show ?thesis using parse_quote_char[OF assms, of c]
    by (simp add: go_quote_char_def del: parse_chars.simps)
qed

interpretation go: escaping go_quote_char
  by unfold_locales (use parse_go_quote_char go_quote_char_length in auto)

lemma json_roundtrip: "plain v \<Longrightarrow> json_parse (json_stringify v) = Some v"
  unfolding json_stringify_def by (rule js.print_parse)

lemma json_marshal_roundtrip: "plain v \<Longrightarrow> json_parse (json_marshal v) = Some v"
  unfolding json_marshal_def by (rule go.print_parse)

end
