(* ===== verification/Settings.thy ===== *)
theory Settings
  imports Containers Json
begin

text \<open>
  \<^verbatim>\<open>internal/store/settings.go\<close>: the key/value table behind the Settings pages and its typed
  readers. A reader that finds a value it cannot use falls back to the documented default; the
  lemmas show which values a reader can return at all, and that it returns what the writer stored.
\<close>

section \<open>Decimal integers\<close>

text \<open>\<^verbatim>\<open>strconv.Atoi\<close>: an optional sign and digits, in the range of a 64-bit integer.\<close>
definition Atoi :: "string \<Rightarrow> int option" where
  "Atoi s =
    (let (neg, body) = (case s of
           c # r \<Rightarrow> if c = CHR ''-'' then (True, r) else if c = CHR ''+'' then (False, r) else (False, s)
         | [] \<Rightarrow> (False, s));
       v = (if neg then - digits_val body else digits_val body)
     in if all_digits body \<and> - max_int64 - 1 \<le> v \<and> v \<le> max_int64 then Some v else None)"

fun decimal :: "nat \<Rightarrow> string" where
  "decimal n = (if n < 10 then [char_of (48 + n)] else decimal (n div 10) @ [char_of (48 + n mod 10)])"

definition Itoa :: "int \<Rightarrow> string" where
  "Itoa n = (if n < 0 then CHR ''-'' # decimal (nat (- n)) else decimal (nat n))"

declare decimal.simps [simp del]

lemma digits_val_snoc [simp]: "digits_val (s @ [c]) = digits_val s * 10 + digit_val c"
  by (simp add: digits_val_def)

lemma digit_of_nat: "k < 10 \<Longrightarrow> is_digit (char_of (48 + k)) \<and> digit_val (char_of (48 + k)) = int k"
  by (simp add: is_digit_def digit_val_def less_eq_char_def)

lemma decimal_value: "all_digits (decimal n) \<and> digits_val (decimal n) = int n"
proof (induction n rule: decimal.induct)
  case (1 n)
  show ?case
  proof (cases "n < 10")
    case True
    then show ?thesis
      using digit_of_nat[of n] by (simp add: decimal.simps[of n] all_digits_def digits_val_def)
  next
    case False
    then show ?thesis
      using 1 digit_of_nat[of "n mod 10"]
      by (simp add: decimal.simps[of n] all_digits_def zdiv_int zmod_int)
  qed
qed

lemma Atoi_Itoa [simp]:
  assumes "- max_int64 - 1 \<le> n" "n \<le> max_int64"
  shows "Atoi (Itoa n) = Some n"
proof (cases "n < 0")
  case True
  then show ?thesis using assms decimal_value[of "nat (- n)"] by (simp add: Atoi_def Itoa_def)
next
  case False
  obtain c r where cr: "decimal (nat n) = c # r"
    using decimal_value[of "nat n"] by (cases "decimal (nat n)") (auto simp: all_digits_def)
  have "is_digit c" using decimal_value[of "nat n"] by (simp add: cr all_digits_def)
  then have "c \<noteq> CHR ''-''" "c \<noteq> CHR ''+''" by (auto simp: is_digit_def less_eq_char_def)
  then show ?thesis using False assms decimal_value[of "nat n"] by (simp add: Atoi_def Itoa_def cr)
qed

section \<open>The table\<close>

type_synonym settings_table = "(string \<times> string) list"

definition GetSetting :: "string \<Rightarrow> settings_table \<Rightarrow> string option" where
  "GetSetting key tbl = map_option snd (get_row fst key tbl)"

definition SetSetting :: "string \<Rightarrow> string \<Rightarrow> settings_table \<Rightarrow> settings_table" where
  "SetSetting key v tbl = upsert_row fst (key, v) (\<lambda>r. (fst r, v)) tbl"

text \<open>The query narrows with \<^verbatim>\<open>LIKE\<close>, whose underscore and case rules are too wide, and the loop
  keeps the exact matches. No caller passes a backslash, the escape of the modelled
  \<^verbatim>\<open>LIKE\<close>.\<close>
definition ListSettingsByPrefix :: "string \<Rightarrow> settings_table \<Rightarrow> settings_table" where
  "ListSettingsByPrefix prefix tbl =
    filter (\<lambda>r. has_prefix (fst r) prefix) (filter (\<lambda>r. sql_like (prefix @ ''%'') (fst r)) tbl)"

interpretation settings: upsert_table GetSetting "\<lambda>(k, v). SetSetting k v" fst "\<lambda>(k, v) _. v"
  by unfold_locales (auto simp: GetSetting_def SetSetting_def row_simps split: option.splits)

lemma GetSetting_SetSetting [row_simps]:
  "GetSetting k (SetSetting j v tbl) = (if k = j then Some v else GetSetting k tbl)"
  using settings.lookup_put[of k "(j, v)" tbl] by simp

section \<open>General\<close>

definition checkIntervalKey :: string where "checkIntervalKey = ''general.check_interval_minutes''"
definition crashLoopThresholdKey :: string where "crashLoopThresholdKey = ''updates.crash_loop_threshold''"
definition crashLoopWindowKey :: string where "crashLoopWindowKey = ''updates.crash_loop_window_minutes''"
definition logsPageSizeKey :: string where "logsPageSizeKey = ''general.logs_page_size''"

definition GetLogsPageSize :: "settings_table \<Rightarrow> int" where
  "GetLogsPageSize tbl =
    (case GetSetting logsPageSizeKey tbl of
       None \<Rightarrow> 300
     | Some raw \<Rightarrow> (case Atoi raw of
         None \<Rightarrow> 300 | Some n \<Rightarrow> if n < 50 \<or> n > 1000 then 300 else n))"

definition SetLogsPageSize :: "int \<Rightarrow> settings_table \<Rightarrow> settings_table" where
  "SetLogsPageSize n = SetSetting logsPageSizeKey (Itoa n)"

definition GetCheckIntervalMinutes :: "settings_table \<Rightarrow> int option" where
  "GetCheckIntervalMinutes tbl =
    (case GetSetting checkIntervalKey tbl of
       None \<Rightarrow> None
     | Some raw \<Rightarrow> (case Atoi raw of None \<Rightarrow> None | Some n \<Rightarrow> if n \<le> 0 then None else Some n))"

definition SetCheckIntervalMinutes :: "int \<Rightarrow> settings_table \<Rightarrow> settings_table" where
  "SetCheckIntervalMinutes n = SetSetting checkIntervalKey (Itoa n)"

definition positive_or :: "int \<Rightarrow> string option \<Rightarrow> int" where
  "positive_or d raw = (case raw of None \<Rightarrow> d | Some r \<Rightarrow>
     (case Atoi r of None \<Rightarrow> d | Some v \<Rightarrow> if v > 0 then v else d))"

definition GetCrashLoopSettings :: "settings_table \<Rightarrow> int \<times> int" where
  "GetCrashLoopSettings tbl =
    (positive_or 3 (GetSetting crashLoopThresholdKey tbl),
     positive_or 10 (GetSetting crashLoopWindowKey tbl))"

definition SetCrashLoopSettings :: "int \<Rightarrow> int \<Rightarrow> settings_table \<Rightarrow> settings_table" where
  "SetCrashLoopSettings threshold window tbl =
    SetSetting crashLoopWindowKey (Itoa window) (SetSetting crashLoopThresholdKey (Itoa threshold) tbl)"

section \<open>Exclusions\<close>

definition excludedContainersKey :: string where "excludedContainersKey = ''exclusions.containers''"
definition excludedStacksKey :: string where "excludedStacksKey = ''exclusions.stacks''"

text \<open>\<^verbatim>\<open>json.Unmarshal\<close> into an empty string slice with its error ignored: text that is not JSON
  or not an array leaves the slice empty, an element that is not a string decodes as the empty
  string.\<close>
definition unmarshal_strings :: "string \<Rightarrow> string list" where
  "unmarshal_strings raw =
    (case json_parse raw of
       Some (JArr vs) \<Rightarrow> map (\<lambda>v. case v of JStr s \<Rightarrow> s | _ \<Rightarrow> '''') vs
     | _ \<Rightarrow> [])"

text \<open>A nil slice is written as \<^verbatim>\<open>null\<close> and an empty one as \<^verbatim>\<open>[]\<close>; both are read as empty, and
  the model writes the latter.\<close>
definition marshal_strings :: "string list \<Rightarrow> string" where
  "marshal_strings xs = json_marshal (JArr (map JStr xs))"

definition GetExclusions :: "settings_table \<Rightarrow> Exclusions" where
  "GetExclusions tbl =
    \<lparr>ex_containers = (case GetSetting excludedContainersKey tbl of None \<Rightarrow> [] | Some raw \<Rightarrow> unmarshal_strings raw),
     ex_stacks = (case GetSetting excludedStacksKey tbl of None \<Rightarrow> [] | Some raw \<Rightarrow> unmarshal_strings raw)\<rparr>"

definition SetExclusions :: "Exclusions \<Rightarrow> settings_table \<Rightarrow> settings_table" where
  "SetExclusions ex tbl =
    SetSetting excludedStacksKey (marshal_strings (ex_stacks ex))
      (SetSetting excludedContainersKey (marshal_strings (ex_containers ex)) tbl)"

lemmas setting_keys = checkIntervalKey_def crashLoopThresholdKey_def crashLoopWindowKey_def
  logsPageSizeKey_def excludedContainersKey_def excludedStacksKey_def

section \<open>What the readers return\<close>

lemma unmarshal_marshal [simp]: "unmarshal_strings (marshal_strings xs) = xs"
proof -
  have "plain (JArr (map JStr xs))" by auto
  then show ?thesis
    by (simp add: unmarshal_strings_def marshal_strings_def json_marshal_roundtrip comp_def)
qed

lemma has_prefix_like: "CHR 0x5C \<notin> set p \<Longrightarrow> has_prefix k p \<Longrightarrow> sql_like (p @ ''%'') k"
proof (induction p arbitrary: k)
  case Nil
  have "sql_like ''%'' k" by (induction k) auto
  then show ?case by simp
next
  case (Cons c p)
  then obtain k' where "k = c # k'" "has_prefix k' p" by (auto simp: has_prefix_iff)
  moreover from this have "sql_like (p @ ''%'') k'" using Cons by simp
  moreover from this have "sql_like (CHR ''%'' # p @ ''%'') k'" by (cases k') simp_all
  moreover have "c \<noteq> CHR 0x5C" using Cons.prems by auto
  ultimately show ?case by (cases "c = CHR ''%''") simp_all
qed

lemma list_by_prefix:
  assumes "CHR 0x5C \<notin> set prefix"
  shows "ListSettingsByPrefix prefix tbl = filter (\<lambda>r. has_prefix (fst r) prefix) tbl"
proof -
  have "(sql_like (prefix @ ''%'') (fst r) \<and> has_prefix (fst r) prefix) = has_prefix (fst r) prefix"
    for r :: "string \<times> string"
    using has_prefix_like[OF assms] by blast
  then show ?thesis by (simp add: ListSettingsByPrefix_def)
qed

text \<open>Whatever the settings table holds, an update is watched with a positive threshold and a
  positive window, and the log page shows between 50 and 1000 rows; what the settings form stores
  is what the readers return, and storing one group leaves the others alone.\<close>

theorem settings_readers_safe:
  assumes "0 < t" "t \<le> max_int64" "0 < w" "w \<le> max_int64" "50 \<le> n" "n \<le> 1000" "0 < m" "m \<le> max_int64"
  shows "0 < fst (GetCrashLoopSettings tbl) \<and> 0 < snd (GetCrashLoopSettings tbl)
    \<and> 50 \<le> GetLogsPageSize tbl \<and> GetLogsPageSize tbl \<le> 1000
    \<and> GetCrashLoopSettings (SetCrashLoopSettings t w tbl) = (t, w)
    \<and> GetLogsPageSize (SetLogsPageSize n tbl) = n
    \<and> GetCheckIntervalMinutes (SetCheckIntervalMinutes m tbl) = Some m
    \<and> GetExclusions (SetExclusions ex tbl) = ex
    \<and> GetExclusions (SetCrashLoopSettings t w (SetLogsPageSize n (SetCheckIntervalMinutes m tbl))) = GetExclusions tbl
    \<and> GetCrashLoopSettings (SetExclusions ex (SetLogsPageSize n (SetCheckIntervalMinutes m tbl))) = GetCrashLoopSettings tbl"
proof -
  have pos: "0 < d \<Longrightarrow> 0 < positive_or d raw" for d raw
    by (auto simp: positive_or_def split: option.splits)
  have page: "50 \<le> GetLogsPageSize tbl \<and> GetLogsPageSize tbl \<le> 1000"
    by (auto simp: GetLogsPageSize_def split: option.splits)
  have range: "- max_int64 - 1 \<le> t" "- max_int64 - 1 \<le> w" "- max_int64 - 1 \<le> n" "n \<le> max_int64"
    "- max_int64 - 1 \<le> m"
    using assms by (simp_all add: max_int64_def)
  have rt: "GetCrashLoopSettings (SetCrashLoopSettings t w tbl) = (t, w)"
    "GetLogsPageSize (SetLogsPageSize n tbl) = n"
    "GetCheckIntervalMinutes (SetCheckIntervalMinutes m tbl) = Some m"
    using assms range
    by (simp_all add: GetCrashLoopSettings_def SetCrashLoopSettings_def positive_or_def
        GetLogsPageSize_def SetLogsPageSize_def GetCheckIntervalMinutes_def SetCheckIntervalMinutes_def
        row_simps setting_keys)
  have ex: "GetExclusions (SetExclusions ex tbl) = ex"
    by (simp add: GetExclusions_def SetExclusions_def row_simps setting_keys)
  have others: "GetExclusions (SetCrashLoopSettings t w (SetLogsPageSize n (SetCheckIntervalMinutes m tbl))) = GetExclusions tbl"
    "GetCrashLoopSettings (SetExclusions ex (SetLogsPageSize n (SetCheckIntervalMinutes m tbl))) = GetCrashLoopSettings tbl"
    by (simp_all add: GetExclusions_def SetExclusions_def GetCrashLoopSettings_def SetCrashLoopSettings_def
        SetLogsPageSize_def SetCheckIntervalMinutes_def row_simps setting_keys)
  show ?thesis using pos[of 3] pos[of 10] page rt ex others by (simp add: GetCrashLoopSettings_def)
qed

theorem settings_readers_safe_witness:
  "GetCrashLoopSettings (SetCrashLoopSettings 5 20 []) = (5, 20)
   \<and> GetExclusions (SetExclusions \<lparr>ex_containers = [''a<b''], ex_stacks = []\<rparr> []) =
     \<lparr>ex_containers = [''a<b''], ex_stacks = []\<rparr>"
  using settings_readers_safe[of 5 20 300 60 "[]" "\<lparr>ex_containers = [''a<b''], ex_stacks = []\<rparr>"]
  by (simp add: max_int64_def)

end
