(* ===== verification/Schedules.thy ===== *)
theory Schedules
  imports Reference Settings
begin

text \<open>
  \<^verbatim>\<open>internal/store/schedules.go\<close>, \<^verbatim>\<open>update_candidates.go\<close> and \<^verbatim>\<open>image_versions.go\<close>: the tables the
  scheduler works on. Candidates are keyed by container and scope, versions by the digest of an
  image in its repository.
\<close>

section \<open>Schedules\<close>

record Schedule =
  sc_id :: int
  sc_kind :: string
  sc_container :: string
  sc_stack :: string
  sc_run_at :: "time option"
  sc_cron :: string
  sc_policy :: string
  sc_after :: string
  sc_semver :: string
  sc_pinned :: string
  sc_notify :: bool
  sc_enabled :: bool
  sc_last_run :: "time option"
  sc_next_run :: "time option"
  sc_created :: time

record schedule_table =
  st_rows :: "Schedule list"
  st_seq :: int

definition Completed :: "Schedule \<Rightarrow> bool" where
  "Completed sc \<longleftrightarrow> sc_kind sc = ''once'' \<and> sc_last_run sc \<noteq> None"

definition CreateSchedule :: "time \<Rightarrow> Schedule \<Rightarrow> schedule_table \<Rightarrow> int \<times> schedule_table" where
  "CreateSchedule now sc tbl =
    (let i = st_seq tbl + 1
     in (i, tbl\<lparr>st_seq := i, st_rows := st_rows tbl @ [sc\<lparr>sc_id := i, sc_last_run := None, sc_created := now\<rparr>]\<rparr>))"

definition ListSchedules :: "schedule_table \<Rightarrow> Schedule list" where
  "ListSchedules tbl = rev (sort_key sc_id (st_rows tbl))"

definition GetSchedule :: "int \<Rightarrow> schedule_table \<Rightarrow> (store_error, Schedule) result" where
  "GetSchedule i tbl = (case get_row sc_id i (st_rows tbl) of None \<Rightarrow> Inl ErrNotFound | Some sc \<Rightarrow> Inr sc)"

definition schedule_due :: "time \<Rightarrow> Schedule \<Rightarrow> bool" where
  "schedule_due now sc \<longleftrightarrow> sc_enabled sc \<and> (case sc_next_run sc of None \<Rightarrow> False | Some t \<Rightarrow> text_le t now)"

definition DueSchedules :: "time \<Rightarrow> schedule_table \<Rightarrow> Schedule list" where
  "DueSchedules now tbl = sort_key sc_id (filter (schedule_due now) (st_rows tbl))"

definition update_schedule :: "int \<Rightarrow> (Schedule \<Rightarrow> Schedule) \<Rightarrow> schedule_table \<Rightarrow> schedule_table" where
  "update_schedule i f tbl = tbl\<lparr>st_rows := update_where (\<lambda>sc. sc_id sc = i) f (st_rows tbl)\<rparr>"

definition MarkScheduleRun :: "time \<Rightarrow> int \<Rightarrow> time option \<Rightarrow> schedule_table \<Rightarrow> schedule_table" where
  "MarkScheduleRun now i nextRun =
    update_schedule i (\<lambda>sc. sc\<lparr>sc_last_run := Some now, sc_next_run := nextRun, sc_enabled := (nextRun \<noteq> None)\<rparr>)"

definition TouchScheduleLastRun :: "time \<Rightarrow> int \<Rightarrow> schedule_table \<Rightarrow> schedule_table" where
  "TouchScheduleLastRun now i = update_schedule i (\<lambda>sc. sc\<lparr>sc_last_run := Some now\<rparr>)"

definition SetScheduleEnabled :: "int \<Rightarrow> bool \<Rightarrow> schedule_table \<Rightarrow> store_error option \<times> schedule_table" where
  "SetScheduleEnabled i enabled tbl =
    (if rows_affected (\<lambda>sc. sc_id sc = i) (st_rows tbl) = 0 then Some ErrNotFound else None,
     update_schedule i (\<lambda>sc. sc\<lparr>sc_enabled := enabled\<rparr>) tbl)"

definition DeleteSchedule :: "int \<Rightarrow> schedule_table \<Rightarrow> store_error option \<times> schedule_table" where
  "DeleteSchedule i tbl =
    (if rows_affected (\<lambda>sc. sc_id sc = i) (st_rows tbl) = 0 then Some ErrNotFound else None,
     tbl\<lparr>st_rows := delete_where (\<lambda>sc. sc_id sc = i) (st_rows tbl)\<rparr>)"

section \<open>Update candidates\<close>

record UpdateCandidate =
  uc_container :: string
  uc_scope :: string
  uc_image :: string
  uc_version :: string
  uc_detected :: time

type_synonym candidate_table = "UpdateCandidate list"

definition uc_key :: "UpdateCandidate \<Rightarrow> string \<times> string" where
  "uc_key c = (uc_container c, uc_scope c)"

text \<open>\<^verbatim>\<open>INSERT ... ON CONFLICT\<close>: the time of detection stays while the image is the same.\<close>
definition upsert_candidate :: "string \<Rightarrow> time \<Rightarrow> UpdateCandidate \<Rightarrow> candidate_table \<Rightarrow> candidate_table" where
  "upsert_candidate cid now c =
    upsert_row uc_key (c\<lparr>uc_container := cid, uc_detected := now\<rparr>)
      (\<lambda>r. r\<lparr>uc_image := uc_image c, uc_version := uc_version c,
            uc_detected := (if uc_image r = uc_image c then uc_detected r else now)\<rparr>)"

definition candidate_scopes :: "string list" where
  "candidate_scopes = [''patch'', ''minor'', ''major'']"

definition ReplaceUpdateCandidates :: "string \<Rightarrow> UpdateCandidate list \<Rightarrow> time \<Rightarrow> candidate_table \<Rightarrow> candidate_table" where
  "ReplaceUpdateCandidates cid cands now tbl =
    fold (\<lambda>scope t. if scope \<in> uc_scope ` set cands then t else delete_where (\<lambda>r. uc_key r = (cid, scope)) t) candidate_scopes
      (fold (upsert_candidate cid now) cands tbl)"

definition GetUpdateCandidate :: "string \<Rightarrow> string \<Rightarrow> candidate_table \<Rightarrow> UpdateCandidate option" where
  "GetUpdateCandidate cid scope tbl = get_row uc_key (cid, scope) tbl"

definition ClearUpdateCandidates :: "string \<Rightarrow> candidate_table \<Rightarrow> candidate_table" where
  "ClearUpdateCandidates cid = delete_where (\<lambda>r. uc_container r = cid)"

section \<open>Known versions\<close>

record ImageVersionRecord =
  iv_registry :: string
  iv_repository :: string
  iv_digest :: string
  iv_version :: string
  iv_status :: string
  iv_checked :: time

type_synonym version_table = "ImageVersionRecord list"

definition iv_key :: "ImageVersionRecord \<Rightarrow> string \<times> string \<times> string" where
  "iv_key r = (iv_registry r, iv_repository r, iv_digest r)"

definition GetImageVersion :: "string \<Rightarrow> string \<Rightarrow> string \<Rightarrow> version_table \<Rightarrow> ImageVersionRecord option" where
  "GetImageVersion reg repo digest tbl = get_row iv_key (reg, repo, digest) tbl"

text \<open>Every caller sets the time.\<close>
definition PutImageVersion :: "ImageVersionRecord \<Rightarrow> version_table \<Rightarrow> version_table" where
  "PutImageVersion rec =
    (let rec' = (if iv_status rec = '''' then rec\<lparr>iv_status := (if iv_version rec = '''' then ''unresolved'' else ''resolved'')\<rparr> else rec)
     in upsert_row iv_key rec' (\<lambda>r. r\<lparr>iv_version := iv_version rec', iv_status := iv_status rec', iv_checked := iv_checked rec'\<rparr>))"

section \<open>How long a candidate has been known\<close>

lemma upsert_candidate_key: "uc_key (r\<lparr>uc_image := i, uc_version := v, uc_detected := t\<rparr>) = uc_key r"
  by (simp add: uc_key_def)

lemma candidate_after_upsert [row_simps]:
  "get_row uc_key k (upsert_candidate cid now c tbl) =
    (if k = (cid, uc_scope c) then
       (case get_row uc_key k tbl of
          None \<Rightarrow> Some (c\<lparr>uc_container := cid, uc_detected := now\<rparr>)
        | Some r \<Rightarrow> Some (r\<lparr>uc_image := uc_image c, uc_version := uc_version c,
            uc_detected := (if uc_image r = uc_image c then uc_detected r else now)\<rparr>))
     else get_row uc_key k tbl)"
  unfolding upsert_candidate_def by (simp add: get_upsert_row upsert_candidate_key) (simp add: uc_key_def)

lemma candidates_distinct_upsert: "keys_distinct uc_key tbl \<Longrightarrow> keys_distinct uc_key (upsert_candidate cid now c tbl)"
  unfolding upsert_candidate_def by (rule upsert_row_distinct) (simp_all add: upsert_candidate_key)

lemma candidates_distinct_fold: "keys_distinct uc_key tbl \<Longrightarrow> keys_distinct uc_key (fold (upsert_candidate cid now) cands tbl)"
  by (induction cands arbitrary: tbl) (simp_all add: candidates_distinct_upsert)

text \<open>The candidate of one scope after a check that found \<^term>\<open>found\<close> for it.\<close>
definition refreshed :: "string \<Rightarrow> time \<Rightarrow> UpdateCandidate option \<Rightarrow> UpdateCandidate option \<Rightarrow> UpdateCandidate option" where
  "refreshed cid now found old =
    (case found of
       None \<Rightarrow> None
     | Some c \<Rightarrow>
         (case old of
            None \<Rightarrow> Some (c\<lparr>uc_container := cid, uc_detected := now\<rparr>)
          | Some r \<Rightarrow> Some (r\<lparr>uc_image := uc_image c, uc_version := uc_version c,
              uc_detected := (if uc_image r = uc_image c then uc_detected r else now)\<rparr>)))"

lemma candidate_after_fold:
  assumes "distinct (map uc_scope cands)"
  shows "get_row uc_key (cid', scope) (fold (upsert_candidate cid now) cands tbl) =
    (if cid' = cid \<and> scope \<in> uc_scope ` set cands
     then refreshed cid now (get_row uc_scope scope cands) (get_row uc_key (cid', scope) tbl)
     else get_row uc_key (cid', scope) tbl)"
  using assms
proof (induction cands arbitrary: tbl)
  case (Cons c cands)
  show ?case
  proof (cases "cid' = cid \<and> scope = uc_scope c")
    case True
    then have "scope \<notin> uc_scope ` set cands" using Cons.prems by auto
    then show ?thesis using True Cons by (auto simp: row_simps refreshed_def split: option.splits)
  next
    case False
    then show ?thesis using Cons by (auto simp: row_simps)
  qed
qed (simp add: row_simps)

lemma candidate_after_replace:
  assumes "distinct (map uc_scope cands)" "keys_distinct uc_key tbl" "scope \<in> set candidate_scopes"
  shows "GetUpdateCandidate cid scope (ReplaceUpdateCandidates cid cands now tbl) =
    refreshed cid now (get_row uc_scope scope cands) (GetUpdateCandidate cid scope tbl)"
proof -
  let ?t = "fold (upsert_candidate cid now) cands tbl"
  have fold: "keys_distinct uc_key t \<Longrightarrow>
      get_row uc_key (cid, scope) (fold (\<lambda>scope t. if scope \<in> uc_scope ` set cands then t else delete_where (\<lambda>r. uc_key r = (cid, scope)) t) ss t) =
      (if scope \<in> set ss \<and> scope \<notin> uc_scope ` set cands then None else get_row uc_key (cid, scope) t)" for ss t
  proof (induction ss arbitrary: t)
    case (Cons s ss)
    show ?case
      using Cons.IH[OF Cons.prems] Cons.IH[OF delete_where_distinct[OF Cons.prems, of "\<lambda>r. uc_key r = (cid, s)"]]
        get_delete_key[OF Cons.prems, of "(cid, scope)" "(cid, s)"] by auto
  qed simp
  have found: "scope \<notin> uc_scope ` set cands \<longleftrightarrow> get_row uc_scope scope cands = None" by (simp add: get_row_None)
  show ?thesis
    using fold[OF candidates_distinct_fold[OF assms(2)], of candidate_scopes cid now cands] candidate_after_fold[OF assms(1), of cid scope cid now tbl]
      assms(3) found
    unfolding ReplaceUpdateCandidates_def GetUpdateCandidate_def by (auto simp: refreshed_def)
qed

lemma candidates_replace_distinct: "keys_distinct uc_key tbl \<Longrightarrow> keys_distinct uc_key (ReplaceUpdateCandidates cid cands now tbl)"
proof -
  have "keys_distinct uc_key t \<Longrightarrow> keys_distinct uc_key
      (fold (\<lambda>scope t. if scope \<in> uc_scope ` set cands then t else delete_where (\<lambda>r. uc_key r = (cid, scope)) t) ss t)" for ss t
    by (induction ss arbitrary: t) (auto intro: delete_where_distinct)
  then show "keys_distinct uc_key tbl \<Longrightarrow> ?thesis"
    unfolding ReplaceUpdateCandidates_def by (simp add: candidates_distinct_fold)
qed

text \<open>A check of a container: when, and what was found.\<close>
type_synonym check = "time \<times> UpdateCandidate list"

definition found_image :: "string \<Rightarrow> check \<Rightarrow> string option" where
  "found_image scope chk = map_option uc_image (get_row uc_scope scope (snd chk))"

text \<open>Since when, going back from the last check, the image found has been the same.\<close>
fun known_since :: "string \<Rightarrow> string \<Rightarrow> check list \<Rightarrow> time option" where
  "known_since scope img [] = None"
| "known_since scope img (chk # older) =
    (if found_image scope chk = Some img
     then Some (case known_since scope img older of None \<Rightarrow> fst chk | Some t \<Rightarrow> t) else None)"

lemma candidate_history:
  assumes "list_all (\<lambda>chk. distinct (map uc_scope (snd chk))) checks" "scope \<in> set candidate_scopes"
    and "keys_distinct uc_key tbl" "GetUpdateCandidate cid scope tbl = None"
  defines "tbl' \<equiv> foldr (\<lambda>chk t. ReplaceUpdateCandidates cid (snd chk) (fst chk) t) checks tbl"
  shows "keys_distinct uc_key tbl'"
    and "(case GetUpdateCandidate cid scope tbl' of
        None \<Rightarrow> checks = [] \<or> found_image scope (hd checks) = None
      | Some r \<Rightarrow> checks \<noteq> [] \<and> found_image scope (hd checks) = Some (uc_image r) \<and> known_since scope (uc_image r) checks = Some (uc_detected r))"
  using assms(1) unfolding tbl'_def
proof (induction checks)
  case Nil
  case 1 then show ?case using assms(3) by simp
  case 2 then show ?case using assms(4) by simp
next
  case (Cons chk checks)
  let ?t = "foldr (\<lambda>chk t. ReplaceUpdateCandidates cid (snd chk) (fst chk) t) checks tbl"
  case 1 then show ?case using Cons.IH(1) by (simp add: candidates_replace_distinct)
  case 2
  have IH: "keys_distinct uc_key ?t" "case GetUpdateCandidate cid scope ?t of
        None \<Rightarrow> checks = [] \<or> found_image scope (hd checks) = None
      | Some r \<Rightarrow> checks \<noteq> [] \<and> found_image scope (hd checks) = Some (uc_image r) \<and> known_since scope (uc_image r) checks = Some (uc_detected r)"
    using Cons.IH 2 by simp_all
  have g: "GetUpdateCandidate cid scope (foldr (\<lambda>chk t. ReplaceUpdateCandidates cid (snd chk) (fst chk) t) (chk # checks) tbl) =
      refreshed cid (fst chk) (get_row uc_scope scope (snd chk)) (GetUpdateCandidate cid scope ?t)"
    using candidate_after_replace[OF _ IH(1) assms(2), of "snd chk" cid "fst chk"] 2 by simp
  have none: "known_since scope img checks = None" if "checks = [] \<or> found_image scope (hd checks) \<noteq> Some img" for img
    using that by (cases checks) auto
  show ?case
  proof (cases "get_row uc_scope scope (snd chk)")
    case None
    then show ?thesis unfolding g by (simp add: refreshed_def found_image_def)
  next
    case (Some c)
    then have f: "found_image scope chk = Some (uc_image c)" by (simp add: found_image_def)
    show ?thesis
    proof (cases "GetUpdateCandidate cid scope ?t")
      case old: None
      then have "known_since scope (uc_image c) checks = None" using IH(2) none by auto
      then show ?thesis unfolding g using Some old f by (simp add: refreshed_def)
    next
      case old: (Some r)
      then have "known_since scope (uc_image c) checks = (if uc_image r = uc_image c then Some (uc_detected r) else None)"
        using IH(2) none[of "uc_image c"] by auto
      then show ?thesis unfolding g using Some old f by (simp add: refreshed_def)
    qed
  qed
qed

text \<open>However often a container is checked, the time a candidate is said to be known since is that of the
  first of the last checks in a row that found the same image for its scope: checking again does not
  renew it, and a different image or a check without one starts it anew.\<close>

theorem candidate_age_continuous:
  assumes "list_all (\<lambda>chk. distinct (map uc_scope (snd chk))) checks" "scope \<in> set candidate_scopes"
    and "keys_distinct uc_key tbl" "GetUpdateCandidate cid scope tbl = None"
    and "GetUpdateCandidate cid scope (foldr (\<lambda>chk t. ReplaceUpdateCandidates cid (snd chk) (fst chk) t) checks tbl) = Some r"
  shows "found_image scope (hd checks) = Some (uc_image r) \<and> known_since scope (uc_image r) checks = Some (uc_detected r)"
  using candidate_history(2)[OF assms(1-4)] assms(5) by simp

definition major_candidate :: "string \<Rightarrow> UpdateCandidate" where
  "major_candidate img = \<lparr>uc_container = ''c'', uc_scope = ''major'', uc_image = img, uc_version = '''', uc_detected = 0\<rparr>"

theorem candidate_age_continuous_witness:
  "known_since ''major'' ''b'' [(9, [major_candidate ''b'']), (7, [major_candidate ''b'']), (5, [major_candidate ''a'']), (3, [major_candidate ''b''])] = Some 7"
proof -
  let ?checks = "[(9, [major_candidate ''b'']), (7, [major_candidate ''b'']), (5, [major_candidate ''a'']), (3, [major_candidate ''b''])]"
  have a: "list_all (\<lambda>chk. distinct (map uc_scope (snd chk))) ?checks" by (simp add: major_candidate_def)
  have s: "''major'' \<in> set candidate_scopes" by (simp add: candidate_scopes_def)
  have g: "GetUpdateCandidate ''c'' ''major'' (foldr (\<lambda>chk t. ReplaceUpdateCandidates ''c'' (snd chk) (fst chk) t) ?checks []) =
      Some ((major_candidate ''b'')\<lparr>uc_detected := 7\<rparr>)" by code_simp
  have e: "keys_distinct uc_key []" "GetUpdateCandidate ''c'' ''major'' [] = None" by code_simp+
  have "uc_image ((major_candidate ''b'')\<lparr>uc_detected := 7\<rparr>) = ''b''" "uc_detected ((major_candidate ''b'')\<lparr>uc_detected := 7\<rparr>) = 7"
    by (simp_all add: major_candidate_def)
  then show ?thesis using candidate_age_continuous[OF a s e g] by metis
qed

end
