(* ===== verification/Registry_Config.thy ===== *)
theory Registry_Config
  imports Reference
begin

text \<open>
  \<^verbatim>\<open>internal/registry/config.go\<close> and \<^verbatim>\<open>pullAuth\<close> of \<^verbatim>\<open>internal/docker/docker.go\<close>: the
  credentials configured per registry host and the decision which of them a pull sends. URL
  parsing and the certificate pool are parameters: \<^term>\<open>url_scheme\<close> answers the scheme of a URL
  that parses, \<^term>\<open>pem_ok\<close> whether a text holds a certificate.
\<close>

record Config =
  Host :: string
  Username :: string
  Password :: string
  AuthHost :: string
  ProxyURL :: string
  CACertPEM :: string

datatype config_error = HostRequired | ProxyInvalid | ProxyScheme | NoCertificate

type_synonym registry_config = "string \<rightharpoonup> Config"

definition canonicalHost :: "string \<Rightarrow> string" where
  "canonicalHost host =
    (let h = trim_suffix (trim_prefix (trim_space (to_lower host)) ''https://'') ''/''
     in if h = ''docker.io'' \<or> h = ''index.docker.io'' then hub_registry else h)"

definition transportFor :: "(string \<Rightarrow> string option) \<Rightarrow> (string \<Rightarrow> bool) \<Rightarrow> Config \<Rightarrow> config_error option" where
  "transportFor url_scheme pem_ok cfg =
    (case (if ProxyURL cfg \<noteq> '''' then
             (case url_scheme (ProxyURL cfg) of
                None \<Rightarrow> Some ProxyInvalid
              | Some s \<Rightarrow> if s \<noteq> ''http'' \<and> s \<noteq> ''https'' then Some ProxyScheme else None)
           else None) of
       Some err \<Rightarrow> Some err
     | None \<Rightarrow> if CACertPEM cfg \<noteq> '''' \<and> \<not> pem_ok (CACertPEM cfg) then Some NoCertificate else None)"

definition ValidateConfig :: "(string \<Rightarrow> string option) \<Rightarrow> (string \<Rightarrow> bool) \<Rightarrow> Config \<Rightarrow> config_error option" where
  "ValidateConfig = transportFor"

text \<open>The loop of \<^verbatim>\<open>Configure\<close>, with the map it builds.\<close>
fun configure_loop :: "(string \<Rightarrow> string option) \<Rightarrow> (string \<Rightarrow> bool) \<Rightarrow> Config list \<Rightarrow> registry_config \<Rightarrow>
    (config_error, registry_config) result" where
  "configure_loop url_scheme pem_ok [] acc = Inr acc"
| "configure_loop url_scheme pem_ok (cfg # cfgs) acc =
    (let host = canonicalHost (Host cfg) in
     if host = '''' then Inl HostRequired
     else case transportFor url_scheme pem_ok (cfg\<lparr>Host := host\<rparr>) of
       Some err \<Rightarrow> Inl err
     | None \<Rightarrow> configure_loop url_scheme pem_ok cfgs (acc(host \<mapsto> cfg\<lparr>Host := host\<rparr>)))"

definition Configure :: "(string \<Rightarrow> string option) \<Rightarrow> (string \<Rightarrow> bool) \<Rightarrow> Config list \<Rightarrow> registry_config \<Rightarrow>
    config_error option \<times> registry_config" where
  "Configure url_scheme pem_ok configs configured =
    (case configure_loop url_scheme pem_ok configs Map.empty of
       Inl err \<Rightarrow> (Some err, configured) | Inr m \<Rightarrow> (None, m))"

definition ConfigForHost :: "string \<Rightarrow> registry_config \<Rightarrow> Config option" where
  "ConfigForHost host configured = configured (canonicalHost host)"

definition pullAuth :: "registry_config \<Rightarrow> Ref \<Rightarrow> string \<Rightarrow> string \<Rightarrow> string \<times> string" where
  "pullAuth configured ref hubUser hubPass =
    (case ConfigForHost (Registry ref) configured of
       Some cfg \<Rightarrow> (Username cfg, Password cfg)
     | None \<Rightarrow> if hubUser \<noteq> '''' \<and> Registry ref = hub_registry then (hubUser, hubPass) else ('''', ''''))"

section \<open>Which credentials leave\<close>

lemma configure_loop_hosts:
  assumes "configure_loop url_scheme pem_ok cfgs acc = Inr m" "m h = Some c"
  shows "acc h = Some c \<or> (\<exists>cfg \<in> set cfgs. canonicalHost (Host cfg) = h \<and> c = cfg\<lparr>Host := h\<rparr>)"
  using assms
proof (induction cfgs arbitrary: acc)
  case (Cons cfg cfgs)
  show ?case
  proof (cases "transportFor url_scheme pem_ok (cfg\<lparr>Host := canonicalHost (Host cfg)\<rparr>)")
    case None
    with Cons.prems have "configure_loop url_scheme pem_ok cfgs
        (acc(canonicalHost (Host cfg) \<mapsto> cfg\<lparr>Host := canonicalHost (Host cfg)\<rparr>)) = Inr m"
      by (simp add: Let_def split: if_splits)
    from Cons.IH[OF this Cons.prems(2)] show ?thesis by (auto split: if_splits)
  qed (use Cons.prems in \<open>simp add: Let_def split: if_splits\<close>)
qed simp

text \<open>The credentials a pull sends are the ones configured for the registry of the image under
  some spelling of its host name, or, when none are configured for it, the Docker Hub account and
  then only to Docker Hub; otherwise the pull is anonymous. A rejected configuration leaves the
  one in force untouched.\<close>

theorem pull_credentials_confined:
  assumes "Configure url_scheme pem_ok configs old = (err, configured)"
    and "pullAuth configured (ParseRef img) hubUser hubPass = (u, p)" "u \<noteq> ''''"
  shows "(err \<noteq> None \<longrightarrow> configured = old)
    \<and> (err = None \<longrightarrow>
        (\<exists>cfg \<in> set configs. canonicalHost (Host cfg) = canonicalHost (Registry (ParseRef img))
            \<and> (u, p) = (Username cfg, Password cfg))
        \<or> (Registry (ParseRef img) = hub_registry \<and> (u, p) = (hubUser, hubPass)))"
proof (cases "configure_loop url_scheme pem_ok configs Map.empty")
  case (Inl e)
  then show ?thesis using assms(1) by (auto simp: Configure_def)
next
  case (Inr m)
  then have c: "err = None" "configured = m" using assms(1) by (auto simp: Configure_def)
  show ?thesis
  proof (cases "m (canonicalHost (Registry (ParseRef img)))")
    case None
    then show ?thesis using assms(2,3) c by (auto simp: pullAuth_def ConfigForHost_def split: if_splits)
  next
    case (Some cfg)
    then show ?thesis
      using configure_loop_hosts[OF Inr Some] assms(2) c
      by (auto simp: pullAuth_def ConfigForHost_def)
  qed
qed

theorem pull_credentials_confined_witness:
  "pullAuth (snd (Configure (\<lambda>_. None) (\<lambda>_. False)
       [\<lparr>Host = ''https://GHCR.io/'', Username = ''bob'', Password = ''pw'', AuthHost = '''',
         ProxyURL = '''', CACertPEM = ''''\<rparr>] Map.empty))
     (ParseRef ''ghcr.io/a/b:1'') ''hub'' ''hubpw'' = (''bob'', ''pw'')
   \<and> ''bob'' \<noteq> ''hub''"
proof -
  let ?cs = "[\<lparr>Host = ''https://GHCR.io/'', Username = ''bob'', Password = ''pw'', AuthHost = '''',
         ProxyURL = '''', CACertPEM = ''''\<rparr>]"
  let ?r = "Configure (\<lambda>_. None) (\<lambda>_. False) ?cs Map.empty"
  have p: "pullAuth (snd ?r) (ParseRef ''ghcr.io/a/b:1'') ''hub'' ''hubpw'' = (''bob'', ''pw'')"
    by code_simp
  have "fst ?r = None \<longrightarrow> (\<exists>cfg \<in> set ?cs. canonicalHost (Host cfg) = canonicalHost (Registry (ParseRef ''ghcr.io/a/b:1'')))
      \<or> Registry (ParseRef ''ghcr.io/a/b:1'') = hub_registry"
    using pull_credentials_confined[OF _ p, of "\<lambda>_. None" "\<lambda>_. False" ?cs Map.empty "fst ?r"] by auto
  then show ?thesis using p by simp
qed

end
