(* ===== verification/Docker.thy ===== *)
theory Docker
  imports Registry_Config Json
begin

text \<open>
  \<^verbatim>\<open>internal/docker/docker.go\<close>: the wrapper around the Docker Engine client. The engine itself,
  the clock and the context are outside the program: they are the fields of a record
  \<^term>\<open>e\<close> of functions on an environment state of any type, and every definition that talks to
  Docker takes it as an argument. A call may fail at any time and answers an error text.
\<close>

section \<open>What the engine reports\<close>

text \<open>The fields of the engine's types the program reads or writes; the rest of a configuration is
  the opaque \<^verbatim>\<open>other\<close>, which the program copies and compares but does not look at.\<close>

record container_config =
  cf_hostname :: string
  cf_env :: "string list"
  cf_cmd :: "string list"
  cf_image :: string
  cf_labels :: "(string \<times> string) list"
  cf_other :: json

record mount =
  mt_type :: string
  mt_source :: string
  mt_target :: string
  mt_read_only :: bool
  mt_other :: json

record host_config =
  hc_binds :: "string list"
  hc_mounts :: "mount list"
  hc_tmpfs :: "(string \<times> string) list"
  hc_group_add :: "string list"
  hc_auto_remove :: bool
  hc_oom_kill_disable :: "bool option"
  hc_other :: json

text \<open>A slice or map that Go tells apart from nil is an option.\<close>
record endpoint =
  ep_ipam :: "json option"
  ep_links :: "string list option"
  ep_aliases :: "string list option"
  ep_mac :: string
  ep_driver_opts :: "(string \<times> string) list option"
  ep_runtime :: json

record mount_point =
  mp_type :: string
  mp_name :: string
  mp_source :: string
  mp_destination :: string
  mp_rw :: bool

record container_state =
  cs_status :: string
  cs_running :: bool
  cs_health :: "string option"

type_synonym endpoints = "(string \<times> endpoint option) list"

record inspect =
  in_id :: string
  in_name :: string
  in_image :: string
  in_restart_count :: int
  in_config :: "container_config option"
  in_host :: "host_config option"
  in_state :: "container_state option"
  in_networks :: "endpoints option"
  in_mounts :: "mount_point list"

record summary =
  su_id :: string
  su_names :: "string list"
  su_image :: string
  su_image_id :: string
  su_state :: string
  su_status :: string
  su_labels :: "(string \<times> string) list"

section \<open>The engine\<close>

text \<open>\<^verbatim>\<open>en_wait\<close> waits for a duration and answers whether the timer fired before the context
  ended; \<^verbatim>\<open>en_tick\<close> waits for the next tick of a 500 ms ticker in the same way. The two encodings
  are how \<^verbatim>\<open>encoding/json\<close> writes the engine's types.\<close>

record 'd engine =
  en_list :: "'d \<Rightarrow> (string, summary list) result \<times> 'd"
  en_inspect :: "string \<Rightarrow> 'd \<Rightarrow> (string, inspect) result \<times> 'd"
  en_pull :: "string \<Rightarrow> (string \<times> string \<times> string) option \<Rightarrow> 'd \<Rightarrow> string option \<times> 'd"
  en_stop :: "string \<Rightarrow> int \<Rightarrow> 'd \<Rightarrow> string option \<times> 'd"
  en_remove :: "string \<Rightarrow> bool \<Rightarrow> 'd \<Rightarrow> string option \<times> 'd"
  en_rename :: "string \<Rightarrow> string \<Rightarrow> 'd \<Rightarrow> string option \<times> 'd"
  en_create :: "container_config \<Rightarrow> host_config \<Rightarrow> endpoints option \<Rightarrow> string \<Rightarrow> 'd \<Rightarrow> (string, string) result \<times> 'd"
  en_start :: "string \<Rightarrow> 'd \<Rightarrow> string option \<times> 'd"
  en_now :: "'d \<Rightarrow> time"
  en_wait :: "int \<Rightarrow> 'd \<Rightarrow> bool \<times> 'd"
  en_tick :: "'d \<Rightarrow> bool \<times> 'd"
  en_sql :: "'d \<Rightarrow> bool \<times> 'd"
  en_config_json :: "container_config \<Rightarrow> json"
  en_host_json :: "host_config \<Rightarrow> json"

record docker_client =
  dc_hub_username :: string
  dc_hub_password :: string
  dc_configured :: registry_config
  dc_socket :: string

section \<open>Pure helpers\<close>

definition IsTCPSocket :: "string \<Rightarrow> bool" where
  "IsTCPSocket s = has_prefix (to_lower (trim_space s)) ''tcp://''"

definition isUnixSocketURL :: "string \<Rightarrow> bool" where
  "isUnixSocketURL s = has_prefix (to_lower (trim_space s)) ''unix://''"

definition docker_host :: "string \<Rightarrow> string" where
  "docker_host s = (if isUnixSocketURL s \<or> IsTCPSocket s then s else ''unix://'' @ s)"

definition StackName :: "(string \<times> string) list \<Rightarrow> string" where
  "StackName labels =
    (if label_at labels ''com.docker.compose.project'' \<noteq> ''''
     then label_at labels ''com.docker.compose.project'' else label_at labels ''doupro.stack'')"

record docker_container =
  dk_id :: string
  dk_name :: string
  dk_image :: string
  dk_image_id :: string
  dk_state :: string
  dk_status :: string
  dk_stack :: string
  dk_excluded :: bool
  dk_labels :: "(string \<times> string) list"

definition containerFromSummary :: "summary \<Rightarrow> docker_container" where
  "containerFromSummary s =
    \<lparr>dk_id = su_id s,
     dk_name = (case su_names s of [] \<Rightarrow> su_id s | n # _ \<Rightarrow> trim_prefix n ''/''),
     dk_image = su_image s, dk_image_id = su_image_id s, dk_state = su_state s,
     dk_status = su_status s, dk_stack = StackName (su_labels s),
     dk_excluded = (label_at (su_labels s) ''doupro.enable'' = ''false''), dk_labels = su_labels s\<rparr>"

definition docker_List :: "'d engine \<Rightarrow> 'd \<Rightarrow> (string, docker_container list) result \<times> 'd" where
  "docker_List e d = (case en_list e d of
     (Inl err, d') \<Rightarrow> (Inl err, d') | (Inr ss, d') \<Rightarrow> (Inr (map containerFromSummary ss), d'))"

definition parseRepoDigest :: "string \<Rightarrow> string option" where
  "parseRepoDigest s = map_option snd (cut_last (CHR ''@'') s)"

definition ImageDigests :: "string list \<Rightarrow> string list" where
  "ImageDigests repoDigests = List.map_filter parseRepoDigest repoDigests"

definition Pull :: "'d engine \<Rightarrow> docker_client \<Rightarrow> string \<Rightarrow> 'd \<Rightarrow> string option \<times> 'd" where
  "Pull e cl imageRef d =
    (let ref = ParseRef imageRef;
         (username, password) = pullAuth (dc_configured cl) ref (dc_hub_username cl) (dc_hub_password cl)
     in en_pull e imageRef
          (if username \<noteq> '''' then Some (username, password, Registry ref) else None) d)"

section \<open>Waiting for health\<close>

datatype health_error =
    ContextDone
  | HealthInspect string
  | NotRunningAfterWindow string
  | ReportedUnhealthy
  | StoppedWhileWaiting string
  | HealthTimeout
  | NotReturned  \<comment> \<open>the model's fuel ran out; see \<open>wait_healthy_returns\<close>\<close>

definition statusOf :: "inspect \<Rightarrow> string" where
  "statusOf i = (case in_state i of None \<Rightarrow> ''unknown'' | Some s \<Rightarrow> cs_status s)"

definition is_running :: "inspect \<Rightarrow> bool" where
  "is_running i = (case in_state i of None \<Rightarrow> False | Some s \<Rightarrow> cs_running s)"

definition health_of :: "inspect \<Rightarrow> string option" where
  "health_of i = (case in_state i of None \<Rightarrow> None | Some s \<Rightarrow> cs_health s)"

fun poll_health :: "'d engine \<Rightarrow> string \<Rightarrow> time \<Rightarrow> nat \<Rightarrow> 'd \<Rightarrow> health_error option \<times> 'd" where
  "poll_health e cid deadline 0 d = (Some NotReturned, d)"
| "poll_health e cid deadline (Suc n) d =
    (case en_tick e d of
       (False, d1) \<Rightarrow> (Some ContextDone, d1)
     | (True, d1) \<Rightarrow>
         (case en_inspect e cid d1 of
            (Inl err, d2) \<Rightarrow> (Some (HealthInspect err), d2)
          | (Inr info, d2) \<Rightarrow>
              if health_of info = Some ''healthy'' then (None, d2)
              else if health_of info = Some ''unhealthy'' then (Some ReportedUnhealthy, d2)
              else if \<not> is_running info then (Some (StoppedWhileWaiting (statusOf info)), d2)
              else if en_now e d2 > deadline then (Some HealthTimeout, d2)
              else poll_health e cid deadline n d2))"

text \<open>The ticker period in nanoseconds, and a fuel of one iteration per tick until the deadline
  and two more.\<close>
definition tick_period :: int where "tick_period = 500000000"

definition health_fuel :: "int \<Rightarrow> nat" where
  "health_fuel timeout = nat (timeout div tick_period) + 2"

definition WaitHealthy :: "'d engine \<Rightarrow> string \<Rightarrow> int \<Rightarrow> int \<Rightarrow> 'd \<Rightarrow> health_error option \<times> 'd" where
  "WaitHealthy e cid timeout stabilityWindow d =
    (let deadline = en_now e d + timeout in
     case en_inspect e cid d of (first, d1) \<Rightarrow>
     if (case first of Inr info \<Rightarrow> health_of info \<noteq> None | Inl _ \<Rightarrow> False)
     then poll_health e cid deadline (health_fuel timeout) d1
     else (case en_wait e stabilityWindow d1 of
             (False, d2) \<Rightarrow> (Some ContextDone, d2)
           | (True, d2) \<Rightarrow>
               (case en_inspect e cid d2 of
                  (Inl err, d3) \<Rightarrow> (Some (HealthInspect err), d3)
                | (Inr info, d3) \<Rightarrow>
                    if \<not> is_running info then (Some (NotRunningAfterWindow (statusOf info)), d3)
                    else (None, d3))))"

section \<open>The wait ends\<close>

text \<open>How a ticker and a clock behave in the states \<^term>\<open>now_on\<close> from the start of the wait:
  \<^term>\<open>ticks d\<close> counts the ticks received, the clock is at least that many periods past
  \<^term>\<open>start\<close>, and inspecting a container does not consume a tick.\<close>
definition ticker_laws :: "'d engine \<Rightarrow> ('d \<Rightarrow> bool) \<Rightarrow> ('d \<Rightarrow> nat) \<Rightarrow> time \<Rightarrow> bool" where
  "ticker_laws e now_on ticks start \<longleftrightarrow>
    (\<forall>d. now_on d \<longrightarrow> now_on (snd (en_tick e d)) \<and> ticks (snd (en_tick e d)) = Suc (ticks d)
       \<and> start + int (ticks d) * tick_period \<le> en_now e d)
    \<and> (\<forall>d cid. now_on d \<longrightarrow> now_on (snd (en_inspect e cid d)) \<and> ticks (snd (en_inspect e cid d)) = ticks d)"

lemma poll_health_returns:
  assumes laws: "ticker_laws e now_on ticks start"
    and "deadline < start + (int (ticks d) + int n) * tick_period" "0 < n" "now_on d"
  shows "fst (poll_health e cid deadline n d) \<noteq> Some NotReturned"
  using assms(2-)
proof (induction n arbitrary: d)
  case (Suc n)
  obtain ok d1 where t: "en_tick e d = (ok, d1)" by (cases "en_tick e d")
  obtain r d2 where i: "en_inspect e cid d1 = (r, d2)" by (cases "en_inspect e cid d1")
  have d1: "now_on d1" "ticks d1 = Suc (ticks d)"
    using laws t Suc.prems(3) unfolding ticker_laws_def by (metis snd_conv)+
  have d2: "now_on d2" "ticks d2 = ticks d1"
    using laws i d1(1) unfolding ticker_laws_def by (metis snd_conv)+
  have clock: "start + (int (ticks d) + 1) * tick_period \<le> en_now e d2"
    using laws d1(2) d2 unfolding ticker_laws_def by (metis of_nat_Suc add.commute)
  show ?case
  proof (cases "en_now e d2 > deadline")
    case True
    then show ?thesis using t i by (auto split: bool.splits sum.splits)
  next
    case False
    have "0 < n" using False clock Suc.prems(1) by (cases n) auto
    moreover have "deadline < start + (int (ticks d2) + int n) * tick_period"
      using Suc.prems d1 d2 by (simp add: algebra_simps)
    ultimately have "fst (poll_health e cid deadline n d2) \<noteq> Some NotReturned"
      using Suc.IH d2(1) by blast
    then show ?thesis using t i by (auto split: bool.splits sum.splits)
  qed
qed simp

lemma poll_health_ok:
  "poll_health e cid deadline n d = (None, d') \<Longrightarrow>
     \<exists>d0 info. en_inspect e cid d0 = (Inr info, d') \<and> health_of info = Some ''healthy''"
  by (induction n arbitrary: d) (auto split: prod.splits bool.splits sum.splits if_splits)

text \<open>C22: The wait for health always ends: with a ticker that keeps its period, the loop stops at
  the latest at the first tick after the deadline. It approves a container only on a report of
  the engine that the container is healthy, or, without a health check, still running after the
  stability window.\<close>

theorem wait_healthy_returns:
  assumes "ticker_laws e now_on ticks (en_now e d)" "now_on d" "ticks d = 0" "0 \<le> timeout"
  shows "fst (WaitHealthy e cid timeout window d) \<noteq> Some NotReturned
    \<and> (fst (WaitHealthy e cid timeout window d) = None \<longrightarrow>
        (\<exists>d0 info. en_inspect e cid d0 = (Inr info, snd (WaitHealthy e cid timeout window d))
           \<and> (health_of info = Some ''healthy'' \<or> is_running info)))"
proof -
  obtain first d1 where f: "en_inspect e cid d = (first, d1)" by (cases "en_inspect e cid d")
  have d1: "now_on d1" "ticks d1 = 0"
    using assms f unfolding ticker_laws_def by (metis snd_conv)+
  have p: "(0::int) < tick_period" by (simp add: tick_period_def)
  have "timeout div tick_period * tick_period + timeout mod tick_period = timeout"
    by (rule div_mult_mod_eq)
  moreover have "timeout mod tick_period < tick_period" using p by (rule pos_mod_bound)
  ultimately have bound: "timeout < timeout div tick_period * tick_period + 2 * tick_period"
    using p by linarith
  have nonneg: "0 \<le> timeout div tick_period"
    using assms(4) p by (simp add: pos_imp_zdiv_nonneg_iff)
  have "en_now e d + timeout < en_now e d + (int (ticks d1) + int (health_fuel timeout)) * tick_period"
    using bound nonneg d1(2) by (simp add: health_fuel_def distrib_right)
  then have "fst (poll_health e cid (en_now e d + timeout) (health_fuel timeout) d1) \<noteq> Some NotReturned"
    by (rule poll_health_returns[OF assms(1)]) (simp_all add: d1 health_fuel_def)
  moreover have "poll_health e cid (en_now e d + timeout) (health_fuel timeout) d1 = (None, d') \<Longrightarrow>
      \<exists>d0 info. en_inspect e cid d0 = (Inr info, d') \<and> health_of info = Some ''healthy''" for d'
    by (rule poll_health_ok)
  ultimately show ?thesis
    using f by (cases "poll_health e cid (en_now e d + timeout) (health_fuel timeout) d1")
      (auto simp: WaitHealthy_def Let_def split: prod.splits bool.splits sum.splits if_splits)
qed

text \<open>An engine with one running container without a verdict on its health, whose state counts the
  ticks.\<close>
definition slow_info :: inspect where
  "slow_info = \<lparr>in_id = ''c1'', in_name = ''/web'', in_image = ''sha256:a'', in_restart_count = 0,
     in_config = None, in_host = None,
     in_state = Some \<lparr>cs_status = ''running'', cs_running = True, cs_health = Some ''starting''\<rparr>,
     in_networks = None, in_mounts = []\<rparr>"

definition slow_engine :: "nat engine" where
  "slow_engine = \<lparr>en_list = (\<lambda>d. (Inr [], d)), en_inspect = (\<lambda>cid d. (Inr slow_info, d)),
     en_pull = (\<lambda>i a d. (None, d)), en_stop = (\<lambda>i t d. (None, d)), en_remove = (\<lambda>i f d. (None, d)),
     en_rename = (\<lambda>i n d. (None, d)), en_create = (\<lambda>c h n i d. (Inr ''c2'', d)),
     en_start = (\<lambda>i d. (None, d)), en_now = (\<lambda>d. int d * tick_period), en_wait = (\<lambda>t d. (True, d)),
     en_tick = (\<lambda>d. (True, Suc d)), en_sql = (\<lambda>d. (True, d)), en_config_json = (\<lambda>c. JNull),
     en_host_json = (\<lambda>h. JNull)\<rparr>"

theorem wait_healthy_returns_witness:
  "fst (WaitHealthy slow_engine ''c1'' 2000000000 60000000000 0) = Some HealthTimeout
   \<and> fst (WaitHealthy slow_engine ''c1'' 2000000000 60000000000 0) \<noteq> Some NotReturned"
proof
  show "fst (WaitHealthy slow_engine ''c1'' 2000000000 60000000000 0) = Some HealthTimeout"
    by code_simp
  have "ticker_laws slow_engine (\<lambda>_. True) (\<lambda>d. d) (en_now slow_engine 0)"
    by (simp add: ticker_laws_def slow_engine_def)
  from wait_healthy_returns[OF this, of 2000000000]
  show "fst (WaitHealthy slow_engine ''c1'' 2000000000 60000000000 0) \<noteq> Some NotReturned" by simp
qed

end
