(* ===== verification/Recreate.thy ===== *)
theory Recreate
  imports Docker
begin

text \<open>
  \<^verbatim>\<open>internal/updater/recreate.go\<close>: the plan that copies a container's configuration, the
  recreation that replaces the container and the check that the replacement has every setting of
  the plan. \<^verbatim>\<open>cloneJSON\<close>, a deep copy through JSON, is the identity on these values.
\<close>

section \<open>The plan\<close>

datatype recreate_error =
    IncompleteInspect
  | UnsafeState string
  | PullFailed string
  | StopFailed string
  | RemoveFailed string
  | CreateFailed string
  | InspectRecreated string
  | Fidelity string
  | StartFailed string
  | HealthCheck health_error
  | InspectHealthy string
  | NilPointer  \<comment> \<open>a field of a nil pointer is read: Go panics, nothing is returned and the callers unwind\<close>

record recreationResult =
  rr_ID :: string
  rr_State :: string
  rr_Status :: string
  originalStopped :: bool
  originalRemoved :: bool

record recreationPlan =
  pl_config :: container_config
  pl_host :: host_config
  pl_network :: "endpoints option"
  pl_name :: string
  pl_was_running :: bool

definition trimSlash :: "string \<Rightarrow> string" where
  "trimSlash name = trim_prefix name ''/''"

definition stackOf :: "(string \<times> string) list \<Rightarrow> string" where
  "stackOf labels = StackName labels"

definition bind_target :: "string \<Rightarrow> string list" where
  "bind_target bind = (case split_on (CHR '':'') bind of _ # t # _ \<Rightarrow> [t] | _ \<Rightarrow> [])"

definition covered_targets :: "host_config \<Rightarrow> string list" where
  "covered_targets h = map mt_target (hc_mounts h) @ concat (map bind_target (hc_binds h)) @ map fst (hc_tmpfs h)"

text \<open>\<^verbatim>\<open>covered\<close> is filled before the loop over the mount points and not changed by it.\<close>
definition preserveAnonymousVolumes :: "host_config \<Rightarrow> mount_point list \<Rightarrow> host_config" where
  "preserveAnonymousVolumes h points =
    (let covered = covered_targets h in
     fold (\<lambda>point h.
       if mp_type point \<noteq> ''volume'' \<or> mp_name point = '''' then h
       else if mp_destination point \<in> set covered then h
       else h\<lparr>hc_mounts := hc_mounts h @
              [\<lparr>mt_type = ''volume'', mt_source = mp_name point, mt_target = mp_destination point,
                mt_read_only = (\<not> mp_rw point), mt_other = JNull\<rparr>]\<rparr>) points h)"

text \<open>\<^verbatim>\<open>append([]string(nil), s...)\<close> is nil when \<^verbatim>\<open>s\<close> is empty.\<close>
definition append_nil :: "string list option \<Rightarrow> string list option" where
  "append_nil s = (case s of None \<Rightarrow> None | Some xs \<Rightarrow> if xs = [] then None else Some xs)"

definition copy_endpoint :: "endpoint \<Rightarrow> endpoint" where
  "copy_endpoint ep =
    \<lparr>ep_ipam = ep_ipam ep, ep_links = append_nil (ep_links ep), ep_aliases = append_nil (ep_aliases ep),
     ep_mac = ep_mac ep, ep_driver_opts = ep_driver_opts ep, ep_runtime = JNull\<rparr>"

definition safe_states :: "string list" where
  "safe_states = [''running'', ''exited'', ''created'']"

definition buildRecreationPlan :: "inspect \<Rightarrow> string \<Rightarrow> (recreate_error, recreationPlan) result" where
  "buildRecreationPlan before targetImage =
    (case (in_config before, in_host before, in_state before) of
       (Some cfg, Some host, Some st) \<Rightarrow>
         if cs_status st \<notin> set safe_states then Inl (UnsafeState (cs_status st))
         else Inr \<lparr>pl_config = cfg\<lparr>cf_image := targetImage\<rparr>,
                   pl_host = preserveAnonymousVolumes host (in_mounts before),
                   pl_network = (case in_networks before of
                       None \<Rightarrow> None
                     | Some ns \<Rightarrow> if ns = [] then None else Some (map (\<lambda>(n, ep). (n, map_option copy_endpoint ep)) ns)),
                   pl_name = trimSlash (in_name before), pl_was_running = cs_running st\<rparr>
     | _ \<Rightarrow> Inl IncompleteInspect)"

section \<open>The fidelity check\<close>

text \<open>\<^verbatim>\<open>reflect.DeepEqual\<close> on decoded JSON: objects are compared as maps. Marshalled text has no
  repeated names.\<close>
fun deep_equal :: "json \<Rightarrow> json \<Rightarrow> bool"
  and deep_elems :: "json list \<Rightarrow> json list \<Rightarrow> bool"
  and deep_members :: "(string \<times> json) list \<Rightarrow> (string \<times> json) list \<Rightarrow> bool" where
  "deep_equal (JArr vs) w = (case w of JArr ws \<Rightarrow> deep_elems vs ws | _ \<Rightarrow> False)"
| "deep_equal (JObj ms) w = (case w of JObj ns \<Rightarrow> length ms = length ns \<and> deep_members ms ns | _ \<Rightarrow> False)"
| "deep_equal v w = (v = w)"
| "deep_elems [] ws = (ws = [])"
| "deep_elems (v # vs) ws = (case ws of [] \<Rightarrow> False | w # ws' \<Rightarrow> deep_equal v w \<and> deep_elems vs ws')"
| "deep_members [] ns = True"
| "deep_members ((k, v) # ms) ns =
    ((case json_get ns k of None \<Rightarrow> False | Some w \<Rightarrow> deep_equal v w) \<and> deep_members ms ns)"

text \<open>The answer is the error, \<^term>\<open>None\<close> when the comparison succeeds.\<close>
fun compareJSONSubset :: "json \<Rightarrow> json \<Rightarrow> string \<Rightarrow> string option"
  and compare_members :: "(string \<times> json) list \<Rightarrow> (string \<times> json) list \<Rightarrow> string \<Rightarrow> string option" where
  "compareJSONSubset (JObj ms) got path =
    (case got of JObj g \<Rightarrow> compare_members ms g path | _ \<Rightarrow> Some (path @ '' type changed''))"
| "compareJSONSubset (JArr vs) got path =
    (case got of JArr ws \<Rightarrow> if deep_elems vs ws then None else Some (path @ '' changed'')
     | _ \<Rightarrow> Some (path @ '' changed''))"
| "compareJSONSubset want got path = (if deep_equal want got then None else Some (path @ '' changed''))"
| "compare_members [] g path = None"
| "compare_members ((key, v) # ms) g path =
    (case json_get g key of
       None \<Rightarrow> Some (path @ ''.'' @ key @ '' missing'')
     | Some actual \<Rightarrow>
         (case compareJSONSubset v actual (path @ ''.'' @ key) of
            Some err \<Rightarrow> Some err
          | None \<Rightarrow> compare_members ms g path))"

definition normalizedHostConfig :: "host_config \<Rightarrow> host_config" where
  "normalizedHostConfig h =
    (if hc_oom_kill_disable h = Some False then h\<lparr>hc_oom_kill_disable := None\<rparr> else h)"

definition stringSliceContained :: "string list option \<Rightarrow> string list option \<Rightarrow> bool" where
  "stringSliceContained want got =
    (case want of None \<Rightarrow> True | Some ws \<Rightarrow>
       list_all (\<lambda>w. w \<in> set (case got of None \<Rightarrow> [] | Some gs \<Rightarrow> gs)) ws)"

definition same_opts :: "(string \<times> string) list option \<Rightarrow> (string \<times> string) list option \<Rightarrow> bool" where
  "same_opts a b = (case (a, b) of (None, None) \<Rightarrow> True | (Some x, Some y) \<Rightarrow> set x = set y | _ \<Rightarrow> False)"

definition endpoint_error :: "endpoint \<Rightarrow> endpoint \<Rightarrow> string \<Rightarrow> recreate_error option" where
  "endpoint_error expected got name =
    (if ep_ipam expected \<noteq> ep_ipam got \<or> ep_links expected \<noteq> ep_links got
        \<or> \<not> stringSliceContained (ep_aliases expected) (ep_aliases got)
        \<or> \<not> same_opts (ep_driver_opts expected) (ep_driver_opts got)
     then Some (Fidelity (''network '' @ name @ '' user settings changed''))
     else if ep_mac expected \<noteq> '''' \<and> ep_mac expected \<noteq> ep_mac got
     then Some (Fidelity (''network '' @ name @ '' MAC address changed''))
     else None)"

fun compare_networks :: "endpoints \<Rightarrow> endpoints \<Rightarrow> recreate_error option" where
  "compare_networks [] actual = None"
| "compare_networks ((name, expected) # rest) actual =
    (case map_of actual name of
       None \<Rightarrow> Some (Fidelity (''network '' @ name @ '' missing''))
     | Some got \<Rightarrow>
         (case (case expected of
                  None \<Rightarrow> None
                | Some ex \<Rightarrow> (case got of None \<Rightarrow> Some NilPointer | Some g \<Rightarrow> endpoint_error ex g name)) of
            Some err \<Rightarrow> Some err
          | None \<Rightarrow> compare_networks rest actual))"

definition validateRecreation :: "'d engine \<Rightarrow> recreationPlan \<Rightarrow> inspect \<Rightarrow> recreate_error option" where
  "validateRecreation e plan actual =
    (case (in_config actual, in_host actual) of
       (Some cfg, Some host) \<Rightarrow>
         (case compareJSONSubset (en_config_json e (pl_config plan)) (en_config_json e cfg) ''Config'' of
            Some err \<Rightarrow> Some (Fidelity err)
          | None \<Rightarrow>
              (case compareJSONSubset (en_host_json e (normalizedHostConfig (pl_host plan)))
                      (en_host_json e (normalizedHostConfig host)) ''HostConfig'' of
                 Some err \<Rightarrow> Some (Fidelity err)
               | None \<Rightarrow>
                   (case pl_network plan of
                      None \<Rightarrow> None
                    | Some expected \<Rightarrow>
                        (case in_networks actual of
                           None \<Rightarrow> Some (Fidelity ''NetworkSettings missing'')
                         | Some ns \<Rightarrow> compare_networks expected ns))))
     | _ \<Rightarrow> Some (Fidelity ''recreated container inspect is incomplete''))"

section \<open>Recreation\<close>

definition DefaultHealthTimeout :: int where "DefaultHealthTimeout = 120 * nanos"
definition DefaultStabilityWindow :: int where "DefaultStabilityWindow = 60 * nanos"
definition DefaultStopTimeout :: int where "DefaultStopTimeout = 30 * nanos"

definition no_result :: recreationResult where
  "no_result = \<lparr>rr_ID = '''', rr_State = '''', rr_Status = '''', originalStopped = False, originalRemoved = False\<rparr>"

text \<open>From the start of the new container to its state once healthy.\<close>
definition start_recreated :: "'d engine \<Rightarrow> string \<Rightarrow> recreationResult \<Rightarrow> 'd \<Rightarrow>
    (recreationResult \<times> recreate_error option) \<times> 'd" where
  "start_recreated e newID result d =
    (case en_start e newID d of
       (Some err, d1) \<Rightarrow> ((result, Some (StartFailed err)), d1)
     | (None, d1) \<Rightarrow>
         (case WaitHealthy e newID DefaultHealthTimeout DefaultStabilityWindow d1 of
            (Some err, d2) \<Rightarrow> ((result, Some (HealthCheck err)), d2)
          | (None, d2) \<Rightarrow>
              (case en_inspect e newID d2 of
                 (Inl err, d3) \<Rightarrow> ((result, Some (InspectHealthy err)), d3)
               | (Inr created, d3) \<Rightarrow>
                   (case in_state created of
                      None \<Rightarrow> ((result, Some NilPointer), d3)
                    | Some st \<Rightarrow>
                        ((result\<lparr>rr_State := cs_status st, rr_Status := cs_status st\<rparr>, None), d3)))))"

text \<open>From the creation of the new container on.\<close>
definition create_replacement :: "'d engine \<Rightarrow> recreationPlan \<Rightarrow> recreationResult \<Rightarrow> 'd \<Rightarrow>
    (recreationResult \<times> recreate_error option) \<times> 'd" where
  "create_replacement e plan result d =
    (case en_create e (pl_config plan) (pl_host plan) (pl_network plan) (pl_name plan) d of
       (Inl err, d1) \<Rightarrow> ((result, Some (CreateFailed err)), d1)
     | (Inr newID, d1) \<Rightarrow>
         (let result = result\<lparr>rr_ID := newID, rr_State := ''created'', rr_Status := ''Created''\<rparr> in
          case en_inspect e newID d1 of
            (Inl err, d2) \<Rightarrow> ((result, Some (InspectRecreated err)), d2)
          | (Inr created, d2) \<Rightarrow>
              (case validateRecreation e plan created of
                 Some err \<Rightarrow> ((result, Some err), d2)
               | None \<Rightarrow>
                   if \<not> pl_was_running plan then ((result, None), d2)
                   else start_recreated e newID result d2)))"

text \<open>Stopping and removing the old container, with the flags that record how far it got.\<close>
definition remove_original :: "'d engine \<Rightarrow> string \<Rightarrow> bool \<Rightarrow> 'd \<Rightarrow> (recreationResult \<times> recreate_error option) \<times> 'd" where
  "remove_original e oldID wasRunning d =
    (case (if oldID \<noteq> '''' \<and> wasRunning then en_stop e oldID DefaultStopTimeout d else (None, d)) of
       (Some err, d1) \<Rightarrow> ((no_result, Some (StopFailed err)), d1)
     | (None, d1) \<Rightarrow>
         (let result = no_result\<lparr>originalStopped := (oldID \<noteq> '''' \<and> wasRunning)\<rparr> in
          if oldID = '''' then ((result, None), d1)
          else (case en_remove e oldID True d1 of
                  (Some err, d2) \<Rightarrow> ((result, Some (RemoveFailed err)), d2)
                | (None, d2) \<Rightarrow> ((result\<lparr>originalRemoved := True\<rparr>, None), d2))))"

definition recreate :: "'d engine \<Rightarrow> docker_client \<Rightarrow> string \<Rightarrow> inspect \<Rightarrow> string \<Rightarrow> 'd \<Rightarrow>
    (recreationResult \<times> recreate_error option) \<times> 'd" where
  "recreate e cl oldID before targetImage d =
    (case buildRecreationPlan before targetImage of
       Inl err \<Rightarrow> ((no_result, Some err), d)
     | Inr plan \<Rightarrow>
         (case (if has_prefix targetImage ''sha256:'' then (None, d) else Pull e cl targetImage d) of
            (Some err, d1) \<Rightarrow> ((no_result, Some (PullFailed err)), d1)
          | (None, d1) \<Rightarrow>
              (case remove_original e oldID (pl_was_running plan) d1 of
                 ((result, Some err), d2) \<Rightarrow> ((result, Some err), d2)
               | ((result, None), d2) \<Rightarrow> create_replacement e plan result d2)))"

section \<open>What the fidelity check accepts\<close>

text \<open>The value at a path of names.\<close>
fun json_at :: "string list \<Rightarrow> json \<Rightarrow> json option" where
  "json_at [] v = Some v"
| "json_at (k # ks) v = (case v of
     JObj ms \<Rightarrow> (case json_get ms k of None \<Rightarrow> None | Some w \<Rightarrow> json_at ks w)
   | _ \<Rightarrow> None)"

fun names_distinct :: "json \<Rightarrow> bool" where
  "names_distinct (JObj ms) = (distinct (map fst ms) \<and> (\<forall>m \<in> set ms. names_distinct (snd m)))"
| "names_distinct _ = True"

definition kept :: "json \<Rightarrow> json \<Rightarrow> bool" where
  "kept v w = (case v of JObj _ \<Rightarrow> (case w of JObj _ \<Rightarrow> True | _ \<Rightarrow> False) | _ \<Rightarrow> deep_equal v w)"

lemma compare_members_iff:
  "compare_members ms g path = None \<longleftrightarrow>
    (\<forall>(k, v) \<in> set ms. \<exists>a. json_get g k = Some a \<and> compareJSONSubset v a (path @ ''.'' @ k) = None)"
  by (induction ms) (auto split: option.splits)

lemma json_get_distinct:
  "distinct (map fst ms) \<Longrightarrow> json_get ms k = Some v \<longleftrightarrow> (k, v) \<in> set ms"
  by (simp add: json_get_def map_of_eq_Some_iff rev_map[symmetric])

lemma compare_scalar:
  "\<not> (\<exists>ms. w = JObj ms) \<Longrightarrow> compareJSONSubset w g path = None \<longleftrightarrow> kept w g"
  by (cases w; cases g) (auto simp: kept_def)

lemma paths_scalar:
  assumes "\<not> (\<exists>ms. w = JObj ms)"
  shows "(\<forall>path v. json_at path w = Some v \<longrightarrow> (\<exists>v'. json_at path g = Some v' \<and> kept v v')) \<longleftrightarrow> kept w g"
proof
  assume "\<forall>path v. json_at path w = Some v \<longrightarrow> (\<exists>v'. json_at path g = Some v' \<and> kept v v')"
  from this[rule_format, of "[]" w] show "kept w g" by simp
next
  assume k: "kept w g"
  show "\<forall>path v. json_at path w = Some v \<longrightarrow> (\<exists>v'. json_at path g = Some v' \<and> kept v v')"
  proof (intro allI impI)
    fix path v
    assume "json_at path w = Some v"
    then have "path = [] \<and> v = w" using assms by (cases path; cases w) auto
    then show "\<exists>v'. json_at path g = Some v' \<and> kept v v'" using k by simp
  qed
qed

lemma paths_object:
  assumes "distinct (map fst ms)"
  shows "(\<forall>path v. json_at path (JObj ms) = Some v \<longrightarrow> (\<exists>v'. json_at path g = Some v' \<and> kept v v')) \<longleftrightarrow>
    (\<exists>gm. g = JObj gm \<and> (\<forall>(k, w) \<in> set ms. \<exists>a. json_get gm k = Some a \<and>
       (\<forall>path v. json_at path w = Some v \<longrightarrow> (\<exists>v'. json_at path a = Some v' \<and> kept v v'))))"
  (is "?L \<longleftrightarrow> ?R")
proof
  assume L: ?L
  from L[rule_format, of "[]" "JObj ms"] obtain gm where g: "g = JObj gm"
    by (auto simp: kept_def split: json.splits)
  have "\<exists>a. json_get gm k = Some a \<and>
       (\<forall>path v. json_at path w = Some v \<longrightarrow> (\<exists>v'. json_at path a = Some v' \<and> kept v v'))"
    if m: "(k, w) \<in> set ms" for k w
  proof -
    have get: "json_get ms k = Some w" using m assms by (simp add: json_get_distinct)
    from L[rule_format, of "[k]" w] get g obtain a where a: "json_get gm k = Some a"
      by (auto split: option.splits)
    have "\<exists>v'. json_at path a = Some v' \<and> kept v v'" if "json_at path w = Some v" for path v
      using L[rule_format, of "k # path" v] that get g a by simp
    with a show ?thesis by blast
  qed
  with g show ?R by blast
next
  assume ?R
  then obtain gm where g: "g = JObj gm" and all: "\<forall>(k, w) \<in> set ms. \<exists>a. json_get gm k = Some a \<and>
       (\<forall>path v. json_at path w = Some v \<longrightarrow> (\<exists>v'. json_at path a = Some v' \<and> kept v v'))"
    by (elim exE conjE)
  show ?L
  proof (intro allI impI)
    fix path v
    assume at: "json_at path (JObj ms) = Some v"
    show "\<exists>v'. json_at path g = Some v' \<and> kept v v'"
    proof (cases path)
      case Nil
      then show ?thesis using at g by (auto simp: kept_def)
    next
      case (Cons k ks)
      then obtain w where w: "json_get ms k = Some w" "json_at ks w = Some v"
        using at by (auto split: option.splits)
      have "(k, w) \<in> set ms" using w(1) json_get_distinct[OF assms] by blast
      from bspec[OF all this, unfolded prod.case] w(2) obtain a where "json_get gm k = Some a" "\<exists>v'. json_at ks a = Some v' \<and> kept v v'"
        by blast
      then show ?thesis using Cons g by simp
    qed
  qed
qed

text \<open>C17: The comparison of the recreated container with its plan succeeds exactly when every
  setting of the plan, however deeply nested, is found at the same place of the recreated
  container with the same value: an object with an object, anything else unchanged. Settings
  the engine adds do not matter.\<close>

theorem fidelity_check_exact:
  assumes "names_distinct want"
  shows "compareJSONSubset want got path = None \<longleftrightarrow>
    (\<forall>p v. json_at p want = Some v \<longrightarrow> (\<exists>v'. json_at p got = Some v' \<and> kept v v'))"
  using assms
proof (induction want arbitrary: got path)
  case (JObj ms)
  have d: "distinct (map fst ms)" using JObj.prems by simp
  have ih: "compareJSONSubset w a q = None \<longleftrightarrow>
      (\<forall>p v. json_at p w = Some v \<longrightarrow> (\<exists>v'. json_at p a = Some v' \<and> kept v v'))"
    if "(k, w) \<in> set ms" for k w a q
  proof -
    have "names_distinct w" using JObj.prems that by force
    then show ?thesis using JObj.IH[OF that, of w a q] by simp
  qed
  have "compareJSONSubset (JObj ms) got path = None \<longleftrightarrow>
      (\<exists>gm. got = JObj gm \<and> (\<forall>(k, w) \<in> set ms. \<exists>a. json_get gm k = Some a \<and>
         compareJSONSubset w a (path @ ''.'' @ k) = None))"
    by (cases got) (simp_all add: compare_members_iff)
  also have "\<dots> \<longleftrightarrow> (\<exists>gm. got = JObj gm \<and> (\<forall>(k, w) \<in> set ms. \<exists>a. json_get gm k = Some a \<and>
       (\<forall>p v. json_at p w = Some v \<longrightarrow> (\<exists>v'. json_at p a = Some v' \<and> kept v v'))))"
    using ih by (intro ex_cong1 conj_cong refl ball_cong) auto
  finally show ?case using paths_object[OF d, of got] by simp
qed (simp_all add: compare_scalar paths_scalar del: compareJSONSubset.simps)

theorem fidelity_check_exact_witness:
  "compareJSONSubset (JObj [(''Image'', JStr ''a''), (''Labels'', JObj [(''x'', JStr ''1'')])])
     (JObj [(''Labels'', JObj [(''y'', JStr ''2''), (''x'', JStr ''1'')]), (''Image'', JStr ''a'')]) ''Config'' = None
   \<and> (\<exists>v'. json_at [''Labels'', ''x'']
        (JObj [(''Labels'', JObj [(''y'', JStr ''2''), (''x'', JStr ''1'')]), (''Image'', JStr ''a'')]) = Some v'
        \<and> kept (JStr ''1'') v')"
proof -
  let ?w = "JObj [(''Image'', JStr ''a''), (''Labels'', JObj [(''x'', JStr ''1'')])]"
  let ?g = "JObj [(''Labels'', JObj [(''y'', JStr ''2''), (''x'', JStr ''1'')]), (''Image'', JStr ''a'')]"
  have c: "compareJSONSubset ?w ?g ''Config'' = None" by (simp add: json_get_def)
  have "names_distinct ?w" by simp
  from fidelity_check_exact[OF this, of ?g "''Config''"] c
  have "\<forall>p v. json_at p ?w = Some v \<longrightarrow> (\<exists>v'. json_at p ?g = Some v' \<and> kept v v')" by blast
  moreover have "json_at [''Labels'', ''x''] ?w = Some (JStr ''1'')" by (simp add: json_get_def)
  ultimately show ?thesis using c by blast
qed

section \<open>What the plan keeps\<close>

text \<open>The places where the configuration already mounts something: a mount, a bind
  \<^verbatim>\<open>source:target\<close> with or without options, or a tmpfs.\<close>
definition occupied :: "host_config \<Rightarrow> string \<Rightarrow> bool" where
  "occupied h t \<longleftrightarrow>
    (\<exists>m \<in> set (hc_mounts h). mt_target m = t)
    \<or> (\<exists>src opts. CHR '':'' \<notin> set src \<and> CHR '':'' \<notin> set t
         \<and> (src @ '':'' @ t \<in> set (hc_binds h) \<or> src @ '':'' @ t @ '':'' @ opts \<in> set (hc_binds h)))
    \<or> (\<exists>p \<in> set (hc_tmpfs h). fst p = t)"

definition named_volume :: "mount_point \<Rightarrow> bool" where
  "named_volume point \<longleftrightarrow> mp_type point = ''volume'' \<and> mp_name point \<noteq> ''''"

text \<open>The mount of a volume of the running container.\<close>
definition volume_mount :: "mount_point \<Rightarrow> mount" where
  "volume_mount point =
    \<lparr>mt_type = ''volume'', mt_source = mp_name point, mt_target = mp_destination point,
     mt_read_only = (\<not> mp_rw point), mt_other = JNull\<rparr>"

definition entries :: "'a list option \<Rightarrow> 'a list" where
  "entries xs = (case xs of None \<Rightarrow> [] | Some ys \<Rightarrow> ys)"

text \<open>Two endpoints with the same user-controlled settings; the second has no runtime part.\<close>
definition same_user_settings :: "endpoint \<Rightarrow> endpoint \<Rightarrow> bool" where
  "same_user_settings ep ep' \<longleftrightarrow>
    ep_ipam ep' = ep_ipam ep \<and> ep_mac ep' = ep_mac ep \<and> ep_driver_opts ep' = ep_driver_opts ep
    \<and> entries (ep_links ep') = entries (ep_links ep) \<and> entries (ep_aliases ep') = entries (ep_aliases ep)
    \<and> ep_runtime ep' = JNull"

definition same_networks :: "endpoints option \<Rightarrow> endpoints option \<Rightarrow> bool" where
  "same_networks ns ns' \<longleftrightarrow>
    (if entries ns = [] then ns' = None
     else \<exists>ms. ns' = Some ms
       \<and> list_all2 (\<lambda>(n, ep) (n', ep'). n' = n \<and> rel_option same_user_settings ep ep') (entries ns) ms)"

lemma split_on_second:
  "(\<exists>x rest. split_on c s = x # t # rest) \<longleftrightarrow>
    c \<notin> set t \<and> (\<exists>src opts. c \<notin> set src \<and> (s = src @ c # t \<or> s = src @ c # t @ c # opts))" (is "?L \<longleftrightarrow> ?R")
proof
  assume ?L
  then obtain x rest where x: "split_on c s = x # t # rest" by blast
  then have free: "c \<notin> set x" "c \<notin> set t" using split_on_free[of _ c s] by auto
  have s: "s = join_with [c] (x # t # rest)" using join_split_on[of c s] x by simp
  show ?R
  proof (cases rest)
    case Nil
    then have "s = x @ c # t" using s by simp
    then show ?thesis using free by blast
  next
    case (Cons y ys)
    then have "s = x @ c # t @ c # join_with [c] (y # ys)" using s by simp
    then show ?thesis using free by blast
  qed
next
  assume ?R
  then show ?L by auto
qed

lemma bind_target_iff: "t \<in> set (bind_target b) \<longleftrightarrow> (\<exists>x rest. split_on (CHR '':'') b = x # t # rest)"
proof (cases "split_on (CHR '':'') b")
  case (Cons x xs)
  then show ?thesis by (cases xs) (auto simp: bind_target_def)
qed simp

lemma covered_iff: "t \<in> set (covered_targets h) \<longleftrightarrow> occupied h t"
proof -
  have "t \<in> set (concat (map bind_target (hc_binds h))) \<longleftrightarrow>
      (\<exists>b \<in> set (hc_binds h). CHR '':'' \<notin> set t
        \<and> (\<exists>src opts. CHR '':'' \<notin> set src \<and> (b = src @ CHR '':'' # t \<or> b = src @ CHR '':'' # t @ CHR '':'' # opts)))"
    by (simp add: bind_target_iff split_on_second)
  then show ?thesis by (auto simp: covered_targets_def occupied_def)
qed

lemma preserve_mounts:
  "preserveAnonymousVolumes h points = h\<lparr>hc_mounts := hc_mounts h @
     map volume_mount (filter (\<lambda>p. named_volume p \<and> \<not> occupied h (mp_destination p)) points)\<rparr>"
proof -
  have "fold (\<lambda>point h'.
       if mp_type point \<noteq> ''volume'' \<or> mp_name point = '''' then h'
       else if mp_destination point \<in> set (covered_targets h) then h'
       else h'\<lparr>hc_mounts := hc_mounts h' @
              [\<lparr>mt_type = ''volume'', mt_source = mp_name point, mt_target = mp_destination point,
                mt_read_only = (\<not> mp_rw point), mt_other = JNull\<rparr>]\<rparr>) points h0
      = h0\<lparr>hc_mounts := hc_mounts h0 @
          map volume_mount (filter (\<lambda>p. named_volume p \<and> \<not> occupied h (mp_destination p)) points)\<rparr>" for h0
    by (induction points arbitrary: h0) (auto simp: named_volume_def volume_mount_def covered_iff)
  then show ?thesis by (simp add: preserveAnonymousVolumes_def Let_def)
qed

lemma copy_endpoint_settings: "same_user_settings ep (copy_endpoint ep)"
  by (simp add: same_user_settings_def copy_endpoint_def entries_def append_nil_def split: option.splits)

lemma copied_networks:
  "same_networks ns (case ns of None \<Rightarrow> None
     | Some ns \<Rightarrow> if ns = [] then None else Some (map (\<lambda>(n, ep). (n, map_option copy_endpoint ep)) ns))"
proof -
  have "rel_option same_user_settings ep (map_option copy_endpoint ep)" for ep
    by (cases ep) (simp_all add: copy_endpoint_settings)
  then have "list_all2 (\<lambda>(n, ep) (n', ep'). n' = n \<and> rel_option same_user_settings ep ep') xs
      (map (\<lambda>(n, ep). (n, map_option copy_endpoint ep)) xs)" for xs :: endpoints
    by (induction xs) auto
  then show ?thesis by (auto simp: same_networks_def entries_def split: option.splits)
qed

text \<open>C13: A recreation keeps the container's data and settings. A plan is made of a container in a
  safe state only; its configuration is the container's own with another image, its networks
  have the names and the user settings of the container's, and its host configuration is the
  container's own with the mounts, in order, of exactly those named volumes of the running
  container at whose place the configuration mounts nothing yet.\<close>

theorem plan_keeps_volumes:
  assumes "buildRecreationPlan before img = Inr plan"
  shows "\<exists>cfg host st. in_config before = Some cfg \<and> in_host before = Some host \<and> in_state before = Some st
    \<and> cs_status st \<in> {''running'', ''exited'', ''created''}
    \<and> pl_config plan = cfg\<lparr>cf_image := img\<rparr>
    \<and> pl_host plan = host\<lparr>hc_mounts := hc_mounts host @
        map volume_mount (filter (\<lambda>p. named_volume p \<and> \<not> occupied host (mp_destination p)) (in_mounts before))\<rparr>
    \<and> same_networks (in_networks before) (pl_network plan)
    \<and> (in_name before = pl_name plan \<or> in_name before = ''/'' @ pl_name plan)
    \<and> pl_was_running plan = cs_running st"
proof -
  obtain cfg host st where i: "in_config before = Some cfg" "in_host before = Some host" "in_state before = Some st"
    "cs_status st \<in> set safe_states"
    "plan = \<lparr>pl_config = cfg\<lparr>cf_image := img\<rparr>, pl_host = preserveAnonymousVolumes host (in_mounts before),
       pl_network = (case in_networks before of None \<Rightarrow> None
         | Some ns \<Rightarrow> if ns = [] then None else Some (map (\<lambda>(n, ep). (n, map_option copy_endpoint ep)) ns)),
       pl_name = trimSlash (in_name before), pl_was_running = cs_running st\<rparr>"
    using assms by (auto simp: buildRecreationPlan_def split: option.splits if_splits)
  have name: "in_name before = trimSlash (in_name before) \<or> in_name before = ''/'' @ trimSlash (in_name before)"
    by (cases "in_name before") (auto simp: trimSlash_def trim_prefix_def has_prefix_def)
  show ?thesis
    using i(4) name copied_networks[of "in_networks before"]
    by (intro exI[of _ cfg] exI[of _ host] exI[of _ st]) (simp add: i(1-3,5) preserve_mounts safe_states_def)
qed

definition sample_before :: inspect where
  "sample_before = \<lparr>in_id = ''c1'', in_name = ''/web'', in_image = ''sha256:a'', in_restart_count = 0,
     in_config = Some \<lparr>cf_hostname = '''', cf_env = [''A=1''], cf_cmd = [], cf_image = ''web:1'', cf_labels = [], cf_other = JNull\<rparr>,
     in_host = Some \<lparr>hc_binds = [''/etc/x:/x:ro''], hc_mounts = [], hc_tmpfs = [], hc_group_add = [],
       hc_auto_remove = False, hc_oom_kill_disable = None, hc_other = JNull\<rparr>,
     in_state = Some \<lparr>cs_status = ''running'', cs_running = True, cs_health = None\<rparr>,
     in_networks = Some [(''front'', Some \<lparr>ep_ipam = None, ep_links = None, ep_aliases = Some [''www''], ep_mac = ''02:42'',
       ep_driver_opts = None, ep_runtime = JStr ''10.0.0.7''\<rparr>)],
     in_mounts = [\<lparr>mp_type = ''volume'', mp_name = ''v1'', mp_source = ''/var/lib/v1'', mp_destination = ''/data'', mp_rw = True\<rparr>,
       \<lparr>mp_type = ''volume'', mp_name = ''v2'', mp_source = ''/var/lib/v2'', mp_destination = ''/x'', mp_rw = True\<rparr>]\<rparr>"

theorem plan_keeps_volumes_witness:
  "\<exists>plan host. buildRecreationPlan sample_before ''web:2'' = Inr plan
     \<and> map mt_source (hc_mounts (pl_host plan)) = [''v1''] \<and> pl_network plan \<noteq> None
     \<and> in_host sample_before = Some host \<and> pl_host plan = host\<lparr>hc_mounts := hc_mounts host @
        map volume_mount (filter (\<lambda>p. named_volume p \<and> \<not> occupied host (mp_destination p)) (in_mounts sample_before))\<rparr>"
proof -
  obtain plan where p: "buildRecreationPlan sample_before ''web:2'' = Inr plan"
    by (simp add: buildRecreationPlan_def sample_before_def safe_states_def)
  have "case buildRecreationPlan sample_before ''web:2'' of Inl _ \<Rightarrow> False
      | Inr plan \<Rightarrow> map mt_source (hc_mounts (pl_host plan)) = [''v1''] \<and> pl_network plan \<noteq> None"
    by code_simp
  then show ?thesis using plan_keeps_volumes[OF p] p by auto
qed

end
