(* ===== verification/Trace.thy ===== *)
theory Trace
  imports Recreate
begin

text \<open>
  What a recreation asks of the Docker engine. An engine that keeps a log of the calls that change
  something, with their outcome, is itself an engine, so the definitions run on it unchanged and
  every fact about the log holds for any engine, any fault and any order of answers.
\<close>

section \<open>An engine that logs\<close>

datatype docker_call =
    CallPull string bool
  | CallStop string bool
  | CallRemove string bool
  | CallRename string string bool
  | CallCreate string string "string option"  \<comment> \<open>image, name, the new container's ID\<close>
  | CallStart string bool

type_synonym 'd logging = "docker_call list \<times> 'd"

definition silent :: "'a \<times> 'd \<Rightarrow> docker_call list \<Rightarrow> 'a \<times> 'd logging" where
  "silent r tr = (fst r, (tr, snd r))"

definition noted :: "('a \<Rightarrow> docker_call) \<Rightarrow> 'a \<times> 'd \<Rightarrow> docker_call list \<Rightarrow> 'a \<times> 'd logging" where
  "noted c r tr = (fst r, (tr @ [c (fst r)], snd r))"

definition logged :: "'d engine \<Rightarrow> 'd logging engine" where
  "logged e = \<lparr>
     en_list = (\<lambda>s. silent (en_list e (snd s)) (fst s)),
     en_inspect = (\<lambda>i s. silent (en_inspect e i (snd s)) (fst s)),
     en_pull = (\<lambda>i a s. noted (\<lambda>r. CallPull i (r = None)) (en_pull e i a (snd s)) (fst s)),
     en_stop = (\<lambda>i t s. noted (\<lambda>r. CallStop i (r = None)) (en_stop e i t (snd s)) (fst s)),
     en_remove = (\<lambda>i f s. noted (\<lambda>r. CallRemove i (r = None)) (en_remove e i f (snd s)) (fst s)),
     en_rename = (\<lambda>i n s. noted (\<lambda>r. CallRename i n (r = None)) (en_rename e i n (snd s)) (fst s)),
     en_create = (\<lambda>c h n i s. noted (\<lambda>r. CallCreate (cf_image c) i (case r of Inl _ \<Rightarrow> None | Inr j \<Rightarrow> Some j))
       (en_create e c h n i (snd s)) (fst s)),
     en_start = (\<lambda>i s. noted (\<lambda>r. CallStart i (r = None)) (en_start e i (snd s)) (fst s)),
     en_now = (\<lambda>s. en_now e (snd s)),
     en_wait = (\<lambda>t s. silent (en_wait e t (snd s)) (fst s)),
     en_tick = (\<lambda>s. silent (en_tick e (snd s)) (fst s)),
     en_sql = (\<lambda>s. silent (en_sql e (snd s)) (fst s)),
     en_config_json = en_config_json e,
     en_host_json = en_host_json e\<rparr>"

named_theorems trace_simps \<open>the log after a call of the logging engine\<close>

text \<open>The calls a state adds to the log of an earlier one.\<close>
definition added :: "'d logging \<Rightarrow> docker_call list \<Rightarrow> 'd logging \<Rightarrow> bool" where
  "added s new s' \<longleftrightarrow> fst s' = fst s @ new"

lemma added_refl [simp]: "added s [] s"
  by (simp add: added_def)

lemma added_trans [trans]: "added s xs s1 \<Longrightarrow> added s1 ys s2 \<Longrightarrow> added s (xs @ ys) s2"
  by (simp add: added_def)

lemma logged_silent [trace_simps]:
  "en_inspect (logged e) i s = (r, s') \<Longrightarrow> added s [] s'"
  "en_list (logged e) s = (l, s') \<Longrightarrow> added s [] s'"
  "en_wait (logged e) t s = (b, s') \<Longrightarrow> added s [] s'"
  "en_tick (logged e) s = (b, s') \<Longrightarrow> added s [] s'"
  "en_sql (logged e) s = (b, s') \<Longrightarrow> added s [] s'"
  by (auto simp: logged_def silent_def added_def)

lemma logged_noted [trace_simps]:
  "en_pull (logged e) i a s = (r, s') \<Longrightarrow> added s [CallPull i (r = None)] s'"
  "en_stop (logged e) i t s = (r, s') \<Longrightarrow> added s [CallStop i (r = None)] s'"
  "en_remove (logged e) i f s = (r, s') \<Longrightarrow> added s [CallRemove i (r = None)] s'"
  "en_rename (logged e) i n s = (r, s') \<Longrightarrow> added s [CallRename i n (r = None)] s'"
  "en_start (logged e) i s = (r, s') \<Longrightarrow> added s [CallStart i (r = None)] s'"
  by (auto simp: logged_def noted_def added_def)

lemma logged_create [trace_simps]:
  "en_create (logged e) c h n i s = (r, s') \<Longrightarrow>
     added s [CallCreate (cf_image c) i (case r of Inl _ \<Rightarrow> None | Inr j \<Rightarrow> Some j)] s'"
  by (auto simp: logged_def noted_def added_def)

lemma poll_health_silent:
  "poll_health (logged e) cid deadline n s = (r, s') \<Longrightarrow> added s [] s'"
proof (induction n arbitrary: s)
  case (Suc n)
  obtain ok s1 where t: "en_tick (logged e) s = (ok, s1)" by (cases "en_tick (logged e) s")
  obtain i s2 where i: "en_inspect (logged e) cid s1 = (i, s2)" by (cases "en_inspect (logged e) cid s1")
  have a: "added s [] s1" "added s [] s2"
    using logged_silent(4)[OF t] logged_silent(1)[OF i] by (auto simp: added_def)
  have "added s2 [] s' \<or> s' = s1 \<or> s' = s2"
    using Suc.prems Suc.IH[of s2] t i by (auto split: bool.splits sum.splits if_splits)
  then show ?case using a by (auto simp: added_def)
qed simp

lemma wait_healthy_silent [trace_simps]:
  assumes "WaitHealthy (logged e) cid timeout window s = (r, s')"
  shows "added s [] s'"
proof -
  obtain i1 s1 where i1: "en_inspect (logged e) cid s = (i1, s1)" by (cases "en_inspect (logged e) cid s")
  obtain b s2 where w: "en_wait (logged e) window s1 = (b, s2)" by (cases "en_wait (logged e) window s1")
  obtain i3 s3 where i3: "en_inspect (logged e) cid s2 = (i3, s3)" by (cases "en_inspect (logged e) cid s2")
  have a: "added s [] s1" "added s1 [] s2" "added s2 [] s3"
    using logged_silent i1 w i3 by blast+
  have "(r, s') = poll_health (logged e) cid (en_now (logged e) s + timeout) (health_fuel timeout) s1
      \<or> s' = s2 \<or> s' = s3"
    using assms i1 w i3 by (auto simp: WaitHealthy_def Let_def split: bool.splits sum.splits if_splits)
  then show ?thesis
    using a poll_health_silent[of e cid _ _ s1 r s'] by (auto simp: added_def)
qed

lemma pull_noted [trace_simps]:
  "Pull (logged e) cl img s = (r, s') \<Longrightarrow> added s [CallPull img (r = None)] s'"
  by (auto simp: Pull_def Let_def split: prod.splits dest: logged_noted(1))

section \<open>The calls of a recreation\<close>

lemma plan_fields:
  assumes "buildRecreationPlan before img = Inr plan"
  shows "cf_image (pl_config plan) = img" "pl_name plan = trimSlash (in_name before)"
    "pl_was_running plan = is_running before"
  using assms by (auto simp: buildRecreationPlan_def is_running_def split: option.splits if_splits)

definition stop_calls :: "string \<Rightarrow> bool \<Rightarrow> recreationResult \<Rightarrow> docker_call list \<Rightarrow> bool" where
  "stop_calls oldID running res new \<longleftrightarrow>
    new \<in> {[], [CallStop oldID False], [CallStop oldID True], [CallRemove oldID False],
           [CallRemove oldID True], [CallStop oldID True, CallRemove oldID False],
           [CallStop oldID True, CallRemove oldID True]}
    \<and> (originalStopped res \<longleftrightarrow> CallStop oldID True \<in> set new)
    \<and> (originalRemoved res \<longleftrightarrow> CallRemove oldID True \<in> set new)
    \<and> (CallStop oldID True \<in> set new \<longrightarrow> running)"

text \<open>The calls that take the old container away.\<close>
definition remove_trace :: "string \<Rightarrow> bool \<Rightarrow> docker_call list" where
  "remove_trace oldID running =
    (if oldID = '''' then [] else (if running then [CallStop oldID True] else []) @ [CallRemove oldID True])"

lemma remove_original_calls:
  assumes "remove_original (logged e) oldID running s = ((res, err), s')"
  shows "\<exists>new. added s new s' \<and> stop_calls oldID running res new \<and> rr_ID res = ''''
    \<and> (err = None \<longrightarrow> ((oldID = '''' \<and> new = []) \<or> originalRemoved res) \<and> new = remove_trace oldID running)
    \<and> (err \<noteq> None \<longrightarrow> \<not> originalRemoved res)"
proof -
  obtain r1 s1 where r1: "(if oldID \<noteq> '''' \<and> running then en_stop (logged e) oldID DefaultStopTimeout s else (None, s)) = (r1, s1)"
    by (cases "if oldID \<noteq> '''' \<and> running then en_stop (logged e) oldID DefaultStopTimeout s else (None, s)")
  obtain r2 s2 where r2: "en_remove (logged e) oldID True s1 = (r2, s2)" by (cases "en_remove (logged e) oldID True s1")
  let ?stop = "if oldID \<noteq> '''' \<and> running then [CallStop oldID (r1 = None)] else []"
  have a1: "added s ?stop s1" using r1 logged_noted(2)[of e oldID DefaultStopTimeout s r1 s1] by (auto split: if_splits)
  have a2: "added s (?stop @ [CallRemove oldID (r2 = None)]) s2"
    using added_trans[OF a1 logged_noted(3)[OF r2]] .
  have e1: "\<not> (oldID \<noteq> '''' \<and> running) \<Longrightarrow> r1 = None" using r1 by auto
  consider (stop) x where "r1 = Some x" "s' = s1" "res = no_result" "err \<noteq> None"
    | (none) "r1 = None" "oldID = ''''" "s' = s1" "err = None" "res = no_result\<lparr>originalStopped := (oldID \<noteq> '''' \<and> running)\<rparr>"
    | (rem) x where "r1 = None" "oldID \<noteq> ''''" "r2 = Some x" "s' = s2" "err \<noteq> None"
        "res = no_result\<lparr>originalStopped := (oldID \<noteq> '''' \<and> running)\<rparr>"
    | (ok) "r1 = None" "oldID \<noteq> ''''" "r2 = None" "s' = s2" "err = None"
        "res = no_result\<lparr>originalStopped := (oldID \<noteq> '''' \<and> running), originalRemoved := True\<rparr>"
    using assms r1 r2 unfolding remove_original_def
    by (cases r1; cases r2; cases "oldID = ''''") (auto simp: Let_def split: if_splits)
  then show ?thesis
  proof cases
    case stop
    then show ?thesis using a1 e1 by (intro exI[of _ ?stop]) (auto simp: stop_calls_def no_result_def remove_trace_def)
  next
    case none
    then show ?thesis using a1 by (intro exI[of _ ?stop]) (auto simp: stop_calls_def no_result_def remove_trace_def)
  next
    case rem
    then show ?thesis using a2 by (intro exI[of _ "?stop @ [CallRemove oldID (r2 = None)]"]) (auto simp: stop_calls_def no_result_def remove_trace_def)
  next
    case ok
    then show ?thesis using a2 by (intro exI[of _ "?stop @ [CallRemove oldID (r2 = None)]"]) (auto simp: stop_calls_def no_result_def remove_trace_def)
  qed
qed

definition create_calls :: "recreationPlan \<Rightarrow> recreationResult \<Rightarrow> bool \<Rightarrow> docker_call list \<Rightarrow> bool" where
  "create_calls plan res ok new \<longleftrightarrow>
    (\<exists>starts. new = CallCreate (cf_image (pl_config plan)) (pl_name plan) (Some (rr_ID res)) # starts
       \<and> starts \<in> {[], [CallStart (rr_ID res) False], [CallStart (rr_ID res) True]}
       \<and> (starts \<noteq> [] \<longrightarrow> pl_was_running plan)
       \<and> (ok \<and> pl_was_running plan \<longrightarrow> starts = [CallStart (rr_ID res) True]))
    \<or> (\<not> ok \<and> rr_ID res = '''' \<and> new = [CallCreate (cf_image (pl_config plan)) (pl_name plan) None])"

text \<open>The container was seen healthy for the stability window, and then in the given state.\<close>
definition healthy_start :: "'d engine \<Rightarrow> string \<Rightarrow> string \<Rightarrow> bool" where
  "healthy_start e newID state \<longleftrightarrow>
    (\<exists>d d' d'' i st. WaitHealthy e newID DefaultHealthTimeout DefaultStabilityWindow d = (None, d')
       \<and> en_inspect e newID d' = (Inr i, d'') \<and> in_state i = Some st \<and> state = cs_status st)"

lemma healthy_startI:
  "WaitHealthy e newID DefaultHealthTimeout DefaultStabilityWindow d = (None, d') \<Longrightarrow> en_inspect e newID d' = (Inr i, d'') \<Longrightarrow>
    in_state i = Some st \<Longrightarrow> healthy_start e newID (cs_status st)"
  unfolding healthy_start_def by blast

lemma start_recreated_calls:
  assumes "start_recreated (logged e) newID res0 s = ((res, err), s')"
  shows "\<exists>b. added s [CallStart newID b] s' \<and> rr_ID res = rr_ID res0
    \<and> originalStopped res = originalStopped res0 \<and> originalRemoved res = originalRemoved res0
    \<and> (err = None \<longrightarrow> b \<and> healthy_start (logged e) newID (rr_State res)) \<and> (err = Some NilPointer \<longrightarrow> b)"
proof -
  obtain r1 s1 where r1: "en_start (logged e) newID s = (r1, s1)" by (cases "en_start (logged e) newID s")
  obtain r2 s2 where r2: "WaitHealthy (logged e) newID DefaultHealthTimeout DefaultStabilityWindow s1 = (r2, s2)"
    by (cases "WaitHealthy (logged e) newID DefaultHealthTimeout DefaultStabilityWindow s1")
  obtain r3 s3 where r3: "en_inspect (logged e) newID s2 = (r3, s3)" by (cases "en_inspect (logged e) newID s2")
  have a: "added s [CallStart newID (r1 = None)] s1" "added s [CallStart newID (r1 = None)] s2"
    "added s [CallStart newID (r1 = None)] s3"
    using logged_noted(5)[OF r1] wait_healthy_silent[OF r2] logged_silent(1)[OF r3]
    by (auto simp: added_def)
  have "(s' = s1 \<or> s' = s2 \<or> s' = s3) \<and> rr_ID res = rr_ID res0
    \<and> originalStopped res = originalStopped res0 \<and> originalRemoved res = originalRemoved res0
    \<and> (err = None \<longrightarrow> r1 = None \<and> healthy_start (logged e) newID (rr_State res)) \<and> (err = Some NilPointer \<longrightarrow> r1 = None)"
    using assms r1 r2 r3 unfolding start_recreated_def
    by (cases r1; cases r2; cases r3) (auto intro: healthy_startI split: option.splits)
  then show ?thesis using a by blast
qed

text \<open>A replacement of a running container was started and seen healthy; one of a container that
  did not run is left created.\<close>
definition came_up :: "'d engine \<Rightarrow> bool \<Rightarrow> string \<Rightarrow> string \<Rightarrow> bool" where
  "came_up e running newID state \<longleftrightarrow>
    (if running then healthy_start e newID state else state = ''created'')"

text \<open>The calls of a creation that ends in a panic: the replacement exists, and may run.\<close>
definition panic_calls :: "recreationPlan \<Rightarrow> recreationResult \<Rightarrow> docker_call list \<Rightarrow> bool" where
  "panic_calls plan res new \<longleftrightarrow>
    (\<exists>starts. new = CallCreate (cf_image (pl_config plan)) (pl_name plan) (Some (rr_ID res)) # starts
       \<and> (starts = [] \<or> pl_was_running plan \<and> starts = [CallStart (rr_ID res) True]))"

lemma create_replacement_calls:
  assumes "create_replacement (logged e) plan res0 s = ((res, err), s')" "rr_ID res0 = ''''"
  shows "\<exists>new. added s new s' \<and> create_calls plan res (err = None) new
    \<and> originalStopped res = originalStopped res0 \<and> originalRemoved res = originalRemoved res0
    \<and> (err = None \<longrightarrow> came_up (logged e) (pl_was_running plan) (rr_ID res) (rr_State res))
    \<and> (err = Some NilPointer \<longrightarrow> panic_calls plan res new)"
proof -
  let ?c = "en_create (logged e) (pl_config plan) (pl_host plan) (pl_network plan) (pl_name plan) s"
  obtain r1 s1 where r1: "?c = (r1, s1)" by (cases ?c)
  note c1 = logged_create[OF r1]
  show ?thesis
  proof (cases r1)
    case (Inl x)
    then have "res = res0" "err = Some (CreateFailed x)" "s' = s1"
      using assms r1 by (auto simp: create_replacement_def)
    then show ?thesis using c1 Inl assms(2) by (auto simp: create_calls_def)
  next
    case (Inr newID)
    let ?res = "res0\<lparr>rr_ID := newID, rr_State := ''created'', rr_Status := ''Created''\<rparr>"
    obtain r2 s2 where r2: "en_inspect (logged e) newID s1 = (r2, s2)" by (cases "en_inspect (logged e) newID s1")
    let ?create = "CallCreate (cf_image (pl_config plan)) (pl_name plan) (Some newID)"
    have c2: "added s [?create] s2" using c1 logged_silent(1)[OF r2] Inr by (auto simp: added_def)
    consider (short) "s' = s2" "res = ?res" "err = None \<longrightarrow> \<not> pl_was_running plan"
      | (start) "start_recreated (logged e) newID ?res s2 = ((res, err), s')" "pl_was_running plan"
    proof (cases r2)
      case (Inr created)
      have eq: "create_replacement (logged e) plan res0 s =
          (case validateRecreation (logged e) plan created of
             Some err \<Rightarrow> ((?res, Some err), s2)
           | None \<Rightarrow> if \<not> pl_was_running plan then ((?res, None), s2)
                     else start_recreated (logged e) newID ?res s2)"
        using r1 r2 \<open>r1 = Inr newID\<close> Inr by (simp add: create_replacement_def Let_def)
      show thesis
      proof (cases "validateRecreation (logged e) plan created")
        case None
        then show thesis using assms(1) eq that by (cases "pl_was_running plan") auto
      next
        case (Some x)
        then have "s' = s2 \<and> res = ?res \<and> err = Some x" using assms(1) eq by simp
        then show thesis using that(1) by simp
      qed
    qed (use assms(1) r1 r2 Inr that in \<open>auto simp: create_replacement_def Let_def\<close>)
    then show ?thesis
    proof cases
      case short
      then show ?thesis using c2 by (intro exI[of _ "[?create]"]) (auto simp: create_calls_def came_up_def panic_calls_def)
    next
      case start
      from start_recreated_calls[OF start(1)] obtain b where b: "added s2 [CallStart newID b] s'"
        "rr_ID res = newID" "originalStopped res = originalStopped res0"
        "originalRemoved res = originalRemoved res0" "err = None \<longrightarrow> b \<and> healthy_start (logged e) newID (rr_State res)"
        "err = Some NilPointer \<longrightarrow> b" by auto
      have "added s [?create, CallStart newID b] s'" using added_trans[OF c2 b(1)] by simp
      then show ?thesis using b start(2)
        by (intro exI[of _ "[?create, CallStart newID b]"]) (auto simp: create_calls_def came_up_def panic_calls_def)
    qed
  qed
qed

text \<open>The calls of a recreation of \<^term>\<open>before\<close> on \<^term>\<open>img\<close> that was to replace
  \<^term>\<open>oldID\<close>.\<close>
definition recreation_calls :: "string \<Rightarrow> inspect \<Rightarrow> string \<Rightarrow> recreationResult \<Rightarrow> bool \<Rightarrow> docker_call list \<Rightarrow> bool" where
  "recreation_calls oldID before img res ok new \<longleftrightarrow>
    (originalStopped res \<longleftrightarrow> CallStop oldID True \<in> set new)
    \<and> (originalRemoved res \<longleftrightarrow> CallRemove oldID True \<in> set new)
    \<and> (\<forall>i b. CallStop i b \<in> set new \<longrightarrow> i = oldID)
    \<and> (originalStopped res \<longrightarrow> is_running before)
    \<and> (\<forall>i b. CallRemove i b \<in> set new \<longrightarrow> i = oldID \<and> (has_prefix img ''sha256:'' \<or> CallPull img True \<in> set new))
    \<and> (\<forall>im n i. CallCreate im n i \<in> set new \<longrightarrow> im = img \<and> n = trimSlash (in_name before)
         \<and> (oldID = '''' \<or> originalRemoved res) \<and> (\<forall>j. i = Some j \<longrightarrow> j = rr_ID res))
    \<and> (\<forall>i b. CallStart i b \<in> set new \<longrightarrow> i = rr_ID res \<and> is_running before)
    \<and> (\<forall>i n b. CallRename i n b \<notin> set new)
    \<and> (ok \<longrightarrow> CallCreate img (trimSlash (in_name before)) (Some (rr_ID res)) \<in> set new
         \<and> (oldID = '''' \<or> originalRemoved res)
         \<and> (is_running before \<longrightarrow> CallStart (rr_ID res) True \<in> set new))
    \<and> (\<not> ok \<and> \<not> originalRemoved res \<and> oldID \<noteq> '''' \<longrightarrow> rr_ID res = '''')
    \<and> (rr_ID res = '''' \<or> CallCreate img (trimSlash (in_name before)) (Some (rr_ID res)) \<in> set new)"

lemma stop_calls_set:
  assumes "stop_calls oldID running res new" "c \<in> set new"
  shows "(\<exists>b. c = CallStop oldID b \<and> (b \<longrightarrow> running)) \<or> (\<exists>b. c = CallRemove oldID b)"
  using assms unfolding stop_calls_def by auto

lemma create_calls_set:
  assumes "create_calls plan res ok new" "c \<in> set new"
  shows "(\<exists>i. c = CallCreate (cf_image (pl_config plan)) (pl_name plan) i \<and> (\<forall>j. i = Some j \<longrightarrow> j = rr_ID res))
    \<or> (\<exists>b. c = CallStart (rr_ID res) b \<and> pl_was_running plan)"
  using assms unfolding create_calls_def by auto

lemma recreation_calls_split:
  assumes "stop_calls oldID (is_running before) res1 stop" "buildRecreationPlan before img = Inr plan"
    and "pull = (if has_prefix img ''sha256:'' then [] else [CallPull img True])"
    and "create_calls plan res ok create" "(oldID = '''' \<and> stop = []) \<or> originalRemoved res1"
    and "originalStopped res = originalStopped res1" "originalRemoved res = originalRemoved res1"
  shows "recreation_calls oldID before img res ok (pull @ stop @ create)"
proof -
  note p = plan_fields[OF assms(2)]
  have pull: "c \<in> set pull \<Longrightarrow> c = CallPull img True" for c using assms(3) by (auto split: if_splits)
  note st = stop_calls_set[OF assms(1)] and cr = create_calls_set[OF assms(4), unfolded p]
  have flags: "originalStopped res \<longleftrightarrow> CallStop oldID True \<in> set stop"
    "originalRemoved res \<longleftrightarrow> CallRemove oldID True \<in> set stop" "originalStopped res \<longrightarrow> is_running before"
    using assms(1,6,7) by (simp_all add: stop_calls_def)
  have ok: "ok \<Longrightarrow> CallCreate img (trimSlash (in_name before)) (Some (rr_ID res)) \<in> set create
      \<and> (is_running before \<longrightarrow> CallStart (rr_ID res) True \<in> set create)"
    using assms(4) p by (auto simp: create_calls_def)
  have made: "rr_ID res = '''' \<or> CallCreate img (trimSlash (in_name before)) (Some (rr_ID res)) \<in> set create"
    using assms(4) p by (auto simp: create_calls_def)
  have old: "oldID = '''' \<or> originalRemoved res" using assms(5,7) by auto
  have has: "has_prefix img ''sha256:'' \<or> CallPull img True \<in> set pull" using assms(3) by simp
  show ?thesis
    unfolding recreation_calls_def set_append
  proof (intro conjI allI impI)
    show "originalStopped res \<longleftrightarrow> CallStop oldID True \<in> set pull \<union> (set stop \<union> set create)"
      using flags(1) pull cr by blast
    show "originalRemoved res \<longleftrightarrow> CallRemove oldID True \<in> set pull \<union> (set stop \<union> set create)"
      using flags(2) pull cr by blast
  qed (use flags pull st cr ok old has made in blast)+
qed

lemma recreation_calls_failed:
  assumes "stop_calls oldID (is_running before) res stop" "set pull \<subseteq> {CallPull img True, CallPull img False}"
    and "stop \<noteq> [] \<longrightarrow> has_prefix img ''sha256:'' \<or> CallPull img True \<in> set pull" "\<not> originalRemoved res" "rr_ID res = ''''"
  shows "recreation_calls oldID before img res False (pull @ stop)"
proof -
  note st = stop_calls_set[OF assms(1)]
  have flags: "originalStopped res \<longleftrightarrow> CallStop oldID True \<in> set stop"
    "originalRemoved res \<longleftrightarrow> CallRemove oldID True \<in> set stop" "originalStopped res \<longrightarrow> is_running before"
    using assms(1) by (simp_all add: stop_calls_def)
  have ne: "CallRemove i b \<in> set stop \<Longrightarrow> has_prefix img ''sha256:'' \<or> CallPull img True \<in> set pull" for i b
    using assms(3) by auto
  show ?thesis
    unfolding recreation_calls_def set_append
  proof (intro conjI allI impI)
    show "originalStopped res \<longleftrightarrow> CallStop oldID True \<in> set pull \<union> set stop"
      using flags(1) assms(2) by blast
    show "originalRemoved res \<longleftrightarrow> CallRemove oldID True \<in> set pull \<union> set stop"
      using flags(2) assms(2) by blast
  qed (use flags assms(2,4,5) st ne in blast)+
qed

text \<open>The calls up to the creation of the replacement, and those of a recreation that succeeds: the
  image is pulled unless it is given by its identifier, the old container is stopped when it runs,
  and removed, and the replacement is created under the same name and started when the old
  container ran.\<close>
definition replace_trace :: "string \<Rightarrow> inspect \<Rightarrow> string \<Rightarrow> string \<Rightarrow> docker_call list" where
  "replace_trace oldID before img newID =
    (if has_prefix img ''sha256:'' then [] else [CallPull img True])
    @ remove_trace oldID (is_running before) @ [CallCreate img (trimSlash (in_name before)) (Some newID)]"

definition recreate_trace :: "string \<Rightarrow> inspect \<Rightarrow> string \<Rightarrow> string \<Rightarrow> docker_call list" where
  "recreate_trace oldID before img newID =
    replace_trace oldID before img newID @ (if is_running before then [CallStart newID True] else [])"

text \<open>What is known of the end of a recreation.\<close>
definition recreation_end :: "'d logging engine \<Rightarrow> string \<Rightarrow> inspect \<Rightarrow> string \<Rightarrow> recreationResult \<Rightarrow> recreate_error option \<Rightarrow>
    docker_call list \<Rightarrow> bool" where
  "recreation_end e oldID before img res err new \<longleftrightarrow>
    (err = None \<longrightarrow> new = recreate_trace oldID before img (rr_ID res) \<and> came_up e (is_running before) (rr_ID res) (rr_State res))
    \<and> (err = Some NilPointer \<longrightarrow> new = replace_trace oldID before img (rr_ID res)
         \<or> is_running before \<and> new = recreate_trace oldID before img (rr_ID res))"

lemma remove_original_error:
  "remove_original e oldID running d = ((res, err), d') \<Longrightarrow> err \<noteq> Some NilPointer"
  by (auto simp: remove_original_def Let_def split: prod.splits option.splits if_splits)

lemma recreate_calls:
  assumes "recreate (logged e) cl oldID before img s = ((res, err), s')"
  shows "\<exists>new. added s new s' \<and> recreation_calls oldID before img res (err = None) new
    \<and> recreation_end (logged e) oldID before img res err new"
proof (cases "buildRecreationPlan before img")
  case (Inl x)
  then have r: "res = no_result" "s' = s" "err = Some x" using assms by (simp_all add: recreate_def)
  have "x \<noteq> NilPointer" using Inl by (auto simp: buildRecreationPlan_def split: option.splits if_splits)
  then have fin: "recreation_end (logged e) oldID before img no_result (Some x) []" by (simp add: recreation_end_def)
  have "stop_calls oldID (is_running before) no_result []" by (simp add: stop_calls_def no_result_def)
  from recreation_calls_failed[OF this, of "[]" img] show ?thesis
    using r fin by (intro exI[of _ "[]"]) (simp add: no_result_def)
next
  case (Inr plan)
  note run = plan_fields(3)[OF Inr]
  let ?p = "if has_prefix img ''sha256:'' then (None, s) else Pull (logged e) cl img s"
  obtain r1 s1 where r1: "?p = (r1, s1)" by (cases ?p)
  define pull where "pull = (if has_prefix img ''sha256:'' then [] else [CallPull img (r1 = None)])"
  have a1: "added s pull s1" using r1 pull_noted[of e cl img s r1 s1] by (auto simp: pull_def split: if_splits)
  show ?thesis
  proof (cases r1)
    case (Some x)
    then have r: "res = no_result" "s' = s1" "err = Some (PullFailed x)"
      using assms r1 Inr by (simp_all add: recreate_def)
    have st: "stop_calls oldID (is_running before) no_result []" by (simp add: stop_calls_def no_result_def)
    have "recreation_calls oldID before img no_result False (pull @ [])"
      by (rule recreation_calls_failed[OF st]) (auto simp: pull_def no_result_def)
    moreover have "recreation_end (logged e) oldID before img no_result err pull" using r(3) by (simp add: recreation_end_def)
    ultimately show ?thesis using r a1 by auto
  next
    case None
    obtain res1 err1 s2 where r2: "remove_original (logged e) oldID (pl_was_running plan) s1 = ((res1, err1), s2)"
      by (metis surj_pair)
    from remove_original_calls[OF r2] obtain stop where stop: "added s1 stop s2"
      "stop_calls oldID (is_running before) res1 stop" "rr_ID res1 = ''''"
      "err1 = None \<longrightarrow> ((oldID = '''' \<and> stop = []) \<or> originalRemoved res1) \<and> stop = remove_trace oldID (is_running before)"
      "err1 \<noteq> None \<longrightarrow> \<not> originalRemoved res1" unfolding run by blast
    have pull': "pull = (if has_prefix img ''sha256:'' then [] else [CallPull img True])"
      using None by (simp add: pull_def)
    show ?thesis
    proof (cases err1)
      case (Some x)
      then have r: "res = res1" "s' = s2" "err = Some x" using assms r1 r2 Inr None by (simp_all add: recreate_def)
      have "recreation_calls oldID before img res1 False (pull @ stop)"
        by (rule recreation_calls_failed[OF stop(2)]) (use stop Some pull' in auto)
      moreover have "recreation_end (logged e) oldID before img res1 err (pull @ stop)"
        using r(3) Some remove_original_error[OF r2] by (simp add: recreation_end_def)
      ultimately show ?thesis using r added_trans[OF a1 stop(1)] by auto
    next
      case n: None
      then have "create_replacement (logged e) plan res1 s2 = ((res, err), s')"
        using assms r1 r2 Inr None by (simp add: recreate_def)
      from create_replacement_calls[OF this stop(3)] obtain create where cr: "added s2 create s'"
        "create_calls plan res (err = None) create" "originalStopped res = originalStopped res1"
        "originalRemoved res = originalRemoved res1"
        "err = None \<longrightarrow> came_up (logged e) (pl_was_running plan) (rr_ID res) (rr_State res)"
        "err = Some NilPointer \<longrightarrow> panic_calls plan res create" by blast
      have fin: "recreation_end (logged e) oldID before img res err (pull @ stop @ create)"
        using cr(2,5,6) stop(4) n pull' plan_fields[OF Inr]
        by (auto simp: recreation_end_def recreate_trace_def replace_trace_def create_calls_def panic_calls_def)
      have "recreation_calls oldID before img res (err = None) (pull @ stop @ create)"
        using recreation_calls_split[OF stop(2) Inr pull' cr(2) _ cr(3,4)] stop(4) n by blast
      moreover have "added s (pull @ stop @ create) s'"
        using added_trans[OF added_trans[OF a1 stop(1)] cr(1)] by simp
      ultimately show ?thesis using fin by blast
    qed
  qed
qed

end
