(* ===== verification/Host.thy ===== *)
theory Host
  imports Trace Settings
begin

text \<open>
  A small concrete Docker host, on which the witnesses run the updater. It has containers with an
  image and a running flag, hands out fresh IDs, and fails the calls it is told to.
\<close>

record host =
  ho_next :: nat
  ho_items :: "(string \<times> string \<times> string \<times> bool) list"  \<comment> \<open>ID, name, image, running\<close>
  ho_clock :: time
  ho_faults :: "string list"

definition host_info :: "string \<Rightarrow> string \<times> string \<times> bool \<Rightarrow> inspect" where
  "host_info i = (\<lambda>(name, img, running).
    \<lparr>in_id = i, in_name = CHR ''/'' # name, in_image = ''sha256:'' @ img, in_restart_count = 0,
     in_config = Some \<lparr>cf_hostname = '''', cf_env = [], cf_cmd = [], cf_image = img, cf_labels = [], cf_other = JNull\<rparr>,
     in_host = Some \<lparr>hc_binds = [], hc_mounts = [], hc_tmpfs = [], hc_group_add = [],
       hc_auto_remove = False, hc_oom_kill_disable = None, hc_other = JNull\<rparr>,
     in_state = Some \<lparr>cs_status = (if running then ''running'' else ''exited''), cs_running = running, cs_health = None\<rparr>,
     in_networks = None, in_mounts = []\<rparr>)"

definition host_call :: "string \<Rightarrow> (host \<Rightarrow> host) \<Rightarrow> host \<Rightarrow> string option \<times> host" where
  "host_call what f h = (if what \<in> set (ho_faults h) then (Some what, h) else (None, f h))"

definition on_item :: "string \<Rightarrow> (string \<times> string \<times> bool \<Rightarrow> string \<times> string \<times> bool) \<Rightarrow> host \<Rightarrow> host" where
  "on_item i f h = h\<lparr>ho_items := map (\<lambda>(j, x). if j = i then (j, f x) else (j, x)) (ho_items h)\<rparr>"

definition host_engine :: "host engine" where
  "host_engine = \<lparr>
     en_list = (\<lambda>h. (Inr (map (\<lambda>(i, name, img, running).
       \<lparr>su_id = i, su_names = [CHR ''/'' # name], su_image = img, su_image_id = ''sha256:'' @ img,
        su_state = (if running then ''running'' else ''exited''), su_status = '''', su_labels = []\<rparr>) (ho_items h)), h)),
     en_inspect = (\<lambda>i h. (case map_of (ho_items h) i of
       None \<Rightarrow> Inl ''no such container'' | Some x \<Rightarrow> Inr (host_info i x), h)),
     en_pull = (\<lambda>img a. host_call (''pull '' @ img) (\<lambda>h. h)),
     en_stop = (\<lambda>i t. host_call (''stop '' @ i) (on_item i (\<lambda>(n, img, r). (n, img, False)))),
     en_remove = (\<lambda>i f. host_call (''remove '' @ i) (\<lambda>h. h\<lparr>ho_items := filter (\<lambda>x. fst x \<noteq> i) (ho_items h)\<rparr>)),
     en_rename = (\<lambda>i m. host_call (''rename '' @ i) (on_item i (\<lambda>(n, img, r). (m, img, r)))),
     en_create = (\<lambda>c hc ns name h.
       if (''create '' @ cf_image c) \<in> set (ho_faults h) then (Inl ''create'', h)
       else (Inr (CHR ''n'' # decimal (ho_next h)),
             h\<lparr>ho_next := Suc (ho_next h),
               ho_items := ho_items h @ [(CHR ''n'' # decimal (ho_next h), name, cf_image c, False)]\<rparr>)),
     en_start = (\<lambda>i. host_call (''start '' @ i) (on_item i (\<lambda>(n, img, r). (n, img, True)))),
     en_now = ho_clock,
     en_wait = (\<lambda>t h. (True, h\<lparr>ho_clock := ho_clock h + t\<rparr>)),
     en_tick = (\<lambda>h. (True, h\<lparr>ho_clock := ho_clock h + tick_period\<rparr>)),
     en_sql = (\<lambda>h. (True, h)),
     en_config_json = (\<lambda>c. JObj [(''Image'', JStr (cf_image c))]),
     en_host_json = (\<lambda>c. JObj [])\<rparr>"

definition plain_client :: docker_client where
  "plain_client = \<lparr>dc_hub_username = '''', dc_hub_password = '''', dc_configured = Map.empty, dc_socket = ''/run/docker.sock''\<rparr>"

definition web_host :: "string list \<Rightarrow> host" where
  "web_host faults = \<lparr>ho_next = 1, ho_items = [(''c1'', ''web'', ''web:1'', True)], ho_clock = 0, ho_faults = faults\<rparr>"

definition sha_valid :: "string \<Rightarrow> bool" where
  "sha_valid s = has_prefix s ''sha256:''"

end
