(* ===== verification/Operations.thy ===== *)
theory Operations
  imports Events "HOL-Library.AList"
begin

text \<open>
  \<^verbatim>\<open>internal/updater/operations.go\<close>: the guard that admits one destructive operation per
  container name, and none while DoUpRo replaces itself. Every method of the guard holds its
  mutex for its whole body, so a run of the program is an interleaving of whole method calls;
  the step relation below has one rule per call.
\<close>

section \<open>The guard\<close>

record operation =
  op_kind :: string
  op_started_at :: time

datatype operation_error =
    MaintenanceInProgressError
  | OperationInProgressError string operation

text \<open>The active map, in the order a traversal visits it, the maintenance flag, and the gauge of
  active operations by kind that the guard maintains.\<close>
record operationGuard =
  active :: "(string \<times> operation) list"
  maintenance :: bool
  gauge :: "string \<Rightarrow> int"

definition newOperationGuard :: operationGuard where
  "newOperationGuard = \<lparr>active = [], maintenance = False, gauge = (\<lambda>_. 0)\<rparr>"

definition zero_operation :: operation where
  "zero_operation = \<lparr>op_kind = '''', op_started_at = 0\<rparr>"

definition begin_op :: "string \<Rightarrow> string \<Rightarrow> time \<Rightarrow> operationGuard \<Rightarrow> (operation \<times> bool) \<times> operationGuard" where
  "begin_op name kind now g =
    (if maintenance g then ((\<lparr>op_kind = ''self-update'', op_started_at = now\<rparr>, False), g)
     else case map_of (active g) name of
       Some current \<Rightarrow> ((current, False), g)
     | None \<Rightarrow>
         ((zero_operation, True),
          g\<lparr>active := AList.update name \<lparr>op_kind = kind, op_started_at = now\<rparr> (active g),
            gauge := (gauge g)(kind := gauge g kind + 1)\<rparr>))"

definition beginMaintenance :: "operationGuard \<Rightarrow> (string list \<times> bool) \<times> operationGuard" where
  "beginMaintenance g =
    (if maintenance g \<or> active g \<noteq> []
     then ((map (\<lambda>(name, op). name @ '':'' @ op_kind op) (active g), False), g)
     else (([], True), g\<lparr>maintenance := True\<rparr>))"

definition endMaintenance :: "operationGuard \<Rightarrow> operationGuard" where
  "endMaintenance g = g\<lparr>maintenance := False\<rparr>"

definition end_op :: "string \<Rightarrow> string \<Rightarrow> operationGuard \<Rightarrow> operationGuard" where
  "end_op name kind g =
    g\<lparr>active := AList.delete name (active g), gauge := (gauge g)(kind := gauge g kind - 1)\<rparr>"

definition get_op :: "string \<Rightarrow> operationGuard \<Rightarrow> operation option" where
  "get_op name g = map_of (active g) name"

definition maintenanceActive :: "operationGuard \<Rightarrow> bool" where
  "maintenanceActive g = maintenance g"

text \<open>\<^verbatim>\<open>beginOperation\<close> answers an error and logs the refusal, or returns the closure that ends
  the operation, here the name and kind it ends.\<close>
definition beginOperation :: "string \<Rightarrow> string \<Rightarrow> actor \<Rightarrow> string \<Rightarrow> time \<Rightarrow> operationGuard \<Rightarrow>
    (operation_error, string \<times> string) result \<times> operationGuard \<times> event list" where
  "beginOperation name kind act actorID now g =
    (case begin_op name kind now g of
       ((current, ok), g') \<Rightarrow>
         if \<not> ok then
           (Inl (if op_kind current = ''self-update'' then MaintenanceInProgressError
                 else OperationInProgressError name current),
            g',
            [event_of LevelWarn ''container.operation_rejected'' name act actorID
               [(''requested_operation'', AStr kind), (''active_operation'', AStr (op_kind current))]])
         else (Inr (name, kind), g', []))"

definition IsMaintenanceError :: "operation_error \<Rightarrow> bool" where
  "IsMaintenanceError err \<longleftrightarrow> (case err of MaintenanceInProgressError \<Rightarrow> True | _ \<Rightarrow> False)"

section \<open>The contract of a lock\<close>

text \<open>What the updater relies on: an acquired name is held by nobody else until it is released,
  and names do not interfere.\<close>

locale operation_lock =
  fixes acquire :: "'n \<Rightarrow> 'k \<Rightarrow> 'g \<Rightarrow> 'g option"
    and release :: "'n \<Rightarrow> 'k \<Rightarrow> 'g \<Rightarrow> 'g"
    and holder :: "'g \<Rightarrow> 'n \<rightharpoonup> 'k"
  assumes acquire_holder: "acquire n k g = Some g' \<Longrightarrow> holder g' = (holder g)(n \<mapsto> k)"
    and acquire_free: "acquire n k g = Some g' \<Longrightarrow> holder g n = None"
    and release_holder: "holder (release n k g) = (holder g)(n := None)"
begin

lemma held_refused: "holder g n = Some j \<Longrightarrow> acquire n k g = None"
  using acquire_free by (cases "acquire n k g") fastforce+

lemma acquire_exclusive: "acquire n k g = Some g' \<Longrightarrow> acquire n j g' = None"
  by (rule held_refused) (simp add: acquire_holder)

lemma acquire_other: "acquire n k g = Some g' \<Longrightarrow> m \<noteq> n \<Longrightarrow> holder g' m = holder g m"
  by (simp add: acquire_holder)

lemma release_restores: "acquire n k g = Some g' \<Longrightarrow> holder (release n k g') = holder g"
  by (simp add: acquire_holder release_holder) (metis acquire_free fun_upd_triv)

end

definition try_acquire :: "string \<Rightarrow> string \<times> time \<Rightarrow> operationGuard \<Rightarrow> operationGuard option" where
  "try_acquire name kt g = (case begin_op name (fst kt) (snd kt) g of
     ((_, ok), g') \<Rightarrow> if ok then Some g' else None)"

definition holder_of :: "operationGuard \<Rightarrow> string \<rightharpoonup> string \<times> time" where
  "holder_of g name = map_option (\<lambda>op. (op_kind op, op_started_at op)) (map_of (active g) name)"

interpretation guard: operation_lock try_acquire "\<lambda>n kt. end_op n (fst kt)" holder_of
  by unfold_locales
    (auto simp: try_acquire_def holder_of_def begin_op_def end_op_def update_conv' delete_conv'
      fun_eq_iff split: if_splits option.splits)

section \<open>Interleavings\<close>

text \<open>The whole system: the guard, the holders whose closure is still to run (each remembers the
  name and kind it began with), and whether a self-update holds maintenance.\<close>
record system =
  sy_guard :: operationGuard
  sy_holders :: "(string \<times> string) list"
  sy_self_update :: bool

definition initial :: system where
  "initial = \<lparr>sy_guard = newOperationGuard, sy_holders = [], sy_self_update = False\<rparr>"

inductive step :: "system \<Rightarrow> system \<Rightarrow> bool" where
  begun: "beginOperation n k act aid now (sy_guard s) = (Inr h, g, evs) \<Longrightarrow>
    step s (s\<lparr>sy_guard := g, sy_holders := h # sy_holders s\<rparr>)"
| refused: "beginOperation n k act aid now (sy_guard s) = (Inl err, g, evs) \<Longrightarrow>
    step s (s\<lparr>sy_guard := g\<rparr>)"
| ended: "(n, k) \<in> set (sy_holders s) \<Longrightarrow>
    step s (s\<lparr>sy_guard := end_op n k (sy_guard s), sy_holders := remove1 (n, k) (sy_holders s)\<rparr>)"
| maintenance_begun: "beginMaintenance (sy_guard s) = ((names, True), g) \<Longrightarrow>
    step s (s\<lparr>sy_guard := g, sy_self_update := True\<rparr>)"
| maintenance_refused: "beginMaintenance (sy_guard s) = ((names, False), g) \<Longrightarrow>
    step s (s\<lparr>sy_guard := g\<rparr>)"
| maintenance_ended: "sy_self_update s \<Longrightarrow>
    step s (s\<lparr>sy_guard := endMaintenance (sy_guard s), sy_self_update := False\<rparr>)"

inductive reachable :: "system \<Rightarrow> bool" where
  start: "reachable initial"
| next_step: "reachable s \<Longrightarrow> step s t \<Longrightarrow> reachable t"

definition guard_inv :: "system \<Rightarrow> bool" where
  "guard_inv s \<longleftrightarrow>
     distinct (map fst (active (sy_guard s)))
     \<and> distinct (map fst (sy_holders s))
     \<and> set (sy_holders s) = (\<lambda>(n, op). (n, op_kind op)) ` set (active (sy_guard s))
     \<and> maintenance (sy_guard s) = sy_self_update s
     \<and> (maintenance (sy_guard s) \<longrightarrow> active (sy_guard s) = [])
     \<and> (\<forall>k. gauge (sy_guard s) k = int (length (filter (\<lambda>(n, j). j = k) (sy_holders s))))"

inductive_cases step_elim: "step s t"

lemma beginOperation_Inr:
  "beginOperation n k act aid now g = (Inr h, g', evs) \<longleftrightarrow>
     \<not> maintenance g \<and> map_of (active g) n = None \<and> h = (n, k) \<and> evs = []
     \<and> g' = g\<lparr>active := AList.update n \<lparr>op_kind = k, op_started_at = now\<rparr> (active g),
             gauge := (gauge g)(k := gauge g k + 1)\<rparr>"
  by (auto simp: beginOperation_def begin_op_def split: option.splits)

lemma beginOperation_Inl:
  "beginOperation n k act aid now g = (Inl err, g', evs) \<Longrightarrow> g' = g"
  by (auto simp: beginOperation_def begin_op_def split: option.splits if_splits)

lemma AList_update_new: "map_of xs n = None \<Longrightarrow> AList.update n v xs = xs @ [(n, v)]"
  by (induction xs) (auto split: if_splits)

lemma remove1_key:
  "distinct (map fst hs) \<Longrightarrow> (n, k) \<in> set hs \<Longrightarrow> remove1 (n, k) hs = filter (\<lambda>h. fst h \<noteq> n) hs"
proof (induction hs)
  case (Cons h hs)
  show ?case
  proof (cases "h = (n, k)")
    case True
    then have "\<forall>x \<in> set hs. fst x \<noteq> n" using Cons.prems by force
    then show ?thesis using True by (simp add: filter_id_conv[THEN iffD2])
  next
    case False
    then have "(n, k) \<in> set hs" using Cons.prems by auto
    then have "fst h \<noteq> n" using Cons.prems(1) by (auto simp: rev_image_eqI)
    then show ?thesis using Cons False by auto
  qed
qed simp

lemma guard_inv_begun:
  assumes "guard_inv s" "beginOperation n k act aid now (sy_guard s) = (Inr h, g, evs)"
  shows "guard_inv (s\<lparr>sy_guard := g, sy_holders := h # sy_holders s\<rparr>)"
proof -
  have new: "map_of (active (sy_guard s)) n = None" "h = (n, k)"
    using assms(2) by (auto simp: beginOperation_Inr)
  then have free: "n \<notin> fst ` set (active (sy_guard s))" by (simp add: map_of_eq_None_iff)
  moreover have "fst ` set (sy_holders s) = fst ` set (active (sy_guard s))"
    using assms(1) by (force simp: guard_inv_def image_image case_prod_beta)
  ultimately show ?thesis
    using assms by (auto simp: guard_inv_def beginOperation_Inr AList_update_new[OF new(1)])
qed

lemma guard_inv_ended:
  assumes inv: "guard_inv s" and held: "(n, k) \<in> set (sy_holders s)"
  shows "guard_inv (s\<lparr>sy_guard := end_op n k (sy_guard s),
                       sy_holders := remove1 (n, k) (sy_holders s)\<rparr>)"
proof -
  have rm: "remove1 (n, k) (sy_holders s) = filter (\<lambda>h. fst h \<noteq> n) (sy_holders s)"
    using inv held by (intro remove1_key) (auto simp: guard_inv_def)
  have "set (filter (\<lambda>h. fst h \<noteq> n) (sy_holders s)) =
      (\<lambda>(n, op). (n, op_kind op)) ` set (AList.delete n (active (sy_guard s)))"
    using inv by (auto simp: guard_inv_def AList.delete_eq)
  moreover have "int (length (filter (\<lambda>(m, j). j = l) (remove1 (n, k) (sy_holders s)))) =
      (if l = k then gauge (sy_guard s) k - 1 else gauge (sy_guard s) l)" for l
  proof -
    let ?p = "filter (\<lambda>(m, j). j = l) (sy_holders s)"
    have "gauge (sy_guard s) l = int (length ?p)" using inv by (simp add: guard_inv_def)
    moreover have "filter (\<lambda>(m, j). j = l) (remove1 (n, k) (sy_holders s)) = remove1 (n, k) ?p"
      by (rule filter_remove1)
    moreover have "(n, k) \<in> set ?p \<longleftrightarrow> l = k" using held by auto
    moreover have "(n, k) \<in> set ?p \<Longrightarrow> 0 < length ?p" by (metis length_pos_if_in_set)
    ultimately show ?thesis by (auto simp: length_remove1 simp del: set_filter length_greater_0_conv)
  qed
  moreover have "distinct (map fst (AList.delete n (active (sy_guard s))))"
    using inv by (simp add: guard_inv_def distinct_delete)
  ultimately show ?thesis
    using inv held
    by (auto simp: guard_inv_def end_op_def rm distinct_map_filter)
qed

lemma guard_inv_step: "step s t \<Longrightarrow> guard_inv s \<Longrightarrow> guard_inv t"
proof (induction rule: step.induct)
  case (refused n k act aid now s err g evs)
  then show ?case by (auto dest: beginOperation_Inl)
next
  case (maintenance_begun s names g)
  then show ?case by (auto simp: beginMaintenance_def guard_inv_def split: if_splits)
next
  case (maintenance_refused s names g)
  then show ?case by (auto simp: beginMaintenance_def split: if_splits)
next
  case (maintenance_ended s)
  then show ?case by (auto simp: endMaintenance_def guard_inv_def)
qed (auto intro: guard_inv_begun guard_inv_ended)

lemma reachable_inv: "reachable s \<Longrightarrow> guard_inv s"
proof (induction rule: reachable.induct)
  case start
  then show ?case by (simp add: guard_inv_def initial_def newOperationGuard_def)
qed (rule guard_inv_step)

section \<open>Properties\<close>

text \<open>C8: mutual exclusion. In every interleaving of update, rollback and self-update calls, no
  container name has two operations in progress, and while a self-update holds maintenance no
  operation is in progress at all.\<close>
theorem one_operation_per_container:
  assumes "reachable s"
  shows "distinct (map fst (sy_holders s)) \<and> (sy_self_update s \<longrightarrow> sy_holders s = [])"
  using reachable_inv[OF assms] by (auto simp: guard_inv_def)

text \<open>An update of \<^verbatim>\<open>web\<close> and a rollback of \<^verbatim>\<open>db\<close> in progress together.\<close>
definition two_running :: system where
  "two_running =
    (let g = snd (begin_op ''web'' ''update'' 1 newOperationGuard);
         g' = snd (begin_op ''db'' ''rollback'' 2 g)
     in \<lparr>sy_guard = g', sy_holders = [(''db'', ''rollback''), (''web'', ''update'')],
         sy_self_update = False\<rparr>)"

lemma two_running_reachable: "reachable two_running"
proof -
  let ?g = "snd (begin_op ''web'' ''update'' 1 newOperationGuard)"
  let ?s = "\<lparr>sy_guard = ?g, sy_holders = [(''web'', ''update'')], sy_self_update = False\<rparr>"
  have "step initial (initial\<lparr>sy_guard := ?g, sy_holders := (''web'', ''update'') # sy_holders initial\<rparr>)"
    by (rule step.begun[where n = "''web''" and k = "''update''" and now = 1])
      (simp add: beginOperation_def begin_op_def initial_def newOperationGuard_def)
  then have "reachable ?s" using reachable.intros by (simp add: initial_def)
  moreover have "step ?s two_running"
    using step.begun[of "''db''" "''rollback''" ActorSystem "''''" 2 ?s "(''db'', ''rollback'')"]
    by (simp add: two_running_def beginOperation_def begin_op_def newOperationGuard_def)
  ultimately show ?thesis using reachable.intros by blast
qed

theorem one_operation_per_container_witness:
  "map fst (sy_holders two_running) = [''db'', ''web''] \<and> distinct (map fst (sy_holders two_running))"
  using one_operation_per_container[OF two_running_reachable] by (simp add: two_running_def)

text \<open>in every interleaving the gauge \<^verbatim>\<open>ContainerOperationsActive\<close> of a kind is the number of
  operations of that kind in progress; in particular it returns to zero when they have ended and
  is never negative.\<close>
theorem gauge_counts_operations:
  assumes "reachable s"
  shows "gauge (sy_guard s) k = int (length (filter (\<lambda>(n, j). j = k) (sy_holders s)))"
  using reachable_inv[OF assms] by (simp add: guard_inv_def)

theorem gauge_counts_operations_witness: "gauge (sy_guard two_running) ''rollback'' = 1"
  using gauge_counts_operations[OF two_running_reachable, of "''rollback''"]
  by (simp add: two_running_def)

text \<open>a second operation on a name is refused with the operation in progress, a new one during
  maintenance with the maintenance error the scheduler waits on, both leaving the guard as it
  was; and every other request succeeds. Kinds are those of the program, which never begins an
  operation named \<^verbatim>\<open>self-update\<close>.\<close>
theorem beginOperation_outcome:
  assumes "reachable s" "\<forall>(n, j) \<in> set (sy_holders s). j \<noteq> ''self-update''"
  shows "(case beginOperation n k act aid now (sy_guard s) of
      (Inl err, g, evs) \<Rightarrow> g = sy_guard s \<and> length evs = 1
        \<and> (if sy_self_update s then IsMaintenanceError err
           else \<exists>op. err = OperationInProgressError n op \<and> (n, op_kind op) \<in> set (sy_holders s))
    | (Inr h, g, evs) \<Rightarrow> \<not> sy_self_update s \<and> n \<notin> fst ` set (sy_holders s)
        \<and> evs = [] \<and> get_op n g = Some \<lparr>op_kind = k, op_started_at = now\<rparr>)"
proof -
  have inv: "guard_inv s" by (rule reachable_inv[OF assms(1)])
  have holders: "(m, j) \<in> set (sy_holders s) \<longleftrightarrow>
      (\<exists>op. (m, op) \<in> set (active (sy_guard s)) \<and> op_kind op = j)" for m j
    using inv by (auto simp: guard_inv_def)
  show ?thesis
  proof (cases "maintenance (sy_guard s)")
    case True
    then show ?thesis
      using inv by (simp add: beginOperation_def begin_op_def IsMaintenanceError_def guard_inv_def)
  next
    case calm: False
    then have su: "\<not> sy_self_update s" using inv by (simp add: guard_inv_def)
    show ?thesis
    proof (cases "map_of (active (sy_guard s)) n")
      case None
      then have "n \<notin> fst ` set (sy_holders s)"
        using holders by (force simp: map_of_eq_None_iff)
      then show ?thesis
        using calm None su by (simp add: beginOperation_def begin_op_def get_op_def update_conv')
    next
      case (Some op)
      then have h: "(n, op_kind op) \<in> set (sy_holders s)" using holders map_of_SomeD by fast
      then have "op_kind op \<noteq> ''self-update''" using assms(2) by blast
      then show ?thesis using calm Some su h by (simp add: beginOperation_def begin_op_def)
    qed
  qed
qed

theorem beginOperation_outcome_witness:
  "\<exists>err g evs op. beginOperation ''web'' ''rollback'' ActorUser ''admin'' 3 (sy_guard two_running) =
     (Inl err, g, evs) \<and> err = OperationInProgressError ''web'' op \<and> op_kind op = ''update''"
proof -
  have "\<forall>(n, j) \<in> set (sy_holders two_running). j \<noteq> ''self-update''"
    by (simp add: two_running_def)
  from beginOperation_outcome[OF two_running_reachable this,
      where n = "''web''" and k = "''rollback''" and act = ActorUser and aid = "''admin''" and now = 3]
  show ?thesis
    by (auto simp: two_running_def beginOperation_def begin_op_def newOperationGuard_def)
qed

text \<open>running an operation between its begin and its end leaves the guard's holders exactly as
  they were, so an update or rollback that finishes frees its container for the next.\<close>
theorem operation_bracket_restores:
  assumes "begin_op name kind now g = ((cur, True), g')"
  shows "get_op m (end_op name kind g') = get_op m g"
  using guard.release_restores[of name "(kind, now)" g g'] assms
  by (auto simp: try_acquire_def get_op_def holder_of_def fun_eq_iff begin_op_def end_op_def
      delete_conv' update_conv' split: if_splits option.splits)

theorem operation_bracket_restores_witness:
  "get_op ''web'' (end_op ''web'' ''update'' (snd (begin_op ''web'' ''update'' 7 newOperationGuard))) = None"
  using operation_bracket_restores[of "''web''" "''update''" 7 newOperationGuard zero_operation
      "snd (begin_op ''web'' ''update'' 7 newOperationGuard)" "''web''"]
  by (simp add: begin_op_def newOperationGuard_def get_op_def)

end
