(* ===== verification/Updater.thy ===== *)
theory Updater
  imports Host Operations
begin

text \<open>
  \<^verbatim>\<open>internal/updater/updater.go\<close>: update and rollback of a container, with the revert that
  follows a failure. The state is the environment (engine, clock, disk), the tables of the store,
  the operation guard, and the events and notifications sent. Every statement on the store can
  fail, which \<^verbatim>\<open>en_sql\<close> decides; metrics are left out. Message texts are left out too.
\<close>

section \<open>State\<close>

record 'd world =
  wd_env :: 'd
  wd_containers :: container_table
  wd_watches :: watch_table
  wd_settings :: settings_table
  wd_guard :: operationGuard
  wd_events :: "event list"
  wd_notices :: "(string \<times> string \<times> string) list"  \<comment> \<open>event type, container, stack\<close>

datatype db_error = DbFailed | DbError store_error

datatype cause = Recreate recreate_error | Commit db_error

datatype op_error =
    Refused operation_error
  | LookUp db_error
  | NoPrevious
  | InspectBefore string
  | InspectCrashLoop string
  | ContextEnded
  | WaitNotReturned  \<comment> \<open>the model's fuel ran out; see \<open>settle_returns\<close>\<close>
  | Panicked  \<comment> \<open>Go panics: the call unwinds, and nothing but its deferred closures still runs\<close>
  | FailedBeforeRemoval cause
  | RestartFailed string
  | Reverted cause
  | RevertFailed cause recreate_error
  | RecordReverted db_error

definition now :: "'d engine \<Rightarrow> 'd world \<Rightarrow> time" where
  "now e w = en_now e (wd_env w)"

definition emit :: "event \<Rightarrow> 'd world \<Rightarrow> 'd world" where
  "emit ev w = w\<lparr>wd_events := wd_events w @ [ev]\<rparr>"

definition versioned :: "level \<Rightarrow> string \<Rightarrow> string \<Rightarrow> string \<Rightarrow> string \<Rightarrow> actor \<Rightarrow> string \<Rightarrow> event" where
  "versioned lvl typ name fromV toV act actorID =
    (event_of lvl typ name act actorID [])\<lparr>ev_from_version := fromV, ev_to_version := toV\<rparr>"

text \<open>\<^verbatim>\<open>Notifier.Notify\<close> as the updater sees it.\<close>
definition notify :: "string \<Rightarrow> string \<Rightarrow> string \<Rightarrow> 'd world \<Rightarrow> 'd world" where
  "notify typ name stack w = w\<lparr>wd_notices := wd_notices w @ [(typ, name, stack)]\<rparr>"

text \<open>A statement on the store: \<^term>\<open>f\<close> is run when SQLite lets it.\<close>
definition sql :: "'d engine \<Rightarrow> ('d world \<Rightarrow> 'a \<times> 'd world) \<Rightarrow> 'd world \<Rightarrow> (db_error, 'a) result \<times> 'd world" where
  "sql e f w =
    (case en_sql e (wd_env w) of
       (False, d) \<Rightarrow> (Inl DbFailed, w\<lparr>wd_env := d\<rparr>)
     | (True, d) \<Rightarrow> (case f (w\<lparr>wd_env := d\<rparr>) of (a, w') \<Rightarrow> (Inr a, w')))"

definition db_GetContainer :: "'d engine \<Rightarrow> string \<Rightarrow> 'd world \<Rightarrow> (db_error, ContainerRecord) result \<times> 'd world" where
  "db_GetContainer e cid w =
    (case sql e (\<lambda>w. (GetContainer cid (wd_containers w), w)) w of
       (Inl err, w') \<Rightarrow> (Inl err, w')
     | (Inr (Inl err), w') \<Rightarrow> (Inl (DbError err), w')
     | (Inr (Inr rec), w') \<Rightarrow> (Inr rec, w'))"

definition db_ReplaceContainer :: "'d engine \<Rightarrow> string \<Rightarrow> ContainerRecord \<Rightarrow> 'd world \<Rightarrow> (db_error, unit) result \<times> 'd world" where
  "db_ReplaceContainer e oldID rec w =
    sql e (\<lambda>w. ((), w\<lparr>wd_containers := ReplaceContainer oldID rec (wd_containers w)\<rparr>)) w"

definition container_record :: "string \<Rightarrow> string \<Rightarrow> string \<Rightarrow> string \<Rightarrow> string \<Rightarrow> string \<Rightarrow> string \<Rightarrow> ContainerRecord" where
  "container_record cid name stack state status current previous =
    \<lparr>c_id = cid, c_name = name, c_stack = stack, c_state = state, c_status = status,
     c_current_image = current, c_previous_image = previous, c_current_version = '''',
     c_available_version = '''', c_update_available = False, c_excluded = False, c_last_checked_at = None\<rparr>"

definition run_recreate :: "'d engine \<Rightarrow> docker_client \<Rightarrow> string \<Rightarrow> inspect \<Rightarrow> string \<Rightarrow> 'd world \<Rightarrow>
    (recreationResult \<times> recreate_error option) \<times> 'd world" where
  "run_recreate e cl oldID before img w =
    (case recreate e cl oldID before img (wd_env w) of (r, d) \<Rightarrow> (r, w\<lparr>wd_env := d\<rparr>))"

definition run_inspect :: "'d engine \<Rightarrow> string \<Rightarrow> 'd world \<Rightarrow> (string, inspect) result \<times> 'd world" where
  "run_inspect e cid w = (case en_inspect e cid (wd_env w) of (r, d) \<Rightarrow> (r, w\<lparr>wd_env := d\<rparr>))"

section \<open>Failure\<close>

definition stableImageReference :: "(string \<Rightarrow> bool) \<Rightarrow> string \<Rightarrow> string \<Rightarrow> string" where
  "stableImageReference dv operationImage storedImage =
    (if IsDigestReference dv operationImage \<and> storedImage \<noteq> '''' \<and> \<not> IsDigestReference dv storedImage
     then storedImage else operationImage)"

text \<open>The configuration is present in the callers of \<^verbatim>\<open>revert\<close> and \<^verbatim>\<open>failBeforeRemoval\<close>.\<close>
definition labels_of :: "inspect \<Rightarrow> (string \<times> string) list" where
  "labels_of i = (case in_config i of None \<Rightarrow> [] | Some c \<Rightarrow> cf_labels c)"

definition image_of :: "inspect \<Rightarrow> string" where
  "image_of i = (case in_config i of None \<Rightarrow> '''' | Some c \<Rightarrow> cf_image c)"

definition revert :: "'d engine \<Rightarrow> docker_client \<Rightarrow> (string \<Rightarrow> bool) \<Rightarrow> string \<Rightarrow> string \<Rightarrow> string \<Rightarrow> inspect \<Rightarrow>
    string \<Rightarrow> actor \<Rightarrow> string \<Rightarrow> cause \<Rightarrow> 'd world \<Rightarrow> op_error \<times> 'd world" where
  "revert e cl dv kind originalID liveID before name act actorID why w =
    (case run_recreate e cl liveID before (image_of before) w of
       ((result, Some revertErr), w1) \<Rightarrow>
         if revertErr = NilPointer then (Panicked, w1)
         else (RevertFailed why revertErr,
          notify (kind @ ''.revert_failed'') name (stackOf (labels_of before))
            (emit (event_of LevelError (kind @ ''.revert_failed'') name act actorID []) w1))
     | ((result, None), w1) \<Rightarrow>
         (case db_GetContainer e originalID w1 of (got, w2) \<Rightarrow>
          let (previousImage, currentImage) =
            (case got of
               Inr rec \<Rightarrow> (c_previous_image rec, stableImageReference dv (image_of before) (c_current_image rec))
             | Inl _ \<Rightarrow> ('''', image_of before))
          in case db_ReplaceContainer e originalID
                    (container_record (rr_ID result) name (stackOf (labels_of before)) (rr_State result)
                       (rr_Status result) currentImage previousImage) w2 of
               (Inl err, w3) \<Rightarrow> (RecordReverted err, w3)
             | (Inr _, w3) \<Rightarrow> (Reverted why, notify (kind @ ''.failed'') name (stackOf (labels_of before)) w3)))"

definition failBeforeRemoval :: "'d engine \<Rightarrow> string \<Rightarrow> string \<Rightarrow> recreationResult \<Rightarrow> string \<Rightarrow> actor \<Rightarrow> string \<Rightarrow>
    cause \<Rightarrow> 'd world \<Rightarrow> op_error \<times> 'd world" where
  "failBeforeRemoval e kind originalID result name act actorID why w =
    (if originalStopped result then
       (case en_start e originalID (wd_env w) of
          (Some err, d) \<Rightarrow>
            (RestartFailed err,
             emit (event_of LevelError (kind @ ''.revert_failed'') name act actorID []) (w\<lparr>wd_env := d\<rparr>))
        | (None, d) \<Rightarrow> (FailedBeforeRemoval why, w\<lparr>wd_env := d\<rparr>))
     else (FailedBeforeRemoval why, w))"

section \<open>Update\<close>

text \<open>The commit: the new row, with an armed watch when the container runs.\<close>
definition commit_update :: "'d engine \<Rightarrow> string \<Rightarrow> ContainerRecord \<Rightarrow> 'd world \<Rightarrow>
    (db_error, int \<times> int) result \<times> 'd world" where
  "commit_update e containerID rec w =
    (if c_state rec = ''running'' then
       (case sql e (\<lambda>w. (GetCrashLoopSettings (wd_settings w), w)) w of
          (Inl err, w1) \<Rightarrow> (Inl err, w1)
        | (Inr (threshold, minutes), w1) \<Rightarrow>
            (case run_inspect e (c_id rec) w1 of (inspected, w2) \<Rightarrow>
             let restartCount = (case inspected of Inr i \<Rightarrow> in_restart_count i | Inl _ \<Rightarrow> 0);
                 appliedAt = now e w2
             in case sql e (\<lambda>w. let (cs, ws) = ReplaceContainerAndArmRollback containerID rec appliedAt
                                    (minutes * 60 * nanos) threshold restartCount
                                    (wd_containers w, wd_watches w)
                                in ((), w\<lparr>wd_containers := cs, wd_watches := ws\<rparr>)) w2 of
                  (Inl err, w3) \<Rightarrow> (Inl err, w3)
                | (Inr _, w3) \<Rightarrow> (Inr (threshold, minutes), w3)))
     else (case db_ReplaceContainer e containerID rec w of
             (Inl err, w1) \<Rightarrow> (Inl err, w1) | (Inr _, w1) \<Rightarrow> (Inr (0, 0), w1)))"

definition finish_update :: "'d engine \<Rightarrow> ContainerRecord \<Rightarrow> int \<times> int \<Rightarrow> string \<Rightarrow> string \<Rightarrow> actor \<Rightarrow> string \<Rightarrow>
    'd world \<Rightarrow> 'd world" where
  "finish_update e rec crash fromV toV act actorID w =
    (let w1 = (if c_state rec = ''running''
               then emit (event_of LevelInfo ''crashloop.armed'' (c_name rec) ActorSystem ''''
                      [(''threshold'', AInt (fst crash)), (''window_minutes'', AInt (snd crash))]) w
               else snd (sql e (\<lambda>w. ((), w\<lparr>wd_watches := CompleteRollbackWatch (c_name rec) ''not_running'' (wd_watches w)\<rparr>)) w))
     in notify ''update.succeeded'' (c_name rec) (c_stack rec)
          (emit (versioned LevelInfo ''update.succeeded'' (c_name rec) fromV toV act actorID) w1))"

definition update_body :: "'d engine \<Rightarrow> docker_client \<Rightarrow> (string \<Rightarrow> bool) \<Rightarrow> string \<Rightarrow> string \<Rightarrow> actor \<Rightarrow> string \<Rightarrow>
    'd world \<Rightarrow> op_error option \<times> 'd world" where
  "update_body e cl dv containerID targetImage act actorID w =
    (case run_inspect e containerID w of
       (Inl err, w1) \<Rightarrow> (Some (InspectBefore err), w1)
     | (Inr before, w1) \<Rightarrow>
         if in_config before = None then (Some Panicked, w1)
         else (case db_GetContainer e containerID w1 of (got, w2) \<Rightarrow>
           let name = trimSlash (in_name before);
               definedImage = (case got of
                   Inr rec \<Rightarrow> stableImageReference dv targetImage (c_current_image rec)
                 | Inl _ \<Rightarrow> targetImage);
               w3 = emit (versioned LevelInfo ''update.started'' name (image_of before) targetImage act actorID) w2
           in case run_recreate e cl containerID before targetImage w3 of
                ((result, Some err), w4) \<Rightarrow>
                  if err = NilPointer then (Some Panicked, w4)
                  else (let w5 = emit (versioned LevelError ''update.failed'' name (image_of before) targetImage act actorID) w4
                   in case (if \<not> originalRemoved result
                            then failBeforeRemoval e ''update'' containerID result name act actorID (Recreate err) w5
                            else revert e cl dv ''update'' containerID (rr_ID result) before name act actorID (Recreate err) w5) of
                        (oe, w6) \<Rightarrow> (Some oe, w6))
              | ((result, None), w4) \<Rightarrow>
                  (let rec = container_record (rr_ID result) name (stackOf (labels_of before)) (rr_State result)
                         (rr_Status result) definedImage (in_image before)
                   in case commit_update e containerID rec w4 of
                        (Inl err, w5) \<Rightarrow>
                          (case revert e cl dv ''update'' containerID (rr_ID result) before name act actorID (Commit err)
                                  (emit (versioned LevelError ''update.commit_failed'' name (image_of before) targetImage act actorID) w5) of
                             (oe, w6) \<Rightarrow> (Some oe, w6))
                      | (Inr crash, w5) \<Rightarrow>
                          (None, finish_update e rec crash (image_of before) targetImage act actorID w5))))"

text \<open>An operation between \<^verbatim>\<open>beginOperation\<close> and its deferred closure.\<close>
definition guarded_operation :: "'d engine \<Rightarrow> string \<Rightarrow> string \<Rightarrow> actor \<Rightarrow> string \<Rightarrow>
    ('d world \<Rightarrow> op_error option \<times> 'd world) \<Rightarrow> 'd world \<Rightarrow> op_error option \<times> 'd world" where
  "guarded_operation e name kind act actorID body w =
    (case beginOperation name kind act actorID (now e w) (wd_guard w) of
       (Inl err, g, evs) \<Rightarrow> (Some (Refused err), w\<lparr>wd_guard := g, wd_events := wd_events w @ evs\<rparr>)
     | (Inr (n, k), g, evs) \<Rightarrow>
         (case body (w\<lparr>wd_guard := g\<rparr>) of (r, w') \<Rightarrow> (r, w'\<lparr>wd_guard := end_op n k (wd_guard w')\<rparr>)))"

definition Update :: "'d engine \<Rightarrow> docker_client \<Rightarrow> (string \<Rightarrow> bool) \<Rightarrow> string \<Rightarrow> string \<Rightarrow> actor \<Rightarrow> string \<Rightarrow>
    'd world \<Rightarrow> op_error option \<times> 'd world" where
  "Update e cl dv containerID targetImage act actorID w =
    (case db_GetContainer e containerID w of (got, w1) \<Rightarrow>
     guarded_operation e (case got of Inr rec \<Rightarrow> c_name rec | Inl _ \<Rightarrow> containerID) ''update'' act actorID
       (update_body e cl dv containerID targetImage act actorID) w1)"

section \<open>Rollback\<close>

text \<open>The wait for a crash-looping container to settle: every 100 ms until it is in a state that
  can be recreated, for at most 10 seconds.\<close>
fun settle :: "'d engine \<Rightarrow> string \<Rightarrow> time \<Rightarrow> nat \<Rightarrow> inspect \<Rightarrow> 'd world \<Rightarrow> (op_error, inspect) result \<times> 'd world" where
  "settle e cid deadline 0 before w = (Inl WaitNotReturned, w)"
| "settle e cid deadline (Suc n) before w =
    (if in_state before = None \<or> statusOf before \<in> set safe_states \<or> \<not> now e w < deadline then (Inr before, w)
     else case en_wait e 100000000 (wd_env w) of
       (False, d) \<Rightarrow> (Inl ContextEnded, w\<lparr>wd_env := d\<rparr>)
     | (True, d) \<Rightarrow>
         (case run_inspect e cid (w\<lparr>wd_env := d\<rparr>) of
            (Inl err, w1) \<Rightarrow> (Inl (InspectCrashLoop err), w1)
          | (Inr before', w1) \<Rightarrow> settle e cid deadline n before' w1))"

definition settle_fuel :: nat where "settle_fuel = 102"

definition rollback_type :: "actor \<Rightarrow> string" where
  "rollback_type act = (if act = ActorSystem then ''rollback.auto'' else ''rollback.manual'')"

definition commit_rollback :: "'d engine \<Rightarrow> string \<Rightarrow> ContainerRecord \<Rightarrow> actor \<Rightarrow> 'd world \<Rightarrow> (db_error, unit) result \<times> 'd world" where
  "commit_rollback e containerID rec act w =
    sql e (\<lambda>w. let (cs, ws) = ReplaceContainerAndCompleteRollback containerID rec
                    (if act = ActorSystem then ''automatic_rollback'' else ''manual_rollback'')
                    (wd_containers w, wd_watches w)
               in ((), w\<lparr>wd_containers := cs, wd_watches := ws\<rparr>)) w"

definition mark_available :: "'d engine \<Rightarrow> string \<Rightarrow> string \<Rightarrow> actor \<Rightarrow> string \<Rightarrow> 'd world \<Rightarrow> 'd world" where
  "mark_available e cid name act actorID w =
    (let checkedAt = now e w in
     case sql e (\<lambda>w. ((), w\<lparr>wd_containers := SetUpdateAvailable cid True checkedAt (wd_containers w)\<rparr>)) w of
       (Inl _, w1) \<Rightarrow> emit (event_of LevelWarn ''container.sync_failed'' name act actorID []) w1
     | (Inr _, w1) \<Rightarrow> w1)"

definition rollback_from :: "'d engine \<Rightarrow> docker_client \<Rightarrow> (string \<Rightarrow> bool) \<Rightarrow> string \<Rightarrow> ContainerRecord \<Rightarrow> inspect \<Rightarrow>
    actor \<Rightarrow> string \<Rightarrow> 'd world \<Rightarrow> op_error option \<times> 'd world" where
  "rollback_from e cl dv containerID rec before act actorID w =
    (let name = trimSlash (in_name before);
         eventType = rollback_type act;
         ev = (\<lambda>lvl typ. versioned lvl typ name (c_current_image rec) (c_previous_image rec) act actorID);
         w1 = emit (ev (if act = ActorSystem then LevelWarn else LevelInfo) eventType) w
     in case run_recreate e cl containerID before (c_previous_image rec) w1 of
          ((result, Some err), w2) \<Rightarrow>
            if err = NilPointer then (Some Panicked, w2)
            else (let w3 = emit (ev LevelError (eventType @ ''.failed'')) w2
             in case (if \<not> originalRemoved result
                      then failBeforeRemoval e eventType containerID result name act actorID (Recreate err) w3
                      else revert e cl dv eventType containerID (rr_ID result) before name act actorID (Recreate err) w3) of
                  (oe, w4) \<Rightarrow> (Some oe, w4))
        | ((result, None), w2) \<Rightarrow>
            (if in_config before = None then (Some Panicked, w2)
             else case commit_rollback e containerID
                    (container_record (rr_ID result) name (stackOf (labels_of before)) (rr_State result)
                       (rr_Status result) (c_current_image rec) (in_image before)) act w2 of
                    (Inl err, w3) \<Rightarrow>
                      (case revert e cl dv eventType containerID (rr_ID result) before name act actorID (Commit err)
                              (emit (ev LevelError (eventType @ ''.commit_failed'')) w3) of
                         (oe, w4) \<Rightarrow> (Some oe, w4))
                  | (Inr _, w3) \<Rightarrow>
                      (None, notify (eventType @ ''.succeeded'') name (stackOf (labels_of before))
                        (emit (ev LevelInfo (eventType @ ''.succeeded''))
                          (mark_available e (rr_ID result) name act actorID w3)))))"

definition rollback_body :: "'d engine \<Rightarrow> docker_client \<Rightarrow> (string \<Rightarrow> bool) \<Rightarrow> string \<Rightarrow> ContainerRecord \<Rightarrow> actor \<Rightarrow> string \<Rightarrow>
    'd world \<Rightarrow> op_error option \<times> 'd world" where
  "rollback_body e cl dv containerID rec act actorID w =
    (case run_inspect e containerID w of
       (Inl err, w1) \<Rightarrow> (Some (InspectBefore err), w1)
     | (Inr before, w1) \<Rightarrow>
         (case (if act = ActorSystem
                then settle e containerID (now e w1 + 10 * nanos) settle_fuel before w1
                else (Inr before, w1)) of
            (Inl err, w2) \<Rightarrow> (Some err, w2)
          | (Inr before', w2) \<Rightarrow> rollback_from e cl dv containerID rec before' act actorID w2))"

definition Rollback :: "'d engine \<Rightarrow> docker_client \<Rightarrow> (string \<Rightarrow> bool) \<Rightarrow> string \<Rightarrow> actor \<Rightarrow> string \<Rightarrow>
    'd world \<Rightarrow> op_error option \<times> 'd world" where
  "Rollback e cl dv containerID act actorID w =
    (case db_GetContainer e containerID w of
       (Inl err, w1) \<Rightarrow> (Some (LookUp err), w1)
     | (Inr rec, w1) \<Rightarrow>
         if c_previous_image rec = '''' then (Some NoPrevious, w1)
         else guarded_operation e (c_name rec) ''rollback'' act actorID
                (rollback_body e cl dv containerID rec act actorID) w1)"

section \<open>The guard is always released\<close>

named_theorems frame_simps \<open>what an operation leaves alone\<close>

lemma emit_frame [frame_simps]:
  "wd_guard (emit ev w) = wd_guard w" "wd_env (emit ev w) = wd_env w" "wd_containers (emit ev w) = wd_containers w"
  "wd_watches (emit ev w) = wd_watches w" "wd_settings (emit ev w) = wd_settings w" "wd_notices (emit ev w) = wd_notices w"
  by (simp_all add: emit_def)

lemma notify_frame [frame_simps]:
  "wd_guard (notify t n s w) = wd_guard w" "wd_env (notify t n s w) = wd_env w" "wd_containers (notify t n s w) = wd_containers w"
  "wd_watches (notify t n s w) = wd_watches w" "wd_settings (notify t n s w) = wd_settings w" "wd_events (notify t n s w) = wd_events w"
  by (simp_all add: notify_def)

lemma sql_cases:
  assumes "sql e f w = (r, w')"
  obtains d where "en_sql e (wd_env w) = (False, d)" "r = Inl DbFailed" "w' = w\<lparr>wd_env := d\<rparr>"
  | d a where "en_sql e (wd_env w) = (True, d)" "f (w\<lparr>wd_env := d\<rparr>) = (a, w')" "r = Inr a"
  using assms by (auto simp: sql_def split: prod.splits bool.splits)

lemma db_GetContainer_cases:
  assumes "db_GetContainer e cid w = (r, w')"
  obtains ok d where "en_sql e (wd_env w) = (ok, d)" "w' = w\<lparr>wd_env := d\<rparr>"
    "\<And>rec. r = Inr rec \<Longrightarrow> GetContainer cid (wd_containers w) = Inr rec"
  using assms by (auto simp: db_GetContainer_def sql_def split: prod.splits bool.splits sum.splits)

lemma run_inspect_cases:
  assumes "run_inspect e cid w = (r, w')"
  obtains d where "en_inspect e cid (wd_env w) = (r, d)" "w' = w\<lparr>wd_env := d\<rparr>"
  using assms by (auto simp: run_inspect_def split: prod.splits)

lemma run_recreate_cases:
  assumes "run_recreate e cl oldID before img w = (r, w')"
  obtains d where "recreate e cl oldID before img (wd_env w) = (r, d)" "w' = w\<lparr>wd_env := d\<rparr>"
  using assms by (auto simp: run_recreate_def split: prod.splits)

lemma db_ReplaceContainer_cases:
  assumes "db_ReplaceContainer e oldID rec w = (r, w')"
  obtains d where "en_sql e (wd_env w) = (False, d)" "r = Inl DbFailed" "w' = w\<lparr>wd_env := d\<rparr>"
  | d where "en_sql e (wd_env w) = (True, d)" "r = Inr ()"
     "w' = w\<lparr>wd_env := d, wd_containers := ReplaceContainer oldID rec (wd_containers w)\<rparr>"
  using assms by (auto simp: db_ReplaceContainer_def elim!: sql_cases)

lemma revert_guard: "revert e cl dv kind oid lid before name act aid why w = (r, w') \<Longrightarrow> wd_guard w' = wd_guard w"
  by (auto simp: revert_def Let_def frame_simps split: prod.splits option.splits sum.splits if_splits
      elim!: run_recreate_cases db_GetContainer_cases db_ReplaceContainer_cases)

lemma failBeforeRemoval_guard:
  "failBeforeRemoval e kind oid res name act aid why w = (r, w') \<Longrightarrow> wd_guard w' = wd_guard w"
  by (auto simp: failBeforeRemoval_def frame_simps split: prod.splits option.splits if_splits)

lemma commit_update_guard: "commit_update e cid rec w = (r, w') \<Longrightarrow> wd_guard w' = wd_guard w"
  by (auto simp: commit_update_def Let_def split: prod.splits sum.splits if_splits
      elim!: run_inspect_cases sql_cases db_ReplaceContainer_cases)

lemma sql_frame:
  fixes field :: "'d world \<Rightarrow> 'b" and f :: "'d world \<Rightarrow> 'a \<times> 'd world"
  assumes "\<And>v. field (snd (f v)) = field v" "\<And>v d. field (v\<lparr>wd_env := d\<rparr>) = field v"
  shows "field (snd (sql e f w)) = field w"
proof -
  obtain ok d where "en_sql e (wd_env w) = (ok, d)" by (rule prod.exhaust)
  then show ?thesis using assms(1)[of "w\<lparr>wd_env := d\<rparr>"] assms(2)[of d w]
    by (cases ok) (auto simp: sql_def split: prod.splits)
qed

lemma finish_update_guard: "wd_guard (finish_update e rec crash f t act aid w) = wd_guard w"
  by (simp add: finish_update_def Let_def frame_simps sql_frame)

text \<open>Two worlds with the same tables and guard.\<close>
definition same_store :: "'d world \<Rightarrow> 'd world \<Rightarrow> bool" where
  "same_store w v \<longleftrightarrow> wd_containers v = wd_containers w \<and> wd_watches v = wd_watches w
    \<and> wd_settings v = wd_settings w \<and> wd_guard v = wd_guard w"

lemma same_store_refl [simp]: "same_store w w"
  by (simp add: same_store_def)

text \<open>The record an update commits for the replacement.\<close>
definition updated_record :: "inspect \<Rightarrow> recreationResult \<Rightarrow> string \<Rightarrow> ContainerRecord" where
  "updated_record before result defined =
    container_record (rr_ID result) (trimSlash (in_name before)) (stackOf (labels_of before))
      (rr_State result) (rr_Status result) defined (in_image before)"

lemma update_body_cases [consumes 1, case_names inspect config panicked stopped reverted uncommitted committed]:
  assumes "update_body e cl dv cid target act aid w = (r, w')"
  obtains err d where "en_inspect e cid (wd_env w) = (Inl err, d)" "r = Some (InspectBefore err)"
      "w' = w\<lparr>wd_env := d\<rparr>"
  | before d where "en_inspect e cid (wd_env w) = (Inr before, d)" "in_config before = None"
      "r = Some Panicked" "w' = w\<lparr>wd_env := d\<rparr>"
  | before d ok d1 result where "en_inspect e cid (wd_env w) = (Inr before, d)" "en_sql e d = (ok, d1)"
      "recreate e cl cid before target d1 = ((result, Some NilPointer), wd_env w')" "same_store w w'" "r = Some Panicked"
  | before d ok d1 result err w1 oe where "en_inspect e cid (wd_env w) = (Inr before, d)" "en_sql e d = (ok, d1)"
      "recreate e cl cid before target d1 = ((result, Some err), wd_env w1)" "same_store w w1" "\<not> originalRemoved result"
      "failBeforeRemoval e ''update'' cid result (trimSlash (in_name before)) act aid (Recreate err) w1 = (oe, w')" "r = Some oe"
  | before d ok d1 result err w1 oe where "en_inspect e cid (wd_env w) = (Inr before, d)" "en_sql e d = (ok, d1)"
      "recreate e cl cid before target d1 = ((result, Some err), wd_env w1)" "same_store w w1" "originalRemoved result"
      "revert e cl dv ''update'' cid (rr_ID result) before (trimSlash (in_name before)) act aid (Recreate err) w1 = (oe, w')" "r = Some oe"
  | before d ok d1 result defined err w1 w2 w3 oe where "en_inspect e cid (wd_env w) = (Inr before, d)" "en_sql e d = (ok, d1)"
      "recreate e cl cid before target d1 = ((result, None), wd_env w1)" "same_store w w1"
      "commit_update e cid (updated_record before result defined) w1 = (Inl err, w2)" "wd_env w3 = wd_env w2" "same_store w2 w3"
      "revert e cl dv ''update'' cid (rr_ID result) before (trimSlash (in_name before)) act aid (Commit err) w3 = (oe, w')" "r = Some oe"
  | before d ok d1 result defined crash w1 w2 where "en_inspect e cid (wd_env w) = (Inr before, d)" "en_sql e d = (ok, d1)"
      "recreate e cl cid before target d1 = ((result, None), wd_env w1)" "same_store w w1"
      "commit_update e cid (updated_record before result defined) w1 = (Inr crash, w2)"
      "w' = finish_update e (updated_record before result defined) crash (image_of before) target act aid w2" "r = None"
proof -
  obtain i wi where i: "run_inspect e cid w = (i, wi)" by (metis surj_pair)
  then obtain d where d: "en_inspect e cid (wd_env w) = (i, d)" "wi = w\<lparr>wd_env := d\<rparr>" by (rule run_inspect_cases)
  show thesis
  proof (cases i)
    case (Inl err)
    then show thesis using assms i d that(1) by (simp add: update_body_def)
  next
    case (Inr before)
    show thesis
    proof (cases "in_config before = None")
      case True
      then show thesis using assms i d Inr that(2) by (simp add: update_body_def)
    next
      case False
      then obtain cfg where cfg: "in_config before = Some cfg" by auto
      obtain got wg where g: "db_GetContainer e cid wi = (got, wg)" by (metis surj_pair)
      then obtain ok d1 where g': "en_sql e d = (ok, d1)" "wg = w\<lparr>wd_env := d1\<rparr>"
        using d(2) by (auto elim!: db_GetContainer_cases)
      define name where "name = trimSlash (in_name before)"
      define defined where "defined = (case got of Inr rec \<Rightarrow> stableImageReference dv target (c_current_image rec) | Inl _ \<Rightarrow> target)"
      define w0 where "w0 = emit (versioned LevelInfo ''update.started'' name (image_of before) target act aid) wg"
      have s0: "same_store w w0" "wd_env w0 = d1" by (simp_all add: w0_def g' same_store_def frame_simps)
      obtain result err wr where r: "run_recreate e cl cid before target w0 = ((result, err), wr)" by (metis surj_pair)
      then have r': "recreate e cl cid before target d1 = ((result, err), wd_env wr)" "same_store w wr"
        using s0 by (auto elim!: run_recreate_cases simp: same_store_def)
      have body: "update_body e cl dv cid target act aid w =
        (case err of
           Some err \<Rightarrow>
             if err = NilPointer then (Some Panicked, wr)
             else (let w5 = emit (versioned LevelError ''update.failed'' name (image_of before) target act aid) wr
              in case (if \<not> originalRemoved result
                       then failBeforeRemoval e ''update'' cid result name act aid (Recreate err) w5
                       else revert e cl dv ''update'' cid (rr_ID result) before name act aid (Recreate err) w5) of
                   (oe, w6) \<Rightarrow> (Some oe, w6))
         | None \<Rightarrow>
             (case commit_update e cid (updated_record before result defined) wr of
                (Inl err, w5) \<Rightarrow>
                  (case revert e cl dv ''update'' cid (rr_ID result) before name act aid (Commit err)
                          (emit (versioned LevelError ''update.commit_failed'' name (image_of before) target act aid) w5) of
                     (oe, w6) \<Rightarrow> (Some oe, w6))
              | (Inr crash, w5) \<Rightarrow>
                  (None, finish_update e (updated_record before result defined) crash (image_of before) target act aid w5)))"
        unfolding update_body_def Let_def name_def defined_def updated_record_def
        using i Inr cfg g r[unfolded w0_def name_def] by (simp split: option.splits)
      show thesis
      proof (cases err)
        case (Some x)
        define w5 where "w5 = emit (versioned LevelError ''update.failed'' name (image_of before) target act aid) wr"
        have w5: "same_store w w5" "wd_env w5 = wd_env wr" using r'(2) by (simp_all add: w5_def same_store_def frame_simps)
        consider (panic) "x = NilPointer" | (late) "x \<noteq> NilPointer" "originalRemoved result"
          | (early) "x \<noteq> NilPointer" "\<not> originalRemoved result" by blast
        then show thesis
        proof cases
          case panic
          then have "r = Some Panicked" "w' = wr" using assms body Some by simp_all
          then show thesis using that(3)[OF d(1)[unfolded Inr] g'(1), of result] r' Some panic by simp
        next
          case late
          obtain oe w6 where "revert e cl dv ''update'' cid (rr_ID result) before name act aid (Recreate x) w5 = (oe, w6)"
            by (metis surj_pair)
          moreover from this have "r = Some oe" "w' = w6" using assms body Some late by (simp_all add: Let_def w5_def)
          ultimately show thesis
            using that(5)[OF d(1)[unfolded Inr] g'(1) _ w5(1) late(2), of x oe] r'(1) Some w5(2) by (simp add: name_def)
        next
          case early
          obtain oe w6 where "failBeforeRemoval e ''update'' cid result name act aid (Recreate x) w5 = (oe, w6)"
            by (metis surj_pair)
          moreover from this have "r = Some oe" "w' = w6" using assms body Some early by (simp_all add: Let_def w5_def)
          ultimately show thesis
            using that(4)[OF d(1)[unfolded Inr] g'(1) _ w5(1) early(2), of x oe] r'(1) Some w5(2) by (simp add: name_def)
        qed
      next
        case None
        obtain c w2 where c: "commit_update e cid (updated_record before result defined) wr = (c, w2)" by (metis surj_pair)
        show thesis
        proof (cases c)
          case (Inl x)
          define w3 where "w3 = emit (versioned LevelError ''update.commit_failed'' name (image_of before) target act aid) w2"
          have w3: "wd_env w3 = wd_env w2" "same_store w2 w3" by (simp_all add: w3_def same_store_def frame_simps)
          obtain oe w6 where "revert e cl dv ''update'' cid (rr_ID result) before name act aid (Commit x) w3 = (oe, w6)"
            by (metis surj_pair)
          moreover from this have "r = Some oe" "w' = w6" using assms body None c Inl by (simp_all add: w3_def)
          ultimately show thesis
            using that(6)[OF d(1)[unfolded Inr] g'(1) r'(1)[unfolded None] r'(2) c[unfolded Inl] w3, of oe] by (simp add: name_def)
        next
          case (Inr crash)
          then show thesis
            using that(7)[OF d(1)[unfolded \<open>i = Inr before\<close>] g'(1) r'(1)[unfolded None] r'(2) c[unfolded Inr]]
              assms body None c by simp
        qed
      qed
    qed
  qed
qed

lemma update_body_guard:
  assumes "update_body e cl dv cid target act aid w = (r, w')"
  shows "wd_guard w' = wd_guard w"
  using assms
  by (cases rule: update_body_cases)
    (auto simp: finish_update_guard same_store_def dest!: failBeforeRemoval_guard revert_guard commit_update_guard)

lemma settle_guard: "settle e cid deadline n before w = (r, w') \<Longrightarrow> wd_guard w' = wd_guard w"
proof (induction n arbitrary: before w)
  case (Suc n)
  obtain ok d where t: "en_wait e 100000000 (wd_env w) = (ok, d)" by (metis surj_pair)
  obtain i w1 where i: "run_inspect e cid (w\<lparr>wd_env := d\<rparr>) = (i, w1)" by (metis surj_pair)
  then have "wd_guard w1 = wd_guard w" by (auto elim!: run_inspect_cases)
  then show ?case using Suc t i by (auto split: if_splits bool.splits sum.splits)
qed simp

lemma commit_rollback_guard: "commit_rollback e cid rec act w = (r, w') \<Longrightarrow> wd_guard w' = wd_guard w"
  by (auto simp: commit_rollback_def Let_def split: prod.splits elim!: sql_cases)

lemma mark_available_guard: "wd_guard (mark_available e cid name act aid w) = wd_guard w"
  by (auto simp: mark_available_def Let_def frame_simps split: prod.splits sum.splits elim!: sql_cases)

lemma rollback_from_guard:
  assumes "rollback_from e cl dv cid rec before act aid w = (r, w')"
  shows "wd_guard w' = wd_guard w"
  using assms unfolding rollback_from_def Let_def
  by (auto simp: frame_simps mark_available_guard split: prod.splits sum.splits option.splits if_splits
      elim!: run_recreate_cases
      dest!: failBeforeRemoval_guard revert_guard commit_rollback_guard)

lemma rollback_body_guard:
  assumes "rollback_body e cl dv cid rec act aid w = (r, w')"
  shows "wd_guard w' = wd_guard w"
  using assms unfolding rollback_body_def
  by (auto split: prod.splits sum.splits if_splits elim!: run_inspect_cases dest!: settle_guard rollback_from_guard)

lemma guarded_operation_released:
  assumes "guarded_operation e name kind act aid body w = (r, w')"
    and "\<And>v r v'. body v = (r, v') \<Longrightarrow> wd_guard v' = wd_guard v"
  shows "holder_of (wd_guard w') = holder_of (wd_guard w)"
proof (cases "fst (beginOperation name kind act aid (now e w) (wd_guard w))")
  case (Inl err)
  then show ?thesis using assms(1)
    by (auto simp: guarded_operation_def beginOperation_def begin_op_def split: prod.splits if_splits option.splits)
next
  case (Inr nk)
  then obtain g where b: "beginOperation name kind act aid (now e w) (wd_guard w) = (Inr (name, kind), g, [])"
    and t: "try_acquire name (kind, now e w) (wd_guard w) = Some g"
    by (auto simp: beginOperation_def try_acquire_def split: prod.splits if_splits)
  obtain v where v: "body (w\<lparr>wd_guard := g\<rparr>) = (r, v)" "w' = v\<lparr>wd_guard := end_op name kind (wd_guard v)\<rparr>"
    using assms(1) b by (auto simp: guarded_operation_def split: prod.splits)
  have "wd_guard v = g" using assms(2)[OF v(1)] by simp
  then show ?thesis using guard.release_restores[OF t] v(2) by simp
qed

text \<open>C30: However an update or a rollback ends, refused, failed, reverted or done, and whatever the
  engine and the disk answered on the way, the operations in progress afterwards are the ones
  that were in progress before: no container stays locked.\<close>

theorem operation_always_released:
  "(Update e cl dv cid target act aid w = (r, w') \<longrightarrow> holder_of (wd_guard w') = holder_of (wd_guard w))
   \<and> (Rollback e cl dv cid act aid w = (r, w') \<longrightarrow> holder_of (wd_guard w') = holder_of (wd_guard w))"
proof (intro conjI impI)
  assume u: "Update e cl dv cid target act aid w = (r, w')"
  obtain got w1 where g: "db_GetContainer e cid w = (got, w1)" by (metis surj_pair)
  then have "wd_guard w1 = wd_guard w" by (auto elim!: db_GetContainer_cases)
  then show "holder_of (wd_guard w') = holder_of (wd_guard w)"
    using u g guarded_operation_released[OF _ update_body_guard] by (fastforce simp: Update_def)
next
  assume u: "Rollback e cl dv cid act aid w = (r, w')"
  obtain got w1 where g: "db_GetContainer e cid w = (got, w1)" by (metis surj_pair)
  then have "wd_guard w1 = wd_guard w" by (auto elim!: db_GetContainer_cases)
  then show "holder_of (wd_guard w') = holder_of (wd_guard w)"
    using u g guarded_operation_released[OF _ rollback_body_guard]
    by (fastforce simp: Rollback_def split: sum.splits if_splits)
qed

section \<open>What an update does to the host and the store\<close>

lemma sql_logged:
  assumes "sql (logged e) f w = (r, w')" "\<And>v. wd_env (snd (f v)) = wd_env v"
  shows "added (wd_env w) [] (wd_env w')"
  using assms(1)
proof (cases rule: sql_cases)
  case (1 d)
  then show ?thesis using logged_silent(5)[of e "wd_env w" False d] by simp
next
  case (2 d a)
  then have "wd_env w' = d" using assms(2)[of "w\<lparr>wd_env := d\<rparr>"] by simp
  then show ?thesis using logged_silent(5)[OF 2(1)] by simp
qed

lemma db_GetContainer_logged:
  "db_GetContainer (logged e) cid w = (r, w') \<Longrightarrow> added (wd_env w) [] (wd_env w')"
  by (auto elim!: db_GetContainer_cases dest: logged_silent(5))

lemma db_ReplaceContainer_logged:
  "db_ReplaceContainer (logged e) oid rec w = (r, w') \<Longrightarrow> added (wd_env w) [] (wd_env w')"
  by (auto elim!: db_ReplaceContainer_cases dest: logged_silent(5))

lemma failBeforeRemoval_outcome:
  assumes "failBeforeRemoval (logged e) kind oid result name act aid why w = (oe, w')"
  shows "\<exists>b. added (wd_env w) (if originalStopped result then [CallStart oid b] else []) (wd_env w')
    \<and> wd_containers w' = wd_containers w \<and> wd_watches w' = wd_watches w
    \<and> ((oe = FailedBeforeRemoval why \<and> b)
       \<or> (\<exists>err. oe = RestartFailed err \<and> originalStopped result
            \<and> event_of LevelError (kind @ ''.revert_failed'') name act aid [] \<in> set (wd_events w')))"
proof (cases "originalStopped result")
  case True
  obtain x d where x: "en_start (logged e) oid (wd_env w) = (x, d)" by (metis surj_pair)
  note a = logged_noted(5)[OF x]
  show ?thesis
  proof (cases x)
    case None
    then show ?thesis using assms True x a by (intro exI[of _ True]) (auto simp: failBeforeRemoval_def)
  next
    case (Some err)
    then show ?thesis using assms True x a by (intro exI[of _ False]) (auto simp: failBeforeRemoval_def emit_def)
  qed
next
  case False
  then show ?thesis using assms by (intro exI[of _ True]) (auto simp: failBeforeRemoval_def)
qed

text \<open>The row the store has for a container that was put back.\<close>
definition restored_row :: "string \<Rightarrow> inspect \<Rightarrow> recreationResult \<Rightarrow> 'd world \<Rightarrow> bool" where
  "restored_row name before result w \<longleftrightarrow>
    (\<exists>rec. container_of (rr_ID result) (wd_containers w) = Some rec \<and> c_id rec = rr_ID result
       \<and> c_name rec = name \<and> c_state rec = rr_State result)"

lemma revert_outcome:
  assumes "revert (logged e) cl dv kind oid lid before name act aid why w = (oe, w')"
    and "keys_distinct c_id (wd_containers w)"
  shows "\<exists>new result err. added (wd_env w) new (wd_env w')
    \<and> recreation_end (logged e) lid before (image_of before) result err new \<and> wd_watches w' = wd_watches w
    \<and> ((err = None \<and> oe = Reverted why \<and> restored_row name before result w')
       \<or> (err = None \<and> (\<exists>x. oe = RecordReverted x) \<and> wd_containers w' = wd_containers w)
       \<or> (err = Some NilPointer \<and> oe = Panicked \<and> wd_containers w' = wd_containers w)
       \<or> ((\<exists>x. oe = RevertFailed why x) \<and> wd_containers w' = wd_containers w
          \<and> event_of LevelError (kind @ ''.revert_failed'') name act aid [] \<in> set (wd_events w')
          \<and> (kind @ ''.revert_failed'', name, stackOf (labels_of before)) \<in> set (wd_notices w')))"
proof -
  obtain result err w1 where r: "run_recreate (logged e) cl lid before (image_of before) w = ((result, err), w1)"
    by (metis surj_pair)
  then obtain d where d: "recreate (logged e) cl lid before (image_of before) (wd_env w) = ((result, err), d)"
    "w1 = w\<lparr>wd_env := d\<rparr>" by (rule run_recreate_cases)
  from recreate_calls[OF d(1)] obtain new where new: "added (wd_env w) new d"
    "recreation_end (logged e) lid before (image_of before) result err new" by blast
  show ?thesis
  proof (cases err)
    case (Some x)
    then show ?thesis using assms r d new
      by (cases "x = NilPointer"; intro exI[of _ new] exI[of _ result] exI[of _ err]) (auto simp: revert_def emit_def notify_def)
  next
    case None
    obtain got w2 where g: "db_GetContainer (logged e) oid w1 = (got, w2)" by (metis surj_pair)
    obtain prev cur where pc: "(case got of
               Inr rec \<Rightarrow> (c_previous_image rec, stableImageReference dv (image_of before) (c_current_image rec))
             | Inl _ \<Rightarrow> ('''', image_of before)) = (prev, cur)" by (metis surj_pair)
    let ?rec = "container_record (rr_ID result) name (stackOf (labels_of before)) (rr_State result) (rr_Status result) cur prev"
    obtain x w3 where x: "db_ReplaceContainer (logged e) oid ?rec w2 = (x, w3)" by (metis surj_pair)
    have w2: "wd_containers w2 = wd_containers w" "wd_watches w2 = wd_watches w"
      using g d(2) by (auto elim!: db_GetContainer_cases)
    have a: "added (wd_env w) new (wd_env w3)"
      using new(1) db_GetContainer_logged[OF g] db_ReplaceContainer_logged[OF x] d(2) by (auto simp: added_def)
    have oe: "(oe, w') = (case x of Inl err \<Rightarrow> (RecordReverted err, w3)
        | Inr _ \<Rightarrow> (Reverted why, notify (kind @ ''.failed'') name (stackOf (labels_of before)) w3))"
      using assms(1) r None g pc x by (simp add: revert_def split: sum.splits)
    from x show ?thesis
    proof (cases rule: db_ReplaceContainer_cases)
      case (1 d')
      then show ?thesis using oe a new None w2
        by (intro exI[of _ new] exI[of _ result] exI[of _ None]) (auto simp: notify_frame)
    next
      case (2 d')
      then have "container_of (rr_ID result) (wd_containers w3) = Some (replaced_row ?rec (container_of (rr_ID result) (wd_containers w)))"
        using assms(2) w2 by (simp add: ReplaceContainer_def container_after_replace container_record_def)
      then have "restored_row name before result w'"
        using oe 2 by (auto simp: restored_row_def replaced_row_def container_record_def notify_frame)
      then show ?thesis using oe a new None w2 2
        by (intro exI[of _ new] exI[of _ result] exI[of _ None]) (auto simp: notify_frame)
    qed
  qed
qed

lemma commit_update_logged:
  assumes "commit_update (logged e) cid rec w = (c, w')"
  shows "added (wd_env w) [] (wd_env w')"
proof (cases "c_state rec = ''running''")
  case False
  obtain x w1 where x: "db_ReplaceContainer (logged e) cid rec w = (x, w1)" by (metis surj_pair)
  then have "w' = w1" using assms False by (auto simp: commit_update_def split: sum.splits)
  then show ?thesis using db_ReplaceContainer_logged[OF x] by simp
next
  case True
  obtain x w1 where x: "sql (logged e) (\<lambda>w. (GetCrashLoopSettings (wd_settings w), w)) w = (x, w1)" by (rule prod.exhaust)
  have a1: "added (wd_env w) [] (wd_env w1)" by (rule sql_logged[OF x]) simp
  obtain i w2 where i: "run_inspect (logged e) (c_id rec) w1 = (i, w2)" by (metis surj_pair)
  then have a2: "added (wd_env w1) [] (wd_env w2)" by (auto elim!: run_inspect_cases dest: logged_silent(1))
  show ?thesis
  proof (cases x)
    case (Inl err)
    then show ?thesis using assms True x a1 by (simp add: commit_update_def)
  next
    case (Inr tm)
    obtain th mins where tm: "tm = (th, mins)" by (cases tm)
    let ?f = "\<lambda>w. let (cs, ws) = ReplaceContainerAndArmRollback cid rec (now (logged e) w2) (mins * 60 * nanos) th
        (case i of Inr i \<Rightarrow> in_restart_count i | Inl _ \<Rightarrow> 0) (wd_containers w, wd_watches w)
        in ((), w\<lparr>wd_containers := cs, wd_watches := ws\<rparr>)"
    obtain y w3 where y: "sql (logged e) ?f w2 = (y, w3)" by (rule prod.exhaust)
    have a3: "added (wd_env w2) [] (wd_env w3)" by (rule sql_logged[OF y]) (simp add: Let_def split: prod.splits)
    have "w' = w3" using assms True x i y Inr tm by (auto simp: commit_update_def Let_def split: sum.splits)
    then show ?thesis using a1 a2 a3 by (auto simp: added_def)
  qed
qed

lemma commit_update_failed:
  assumes "commit_update e cid rec w = (Inl err, w')"
  shows "wd_containers w' = wd_containers w \<and> wd_watches w' = wd_watches w"
proof (cases "c_state rec = ''running''")
  case False
  then show ?thesis using assms
    by (auto simp: commit_update_def split: sum.splits prod.splits elim!: db_ReplaceContainer_cases)
next
  case True
  obtain x w1 where x: "sql e (\<lambda>w. (GetCrashLoopSettings (wd_settings w), w)) w = (x, w1)" by (rule prod.exhaust)
  have w1: "wd_containers w1 = wd_containers w" "wd_watches w1 = wd_watches w" using x by (auto elim!: sql_cases)
  show ?thesis
  proof (cases x)
    case (Inl err)
    then show ?thesis using assms True x w1 by (simp add: commit_update_def)
  next
    case (Inr tm)
    obtain th mins where tm: "tm = (th, mins)" by (cases tm)
    obtain i w2 where i: "run_inspect e (c_id rec) w1 = (i, w2)" by (metis surj_pair)
    have w2: "wd_containers w2 = wd_containers w" "wd_watches w2 = wd_watches w"
      using i w1 by (auto elim!: run_inspect_cases)
    let ?f = "\<lambda>w. let (cs, ws) = ReplaceContainerAndArmRollback cid rec (now e w2) (mins * 60 * nanos) th
        (case i of Inr i \<Rightarrow> in_restart_count i | Inl _ \<Rightarrow> 0) (wd_containers w, wd_watches w)
        in ((), w\<lparr>wd_containers := cs, wd_watches := ws\<rparr>)"
    obtain y w3 where y: "sql e ?f w2 = (y, w3)" by (rule prod.exhaust)
    have "w' = w3" "\<exists>z. y = Inl z"
      using assms True x i y Inr tm by (auto simp: commit_update_def Let_def split: sum.splits)
    then show ?thesis using y w2 by (auto elim!: sql_cases)
  qed
qed

lemma commit_update_done:
  assumes "commit_update e cid rec w = (Inr crash, w')" "keys_distinct c_id (wd_containers w)"
  shows "container_of (c_id rec) (wd_containers w') = Some (replaced_row rec (container_of (c_id rec) (wd_containers w)))
    \<and> (c_state rec = ''running'' \<longrightarrow> (\<exists>wt. watch_of (c_name rec) (wd_watches w') = Some wt
         \<and> w_status wt = ''active'' \<and> w_container_id wt = c_id rec \<and> w_crash_count wt = 0
         \<and> w_threshold wt = fst (GetCrashLoopSettings (wd_settings w))))"
proof (cases "c_state rec = ''running''")
  case False
  then show ?thesis using assms
    by (auto simp: commit_update_def ReplaceContainer_def container_after_replace split: sum.splits prod.splits
        elim!: db_ReplaceContainer_cases)
next
  case True
  obtain x w1 where x: "sql e (\<lambda>w. (GetCrashLoopSettings (wd_settings w), w)) w = (x, w1)" by (rule prod.exhaust)
  obtain i w2 where i: "run_inspect e (c_id rec) w1 = (i, w2)" by (metis surj_pair)
  obtain th mins where xr: "x = Inr (th, mins)" using assms(1) True x by (cases x) (auto simp: commit_update_def)
  have w2: "wd_containers w2 = wd_containers w" "wd_watches w2 = wd_watches w"
    "(th, mins) = GetCrashLoopSettings (wd_settings w)"
    using x i xr by (auto elim!: sql_cases run_inspect_cases)
  let ?rc = "case i of Inr i \<Rightarrow> in_restart_count i | Inl _ \<Rightarrow> 0"
  let ?r = "ReplaceContainerAndArmRollback cid rec (now e w2) (mins * 60 * nanos) th ?rc (wd_containers w, wd_watches w)"
  have w': "wd_containers w' = fst ?r" "wd_watches w' = snd ?r"
    using assms(1) True x i xr w2
    by (auto simp: commit_update_def Let_def split: sum.splits prod.splits elim!: sql_cases)
  have "th = fst (GetCrashLoopSettings (wd_settings w))" using w2(3) by (metis fst_conv)
  then show ?thesis using assms(2) True w'
    by (simp add: ReplaceContainerAndArmRollback_def container_after_replace watch_after_arm)
qed

lemma finish_update_outcome:
  "added (wd_env w) [] (wd_env (finish_update (logged e) rec crash f t act aid w))"
  "wd_containers (finish_update (logged e) rec crash f t act aid w) = wd_containers w"
  "c_state rec = ''running'' \<Longrightarrow> wd_watches (finish_update (logged e) rec crash f t act aid w) = wd_watches w"
proof -
  let ?f = "\<lambda>w. ((), w\<lparr>wd_watches := CompleteRollbackWatch (c_name rec) ''not_running'' (wd_watches w)\<rparr>)"
  have "added (wd_env w) [] (wd_env (snd (sql (logged e) ?f w)))"
    by (rule sql_logged[OF surjective_pairing]) simp
  then show "added (wd_env w) [] (wd_env (finish_update (logged e) rec crash f t act aid w))"
    by (simp add: finish_update_def Let_def frame_simps)
  show "wd_containers (finish_update (logged e) rec crash f t act aid w) = wd_containers w"
    by (simp add: finish_update_def Let_def frame_simps sql_frame)
  show "wd_watches (finish_update (logged e) rec crash f t act aid w) = wd_watches w"
    if "c_state rec = ''running''"
    using that by (simp add: finish_update_def Let_def frame_simps)
qed

text \<open>The calls \<^term>\<open>pre\<close> of a recreation that failed after the original was removed; the
  replacement \<^term>\<open>lid\<close> it may have created is what the revert removes.\<close>
definition removed_original :: "string \<Rightarrow> inspect \<Rightarrow> string \<Rightarrow> docker_call list \<Rightarrow> bool" where
  "removed_original cid before lid pre \<longleftrightarrow> CallRemove cid True \<in> set pre
    \<and> (lid = '''' \<or> (\<exists>img. CallCreate img (trimSlash (in_name before)) (Some lid) \<in> set pre))"

text \<open>The container was put back: recreated on the image reference of its own configuration.\<close>
definition put_back :: "'d engine \<Rightarrow> string \<Rightarrow> inspect \<Rightarrow> string \<Rightarrow> string \<Rightarrow> docker_call list \<Rightarrow> bool" where
  "put_back e cid before newID state new \<longleftrightarrow>
    (\<exists>pre lid. removed_original cid before lid pre
       \<and> new = pre @ recreate_trace lid before (image_of before) newID
       \<and> came_up (logged e) (is_running before) newID state)"

text \<open>The calls of an operation that panicked: none, or a replacement was created, and perhaps
  started, by the operation or by its revert.\<close>
definition panic_trace :: "string \<Rightarrow> inspect \<Rightarrow> docker_call list \<Rightarrow> bool" where
  "panic_trace cid before new \<longleftrightarrow> new = []
    \<or> (\<exists>pre lid img i. (pre = [] \<and> lid = cid \<or> removed_original cid before lid pre \<and> img = image_of before)
         \<and> (new = pre @ replace_trace lid before img i \<or> is_running before \<and> new = pre @ recreate_trace lid before img i))"

text \<open>How an operation that fails leaves the container: the host side is the list of calls
  \<^term>\<open>new\<close>, the store side the tables of \<^term>\<open>w'\<close>.\<close>
definition failure_outcome :: "'d engine \<Rightarrow> string \<Rightarrow> string \<Rightarrow> 'd logging world \<Rightarrow> op_error \<Rightarrow>
    docker_call list \<Rightarrow> 'd logging world \<Rightarrow> bool" where
  "failure_outcome e kind cid w err new w' =
    (let unchanged = (wd_containers w' = wd_containers w \<and> wd_watches w' = wd_watches w);
         kept_original = ((\<forall>i. CallRemove i True \<notin> set new) \<and> (\<forall>img n i. CallCreate img n i \<notin> set new));
         alarm = (\<exists>ev \<in> set (wd_events w'). ev_type ev = kind @ ''.revert_failed'' \<and> ev_level ev = LevelError)
     in case err of
          FailedBeforeRemoval _ \<Rightarrow> unchanged \<and> kept_original
            \<and> (CallStop cid True \<in> set new \<longrightarrow> CallStart cid True \<in> set new)
        | RestartFailed _ \<Rightarrow> unchanged \<and> kept_original \<and> alarm
        | Reverted _ \<Rightarrow> wd_watches w' = wd_watches w
            \<and> (\<exists>before d d' rec. en_inspect e cid d = (Inr before, d')
              \<and> container_of (c_id rec) (wd_containers w') = Some rec \<and> c_name rec = trimSlash (in_name before)
              \<and> put_back e cid before (c_id rec) (c_state rec) new)
        | RevertFailed _ _ \<Rightarrow> unchanged \<and> alarm \<and> (\<exists>n s. (kind @ ''.revert_failed'', n, s) \<in> set (wd_notices w'))
        | RecordReverted _ \<Rightarrow> unchanged
            \<and> (\<exists>before d d' i st. en_inspect e cid d = (Inr before, d') \<and> put_back e cid before i st new)
        | Panicked \<Rightarrow> unchanged \<and> (\<exists>before d d'. en_inspect e cid d = (Inr before, d') \<and> panic_trace cid before new)
        | _ \<Rightarrow> unchanged \<and> new = [])"

text \<open>An update in addition tells what success means.\<close>
definition update_outcome :: "'d engine \<Rightarrow> string \<Rightarrow> string \<Rightarrow> 'd logging world \<Rightarrow> op_error option \<Rightarrow>
    docker_call list \<Rightarrow> 'd logging world \<Rightarrow> bool" where
  "update_outcome e cid target w r new w' =
    (case r of
       None \<Rightarrow> \<exists>before d d' rec. en_inspect e cid d = (Inr before, d')
         \<and> new = recreate_trace cid before target (c_id rec)
         \<and> came_up (logged e) (is_running before) (c_id rec) (c_state rec)
         \<and> container_of (c_id rec) (wd_containers w') = Some rec \<and> c_name rec = trimSlash (in_name before)
         \<and> c_previous_image rec = in_image before \<and> \<not> c_update_available rec
         \<and> (c_state rec = ''running'' \<longrightarrow> (\<exists>wt. watch_of (c_name rec) (wd_watches w') = Some wt
              \<and> w_status wt = ''active'' \<and> w_container_id wt = c_id rec \<and> w_crash_count wt = 0))
     | Some err \<Rightarrow> failure_outcome e ''update'' cid w err new w')"

lemma inspect_logged:
  "en_inspect (logged e) cid s = (r, s') \<Longrightarrow> en_inspect e cid (snd s) = (r, snd s') \<and> fst s' = fst s"
  by (auto simp: logged_def silent_def)

lemma keys_same_store: "same_store w v \<Longrightarrow> wd_containers v = wd_containers w \<and> wd_watches v = wd_watches w"
  by (simp add: same_store_def)

lemma kept_original_calls:
  assumes "recreation_calls oldID before img res False new" "\<not> originalRemoved res" "oldID \<noteq> ''''"
  shows "CallRemove i True \<notin> set new" "CallCreate im n j \<notin> set new"
    "originalStopped res \<longleftrightarrow> CallStop oldID True \<in> set new"
  using assms unfolding recreation_calls_def by blast+

lemma removed_original_calls:
  assumes "recreation_calls cid before img result ok pre" "originalRemoved result \<or> ok" "cid \<noteq> ''''"
  shows "removed_original cid before (rr_ID result) pre"
  using assms unfolding recreation_calls_def removed_original_def by blast

lemma revert_failure_outcome:
  assumes "revert (logged e) cl dv kind cid lid before (trimSlash (in_name before)) act aid why v = (oe, w')"
    and "keys_distinct c_id (wd_containers v)" "en_inspect e cid d = (Inr before, d')"
    and "removed_original cid before lid pre" "wd_containers v = wd_containers w" "wd_watches v = wd_watches w"
  shows "\<exists>new. added (wd_env v) new (wd_env w') \<and> failure_outcome e kind cid w oe (pre @ new) w'"
proof -
  let ?name = "trimSlash (in_name before)"
  from revert_outcome[OF assms(1,2)] obtain new result err where new: "added (wd_env v) new (wd_env w')"
    and fin: "recreation_end (logged e) lid before (image_of before) result err new"
    and watches: "wd_watches w' = wd_watches w"
    and or: "(err = None \<and> oe = Reverted why \<and> restored_row ?name before result w')
       \<or> (err = None \<and> (\<exists>x. oe = RecordReverted x) \<and> wd_containers w' = wd_containers w)
       \<or> (err = Some NilPointer \<and> oe = Panicked \<and> wd_containers w' = wd_containers w)
       \<or> ((\<exists>x. oe = RevertFailed why x) \<and> wd_containers w' = wd_containers w
          \<and> event_of LevelError (kind @ ''.revert_failed'') ?name act aid [] \<in> set (wd_events w')
          \<and> (kind @ ''.revert_failed'', ?name, stackOf (labels_of before)) \<in> set (wd_notices w'))"
    unfolding assms(5,6) by blast
  have restored: "put_back e cid before (rr_ID result) (rr_State result) (pre @ new)" if "err = None"
    using fin that assms(4) unfolding put_back_def recreation_end_def by blast
  have "failure_outcome e kind cid w oe (pre @ new) w'"
    using or
  proof (elim disjE conjE exE)
    assume "err = None" "oe = Reverted why" "restored_row ?name before result w'"
    then obtain rec where "container_of (c_id rec) (wd_containers w') = Some rec" "c_id rec = rr_ID result"
      "c_name rec = ?name" "c_state rec = rr_State result" by (auto simp: restored_row_def)
    then show ?thesis using restored[OF \<open>err = None\<close>] assms(3) watches
      unfolding failure_outcome_def Let_def \<open>oe = Reverted why\<close> op_error.case
      by (intro conjI exI[of _ before] exI[of _ d] exI[of _ d'] exI[of _ rec]) simp_all
  next
    fix x assume "err = None" "oe = RecordReverted x" "wd_containers w' = wd_containers w"
    then show ?thesis using restored[OF \<open>err = None\<close>] assms(3) watches
      unfolding failure_outcome_def Let_def \<open>oe = RecordReverted x\<close> op_error.case by blast
  next
    assume "err = Some NilPointer" "oe = Panicked" "wd_containers w' = wd_containers w"
    moreover from this have "panic_trace cid before (pre @ new)"
      using fin assms(4) unfolding panic_trace_def recreation_end_def by blast
    ultimately show ?thesis using assms(3) watches
      unfolding failure_outcome_def Let_def \<open>oe = Panicked\<close> op_error.case by blast
  next
    fix x assume "oe = RevertFailed why x" "wd_containers w' = wd_containers w"
      "event_of LevelError (kind @ ''.revert_failed'') ?name act aid [] \<in> set (wd_events w')"
      "(kind @ ''.revert_failed'', ?name, stackOf (labels_of before)) \<in> set (wd_notices w')"
    then show ?thesis using watches by (force simp: failure_outcome_def event_of_def)
  qed
  then show ?thesis using new by blast
qed

lemma panic_outcome:
  assumes "recreation_end (logged e) cid before img result (Some NilPointer) new" "en_inspect e cid d = (Inr before, d')"
    and "wd_containers w' = wd_containers w" "wd_watches w' = wd_watches w"
  shows "failure_outcome e kind cid w Panicked new w'"
proof -
  have "panic_trace cid before new" using assms(1) unfolding panic_trace_def recreation_end_def by fastforce
  then show ?thesis using assms(2-4) unfolding failure_outcome_def Let_def op_error.case by blast
qed

lemma early_failure_outcome:
  assumes "failBeforeRemoval (logged e) kind cid result name act aid why v = (oe, w')"
    and "recreation_calls cid before img result False pre" "\<not> originalRemoved result" "cid \<noteq> ''''"
    and "wd_containers v = wd_containers w" "wd_watches v = wd_watches w"
  shows "\<exists>new. added (wd_env v) new (wd_env w') \<and> failure_outcome e kind cid w oe (pre @ new) w'"
proof -
  note keep = kept_original_calls[OF assms(2-4)]
  from failBeforeRemoval_outcome[OF assms(1)] obtain b where
    b: "added (wd_env v) (if originalStopped result then [CallStart cid b] else []) (wd_env w')"
    and same: "wd_containers w' = wd_containers v" "wd_watches w' = wd_watches v"
    and or: "(oe = FailedBeforeRemoval why \<and> b)
       \<or> (\<exists>err. oe = RestartFailed err \<and> originalStopped result
            \<and> event_of LevelError (kind @ ''.revert_failed'') name act aid [] \<in> set (wd_events w'))"
    by blast
  let ?new = "if originalStopped result then [CallStart cid b] else []"
  have "failure_outcome e kind cid w oe (pre @ ?new) w'"
    using or
  proof (elim disjE conjE exE)
    assume "oe = FailedBeforeRemoval why" "b"
    then show ?thesis using same assms(5,6) keep by (auto simp: failure_outcome_def)
  next
    fix x assume "oe = RestartFailed x" "originalStopped result"
      "event_of LevelError (kind @ ''.revert_failed'') name act aid [] \<in> set (wd_events w')"
    then show ?thesis using same assms(5,6) keep by (force simp: failure_outcome_def event_of_def)
  qed
  then show ?thesis using b by blast
qed

lemma guarded_operation_cases [consumes 1, case_names refused ran]:
  assumes "guarded_operation e name kind act aid body w = (r, w')"
  obtains err evs g where "r = Some (Refused err)" "w' = w\<lparr>wd_guard := g, wd_events := wd_events w @ evs\<rparr>"
      "beginOperation name kind act aid (now e w) (wd_guard w) = (Inl err, g, evs)"
  | g g' v where "body (w\<lparr>wd_guard := g\<rparr>) = (r, v)" "w' = v\<lparr>wd_guard := g'\<rparr>"
proof -
  obtain x g evs where b: "beginOperation name kind act aid (now e w) (wd_guard w) = (x, g, evs)" by (rule prod_cases3)
  show thesis
  proof (cases x)
    case (Inl err)
    then have "r = Some (Refused err)" "w' = w\<lparr>wd_guard := g, wd_events := wd_events w @ evs\<rparr>"
      using assms b by (simp_all add: guarded_operation_def)
    then show thesis using b Inl by (intro that(1)) simp_all
  next
    case (Inr nk)
    obtain r' v where v: "body (w\<lparr>wd_guard := g\<rparr>) = (r', v)" by (rule prod.exhaust)
    then have "r = r'" "w' = v\<lparr>wd_guard := end_op (fst nk) (snd nk) (wd_guard v)\<rparr>"
      using assms b Inr by (auto simp: guarded_operation_def split: prod.splits)
    then show thesis using that(2) v by blast
  qed
qed

lemma failure_outcome_cong:
  assumes "wd_containers v = wd_containers w" "wd_watches v = wd_watches w"
    and "wd_containers v' = wd_containers w'" "wd_watches v' = wd_watches w'"
    and "wd_events v' = wd_events w'" "wd_notices v' = wd_notices w'"
  shows "failure_outcome e kind cid v err new v' = failure_outcome e kind cid w err new w'"
  unfolding failure_outcome_def Let_def assms ..

lemma update_outcome_cong:
  assumes "wd_containers v = wd_containers w" "wd_watches v = wd_watches w"
    and "wd_containers v' = wd_containers w'" "wd_watches v' = wd_watches w'"
    and "wd_events v' = wd_events w'" "wd_notices v' = wd_notices w'"
  shows "update_outcome e cid target v r new v' = update_outcome e cid target w r new w'"
  unfolding update_outcome_def failure_outcome_cong[OF assms] assms ..

lemma update_body_outcome:
  assumes "update_body (logged e) cl dv cid target act aid w = (r, w')"
    and "keys_distinct c_id (wd_containers w)" "cid \<noteq> ''''"
  shows "\<exists>new. added (wd_env w) new (wd_env w') \<and> update_outcome e cid target w r new w'"
  using assms(1)
proof (cases rule: update_body_cases)
  case (inspect err d)
  then show ?thesis using logged_silent(1)[OF inspect(1)] by (intro exI[of _ "[]"]) (auto simp: update_outcome_def failure_outcome_def)
next
  case (config before d)
  have "failure_outcome e ''update'' cid w Panicked [] w'"
    using inspect_logged[OF config(1)] config(4)
    unfolding failure_outcome_def Let_def op_error.case panic_trace_def by auto
  then show ?thesis using logged_silent(1)[OF config(1)] config(3,4)
    by (intro exI[of _ "[]"]) (simp add: update_outcome_def)
next
  case (panicked before d ok d1 result)
  from recreate_calls[OF panicked(3)] obtain new where new: "added d1 new (wd_env w')"
    "recreation_end (logged e) cid before target result (Some NilPointer) new" by auto
  have a: "added (wd_env w) new (wd_env w')"
    using logged_silent(1)[OF panicked(1)] logged_silent(5)[OF panicked(2)] new(1) by (auto simp: added_def)
  have "failure_outcome e ''update'' cid w Panicked new w'"
    using panic_outcome[OF new(2) inspect_logged[OF panicked(1), THEN conjunct1]] keys_same_store[OF panicked(4)] by simp
  then show ?thesis using a panicked(5) unfolding update_outcome_def by auto
next
  case (stopped before d ok d1 result err w1 oe)
  from recreate_calls[OF stopped(3)] obtain new where new: "added d1 new (wd_env w1)"
    "recreation_calls cid before target result False new" by auto
  have a: "added (wd_env w) new (wd_env w1)"
    using logged_silent(1)[OF stopped(1)] logged_silent(5)[OF stopped(2)] new(1) by (auto simp: added_def)
  have "wd_containers w1 = wd_containers w" "wd_watches w1 = wd_watches w"
    using keys_same_store[OF stopped(4)] by simp_all
  from early_failure_outcome[OF stopped(6) new(2) stopped(5) assms(3) this]
  show ?thesis using added_trans[OF a] stopped(7) unfolding update_outcome_def by fastforce
next
  case (reverted before d ok d1 result err w1 oe)
  from recreate_calls[OF reverted(3)] obtain new where new: "added d1 new (wd_env w1)"
    "recreation_calls cid before target result False new" by auto
  have a: "added (wd_env w) new (wd_env w1)"
    using logged_silent(1)[OF reverted(1)] logged_silent(5)[OF reverted(2)] new(1) by (auto simp: added_def)
  have k: "keys_distinct c_id (wd_containers w1)" "wd_containers w1 = wd_containers w" "wd_watches w1 = wd_watches w"
    using assms(2) keys_same_store[OF reverted(4)] by simp_all
  have "removed_original cid before (rr_ID result) new" using removed_original_calls[OF new(2)] reverted(5) assms(3) by simp
  from revert_failure_outcome[OF reverted(6) k(1) inspect_logged[OF reverted(1), THEN conjunct1] this k(2,3)]
  show ?thesis using added_trans[OF a] reverted(7) unfolding update_outcome_def by fastforce
next
  case (uncommitted before d ok d1 result defined err w1 w2 w3 oe)
  from recreate_calls[OF uncommitted(3)] obtain new where new: "added d1 new (wd_env w1)"
    "recreation_calls cid before target result True new" by auto
  have a: "added (wd_env w) new (wd_env w3)"
    using logged_silent(1)[OF uncommitted(1)] logged_silent(5)[OF uncommitted(2)] new(1)
      commit_update_logged[OF uncommitted(5)] uncommitted(6) by (auto simp: added_def)
  have k: "keys_distinct c_id (wd_containers w3)" "wd_containers w3 = wd_containers w" "wd_watches w3 = wd_watches w"
    using assms(2) keys_same_store[OF uncommitted(4)] keys_same_store[OF uncommitted(7)]
      commit_update_failed[OF uncommitted(5)] by simp_all
  have "removed_original cid before (rr_ID result) new" using removed_original_calls[OF new(2)] assms(3) by simp
  from revert_failure_outcome[OF uncommitted(8) k(1) inspect_logged[OF uncommitted(1), THEN conjunct1] this k(2,3)]
  show ?thesis using added_trans[OF a] uncommitted(9) unfolding update_outcome_def by fastforce
next
  case (committed before d ok d1 result defined crash w1 w2)
  let ?rec = "updated_record before result defined"
  from recreate_calls[OF committed(3)] obtain new where new: "added d1 new (wd_env w1)"
    "recreation_end (logged e) cid before target result None new" by auto
  have a: "added (wd_env w) new (wd_env w')"
    using logged_silent(1)[OF committed(1)] logged_silent(5)[OF committed(2)] new(1)
      commit_update_logged[OF committed(5)] finish_update_outcome(1)[of w2 e ?rec crash "image_of before" target act aid]
      committed(6) by (auto simp: added_def)
  have "keys_distinct c_id (wd_containers w1)" using assms(2) keys_same_store[OF committed(4)] by simp
  define old where "old = container_of (c_id ?rec) (wd_containers w1)"
  note c = commit_update_done[OF committed(5) \<open>keys_distinct c_id (wd_containers w1)\<close>, folded old_def]
  let ?row = "replaced_row ?rec old"
  have row: "c_id ?row = c_id ?rec" "c_name ?row = c_name ?rec" "c_state ?row = c_state ?rec" "\<not> c_update_available ?row"
    "c_previous_image ?row = in_image before"
    by (simp_all add: replaced_row_def updated_record_def container_record_def)
  have rec: "c_id ?rec = rr_ID result" "c_name ?rec = trimSlash (in_name before)" "c_state ?rec = rr_State result"
    by (simp_all add: updated_record_def container_record_def)
  have calls: "new = recreate_trace cid before target (c_id ?row)"
    "came_up (logged e) (is_running before) (c_id ?row) (c_state ?row)"
    using new(2) unfolding row rec by (simp_all add: recreation_end_def)
  have tab: "container_of (c_id ?row) (wd_containers w') = Some ?row"
    using c committed(6) by (simp add: finish_update_outcome(2) row)
  have watch: "c_state ?row = ''running'' \<longrightarrow> (\<exists>wt. watch_of (c_name ?row) (wd_watches w') = Some wt
         \<and> w_status wt = ''active'' \<and> w_container_id wt = c_id ?row \<and> w_crash_count wt = 0)"
    using c unfolding row committed(6) by (metis finish_update_outcome(3))
  have name: "c_name ?row = trimSlash (in_name before)" unfolding row rec ..
  from inspect_logged[OF committed(1)] obtain d0 d0' where "en_inspect e cid d0 = (Inr before, d0')" by blast
  then have "update_outcome e cid target w r new w'"
    unfolding update_outcome_def committed(7) option.case
    using tab watch calls name row(4,5) by blast
  then show ?thesis using a by blast
qed

lemma Update_outcome:
  assumes "Update (logged e) cl dv cid target act aid w = (r, w')"
    and "keys_distinct c_id (wd_containers w)" "cid \<noteq> ''''"
  shows "\<exists>new. added (wd_env w) new (wd_env w') \<and> update_outcome e cid target w r new w'"
proof -
  obtain got w1 where g: "db_GetContainer (logged e) cid w = (got, w1)" by (rule prod.exhaust)
  have a1: "added (wd_env w) [] (wd_env w1)" by (rule db_GetContainer_logged[OF g])
  have s1: "wd_containers w1 = wd_containers w" "wd_watches w1 = wd_watches w"
    using g by (auto elim!: db_GetContainer_cases)
  define name where "name = (case got of Inr rec \<Rightarrow> c_name rec | Inl _ \<Rightarrow> cid)"
  have u: "guarded_operation (logged e) name ''update'' act aid (update_body (logged e) cl dv cid target act aid) w1 = (r, w')"
    using assms(1) g by (simp add: Update_def name_def)
  from u show ?thesis
  proof (cases rule: guarded_operation_cases)
    case (refused err evs g)
    then show ?thesis using a1 s1 by (intro exI[of _ "[]"]) (simp add: update_outcome_def failure_outcome_def)
  next
    case (ran g g' v)
    from update_body_outcome[OF ran(1)] assms(2,3) s1 obtain new where
      new: "added (wd_env w1) new (wd_env v)" "update_outcome e cid target (w1\<lparr>wd_guard := g\<rparr>) r new v" by auto
    have "update_outcome e cid target w r new w'"
      using new(2) update_outcome_cong[of "w1\<lparr>wd_guard := g\<rparr>" w v w' e cid target r new] ran(2) s1 by simp
    then show ?thesis using a1 ran(2) new(1) by (intro exI[of _ new]) (simp add: added_def)
  qed
qed

text \<open>C1: However the engine and the disk behave, an update ends in one of these ways.
  Done: exactly these changes were asked of the engine: the target image was pulled (unless it is an
  image identifier), the old container was stopped if it ran and removed, and the new one was
  created under its name from the target image; when the old one ran, the new one was started and
  seen healthy, otherwise it is left created. Its row is stored and remembers the image that ran before, and when it is recorded as running an
  active watch guards it.
  Refused, or the container could not be read: nothing was touched. Failed early: the original
  container was not removed and none was created, and if the original had been stopped, it was
  started again, or an error event says it could not be.
  Failed late: what the attempt had created under the container's name was removed and the container
  was created again, in the same way, on the image reference of its own configuration, and stored.
  That reference is pulled again, so a tag that was moved meanwhile can bring the new image back:
  the return is to the configured reference, not to the image that ran. When the tables could not
  be written, that container exists but the tables are unchanged. When the return itself fails, the tables
  are unchanged and an error event and a notification say so.
  A panic (an inspection of the replacement without the parts the code reads) leaves the tables unchanged
  and the replacement where it is, without a return.\<close>

theorem update_never_strands:
  assumes "Update (logged e) cl dv cid target act aid w = (r, w')"
    and "keys_distinct c_id (wd_containers w)" "cid \<noteq> ''''"
  shows "\<exists>new. added (wd_env w) new (wd_env w') \<and> update_outcome e cid target w r new w'"
  by (rule Update_outcome[OF assms])

section \<open>What a rollback does\<close>

lemma settle_outcome:
  assumes "settle (logged e) cid deadline n before w = (r, w')" "en_inspect e cid d = (Inr before, d')"
  shows "added (wd_env w) [] (wd_env w') \<and> same_store w w'
    \<and> (case r of Inr b \<Rightarrow> \<exists>d d'. en_inspect e cid d = (Inr b, d')
       | Inl err \<Rightarrow> err = WaitNotReturned \<or> err = ContextEnded \<or> (\<exists>x. err = InspectCrashLoop x))"
  using assms
proof (induction n arbitrary: before w d d')
  case (Suc n)
  let ?stop = "in_state before = None \<or> statusOf before \<in> set safe_states \<or> \<not> now (logged e) w < deadline"
  obtain ok d1 where t: "en_wait (logged e) 100000000 (wd_env w) = (ok, d1)" by (rule prod.exhaust)
  obtain i w1 where i: "run_inspect (logged e) cid (w\<lparr>wd_env := d1\<rparr>) = (i, w1)" by (rule prod.exhaust)
  then obtain d2 where d2: "en_inspect (logged e) cid d1 = (i, d2)" "w1 = w\<lparr>wd_env := d2\<rparr>"
    by (auto elim!: run_inspect_cases)
  have a1: "added (wd_env w) [] d1" "added (wd_env w) [] d2" "same_store w w1" "wd_env w1 = d2"
    using logged_silent(3)[OF t] logged_silent(1)[OF d2(1)] d2(2) by (auto simp: added_def same_store_def)
  show ?case
  proof (cases ?stop)
    case True
    then have "r = Inr before" "w' = w" using Suc.prems(1) by auto
    moreover have "\<exists>d d'. en_inspect e cid d = (Inr before, d')" using Suc.prems(2) by blast
    ultimately show ?thesis by simp
  next
    case False
    then have eq: "(r, w') = (if ok
        then case i of Inl err \<Rightarrow> (Inl (InspectCrashLoop err), w1)
        | Inr before' \<Rightarrow> settle (logged e) cid deadline n before' w1 else (Inl ContextEnded, w\<lparr>wd_env := d1\<rparr>))"
      using Suc.prems(1) t i by (auto split: bool.splits sum.splits)
    show ?thesis
    proof (cases "ok \<and> (\<exists>b. i = Inr b)")
      case True
      then obtain b where b: "i = Inr b" by blast
      then have "settle (logged e) cid deadline n b w1 = (r, w')" using eq True by simp
      from Suc.IH[OF this] inspect_logged[OF d2(1)] b have "added (wd_env w1) [] (wd_env w') \<and> same_store w1 w'
        \<and> (case r of Inr b \<Rightarrow> \<exists>d d'. en_inspect e cid d = (Inr b, d')
          | Inl err \<Rightarrow> err = WaitNotReturned \<or> err = ContextEnded \<or> (\<exists>x. err = InspectCrashLoop x))" by auto
      then show ?thesis using a1 by (auto simp: added_def same_store_def)
    next
      case False
      then show ?thesis using eq a1 by (auto simp: same_store_def split: sum.splits if_splits)
    qed
  qed
qed auto

text \<open>The wait for a container to settle ends when the clock moves with the waits.\<close>
lemma settle_returns:
  assumes "\<forall>d t. en_now e d + t \<le> en_now e (snd (en_wait e t d))" "\<forall>d c. en_now e d \<le> en_now e (snd (en_inspect e c d))"
    and "deadline - now e w \<le> int n * 100000000"
  shows "fst (settle e cid deadline (Suc n) before w) \<noteq> Inl WaitNotReturned"
  using assms(3)
proof (induction n arbitrary: before w)
  case 0
  then show ?case by auto
next
  case (Suc n)
  obtain ok d1 where t: "en_wait e 100000000 (wd_env w) = (ok, d1)" by (rule prod.exhaust)
  obtain i d2 where i: "en_inspect e cid d1 = (i, d2)" by (rule prod.exhaust)
  have "now e w + 100000000 \<le> en_now e d1" using assms(1) t by (metis now_def snd_conv)
  moreover have "en_now e d1 \<le> en_now e d2" using assms(2) i by (metis snd_conv)
  ultimately have "deadline - now e (w\<lparr>wd_env := d2\<rparr>) \<le> int n * 100000000"
    using Suc.prems by (simp add: now_def)
  from Suc.IH[OF this] have ih: "fst (settle e cid deadline (Suc n) b (w\<lparr>wd_env := d2\<rparr>)) \<noteq> Inl WaitNotReturned" for b .
  have ri: "run_inspect e cid (w\<lparr>wd_env := d1\<rparr>) = (i, w\<lparr>wd_env := d2\<rparr>)" using i by (simp add: run_inspect_def)
  have "settle e cid deadline (Suc (Suc n)) before w =
      (if in_state before = None \<or> statusOf before \<in> set safe_states \<or> \<not> now e w < deadline then (Inr before, w)
       else case ok of False \<Rightarrow> (Inl ContextEnded, w\<lparr>wd_env := d1\<rparr>)
        | True \<Rightarrow> (case i of Inl err \<Rightarrow> (Inl (InspectCrashLoop err), w\<lparr>wd_env := d2\<rparr>)
            | Inr b \<Rightarrow> settle e cid deadline (Suc n) b (w\<lparr>wd_env := d2\<rparr>)))"
    using t ri by (simp split: bool.splits sum.splits)
  then show ?case using ih by (simp split: bool.splits sum.splits del: settle.simps)
qed

text \<open>The record a rollback commits.\<close>
definition rolled_back :: "ContainerRecord \<Rightarrow> inspect \<Rightarrow> recreationResult \<Rightarrow> ContainerRecord" where
  "rolled_back rec before result =
    container_record (rr_ID result) (trimSlash (in_name before)) (stackOf (labels_of before))
      (rr_State result) (rr_Status result) (c_current_image rec) (in_image before)"

lemma recreate_config:
  "recreate e cl oldID before img d = ((result, None), d') \<Longrightarrow> in_config before \<noteq> None"
  by (auto simp: recreate_def buildRecreationPlan_def split: option.splits if_splits)

lemma rollback_from_cases [consumes 1, case_names panicked stopped reverted uncommitted committed]:
  assumes "rollback_from e cl dv cid rec before act aid w = (r, w')"
  obtains result where
      "recreate e cl cid before (c_previous_image rec) (wd_env w) = ((result, Some NilPointer), wd_env w')" "same_store w w'"
      "r = Some Panicked"
  | result err w1 oe where
      "recreate e cl cid before (c_previous_image rec) (wd_env w) = ((result, Some err), wd_env w1)" "same_store w w1"
      "\<not> originalRemoved result"
      "failBeforeRemoval e (rollback_type act) cid result (trimSlash (in_name before)) act aid (Recreate err) w1 = (oe, w')" "r = Some oe"
  | result err w1 oe where
      "recreate e cl cid before (c_previous_image rec) (wd_env w) = ((result, Some err), wd_env w1)" "same_store w w1"
      "originalRemoved result"
      "revert e cl dv (rollback_type act) cid (rr_ID result) before (trimSlash (in_name before)) act aid (Recreate err) w1 = (oe, w')" "r = Some oe"
  | result err w1 w2 w3 oe where
      "recreate e cl cid before (c_previous_image rec) (wd_env w) = ((result, None), wd_env w1)" "same_store w w1"
      "commit_rollback e cid (rolled_back rec before result) act w1 = (Inl err, w2)" "wd_env w3 = wd_env w2" "same_store w2 w3"
      "revert e cl dv (rollback_type act) cid (rr_ID result) before (trimSlash (in_name before)) act aid (Commit err) w3 = (oe, w')" "r = Some oe"
  | result w1 w2 where
      "recreate e cl cid before (c_previous_image rec) (wd_env w) = ((result, None), wd_env w1)" "same_store w w1"
      "commit_rollback e cid (rolled_back rec before result) act w1 = (Inr (), w2)"
      "w' = notify (rollback_type act @ ''.succeeded'') (trimSlash (in_name before)) (stackOf (labels_of before))
        (emit (versioned LevelInfo (rollback_type act @ ''.succeeded'') (trimSlash (in_name before))
           (c_current_image rec) (c_previous_image rec) act aid)
          (mark_available e (rr_ID result) (trimSlash (in_name before)) act aid w2))" "r = None"
proof -
  define name where "name = trimSlash (in_name before)"
  define ev where "ev = (\<lambda>lvl typ. versioned lvl typ name (c_current_image rec) (c_previous_image rec) act aid)"
  define w0 where "w0 = emit (ev (if act = ActorSystem then LevelWarn else LevelInfo) (rollback_type act)) w"
  have s0: "same_store w w0" "wd_env w0 = wd_env w" by (simp_all add: w0_def same_store_def frame_simps)
  obtain result err wr where r: "run_recreate e cl cid before (c_previous_image rec) w0 = ((result, err), wr)" by (metis surj_pair)
  then have r': "recreate e cl cid before (c_previous_image rec) (wd_env w) = ((result, err), wd_env wr)" "same_store w wr"
    using s0 by (auto elim!: run_recreate_cases simp: same_store_def)
  have body: "rollback_from e cl dv cid rec before act aid w =
    (case err of
       Some err \<Rightarrow>
         if err = NilPointer then (Some Panicked, wr)
         else (let w3 = emit (ev LevelError (rollback_type act @ ''.failed'')) wr
          in case (if \<not> originalRemoved result
                   then failBeforeRemoval e (rollback_type act) cid result name act aid (Recreate err) w3
                   else revert e cl dv (rollback_type act) cid (rr_ID result) before name act aid (Recreate err) w3) of
               (oe, w4) \<Rightarrow> (Some oe, w4))
     | None \<Rightarrow>
         (if in_config before = None then (Some Panicked, wr)
          else case commit_rollback e cid (rolled_back rec before result) act wr of
            (Inl err, w3) \<Rightarrow>
              (case revert e cl dv (rollback_type act) cid (rr_ID result) before name act aid (Commit err)
                      (emit (ev LevelError (rollback_type act @ ''.commit_failed'')) w3) of
                 (oe, w4) \<Rightarrow> (Some oe, w4))
          | (Inr _, w3) \<Rightarrow>
              (None, notify (rollback_type act @ ''.succeeded'') name (stackOf (labels_of before))
                (emit (ev LevelInfo (rollback_type act @ ''.succeeded''))
                  (mark_available e (rr_ID result) name act aid w3)))))"
    unfolding rollback_from_def Let_def name_def ev_def rolled_back_def
    using r[unfolded w0_def ev_def name_def] by (simp split: option.splits)
  show thesis
  proof (cases err)
    case (Some x)
    define w3 where "w3 = emit (ev LevelError (rollback_type act @ ''.failed'')) wr"
    have w3: "same_store w w3" "wd_env w3 = wd_env wr" using r'(2) by (simp_all add: w3_def same_store_def frame_simps)
    consider (panic) "x = NilPointer" | (late) "x \<noteq> NilPointer" "originalRemoved result"
      | (early) "x \<noteq> NilPointer" "\<not> originalRemoved result" by blast
    then show thesis
    proof cases
      case panic
      then have "r = Some Panicked" "w' = wr" using assms body Some by simp_all
      then show thesis using that(1)[of result] r' Some panic by simp
    next
      case late
      obtain oe w4 where "revert e cl dv (rollback_type act) cid (rr_ID result) before name act aid (Recreate x) w3 = (oe, w4)"
        by (rule prod.exhaust)
      moreover from this have "r = Some oe" "w' = w4" using assms body Some late by (simp_all add: Let_def w3_def)
      ultimately show thesis using that(3)[OF _ w3(1) late(2), of x oe] r'(1) Some w3(2) by (simp add: name_def)
    next
      case early
      obtain oe w4 where "failBeforeRemoval e (rollback_type act) cid result name act aid (Recreate x) w3 = (oe, w4)"
        by (rule prod.exhaust)
      moreover from this have "r = Some oe" "w' = w4" using assms body Some early by (simp_all add: Let_def w3_def)
      ultimately show thesis using that(2)[OF _ w3(1) early(2), of x oe] r'(1) Some w3(2) by (simp add: name_def)
    qed
  next
    case None
    obtain cfg where cfg: "in_config before = Some cfg" using recreate_config[OF r'(1)[unfolded None]] by auto
    obtain c w2 where c: "commit_rollback e cid (rolled_back rec before result) act wr = (c, w2)" by (rule prod.exhaust)
    show thesis
    proof (cases c)
      case (Inl x)
      define w3 where "w3 = emit (ev LevelError (rollback_type act @ ''.commit_failed'')) w2"
      have w3: "wd_env w3 = wd_env w2" "same_store w2 w3" by (simp_all add: w3_def same_store_def frame_simps)
      obtain oe w4 where "revert e cl dv (rollback_type act) cid (rr_ID result) before name act aid (Commit x) w3 = (oe, w4)"
        by (rule prod.exhaust)
      moreover from this have "r = Some oe" "w' = w4" using assms body None c Inl cfg by (simp_all add: w3_def)
      ultimately show thesis
        using that(4)[OF r'(1)[unfolded None] r'(2) c[unfolded Inl] w3, of oe] by (simp add: name_def)
    next
      case (Inr u)
      then show thesis
        using that(5)[OF r'(1)[unfolded None] r'(2), of w2] assms body None c cfg by (simp add: name_def ev_def)
    qed
  qed
qed

lemma commit_rollback_outcome:
  assumes "commit_rollback (logged e) cid rec act w = (c, w')" "keys_distinct c_id (wd_containers w)"
  shows "added (wd_env w) [] (wd_env w')
    \<and> (\<forall>err. c = Inl err \<longrightarrow> wd_containers w' = wd_containers w \<and> wd_watches w' = wd_watches w)
    \<and> (c = Inr () \<longrightarrow> keys_distinct c_id (wd_containers w')
        \<and> container_of (c_id rec) (wd_containers w') = Some (replaced_row rec (container_of (c_id rec) (wd_containers w)))
        \<and> wd_watches w' = CompleteRollbackWatch (c_name rec)
            (if act = ActorSystem then ''automatic_rollback'' else ''manual_rollback'') (wd_watches w))"
  using assms(1) unfolding commit_rollback_def
proof (cases rule: sql_cases)
  case (1 d)
  then show ?thesis using logged_silent(5)[OF 1(1)] by simp
next
  case (2 d a)
  then show ?thesis using logged_silent(5)[OF 2(1)] assms(2)
    by (auto simp: ReplaceContainerAndCompleteRollback_def container_after_replace replace_distinct)
qed

lemma mark_available_outcome:
  assumes "keys_distinct c_id (wd_containers w)" "container_of cid (wd_containers w) = Some row"
  shows "added (wd_env w) [] (wd_env (mark_available (logged e) cid name act aid w))
    \<and> wd_watches (mark_available (logged e) cid name act aid w) = wd_watches w
    \<and> ((\<exists>t. container_of cid (wd_containers (mark_available (logged e) cid name act aid w)) =
            Some (row\<lparr>c_update_available := True, c_last_checked_at := Some t\<rparr>))
       \<or> (container_of cid (wd_containers (mark_available (logged e) cid name act aid w)) = Some row
          \<and> (\<exists>ev \<in> set (wd_events (mark_available (logged e) cid name act aid w)). ev_type ev = ''container.sync_failed'')))"
proof -
  let ?f = "\<lambda>v. ((), v\<lparr>wd_containers := SetUpdateAvailable cid True (now (logged e) w) (wd_containers v)\<rparr>)"
  obtain x w1 where x: "sql (logged e) ?f w = (x, w1)" by (rule prod.exhaust)
  have key: "c_id row = cid" by (rule get_row_key[OF assms(2)])
  have m: "mark_available (logged e) cid name act aid w = (case x of
      Inl _ \<Rightarrow> emit (event_of LevelWarn ''container.sync_failed'' name act aid []) w1 | Inr _ \<Rightarrow> w1)"
    unfolding mark_available_def Let_def x by (simp split: sum.splits)
  from x show ?thesis
  proof (cases rule: sql_cases)
    case (1 d)
    then show ?thesis using m logged_silent(5)[OF 1(1)] assms(2)
      by (auto simp: emit_def event_of_def)
  next
    case (2 d a)
    then show ?thesis using m logged_silent(5)[OF 2(1)] assms key
      by (auto simp: SetUpdateAvailable_def get_update_where)
  qed
qed

text \<open>What a successful rollback of \<^term>\<open>rec\<close> has done: the container was recreated on the
  recorded previous image. It runs, and was seen healthy, when the container ran before; otherwise
  it is left created.\<close>
definition rollback_done :: "'d engine \<Rightarrow> string \<Rightarrow> ContainerRecord \<Rightarrow> actor \<Rightarrow> 'd logging world \<Rightarrow>
    docker_call list \<Rightarrow> 'd logging world \<Rightarrow> bool" where
  "rollback_done e cid rec act w new w' \<longleftrightarrow>
    (\<exists>before d d' row. en_inspect e cid d = (Inr before, d') \<and> c_name row = trimSlash (in_name before)
       \<and> new = recreate_trace cid before (c_previous_image rec) (c_id row)
       \<and> came_up (logged e) (is_running before) (c_id row) (c_state row)
       \<and> container_of (c_id row) (wd_containers w') = Some row
       \<and> c_current_image row = c_current_image rec \<and> c_previous_image row = in_image before
       \<and> (c_update_available row \<or> (\<exists>ev \<in> set (wd_events w'). ev_type ev = ''container.sync_failed''))
       \<and> wd_watches w' = CompleteRollbackWatch (c_name row)
           (if act = ActorSystem then ''automatic_rollback'' else ''manual_rollback'') (wd_watches w))"

lemma rollback_from_outcome:
  assumes "rollback_from (logged e) cl dv cid rec before act aid w = (r, w')"
    and "keys_distinct c_id (wd_containers w)" "cid \<noteq> ''''" "en_inspect e cid d = (Inr before, d')"
  shows "\<exists>new. added (wd_env w) new (wd_env w')
    \<and> (case r of None \<Rightarrow> rollback_done e cid rec act w new w'
       | Some err \<Rightarrow> failure_outcome e (rollback_type act) cid w err new w')"
  using assms(1)
proof (cases rule: rollback_from_cases)
  case (panicked result)
  from recreate_calls[OF panicked(1)] obtain new where new: "added (wd_env w) new (wd_env w')"
    "recreation_end (logged e) cid before (c_previous_image rec) result (Some NilPointer) new" by auto
  have "failure_outcome e (rollback_type act) cid w Panicked new w'"
    using panic_outcome[OF new(2) assms(4)] keys_same_store[OF panicked(2)] by simp
  then show ?thesis using new(1) panicked(3) by auto
next
  case (stopped result err w1 oe)
  from recreate_calls[OF stopped(1)] obtain new where new: "added (wd_env w) new (wd_env w1)"
    "recreation_calls cid before (c_previous_image rec) result False new" by auto
  have "wd_containers w1 = wd_containers w" "wd_watches w1 = wd_watches w"
    using keys_same_store[OF stopped(2)] by simp_all
  from early_failure_outcome[OF stopped(4) new(2) stopped(3) assms(3) this]
  show ?thesis using added_trans[OF new(1)] stopped(5) by fastforce
next
  case (reverted result err w1 oe)
  from recreate_calls[OF reverted(1)] obtain new where new: "added (wd_env w) new (wd_env w1)"
    "recreation_calls cid before (c_previous_image rec) result False new" by auto
  have k: "keys_distinct c_id (wd_containers w1)" "wd_containers w1 = wd_containers w" "wd_watches w1 = wd_watches w"
    using assms(2) keys_same_store[OF reverted(2)] by simp_all
  have "removed_original cid before (rr_ID result) new" using removed_original_calls[OF new(2)] reverted(3) assms(3) by simp
  from revert_failure_outcome[OF reverted(4) k(1) assms(4) this k(2,3)]
  show ?thesis using added_trans[OF new(1)] reverted(5) by fastforce
next
  case (uncommitted result err w1 w2 w3 oe)
  from recreate_calls[OF uncommitted(1)] obtain new where new: "added (wd_env w) new (wd_env w1)"
    "recreation_calls cid before (c_previous_image rec) result True new" by auto
  have k1: "keys_distinct c_id (wd_containers w1)" using assms(2) keys_same_store[OF uncommitted(2)] by simp
  note c = commit_rollback_outcome[OF uncommitted(3) k1]
  have a: "added (wd_env w) new (wd_env w3)" using new c uncommitted(4) by (auto simp: added_def)
  have k: "keys_distinct c_id (wd_containers w3)" "wd_containers w3 = wd_containers w" "wd_watches w3 = wd_watches w"
    using k1 c keys_same_store[OF uncommitted(5)] keys_same_store[OF uncommitted(2)] by simp_all
  have "removed_original cid before (rr_ID result) new" using removed_original_calls[OF new(2)] assms(3) by simp
  from revert_failure_outcome[OF uncommitted(6) k(1) assms(4) this k(2,3)]
  show ?thesis using added_trans[OF a] uncommitted(7) by fastforce
next
  case (committed result w1 w2)
  let ?rec = "rolled_back rec before result"
  from recreate_calls[OF committed(1)] obtain new where new: "added (wd_env w) new (wd_env w1)"
    "recreation_end (logged e) cid before (c_previous_image rec) result None new" by auto
  have k1: "keys_distinct c_id (wd_containers w1)" using assms(2) keys_same_store[OF committed(2)] by simp
  note c = commit_rollback_outcome[OF committed(3) k1]
  let ?old = "replaced_row ?rec (container_of (c_id ?rec) (wd_containers w1))"
  have f: "c_id ?rec = rr_ID result" "c_name ?rec = trimSlash (in_name before)"
    by (simp_all add: rolled_back_def container_record_def)
  have k2: "keys_distinct c_id (wd_containers w2)" "container_of (rr_ID result) (wd_containers w2) = Some ?old"
    using c f by auto
  let ?m = "mark_available (logged e) (rr_ID result) (trimSlash (in_name before)) act aid w2"
  note m = mark_available_outcome[OF k2, of e "trimSlash (in_name before)" act aid]
  have w': "wd_env w' = wd_env ?m" "wd_containers w' = wd_containers ?m" "wd_watches w' = wd_watches ?m"
    "set (wd_events ?m) \<subseteq> set (wd_events w')"
    unfolding committed(4) by (auto simp: frame_simps emit_def)
  have old: "c_id ?old = rr_ID result" "c_name ?old = trimSlash (in_name before)" "c_state ?old = rr_State result"
    "c_current_image ?old = c_current_image rec" "c_previous_image ?old = in_image before"
    by (simp_all add: replaced_row_def rolled_back_def container_record_def)
  obtain row where row: "container_of (rr_ID result) (wd_containers w') = Some row"
    "c_id row = rr_ID result" "c_name row = trimSlash (in_name before)" "c_current_image row = c_current_image rec"
    "c_previous_image row = in_image before" "c_state row = rr_State result"
    "c_update_available row \<or> (\<exists>ev \<in> set (wd_events w'). ev_type ev = ''container.sync_failed'')"
  proof -
    consider t where "container_of (rr_ID result) (wd_containers ?m) =
        Some (?old\<lparr>c_update_available := True, c_last_checked_at := Some t\<rparr>)"
      | "container_of (rr_ID result) (wd_containers ?m) = Some ?old"
        "\<exists>ev \<in> set (wd_events ?m). ev_type ev = ''container.sync_failed''"
      using m by blast
    then show thesis
    proof cases
      case (1 t)
      show thesis
        by (rule that[of "?old\<lparr>c_update_available := True, c_last_checked_at := Some t\<rparr>"])
          (use 1 w' old in simp_all)
    next
      case 2
      show thesis by (rule that[of ?old]) (use 2 w' old in auto)
    qed
  qed
  have ws: "wd_watches w' = CompleteRollbackWatch (c_name row)
      (if act = ActorSystem then ''automatic_rollback'' else ''manual_rollback'') (wd_watches w)"
    using m w'(3) c f row(3) keys_same_store[OF committed(2)] by simp
  have calls: "new = recreate_trace cid before (c_previous_image rec) (c_id row)"
    "came_up (logged e) (is_running before) (c_id row) (c_state row)"
    using new(2) row(2,6) by (simp_all add: recreation_end_def)
  have tab: "container_of (c_id row) (wd_containers w') = Some row" using row(1,2) by simp
  have "rollback_done e cid rec act w new w'"
    unfolding rollback_done_def
    using assms(4) row(3-5,7) tab ws calls by blast
  moreover have "added (wd_env w) new (wd_env w')" using new(1) c m w'(1) by (auto simp: added_def)
  ultimately show ?thesis using committed(5) by (intro exI[of _ new]) simp
qed

lemma Rollback_outcome:
  assumes "Rollback (logged e) cl dv cid act aid w = (r, w')"
    and "keys_distinct c_id (wd_containers w)" "cid \<noteq> ''''"
  shows "\<exists>new. added (wd_env w) new (wd_env w')
    \<and> (case r of
         None \<Rightarrow> (\<exists>rec. GetContainer cid (wd_containers w) = Inr rec \<and> c_previous_image rec \<noteq> ''''
           \<and> rollback_done e cid rec act w new w')
       | Some err \<Rightarrow> failure_outcome e (rollback_type act) cid w err new w')"
proof -
  obtain got w1 where g: "db_GetContainer (logged e) cid w = (got, w1)" by (rule prod.exhaust)
  have a1: "added (wd_env w) [] (wd_env w1)" by (rule db_GetContainer_logged[OF g])
  have s1: "wd_containers w1 = wd_containers w" "wd_watches w1 = wd_watches w"
    "\<And>rec. got = Inr rec \<Longrightarrow> GetContainer cid (wd_containers w) = Inr rec"
    using g by (auto elim!: db_GetContainer_cases)
  show ?thesis
  proof (cases "\<exists>rec. got = Inr rec \<and> c_previous_image rec \<noteq> ''''")
    case False
    then have "w' = w1 \<and> ((\<exists>x. r = Some (LookUp x)) \<or> r = Some NoPrevious)"
      using assms(1) g by (auto simp: Rollback_def split: sum.splits)
    then show ?thesis using a1 s1 by (intro exI[of _ "[]"]) (auto simp: failure_outcome_def)
  next
    case True
    then obtain rec where rec: "got = Inr rec" "c_previous_image rec \<noteq> ''''" by blast
    then have "guarded_operation (logged e) (c_name rec) ''rollback'' act aid
        (rollback_body (logged e) cl dv cid rec act aid) w1 = (r, w')"
      using assms(1) g by (simp add: Rollback_def)
    then show ?thesis
    proof (cases rule: guarded_operation_cases)
      case (refused err evs g)
      then show ?thesis using a1 s1 by (intro exI[of _ "[]"]) (simp add: failure_outcome_def)
    next
      case (ran g g' v)
      let ?w = "w1\<lparr>wd_guard := g\<rparr>"
      obtain i w2 where i: "run_inspect (logged e) cid ?w = (i, w2)" by (rule prod.exhaust)
      then obtain d2 where d2: "en_inspect (logged e) cid (wd_env w1) = (i, d2)" "w2 = ?w\<lparr>wd_env := d2\<rparr>"
        by (auto elim!: run_inspect_cases)
      have a2: "added (wd_env w) [] (wd_env w2)" "wd_containers w2 = wd_containers w" "wd_watches w2 = wd_watches w"
        using a1 logged_silent(1)[OF d2(1)] d2(2) s1 by (auto simp: added_def)
      show ?thesis
      proof (cases i)
        case (Inl err)
        then have "r = Some (InspectBefore err)" "v = w2" using ran(1) i by (simp_all add: rollback_body_def)
        then show ?thesis using a2 ran(2) by (intro exI[of _ "[]"]) (simp add: failure_outcome_def)
      next
        case (Inr before)
        let ?s = "if act = ActorSystem then settle (logged e) cid (now (logged e) w2 + 10 * nanos) settle_fuel before w2
            else (Inr before, w2)"
        obtain b w3 where b: "?s = (b, w3)" by (rule prod.exhaust)
        have ins: "en_inspect e cid (snd (wd_env w1)) = (Inr before, snd d2)" using inspect_logged[OF d2(1)] Inr by simp
        have st: "added (wd_env w2) [] (wd_env w3) \<and> same_store w2 w3
          \<and> (case b of Inr b \<Rightarrow> \<exists>d d'. en_inspect e cid d = (Inr b, d')
             | Inl err \<Rightarrow> err = WaitNotReturned \<or> err = ContextEnded \<or> (\<exists>x. err = InspectCrashLoop x))"
        proof (cases "act = ActorSystem")
          case True
          then show ?thesis using settle_outcome[OF _ ins, of _ _ w2 b w3] b by simp
        next
          case False
          then have "b = Inr before" "w3 = w2" using b by simp_all
          moreover have "\<exists>d d'. en_inspect e cid d = (Inr before, d')" using ins by blast
          ultimately show ?thesis by simp
        qed
        have a3: "added (wd_env w) [] (wd_env w3)" "wd_containers w3 = wd_containers w" "wd_watches w3 = wd_watches w"
          using a2 st by (auto simp: added_def same_store_def)
        show ?thesis
        proof (cases b)
          case (Inl err)
          then have "r = Some err" "v = w3" using ran(1) i \<open>i = Inr before\<close> b by (simp_all add: rollback_body_def)
          then show ?thesis using a3 ran(2) st Inl by (intro exI[of _ "[]"]) (auto simp: failure_outcome_def)
        next
          case (Inr before')
          then have rf: "rollback_from (logged e) cl dv cid rec before' act aid w3 = (r, v)"
            using ran(1) i \<open>i = Inr before\<close> b by (simp add: rollback_body_def)
          obtain d d' where "en_inspect e cid d = (Inr before', d')" using st Inr by auto
          from rollback_from_outcome[OF rf _ assms(3) this] assms(2) a3(2) obtain new where
            new: "added (wd_env w3) new (wd_env v)" and out: "case r of None \<Rightarrow> rollback_done e cid rec act w3 new v
              | Some err \<Rightarrow> failure_outcome e (rollback_type act) cid w3 err new v" by auto
          have f: "failure_outcome e (rollback_type act) cid w3 err new v =
              failure_outcome e (rollback_type act) cid w err new w'" for err
            by (rule failure_outcome_cong) (simp_all add: a3 ran(2))
          have dn: "rollback_done e cid rec act w3 new v = rollback_done e cid rec act w new w'"
            unfolding rollback_done_def a3 ran(2) by simp
          show ?thesis
            using out new a3(1) ran(2) rec s1(3)[OF rec(1)]
            by (intro exI[of _ new]) (auto simp: added_def f dn split: option.splits)
        qed
      qed
    qed
  qed
qed

text \<open>C2: A rollback that succeeds has asked the engine for exactly the changes of a recreation on the
  recorded previous image: the old container was stopped if it ran and removed, and one was created
  from that image under its name; when the old one ran, the new one was started and seen
  healthy, and otherwise it is left created. The row keeps the image reference the container was
  deployed with, remembers the image just abandoned as the one to return to, offers it as an update
  again (or an event says that it could not), and the container's watch is closed. A rollback that
  fails ends in one of the ways C1 gives for an update that fails.\<close>

theorem rollback_swaps_images:
  assumes "Rollback (logged e) cl dv cid act aid w = (r, w')"
    and "keys_distinct c_id (wd_containers w)" "cid \<noteq> ''''"
  shows "\<exists>new. added (wd_env w) new (wd_env w')
    \<and> (case r of
         None \<Rightarrow> (\<exists>rec. GetContainer cid (wd_containers w) = Inr rec \<and> c_previous_image rec \<noteq> ''''
           \<and> rollback_done e cid rec act w new w')
       | Some err \<Rightarrow> failure_outcome e (rollback_type act) cid w err new w')"
  by (rule Rollback_outcome[OF assms])

section \<open>Runs on a concrete host\<close>

definition web_world :: "string list \<Rightarrow> host logging world" where
  "web_world faults = \<lparr>wd_env = ([], web_host faults),
     wd_containers = [container_record ''c1'' ''web'' '''' ''running'' ''Up'' ''web:1'' ''sha256:web:0''],
     wd_watches = [], wd_settings = [], wd_guard = newOperationGuard, wd_events = [], wd_notices = []\<rparr>"

definition web_update :: "string list \<Rightarrow> op_error option \<times> host logging world" where
  "web_update faults = Update (logged host_engine) plain_client sha_valid ''c1'' ''web:2'' ActorUser ''ann'' (web_world faults)"

definition web_rollback :: "string list \<Rightarrow> op_error option \<times> host logging world" where
  "web_rollback faults = Rollback (logged host_engine) plain_client sha_valid ''c1'' ActorUser ''ann'' (web_world faults)"

lemma web_keys: "keys_distinct c_id (wd_containers (web_world faults))"
  by (simp add: web_world_def keys_distinct_def)

theorem operation_always_released_witness:
  "fst (web_update [''start n1'']) = Some (Reverted (Recreate (StartFailed ''start n1'')))
   \<and> holder_of (wd_guard (snd (web_update [''start n1'']))) = holder_of (wd_guard (web_world [''start n1'']))"
proof
  show "fst (web_update [''start n1'']) = Some (Reverted (Recreate (StartFailed ''start n1'')))" by code_simp
  show "holder_of (wd_guard (snd (web_update [''start n1'']))) = holder_of (wd_guard (web_world [''start n1'']))"
    using operation_always_released[of "logged host_engine" plain_client sha_valid "''c1''" "''web:2''" ActorUser "''ann''"
        "web_world [''start n1'']" "fst (web_update [''start n1''])" "snd (web_update [''start n1''])"]
    by (simp add: web_update_def)
qed

theorem update_never_strands_witness:
  "fst (web_update []) = None \<and> fst (wd_env (snd (web_update []))) =
     [CallPull ''web:2'' True, CallStop ''c1'' True, CallRemove ''c1'' True, CallCreate ''web:2'' ''web'' (Some ''n1''), CallStart ''n1'' True]
   \<and> (\<exists>new. added (wd_env (web_world [])) new (wd_env (snd (web_update [])))
        \<and> update_outcome host_engine ''c1'' ''web:2'' (web_world []) (fst (web_update [])) new (snd (web_update [])))"
proof (intro conjI)
  show "fst (web_update []) = None" by code_simp
  show "fst (wd_env (snd (web_update []))) =
     [CallPull ''web:2'' True, CallStop ''c1'' True, CallRemove ''c1'' True, CallCreate ''web:2'' ''web'' (Some ''n1''), CallStart ''n1'' True]"
    by code_simp
  show "\<exists>new. added (wd_env (web_world [])) new (wd_env (snd (web_update [])))
        \<and> update_outcome host_engine ''c1'' ''web:2'' (web_world []) (fst (web_update [])) new (snd (web_update []))"
    by (rule update_never_strands[OF _ web_keys, of host_engine plain_client sha_valid _ _ ActorUser "''ann''"])
      (simp_all add: web_update_def)
qed

theorem rollback_swaps_images_witness:
  "fst (web_rollback []) = None
   \<and> map (\<lambda>c. (c_id c, c_current_image c, c_previous_image c, c_update_available c)) (wd_containers (snd (web_rollback []))) =
       [(''n1'', ''web:1'', ''sha256:web:1'', True)]
   \<and> (\<exists>new rec. added (wd_env (web_world [])) new (wd_env (snd (web_rollback [])))
        \<and> rollback_done host_engine ''c1'' rec ActorUser (web_world []) new (snd (web_rollback [])))"
proof (intro conjI)
  show n: "fst (web_rollback []) = None" by code_simp
  show "map (\<lambda>c. (c_id c, c_current_image c, c_previous_image c, c_update_available c)) (wd_containers (snd (web_rollback []))) =
       [(''n1'', ''web:1'', ''sha256:web:1'', True)]" by code_simp
  have "Rollback (logged host_engine) plain_client sha_valid ''c1'' ActorUser ''ann'' (web_world []) = (None, snd (web_rollback []))"
    using n by (metis web_rollback_def prod.collapse)
  from rollback_swaps_images[OF this web_keys]
  show "\<exists>new rec. added (wd_env (web_world [])) new (wd_env (snd (web_rollback [])))
        \<and> rollback_done host_engine ''c1'' rec ActorUser (web_world []) new (snd (web_rollback []))" by auto
qed

end
