(* ===== verification/Monitor.thy ===== *)
theory Monitor
  imports Updater
begin

text \<open>
  \<^verbatim>\<open>internal/crashloop/monitor.go\<close>: the monitor follows Docker's event stream, records crashes on
  the watch of an updated container, catches up on crashes it did not see through the restart
  counter, and starts the automatic rollback. A rollback runs in a goroutine of its own:
  \<^verbatim>\<open>mo_started\<close> are those started and not yet run. Metrics and message texts are left out.
\<close>

section \<open>State\<close>

record 'd monitor =
  mo_world :: "'d world"
  mo_started :: "RollbackWatch list"

record container_event =
  ce_container_id :: string
  ce_name :: string
  ce_action :: string
  ce_exit_code :: string
  ce_time :: time
  ce_time_nano :: int

text \<open>\<^verbatim>\<open>ContainerEvents\<close>: what becomes of a message of the engine (ID, attributes, action, seconds and
  nanoseconds).\<close>
definition event_of_message :: "string \<Rightarrow> (string \<times> string) list \<Rightarrow> string \<Rightarrow> int \<Rightarrow> int \<Rightarrow> container_event" where
  "event_of_message actorID attributes act secs timeNano =
    \<lparr>ce_container_id = actorID,
     ce_name = (case map_of attributes ''name'' of None \<Rightarrow> '''' | Some s \<Rightarrow> s),
     ce_action = act,
     ce_exit_code = (case map_of attributes ''exitCode'' of None \<Rightarrow> '''' | Some s \<Rightarrow> s),
     ce_time = (if 0 < timeNano then timeNano else secs * nanos), ce_time_nano = timeNano\<rparr>"

abbreviation on_world :: "('d world \<Rightarrow> 'd world) \<Rightarrow> 'd monitor \<Rightarrow> 'd monitor" where
  "on_world f m \<equiv> m\<lparr>mo_world := f (mo_world m)\<rparr>"

section \<open>Events\<close>

definition lifecycleState :: "(string \<times> string) list" where
  "lifecycleState = [(''start'', ''running''), (''unpause'', ''running''), (''die'', ''exited''),
     (''stop'', ''exited''), (''kill'', ''exited''), (''pause'', ''paused''), (''oom'', ''exited'')]"

definition syncState :: "'d engine \<Rightarrow> container_event \<Rightarrow> 'd world \<Rightarrow> 'd world" where
  "syncState e ev w =
    (case map_of lifecycleState (ce_action ev) of
       None \<Rightarrow> w
     | Some state \<Rightarrow>
         if ce_container_id ev = '''' then w
         else (case sql e (\<lambda>w. ((), w\<lparr>wd_containers := SetContainerState (ce_container_id ev) state '''' (wd_containers w)\<rparr>)) w of
                 (Inl _, w1) \<Rightarrow> emit (event_of LevelWarn ''container.sync_failed'' (ce_name ev) ActorSystem '''' []) w1
               | (Inr _, w1) \<Rightarrow> w1))"

definition recordCrash :: "'d engine \<Rightarrow> string \<Rightarrow> string \<Rightarrow> int \<Rightarrow> time \<Rightarrow> string \<Rightarrow> 'd monitor \<Rightarrow> 'd monitor" where
  "recordCrash e name cid eventNano at source m =
    (case sql e (\<lambda>w. let (r, ws) = RecordCrash name cid eventNano at (wd_watches w) in (r, w\<lparr>wd_watches := ws\<rparr>)) (mo_world m) of
       (Inl _, w1) \<Rightarrow> m\<lparr>mo_world := emit (event_of LevelError ''crashloop.record_failed'' name ActorSystem '''' []) w1\<rparr>
     | (Inr (Inl _), w1) \<Rightarrow> m\<lparr>mo_world := w1\<rparr>
     | (Inr (Inr (watch, counted, triggered)), w1) \<Rightarrow>
         if \<not> counted then m\<lparr>mo_world := w1\<rparr>
         else (let counts = [(''crash_count'', AInt (w_crash_count watch)), (''threshold'', AInt (w_threshold watch))];
                   w2 = emit (event_of LevelWarn ''crashloop.crash_detected'' name ActorSystem ''''
                          (counts @ [(''source'', AStr source)])) w1
               in if \<not> triggered then m\<lparr>mo_world := w2\<rparr>
                  else m\<lparr>mo_world := emit (event_of LevelWarn ''crashloop.threshold_reached'' name ActorSystem '''' counts) w2,
                         mo_started := mo_started m @ [watch]\<rparr>))"

definition handleEvent :: "'d engine \<Rightarrow> container_event \<Rightarrow> 'd monitor \<Rightarrow> 'd monitor" where
  "handleEvent e ev m =
    (let m1 = on_world (syncState e ev) m
     in if ce_action ev \<noteq> ''die'' \<or> ce_name ev = '''' then m1
        else if Atoi (ce_exit_code ev) = Some 0 then m1
        else recordCrash e (ce_name ev) (ce_container_id ev)
               (if ce_time_nano ev = 0 then ce_time ev else ce_time_nano ev) (ce_time ev) ''docker_event'' m1)"

section \<open>Reconciliation\<close>

definition expire_watches :: "'d engine \<Rightarrow> time \<Rightarrow> 'd world \<Rightarrow> 'd world" where
  "expire_watches e t w =
    (case sql e (\<lambda>w. let (n, ws) = ExpireRollbackWatches t (wd_watches w) in (n, w\<lparr>wd_watches := ws\<rparr>)) w of
       (Inl _, w1) \<Rightarrow> w1
     | (Inr n, w1) \<Rightarrow>
         if 0 < n then emit (event_of LevelInfo ''crashloop.expired'' '''' ActorSystem '''' [(''count'', AInt (int n))]) w1
         else w1)"

definition missed_crashes :: "'d engine \<Rightarrow> RollbackWatch \<Rightarrow> time \<Rightarrow> nat \<Rightarrow> 'd monitor \<Rightarrow> 'd monitor" where
  "missed_crashes e watch t delta m =
    fold (\<lambda>i. recordCrash e (w_container_name watch) (w_container_id watch) (t + int i) t ''restart_counter'') [0..<delta] m"

definition reconcile_watch :: "'d engine \<Rightarrow> time \<Rightarrow> RollbackWatch \<Rightarrow> 'd monitor \<Rightarrow> 'd monitor" where
  "reconcile_watch e t watch m =
    (case run_inspect e (w_container_id watch) (mo_world m) of
       (Inl _, w1) \<Rightarrow> m\<lparr>mo_world := w1\<rparr>
     | (Inr info, w1) \<Rightarrow>
         (let m1 = m\<lparr>mo_world := w1\<rparr>;
              m2 = (if in_restart_count info > w_observed_restart_count watch
                    then missed_crashes e watch t (nat (in_restart_count info - w_observed_restart_count watch)) m1
                    else m1)
          in on_world (\<lambda>w. snd (sql e (\<lambda>w. ((), w\<lparr>wd_watches :=
               SetRollbackWatchRestartCount (w_container_name watch) (in_restart_count info) (wd_watches w)\<rparr>)) w)) m2))"

definition earlier_since :: "RollbackWatch \<Rightarrow> time \<Rightarrow> time" where
  "earlier_since watch since =
    (if w_update_applied_at watch < since then w_update_applied_at watch - nanos else since)"

definition reconcile :: "'d engine \<Rightarrow> 'd monitor \<Rightarrow> time \<times> 'd monitor" where
  "reconcile e m =
    (let t = now e (mo_world m)
     in case sql e (\<lambda>w. (ListActiveRollbackWatches (wd_watches w), w)) (expire_watches e t (mo_world m)) of
          (Inl _, w1) \<Rightarrow> (t, m\<lparr>mo_world := w1\<rparr>)
        | (Inr [], w1) \<Rightarrow> (t, m\<lparr>mo_world := w1\<rparr>)
        | (Inr (first # rest), w1) \<Rightarrow>
            (fold earlier_since (first # rest) (w_update_applied_at first - nanos),
             fold (reconcile_watch e t) (first # rest) (m\<lparr>mo_world := w1\<rparr>)))"

section \<open>The automatic rollback\<close>

definition db_GetContainerByName :: "'d engine \<Rightarrow> string \<Rightarrow> 'd world \<Rightarrow> (db_error, ContainerRecord) result \<times> 'd world" where
  "db_GetContainerByName e name w =
    (case sql e (\<lambda>w. (GetContainerByName name (wd_containers w), w)) w of
       (Inl err, w') \<Rightarrow> (Inl err, w')
     | (Inr (Inl err), w') \<Rightarrow> (Inl (DbError err), w')
     | (Inr (Inr rec), w') \<Rightarrow> (Inr rec, w'))"

definition rollback_failed :: "'d engine \<Rightarrow> string \<Rightarrow> 'd world \<Rightarrow> 'd world" where
  "rollback_failed e name w =
    emit (event_of LevelError ''crashloop.rollback_failed'' name ActorSystem '''' [])
      (snd (sql e (\<lambda>w. ((), w\<lparr>wd_watches := CompleteRollbackWatch name ''rollback_failed'' (wd_watches w)\<rparr>)) w))"

definition maintenance_error :: "op_error \<Rightarrow> bool" where
  "maintenance_error err = (case err of Refused oe \<Rightarrow> IsMaintenanceError oe | _ \<Rightarrow> False)"

text \<open>A panic of the rollback is not recovered and ends the daemon: nothing more is written, and
  what runs next is the next daemon.\<close>
definition monitor_rollback :: "'d engine \<Rightarrow> docker_client \<Rightarrow> (string \<Rightarrow> bool) \<Rightarrow> RollbackWatch \<Rightarrow> 'd world \<Rightarrow> 'd world" where
  "monitor_rollback e cl dv watch w =
    (case db_GetContainerByName e (w_container_name watch) w of
       (Inl _, w1) \<Rightarrow> rollback_failed e (w_container_name watch) w1
     | (Inr rec, w1) \<Rightarrow>
         (case Rollback e cl dv (c_id rec) ActorSystem ''crashloop'' w1 of
            (None, w2) \<Rightarrow> w2
          | (Some err, w2) \<Rightarrow>
              if maintenance_error err \<or> err = Panicked then w2 else rollback_failed e (w_container_name watch) w2))"

definition recoverTriggered :: "'d engine \<Rightarrow> 'd monitor \<Rightarrow> 'd monitor" where
  "recoverTriggered e m =
    (case sql e (\<lambda>w. (ListTriggeredRollbackWatches (wd_watches w), w)) (mo_world m) of
       (Inl _, w1) \<Rightarrow> m\<lparr>mo_world := w1\<rparr>
     | (Inr watches, w1) \<Rightarrow>
         m\<lparr>mo_world := fold (\<lambda>watch. emit (event_of LevelWarn ''crashloop.rollback_recovered'' (w_container_name watch) ActorSystem '''' []))
             watches w1,
           mo_started := mo_started m @ watches\<rparr>)"

section \<open>The loop\<close>

definition next_backoff :: "int \<Rightarrow> int" where
  "next_backoff backoff = (if backoff < 30 * nanos then backoff * 2 else backoff)"

text \<open>One turn of \<^verbatim>\<open>Run\<close>'s select, or the run of a goroutine it started.\<close>
inductive monitor_step :: "'d engine \<Rightarrow> docker_client \<Rightarrow> (string \<Rightarrow> bool) \<Rightarrow> 'd monitor \<Rightarrow> 'd monitor \<Rightarrow> bool"
  for e cl dv where
  event: "monitor_step e cl dv m (handleEvent e ev m)"
| tick: "monitor_step e cl dv m (snd (reconcile e m))"
| stream_failed: "monitor_step e cl dv m (on_world (emit (event_of LevelWarn ''crashloop.stream_failed'' '''' ActorSystem '''' [])) m)"
| goroutine: "mo_started m = ws @ watch # ws' \<Longrightarrow>
    monitor_step e cl dv m (m\<lparr>mo_world := monitor_rollback e cl dv watch (mo_world m), mo_started := ws @ ws'\<rparr>)"

section \<open>A disk that works\<close>

definition reliable :: "'d engine \<Rightarrow> bool" where
  "reliable e \<longleftrightarrow> (\<forall>d. fst (en_sql e d))"

lemma sql_reliable:
  assumes "reliable e"
  obtains d where "sql e f w = (Inr (fst (f (w\<lparr>wd_env := d\<rparr>))), snd (f (w\<lparr>wd_env := d\<rparr>)))"
proof -
  obtain ok d where d: "en_sql e (wd_env w) = (ok, d)" by (rule prod.exhaust)
  then have "ok" using assms[unfolded reliable_def, rule_format, of "wd_env w"] by simp
  then show thesis using d that[of d] by (simp add: sql_def case_prod_beta)
qed

lemma syncState_frame: "wd_watches (syncState e ev w) = wd_watches w"
  by (auto simp: syncState_def frame_simps split: option.splits prod.splits sum.splits elim!: sql_cases)

text \<open>What a crash report starts.\<close>
definition claims :: "(store_error, RollbackWatch \<times> bool \<times> bool) result \<Rightarrow> RollbackWatch list" where
  "claims r = (case r of Inr (watch, counted, triggered) \<Rightarrow> if triggered then [watch] else [] | Inl _ \<Rightarrow> [])"

lemma RecordCrash_triggered: "fst (RecordCrash n cid nano at tbl) = Inr (w, counted, True) \<Longrightarrow> counted"
  by (auto simp: RecordCrash_def Let_def split: option.splits if_splits)

lemma recordCrash_reliable:
  assumes "reliable e"
  shows "wd_watches (mo_world (recordCrash e n cid nano at src m)) = snd (RecordCrash n cid nano at (wd_watches (mo_world m)))"
    and "mo_started (recordCrash e n cid nano at src m)
      = mo_started m @ claims (fst (RecordCrash n cid nano at (wd_watches (mo_world m))))"
proof -
  obtain r ws where rc: "RecordCrash n cid nano at (wd_watches (mo_world m)) = (r, ws)" by (rule prod.exhaust)
  obtain d where "sql e (\<lambda>w. let (r, ws) = RecordCrash n cid nano at (wd_watches w) in (r, w\<lparr>wd_watches := ws\<rparr>)) (mo_world m)
      = (Inr r, (mo_world m)\<lparr>wd_env := d, wd_watches := ws\<rparr>)" (is "?s = _")
    using sql_reliable[OF assms, of "\<lambda>w. let (r, ws) = RecordCrash n cid nano at (wd_watches w) in (r, w\<lparr>wd_watches := ws\<rparr>)" "mo_world m"] rc
    by auto
  then have "wd_watches (mo_world (recordCrash e n cid nano at src m)) = ws
     \<and> mo_started (recordCrash e n cid nano at src m) = mo_started m @ claims r"
    using RecordCrash_triggered[of n cid nano at "wd_watches (mo_world m)"] rc
    by (auto simp: recordCrash_def claims_def frame_simps Let_def split: sum.splits)
  then show "wd_watches (mo_world (recordCrash e n cid nano at src m)) = snd (RecordCrash n cid nano at (wd_watches (mo_world m)))"
    "mo_started (recordCrash e n cid nano at src m)
      = mo_started m @ claims (fst (RecordCrash n cid nano at (wd_watches (mo_world m))))"
    using rc by simp_all
qed

section \<open>Reports\<close>

definition is_crash :: "container_event \<Rightarrow> bool" where
  "is_crash ev \<longleftrightarrow> ce_action ev = ''die'' \<and> ce_name ev \<noteq> '''' \<and> Atoi (ce_exit_code ev) \<noteq> Some 0"

definition crash_report :: "container_event \<Rightarrow> report" where
  "crash_report ev = (ce_container_id ev, if ce_time_nano ev = 0 then ce_time ev else ce_time_nano ev, ce_time ev)"

definition crash_reports :: "string \<Rightarrow> container_event list \<Rightarrow> report list" where
  "crash_reports n evs = map crash_report (filter (\<lambda>ev. is_crash ev \<and> ce_name ev = n) evs)"

lemma handleEvent_reliable:
  assumes "reliable e"
  shows "wd_watches (mo_world (handleEvent e ev m)) =
      (if is_crash ev then (case crash_report ev of (cid, nano, at) \<Rightarrow> snd (RecordCrash (ce_name ev) cid nano at (wd_watches (mo_world m))))
       else wd_watches (mo_world m))"
    and "mo_started (handleEvent e ev m) = mo_started m @
      (if is_crash ev then (case crash_report ev of (cid, nano, at) \<Rightarrow> claims (fst (RecordCrash (ce_name ev) cid nano at (wd_watches (mo_world m)))))
       else [])"
  by (auto simp: handleEvent_def is_crash_def crash_report_def Let_def syncState_frame recordCrash_reliable[OF assms])

text \<open>A statement on the watch of one container depends on its row only.\<close>

lemma RecordCrash_local:
  "watch_of k (snd (RecordCrash n cid nano at tbl)) =
     (if k = n then (case watch_of n tbl of None \<Rightarrow> None
        | Some w \<Rightarrow> watch_of n (snd (RecordCrash n cid nano at [w]))) else watch_of k tbl)"
  "fst (RecordCrash n cid nano at tbl) =
     (case watch_of n tbl of None \<Rightarrow> Inl ErrNotFound | Some w \<Rightarrow> fst (RecordCrash n cid nano at [w]))"
proof -
  have key: "w_container_name w = n" if "watch_of n tbl = Some w" for w using that by (rule get_row_key)
  show "watch_of k (snd (RecordCrash n cid nano at tbl)) =
     (if k = n then (case watch_of n tbl of None \<Rightarrow> None
        | Some w \<Rightarrow> watch_of n (snd (RecordCrash n cid nano at [w]))) else watch_of k tbl)"
  proof (cases "watch_of n tbl")
    case None
    then show ?thesis by (simp add: RecordCrash_def)
  next
    case (Some w)
    then show ?thesis
      using key[OF Some]
      by (cases "watch_of k tbl") (auto simp: RecordCrash_def Let_def row_simps dest: get_row_key)
  qed
  show "fst (RecordCrash n cid nano at tbl) =
     (case watch_of n tbl of None \<Rightarrow> Inl ErrNotFound | Some w \<Rightarrow> fst (RecordCrash n cid nano at [w]))"
    using key by (auto simp: RecordCrash_def Let_def row_simps split: option.splits)
qed

lemma RecordCrash_cong:
  assumes "watch_of n tbl = watch_of n tbl'"
  shows "fst (RecordCrash n cid nano at tbl) = fst (RecordCrash n cid nano at tbl')"
    "watch_of n (snd (RecordCrash n cid nano at tbl)) = watch_of n (snd (RecordCrash n cid nano at tbl'))"
  using assms by (simp_all add: RecordCrash_local(2)[of n _ _ _ tbl] RecordCrash_local(2)[of n _ _ _ tbl']
      RecordCrash_local(1)[of n n _ _ _ tbl] RecordCrash_local(1)[of n n _ _ _ tbl'])

lemma record_all_Cons:
  "fst (record_all n ((cid, nano, at) # rs) tbl) =
     (case fst (RecordCrash n cid nano at tbl) of Inl _ \<Rightarrow> (False, False) | Inr (_, c, t) \<Rightarrow> (c, t))
       # fst (record_all n rs (snd (RecordCrash n cid nano at tbl)))"
  "snd (record_all n ((cid, nano, at) # rs) tbl) = snd (record_all n rs (snd (RecordCrash n cid nano at tbl)))"
  by (simp_all add: case_prod_beta Let_def split: prod.splits sum.splits)

lemma record_all_cong:
  "watch_of n tbl = watch_of n tbl' \<Longrightarrow>
     fst (record_all n rs tbl) = fst (record_all n rs tbl')
     \<and> watch_of n (snd (record_all n rs tbl)) = watch_of n (snd (record_all n rs tbl'))"
proof (induction rs arbitrary: tbl tbl')
  case (Cons r rs)
  obtain cid nano at where r: "r = (cid, nano, at)" by (cases r)
  show ?case
    using Cons.IH[OF RecordCrash_cong(2)[OF Cons.prems]] RecordCrash_cong(1)[OF Cons.prems]
    unfolding r record_all_Cons by metis
qed simp

lemma claims_name: "g \<in> set (claims (fst (RecordCrash n cid nano at tbl))) \<Longrightarrow> w_container_name g = n"
  by (auto simp: claims_def RecordCrash_def Let_def count_crash_def split: option.splits if_splits dest: get_row_key)

lemma claims_count:
  "length (claims (fst (RecordCrash n cid nano at tbl))) =
    (case fst (RecordCrash n cid nano at tbl) of Inr (_, _, True) \<Rightarrow> 1 | _ \<Rightarrow> 0)"
  by (auto simp: claims_def split: sum.splits bool.splits)

section \<open>The stream implements the watch\<close>

abbreviation started_for :: "string \<Rightarrow> 'd monitor \<Rightarrow> nat" where
  "started_for n m \<equiv> length (filter (\<lambda>g. w_container_name g = n) (mo_started m))"

lemma claims_for:
  "length (filter (\<lambda>g. w_container_name g = k) (claims (fst (RecordCrash n cid nano at tbl)))) =
    (if k = n then length (claims (fst (RecordCrash n cid nano at tbl))) else 0)"
proof -
  have "filter (\<lambda>g. w_container_name g = k) (claims r) = (if k = n then claims r else [])"
    if "\<forall>g \<in> set (claims r). w_container_name g = n" for r
    using that by (auto simp: filter_id_conv filter_empty_conv)
  then show ?thesis using claims_name by (metis list.size(3))
qed

lemma handle_all:
  assumes "reliable e"
  shows "watch_of n (wd_watches (mo_world (fold (handleEvent e) evs m)))
      = watch_of n (snd (record_all n (crash_reports n evs) (wd_watches (mo_world m))))
    \<and> started_for n (fold (handleEvent e) evs m)
      = started_for n m + length (filter snd (fst (record_all n (crash_reports n evs) (wd_watches (mo_world m)))))"
proof (induction evs arbitrary: m)
  case Nil
  then show ?case by (simp add: crash_reports_def)
next
  case (Cons ev evs)
  let ?m = "handleEvent e ev m" and ?t = "wd_watches (mo_world m)"
  obtain cid nano at where r: "crash_report ev = (cid, nano, at)" by (rule prod_cases3)
  show ?case
  proof (cases "is_crash ev \<and> ce_name ev = n")
    case True
    then have m: "wd_watches (mo_world ?m) = snd (RecordCrash n cid nano at ?t)"
      "mo_started ?m = mo_started m @ claims (fst (RecordCrash n cid nano at ?t))"
      and rs: "crash_reports n (ev # evs) = (cid, nano, at) # crash_reports n evs"
      using r by (auto simp: handleEvent_reliable[OF assms] crash_reports_def)
    have "length (claims (fst (RecordCrash n cid nano at ?t))) =
        (if snd (case fst (RecordCrash n cid nano at ?t) of Inl _ \<Rightarrow> (False, False) | Inr (_, c, t) \<Rightarrow> (c, t)) then 1 else 0)"
      by (auto simp: claims_def split: sum.splits)
    then show ?thesis
      using Cons.IH[of ?m] unfolding rs record_all_Cons by (simp add: m claims_for)
  next
    case False
    then have rs: "crash_reports n (ev # evs) = crash_reports n evs" by (auto simp: crash_reports_def)
    have "watch_of n (snd (RecordCrash (ce_name ev) cid nano at ?t)) = watch_of n ?t"
      "filter (\<lambda>g. w_container_name g = n) (claims (fst (RecordCrash (ce_name ev) cid nano at ?t))) = []" if "ce_name ev \<noteq> n"
      using that claims_for[of n "ce_name ev"] RecordCrash_local(1)[of n "ce_name ev" cid nano at ?t] by simp_all
    then have "watch_of n (wd_watches (mo_world ?m)) = watch_of n ?t \<and> started_for n ?m = started_for n m"
      using False r by (cases "is_crash ev") (simp_all add: handleEvent_reliable[OF assms])
    then show ?thesis
      using Cons.IH[of ?m] record_all_cong[of n "wd_watches (mo_world ?m)" ?t "crash_reports n evs"] rs by simp
  qed
qed

text \<open>C11: The monitor implements the watch on a stream that mixes the events of all containers, with
  repetitions and clean exits: whatever arrives, one automatic rollback is started for a watched
  container when the crashes that count reach the threshold and none before, and the stored row
  is triggered exactly then.\<close>

theorem crash_loop_starts_one_rollback:
  assumes "reliable e" "watch_of n (wd_watches (mo_world m)) = Some w" "open_watch w" "started_for n m = 0"
  shows "\<exists>w'. let m' = fold (handleEvent e) evs m;
      acc = int (length (accepted (w_container_id w) (w_window_expires_at w) (w_last_event_nano w) (crash_reports n evs)));
      hit = w_threshold w \<le> w_crash_count w + acc
    in watch_of n (wd_watches (mo_world m')) = Some w'
       \<and> started_for n m' = (if hit then 1 else 0)
       \<and> w_crash_count w' = min (w_threshold w) (w_crash_count w + acc)
       \<and> w_status w' = (if hit then ''triggered'' else ''active'')"
  using record_all_open[OF assms(2,3), of "crash_reports n evs"] handle_all[OF assms(1), of n evs m] assms(4)
  by (simp add: Let_def)

section \<open>The restart counter\<close>

lemma missed_crashes_reliable:
  assumes "reliable e"
  shows "wd_watches (mo_world (missed_crashes e watch t k m)) =
      snd (record_all (w_container_name watch) (map (\<lambda>i. (w_container_id watch, t + int i, t)) [0..<k]) (wd_watches (mo_world m)))
    \<and> started_for (w_container_name watch) (missed_crashes e watch t k m) = started_for (w_container_name watch) m
      + length (filter snd (fst (record_all (w_container_name watch) (map (\<lambda>i. (w_container_id watch, t + int i, t)) [0..<k]) (wd_watches (mo_world m)))))"
proof -
  let ?n = "w_container_name watch" and ?c = "w_container_id watch"
  have "wd_watches (mo_world (fold (\<lambda>i. recordCrash e ?n ?c (t + int i) t ''restart_counter'') is m)) =
      snd (record_all ?n (map (\<lambda>i. (?c, t + int i, t)) is) (wd_watches (mo_world m)))
    \<and> started_for ?n (fold (\<lambda>i. recordCrash e ?n ?c (t + int i) t ''restart_counter'') is m) = started_for ?n m
      + length (filter snd (fst (record_all ?n (map (\<lambda>i. (?c, t + int i, t)) is) (wd_watches (mo_world m)))))" for "is"
  proof (induction "is" arbitrary: m)
    case (Cons i "is")
    let ?t = "wd_watches (mo_world m)"
    have "length (claims (fst (RecordCrash ?n ?c (t + int i) t ?t))) =
        (if snd (case fst (RecordCrash ?n ?c (t + int i) t ?t) of Inl _ \<Rightarrow> (False, False) | Inr (_, c, t) \<Rightarrow> (c, t)) then 1 else 0)"
      by (auto simp: claims_def split: sum.splits)
    then show ?case
      using Cons.IH[of "recordCrash e ?n ?c (t + int i) t ''restart_counter'' m"] claims_for[of ?n ?n]
      unfolding list.map record_all_Cons by (simp add: recordCrash_reliable[OF assms])
  qed simp
  then show ?thesis by (simp add: missed_crashes_def)
qed

lemma accepted_rising:
  assumes "t < expires" "last_nano < t + int a"
  shows "length (accepted cid expires last_nano (map (\<lambda>i. (cid, t + int i, t)) [a..<b])) = b - a"
  using assms(2)
proof (induction "b - a" arbitrary: a last_nano)
  case (Suc n)
  then have "a < b" "n = b - Suc a" by simp_all
  then show ?case using Suc.hyps(1)[of "Suc a" "t + int a"] Suc.prems assms(1) by (simp add: upt_conv_Cons)
qed simp

lemma watch_after_restart_count [row_simps]:
  "watch_of k (SetRollbackWatchRestartCount n c tbl) =
    (if k = n then map_option (\<lambda>w. w\<lparr>w_observed_restart_count := c\<rparr>) (watch_of k tbl) else watch_of k tbl)"
  by (cases "watch_of k tbl") (auto simp: SetRollbackWatchRestartCount_def row_simps dest: get_row_key)

lemma reconcile_watch_counts:
  assumes "reliable e" "watch_of n (wd_watches (mo_world m)) = Some w" "open_watch w" "w_container_name w = n"
    and "en_inspect e (w_container_id w) (wd_env (mo_world m)) = (Inr info, d)"
    and "t < w_window_expires_at w" "w_last_event_nano w < t"
  shows "\<exists>w'. let m' = reconcile_watch e t w m; k = max 0 (in_restart_count info - w_observed_restart_count w);
      hit = w_threshold w \<le> w_crash_count w + k
    in watch_of n (wd_watches (mo_world m')) = Some w'
      \<and> started_for n m' = started_for n m + (if hit then 1 else 0)
      \<and> w_crash_count w' = min (w_threshold w) (w_crash_count w + k)
      \<and> w_observed_restart_count w' = in_restart_count info
      \<and> w_status w' = (if hit then ''triggered'' else ''active'')"
proof -
  let ?k = "nat (in_restart_count info - w_observed_restart_count w)"
  let ?w1 = "(mo_world m)\<lparr>wd_env := d\<rparr>"
  let ?m1 = "m\<lparr>mo_world := ?w1\<rparr>"
  let ?m2 = "missed_crashes e w t ?k ?m1"
  let ?rs = "map (\<lambda>i. (w_container_id w, t + int i, t)) [0..<?k]"
  have insp: "run_inspect e (w_container_id w) (mo_world m) = (Inr info, ?w1)"
    using assms(5) by (simp add: run_inspect_def)
  have m2: "(if in_restart_count info > w_observed_restart_count w then ?m2 else ?m1) = ?m2"
    by (auto simp: missed_crashes_def)
  let ?f = "\<lambda>v. ((), v\<lparr>wd_watches := SetRollbackWatchRestartCount n (in_restart_count info) (wd_watches v)\<rparr>)"
  obtain d2 where s: "sql e ?f (mo_world ?m2) = (Inr (fst (?f ((mo_world ?m2)\<lparr>wd_env := d2\<rparr>))), snd (?f ((mo_world ?m2)\<lparr>wd_env := d2\<rparr>)))"
    by (rule sql_reliable[OF assms(1)])
  have "reconcile_watch e t w m = on_world (\<lambda>w. snd (sql e ?f w)) ?m2"
    unfolding reconcile_watch_def insp Let_def assms(4) by (simp add: missed_crashes_def)
  then have m': "wd_watches (mo_world (reconcile_watch e t w m)) = SetRollbackWatchRestartCount n (in_restart_count info) (wd_watches (mo_world ?m2))"
    "started_for n (reconcile_watch e t w m) = started_for n ?m2"
    using s by simp_all
  have acc: "length (accepted (w_container_id w) (w_window_expires_at w) (w_last_event_nano w) ?rs) = ?k"
    using accepted_rising[OF assms(6), of "w_last_event_nano w" 0 _ ?k] assms(7) by simp
  have k: "int ?k = max 0 (in_restart_count info - w_observed_restart_count w)" by simp
  from missed_crashes_reliable[OF assms(1), of w t ?k ?m1] record_all_open[OF assms(2,3), of ?rs]
  obtain w2 where "watch_of n (wd_watches (mo_world ?m2)) = Some w2"
    "started_for n ?m2 = started_for n m + (if w_threshold w \<le> w_crash_count w + int ?k then 1 else 0)"
    "w_crash_count w2 = min (w_threshold w) (w_crash_count w + int ?k)"
    "w_status w2 = (if w_threshold w \<le> w_crash_count w + int ?k then ''triggered'' else ''active'')"
    unfolding acc Let_def assms(4) by auto
  then show ?thesis
    unfolding Let_def m' k[symmetric]
    by (intro exI[of _ "w2\<lparr>w_observed_restart_count := in_restart_count info\<rparr>"]) (simp add: row_simps)
qed

section \<open>The rollback settles the watch\<close>

lemma revert_watches: "revert e cl dv kind oid lid before name act aid why w = (r, w') \<Longrightarrow> wd_watches w' = wd_watches w"
  unfolding revert_def Let_def
  by (auto simp: frame_simps split: prod.splits option.splits sum.splits if_splits
      elim!: run_recreate_cases db_GetContainer_cases db_ReplaceContainer_cases)

lemma failBeforeRemoval_watches:
  "failBeforeRemoval e kind oid result name act aid why w = (r, w') \<Longrightarrow> wd_watches w' = wd_watches w"
  by (auto simp: failBeforeRemoval_def frame_simps split: if_splits prod.splits option.splits)

lemma settle_watches: "settle e cid deadline n before w = (r, w') \<Longrightarrow> wd_watches w' = wd_watches w \<and> (\<forall>x. r \<noteq> Inl (Refused x))"
  by (induction n arbitrary: before w)
    (auto split: if_splits prod.splits bool.splits sum.splits elim!: run_inspect_cases)

lemma rollback_from_failed:
  assumes "rollback_from e cl dv cid rec before act aid w = (Some err, w')"
  shows "wd_watches w' = wd_watches w \<and> \<not> (\<exists>x. err = Refused x)"
proof -
  have r: "wd_watches v' = wd_watches v \<and> \<not> (\<exists>x. oe = Refused x)"
    if "revert e cl dv k oid lid before nm act aid why v = (oe, v')" for k oid lid nm why v oe v'
    using that revert_watches[OF that] unfolding revert_def Let_def
    by (auto split: prod.splits option.splits sum.splits if_splits)
  have f: "wd_watches v' = wd_watches v \<and> \<not> (\<exists>x. oe = Refused x)"
    if "failBeforeRemoval e k oid res nm act aid why v = (oe, v')" for k oid res nm why v oe v'
    using that failBeforeRemoval_watches[OF that]
    by (auto simp: failBeforeRemoval_def split: if_splits prod.splits option.splits)
  have c: "wd_watches v' = wd_watches v" if "commit_rollback e cid row act v = (Inl x, v')" for row v x v'
    using that by (auto simp: commit_rollback_def elim!: sql_cases)
  show ?thesis
    using assms
    by (cases rule: rollback_from_cases) (use r f c in \<open>fastforce simp: same_store_def\<close>)+
qed

text \<open>The guard answers with the maintenance error.\<close>
definition self_updating :: "operationGuard \<Rightarrow> bool" where
  "self_updating g \<longleftrightarrow> maintenance g \<or> (\<exists>p \<in> set (active g). op_kind (snd p) = ''self-update'')"

lemma beginOperation_maintenance:
  assumes "beginOperation name kind act aid t g = (Inl MaintenanceInProgressError, g', evs)"
  shows "self_updating g"
proof (cases "maintenance g")
  case False
  obtain op where "map_of (active g) name = Some op" "op_kind op = ''self-update''"
    using assms False by (auto simp: beginOperation_def begin_op_def split: option.splits if_splits)
  then show ?thesis by (force simp: self_updating_def dest: map_of_SomeD)
qed (simp add: self_updating_def)

lemma Rollback_failed:
  assumes "Rollback e cl dv cid act aid w = (Some err, w')"
  shows "wd_watches w' = wd_watches w \<and> (maintenance_error err \<longrightarrow> self_updating (wd_guard w))"
proof -
  obtain got w1 where g: "db_GetContainer e cid w = (got, w1)" by (rule prod.exhaust)
  then have w1: "wd_watches w1 = wd_watches w" "wd_guard w1 = wd_guard w" by (auto elim!: db_GetContainer_cases)
  show ?thesis
  proof (cases "\<exists>rec. got = Inr rec \<and> c_previous_image rec \<noteq> ''''")
    case False
    then show ?thesis using assms g w1 by (auto simp: Rollback_def maintenance_error_def split: sum.splits)
  next
    case True
    then obtain rec where "guarded_operation e (c_name rec) ''rollback'' act aid (rollback_body e cl dv cid rec act aid) w1 = (Some err, w')"
      using assms g by (auto simp: Rollback_def)
    then show ?thesis
    proof (cases rule: guarded_operation_cases)
      case (refused oe evs g)
      have "self_updating (wd_guard w1)" if "oe = MaintenanceInProgressError"
        using beginOperation_maintenance refused(3) that by blast
      then show ?thesis using refused(1,2) w1
        by (auto simp: maintenance_error_def IsMaintenanceError_def split: operation_error.splits)
    next
      case (ran g g' v)
      have "wd_watches v = wd_watches w1 \<and> \<not> (\<exists>x. err = Refused x)"
        using ran(1) unfolding rollback_body_def
        by (auto split: prod.splits sum.splits if_splits elim!: run_inspect_cases dest!: rollback_from_failed settle_watches)
      then show ?thesis using ran(2) w1 by (auto simp: maintenance_error_def split: op_error.splits)
    qed
  qed
qed

lemma reliable_logged: "reliable e \<Longrightarrow> reliable (logged e)"
  by (simp add: reliable_def logged_def silent_def)

lemma rollback_failed_effect:
  assumes "reliable e"
  shows "wd_watches (rollback_failed e n w) = CompleteRollbackWatch n ''rollback_failed'' (wd_watches w)
    \<and> (\<exists>ev \<in> set (wd_events (rollback_failed e n w)). ev_type ev = ''crashloop.rollback_failed'' \<and> ev_container ev = n)"
proof -
  let ?f = "\<lambda>w. ((), w\<lparr>wd_watches := CompleteRollbackWatch n ''rollback_failed'' (wd_watches w)\<rparr>)"
  obtain d where "sql e ?f w = (Inr (fst (?f (w\<lparr>wd_env := d\<rparr>))), snd (?f (w\<lparr>wd_env := d\<rparr>)))"
    by (rule sql_reliable[OF assms])
  then show ?thesis by (simp add: rollback_failed_def emit_def event_of_def)
qed

lemma db_GetContainerByName_cases:
  assumes "db_GetContainerByName e name w = (r, w')"
  obtains ok d where "en_sql e (wd_env w) = (ok, d)" "w' = w\<lparr>wd_env := d\<rparr>"
    "\<And>rec. r = Inr rec \<Longrightarrow> GetContainerByName name (wd_containers w) = Inr rec"
  using assms by (auto simp: db_GetContainerByName_def sql_def split: prod.splits bool.splits sum.splits)

lemma db_GetContainerByName_logged:
  "db_GetContainerByName (logged e) name w = (r, w') \<Longrightarrow> added (wd_env w) [] (wd_env w')"
  by (auto elim!: db_GetContainerByName_cases dest: logged_silent(5))

lemma GetContainerByName_row:
  assumes "GetContainerByName n tbl = Inr rec" "keys_distinct c_id tbl"
  shows "rec \<in> set tbl \<and> c_name rec = n \<and> GetContainer (c_id rec) tbl = Inr rec"
proof -
  obtain c where c: "get_row c_name n tbl = Some c" "GetContainer (c_id c) tbl = Inr rec"
    using assms(1) by (auto simp: GetContainerByName_def split: option.splits)
  then have "c \<in> set tbl" "c_name c = n" by (auto dest: get_row_SomeD)
  moreover from this have "get_row c_id (c_id c) tbl = Some c" using get_row_mem[OF assms(2)] by blast
  ultimately show ?thesis using c(2) by (auto simp: GetContainer_def)
qed

lemma recoverTriggered_starts:
  assumes "reliable e" "watch_of n (wd_watches (mo_world m)) = Some wt" "w_status wt = ''triggered''"
  shows "0 < started_for n (recoverTriggered e m)"
proof -
  let ?f = "\<lambda>w. (ListTriggeredRollbackWatches (wd_watches w), w)"
  obtain d where "sql e ?f (mo_world m) = (Inr (fst (?f ((mo_world m)\<lparr>wd_env := d\<rparr>))), snd (?f ((mo_world m)\<lparr>wd_env := d\<rparr>)))"
    by (rule sql_reliable[OF assms(1)])
  then have "set (ListTriggeredRollbackWatches (wd_watches (mo_world m))) \<subseteq> set (mo_started (recoverTriggered e m))"
    by (auto simp: recoverTriggered_def)
  moreover have "wt \<in> set (ListTriggeredRollbackWatches (wd_watches (mo_world m)))" "w_container_name wt = n"
    using assms(2,3) by (auto simp: ListTriggeredRollbackWatches_def listRollbackWatches_def dest: get_row_SomeD)
  ultimately have "wt \<in> set (filter (\<lambda>g. w_container_name g = n) (mo_started (recoverTriggered e m)))" by auto
  then show ?thesis by (metis length_pos_if_in_set)
qed

text \<open>Docker and the store know a container under the same name.\<close>
definition names_agree :: "'d engine \<Rightarrow> container_table \<Rightarrow> bool" where
  "names_agree e tbl \<longleftrightarrow> (\<forall>row \<in> set tbl. \<forall>d i d'. en_inspect e (c_id row) d = (Inr i, d') \<longrightarrow> trimSlash (in_name i) = c_name row)"

text \<open>C5: A triggered rollback always comes to an end that can be told from the store: the calls made
  of the engine are exactly those of a recreation on the recorded previous image, which started the
  container and saw it healthy when it ran before and otherwise left it created, and the watch says
  \<^verbatim>\<open>automatic_rollback\<close> in both cases; or the watch and an error event say that the rollback failed; or
  a self-update of the daemon postponed it, or a panic of the rollback ended the daemon, and in both
  cases the watch is untouched and the next daemon starts the rollback again.\<close>

theorem automatic_rollback_settles:
  assumes "reliable e" "keys_distinct c_id (wd_containers w)" "\<forall>row \<in> set (wd_containers w). c_id row \<noteq> ''''"
    and "names_agree e (wd_containers w)" "watch_of n (wd_watches w) = Some wt" "w_status wt = ''triggered''" "w_container_name g = n"
    and "monitor_rollback (logged e) cl dv g w = w'"
  shows "\<exists>wt'. watch_of n (wd_watches w') = Some wt'
    \<and> (w_status wt' = ''automatic_rollback''
         \<and> (\<exists>rec new. GetContainerByName n (wd_containers w) = Inr rec \<and> added (wd_env w) new (wd_env w')
              \<and> rollback_done e (c_id rec) rec ActorSystem w new w')
       \<or> w_status wt' = ''rollback_failed''
         \<and> (\<exists>ev \<in> set (wd_events w'). ev_type ev = ''crashloop.rollback_failed'' \<and> ev_container ev = n)
       \<or> (self_updating (wd_guard w)
            \<or> (\<exists>rec new. GetContainerByName n (wd_containers w) = Inr rec \<and> added (wd_env w) new (wd_env w')
                 \<and> failure_outcome e ''rollback.auto'' (c_id rec) w Panicked new w'))
         \<and> wt' = wt \<and> (\<forall>m. wd_watches (mo_world m) = wd_watches w' \<longrightarrow> 0 < started_for n (recoverTriggered e m)))"
proof -
  have rl: "reliable (logged e)" by (rule reliable_logged[OF assms(1)])
  have failed: ?thesis if v: "wd_watches v = wd_watches w" "w' = rollback_failed (logged e) n v" for v
    using rollback_failed_effect[OF rl, of n v] v assms(5) by (simp add: row_simps)
  obtain got w1 where g: "db_GetContainerByName (logged e) n w = (got, w1)" by (rule prod.exhaust)
  then have w1: "wd_watches w1 = wd_watches w" "wd_containers w1 = wd_containers w" "wd_guard w1 = wd_guard w"
    "\<And>rec. got = Inr rec \<Longrightarrow> GetContainerByName n (wd_containers w) = Inr rec"
    by (auto elim!: db_GetContainerByName_cases)
  have quiet: "added (wd_env w) new (wd_env w2)" if "added (wd_env w1) new (wd_env w2)" for new w2
    using added_trans[OF db_GetContainerByName_logged[OF g] that] by simp
  show ?thesis
  proof (cases got)
    case (Inl err)
    then show ?thesis using failed[OF w1(1)] assms(7,8) g by (simp add: monitor_rollback_def)
  next
    case (Inr rec)
    note rec = w1(4)[OF Inr]
    obtain r w2 where r: "Rollback (logged e) cl dv (c_id rec) ActorSystem ''crashloop'' w1 = (r, w2)" by (rule prod.exhaust)
    note row = GetContainerByName_row[OF rec assms(2)]
    have id: "c_id rec \<noteq> ''''" using row assms(3) by auto
    show ?thesis
    proof (cases r)
      case (Some err)
      have again: "0 < started_for n (recoverTriggered e m)" if m: "wd_watches (mo_world m) = wd_watches w" for m :: "'a monitor"
        using recoverTriggered_starts[OF assms(1), of n m wt] m assms(5,6) by simp
      consider (other) "\<not> maintenance_error err" "err \<noteq> Panicked" | (maintenance) "maintenance_error err"
        | (panicked) "err = Panicked" by blast
      then show ?thesis
      proof cases
        case other
        then have "w' = rollback_failed (logged e) n w2" using assms(7,8) g r Inr Some by (simp add: monitor_rollback_def)
        then show ?thesis using failed[of w2] Rollback_failed[OF r[unfolded Some]] w1(1) by simp
      next
        case maintenance
        then have w': "w' = w2" "wd_watches w2 = wd_watches w" "self_updating (wd_guard w)"
          using assms(7,8) g r Inr Some Rollback_failed[OF r[unfolded Some]] w1 by (simp_all add: monitor_rollback_def)
        then show ?thesis using again assms(5) by auto
      next
        case panicked
        then have w': "w' = w2" "wd_watches w2 = wd_watches w"
          using assms(7,8) g r Inr Some Rollback_failed[OF r[unfolded Some]] w1 by (simp_all add: monitor_rollback_def)
        from Rollback_outcome[OF r _ id] Some panicked w1(2) assms(2) obtain new where
          a: "added (wd_env w1) new (wd_env w2)"
            "failure_outcome e (rollback_type ActorSystem) (c_id rec) w1 Panicked new w2" by auto
        then have "failure_outcome e ''rollback.auto'' (c_id rec) w Panicked new w'"
          using failure_outcome_cong[of w1 w w2 w'] w1 w'(1) by (simp add: rollback_type_def)
        then show ?thesis using again w' assms(5) rec quiet[OF a(1)] by auto
      qed
    next
      case None
      then have w': "w' = w2" using assms(7,8) g r Inr by (simp add: monitor_rollback_def)
      from Rollback_outcome[OF r _ id] None w1(2) assms(2) obtain new rec' where
        o: "GetContainer (c_id rec) (wd_containers w) = Inr rec'" "rollback_done e (c_id rec) rec' ActorSystem w1 new w2"
          "added (wd_env w1) new (wd_env w2)" by auto
      have eq: "rec' = rec" using row o(1) by simp
      have dn: "rollback_done e (c_id rec) rec ActorSystem w new w'"
        using o(2) w1(1) unfolding eq w' rollback_done_def by simp
      then obtain before d d' and new_row :: ContainerRecord where b: "en_inspect e (c_id rec) d = (Inr before, d')" "c_name new_row = trimSlash (in_name before)"
        "wd_watches w' = CompleteRollbackWatch (c_name new_row) ''automatic_rollback'' (wd_watches w)"
        unfolding rollback_done_def if_True simp_thms by blast
      have "c_name new_row = n" using assms(4) row b(1,2) by (auto simp: names_agree_def)
      moreover have "added (wd_env w) new (wd_env w')" using quiet[OF o(3)] w' by simp
      ultimately show ?thesis using b(3) assms(5) rec dn by (auto simp: row_simps)
    qed
  qed
qed

section \<open>Clean exits\<close>

lemma clean_no_reports: "\<forall>ev \<in> set evs. Atoi (ce_exit_code ev) = Some 0 \<Longrightarrow> crash_reports n evs = []"
  by (auto simp: crash_reports_def is_crash_def filter_empty_conv)

text \<open>The event handler does not count exits with code 0, but the next reconciliation does: a
  container that its restart policy restarts after clean exits reaches the threshold through the
  restart counter, and a rollback is started although no crash was seen.\<close>

theorem clean_exits_start_rollback:
  assumes "reliable e" "watch_of n (wd_watches (mo_world m)) = Some w" "open_watch w"
    and "\<forall>ev \<in> set evs. Atoi (ce_exit_code ev) = Some 0"
    and "\<forall>d. \<exists>d'. en_inspect e (w_container_id w) d = (Inr info, d')"
    and "in_restart_count info = w_observed_restart_count w + int k" "w_threshold w \<le> w_crash_count w + int k"
    and "t < w_window_expires_at w" "w_last_event_nano w < t"
  shows "let m1 = fold (handleEvent e) evs m
    in watch_of n (wd_watches (mo_world m1)) = Some w \<and> started_for n m1 = started_for n m
       \<and> started_for n (reconcile_watch e t w m1) = started_for n m + 1"
proof -
  let ?m1 = "fold (handleEvent e) evs m"
  have m1: "watch_of n (wd_watches (mo_world ?m1)) = Some w" "started_for n ?m1 = started_for n m"
    using handle_all[OF assms(1), of n evs m] clean_no_reports[OF assms(4)] assms(2) by simp_all
  have n: "w_container_name w = n" using assms(2) by (rule get_row_key)
  obtain d where d: "en_inspect e (w_container_id w) (wd_env (mo_world ?m1)) = (Inr info, d)"
    using assms(5) by blast
  from reconcile_watch_counts[OF assms(1) m1(1) assms(3) n d assms(8,9)] assms(6,7) m1
  show ?thesis by (auto simp: Let_def)
qed

text \<open>The pause between two connections to the event stream stays below 32 seconds.\<close>

lemma backoff_bounded: "nanos \<le> (next_backoff ^^ k) nanos \<and> (next_backoff ^^ k) nanos \<le> 32 * nanos"
proof -
  have "(next_backoff ^^ k) nanos \<in> {nanos, 2 * nanos, 4 * nanos, 8 * nanos, 16 * nanos, 32 * nanos}"
    by (induction k) (auto simp: next_backoff_def nanos_def)
  then show ?thesis by (auto simp: nanos_def)
qed

section \<open>Runs on a concrete host\<close>

definition watched_monitor :: "string list \<Rightarrow> host logging monitor" where
  "watched_monitor faults = \<lparr>mo_world = (web_world faults)\<lparr>wd_watches := ArmRollbackWatch ''web'' ''c1'' 0 (600 * nanos) 3 0 []\<rparr>,
     mo_started = []\<rparr>"

definition die_event :: "string \<Rightarrow> string \<Rightarrow> int \<Rightarrow> container_event" where
  "die_event name code t = \<lparr>ce_container_id = ''c1'', ce_name = name, ce_action = ''die'', ce_exit_code = code,
     ce_time = t, ce_time_nano = t\<rparr>"

definition crash_run :: "container_event list" where
  "crash_run = [die_event ''web'' ''1'' 5, die_event ''web'' ''0'' 6, die_event ''db'' ''1'' 7, die_event ''web'' ''137'' 8,
     die_event ''web'' ''137'' 8, die_event ''web'' '''' 9, die_event ''web'' ''1'' 12]"

abbreviation web_watch :: RollbackWatch where
  "web_watch \<equiv> \<lparr>w_container_name = ''web'', w_container_id = ''c1'', w_update_applied_at = 0, w_window_expires_at = 600 * nanos,
     w_crash_count = 0, w_threshold = 3, w_observed_restart_count = 0, w_last_event_nano = 0, w_last_crash_at = None,
     w_triggered_at = None, w_status = ''active''\<rparr>"

lemma host_reliable: "reliable (logged host_engine)" "reliable host_engine"
  by (simp_all add: reliable_def logged_def silent_def host_engine_def)

lemma watched: "watch_of ''web'' (wd_watches (mo_world (watched_monitor faults))) = Some web_watch"
  by (simp add: watched_monitor_def row_simps)

theorem crash_loop_starts_one_rollback_witness:
  "started_for ''web'' (fold (handleEvent (logged host_engine)) crash_run (watched_monitor [])) = 1"
proof -
  have o: "open_watch web_watch" "started_for ''web'' (watched_monitor []) = 0"
    by (simp_all add: open_watch_def watched_monitor_def)
  have "length (accepted ''c1'' (600 * nanos) 0 (crash_reports ''web'' crash_run)) = 4" by code_simp
  then show ?thesis
    using crash_loop_starts_one_rollback[OF host_reliable(1) watched o, of crash_run]
    unfolding Let_def by (elim exE conjE) simp
qed

definition triggered_world :: "host logging world" where
  "triggered_world = (web_world [])\<lparr>wd_watches := [web_watch\<lparr>w_status := ''triggered''\<rparr>]\<rparr>"

text \<open>A host whose only container keeps its name.\<close>
definition web_engine :: "host engine" where
  "web_engine = host_engine\<lparr>en_inspect := (\<lambda>i h. (case map_of (ho_items h) i of
     None \<Rightarrow> Inl ''no such container''
   | Some (n, img, r) \<Rightarrow> Inr (host_info i (''web'', img, r)), h))\<rparr>"

definition settled_world :: "host logging world" where
  "settled_world = monitor_rollback (logged (web_engine)) plain_client sha_valid web_watch triggered_world"

theorem automatic_rollback_settles_witness:
  "\<exists>wt. watch_of ''web'' (wd_watches settled_world) = Some wt \<and> w_status wt = ''automatic_rollback''
     \<and> (\<exists>rec new. added (wd_env triggered_world) new (wd_env settled_world)
          \<and> rollback_done (web_engine) (c_id rec) rec ActorSystem triggered_world new settled_world)"
proof -
  have rel: "reliable (web_engine)" by (simp add: reliable_def web_engine_def host_engine_def)
  have tbl: "keys_distinct c_id (wd_containers triggered_world)" "\<forall>row \<in> set (wd_containers triggered_world). c_id row \<noteq> ''''"
    "names_agree (web_engine) (wd_containers triggered_world)"
    by (auto simp: triggered_world_def web_world_def keys_distinct_def container_record_def names_agree_def
        web_engine_def host_info_def trimSlash_def trim_prefix_def has_prefix_def split: option.splits)
  have wt: "watch_of ''web'' (wd_watches triggered_world) = Some (web_watch\<lparr>w_status := ''triggered''\<rparr>)"
    "w_status (web_watch\<lparr>w_status := ''triggered''\<rparr>) = ''triggered''" "w_container_name web_watch = ''web''"
    by (simp_all add: triggered_world_def row_simps)
  have "map_option w_status (watch_of ''web'' (wd_watches settled_world)) = Some ''automatic_rollback''" by code_simp
  then show ?thesis
    using automatic_rollback_settles[OF rel tbl wt settled_world_def[symmetric]] by force
qed

text \<open>One on which the container has been restarted three times.\<close>
definition always_web :: "host logging engine" where
  "always_web = logged (host_engine\<lparr>en_inspect := (\<lambda>i h.
     (Inr ((host_info i (''web'', ''web:2'', True))\<lparr>in_restart_count := 3\<rparr>), h))\<rparr>)"

theorem clean_exits_start_rollback_witness:
  "started_for ''web'' (reconcile_watch always_web 20 web_watch
     (fold (handleEvent always_web) [die_event ''web'' ''0'' 5, die_event ''web'' ''0'' 6, die_event ''web'' ''0'' 7] (watched_monitor []))) = 1"
proof -
  let ?evs = "[die_event ''web'' ''0'' 5, die_event ''web'' ''0'' 6, die_event ''web'' ''0'' 7]"
  let ?info = "(host_info ''c1'' (''web'', ''web:2'', True))\<lparr>in_restart_count := 3\<rparr>"
  have o: "open_watch web_watch" "\<forall>ev \<in> set ?evs. Atoi (ce_exit_code ev) = Some 0"
    by (simp_all add: open_watch_def die_event_def) code_simp
  have i: "\<forall>d. \<exists>d'. en_inspect always_web (w_container_id web_watch) d = (Inr ?info, d')"
    by (simp add: always_web_def logged_def silent_def)
  have k: "in_restart_count ?info = w_observed_restart_count web_watch + int 3" "w_threshold web_watch \<le> w_crash_count web_watch + int 3"
    "20 < w_window_expires_at web_watch" "w_last_event_nano web_watch < 20"
    by (simp_all add: nanos_def)
  have rel: "reliable always_web" by (simp add: reliable_def always_web_def logged_def silent_def host_engine_def)
  from clean_exits_start_rollback[OF rel watched o i k] show ?thesis by (simp add: Let_def watched_monitor_def)
qed

end
