(* ===== verification/Scheduler.thy ===== *)
theory Scheduler
  imports Schedules Monitor
begin

text \<open>
  \<^verbatim>\<open>internal/scheduler/scheduler.go\<close>: one-off, cron and relative schedules. The updater is the
  parameter \<^verbatim>\<open>upd\<close>, which the scheduler uses as \<^verbatim>\<open>Updater.Update\<close>, and stands for calls that return: a
  panic inside an update ends the daemon before the schedule is marked as run, so a pass in which
  one occurs is outside the model, and the next daemon takes the schedule up again. The cron library is the
  parameter \<^verbatim>\<open>next_cron\<close>. The state keeps a list of the updates asked for, with the time
  of the request and whether maintenance refused it, to state what the scheduler does.
\<close>

section \<open>Durations\<close>

definition max_duration :: int where "max_duration = 2 ^ 63"

definition duration_unit :: "string \<Rightarrow> int option" where
  "duration_unit u = map_of [(''ns'', 1), (''us'', 1000), ([CHR 0xC2, CHR 0xB5, CHR ''s''], 1000), ([CHR 0xCE, CHR 0xBC, CHR ''s''], 1000),
     (''ms'', 1000000), (''s'', nanos), (''m'', 60 * nanos), (''h'', 3600 * nanos)] u"

text \<open>The digits after a point: value and scale; digits beyond 63 bits are dropped.\<close>
definition fraction :: "string \<Rightarrow> int \<times> int" where
  "fraction ds = fold (\<lambda>c (f, scale). let f' = f * 10 + digit_val c in
     if f > (2 ^ 63 - 1) div 10 \<or> f' > 2 ^ 63 then (f, scale) else (f', scale * 10)) ds (0, 1)"

text \<open>\<^verbatim>\<open>time.ParseDuration\<close> after the sign; a fraction is rounded down exactly, where the library
  computes with floating point. Each turn takes at least one character.\<close>
fun duration_parts :: "nat \<Rightarrow> string \<Rightarrow> int \<Rightarrow> int option" where
  "duration_parts 0 s d = None"
| "duration_parts (Suc n) s d =
    (if s = '''' then Some d
     else let ds = takeWhile is_digit s; s1 = dropWhile is_digit s;
              (fs, s2) = (case s1 of c # r \<Rightarrow> if c = CHR ''.'' then (Some (takeWhile is_digit r), dropWhile is_digit r) else (None, s1) | [] \<Rightarrow> (None, s1));
              u = takeWhile (\<lambda>c. c \<noteq> CHR ''.'' \<and> \<not> is_digit c) s2; s3 = dropWhile (\<lambda>c. c \<noteq> CHR ''.'' \<and> \<not> is_digit c) s2;
              v = digits_val ds
          in if ds = '''' \<and> (fs = None \<or> fs = Some '''') \<or> v > max_duration then None
             else case duration_unit u of
               None \<Rightarrow> None
             | Some unit \<Rightarrow>
                 if v > max_duration div unit then None
                 else let extra = (case fs of None \<Rightarrow> 0 | Some ds' \<Rightarrow> (case fraction ds' of (f, scale) \<Rightarrow> f * unit div scale));
                          v' = v * unit + extra
                      in if v' > max_duration \<or> d + v' > max_duration then None else duration_parts n s3 (d + v'))"

definition ParseDuration :: "string \<Rightarrow> int option" where
  "ParseDuration s =
    (let (neg, body) = (case s of c # r \<Rightarrow> if c = CHR ''-'' then (True, r) else if c = CHR ''+'' then (False, r) else (False, s) | [] \<Rightarrow> (False, s))
     in if body = ''0'' then Some 0
        else if body = '''' then None
        else case duration_parts (Suc (length body)) body 0 of
          None \<Rightarrow> None
        | Some d \<Rightarrow> if neg then Some (- d) else if d > 2 ^ 63 - 1 then None else Some d)"

section \<open>State\<close>

record update_request =
  rq_schedule :: int
  rq_container :: string
  rq_image :: string
  rq_at :: time
  rq_refused :: bool  \<comment> \<open>by maintenance, before anything was done\<close>

record 'd sched_world =
  sw_world :: "'d world"
  sw_schedules :: schedule_table
  sw_candidates :: candidate_table
  sw_requests :: "update_request list"

type_synonym 'd updater = "string \<Rightarrow> string \<Rightarrow> actor \<Rightarrow> string \<Rightarrow> 'd world \<Rightarrow> op_error option \<times> 'd world"

definition DefaultCheckInterval :: int where "DefaultCheckInterval = 30 * 60 * nanos"

definition s_now :: "'d engine \<Rightarrow> 'd sched_world \<Rightarrow> time" where
  "s_now e s = now e (sw_world s)"

definition s_emit :: "event \<Rightarrow> 'd sched_world \<Rightarrow> 'd sched_world" where
  "s_emit ev s = s\<lparr>sw_world := emit ev (sw_world s)\<rparr>"

definition on_world :: "('d world \<Rightarrow> 'a \<times> 'd world) \<Rightarrow> 'd sched_world \<Rightarrow> 'a \<times> 'd sched_world" where
  "on_world f s = (case f (sw_world s) of (a, w) \<Rightarrow> (a, s\<lparr>sw_world := w\<rparr>))"

text \<open>A statement on the tables of the scheduler.\<close>
definition s_sql :: "'d engine \<Rightarrow> ('d sched_world \<Rightarrow> 'a \<times> 'd sched_world) \<Rightarrow> 'd sched_world \<Rightarrow> 'a option \<times> 'd sched_world" where
  "s_sql e f s =
    (case sql e (\<lambda>w. ((), w)) (sw_world s) of
       (Inl _, w) \<Rightarrow> (None, s\<lparr>sw_world := w\<rparr>)
     | (Inr _, w) \<Rightarrow> (case f (s\<lparr>sw_world := w\<rparr>) of (a, s') \<Rightarrow> (Some a, s')))"

definition list_failed :: event where
  "list_failed = event_of LevelError ''schedule.list_failed'' '''' ActorSystem '''' []"

definition actor_of :: "Schedule \<Rightarrow> string" where
  "actor_of sc = ''schedule:'' @ Itoa (sc_id sc)"

definition request_update :: "'d engine \<Rightarrow> 'd updater \<Rightarrow> Schedule \<Rightarrow> string \<Rightarrow> string \<Rightarrow> 'd sched_world \<Rightarrow> op_error option \<times> 'd sched_world" where
  "request_update e upd sc cid img s =
    (case on_world (upd cid img ActorSchedule (actor_of sc)) s of
       (r, s1) \<Rightarrow>
         (r, s1\<lparr>sw_requests := sw_requests s1 @ [\<lparr>rq_schedule = sc_id sc, rq_container = cid, rq_image = img, rq_at = s_now e s,
           rq_refused = (case r of None \<Rightarrow> False | Some err \<Rightarrow> maintenance_error err)\<rparr>]\<rparr>))"

section \<open>Execution\<close>

definition logExecuted :: "Schedule \<Rightarrow> bool \<Rightarrow> 'd sched_world \<Rightarrow> 'd sched_world" where
  "logExecuted sc failed s =
    (let s1 = s_emit ((event_of (if failed then LevelError else LevelInfo) ''schedule.executed'' (sc_container sc) ActorSchedule (Itoa (sc_id sc))
           [(''kind'', AStr (sc_kind sc)), (''semver_policy'', AStr (sc_semver sc))])\<lparr>ev_stack := sc_stack sc\<rparr>) s
     in if sc_kind sc \<noteq> ''once'' \<and> sc_notify sc
        then s1\<lparr>sw_world := notify ''schedule.executed'' (sc_container sc) (sc_stack sc) (sw_world s1)\<rparr> else s1)"

definition mark_run :: "'d engine \<Rightarrow> int \<Rightarrow> time option \<Rightarrow> 'd sched_world \<Rightarrow> unit option \<times> 'd sched_world" where
  "mark_run e i nextRun s =
    s_sql e (\<lambda>s'. ((), s'\<lparr>sw_schedules := MarkScheduleRun (s_now e s) i nextRun (sw_schedules s')\<rparr>)) s"

definition executeOnce :: "'d engine \<Rightarrow> 'd updater \<Rightarrow> Schedule \<Rightarrow> 'd sched_world \<Rightarrow> 'd sched_world" where
  "executeOnce e upd sc s =
    (case on_world (db_GetContainerByName e (sc_container sc)) s of
       (Inl _, s1) \<Rightarrow> snd (mark_run e (sc_id sc) None (logExecuted sc True s1))
     | (Inr rec, s1) \<Rightarrow>
         (case request_update e upd sc (c_id rec) (if sc_pinned sc = '''' then c_current_image rec else sc_pinned sc) s1 of
            (r, s2) \<Rightarrow>
              if r \<noteq> None \<and> maintenance_error (the r) then s2
              else snd (mark_run e (sc_id sc) None (logExecuted sc (r \<noteq> None) s2))))"

definition resolveTargets :: "'d engine \<Rightarrow> Schedule \<Rightarrow> 'd sched_world \<Rightarrow> ContainerRecord list option \<times> 'd sched_world" where
  "resolveTargets e sc s =
    (if sc_container sc \<noteq> '''' then
       (case on_world (db_GetContainerByName e (sc_container sc)) s of
          (Inl _, s1) \<Rightarrow> (None, s1) | (Inr rec, s1) \<Rightarrow> (Some [rec], s1))
     else case s_sql e (\<lambda>s. (ListContainers (wd_containers (sw_world s)), s)) s of
       (None, s1) \<Rightarrow> (None, s1)
     | (Some all, s1) \<Rightarrow> (Some (filter (\<lambda>rec. c_stack rec = sc_stack sc) all), s1))"

definition scope_of :: "Schedule \<Rightarrow> string" where
  "scope_of sc = (if sc_semver sc = '''' then ''major'' else sc_semver sc)"

definition candidate_for :: "'d engine \<Rightarrow> Schedule \<Rightarrow> ContainerRecord \<Rightarrow> 'd sched_world \<Rightarrow> UpdateCandidate option \<times> 'd sched_world" where
  "candidate_for e sc rec s =
    (case s_sql e (\<lambda>s. (GetUpdateCandidate (c_id rec) (scope_of sc) (sw_candidates s), s)) s of
       (None, s1) \<Rightarrow> (None, s1) | (Some c, s1) \<Rightarrow> (c, s1))"

text \<open>The loop over the targets: how many updates were attempted, and whether maintenance stopped it.\<close>
fun apply_loop :: "'d engine \<Rightarrow> 'd updater \<Rightarrow> Schedule \<Rightarrow> int \<Rightarrow> ContainerRecord list \<Rightarrow> nat \<Rightarrow> 'd sched_world \<Rightarrow> (nat \<times> bool) \<times> 'd sched_world" where
  "apply_loop e upd sc delay [] applied s = ((applied, False), s)"
| "apply_loop e upd sc delay (rec # recs) applied s =
    (if \<not> c_update_available rec \<or> c_excluded rec then apply_loop e upd sc delay recs applied s
     else case candidate_for e sc rec s of
       (None, s1) \<Rightarrow> apply_loop e upd sc delay recs applied s1
     | (Some cand, s1) \<Rightarrow>
         if delay > 0 \<and> s_now e s1 < uc_detected cand + delay then apply_loop e upd sc delay recs applied s1
         else (case request_update e upd sc (c_id rec) (uc_image cand) s1 of
            (Some err, s2) \<Rightarrow>
              if maintenance_error err then ((applied, True), s2)
              else apply_loop e upd sc delay recs (Suc applied) (logExecuted sc True s2)
          | (None, s2) \<Rightarrow>
              apply_loop e upd sc delay recs (Suc applied)
                (snd (s_sql e (\<lambda>s. ((), s\<lparr>sw_candidates := ClearUpdateCandidates (c_id rec) (sw_candidates s)\<rparr>)) (logExecuted sc False s2)))))"

definition applyToTargets :: "'d engine \<Rightarrow> 'd updater \<Rightarrow> Schedule \<Rightarrow> int \<Rightarrow> 'd sched_world \<Rightarrow> (nat \<times> bool) \<times> 'd sched_world" where
  "applyToTargets e upd sc delay s =
    (case resolveTargets e sc s of
       (None, s1) \<Rightarrow> ((0, False), s_emit list_failed s1)
     | (Some recs, s1) \<Rightarrow> apply_loop e upd sc delay recs 0 s1)"

definition executeCron :: "'d engine \<Rightarrow> 'd updater \<Rightarrow> (string \<Rightarrow> time \<Rightarrow> time option) \<Rightarrow> Schedule \<Rightarrow> 'd sched_world \<Rightarrow> 'd sched_world" where
  "executeCron e upd next_cron sc s =
    (case applyToTargets e upd sc 0 s of
       ((_, True), s1) \<Rightarrow> s1
     | ((_, False), s1) \<Rightarrow>
         (case mark_run e (sc_id sc) (next_cron (sc_cron sc) (s_now e s1)) s1 of
            (None, s2) \<Rightarrow> s_emit (event_of LevelError ''schedule.update_failed'' '''' ActorSystem '''' []) s2
          | (Some _, s2) \<Rightarrow> s2))"

definition execute_due :: "'d engine \<Rightarrow> 'd updater \<Rightarrow> (string \<Rightarrow> time \<Rightarrow> time option) \<Rightarrow> Schedule \<Rightarrow> 'd sched_world \<Rightarrow> 'd sched_world" where
  "execute_due e upd next_cron sc s =
    (if sc_kind sc = ''once'' then executeOnce e upd sc s
     else if sc_kind sc = ''cron'' then executeCron e upd next_cron sc s else s)"

definition runDueSchedules :: "'d engine \<Rightarrow> 'd updater \<Rightarrow> (string \<Rightarrow> time \<Rightarrow> time option) \<Rightarrow> 'd sched_world \<Rightarrow> 'd sched_world" where
  "runDueSchedules e upd next_cron s =
    (if maintenance (wd_guard (sw_world s)) then s
     else case s_sql e (\<lambda>s'. (DueSchedules (s_now e s) (sw_schedules s'), s')) s of
       (None, s1) \<Rightarrow> s_emit list_failed s1
     | (Some due, s1) \<Rightarrow> fold (execute_due e upd next_cron) due s1)"

section \<open>Relative policies\<close>

definition relativeRetryReady :: "time option \<Rightarrow> int \<Rightarrow> time \<Rightarrow> bool" where
  "relativeRetryReady lastRun interval t = (case lastRun of None \<Rightarrow> True | Some l \<Rightarrow> \<not> t < l + interval)"

text \<open>A product of durations wraps around at 64 bits.\<close>
definition wrap64 :: "int \<Rightarrow> int" where
  "wrap64 x = (x + 2 ^ 63) mod 2 ^ 64 - 2 ^ 63"

definition currentCheckInterval :: "'d engine \<Rightarrow> int \<Rightarrow> 'd sched_world \<Rightarrow> int \<times> 'd sched_world" where
  "currentCheckInterval e checkInterval s =
    (case s_sql e (\<lambda>s. (GetCheckIntervalMinutes (wd_settings (sw_world s)), s)) s of
       (None, s1) \<Rightarrow> (checkInterval, s1)
     | (Some None, s1) \<Rightarrow> (checkInterval, s1)
     | (Some (Some minutes), s1) \<Rightarrow> (wrap64 (minutes * 60 * nanos), s1))"

fun relative_loop :: "'d engine \<Rightarrow> 'd updater \<Rightarrow> int \<Rightarrow> Schedule list \<Rightarrow> 'd sched_world \<Rightarrow> 'd sched_world" where
  "relative_loop e upd checkInterval [] s = s"
| "relative_loop e upd checkInterval (sc # scs) s =
    (if \<not> sc_enabled sc \<or> sc_kind sc \<noteq> ''relative'' then relative_loop e upd checkInterval scs s
     else case currentCheckInterval e checkInterval s of
       (interval, s1) \<Rightarrow>
         if \<not> relativeRetryReady (sc_last_run sc) interval (s_now e s1) then relative_loop e upd checkInterval scs s1
         else (case (if sc_policy sc = ''delayed'' then ParseDuration (sc_after sc) else Some 0) of
            None \<Rightarrow> relative_loop e upd checkInterval scs s1
          | Some delay \<Rightarrow>
              (case applyToTargets e upd sc delay s1 of
                 ((_, True), s2) \<Rightarrow> s2
               | ((applied, False), s2) \<Rightarrow>
                   relative_loop e upd checkInterval scs
                     (if applied > 0
                      then snd (s_sql e (\<lambda>s'. ((), s'\<lparr>sw_schedules := TouchScheduleLastRun (s_now e s2) (sc_id sc) (sw_schedules s')\<rparr>)) s2)
                      else s2))))"

definition runRelativePolicies :: "'d engine \<Rightarrow> 'd updater \<Rightarrow> int \<Rightarrow> 'd sched_world \<Rightarrow> 'd sched_world" where
  "runRelativePolicies e upd checkInterval s =
    (if maintenance (wd_guard (sw_world s)) then s
     else case s_sql e (\<lambda>s. (ListSchedules (sw_schedules s), s)) s of
       (None, s1) \<Rightarrow> s_emit list_failed s1
     | (Some scs, s1) \<Rightarrow> relative_loop e upd checkInterval scs s1)"

text \<open>A turn of \<^verbatim>\<open>Run\<close> on the due ticker, with the updater in place.\<close>
definition due_tick :: "'d engine \<Rightarrow> docker_client \<Rightarrow> (string \<Rightarrow> bool) \<Rightarrow> (string \<Rightarrow> time \<Rightarrow> time option) \<Rightarrow> int \<Rightarrow> 'd sched_world \<Rightarrow> 'd sched_world" where
  "due_tick e cl dv next_cron checkInterval s =
    runRelativePolicies e (Update e cl dv) checkInterval (runDueSchedules e (Update e cl dv) next_cron s)"

section \<open>What blocks a self-update\<close>

datatype blocker = PendingRollback string | DueAt int time | RelativeDue int string time

text \<open>The targets of one relative schedule; an error ends the search.\<close>
fun relative_blockers :: "'d engine \<Rightarrow> Schedule \<Rightarrow> time \<Rightarrow> time \<Rightarrow> ContainerRecord list \<Rightarrow> 'd sched_world \<Rightarrow> blocker list option \<times> 'd sched_world" where
  "relative_blockers e sc t horizon [] s = (Some [], s)"
| "relative_blockers e sc t horizon (rec # recs) s =
    (let go_on = (\<lambda>bs s. case relative_blockers e sc t horizon recs s of (None, s') \<Rightarrow> (None, s') | (Some bs', s') \<Rightarrow> (Some (bs @ bs'), s'));
         block = (\<lambda>due. if due \<le> horizon then [RelativeDue (sc_id sc) (c_name rec) due] else [])
     in if \<not> c_update_available rec \<or> c_excluded rec then go_on [] s
        else if sc_policy sc = ''delayed'' then
          (case ParseDuration (sc_after sc) of
             None \<Rightarrow> (None, s)
           | Some delay \<Rightarrow>
               (case candidate_for e sc rec s of
                  (None, s1) \<Rightarrow> go_on [] s1 | (Some cand, s1) \<Rightarrow> go_on (block (uc_detected cand + delay)) s1))
        else go_on (block t) s)"

fun schedule_blockers :: "'d engine \<Rightarrow> time \<Rightarrow> time \<Rightarrow> Schedule list \<Rightarrow> 'd sched_world \<Rightarrow> blocker list option \<times> 'd sched_world" where
  "schedule_blockers e t horizon [] s = (Some [], s)"
| "schedule_blockers e t horizon (sc # scs) s =
    (let go_on = (\<lambda>bs s. case schedule_blockers e t horizon scs s of (None, s') \<Rightarrow> (None, s') | (Some bs', s') \<Rightarrow> (Some (bs @ bs'), s'))
     in if \<not> sc_enabled sc then go_on [] s
        else if sc_next_run sc \<noteq> None \<and> the (sc_next_run sc) \<le> horizon then go_on [DueAt (sc_id sc) (the (sc_next_run sc))] s
        else if sc_kind sc \<noteq> ''relative'' then go_on [] s
        else (case resolveTargets e sc s of
                (None, s1) \<Rightarrow> (None, s1)
              | (Some recs, s1) \<Rightarrow>
                  (case relative_blockers e sc t horizon recs s1 of (None, s2) \<Rightarrow> (None, s2) | (Some bs, s2) \<Rightarrow> go_on bs s2)))"

definition SelfUpdateBlockers :: "'d engine \<Rightarrow> time \<Rightarrow> 'd sched_world \<Rightarrow> blocker list option \<times> 'd sched_world" where
  "SelfUpdateBlockers e horizon s =
    (case s_sql e (\<lambda>s. (ListTriggeredRollbackWatches (wd_watches (sw_world s)), s)) s of
       (None, s1) \<Rightarrow> (None, s1)
     | (Some triggered, s1) \<Rightarrow>
         if triggered \<noteq> [] then (Some (map (\<lambda>watch. PendingRollback (w_container_name watch)) triggered), s1)
         else (case s_sql e (\<lambda>s. (ListSchedules (sw_schedules s), s)) s1 of
            (None, s2) \<Rightarrow> (None, s2)
          | (Some scs, s2) \<Rightarrow> schedule_blockers e (s_now e s2) horizon scs s2))"

section \<open>What a schedule can touch\<close>

abbreviation schedule_of :: "int \<Rightarrow> 'd sched_world \<Rightarrow> Schedule option" where
  "schedule_of i s \<equiv> get_row sc_id i (st_rows (sw_schedules s))"

text \<open>Between two states only the schedules \<^term>\<open>J\<close> asked for updates and only their rows changed.\<close>
definition only_schedules :: "int set \<Rightarrow> 'd sched_world \<Rightarrow> 'd sched_world \<Rightarrow> bool" where
  "only_schedules J s s' \<longleftrightarrow>
    (\<exists>new. sw_requests s' = sw_requests s @ new \<and> (\<forall>q \<in> set new. rq_schedule q \<in> J))
    \<and> (\<forall>k. k \<notin> J \<longrightarrow> schedule_of k s' = schedule_of k s)
    \<and> map sc_id (st_rows (sw_schedules s')) = map sc_id (st_rows (sw_schedules s))
    \<and> st_seq (sw_schedules s') = st_seq (sw_schedules s)"

named_theorems touch \<open>what the parts of the scheduler touch\<close>

lemma only_schedules_refl [simp]: "only_schedules J s s"
  by (simp add: only_schedules_def)

lemma only_schedules_trans [trans]: "only_schedules J s s1 \<Longrightarrow> only_schedules J s1 s2 \<Longrightarrow> only_schedules J s s2"
  unfolding only_schedules_def by fastforce

lemma only_schedules_mono: "only_schedules J s s' \<Longrightarrow> J \<subseteq> K \<Longrightarrow> only_schedules K s s'"
  unfolding only_schedules_def by blast

lemma only_schedules_same: "sw_schedules s' = sw_schedules s \<Longrightarrow> sw_requests s' = sw_requests s \<Longrightarrow> only_schedules J s s'"
  by (simp add: only_schedules_def)

lemma s_emit_frame [simp]:
  "sw_schedules (s_emit ev s) = sw_schedules s" "sw_requests (s_emit ev s) = sw_requests s" "sw_candidates (s_emit ev s) = sw_candidates s"
  by (simp_all add: s_emit_def)

lemma on_world_frame:
  assumes "on_world f s = (a, s')"
  shows "sw_schedules s' = sw_schedules s" "sw_requests s' = sw_requests s" "sw_candidates s' = sw_candidates s"
  using assms by (auto simp: on_world_def split: prod.splits)

lemma logExecuted_frame [simp]:
  "sw_schedules (logExecuted sc b s) = sw_schedules s" "sw_requests (logExecuted sc b s) = sw_requests s"
  "sw_candidates (logExecuted sc b s) = sw_candidates s"
  by (simp_all add: logExecuted_def Let_def)

text \<open>A statement either fails or runs on the state, up to what the world below keeps.\<close>
lemma s_sql_cases:
  assumes "s_sql e f s = (r, s')"
  obtains (failed) w where "r = None" "s' = s\<lparr>sw_world := w\<rparr>"
  | (ok) d a where "r = Some a" "f (s\<lparr>sw_world := (sw_world s)\<lparr>wd_env := d\<rparr>\<rparr>) = (a, s')"
proof -
  obtain ok d where d: "en_sql e (wd_env (sw_world s)) = (ok, d)" by (rule prod.exhaust)
  show ?thesis
    using assms d failed ok[of _ d]
    by (cases ok; cases "f (s\<lparr>sw_world := (sw_world s)\<lparr>wd_env := d\<rparr>\<rparr>)") (auto simp: s_sql_def sql_def)
qed

lemma s_sql_read:
  assumes "s_sql e (\<lambda>s. (g s, s)) s = (r, s')"
  shows "sw_schedules s' = sw_schedules s" "sw_requests s' = sw_requests s" "sw_candidates s' = sw_candidates s"
  using assms by (cases rule: s_sql_cases; auto)+

lemma schedule_after_update:
  assumes "\<And>sc. sc_id (f sc) = sc_id sc"
  shows "get_row sc_id k (st_rows (update_schedule i f tbl)) = (if k = i then map_option f (get_row sc_id k (st_rows tbl)) else get_row sc_id k (st_rows tbl))"
    and "map sc_id (st_rows (update_schedule i f tbl)) = map sc_id (st_rows tbl)"
    and "st_seq (update_schedule i f tbl) = st_seq tbl"
proof -
  have "get_row sc_id k (update_where (\<lambda>sc. sc_id sc = i) f rows) = (if k = i then map_option f (get_row sc_id k rows) else get_row sc_id k rows)" for rows
    using assms by (induction rows) (auto simp: update_where_def get_row_Nil get_row_Cons)
  then show "get_row sc_id k (st_rows (update_schedule i f tbl)) = (if k = i then map_option f (get_row sc_id k (st_rows tbl)) else get_row sc_id k (st_rows tbl))"
    by (simp add: update_schedule_def)
  show "map sc_id (st_rows (update_schedule i f tbl)) = map sc_id (st_rows tbl)" using assms by (simp add: update_schedule_def)
  show "st_seq (update_schedule i f tbl) = st_seq tbl" by (simp add: update_schedule_def)
qed

lemma mark_run_touches [touch]: "mark_run e i nextRun s = (r, s') \<Longrightarrow> only_schedules {i} s s'"
  unfolding mark_run_def by (erule s_sql_cases) (auto simp: only_schedules_def MarkScheduleRun_def schedule_after_update)

lemma request_touches [touch]:
  assumes "request_update e upd sc cid img s = (r, s')"
  shows "only_schedules {sc_id sc} s s'" "sw_schedules s' = sw_schedules s" "sw_candidates s' = sw_candidates s"
    "sw_requests s' = sw_requests s @ [\<lparr>rq_schedule = sc_id sc, rq_container = cid, rq_image = img, rq_at = s_now e s,
       rq_refused = (case r of None \<Rightarrow> False | Some err \<Rightarrow> maintenance_error err)\<rparr>]"
proof -
  obtain a s1 where o: "on_world (upd cid img ActorSchedule (actor_of sc)) s = (a, s1)" by (rule prod.exhaust)
  show "sw_schedules s' = sw_schedules s" "sw_candidates s' = sw_candidates s"
    "sw_requests s' = sw_requests s @ [\<lparr>rq_schedule = sc_id sc, rq_container = cid, rq_image = img, rq_at = s_now e s,
       rq_refused = (case r of None \<Rightarrow> False | Some err \<Rightarrow> maintenance_error err)\<rparr>]"
    using assms o on_world_frame[OF o] by (auto simp: request_update_def)
  then show "only_schedules {sc_id sc} s s'" by (simp add: only_schedules_def)
qed

lemma resolveTargets_frame:
  assumes "resolveTargets e sc s = (r, s')"
  shows "sw_schedules s' = sw_schedules s" "sw_requests s' = sw_requests s" "sw_candidates s' = sw_candidates s"
proof -
  have "s' = snd (on_world (db_GetContainerByName e (sc_container sc)) s)
      \<or> s' = snd (s_sql e (\<lambda>s. (ListContainers (wd_containers (sw_world s)), s)) s)"
    using assms unfolding resolveTargets_def by (auto split: if_splits prod.splits sum.splits option.splits)
  then show "sw_schedules s' = sw_schedules s" "sw_requests s' = sw_requests s" "sw_candidates s' = sw_candidates s"
    by (elim disjE; simp add: on_world_frame[OF surjective_pairing] s_sql_read[OF surjective_pairing])+
qed

lemma candidate_for_cases:
  assumes "candidate_for e sc rec s = (c, s')"
  shows "sw_schedules s' = sw_schedules s \<and> sw_requests s' = sw_requests s \<and> sw_candidates s' = sw_candidates s
    \<and> (c = None \<or> c = GetUpdateCandidate (c_id rec) (scope_of sc) (sw_candidates s))"
proof -
  obtain a s1 where q: "s_sql e (\<lambda>s. (GetUpdateCandidate (c_id rec) (scope_of sc) (sw_candidates s), s)) s = (a, s1)" by (rule prod.exhaust)
  then have c: "(c, s') = (case a of None \<Rightarrow> (None, s1) | Some x \<Rightarrow> (x, s1))" using assms by (simp add: candidate_for_def split: option.splits)
  from q show ?thesis by (cases rule: s_sql_cases) (use c in auto)
qed

lemma cleared_candidate:
  "GetUpdateCandidate cid scope (ClearUpdateCandidates c tbl) = (if cid = c then None else GetUpdateCandidate cid scope tbl)"
  unfolding GetUpdateCandidate_def ClearUpdateCandidates_def uc_key_def[abs_def]
  by (induction tbl) (auto simp: row_simps delete_where_def)

text \<open>A request of schedule \<^term>\<open>sc\<close> that is justified by one of the containers \<^term>\<open>recs\<close>
  and by the candidates \<^term>\<open>cands\<close>.\<close>
definition justified :: "Schedule \<Rightarrow> int \<Rightarrow> ContainerRecord list \<Rightarrow> candidate_table \<Rightarrow> update_request \<Rightarrow> bool" where
  "justified sc delay recs cands q \<longleftrightarrow> rq_schedule q = sc_id sc
    \<and> (\<exists>rec \<in> set recs. \<exists>cand. c_id rec = rq_container q \<and> c_update_available rec \<and> \<not> c_excluded rec
        \<and> GetUpdateCandidate (c_id rec) (scope_of sc) cands = Some cand \<and> rq_image q = uc_image cand
        \<and> (0 < delay \<longrightarrow> uc_detected cand + delay \<le> rq_at q))"

lemma justified_weaken:
  assumes "justified sc delay recs cands q" "set recs \<subseteq> set recs'"
    and "\<And>cid scope c. GetUpdateCandidate cid scope cands = Some c \<Longrightarrow> GetUpdateCandidate cid scope cands' = Some c"
  shows "justified sc delay recs' cands' q"
  using assms unfolding justified_def by blast

lemma apply_loop_requests:
  assumes "apply_loop e upd sc delay recs n s = (r, s')"
  shows "sw_schedules s' = sw_schedules s
    \<and> (\<exists>new. sw_requests s' = sw_requests s @ new \<and> (\<forall>q \<in> set new. justified sc delay recs (sw_candidates s) q))"
  using assms
proof (induction recs arbitrary: n s)
  case (Cons rec recs)
  have more: "sw_schedules s' = sw_schedules s
      \<and> (\<exists>new. sw_requests s' = sw_requests s @ new \<and> (\<forall>q \<in> set new. justified sc delay (rec # recs) (sw_candidates s) q))"
    if t: "apply_loop e upd sc delay recs m t = (r, s')" "sw_schedules t = sw_schedules s" "sw_requests t = sw_requests s @ pre"
      "\<forall>q \<in> set pre. justified sc delay (rec # recs) (sw_candidates s) q"
      "\<And>cid scope c. GetUpdateCandidate cid scope (sw_candidates t) = Some c \<Longrightarrow> GetUpdateCandidate cid scope (sw_candidates s) = Some c"
    for m t pre
  proof -
    obtain new where "sw_schedules s' = sw_schedules t" "sw_requests s' = sw_requests t @ new" "\<forall>q \<in> set new. justified sc delay recs (sw_candidates t) q"
      using Cons.IH[OF t(1)] by blast
    then show ?thesis
      using t(2-4) justified_weaken[of sc delay recs "sw_candidates t" _ "rec # recs" "sw_candidates s", OF _ set_subset_Cons t(5)]
      by (auto intro!: exI[of _ "pre @ new"])
  qed
  show ?case
  proof (cases "\<not> c_update_available rec \<or> c_excluded rec")
    case True
    then show ?thesis using Cons.prems more[of n s "[]"] by simp
  next
    case free: False
    obtain c s1 where c: "candidate_for e sc rec s = (c, s1)" by (rule prod.exhaust)
    note cf = candidate_for_cases[OF c]
    show ?thesis
    proof (cases "c = None \<or> 0 < delay \<and> s_now e s1 < uc_detected (the c) + delay")
      case True
      then have "apply_loop e upd sc delay recs n s1 = (r, s')" using Cons.prems free c by (cases c) auto
      then show ?thesis using more[of n s1 "[]"] cf by simp
    next
      case False
      then obtain cand where cand: "c = Some cand" "0 < delay \<longrightarrow> uc_detected cand + delay \<le> s_now e s1" by fastforce
      obtain a s2 where u: "request_update e upd sc (c_id rec) (uc_image cand) s1 = (a, s2)" by (rule prod.exhaust)
      note ru = request_touches(2-4)[OF u]
      let ?q = "\<lparr>rq_schedule = sc_id sc, rq_container = c_id rec, rq_image = uc_image cand, rq_at = s_now e s1,
         rq_refused = (case a of None \<Rightarrow> False | Some err \<Rightarrow> maintenance_error err)\<rparr>"
      have j: "justified sc delay (rec # recs) (sw_candidates s) ?q"
      proof -
        have "GetUpdateCandidate (c_id rec) (scope_of sc) (sw_candidates s) = Some cand" using cand(1) cf by (elim conjE disjE) simp_all
        then show ?thesis using free cand(2) by (simp add: justified_def)
      qed
      let ?clear = "s_sql e (\<lambda>s. ((), s\<lparr>sw_candidates := ClearUpdateCandidates (c_id rec) (sw_candidates s)\<rparr>)) (logExecuted sc False s2)"
      have cl: "sw_schedules (snd ?clear) = sw_schedules s2 \<and> sw_requests (snd ?clear) = sw_requests s2
          \<and> (\<forall>cid scope c. GetUpdateCandidate cid scope (sw_candidates (snd ?clear)) = Some c \<longrightarrow> GetUpdateCandidate cid scope (sw_candidates s2) = Some c)"
      proof -
        obtain x y where xy: "?clear = (x, y)" by (rule prod.exhaust)
        then have "sw_schedules y = sw_schedules s2 \<and> sw_requests y = sw_requests s2
          \<and> (\<forall>cid scope c. GetUpdateCandidate cid scope (sw_candidates y) = Some c \<longrightarrow> GetUpdateCandidate cid scope (sw_candidates s2) = Some c)"
          by (cases rule: s_sql_cases) (auto simp: cleared_candidate split: if_splits)
        then show ?thesis unfolding xy by simp
      qed
      have body: "(case a of
           Some err \<Rightarrow> if maintenance_error err then ((n, True), s2) else apply_loop e upd sc delay recs (Suc n) (logExecuted sc True s2)
         | None \<Rightarrow> apply_loop e upd sc delay recs (Suc n) (snd ?clear)) = (r, s')"
        using Cons.prems free c cand u False by (auto split: option.splits)
      show ?thesis
      proof (cases a)
        case None
        then show ?thesis using body more[of "Suc n" "snd ?clear" "[?q]"] cl ru cf j by auto
      next
        case (Some err)
        then show ?thesis
          using body more[of "Suc n" "logExecuted sc True s2" "[?q]"] ru cf j by (auto split: if_splits)
      qed
    qed
  qed
qed simp

section \<open>Policies update only what they may\<close>

text \<open>The containers a schedule stands for: the one it names, or those of its stack.\<close>
definition in_target :: "Schedule \<Rightarrow> container_table \<Rightarrow> ContainerRecord \<Rightarrow> bool" where
  "in_target sc tbl rec \<longleftrightarrow>
    (if sc_container sc \<noteq> '''' then GetContainerByName (sc_container sc) tbl = Inr rec
     else rec \<in> set tbl \<and> c_stack rec = sc_stack sc)"

lemma resolveTargets_targets:
  assumes "resolveTargets e sc s = (Some recs, s')" "rec \<in> set recs"
  shows "in_target sc (wd_containers (sw_world s)) rec"
proof (cases "sc_container sc = ''''")
  case True
  obtain a s1 where q: "s_sql e (\<lambda>s. (ListContainers (wd_containers (sw_world s)), s)) s = (a, s1)" by (rule prod.exhaust)
  then have "(Some recs, s') = (case a of None \<Rightarrow> (None, s1) | Some all \<Rightarrow> (Some (filter (\<lambda>rec. c_stack rec = sc_stack sc) all), s1))"
    using assms(1) True by (simp add: resolveTargets_def split: option.splits)
  with q show ?thesis
    by (cases rule: s_sql_cases) (use assms(2) True in \<open>auto simp: in_target_def ListContainers_def\<close>)
next
  case False
  obtain a w where q: "db_GetContainerByName e (sc_container sc) (sw_world s) = (a, w)" by (rule prod.exhaust)
  then have "a = Inr rec" using assms False by (auto simp: resolveTargets_def on_world_def split: sum.splits)
  then show ?thesis using db_GetContainerByName_cases[OF q] False by (auto simp: in_target_def)
qed

lemma applyToTargets_requests:
  assumes "applyToTargets e upd sc delay s = (r, s')"
  shows "sw_schedules s' = sw_schedules s \<and> (\<exists>new. sw_requests s' = sw_requests s @ new
    \<and> (\<forall>q \<in> set new. rq_schedule q = sc_id sc \<and> (\<exists>rec cand. in_target sc (wd_containers (sw_world s)) rec
        \<and> c_id rec = rq_container q \<and> c_update_available rec \<and> \<not> c_excluded rec
        \<and> GetUpdateCandidate (c_id rec) (scope_of sc) (sw_candidates s) = Some cand \<and> rq_image q = uc_image cand
        \<and> (0 < delay \<longrightarrow> uc_detected cand + delay \<le> rq_at q))))"
proof -
  obtain t s1 where t: "resolveTargets e sc s = (t, s1)" by (rule prod.exhaust)
  note fr = resolveTargets_frame[OF t]
  show ?thesis
  proof (cases t)
    case None
    then show ?thesis using assms t fr by (auto simp: applyToTargets_def)
  next
    case (Some recs)
    then have "apply_loop e upd sc delay recs 0 s1 = (r, s')" using assms t by (simp add: applyToTargets_def)
    then obtain new where new: "sw_schedules s' = sw_schedules s1" "sw_requests s' = sw_requests s1 @ new"
      "\<forall>q \<in> set new. justified sc delay recs (sw_candidates s1) q"
      using apply_loop_requests by blast
    have "rq_schedule q = sc_id sc \<and> (\<exists>rec cand. in_target sc (wd_containers (sw_world s)) rec
        \<and> c_id rec = rq_container q \<and> c_update_available rec \<and> \<not> c_excluded rec
        \<and> GetUpdateCandidate (c_id rec) (scope_of sc) (sw_candidates s) = Some cand \<and> rq_image q = uc_image cand
        \<and> (0 < delay \<longrightarrow> uc_detected cand + delay \<le> rq_at q))" if "q \<in> set new" for q
      using new(3)[rule_format, OF that] resolveTargets_targets[OF t[unfolded Some]] unfolding justified_def fr by blast
    then show ?thesis using new(1,2) fr by (intro conjI exI[of _ new] ballI) simp_all
  qed
qed

text \<open>C10: Whatever the updater does, a pass of a recurring policy over its targets asks only for updates of
  containers that the policy names or that belong to its stack, that have an update available and
  are not excluded, each to the image of the candidate stored for the scope of the policy, and, when the
  policy waits, not before the candidate has been known for the delay. No schedule is changed by it,
  and the requests made before stay as they were.\<close>

theorem policy_updates_only_candidates:
  assumes "applyToTargets e upd sc delay s = (r, s')"
  shows "sw_schedules s' = sw_schedules s \<and> (\<exists>new. sw_requests s' = sw_requests s @ new
    \<and> (\<forall>q \<in> set new. rq_schedule q = sc_id sc \<and> (\<exists>rec cand. in_target sc (wd_containers (sw_world s)) rec
        \<and> c_id rec = rq_container q \<and> c_update_available rec \<and> \<not> c_excluded rec
        \<and> GetUpdateCandidate (c_id rec) (scope_of sc) (sw_candidates s) = Some cand \<and> rq_image q = uc_image cand
        \<and> (0 < delay \<longrightarrow> uc_detected cand + delay \<le> rq_at q))))"
  by (rule applyToTargets_requests[OF assms])

section \<open>One-off schedules run once\<close>

lemma snd_touches [touch]:
  "only_schedules {i} s (snd (mark_run e i nextRun s))"
  "only_schedules J s (logExecuted sc b s)"
  "only_schedules J s (s_emit ev s)"
  by (auto intro: mark_run_touches[OF surjective_pairing] only_schedules_same)

lemma executeOnce_touches [touch]: "only_schedules {sc_id sc} s (executeOnce e upd sc s)"
proof -
  obtain a s1 where o: "on_world (db_GetContainerByName e (sc_container sc)) s = (a, s1)" by (rule prod.exhaust)
  have s1: "only_schedules {sc_id sc} s s1" using on_world_frame[OF o] by (intro only_schedules_same) simp_all
  show ?thesis
  proof (cases a)
    case (Inl err)
    then show ?thesis unfolding executeOnce_def by (simp add: o) (blast intro: s1 only_schedules_trans touch)
  next
    case (Inr rec)
    let ?img = "if sc_pinned sc = '''' then c_current_image rec else sc_pinned sc"
    obtain r s2 where u: "request_update e upd sc (c_id rec) ?img s1 = (r, s2)" by (rule prod.exhaust)
    have "only_schedules {sc_id sc} s s2" using s1 request_touches(1)[OF u] by (rule only_schedules_trans)
    then show ?thesis unfolding executeOnce_def using o Inr u by (simp) (blast intro: only_schedules_trans touch)
  qed
qed

lemma applyToTargets_touches:
  assumes "applyToTargets e upd sc delay s = (r, s')"
  shows "only_schedules {sc_id sc} s s'" "sw_schedules s' = sw_schedules s"
proof -
  obtain t s1 where t: "resolveTargets e sc s = (t, s1)" by (rule prod.exhaust)
  note fr = resolveTargets_frame[OF t]
  have "sw_schedules s' = sw_schedules s \<and> (\<exists>new. sw_requests s' = sw_requests s @ new \<and> (\<forall>q \<in> set new. rq_schedule q = sc_id sc))"
  proof (cases t)
    case None
    then show ?thesis using assms t fr by (auto simp: applyToTargets_def)
  next
    case (Some recs)
    then have "apply_loop e upd sc delay recs 0 s1 = (r, s')" using assms t by (simp add: applyToTargets_def)
    from apply_loop_requests[OF this] show ?thesis using fr by (auto simp: justified_def)
  qed
  then show "only_schedules {sc_id sc} s s'" "sw_schedules s' = sw_schedules s" by (auto simp: only_schedules_def)
qed

lemma executeCron_touches [touch]: "only_schedules {sc_id sc} s (executeCron e upd next_cron sc s)"
proof -
  obtain n p s1 where a: "applyToTargets e upd sc 0 s = ((n, p), s1)" by (metis prod.exhaust)
  obtain r s2 where m: "mark_run e (sc_id sc) (next_cron (sc_cron sc) (s_now e s1)) s1 = (r, s2)" by (rule prod.exhaust)
  note t = applyToTargets_touches(1)[OF a] and t2 = mark_run_touches[OF m]
  show ?thesis
    unfolding executeCron_def a prod.case m using t only_schedules_trans[OF t t2]
    by (auto split: bool.splits option.splits intro: only_schedules_trans touch)
qed

lemma execute_due_touches [touch]: "only_schedules {sc_id sc} s (execute_due e upd next_cron sc s)"
  by (simp add: execute_due_def touch)

lemma relative_loop_touches:
  "only_schedules {sc_id sc |sc. sc \<in> set scs \<and> sc_kind sc = ''relative''} s (relative_loop e upd ci scs s)" (is "only_schedules (?J scs) _ _")
proof (induction scs arbitrary: s)
  case (Cons sc scs)
  have sub: "?J scs \<subseteq> ?J (sc # scs)" by auto
  have IH: "only_schedules (?J (sc # scs)) t (relative_loop e upd ci scs t)" for t
    using only_schedules_mono[OF Cons.IH sub] .
  show ?case
  proof (cases "\<not> sc_enabled sc \<or> sc_kind sc \<noteq> ''relative''")
    case True
    then show ?thesis using IH by simp
  next
    case False
    obtain i s1 where i: "currentCheckInterval e ci s = (i, s1)" by (rule prod.exhaust)
    have "\<exists>a. s_sql e (\<lambda>s. (GetCheckIntervalMinutes (wd_settings (sw_world s)), s)) s = (a, s1)"
      using i by (auto simp: currentCheckInterval_def split: prod.splits option.splits)
    then have s1: "only_schedules (?J (sc # scs)) s s1" by (auto dest: s_sql_read intro: only_schedules_same)
    have step: "only_schedules (?J (sc # scs)) s (relative_loop e upd ci scs t)" if "only_schedules (?J (sc # scs)) s t" for t
      using only_schedules_trans[OF that IH] .
    show ?thesis
    proof (cases "relativeRetryReady (sc_last_run sc) i (s_now e s1) \<and> (sc_policy sc \<noteq> ''delayed'' \<or> ParseDuration (sc_after sc) \<noteq> None)")
      case no: False
      then have "relative_loop e upd ci (sc # scs) s = relative_loop e upd ci scs s1" using False i by auto
      then show ?thesis using step[OF s1] by simp
    next
      case yes: True
      define delay where "delay = (if sc_policy sc = ''delayed'' then the (ParseDuration (sc_after sc)) else 0)"
      have delay: "(if sc_policy sc = ''delayed'' then ParseDuration (sc_after sc) else Some 0) = Some delay"
        using yes by (auto simp: delay_def)
      obtain n p s2 where a: "applyToTargets e upd sc delay s1 = ((n, p), s2)" by (metis prod.exhaust)
      have J: "{sc_id sc} \<subseteq> ?J (sc # scs)" using False by auto
      have s2: "only_schedules (?J (sc # scs)) s s2"
        using only_schedules_trans[OF s1 only_schedules_mono[OF applyToTargets_touches(1)[OF a] J]] .
      let ?touch = "s_sql e (\<lambda>s'. ((), s'\<lparr>sw_schedules := TouchScheduleLastRun (s_now e s2) (sc_id sc) (sw_schedules s')\<rparr>)) s2"
      have "only_schedules {sc_id sc} s2 (snd ?touch)"
      proof -
        obtain x y where xy: "?touch = (x, y)" by (rule prod.exhaust)
        then have "only_schedules {sc_id sc} s2 y"
          by (cases rule: s_sql_cases) (auto simp: only_schedules_def TouchScheduleLastRun_def schedule_after_update)
        then show ?thesis unfolding xy by simp
      qed
      then have t: "only_schedules (?J (sc # scs)) s (snd ?touch)"
        using only_schedules_trans[OF s2 only_schedules_mono[OF _ J]] by blast
      have "relative_loop e upd ci (sc # scs) s = (if p then s2 else relative_loop e upd ci scs (if n > 0 then snd ?touch else s2))"
        using False i yes delay a by simp
      then show ?thesis using s2 step[OF s2] step[OF t] by simp
    qed
  qed
qed simp

text \<open>The updates asked for by schedule \<^term>\<open>i\<close> that maintenance did not refuse.\<close>
definition accepted :: "int \<Rightarrow> 'd sched_world \<Rightarrow> update_request list" where
  "accepted i s = filter (\<lambda>q. rq_schedule q = i \<and> \<not> rq_refused q) (sw_requests s)"

definition ids_fresh :: "schedule_table \<Rightarrow> bool" where
  "ids_fresh tbl \<longleftrightarrow> keys_distinct sc_id (st_rows tbl) \<and> (\<forall>k \<in> set (map sc_id (st_rows tbl)). k \<le> st_seq tbl)"

definition once_inv :: "int \<Rightarrow> string \<Rightarrow> 'd sched_world \<Rightarrow> bool" where
  "once_inv i pin s \<longleftrightarrow> ids_fresh (sw_schedules s) \<and> i \<le> st_seq (sw_schedules s)
    \<and> length (accepted i s) \<le> 1 \<and> (\<forall>q \<in> set (accepted i s). pin \<noteq> '''' \<longrightarrow> rq_image q = pin)
    \<and> (\<forall>sc. schedule_of i s = Some sc \<longrightarrow> sc_kind sc = ''once'' \<and> sc_pinned sc = pin
        \<and> (accepted i s = [] \<or> \<not> sc_enabled sc \<and> Completed sc))"

lemma only_schedules_accepted: "only_schedules J s s' \<Longrightarrow> i \<notin> J \<Longrightarrow> accepted i s' = accepted i s"
  by (auto simp: only_schedules_def accepted_def filter_empty_conv)

lemma only_schedules_fresh: "only_schedules J s s' \<Longrightarrow> ids_fresh (sw_schedules s') = ids_fresh (sw_schedules s)"
  by (simp add: only_schedules_def ids_fresh_def keys_distinct_def flip: set_map)

lemma once_inv_frame:
  assumes "once_inv i pin s" "only_schedules J s s'" "i \<notin> J"
  shows "once_inv i pin s'"
  using assms only_schedules_accepted[OF assms(2,3)] only_schedules_fresh[OF assms(2)]
  by (auto simp: once_inv_def only_schedules_def)

lemma s_sql_reliable:
  assumes "reliable e"
  obtains d where "s_sql e f s = (Some (fst (f (s\<lparr>sw_world := (sw_world s)\<lparr>wd_env := d\<rparr>\<rparr>))), snd (f (s\<lparr>sw_world := (sw_world s)\<lparr>wd_env := d\<rparr>\<rparr>)))"
proof -
  obtain d where "sql e (\<lambda>w. ((), w)) (sw_world s) = (Inr (), (sw_world s)\<lparr>wd_env := d\<rparr>)"
    using sql_reliable[OF assms, of "\<lambda>w. ((), w)" "sw_world s"] by auto
  then show thesis using that[of d] by (simp add: s_sql_def case_prod_beta)
qed

lemma mark_run_reliable:
  assumes "reliable e" "schedule_of i s = Some sc"
  shows "schedule_of i (snd (mark_run e i nextRun s)) = Some (sc\<lparr>sc_last_run := Some (s_now e s), sc_next_run := nextRun, sc_enabled := (nextRun \<noteq> None)\<rparr>)"
    and "sw_requests (snd (mark_run e i nextRun s)) = sw_requests s"
proof -
  obtain d where "mark_run e i nextRun s = (Some (), s\<lparr>sw_world := (sw_world s)\<lparr>wd_env := d\<rparr>,
      sw_schedules := MarkScheduleRun (s_now e s) i nextRun (sw_schedules s)\<rparr>)"
    unfolding mark_run_def using s_sql_reliable[OF assms(1), of "\<lambda>s'. ((), s'\<lparr>sw_schedules := MarkScheduleRun (s_now e s) i nextRun (sw_schedules s')\<rparr>)" s]
    by auto
  then show "schedule_of i (snd (mark_run e i nextRun s)) = Some (sc\<lparr>sc_last_run := Some (s_now e s), sc_next_run := nextRun, sc_enabled := (nextRun \<noteq> None)\<rparr>)"
    "sw_requests (snd (mark_run e i nextRun s)) = sw_requests s"
    using assms(2) by (simp_all add: MarkScheduleRun_def schedule_after_update)
qed

lemma executeOnce_once:
  assumes "reliable e" "once_inv i pin s" "schedule_of i s = Some sc" "sc_enabled sc"
  shows "once_inv i pin (executeOnce e upd sc s)"
proof -
  have sc: "sc_kind sc = ''once''" "sc_pinned sc = pin" "accepted i s = []" "ids_fresh (sw_schedules s)"
    using assms(2-4) by (auto simp: once_inv_def)
  have seq: "i \<le> st_seq (sw_schedules (executeOnce e upd sc s))"
    using assms(2) executeOnce_touches[of sc s e upd] by (simp add: once_inv_def only_schedules_def)
  have i: "sc_id sc = i" using assms(3) by (rule get_row_key)
  obtain a s1 where o: "on_world (db_GetContainerByName e (sc_container sc)) s = (a, s1)" by (rule prod.exhaust)
  have fr: "ids_fresh (sw_schedules (executeOnce e upd sc s))" using sc(4) only_schedules_fresh[OF executeOnce_touches] by blast
  have finish: "\<exists>sc'. schedule_of i (snd (mark_run e i None (logExecuted sc b t))) = Some sc' \<and> sc_kind sc' = ''once'' \<and> sc_pinned sc' = pin
      \<and> \<not> sc_enabled sc' \<and> Completed sc' \<and> accepted i (snd (mark_run e i None (logExecuted sc b t))) = accepted i t"
    if "schedule_of i t = Some sc" for t b
    using mark_run_reliable[OF assms(1), of i "logExecuted sc b t" sc None] that sc by (simp add: Completed_def accepted_def)
  show ?thesis
  proof (cases a)
    case (Inl err)
    then have "executeOnce e upd sc s = snd (mark_run e i None (logExecuted sc True s1))" using o i by (simp add: executeOnce_def)
    moreover have "accepted i s1 = []" "schedule_of i s1 = Some sc" using on_world_frame[OF o] assms(3) sc(3) by (simp_all add: accepted_def)
    ultimately show ?thesis using finish[of s1 True] fr seq by (auto simp: once_inv_def)
  next
    case (Inr rec)
    let ?img = "if sc_pinned sc = '''' then c_current_image rec else sc_pinned sc"
    obtain r s2 where u: "request_update e upd sc (c_id rec) ?img s1 = (r, s2)" by (rule prod.exhaust)
    have s2: "schedule_of i s2 = Some sc" using request_touches(2)[OF u] on_world_frame[OF o] assms(3) by simp
    have acc: "accepted i s2 = (if r \<noteq> None \<and> maintenance_error (the r) then []
        else [\<lparr>rq_schedule = i, rq_container = c_id rec, rq_image = ?img, rq_at = s_now e s1, rq_refused = False\<rparr>])"
      using request_touches(4)[OF u] on_world_frame(2)[OF o] sc(3) i by (auto simp: accepted_def split: option.splits)
    show ?thesis
    proof (cases "r \<noteq> None \<and> maintenance_error (the r)")
      case True
      then have "executeOnce e upd sc s = s2" unfolding executeOnce_def o Inr prod.case sum.case u by simp
      then show ?thesis using acc True s2 sc fr seq by (simp add: once_inv_def)
    next
      case False
      then have "executeOnce e upd sc s = snd (mark_run e i None (logExecuted sc (r \<noteq> None) s2))"
        unfolding executeOnce_def o Inr prod.case sum.case u using i by auto
      then show ?thesis using finish[OF s2, of "r \<noteq> None"] acc False sc fr seq by (auto simp: once_inv_def)
    qed
  qed
qed

lemma fold_due_once:
  assumes "reliable e" "once_inv i pin s" "distinct (map sc_id due)"
    and "\<And>sc. sc \<in> set due \<Longrightarrow> sc_id sc = i \<Longrightarrow> schedule_of i s = Some sc \<and> sc_enabled sc"
  shows "once_inv i pin (fold (execute_due e upd next_cron) due s)"
  using assms(2-4)
proof (induction due arbitrary: s)
  case (Cons sc due)
  let ?t = "execute_due e upd next_cron sc s"
  have t: "once_inv i pin ?t \<and> (sc_id sc = i \<or> schedule_of i ?t = schedule_of i s)"
  proof (cases "sc_id sc = i")
    case True
    then have r: "schedule_of i s = Some sc" "sc_enabled sc" using Cons.prems(3)[of sc] by simp_all
    then have "sc_kind sc = ''once''" using Cons.prems(1) by (auto simp: once_inv_def)
    then show ?thesis using True executeOnce_once[OF assms(1) Cons.prems(1) r] by (simp add: execute_due_def)
  next
    case False
    then show ?thesis
      using once_inv_frame[OF Cons.prems(1) execute_due_touches] execute_due_touches[of sc s e upd next_cron] by (simp add: only_schedules_def)
  qed
  have "schedule_of i ?t = Some sc' \<and> sc_enabled sc'" if "sc' \<in> set due" "sc_id sc' = i" for sc'
  proof -
    have "sc_id sc \<noteq> i" using Cons.prems(2) that by auto
    then show ?thesis using t Cons.prems(3)[of sc'] that by simp
  qed
  then show ?case using Cons.IH[of ?t] t Cons.prems(2) by simp
qed simp

text \<open>What happens to the schedules: the two passes of the ticker, requests to create, switch or delete a
  schedule, and anything at all elsewhere. \<^verbatim>\<open>handleUpdateSchedule\<close> refuses to switch a completed one.\<close>
inductive sched_step :: "'d engine \<Rightarrow> 'd updater \<Rightarrow> (string \<Rightarrow> time \<Rightarrow> time option) \<Rightarrow> int \<Rightarrow> 'd sched_world \<Rightarrow> 'd sched_world \<Rightarrow> bool"
  for e upd next_cron ci where
  due_pass: "sched_step e upd next_cron ci s (runDueSchedules e upd next_cron s)"
| relative_pass: "sched_step e upd next_cron ci s (runRelativePolicies e upd ci s)"
| create: "sched_step e upd next_cron ci s (s\<lparr>sw_schedules := snd (CreateSchedule t sc (sw_schedules s))\<rparr>)"
| switch: "GetSchedule j (sw_schedules s) = Inr sc \<Longrightarrow> \<not> Completed sc \<Longrightarrow>
    sched_step e upd next_cron ci s (s\<lparr>sw_schedules := snd (SetScheduleEnabled j b (sw_schedules s))\<rparr>)"
| delete: "sched_step e upd next_cron ci s (s\<lparr>sw_schedules := snd (DeleteSchedule j (sw_schedules s))\<rparr>)"
| elsewhere: "sched_step e upd next_cron ci s (s\<lparr>sw_world := w, sw_candidates := cands\<rparr>)"

lemma once_inv_unchanged:
  "once_inv i pin s \<Longrightarrow> sw_schedules s' = sw_schedules s \<Longrightarrow> sw_requests s' = sw_requests s \<Longrightarrow> once_inv i pin s'"
  by (simp add: once_inv_def accepted_def)

lemma runDueSchedules_once:
  assumes "reliable e" "once_inv i pin s"
  shows "once_inv i pin (runDueSchedules e upd next_cron s)"
proof -
  obtain d where d: "s_sql e (\<lambda>s'. (DueSchedules (s_now e s) (sw_schedules s'), s')) s =
      (Some (DueSchedules (s_now e s) (sw_schedules s)), s\<lparr>sw_world := (sw_world s)\<lparr>wd_env := d\<rparr>\<rparr>)" (is "_ = (Some ?due, ?s1)")
    using s_sql_reliable[OF assms(1), of "\<lambda>s'. (DueSchedules (s_now e s) (sw_schedules s'), s')" s] by auto
  have k: "keys_distinct sc_id (st_rows (sw_schedules s))" using assms(2) by (simp add: once_inv_def ids_fresh_def)
  have m: "sc \<in> set ?due \<Longrightarrow> sc \<in> set (st_rows (sw_schedules s)) \<and> sc_enabled sc" for sc
    by (auto simp: DueSchedules_def schedule_due_def)
  have "distinct (map sc_id ?due)"
    using k by (auto simp: DueSchedules_def keys_distinct_def distinct_map intro: inj_on_subset)
  then have "once_inv i pin (fold (execute_due e upd next_cron) ?due ?s1)"
    using fold_due_once[OF assms(1), of i pin ?s1 ?due] once_inv_unchanged[OF assms(2), of ?s1] m get_row_mem[OF k] by fastforce
  then show ?thesis using assms(2) d by (simp add: runDueSchedules_def)
qed

lemma runRelativePolicies_once:
  assumes "once_inv i pin s"
  shows "once_inv i pin (runRelativePolicies e upd ci s)"
proof -
  obtain a s1 where q: "s_sql e (\<lambda>s. (ListSchedules (sw_schedules s), s)) s = (a, s1)" by (rule prod.exhaust)
  have s1: "once_inv i pin s1" using once_inv_unchanged[OF assms] s_sql_read[OF q] by blast
  show ?thesis
  proof (cases a)
    case None
    then show ?thesis using assms q once_inv_unchanged[OF s1, of "s_emit list_failed s1"] by (simp add: runRelativePolicies_def)
  next
    case (Some scs)
    from q have "scs = ListSchedules (sw_schedules s)" by (cases rule: s_sql_cases) (use Some in auto)
    then have "set scs = set (st_rows (sw_schedules s))" by (simp add: ListSchedules_def)
    then have "sc_kind sc = ''once''" if "sc \<in> set scs" "sc_id sc = i" for sc
      using assms that get_row_mem[of sc_id "st_rows (sw_schedules s)" sc] by (auto simp: once_inv_def ids_fresh_def)
    then have "i \<notin> {sc_id sc |sc. sc \<in> set scs \<and> sc_kind sc = ''relative''}" by auto
    then have "once_inv i pin (relative_loop e upd ci scs s1)" by (rule once_inv_frame[OF s1 relative_loop_touches])
    then show ?thesis using assms q Some by (simp add: runRelativePolicies_def)
  qed
qed

lemma sched_step_once:
  assumes "sched_step e upd next_cron ci s s'" "reliable e" "once_inv i pin s"
  shows "once_inv i pin s'"
  using assms(1)
proof cases
  case due_pass
  then show ?thesis using runDueSchedules_once assms(2,3) by blast
next
  case relative_pass
  then show ?thesis using runRelativePolicies_once assms(3) by blast
next
  case (create t sc)
  then show ?thesis using assms(3)
    by (auto simp: once_inv_def ids_fresh_def CreateSchedule_def Let_def accepted_def keys_distinct_def row_simps split: option.splits)
next
  case (switch j sc b)
  have "\<not> Completed sc'" if "schedule_of i s = Some sc'" "i = j" for sc'
    using switch(2,3) that by (simp add: GetSchedule_def)
  then show ?thesis using assms(3) switch(1)
    by (auto simp: once_inv_def ids_fresh_def SetScheduleEnabled_def accepted_def schedule_after_update keys_distinct_def Completed_def simp flip: set_map)
next
  case (delete j)
  have k: "keys_distinct sc_id (st_rows (sw_schedules s))" using assms(3) by (simp add: once_inv_def ids_fresh_def)
  have "schedule_of i s' = (if i = j then None else schedule_of i s)" using delete by (simp add: DeleteSchedule_def get_delete_key[OF k])
  moreover have "ids_fresh (sw_schedules s')" "st_seq (sw_schedules s') = st_seq (sw_schedules s)" "accepted i s' = accepted i s"
    using assms(3) delete delete_where_distinct[OF k, of "\<lambda>sc. sc_id sc = j"]
    by (auto simp: once_inv_def ids_fresh_def DeleteSchedule_def delete_where_def accepted_def)
  ultimately show ?thesis using assms(3) by (simp add: once_inv_def)
next
  case (elsewhere w cands)
  then show ?thesis using once_inv_unchanged[OF assms(3), of s'] by simp
qed

text \<open>C6: A one-off schedule runs at most once. While statements succeed, and through any sequence of passes of
  the scheduler, of requests to create, switch or delete schedules, and of changes elsewhere, it makes
  at most one request that maintenance does not refuse, for the image it was pinned to, and once
  that has been made it is completed and disabled, or deleted.\<close>

theorem once_schedule_runs_once:
  assumes "reliable e" "ids_fresh (sw_schedules s0)" "schedule_of i s0 = Some sc" "sc_kind sc = ''once''" "accepted i s0 = []"
    and "(sched_step e upd next_cron ci)\<^sup>*\<^sup>* s0 s"
  shows "length (accepted i s) \<le> 1 \<and> (\<forall>q \<in> set (accepted i s). (sc_pinned sc \<noteq> '''' \<longrightarrow> rq_image q = sc_pinned sc)
    \<and> (case schedule_of i s of None \<Rightarrow> True | Some sc' \<Rightarrow> Completed sc' \<and> \<not> sc_enabled sc'))"
proof -
  have "i \<le> st_seq (sw_schedules s0)"
    using assms(2) get_row_SomeD[OF assms(3)] by (auto simp: ids_fresh_def)
  then have "once_inv i (sc_pinned sc) s0" using assms(2-5) by (auto simp: once_inv_def)
  with assms(6) have "once_inv i (sc_pinned sc) s"
    by induction (use sched_step_once assms(1) in blast)+
  then show ?thesis by (auto simp: once_inv_def split: option.splits)
qed

text \<open>A cron expression that is never met, such as one for 30 February: the library answers with the zero time.\<close>
definition zero_time :: time where
  "zero_time = - 62135596800 * nanos"

text \<open>A cron schedule whose expression is never met is due again as soon as it has run. When the
  library finds no time it returns the zero time, which is stored as the next run, so that every
  later pass executes the schedule, however short the time between them.\<close>

theorem unmet_cron_always_due:
  assumes "reliable e" "schedule_of (sc_id sc) s = Some sc" "\<And>t. next_cron (sc_cron sc) t = Some zero_time"
    and "applyToTargets e upd sc 0 s = ((n, False), s1)" "0 \<le> t"
  shows "\<exists>sc'. schedule_of (sc_id sc) (executeCron e upd next_cron sc s) = Some sc' \<and> schedule_due t sc'
    \<and> sc_cron sc' = sc_cron sc"
proof -
  have s1: "schedule_of (sc_id sc) s1 = Some sc" using assms(2) applyToTargets_touches(2)[OF assms(4)] by simp
  obtain d where "mark_run e (sc_id sc) (Some zero_time) s1 = (Some (), s1\<lparr>sw_world := (sw_world s1)\<lparr>wd_env := d\<rparr>,
      sw_schedules := MarkScheduleRun (s_now e s1) (sc_id sc) (Some zero_time) (sw_schedules s1)\<rparr>)"
    unfolding mark_run_def
    using s_sql_reliable[OF assms(1), of "\<lambda>s'. ((), s'\<lparr>sw_schedules := MarkScheduleRun (s_now e s1) (sc_id sc) (Some zero_time) (sw_schedules s')\<rparr>)" s1]
    by auto
  moreover have "text_le zero_time t"
    using text_less_late[of zero_time t] text_less_trans[of zero_time t zero_time] assms(5) by (auto simp: text_le_def zero_time_def nanos_def)
  ultimately show ?thesis
    using s1 assms(3,4) by (simp add: executeCron_def MarkScheduleRun_def schedule_after_update schedule_due_def)
qed

section \<open>No schedule is missed during a self-update\<close>

text \<open>Nothing the schedules depend on differs, and no update was asked for.\<close>
definition same_tables :: "'d sched_world \<Rightarrow> 'd sched_world \<Rightarrow> bool" where
  "same_tables s s' \<longleftrightarrow> sw_schedules s' = sw_schedules s \<and> sw_candidates s' = sw_candidates s \<and> sw_requests s' = sw_requests s
    \<and> wd_containers (sw_world s') = wd_containers (sw_world s)"

lemma same_tables_refl [simp]: "same_tables s s"
  by (simp add: same_tables_def)

lemma same_tables_trans [trans]: "same_tables s s1 \<Longrightarrow> same_tables s1 s2 \<Longrightarrow> same_tables s s2"
  by (simp add: same_tables_def)

lemma s_sql_same_tables:
  assumes "s_sql e (\<lambda>s. (g s, s)) s = (r, s')"
  shows "same_tables s s'"
proof -
  obtain ok d where "en_sql e (wd_env (sw_world s)) = (ok, d)" by (rule prod.exhaust)
  then show ?thesis using assms by (cases ok) (auto simp: s_sql_def sql_def same_tables_def)
qed

lemma resolveTargets_same:
  assumes "resolveTargets e sc s = (r, s')"
  shows "same_tables s s'"
proof (cases "sc_container sc = ''''")
  case True
  then have "s' = snd (s_sql e (\<lambda>s. (ListContainers (wd_containers (sw_world s)), s)) s)"
    using assms unfolding resolveTargets_def by (auto split: prod.splits option.splits)
  then show ?thesis using s_sql_same_tables[OF surjective_pairing] by simp
next
  case False
  obtain a w where q: "db_GetContainerByName e (sc_container sc) (sw_world s) = (a, w)" by (rule prod.exhaust)
  then have "s' = s\<lparr>sw_world := w\<rparr>" using assms False by (auto simp: resolveTargets_def on_world_def split: sum.splits)
  moreover obtain d where "w = (sw_world s)\<lparr>wd_env := d\<rparr>" by (rule db_GetContainerByName_cases[OF q], rule that)
  ultimately show ?thesis by (simp add: same_tables_def)
qed

lemma resolveTargets_all:
  assumes "resolveTargets e sc s = (Some recs, s')" "in_target sc (wd_containers (sw_world s)) rec"
  shows "rec \<in> set recs"
proof (cases "sc_container sc = ''''")
  case True
  obtain a s1 where q: "s_sql e (\<lambda>s. (ListContainers (wd_containers (sw_world s)), s)) s = (a, s1)" by (rule prod.exhaust)
  then have "(Some recs, s') = (case a of None \<Rightarrow> (None, s1) | Some all \<Rightarrow> (Some (filter (\<lambda>rec. c_stack rec = sc_stack sc) all), s1))"
    using assms(1) True by (simp add: resolveTargets_def split: option.splits)
  with q show ?thesis
    by (cases rule: s_sql_cases) (use assms(2) True in \<open>auto simp: in_target_def ListContainers_def\<close>)
next
  case False
  obtain a w where q: "db_GetContainerByName e (sc_container sc) (sw_world s) = (a, w)" by (rule prod.exhaust)
  then obtain rec' where r: "a = Inr rec'" "recs = [rec']"
    using assms False by (cases a) (auto simp: resolveTargets_def on_world_def)
  then have "GetContainerByName (sc_container sc) (wd_containers (sw_world s)) = Inr rec'" using db_GetContainerByName_cases[OF q] by blast
  then show ?thesis using assms(2) False r by (simp add: in_target_def)
qed

lemma candidate_for_same:
  assumes "candidate_for e sc rec s = (c, s')"
  shows "same_tables s s'" "reliable e \<Longrightarrow> c = GetUpdateCandidate (c_id rec) (scope_of sc) (sw_candidates s)"
proof -
  obtain a s1 where q: "s_sql e (\<lambda>s. (GetUpdateCandidate (c_id rec) (scope_of sc) (sw_candidates s), s)) s = (a, s1)" by (rule prod.exhaust)
  then have c: "(c, s') = (case a of None \<Rightarrow> (None, s1) | Some x \<Rightarrow> (x, s1))" using assms by (simp add: candidate_for_def split: option.splits)
  then show "same_tables s s'" using s_sql_same_tables[OF q] by (cases a) auto
  assume rel: "reliable e"
  have "a = Some (GetUpdateCandidate (c_id rec) (scope_of sc) (sw_candidates s))"
    by (rule s_sql_reliable[OF rel, of "\<lambda>s. (GetUpdateCandidate (c_id rec) (scope_of sc) (sw_candidates s), s)" s]) (use q in simp)
  then show "c = GetUpdateCandidate (c_id rec) (scope_of sc) (sw_candidates s)" using c by simp
qed

text \<open>What holds of a container the policy of \<^term>\<open>sc\<close> will not update up to \<^term>\<open>horizon\<close>.\<close>
definition unblocked :: "Schedule \<Rightarrow> time \<Rightarrow> time \<Rightarrow> candidate_table \<Rightarrow> ContainerRecord \<Rightarrow> bool" where
  "unblocked sc t horizon cands rec \<longleftrightarrow> (c_update_available rec \<and> \<not> c_excluded rec \<longrightarrow>
    (if sc_policy sc = ''delayed'' then
       (\<exists>delay. ParseDuration (sc_after sc) = Some delay
         \<and> (\<forall>cand. GetUpdateCandidate (c_id rec) (scope_of sc) cands = Some cand \<longrightarrow> horizon < uc_detected cand + delay))
     else horizon < t))"

lemma relative_blockers_none:
  assumes "reliable e" "relative_blockers e sc t horizon recs s = (Some [], s')"
  shows "same_tables s s' \<and> (\<forall>rec \<in> set recs. unblocked sc t horizon (sw_candidates s) rec)"
  using assms(2)
proof (induction recs arbitrary: s)
  case (Cons rec recs)
  have go: "same_tables s s' \<and> (\<forall>r \<in> set (rec # recs). unblocked sc t horizon (sw_candidates s) r)"
    if u: "same_tables s s1" "relative_blockers e sc t horizon recs s1 = (Some [], s')" "unblocked sc t horizon (sw_candidates s) rec" for s1
  proof -
    have "sw_candidates s1 = sw_candidates s" using u(1) by (simp add: same_tables_def)
    then show ?thesis using Cons.IH[OF u(2)] u(1,3) same_tables_trans by auto
  qed
  show ?case
  proof (cases "\<not> c_update_available rec \<or> c_excluded rec")
    case True
    then show ?thesis using Cons.prems by (intro go[of s]) (auto simp: unblocked_def Let_def split: prod.splits option.splits)
  next
    case free: False
    show ?thesis
    proof (cases "sc_policy sc = ''delayed''")
      case False
      then show ?thesis using Cons.prems free by (intro go[of s]) (auto simp: unblocked_def Let_def split: prod.splits option.splits if_splits)
    next
      case True
      then obtain delay where d: "ParseDuration (sc_after sc) = Some delay" using Cons.prems free by (auto simp: Let_def split: option.splits)
      obtain c s1 where c: "candidate_for e sc rec s = (c, s1)" by (rule prod.exhaust)
      note cf = candidate_for_same(1)[OF c] candidate_for_same(2)[OF c assms(1)]
      show ?thesis
      proof (rule go[OF cf(1)])
        show "relative_blockers e sc t horizon recs s1 = (Some [], s')"
          using Cons.prems free True d c by (cases c) (auto simp: Let_def split: prod.splits option.splits if_splits)
        show "unblocked sc t horizon (sw_candidates s) rec"
          using Cons.prems free True d c cf(2) by (cases c) (auto simp: unblocked_def Let_def split: prod.splits option.splits if_splits)
      qed
    qed
  qed
qed simp

text \<open>What holds of a schedule that does not block.\<close>
definition clear_until :: "time \<Rightarrow> time \<Rightarrow> candidate_table \<Rightarrow> container_table \<Rightarrow> Schedule \<Rightarrow> bool" where
  "clear_until t horizon cands tbl sc \<longleftrightarrow> (sc_enabled sc \<longrightarrow> (\<forall>nr. sc_next_run sc = Some nr \<longrightarrow> horizon < nr)
    \<and> (sc_kind sc = ''relative'' \<longrightarrow> (\<forall>rec. in_target sc tbl rec \<longrightarrow> unblocked sc t horizon cands rec)))"

lemma schedule_blockers_none:
  assumes "reliable e" "schedule_blockers e t horizon scs s = (Some [], s')"
  shows "\<forall>sc \<in> set scs. clear_until t horizon (sw_candidates s) (wd_containers (sw_world s)) sc"
  using assms(2)
proof (induction scs arbitrary: s)
  case (Cons sc scs)
  let ?ok = "clear_until t horizon (sw_candidates s) (wd_containers (sw_world s))"
  have go: "\<forall>sc' \<in> set (sc # scs). ?ok sc'"
    if u: "same_tables s s1" "schedule_blockers e t horizon scs s1 = (Some [], s')" "?ok sc" for s1
    using Cons.IH[OF u(2)] u(1,3) by (simp add: same_tables_def)
  show ?case
  proof (cases "sc_enabled sc \<and> sc_kind sc = ''relative'' \<and> (\<forall>nr. sc_next_run sc = Some nr \<longrightarrow> horizon < nr)")
    case False
    then show ?thesis using Cons.prems
      by (intro go[of s]) (cases "sc_next_run sc"; auto simp: clear_until_def Let_def split: prod.splits option.splits if_splits)+
  next
    case True
    obtain r s1 where r: "resolveTargets e sc s = (r, s1)" by (rule prod.exhaust)
    have step: "schedule_blockers e t horizon (sc # scs) s = (case r of None \<Rightarrow> (None, s1) | Some recs \<Rightarrow>
        (case relative_blockers e sc t horizon recs s1 of (None, s2) \<Rightarrow> (None, s2) | (Some bs, s2) \<Rightarrow>
          (case schedule_blockers e t horizon scs s2 of (None, s') \<Rightarrow> (None, s') | (Some bs', s') \<Rightarrow> (Some (bs @ bs'), s'))))"
      using True r by (cases "sc_next_run sc") (auto simp: Let_def split: option.splits)
    obtain recs where recs: "r = Some recs" using Cons.prems step by (cases r) simp_all
    obtain bs s2 where b: "relative_blockers e sc t horizon recs s1 = (bs, s2)" by (rule prod.exhaust)
    have bs: "bs = Some []" "schedule_blockers e t horizon scs s2 = (Some [], s')"
      using Cons.prems unfolding step recs by (auto simp: b split: prod.splits option.splits)
    note un = relative_blockers_none[OF assms(1) b[unfolded bs(1)]] and s1 = resolveTargets_same[OF r]
    have "?ok sc" using un s1 resolveTargets_all[OF r[unfolded recs]] True by (simp add: clear_until_def same_tables_def)
    then show ?thesis using go[of s2] un s1 same_tables_trans bs(2) by blast
  qed
qed simp

text \<open>The first update asked for came after \<^term>\<open>horizon\<close>.\<close>
definition late :: "time \<Rightarrow> 'd sched_world \<Rightarrow> 'd sched_world \<Rightarrow> bool" where
  "late horizon s s' \<longleftrightarrow> (\<exists>q new. sw_requests s' = sw_requests s @ q # new \<and> horizon < rq_at q)"

lemma late_more: "late horizon s s1 \<Longrightarrow> sw_requests s2 = sw_requests s1 @ new \<Longrightarrow> late horizon s s2"
  by (auto simp: late_def)

lemma late_only: "late horizon s s1 \<Longrightarrow> only_schedules J s1 s2 \<Longrightarrow> late horizon s s2"
  by (auto simp: only_schedules_def intro: late_more)

lemma same_late: "same_tables s s1 \<Longrightarrow> late horizon s1 s2 \<Longrightarrow> late horizon s s2"
  by (simp add: same_tables_def late_def)

text \<open>A container whose candidate is not yet old enough at \<^term>\<open>horizon\<close>, if it has one.\<close>
definition waits :: "Schedule \<Rightarrow> int \<Rightarrow> time \<Rightarrow> candidate_table \<Rightarrow> ContainerRecord \<Rightarrow> bool" where
  "waits sc delay horizon cands rec \<longleftrightarrow> (c_update_available rec \<and> \<not> c_excluded rec \<longrightarrow>
    (\<forall>cand. GetUpdateCandidate (c_id rec) (scope_of sc) cands = Some cand \<longrightarrow> 0 < delay \<and> horizon < uc_detected cand + delay))"

lemma apply_loop_late:
  assumes "apply_loop e upd sc delay recs n s = (r, s')" "\<forall>rec \<in> set recs. waits sc delay horizon (sw_candidates s) rec"
  shows "same_tables s s' \<and> r = (n, False) \<or> late horizon s s'"
  using assms
proof (induction recs arbitrary: s)
  case (Cons rec recs)
  have go: "same_tables s s' \<and> r = (n, False) \<or> late horizon s s'"
    if a: "same_tables s s1" "apply_loop e upd sc delay recs n s1 = (r, s')" for s1
  proof -
    have "sw_candidates s1 = sw_candidates s" using a(1) by (simp add: same_tables_def)
    then have "same_tables s1 s' \<and> r = (n, False) \<or> late horizon s1 s'"
      using Cons.prems(2) Cons.IH[OF a(2)] by simp
    then show ?thesis using a(1) same_late same_tables_trans by blast
  qed
  show ?case
  proof (cases "\<not> c_update_available rec \<or> c_excluded rec")
    case True
    then show ?thesis using Cons.prems(1) by (intro go[of s]) auto
  next
    case free: False
    obtain c s1 where c: "candidate_for e sc rec s = (c, s1)" by (rule prod.exhaust)
    note cf = candidate_for_cases[OF c] candidate_for_same(1)[OF c]
    show ?thesis
    proof (cases "c = None \<or> 0 < delay \<and> s_now e s1 < uc_detected (the c) + delay")
      case True
      then have "apply_loop e upd sc delay recs n s1 = (r, s')" using Cons.prems(1) free c by (cases c) auto
      then show ?thesis by (rule go[OF cf(2)])
    next
      case False
      then obtain cand where cand: "c = Some cand" "\<not> (0 < delay \<and> s_now e s1 < uc_detected cand + delay)" by auto
      then have "GetUpdateCandidate (c_id rec) (scope_of sc) (sw_candidates s) = Some cand" using cf(1) by (elim conjE disjE) simp_all
      then have at: "horizon < s_now e s1" using Cons.prems(2) free cand(2) by (auto simp: waits_def)
      obtain a s2 where u: "request_update e upd sc (c_id rec) (uc_image cand) s1 = (a, s2)" by (rule prod.exhaust)
      have s2: "late horizon s s2" using request_touches(4)[OF u] at cf by (auto simp: late_def)
      let ?clear = "s_sql e (\<lambda>s. ((), s\<lparr>sw_candidates := ClearUpdateCandidates (c_id rec) (sw_candidates s)\<rparr>)) (logExecuted sc False s2)"
      have cl: "sw_requests (snd ?clear) = sw_requests s2"
      proof -
        obtain x y where xy: "?clear = (x, y)" by (rule prod.exhaust)
        then have "sw_requests y = sw_requests s2" by (cases rule: s_sql_cases) auto
        then show ?thesis unfolding xy by simp
      qed
      have more: "late horizon s s'" if m: "apply_loop e upd sc delay recs (Suc n) t = (r, s')" "sw_requests t = sw_requests s2" for t
        using apply_loop_requests[OF m(1)] late_more[OF s2] m(2) by auto
      have body: "(case a of
           Some err \<Rightarrow> if maintenance_error err then ((n, True), s2) else apply_loop e upd sc delay recs (Suc n) (logExecuted sc True s2)
         | None \<Rightarrow> apply_loop e upd sc delay recs (Suc n) (snd ?clear)) = (r, s')"
        using Cons.prems(1) free c cand u by (auto split: option.splits)
      show ?thesis
      proof (cases a)
        case None
        then show ?thesis using body more[of "snd ?clear"] cl by simp
      next
        case (Some err)
        then show ?thesis using body more[of "logExecuted sc True s2"] s2 by (auto split: if_splits)
      qed
    qed
  qed
qed simp

lemma applyToTargets_late:
  assumes "applyToTargets e upd sc delay s = (r, s')"
    and "\<And>rec. in_target sc (wd_containers (sw_world s)) rec \<Longrightarrow> waits sc delay horizon (sw_candidates s) rec"
  shows "same_tables s s' \<and> r = (0, False) \<or> late horizon s s'"
proof -
  obtain t s1 where t: "resolveTargets e sc s = (t, s1)" by (rule prod.exhaust)
  note s1 = resolveTargets_same[OF t]
  show ?thesis
  proof (cases t)
    case None
    then show ?thesis using assms(1) t s1 by (auto simp: applyToTargets_def same_tables_def s_emit_def emit_def)
  next
    case (Some recs)
    then have a: "apply_loop e upd sc delay recs 0 s1 = (r, s')" using assms(1) t by (simp add: applyToTargets_def)
    have "\<forall>rec \<in> set recs. waits sc delay horizon (sw_candidates s1) rec"
      using assms(2) resolveTargets_targets[OF t[unfolded Some]] s1 by (simp add: same_tables_def)
    from apply_loop_late[OF a this] show ?thesis using s1 same_late same_tables_trans by blast
  qed
qed

lemma relative_loop_late:
  assumes "\<forall>sc \<in> set scs. clear_until t horizon (sw_candidates s) (wd_containers (sw_world s)) sc" "t \<le> horizon"
    and "\<forall>cand \<in> set (sw_candidates s). uc_detected cand \<le> horizon"
  shows "same_tables s (relative_loop e upd ci scs s) \<or> late horizon s (relative_loop e upd ci scs s)"
  using assms
proof (induction scs arbitrary: s)
  case (Cons sc scs)
  have go: "same_tables s (relative_loop e upd ci scs s1) \<or> late horizon s (relative_loop e upd ci scs s1)" if "same_tables s s1" for s1
  proof -
    have "sw_candidates s1 = sw_candidates s" "wd_containers (sw_world s1) = wd_containers (sw_world s)"
      using that by (simp_all add: same_tables_def)
    then show ?thesis using Cons.IH[of s1] Cons.prems that same_tables_trans same_late by simp blast
  qed
  show ?case
  proof (cases "\<not> sc_enabled sc \<or> sc_kind sc \<noteq> ''relative''")
    case True
    then show ?thesis using go[of s] by simp
  next
    case False
    obtain i s1 where i: "currentCheckInterval e ci s = (i, s1)" by (rule prod.exhaust)
    have "\<exists>a. s_sql e (\<lambda>s. (GetCheckIntervalMinutes (wd_settings (sw_world s)), s)) s = (a, s1)"
      using i by (auto simp: currentCheckInterval_def split: prod.splits option.splits)
    then have s1: "same_tables s s1" by (elim exE) (rule s_sql_same_tables)
    show ?thesis
    proof (cases "relativeRetryReady (sc_last_run sc) i (s_now e s1) \<and> (sc_policy sc \<noteq> ''delayed'' \<or> ParseDuration (sc_after sc) \<noteq> None)")
      case no: False
      then have "relative_loop e upd ci (sc # scs) s = relative_loop e upd ci scs s1" using False i by auto
      then show ?thesis using go[OF s1] by simp
    next
      case yes: True
      define delay where "delay = (if sc_policy sc = ''delayed'' then the (ParseDuration (sc_after sc)) else 0)"
      have delay: "(if sc_policy sc = ''delayed'' then ParseDuration (sc_after sc) else Some 0) = Some delay"
        using yes by (auto simp: delay_def)
      have waiting: "waits sc delay horizon (sw_candidates s1) rec" if "in_target sc (wd_containers (sw_world s1)) rec" for rec
      proof -
        have un: "unblocked sc t horizon (sw_candidates s1) rec"
          using Cons.prems(1) False that s1 by (simp add: clear_until_def same_tables_def)
        have known: "uc_detected cand \<le> horizon" if "GetUpdateCandidate (c_id rec) (scope_of sc) (sw_candidates s1) = Some cand" for cand
          using Cons.prems(3) get_row_SomeD[OF that[unfolded GetUpdateCandidate_def]] s1 by (simp add: same_tables_def)
        show ?thesis using un assms(2) yes by (fastforce simp: unblocked_def waits_def delay_def split: if_splits dest: known)
      qed
      obtain n p s2 where a: "applyToTargets e upd sc delay s1 = ((n, p), s2)" by (metis prod.exhaust)
      have "same_tables s1 s2 \<and> (n, p) = (0, False) \<or> late horizon s1 s2" by (rule applyToTargets_late[OF a]) (rule waiting)
      then show ?thesis
      proof
        assume "same_tables s1 s2 \<and> (n, p) = (0, False)"
        then show ?thesis using False i yes delay a go[OF same_tables_trans[OF s1, of s2]] by simp
      next
        assume "late horizon s1 s2"
        then have l: "late horizon s s2" using same_late[OF s1] by blast
        let ?touch = "s_sql e (\<lambda>s'. ((), s'\<lparr>sw_schedules := TouchScheduleLastRun (s_now e s2) (sc_id sc) (sw_schedules s')\<rparr>)) s2"
        have "sw_requests (snd ?touch) = sw_requests s2"
        proof -
          obtain x y where xy: "?touch = (x, y)" by (rule prod.exhaust)
          then have "sw_requests y = sw_requests s2" by (cases rule: s_sql_cases) auto
          then show ?thesis unfolding xy by simp
        qed
        then have lt: "late horizon s (snd ?touch)" using late_more[OF l, of "snd ?touch" "[]"] by simp
        have "relative_loop e upd ci (sc # scs) s = (if p then s2 else relative_loop e upd ci scs (if n > 0 then snd ?touch else s2))"
          using False i yes delay a by simp
        then show ?thesis using l late_only[OF l relative_loop_touches] late_only[OF lt relative_loop_touches] by simp
      qed
    qed
  qed
qed simp

text \<open>The time \<^verbatim>\<open>SelfUpdateBlockers\<close> takes for an immediate policy, read after its first two statements.\<close>
definition blockers_time :: "'d engine \<Rightarrow> 'd sched_world \<Rightarrow> time" where
  "blockers_time e s = s_now e (snd (s_sql e (\<lambda>s. (ListSchedules (sw_schedules s), s))
     (snd (s_sql e (\<lambda>s. (ListTriggeredRollbackWatches (wd_watches (sw_world s)), s)) s))))"

lemma SelfUpdateBlockers_none:
  assumes "reliable e" "SelfUpdateBlockers e horizon s = (Some [], s')"
  shows "\<forall>sc \<in> set (st_rows (sw_schedules s)). clear_until (blockers_time e s) horizon (sw_candidates s) (wd_containers (sw_world s)) sc"
proof -
  obtain a s1 where q1: "s_sql e (\<lambda>s. (ListTriggeredRollbackWatches (wd_watches (sw_world s)), s)) s = (a, s1)" by (rule prod.exhaust)
  obtain b s2 where q2: "s_sql e (\<lambda>s. (ListSchedules (sw_schedules s), s)) s1 = (b, s2)" by (rule prod.exhaust)
  have t: "same_tables s s2" using same_tables_trans[OF s_sql_same_tables[OF q1] s_sql_same_tables[OF q2]] .
  have b: "b = Some (ListSchedules (sw_schedules s1))"
    by (rule s_sql_reliable[OF assms(1), of "\<lambda>s. (ListSchedules (sw_schedules s), s)" s1]) (use q2 in simp)
  have now: "blockers_time e s = s_now e s2" by (simp add: blockers_time_def q1 q2)
  have "schedule_blockers e (s_now e s2) horizon (ListSchedules (sw_schedules s1)) s2 = (Some [], s')"
    using assms(2) q1 q2 b by (auto simp: SelfUpdateBlockers_def split: option.splits if_splits)
  from schedule_blockers_none[OF assms(1) this] show ?thesis
    using t s_sql_same_tables[OF q1] now by (simp add: same_tables_def ListSchedules_def)
qed

text \<open>C24: When nothing blocks a self-update, no schedule is missed by it. If \<^verbatim>\<open>SelfUpdateBlockers\<close> finds
  nothing up to its horizon, then with the same schedules, candidates and containers a later tick
  of the scheduler that starts at least a second before the horizon asks for no update, unless it is still
  running after the horizon: the first update it asks for comes after it.\<close>

theorem self_update_misses_no_schedule:
  assumes "reliable e" "SelfUpdateBlockers e horizon s = (Some [], s')" "blockers_time e s \<le> horizon"
    and "\<forall>cand \<in> set (sw_candidates s). uc_detected cand \<le> horizon"
    and "same_tables s s0" "s_now e s0 + nanos \<le> horizon"
  shows "\<exists>new. sw_requests (runRelativePolicies e upd ci (runDueSchedules e upd next_cron s0)) = sw_requests s0 @ new
    \<and> (new \<noteq> [] \<longrightarrow> horizon < rq_at (hd new))"
proof -
  note clear = SelfUpdateBlockers_none[OF assms(1,2)]
  let ?s1 = "runDueSchedules e upd next_cron s0"
  have "\<not> schedule_due (s_now e s0) sc" if "sc \<in> set (st_rows (sw_schedules s0))" for sc
  proof
    assume d: "schedule_due (s_now e s0) sc"
    then obtain nr where nr: "sc_next_run sc = Some nr" "sc_enabled sc" "text_le nr (s_now e s0)"
      by (auto simp: schedule_due_def split: option.splits)
    then have "horizon < nr" using clear that assms(5) by (auto simp: clear_until_def same_tables_def)
    then show False using text_le_bound[OF nr(3)] assms(6) by simp
  qed
  then have due: "DueSchedules (s_now e s0) (sw_schedules s0) = []" by (simp add: DueSchedules_def)
  obtain a s2 where q: "s_sql e (\<lambda>s'. (DueSchedules (s_now e s0) (sw_schedules s'), s')) s0 = (a, s2)" by (rule prod.exhaust)
  have "a = Some []"
    by (rule s_sql_reliable[OF assms(1), of "\<lambda>s'. (DueSchedules (s_now e s0) (sw_schedules s'), s')" s0]) (use q due in simp)
  then have s1: "same_tables s ?s1"
    using same_tables_trans[OF assms(5) s_sql_same_tables[OF q]] assms(5) q by (simp add: runDueSchedules_def)
  obtain b s3 where q3: "s_sql e (\<lambda>s. (ListSchedules (sw_schedules s), s)) ?s1 = (b, s3)" by (rule prod.exhaust)
  have b: "b = Some (ListSchedules (sw_schedules ?s1))"
    by (rule s_sql_reliable[OF assms(1), of "\<lambda>s. (ListSchedules (sw_schedules s), s)" ?s1]) (use q3 in simp)
  have s3: "same_tables s s3" using same_tables_trans[OF s1 s_sql_same_tables[OF q3]] .
  have "same_tables s3 (relative_loop e upd ci (ListSchedules (sw_schedules ?s1)) s3) \<or> late horizon s3 (relative_loop e upd ci (ListSchedules (sw_schedules ?s1)) s3)"
    by (rule relative_loop_late[of _ "blockers_time e s"]) (use clear assms(3,4) s1 s3 in \<open>simp_all add: same_tables_def ListSchedules_def\<close>)
  then have "same_tables s (runRelativePolicies e upd ci ?s1) \<or> late horizon s (runRelativePolicies e upd ci ?s1)"
    using s1 q3 b same_tables_trans[OF s3] same_late[OF s3] by (auto simp: runRelativePolicies_def)
  then show ?thesis using assms(5) by (auto simp: same_tables_def late_def)
qed

section \<open>A host with one container\<close>

definition demo_schedule :: "string \<Rightarrow> Schedule" where
  "demo_schedule kind = \<lparr>sc_id = 1, sc_kind = kind, sc_container = ''web'', sc_stack = '''', sc_run_at = None, sc_cron = ''0 0 30 2 *'',
     sc_policy = ''delayed'', sc_after = ''1h30m'', sc_semver = ''minor'', sc_pinned = (if kind = ''once'' then ''web:2'' else ''''),
     sc_notify = True, sc_enabled = True, sc_last_run = None, sc_next_run = (if kind = ''relative'' then None else Some 0), sc_created = 0\<rparr>"

text \<open>The container has an update, whose candidate was found at the given time.\<close>
definition demo_sched_world :: "string \<Rightarrow> time \<Rightarrow> host logging sched_world" where
  "demo_sched_world kind found = \<lparr>
     sw_world = (web_world [])\<lparr>wd_containers := [(container_record ''c1'' ''web'' '''' ''running'' ''Up'' ''web:1'' ''sha256:web:0'')\<lparr>c_update_available := True\<rparr>]\<rparr>,
     sw_schedules = \<lparr>st_rows = [demo_schedule kind], st_seq = 1\<rparr>,
     sw_candidates = [\<lparr>uc_container = ''c1'', uc_scope = ''minor'', uc_image = ''web:2'', uc_version = ''2'', uc_detected = found\<rparr>],
     sw_requests = []\<rparr>"

abbreviation demo_update :: "(docker_call list \<times> host) updater" where
  "demo_update \<equiv> Update (logged host_engine) plain_client sha_valid"

lemma demo_reliable: "reliable (logged host_engine)"
  by (simp add: reliable_def logged_def silent_def host_engine_def)

theorem policy_updates_only_candidates_witness:
  "\<exists>r s'. applyToTargets (logged host_engine) demo_update (demo_schedule ''relative'') (5400 * nanos) (demo_sched_world ''relative'' (- 5400 * nanos)) = (r, s')
    \<and> map rq_image (sw_requests s') = [''web:2''] \<and> sw_schedules s' = sw_schedules (demo_sched_world ''relative'' (- 5400 * nanos))"
proof -
  let ?run = "applyToTargets (logged host_engine) demo_update (demo_schedule ''relative'') (5400 * nanos) (demo_sched_world ''relative'' (- 5400 * nanos))"
  have "map rq_image (sw_requests (snd ?run)) = [''web:2'']" by code_simp
  moreover have "sw_schedules (snd ?run) = sw_schedules (demo_sched_world ''relative'' (- 5400 * nanos))"
    using policy_updates_only_candidates[OF surjective_pairing[of ?run]] by simp
  ultimately show ?thesis by (intro exI[of _ "fst ?run"] exI[of _ "snd ?run"] conjI surjective_pairing)
qed

theorem once_schedule_runs_once_witness:
  "length (accepted 1 (runDueSchedules (logged host_engine) demo_update (\<lambda>_ _. None)
     (runDueSchedules (logged host_engine) demo_update (\<lambda>_ _. None) (demo_sched_world ''once'' 0)))) = 1"
proof -
  let ?s0 = "demo_sched_world ''once'' 0"
  let ?run = "runDueSchedules (logged host_engine) demo_update (\<lambda>_ _. None)"
  have a: "ids_fresh (sw_schedules ?s0)" "schedule_of 1 ?s0 = Some (demo_schedule ''once'')" "sc_kind (demo_schedule ''once'') = ''once''" "accepted 1 ?s0 = []"
    by (simp_all add: demo_sched_world_def demo_schedule_def ids_fresh_def keys_distinct_def accepted_def row_simps)
  have "(sched_step (logged host_engine) demo_update (\<lambda>_ _. None) 0)\<^sup>*\<^sup>* ?s0 (?run (?run ?s0))"
    by (rule converse_rtranclp_into_rtranclp, rule due_pass, rule r_into_rtranclp, rule due_pass)
  from once_schedule_runs_once[OF demo_reliable a this]
  have "length (accepted 1 (?run (?run ?s0))) \<le> 1" by blast
  moreover have "accepted 1 (?run (?run ?s0)) \<noteq> []" by code_simp
  ultimately show ?thesis by (cases "accepted 1 (?run (?run ?s0))") auto
qed

theorem unmet_cron_always_due_witness:
  "\<exists>sc'. schedule_of 1 (executeCron (logged host_engine) demo_update (\<lambda>_ _. Some zero_time) (demo_schedule ''cron'') (demo_sched_world ''cron'' 0)) = Some sc'
    \<and> schedule_due 1 sc'"
proof -
  let ?run = "applyToTargets (logged host_engine) demo_update (demo_schedule ''cron'') 0 (demo_sched_world ''cron'' 0)"
  have "fst ?run = (1, False)" by code_simp
  then have r: "?run = ((1, False), snd ?run)" using surjective_pairing[of ?run] by simp
  have i: "sc_id (demo_schedule ''cron'') = 1" by (simp add: demo_schedule_def)
  have g: "schedule_of (sc_id (demo_schedule ''cron'')) (demo_sched_world ''cron'' 0) = Some (demo_schedule ''cron'')"
    by (simp add: demo_sched_world_def demo_schedule_def row_simps)
  from unmet_cron_always_due[OF demo_reliable g _ r, of "\<lambda>_ _. Some zero_time" 1] show ?thesis unfolding i by auto
qed

theorem self_update_misses_no_schedule_witness:
  "sw_requests (runRelativePolicies (logged host_engine) demo_update 0 (runDueSchedules (logged host_engine) demo_update (\<lambda>_ _. None)
     (demo_sched_world ''relative'' 0))) = []"
proof -
  let ?s = "demo_sched_world ''relative'' 0" and ?h = "600 * nanos"
  let ?run = "runRelativePolicies (logged host_engine) demo_update 0 (runDueSchedules (logged host_engine) demo_update (\<lambda>_ _. None) ?s)"
  have b: "fst (SelfUpdateBlockers (logged host_engine) ?h ?s) = Some []" by code_simp
  then have b': "SelfUpdateBlockers (logged host_engine) ?h ?s = (Some [], snd (SelfUpdateBlockers (logged host_engine) ?h ?s))"
    using surjective_pairing by metis
  have t: "blockers_time (logged host_engine) ?s \<le> ?h" by code_simp
  have c: "\<forall>cand \<in> set (sw_candidates ?s). uc_detected cand \<le> ?h" by (simp add: demo_sched_world_def nanos_def)
  have n: "s_now (logged host_engine) ?s + nanos \<le> ?h" by code_simp
  from self_update_misses_no_schedule[OF demo_reliable b' t c same_tables_refl n, of demo_update 0 "\<lambda>_ _. None"]
  obtain new where "sw_requests ?run = new" "new \<noteq> [] \<longrightarrow> ?h < rq_at (hd new)" by (auto simp: demo_sched_world_def)
  moreover have "list_all (\<lambda>q. rq_at q \<le> ?h) (sw_requests ?run)" by code_simp
  ultimately show ?thesis by (cases new) auto
qed

end
