(* ===== verification/Go_Decode.thy ===== *)
theory Go_Decode
  imports Json "HOL-Library.AList"
begin

text \<open>
  \<^verbatim>\<open>encoding/json\<close> as the sources use it: the fields of a struct, a slice or a map taken from a
  decoded value. \<^term>\<open>None\<close> is a decoding error.
\<close>

text \<open>\<^verbatim>\<open>encoding/json\<close> into a struct: names match without case, the last one wins, null leaves the
  field, another type is an error.\<close>
definition go_members :: "json option \<Rightarrow> (string \<times> json) list option" where
  "go_members body = (case body of Some (JObj ms) \<Rightarrow> Some ms | Some JNull \<Rightarrow> Some [] | _ \<Rightarrow> None)"

definition field_values :: "string \<Rightarrow> (string \<times> json) list \<Rightarrow> json list" where
  "field_values name ms = map snd (filter (\<lambda>(k, v). equal_fold k name \<and> v \<noteq> JNull) ms)"

definition is_str :: "json \<Rightarrow> bool" where
  "is_str v = (case v of JStr _ \<Rightarrow> True | _ \<Rightarrow> False)"

definition go_string :: "string \<Rightarrow> (string \<times> json) list \<Rightarrow> string option" where
  "go_string name ms =
    (let vs = field_values name ms
     in if list_all is_str vs then Some (case rev vs of JStr s # _ \<Rightarrow> s | _ \<Rightarrow> '''') else None)"

fun go_strings_of :: "json \<Rightarrow> string list option" where
  "go_strings_of (JArr vs) =
    (if list_all (\<lambda>v. is_str v \<or> v = JNull) vs then Some (map (\<lambda>v. case v of JStr s \<Rightarrow> s | _ \<Rightarrow> '''') vs) else None)"
| "go_strings_of _ = None"

definition go_strings :: "string \<Rightarrow> (string \<times> json) list \<Rightarrow> string list option" where
  "go_strings name ms =
    (let vs = field_values name ms
     in if list_all (\<lambda>v. go_strings_of v \<noteq> None) vs
        then (case rev vs of [] \<Rightarrow> Some [] | v # _ \<Rightarrow> go_strings_of v) else None)"

fun go_map_of :: "json \<Rightarrow> (string \<times> string) list option" where
  "go_map_of (JObj ms) =
    (if list_all (\<lambda>(k, v). is_str v \<or> v = JNull) ms
     then Some (fold (\<lambda>(k, v). AList.update k (case v of JStr s \<Rightarrow> s | _ \<Rightarrow> '''')) ms []) else None)"
| "go_map_of _ = None"

text \<open>A map field; a repeated field would merge, which no registry sends.\<close>
definition go_map :: "string \<Rightarrow> (string \<times> json) list \<Rightarrow> (string \<times> string) list option" where
  "go_map name ms = (case rev (field_values name ms) of [] \<Rightarrow> Some [] | v # _ \<Rightarrow> go_map_of v)"

definition go_struct :: "string \<Rightarrow> (string \<times> json) list \<Rightarrow> (string \<times> json) list option" where
  "go_struct name ms = (case rev (field_values name ms) of [] \<Rightarrow> Some [] | v # _ \<Rightarrow> go_members (Some v))"

definition go_structs :: "string \<Rightarrow> (string \<times> json) list \<Rightarrow> (string \<times> json) list list option" where
  "go_structs name ms =
    (case rev (field_values name ms) of
       [] \<Rightarrow> Some []
     | JArr vs # _ \<Rightarrow> if list_all (\<lambda>v. go_members (Some v) \<noteq> None) vs then Some (map (\<lambda>v. the (go_members (Some v))) vs) else None
     | _ \<Rightarrow> None)"

definition go_bool :: "string \<Rightarrow> (string \<times> json) list \<Rightarrow> bool option" where
  "go_bool name ms =
    (let vs = field_values name ms
     in if list_all (\<lambda>v. v \<in> {JBool True, JBool False}) vs
        then Some (case rev vs of JBool b # _ \<Rightarrow> b | _ \<Rightarrow> False) else None)"

text \<open>A slice of structs; \<^term>\<open>f\<close> decodes the fields of one.\<close>
definition go_slice :: "((string \<times> json) list \<Rightarrow> 'a option) \<Rightarrow> json \<Rightarrow> 'a list option" where
  "go_slice f v =
    (case v of
       JNull \<Rightarrow> Some []
     | JArr vs \<Rightarrow>
         if list_all (\<lambda>x. Option.bind (go_members (Some x)) f \<noteq> None) vs
         then Some (map (\<lambda>x. the (Option.bind (go_members (Some x)) f)) vs) else None
     | _ \<Rightarrow> None)"

section \<open>Fields of an encoded struct\<close>

text \<open>Members as \<^verbatim>\<open>omitempty\<close> writes them: present or absent, with names that differ beyond case.\<close>
lemma field_values_append: "field_values name (xs @ ys) = field_values name xs @ field_values name ys"
  by (simp add: field_values_def)

lemma field_values_one: "field_values name [(k, v)] = (if equal_fold k name \<and> v \<noteq> JNull then [v] else [])"
  by (simp add: field_values_def)

lemma field_values_nil: "field_values name [] = []"
  by (simp add: field_values_def)

lemmas field_values_simps = field_values_append field_values_one field_values_nil

lemma go_slice_map:
  assumes "\<And>x. f (g x) = Some x"
  shows "go_slice f (JArr (map (\<lambda>x. JObj (g x)) xs)) = Some xs"
  using assms by (simp add: go_slice_def go_members_def list_all_iff comp_def)

end
