(* ===== verification/Registry_Client.thy ===== *)
theory Registry_Client
  imports Registry_Config Go_Decode "HOL-Library.AList" "HOL-Library.Product_Lexorder" "HOL-Library.List_Lexorder"
begin

text \<open>
  \<^verbatim>\<open>internal/registry/registry.go\<close>, \<^verbatim>\<open>tags.go\<close> and \<^verbatim>\<open>config.go\<close>: the requests to image registries.
  One request and its response is the function \<^verbatim>\<open>ht_do\<close> on a state of any type, and \<^verbatim>\<open>net/url\<close> the
  functions on URLs beside it; which requests are sent, where, and with which credentials is the
  program's and that of \<^verbatim>\<open>client.Do\<close>, whose redirects are followed as \<^verbatim>\<open>net/http\<close> does when no
  \<^verbatim>\<open>CheckRedirect\<close> is set. Header names are compared without case, as \<^verbatim>\<open>Header.Get\<close> does.
\<close>

section \<open>Requests\<close>

datatype http_auth = NoAuth | BasicAuth string string | BearerAuth string

record url =
  u_scheme :: string
  u_host :: string
  u_rest :: string

record get_request =
  gr_url :: url
  gr_accept :: string
  gr_auth :: http_auth

record get_response =
  gs_status :: int
  gs_headers :: "(string \<times> string) list"
  gs_body :: "json option"   \<comment> \<open>the body, when it is JSON\<close>

record 'h http =
  ht_do :: "get_request \<Rightarrow> 'h \<Rightarrow> (string, get_response) result \<times> 'h"
  ht_parse :: "string \<Rightarrow> url option"
  ht_set_query :: "url \<Rightarrow> (string \<times> string) list \<Rightarrow> url"
  ht_resolve :: "url \<Rightarrow> url \<Rightarrow> url"
  ht_hostname :: "url \<Rightarrow> string"   \<comment> \<open>the host without its port, in ASCII\<close>
  ht_string :: "url \<Rightarrow> string"
  ht_pem :: "string \<Rightarrow> bool"

text \<open>The process-wide settings: the configured registries and the Docker Hub account.\<close>
record registry_env =
  re_configured :: registry_config
  re_hub_username :: string
  re_hub_password :: string

datatype fetch_error =
    ClientConfig config_error
  | BadURL
  | RequestFailed string
  | BasicRequired
  | NoChallenge
  | BadRealm
  | UntrustedRealm
  | InsecureRealm
  | AuthStatus int
  | BadStatus int
  | BadBody
  | NoDigest

definition SetDockerHubCredentials :: "string \<Rightarrow> string \<Rightarrow> registry_env \<Rightarrow> registry_env" where
  "SetDockerHubCredentials username password env = env\<lparr>re_hub_username := username, re_hub_password := password\<rparr>"

definition resp_header :: "string \<Rightarrow> get_response \<Rightarrow> string" where
  "resp_header name r = (case find (\<lambda>(k, v). equal_fold k name) (gs_headers r) of None \<Rightarrow> '''' | Some (k, v) \<Rightarrow> v)"

text \<open>\<^verbatim>\<open>client.Do\<close> of \<^verbatim>\<open>net/http\<close> for a GET request: a response that redirects is followed, with the
  headers of the first request, for at most ten requests in all. The account is left out as soon as
  the redirects leave the first host for one that is neither the same name nor below it; the scheme
  is not looked at. The number is what is left of the bound.\<close>
definition isDomainOrSubdomain :: "string \<Rightarrow> string \<Rightarrow> bool" where
  "isDomainOrSubdomain sub parent \<longleftrightarrow>
    sub = parent \<or> CHR '':'' \<notin> set sub \<and> CHR ''%'' \<notin> set sub \<and> has_suffix sub (''.'' @ parent)"

definition is_redirect :: "get_response \<Rightarrow> bool" where
  "is_redirect r \<longleftrightarrow> gs_status r \<in> set [301, 302, 303, 307, 308]"

fun client_loop :: "nat \<Rightarrow> 'h http \<Rightarrow> get_request \<Rightarrow> bool \<Rightarrow> get_request \<Rightarrow> 'h \<Rightarrow> (string, get_response) result \<times> 'h" where
  "client_loop 0 h first stripped q s = (Inl ''stopped after 10 redirects'', s)"
| "client_loop (Suc n) h first stripped q s =
    (case ht_do h q s of
       (Inl err, s1) \<Rightarrow> (Inl err, s1)
     | (Inr r, s1) \<Rightarrow>
         if \<not> is_redirect r \<or> resp_header ''Location'' r = '''' then (Inr r, s1)
         else (case ht_parse h (resp_header ''Location'' r) of
                 None \<Rightarrow> (Inl ''failed to parse Location header'', s1)
               | Some loc \<Rightarrow>
                   (let u = ht_resolve h (gr_url q) loc;
                        stripped' = (stripped \<or> u_host u \<noteq> u_host (gr_url first)
                          \<and> \<not> isDomainOrSubdomain (ht_hostname h u) (ht_hostname h (gr_url first)))
                    in client_loop n h first stripped'
                         (first\<lparr>gr_url := u, gr_auth := (if stripped' then NoAuth else gr_auth first)\<rparr>) s1)))"

definition client_do :: "'h http \<Rightarrow> get_request \<Rightarrow> 'h \<Rightarrow> (string, get_response) result \<times> 'h" where
  "client_do h q s = client_loop 10 h q False q s"

text \<open>A request built from text and sent.\<close>
definition send_get :: "'h http \<Rightarrow> string \<Rightarrow> string \<Rightarrow> http_auth \<Rightarrow> 'h \<Rightarrow> (fetch_error, get_response) result \<times> 'h" where
  "send_get h raw accept auth s =
    (case ht_parse h raw of
       None \<Rightarrow> (Inl BadURL, s)
     | Some u \<Rightarrow>
         (case client_do h \<lparr>gr_url = u, gr_accept = accept, gr_auth = auth\<rparr> s of
            (Inl err, s') \<Rightarrow> (Inl (RequestFailed err), s') | (Inr r, s') \<Rightarrow> (Inr r, s')))"

definition clientFor :: "'h http \<Rightarrow> registry_env \<Rightarrow> Ref \<Rightarrow> fetch_error option" where
  "clientFor h env ref =
    (case ConfigForHost (Registry ref) (re_configured env) of
       None \<Rightarrow> None
     | Some cfg \<Rightarrow> map_option ClientConfig (transportFor (\<lambda>raw. map_option u_scheme (ht_parse h raw)) (ht_pem h) cfg))"

definition manifestAccept :: string where
  "manifestAccept = join_with '', '' [''application/vnd.docker.distribution.manifest.v2+json'',
     ''application/vnd.docker.distribution.manifest.list.v2+json'', ''application/vnd.oci.image.manifest.v1+json'',
     ''application/vnd.oci.image.index.v1+json'']"

definition api_url :: "Ref \<Rightarrow> string \<Rightarrow> string" where
  "api_url ref rest = ''https://'' @ Registry ref @ ''/v2/'' @ Repository ref @ rest"

definition doManifestRequestBasic :: "'h http \<Rightarrow> string \<Rightarrow> string \<Rightarrow> string \<Rightarrow> 'h \<Rightarrow> (fetch_error, get_response) result \<times> 'h" where
  "doManifestRequestBasic h raw username password = send_get h raw manifestAccept (BasicAuth username password)"

definition bearer :: "string \<Rightarrow> http_auth" where
  "bearer token = (if token = '''' then NoAuth else BearerAuth token)"

definition doManifestRequest :: "'h http \<Rightarrow> string \<Rightarrow> string \<Rightarrow> 'h \<Rightarrow> (fetch_error, get_response) result \<times> 'h" where
  "doManifestRequest h raw token = send_get h raw manifestAccept (bearer token)"

definition registryGET :: "'h http \<Rightarrow> string \<Rightarrow> string \<Rightarrow> 'h \<Rightarrow> (fetch_error, get_response) result \<times> 'h" where
  "registryGET h raw token = send_get h raw '''' (bearer token)"

definition registryGETBasic :: "'h http \<Rightarrow> string \<Rightarrow> string \<Rightarrow> string \<Rightarrow> 'h \<Rightarrow> (fetch_error, get_response) result \<times> 'h" where
  "registryGETBasic h raw username password = send_get h raw '''' (BasicAuth username password)"

section \<open>Tokens\<close>

text \<open>\<^verbatim>\<open>strings.Trim\<close> with the quotation mark.\<close>
definition trim_quotes :: "string \<Rightarrow> string" where
  "trim_quotes s = rev (dropWhile (\<lambda>c. c = CHR 0x22) (rev (dropWhile (\<lambda>c. c = CHR 0x22) s)))"

definition parseBearerChallenge :: "string \<Rightarrow> (string \<times> string) list" where
  "parseBearerChallenge header =
    fold (\<lambda>part out. case cut_first (CHR ''='') (trim_space part) of
        None \<Rightarrow> out | Some (k, v) \<Rightarrow> AList.update k (trim_quotes v) out)
      (split_on (CHR '','') (trim_space (trim_prefix header ''Bearer''))) []"

definition param :: "(string \<times> string) list \<Rightarrow> string \<Rightarrow> string" where
  "param ps k = (case map_of ps k of None \<Rightarrow> '''' | Some v \<Rightarrow> v)"

text \<open>Which account the token request carries.\<close>
definition token_auth :: "registry_env \<Rightarrow> Ref \<Rightarrow> Config option \<Rightarrow> url \<Rightarrow> (fetch_error, http_auth) result" where
  "token_auth env ref explicit u =
    (let cfg = (case explicit of Some c \<Rightarrow> Some c | None \<Rightarrow> ConfigForHost (Registry ref) (re_configured env))
     in case cfg of
          Some c \<Rightarrow>
            if Username c \<noteq> '''' then
              (if \<not> (equal_fold (u_host u) (Registry ref) \<or> AuthHost c \<noteq> '''' \<and> equal_fold (u_host u) (AuthHost c)) then Inl UntrustedRealm
               else if u_scheme u \<noteq> ''https'' then Inl InsecureRealm
               else Inr (BasicAuth (Username c) (Password c)))
            else if re_hub_username env \<noteq> '''' \<and> str_contains (u_host u) ''docker.io''
            then Inr (BasicAuth (re_hub_username env) (re_hub_password env)) else Inr NoAuth
        | None \<Rightarrow>
            if re_hub_username env \<noteq> '''' \<and> str_contains (u_host u) ''docker.io''
            then Inr (BasicAuth (re_hub_username env) (re_hub_password env)) else Inr NoAuth)"

definition token_of :: "get_response \<Rightarrow> (fetch_error, string) result" where
  "token_of r =
    (if gs_status r \<noteq> 200 then Inl (AuthStatus (gs_status r))
     else case go_members (gs_body r) of
       None \<Rightarrow> Inl BadBody
     | Some ms \<Rightarrow>
         (case (go_string ''token'' ms, go_string ''access_token'' ms) of
            (Some token, Some access) \<Rightarrow> Inr (if token \<noteq> '''' then token else access)
          | _ \<Rightarrow> Inl BadBody))"

definition authenticate :: "'h http \<Rightarrow> registry_env \<Rightarrow> string \<Rightarrow> Ref \<Rightarrow> Config option \<Rightarrow> 'h \<Rightarrow> (fetch_error, string) result \<times> 'h" where
  "authenticate h env challenge ref explicit s =
    (let params = parseBearerChallenge challenge; realm = param params ''realm'' in
     if realm = '''' then (Inl NoChallenge, s)
     else case ht_parse h realm of
       None \<Rightarrow> (Inl BadRealm, s)
     | Some u0 \<Rightarrow>
         (let u = ht_set_query h u0
             ((if param params ''service'' \<noteq> '''' then [(''service'', param params ''service'')] else []) @
              (if param params ''scope'' \<noteq> '''' then [(''scope'', param params ''scope'')] else []))
          in case token_auth env ref explicit u of
               Inl err \<Rightarrow> (Inl err, s)
             | Inr auth \<Rightarrow>
                 (case client_do h \<lparr>gr_url = u, gr_accept = '''', gr_auth = auth\<rparr> s of
                    (Inl err, s') \<Rightarrow> (Inl (RequestFailed err), s')
                  | (Inr r, s') \<Rightarrow> (token_of r, s'))))"

definition is_basic :: "string \<Rightarrow> bool" where
  "is_basic challenge \<longleftrightarrow> has_prefix (to_lower challenge) ''basic''"

text \<open>The common shape of \<^verbatim>\<open>Digest\<close>, \<^verbatim>\<open>tagsRequest\<close> and \<^verbatim>\<open>authenticatedRegistryGET\<close>: ask without an
  account, and on status 401 once more with the one the challenge asks for. \<^term>\<open>get\<close> sends the
  request with a given account.\<close>
definition challenged_get :: "'h http \<Rightarrow> registry_env \<Rightarrow> (http_auth \<Rightarrow> 'h \<Rightarrow> (fetch_error, get_response) result \<times> 'h) \<Rightarrow>
    Ref \<Rightarrow> 'h \<Rightarrow> (fetch_error, get_response) result \<times> 'h" where
  "challenged_get h env get ref s =
    (case get NoAuth s of
       (Inl err, s1) \<Rightarrow> (Inl err, s1)
     | (Inr r, s1) \<Rightarrow>
         if gs_status r \<noteq> 401 then (Inr r, s1)
         else (let challenge = resp_header ''Www-Authenticate'' r in
           if is_basic challenge then
             (case ConfigForHost (Registry ref) (re_configured env) of
                None \<Rightarrow> (Inl BasicRequired, s1)
              | Some cfg \<Rightarrow>
                  if Username cfg = '''' then (Inl BasicRequired, s1)
                  else get (BasicAuth (Username cfg) (Password cfg)) s1)
           else (case authenticate h env challenge ref None s1 of
                   (Inl err, s2) \<Rightarrow> (Inl err, s2)
                 | (Inr token, s2) \<Rightarrow> get (BearerAuth token) s2)))"

fun manifest_get :: "'h http \<Rightarrow> string \<Rightarrow> http_auth \<Rightarrow> 'h \<Rightarrow> (fetch_error, get_response) result \<times> 'h" where
  "manifest_get h raw NoAuth = doManifestRequest h raw ''''"
| "manifest_get h raw (BasicAuth username password) = doManifestRequestBasic h raw username password"
| "manifest_get h raw (BearerAuth token) = doManifestRequest h raw token"

fun tags_get :: "'h http \<Rightarrow> string \<Rightarrow> http_auth \<Rightarrow> 'h \<Rightarrow> (fetch_error, get_response) result \<times> 'h" where
  "tags_get h raw NoAuth = registryGET h raw ''''"
| "tags_get h raw (BasicAuth username password) = registryGETBasic h raw username password"
| "tags_get h raw (BearerAuth token) = registryGET h raw token"

definition authenticatedRegistryGET :: "'h http \<Rightarrow> registry_env \<Rightarrow> string \<Rightarrow> Ref \<Rightarrow> string \<Rightarrow> 'h \<Rightarrow> (fetch_error, get_response) result \<times> 'h" where
  "authenticatedRegistryGET h env raw ref accept = challenged_get h env (send_get h raw accept) ref"

definition tagsRequest :: "'h http \<Rightarrow> registry_env \<Rightarrow> string \<Rightarrow> Ref \<Rightarrow> 'h \<Rightarrow> (fetch_error, get_response) result \<times> 'h" where
  "tagsRequest h env raw ref = challenged_get h env (tags_get h raw) ref"

definition digest_of :: "get_response \<Rightarrow> (fetch_error, string) result" where
  "digest_of r =
    (if gs_status r \<noteq> 200 then Inl (BadStatus (gs_status r))
     else let digest = resp_header ''Docker-Content-Digest'' r
          in if digest \<noteq> '''' then Inr digest else Inl NoDigest)"

definition Digest :: "'h http \<Rightarrow> registry_env \<Rightarrow> Ref \<Rightarrow> 'h \<Rightarrow> (fetch_error, string) result \<times> 'h" where
  "Digest h env ref s =
    (case clientFor h env ref of
       Some err \<Rightarrow> (Inl err, s)
     | None \<Rightarrow>
         (case challenged_get h env (manifest_get h (api_url ref (''/manifests/'' @ Tag ref))) ref s of
            (Inl err, s1) \<Rightarrow> (Inl err, s1) | (Inr r, s1) \<Rightarrow> (digest_of r, s1)))"

section \<open>Tags\<close>

definition maxTagPages :: nat where "maxTagPages = 20"
definition hubTagsPageSize :: nat where "hubTagsPageSize = 100"
definition hubTagsMaxPages :: nat where "hubTagsMaxPages = 20"

definition nextTagPage :: "'h http \<Rightarrow> string \<Rightarrow> string \<Rightarrow> string" where
  "nextTagPage h current link =
    (case (cut_first (CHR ''<'') link, cut_first (CHR ''>'') link) of
       (Some (before_start, after_start), Some (before_end, after_end)) \<Rightarrow>
         if length before_end \<le> length before_start \<or> \<not> str_contains (CHR ''>'' # after_end) (''rel='' @ [CHR 0x22] @ ''next'' @ [CHR 0x22]) then ''''
         else (case (ht_parse h (drop (Suc (length before_start)) before_end), ht_parse h current) of
                 (Some next_url, Some base) \<Rightarrow> ht_string h (ht_resolve h base next_url)
               | _ \<Rightarrow> '''')
     | _ \<Rightarrow> '''')"

text \<open>The loop over the pages; the first number is what is left of the page bound.\<close>
fun list_tag_pages :: "nat \<Rightarrow> 'h http \<Rightarrow> registry_env \<Rightarrow> Ref \<Rightarrow> string \<Rightarrow> string list \<Rightarrow> 'h \<Rightarrow>
    (fetch_error, string list) result \<times> 'h" where
  "list_tag_pages 0 h env ref next_page out s = (Inr out, s)"
| "list_tag_pages (Suc n) h env ref next_page out s =
    (if next_page = '''' then (Inr out, s)
     else case tagsRequest h env next_page ref s of
       (Inl err, s1) \<Rightarrow> (Inl err, s1)
     | (Inr r, s1) \<Rightarrow>
         if gs_status r \<noteq> 200 then (Inl (BadStatus (gs_status r)), s1)
         else (case go_members (gs_body r) of
                 None \<Rightarrow> (Inl BadBody, s1)
               | Some ms \<Rightarrow>
                   (case go_strings ''tags'' ms of
                      None \<Rightarrow> (Inl BadBody, s1)
                    | Some tags \<Rightarrow>
                        list_tag_pages n h env ref (nextTagPage h next_page (resp_header ''Link'' r))
                          (fold List.insert tags out) s1)))"

text \<open>The tags, without repetition; the map's values are all empty.\<close>
definition ListTags :: "'h http \<Rightarrow> registry_env \<Rightarrow> Ref \<Rightarrow> 'h \<Rightarrow> (fetch_error, string list) result \<times> 'h" where
  "ListTags h env ref s =
    (case clientFor h env ref of
       Some err \<Rightarrow> (Inl err, s)
     | None \<Rightarrow> list_tag_pages maxTagPages h env ref (api_url ref ''/tags/list?n=10000'') [] s)"

text \<open>One page of the Docker Hub API: the next link and the named digests.\<close>
definition hub_page :: "get_response \<Rightarrow> (string \<times> (string \<times> string) list) option" where
  "hub_page r =
    (case go_members (gs_body r) of
       None \<Rightarrow> None
     | Some ms \<Rightarrow>
         (let items = (case rev (field_values ''results'' ms) of [] \<Rightarrow> Some [] | JArr vs # _ \<Rightarrow> Some vs | _ \<Rightarrow> None);
              item = (\<lambda>v. case go_members (Some v) of None \<Rightarrow> None
                 | Some f \<Rightarrow> (case (go_string ''name'' f, go_string ''digest'' f) of
                     (Some name, Some digest) \<Rightarrow> Some (name, digest) | _ \<Rightarrow> None))
          in case (go_string ''next'' ms, items) of
               (Some next_page, Some vs) \<Rightarrow>
                 if list_all (\<lambda>v. item v \<noteq> None) vs then Some (next_page, List.map_filter item vs) else None
             | _ \<Rightarrow> None))"

text \<open>The results of a page: the tags so far, the digests still wanted, how many of them.\<close>
fun note_results :: "(string \<times> string) list \<Rightarrow> (string \<times> string) list \<times> (string \<times> bool) list \<times> int \<Rightarrow>
    (string \<times> string) list \<times> (string \<times> bool) list \<times> int" where
  "note_results [] acc = acc"
| "note_results ((name, digest) # rs) (tags, wanted, remaining) =
    (if digest = '''' then note_results rs (tags, wanted, remaining)
     else (let tags' = AList.update name digest tags in
       if map_of wanted digest = Some True \<and> IsVersionTag name
       then note_results rs (tags', AList.update digest False wanted, remaining - 1)
       else note_results rs (tags', wanted, remaining)))"

fun hub_tag_pages :: "nat \<Rightarrow> 'h http \<Rightarrow> string \<Rightarrow> (string \<times> string) list \<times> (string \<times> bool) list \<times> int \<Rightarrow> 'h \<Rightarrow>
    (fetch_error, (string \<times> string) list) result \<times> 'h" where
  "hub_tag_pages 0 h next_page (tags, wanted, remaining) s = (Inr tags, s)"
| "hub_tag_pages (Suc n) h next_page (tags, wanted, remaining) s =
    (if next_page = '''' then (Inr tags, s)
     else case send_get h next_page '''' NoAuth s of
       (Inl err, s1) \<Rightarrow> (Inl err, s1)
     | (Inr r, s1) \<Rightarrow>
         if gs_status r \<noteq> 200 then (Inl (BadStatus (gs_status r)), s1)
         else (case hub_page r of
                 None \<Rightarrow> (Inl BadBody, s1)
               | Some (next_page', results) \<Rightarrow>
                   (case note_results results (tags, wanted, remaining) of
                      (tags', wanted', remaining') \<Rightarrow>
                        if wanted' \<noteq> [] \<and> remaining' \<le> 0 then (Inr tags', s1)
                        else hub_tag_pages n h next_page' (tags', wanted', remaining') s1)))"

definition hub_tags_url :: "string \<Rightarrow> string" where
  "hub_tags_url repo = ''https://hub.docker.com/v2/repositories/'' @ repo @ ''/tags?page_size=100&ordering=last_updated''"

text \<open>The keys of \<^term>\<open>wanted\<close> are distinct, as those of a map.\<close>
definition ListDockerHubTags :: "'h http \<Rightarrow> registry_env \<Rightarrow> string \<Rightarrow> (string \<times> bool) list \<Rightarrow> 'h \<Rightarrow>
    (fetch_error, (string \<times> string) list) result \<times> 'h" where
  "ListDockerHubTags h env repo wanted s =
    (case clientFor h env \<lparr>Registry = hub_registry, Repository = repo, Tag = ''''\<rparr> of
       Some err \<Rightarrow> (Inl err, s)
     | None \<Rightarrow> hub_tag_pages hubTagsMaxPages h (hub_tags_url repo) ([], wanted, int (length wanted)) s)"

text \<open>The account a session has settled on.\<close>
type_synonym session = "http_auth option"

definition session_digest :: "'h http \<Rightarrow> registry_env \<Rightarrow> Ref \<Rightarrow> string \<Rightarrow> session \<Rightarrow> 'h \<Rightarrow>
    (fetch_error, string) result \<times> session \<times> 'h" where
  "session_digest h env ref tag kind s =
    (let raw = api_url ref (''/manifests/'' @ tag);
         finish = (\<lambda>kind answer. case answer of
             (Inl err, s') \<Rightarrow> (Inl err, kind, s') | (Inr r, s') \<Rightarrow> (digest_of r, kind, s'))
     in case manifest_get h raw (case kind of None \<Rightarrow> NoAuth | Some auth \<Rightarrow> auth) s of
          (Inl err, s1) \<Rightarrow> (Inl err, kind, s1)
        | (Inr r, s1) \<Rightarrow>
            if gs_status r = 401 \<and> kind = None then
              (let challenge = resp_header ''Www-Authenticate'' r in
               if is_basic challenge then
                 (case ConfigForHost (Registry ref) (re_configured env) of
                    None \<Rightarrow> (Inl BasicRequired, kind, s1)
                  | Some cfg \<Rightarrow>
                      if Username cfg = '''' then (Inl BasicRequired, kind, s1)
                      else (let auth = BasicAuth (Username cfg) (Password cfg) in finish (Some auth) (manifest_get h raw auth s1)))
               else (case authenticate h env challenge ref None s1 of
                       (Inl err, s2) \<Rightarrow> (Inl err, kind, s2)
                     | (Inr token, s2) \<Rightarrow> finish (Some (BearerAuth token)) (manifest_get h raw (BearerAuth token) s2)))
            else (digest_of r, kind, s1))"

text \<open>The order of \<^verbatim>\<open>sort.Slice\<close>: more dots first, then the shorter, then the greater name.\<close>
definition tag_rank :: "string \<Rightarrow> int \<times> int \<times> int list" where
  "tag_rank tag = (- int (dot_count tag), int (length tag), map (\<lambda>c. - of_char c) tag)"

fun resolve_candidates :: "'h http \<Rightarrow> registry_env \<Rightarrow> Ref \<Rightarrow> string list \<Rightarrow> string list \<Rightarrow> (string \<times> string) list \<Rightarrow>
    fetch_error option \<Rightarrow> session \<Rightarrow> 'h \<Rightarrow> ((string \<times> string) list \<times> fetch_error option) \<times> 'h" where
  "resolve_candidates h env ref [] remaining resolved lastErr kind s = ((resolved, lastErr), s)"
| "resolve_candidates h env ref (tag # tags) remaining resolved lastErr kind s =
    (case session_digest h env ref tag kind s of
       (Inl err, kind1, s1) \<Rightarrow> resolve_candidates h env ref tags remaining resolved (Some err) kind1 s1
     | (Inr digest, kind1, s1) \<Rightarrow>
         if digest \<in> set remaining then
           (let remaining' = removeAll digest remaining; resolved' = resolved @ [(tag, digest)]
            in if remaining' = [] then ((resolved', lastErr), s1)
               else resolve_candidates h env ref tags remaining' resolved' lastErr kind1 s1)
         else resolve_candidates h env ref tags remaining resolved lastErr kind1 s1)"

definition ResolveVersionTags :: "'h http \<Rightarrow> registry_env \<Rightarrow> Ref \<Rightarrow> (string \<times> bool) list \<Rightarrow> 'h \<Rightarrow>
    (fetch_error, (string \<times> string) list) result \<times> 'h" where
  "ResolveVersionTags h env ref wanted s =
    (if Registry ref = hub_registry then ListDockerHubTags h env (Repository ref) wanted s
     else case ListTags h env ref s of
       (Inl err, s1) \<Rightarrow> (Inl err, s1)
     | (Inr tags, s1) \<Rightarrow>
         (case clientFor h env ref of
            Some err \<Rightarrow> (Inl err, s1)
          | None \<Rightarrow>
              (case resolve_candidates h env ref (sort_key tag_rank (filter IsVersionTag tags))
                      (map fst (filter snd wanted)) [] None None s1 of
                 ((resolved, lastErr), s2) \<Rightarrow>
                   (case (resolved, lastErr) of ([], Some err) \<Rightarrow> (Inl err, s2) | _ \<Rightarrow> (Inr resolved, s2)))))"

section \<open>Labels of a manifest\<close>

record manifest =
  mf_annotations :: "(string \<times> string) list"
  mf_config_digest :: string
  mf_manifests :: "(string \<times> string \<times> string) list"  \<comment> \<open>digest, operating system, architecture\<close>

definition manifest_item :: "(string \<times> json) list \<Rightarrow> (string \<times> string \<times> string) option" where
  "manifest_item ms =
    (case (go_string ''digest'' ms, go_struct ''platform'' ms) of
       (Some digest, Some pl) \<Rightarrow>
         (case (go_string ''os'' pl, go_string ''architecture'' pl) of
            (Some os, Some arch) \<Rightarrow> Some (digest, os, arch) | _ \<Rightarrow> None)
     | _ \<Rightarrow> None)"

definition decode_manifest :: "json option \<Rightarrow> manifest option" where
  "decode_manifest body =
    (case go_members body of
       None \<Rightarrow> None
     | Some ms \<Rightarrow>
         (case (go_map ''annotations'' ms, go_struct ''config'' ms, go_structs ''manifests'' ms) of
            (Some annotations, Some config, Some items) \<Rightarrow>
              (case go_string ''digest'' config of
                 Some digest \<Rightarrow>
                   if list_all (\<lambda>i. manifest_item i \<noteq> None) items
                   then Some \<lparr>mf_annotations = annotations, mf_config_digest = digest,
                              mf_manifests = List.map_filter manifest_item items\<rparr>
                   else None
               | None \<Rightarrow> None)
          | _ \<Rightarrow> None))"

text \<open>The entry for the platform of the binary (\<^term>\<open>os\<close>, \<^term>\<open>arch\<close>), or the first.\<close>
definition select_manifest :: "string \<Rightarrow> string \<Rightarrow> (string \<times> string \<times> string) list \<Rightarrow> string" where
  "select_manifest os arch items =
    (let selected = (case find (\<lambda>(d, o', a). o' = os \<and> a = arch) items of None \<Rightarrow> '''' | Some (d, _) \<Rightarrow> d)
     in if selected = '''' then (case items of [] \<Rightarrow> '''' | (d, _) # _ \<Rightarrow> d) else selected)"

text \<open>The number is what is left of the depth bound: an index may point to one more manifest.\<close>
fun versionLabelForManifest :: "nat \<Rightarrow> 'h http \<Rightarrow> registry_env \<Rightarrow> string \<Rightarrow> string \<Rightarrow> Ref \<Rightarrow> string \<Rightarrow> 'h \<Rightarrow>
    (fetch_error, string) result \<times> 'h" where
  "versionLabelForManifest 0 h env os arch ref reference s = (Inr '''', s)"
| "versionLabelForManifest (Suc n) h env os arch ref reference s =
    (case authenticatedRegistryGET h env (api_url ref (''/manifests/'' @ reference)) ref manifestAccept s of
       (Inl err, s1) \<Rightarrow> (Inl err, s1)
     | (Inr r, s1) \<Rightarrow>
         if gs_status r \<noteq> 200 then (Inl (BadStatus (gs_status r)), s1)
         else case decode_manifest (gs_body r) of
           None \<Rightarrow> (Inl BadBody, s1)
         | Some m \<Rightarrow>
             let version = VersionFromLabels (mf_annotations m) (Repository ref) in
             if version \<noteq> '''' then (Inr version, s1)
             else if mf_config_digest m = '''' then
               (let selected = select_manifest os arch (mf_manifests m)
                in if selected = '''' then (Inr '''', s1)
                   else versionLabelForManifest n h env os arch ref selected s1)
             else (case authenticatedRegistryGET h env (api_url ref (''/blobs/'' @ mf_config_digest m)) ref
                     ''application/vnd.oci.image.config.v1+json, application/vnd.docker.container.image.v1+json'' s1 of
                 (Inl err, s2) \<Rightarrow> (Inl err, s2)
               | (Inr blob, s2) \<Rightarrow>
                   if gs_status blob \<noteq> 200 then (Inl (BadStatus (gs_status blob)), s2)
                   else (case Option.bind (go_members (gs_body blob)) (\<lambda>ms. Option.bind (go_struct ''config'' ms) (go_map ''Labels'')) of
                           None \<Rightarrow> (Inl BadBody, s2)
                         | Some labels \<Rightarrow> (Inr (VersionFromLabels labels (Repository ref)), s2))))"

definition VersionLabelForDigest :: "'h http \<Rightarrow> registry_env \<Rightarrow> string \<Rightarrow> string \<Rightarrow> Ref \<Rightarrow> string \<Rightarrow> 'h \<Rightarrow>
    (fetch_error, string) result \<times> 'h" where
  "VersionLabelForDigest h env os arch ref manifestDigest s =
    (case clientFor h env ref of
       Some err \<Rightarrow> (Inl err, s)
     | None \<Rightarrow> versionLabelForManifest 2 h env os arch ref manifestDigest s)"

section \<open>The connection test\<close>

definition TestConnection :: "'h http \<Rightarrow> registry_env \<Rightarrow> Config \<Rightarrow> 'h \<Rightarrow> fetch_error option \<times> 'h" where
  "TestConnection h env cfg0 s =
    (let cfg = cfg0\<lparr>Host := canonicalHost (Host cfg0)\<rparr>;
         get = send_get h (''https://'' @ Host cfg @ ''/v2/'') '''';
         verdict = (\<lambda>answer. case answer of
             (Inl err, s') \<Rightarrow> (Some err, s')
           | (Inr r, s') \<Rightarrow> (if gs_status r < 200 \<or> 300 \<le> gs_status r then Some (BadStatus (gs_status r)) else None, s'))
     in if Host cfg = '''' then (Some (ClientConfig HostRequired), s)
        else case transportFor (\<lambda>raw. map_option u_scheme (ht_parse h raw)) (ht_pem h) cfg of
          Some err \<Rightarrow> (Some (ClientConfig err), s)
        | None \<Rightarrow>
            (case get NoAuth s of
               (Inr r, s1) \<Rightarrow>
                 if gs_status r \<noteq> 401 then verdict (Inr r, s1)
                 else if is_basic (resp_header ''Www-Authenticate'' r) then
                   (if Username cfg = '''' then (Some BasicRequired, s1)
                    else verdict (get (BasicAuth (Username cfg) (Password cfg)) s1))
                 else (case authenticate h env (resp_header ''Www-Authenticate'' r)
                              \<lparr>Registry = Host cfg, Repository = '''', Tag = ''''\<rparr> (Some cfg) s1 of
                         (Inl err, s2) \<Rightarrow> (Some err, s2)
                       | (Inr token, s2) \<Rightarrow> verdict (get (BearerAuth token) s2))
             | (Inl err, s1) \<Rightarrow> (Some err, s1)))"

section \<open>The requests that leave\<close>

text \<open>A client that keeps the list of the requests it was asked to send is itself a client, so the
  operations run on it unchanged.\<close>
type_synonym 'h requests = "get_request list \<times> 'h"

definition recording :: "'h http \<Rightarrow> 'h requests http" where
  "recording h = \<lparr>
     ht_do = (\<lambda>q s. case ht_do h q (snd s) of (r, s') \<Rightarrow> (r, (fst s @ [q], s'))),
     ht_parse = ht_parse h, ht_set_query = ht_set_query h, ht_resolve = ht_resolve h,
     ht_hostname = ht_hostname h, ht_string = ht_string h, ht_pem = ht_pem h\<rparr>"

text \<open>A request that followed a redirect of \<^term>\<open>first\<close> carries no account, or the same one to the same host
  or to one whose name is the same or below it.\<close>
definition follows :: "'h http \<Rightarrow> get_request \<Rightarrow> get_request \<Rightarrow> bool" where
  "follows h first q \<longleftrightarrow> gr_accept q = gr_accept first
    \<and> (gr_auth q = NoAuth
       \<or> gr_auth q = gr_auth first
         \<and> (u_host (gr_url q) = u_host (gr_url first)
            \<or> isDomainOrSubdomain (ht_hostname h (gr_url q)) (ht_hostname h (gr_url first))))"

text \<open>The requests of one call of \<^verbatim>\<open>client.Do\<close>: at most ten, the first one with \<^term>\<open>P\<close>.\<close>
definition exchange :: "'h http \<Rightarrow> (get_request \<Rightarrow> bool) \<Rightarrow> get_request list \<Rightarrow> bool" where
  "exchange h P qs \<longleftrightarrow>
    (\<exists>first rest. qs = first # rest \<and> P first \<and> list_all (follows h first) rest \<and> length qs \<le> 10)"

text \<open>From one state to the next the requests sent are those of at most \<^term>\<open>n\<close> exchanges.\<close>
definition sends :: "'h http \<Rightarrow> (get_request \<Rightarrow> bool) \<Rightarrow> nat \<Rightarrow> 'h requests \<Rightarrow> 'h requests \<Rightarrow> bool" where
  "sends h P n s s' \<longleftrightarrow>
    (\<exists>exchanges. fst s' = fst s @ concat exchanges \<and> list_all (exchange h P) exchanges \<and> length exchanges \<le> n)"

lemma sends_refl [simp, intro]: "sends h P n s s"
  by (auto simp: sends_def intro: exI[of _ "[]"])

lemma sends_trans:
  assumes "sends h P m s s1" "sends h P n s1 s2" "m + n \<le> k" shows "sends h P k s s2"
proof -
  obtain new1 new2 where "fst s1 = fst s @ concat new1" "fst s2 = fst s1 @ concat new2" "list_all (exchange h P) new1"
      "list_all (exchange h P) new2" "length new1 \<le> m" "length new2 \<le> n"
    using assms(1,2) by (auto simp: sends_def)
  then show ?thesis using assms(3) by (auto simp: sends_def intro!: exI[of _ "new1 @ new2"])
qed

lemma sends_mono: "sends h P m s s' \<Longrightarrow> m \<le> n \<Longrightarrow> sends h P n s s'"
  by (auto simp: sends_def intro: le_trans)

lemma recording_parse [simp]:
  "ht_parse (recording h) = ht_parse h" "ht_pem (recording h) = ht_pem h"
  "ht_set_query (recording h) = ht_set_query h" "ht_resolve (recording h) = ht_resolve h"
  "ht_hostname (recording h) = ht_hostname h" "ht_string (recording h) = ht_string h"
  by (simp_all add: recording_def)

lemma recording_do: "ht_do (recording h) q s = (r, s') \<Longrightarrow> fst s' = fst s @ [q]"
  by (auto simp: recording_def split: prod.splits)

lemma client_loop_follows:
  assumes "client_loop n (recording h) first stripped q s = (r, s')" "follows h first q"
  shows "\<exists>new. fst s' = fst s @ new \<and> list_all (follows h first) new \<and> length new \<le> n
    \<and> (0 < n \<longrightarrow> (\<exists>rest. new = q # rest))"
  using assms
proof (induction n arbitrary: stripped q s)
  case (Suc n)
  obtain a s1 where d: "ht_do (recording h) q s = (a, s1)" by (rule prod.exhaust)
  note s1 = recording_do[OF d]
  show ?case
  proof (cases "s' = s1")
    case True
    then show ?thesis using s1 Suc.prems(2) by (intro exI[of _ "[q]"]) simp
  next
    case False
    then obtain resp loc where a: "a = Inr resp" "is_redirect resp" "resp_header ''Location'' resp \<noteq> ''''"
        "ht_parse h (resp_header ''Location'' resp) = Some loc"
      using Suc.prems(1) d by (auto split: sum.splits if_splits option.splits)
    let ?u = "ht_resolve h (gr_url q) loc"
    let ?st = "stripped \<or> u_host ?u \<noteq> u_host (gr_url first)
        \<and> \<not> isDomainOrSubdomain (ht_hostname h ?u) (ht_hostname h (gr_url first))"
    let ?q = "first\<lparr>gr_url := ?u, gr_auth := (if ?st then NoAuth else gr_auth first)\<rparr>"
    have l: "client_loop n (recording h) first ?st ?q s1 = (r, s')"
      using Suc.prems(1) d a by (simp add: Let_def)
    have "follows h first ?q" by (auto simp: follows_def)
    from Suc.IH[OF l this] obtain new where "fst s' = fst s1 @ new" "list_all (follows h first) new" "length new \<le> n"
      by blast
    then show ?thesis using s1 Suc.prems(2) by (intro exI[of _ "q # new"]) simp
  qed
qed simp

lemma client_do_sends:
  assumes "client_do (recording h) q s = (r, s')" "P q"
  shows "sends h P 1 s s'"
proof -
  have "follows h q q" by (simp add: follows_def)
  from client_loop_follows[OF assms(1)[unfolded client_do_def] this] obtain rest where
    "fst s' = fst s @ q # rest" "list_all (follows h q) rest" "length (q # rest) \<le> 10" by auto
  then have "exchange h P (q # rest)" using assms(2) by (auto simp: exchange_def)
  then show ?thesis using \<open>fst s' = _\<close> by (auto simp: sends_def intro!: exI[of _ "[q # rest]"])
qed

lemma client_do_plain: "ht_do h q s = (Inr r, s1) \<Longrightarrow> \<not> is_redirect r \<Longrightarrow> client_do h q s = (Inr r, s1)"
  by (simp add: client_do_def numeral_eq_Suc)

lemma send_get_sends:
  assumes "send_get (recording h) raw accept auth s = (r, s')"
    and "\<And>u. ht_parse h raw = Some u \<Longrightarrow> P \<lparr>gr_url = u, gr_accept = accept, gr_auth = auth\<rparr>"
  shows "sends h P 1 s s'"
proof (cases "ht_parse h raw")
  case (Some u)
  obtain a s1 where d: "client_do (recording h) \<lparr>gr_url = u, gr_accept = accept, gr_auth = auth\<rparr> s = (a, s1)"
    by (rule prod.exhaust)
  have "s' = s1" using assms(1) Some d by (auto simp: send_get_def split: sum.splits)
  then show ?thesis using client_do_sends[OF d] assms(2)[OF Some] by simp
qed (use assms(1) in \<open>simp add: send_get_def\<close>)

lemma authenticate_sends:
  assumes "authenticate (recording h) env challenge ref explicit s = (r, s')"
    and "\<And>u auth. token_auth env ref explicit u = Inr auth \<Longrightarrow> P \<lparr>gr_url = u, gr_accept = '''', gr_auth = auth\<rparr>"
  shows "sends h P 1 s s'"
proof -
  have "s' = s \<or> (\<exists>u auth a. token_auth env ref explicit u = Inr auth
      \<and> client_do (recording h) \<lparr>gr_url = u, gr_accept = '''', gr_auth = auth\<rparr> s = (a, s'))"
    using assms(1) unfolding authenticate_def Let_def
    by (auto split: if_splits option.splits sum.splits prod.splits)
  then show ?thesis using client_do_sends[of h _ s _ s' P] assms(2) by blast
qed

text \<open>The accounts a request may be repeated with.\<close>
definition offered :: "registry_env \<Rightarrow> Ref \<Rightarrow> http_auth \<Rightarrow> bool" where
  "offered env ref auth =
    (case auth of
       BasicAuth u p \<Rightarrow>
         (case ConfigForHost (Registry ref) (re_configured env) of
            None \<Rightarrow> False | Some c \<Rightarrow> u = Username c \<and> p = Password c \<and> u \<noteq> '''')
     | _ \<Rightarrow> True)"

text \<open>The requests the two helpers may make of a predicate on requests.\<close>
definition token_requests :: "registry_env \<Rightarrow> Ref \<Rightarrow> (get_request \<Rightarrow> bool) \<Rightarrow> bool" where
  "token_requests env ref P \<longleftrightarrow>
    (\<forall>u auth. token_auth env ref None u = Inr auth \<longrightarrow> P \<lparr>gr_url = u, gr_accept = '''', gr_auth = auth\<rparr>)"

lemma challenged_get_cases:
  assumes "challenged_get h env get ref s = (r, s')"
  obtains (plain) a where "get NoAuth s = (a, s')"
  | (basic) a s1 u p where "get NoAuth s = (a, s1)" "offered env ref (BasicAuth u p)" "get (BasicAuth u p) s1 = (r, s')"
  | (refused) a s1 challenge e where "get NoAuth s = (a, s1)" "authenticate h env challenge ref None s1 = (Inl e, s')"
  | (bearer) a s1 challenge t s2 where "get NoAuth s = (a, s1)" "authenticate h env challenge ref None s1 = (Inr t, s2)"
      "get (BearerAuth t) s2 = (r, s')"
proof -
  obtain a s1 where g: "get NoAuth s = (a, s1)" by (rule prod.exhaust)
  show ?thesis
  proof (cases "s' = s1")
    case True then show ?thesis using g plain by simp
  next
    case False
    then obtain resp where a: "a = Inr resp" "gs_status resp = 401"
      using assms g unfolding challenged_get_def by (auto split: sum.splits if_splits)
    let ?ch = "resp_header ''Www-Authenticate'' resp"
    show ?thesis
    proof (cases "is_basic ?ch")
      case True
      then obtain c where "ConfigForHost (Registry ref) (re_configured env) = Some c" "Username c \<noteq> ''''"
          "get (BasicAuth (Username c) (Password c)) s1 = (r, s')"
        using assms g a False unfolding challenged_get_def Let_def by (auto split: option.splits if_splits)
      then show ?thesis using basic[OF g, of "Username c" "Password c"] by (simp add: offered_def)
    next
      case nb: False
      obtain t s2 where t: "authenticate h env ?ch ref None s1 = (t, s2)" by (rule prod.exhaust)
      show ?thesis
        using assms g a nb t refused[OF g] bearer[OF g] unfolding challenged_get_def Let_def
        by (cases t) auto
    qed
  qed
qed

lemma challenged_get_sends:
  assumes "challenged_get (recording h) env get ref s = (r, s')"
    and get: "\<And>auth s r s'. get auth s = (r, s') \<Longrightarrow> offered env ref auth \<Longrightarrow> sends h P 1 s s'"
    and tok: "token_requests env ref P"
  shows "sends h P 3 s s'"
  using assms(1)
proof (cases rule: challenged_get_cases)
  case (plain a)
  then show ?thesis using get[of NoAuth s] sends_mono[of h P 1 s s' 3] by (simp add: offered_def)
next
  case (basic a s1 u p)
  then show ?thesis
    using sends_trans[OF get[OF basic(1)] get[OF basic(3,2)], of 3] by (simp add: offered_def)
next
  case (refused a s1 challenge e)
  have "sends h P 1 s1 s'" using authenticate_sends[OF refused(2)] tok by (simp add: token_requests_def)
  then show ?thesis using sends_trans[OF get[OF refused(1)], of 1 s' 3] by (simp add: offered_def)
next
  case (bearer a s1 challenge t s2)
  have "sends h P 1 s1 s2" using authenticate_sends[OF bearer(2)] tok by (simp add: token_requests_def)
  then have "sends h P 2 s s2" using sends_trans[OF get[OF bearer(1)], of 1 s2 2] by (simp add: offered_def)
  then show ?thesis using sends_trans[OF _ get[OF bearer(3)], of 2 s 3] by (simp add: offered_def)
qed

section \<open>Where accounts go\<close>

text \<open>A host without the characters that end it in a URL, and what \<^verbatim>\<open>url.Parse\<close> answers for one.\<close>
definition plain_host :: "string \<Rightarrow> bool" where
  "plain_host host \<longleftrightarrow> host \<noteq> '''' \<and> list_all (\<lambda>c. c \<notin> set ''/?#@%'') host"

definition parses_hosts :: "'h http \<Rightarrow> bool" where
  "parses_hosts h \<longleftrightarrow>
    (\<forall>host rest u. plain_host host \<and> ht_parse h (''https://'' @ host @ ''/'' @ rest) = Some u \<longrightarrow>
       u_scheme u = ''https'' \<and> u_host u = host)"

text \<open>A request with a password carries the one of \<^term>\<open>c\<close> over TLS to the registry \<^term>\<open>host\<close> or to the
  token host configured beside it, or else the Docker Hub account to a host with
  \<^verbatim>\<open>docker.io\<close> in its name; a token goes to the registry alone, over TLS.\<close>
definition confined :: "registry_env \<Rightarrow> Config option \<Rightarrow> string \<Rightarrow> get_request \<Rightarrow> bool" where
  "confined env cfg host q =
    (case gr_auth q of
       NoAuth \<Rightarrow> True
     | BearerAuth _ \<Rightarrow> u_scheme (gr_url q) = ''https'' \<and> equal_fold (u_host (gr_url q)) host
     | BasicAuth u p \<Rightarrow>
         (case cfg of
            Some c \<Rightarrow>
              if Username c \<noteq> '''' then
                u = Username c \<and> p = Password c \<and> u_scheme (gr_url q) = ''https''
                \<and> (equal_fold (u_host (gr_url q)) host \<or> AuthHost c \<noteq> '''' \<and> equal_fold (u_host (gr_url q)) (AuthHost c))
              else u = re_hub_username env \<and> p = re_hub_password env \<and> str_contains (u_host (gr_url q)) ''docker.io''
          | None \<Rightarrow> u = re_hub_username env \<and> p = re_hub_password env \<and> str_contains (u_host (gr_url q)) ''docker.io''))"

abbreviation confined_ref :: "registry_env \<Rightarrow> Ref \<Rightarrow> get_request \<Rightarrow> bool" where
  "confined_ref env ref \<equiv> confined env (ConfigForHost (Registry ref) (re_configured env)) (Registry ref)"

lemma equal_fold_refl [simp]: "equal_fold s s"
  by (simp add: equal_fold_def)

lemma token_auth_confined:
  assumes "token_auth env ref explicit u = Inr auth"
  shows "confined env (case explicit of Some c \<Rightarrow> Some c | None \<Rightarrow> ConfigForHost (Registry ref) (re_configured env))
    (Registry ref) \<lparr>gr_url = u, gr_accept = a, gr_auth = auth\<rparr>"
  using assms by (auto simp: token_auth_def confined_def Let_def split: option.splits if_splits)

lemma token_requests_confined: "token_requests env ref (confined_ref env ref)"
  using token_auth_confined[of env ref None] by (simp add: token_requests_def)

lemma offered_confined:
  assumes "offered env ref auth" "u_scheme u = ''https''" "u_host u = Registry ref"
  shows "confined_ref env ref \<lparr>gr_url = u, gr_accept = a, gr_auth = auth\<rparr>"
  using assms by (auto simp: offered_def confined_def split: http_auth.splits option.splits if_splits)

lemma api_url_parsed:
  assumes "parses_hosts h" "plain_host (Registry ref)" "ht_parse h (api_url ref rest) = Some u"
  shows "u_scheme u = ''https''" "u_host u = Registry ref"
  using assms unfolding parses_hosts_def api_url_def by (metis append.assoc append_Cons append_Nil)+

lemma api_get_sends:
  assumes "parses_hosts h" "plain_host (Registry ref)" "offered env ref auth"
    and "send_get (recording h) (api_url ref rest) accept auth s = (r, s')"
  shows "sends h (confined_ref env ref) 1 s s'"
  using send_get_sends[OF assms(4)] offered_confined[OF assms(3)] api_url_parsed[OF assms(1,2)] by blast

lemma manifest_get_send:
  "\<exists>auth'. manifest_get h raw auth = send_get h raw manifestAccept auth' \<and> (offered env ref auth \<longrightarrow> offered env ref auth')"
proof (cases auth)
  case (BearerAuth t)
  then show ?thesis
    by (intro exI[of _ "bearer t"]) (auto simp: doManifestRequest_def bearer_def offered_def fun_eq_iff)
qed (auto simp: doManifestRequest_def doManifestRequestBasic_def bearer_def fun_eq_iff intro: exI[of _ NoAuth] exI[of _ "BasicAuth _ _"])

lemma manifest_get_sends:
  assumes "parses_hosts h" "plain_host (Registry ref)" "offered env ref auth"
    and "manifest_get (recording h) (api_url ref rest) auth s = (r, s')"
  shows "sends h (confined_ref env ref) 1 s s'"
  using manifest_get_send[of "recording h" "api_url ref rest" auth env ref] api_get_sends[OF assms(1,2)] assms(3,4)
  by metis

lemma Digest_sends:
  assumes "parses_hosts h" "plain_host (Registry ref)" "Digest (recording h) env ref s = (r, s')"
  shows "sends h (confined_ref env ref) 3 s s'"
proof -
  obtain a s1 where c: "challenged_get (recording h) env
      (manifest_get (recording h) (api_url ref (''/manifests/'' @ Tag ref))) ref s = (a, s1)" by (rule prod.exhaust)
  have "s' = s \<or> s' = s1"
    using assms(3) c unfolding Digest_def by (auto split: option.splits sum.splits)
  then show ?thesis
    using challenged_get_sends[OF c manifest_get_sends[OF assms(1,2)] token_requests_confined] by auto
qed

lemma authenticatedRegistryGET_sends:
  assumes "parses_hosts h" "plain_host (Registry ref)"
    and "authenticatedRegistryGET (recording h) env (api_url ref rest) ref accept s = (r, s')"
  shows "sends h (confined_ref env ref) 3 s s'"
proof (rule challenged_get_sends[OF assms(3)[unfolded authenticatedRegistryGET_def] _ token_requests_confined])
  show "sends h (confined_ref env ref) 1 s s'"
    if "send_get (recording h) (api_url ref rest) accept auth s = (r, s')" "offered env ref auth" for auth s r s'
    by (rule api_get_sends[OF assms(1,2) that(2,1)])
qed

lemma versionLabel_sends:
  assumes "parses_hosts h" "plain_host (Registry ref)"
    and "versionLabelForManifest n (recording h) env os arch ref reference s = (r, s')"
  shows "sends h (confined_ref env ref) (3 * n + 3) s s'"
  using assms(3)
proof (induction n arbitrary: reference s)
  case (Suc n)
  let ?get = "\<lambda>rest accept. authenticatedRegistryGET (recording h) env (api_url ref rest) ref accept"
  let ?blob = "''application/vnd.oci.image.config.v1+json, application/vnd.docker.container.image.v1+json''"
  obtain a s1 where g: "?get (''/manifests/'' @ reference) manifestAccept s = (a, s1)" by (rule prod.exhaust)
  have s1: "sends h (confined_ref env ref) 3 s s1" by (rule authenticatedRegistryGET_sends[OF assms(1,2) g])
  consider "s' = s1"
    | selected where "versionLabelForManifest n (recording h) env os arch ref selected s1 = (r, s')"
    | d b where "?get (''/blobs/'' @ d) ?blob s1 = (b, s')"
    using Suc.prems g by (auto simp: Let_def split: sum.splits if_splits option.splits prod.splits)
  then show ?case
  proof cases
    case 1
    then show ?thesis using sends_mono[OF s1] by simp
  next
    case 2
    then show ?thesis using sends_trans[OF s1 Suc.IH] by simp
  next
    case 3
    then show ?thesis using sends_trans[OF s1 authenticatedRegistryGET_sends[OF assms(1,2)]] by simp
  qed
qed simp

lemma VersionLabelForDigest_sends:
  assumes "parses_hosts h" "plain_host (Registry ref)" "VersionLabelForDigest (recording h) env os arch ref d s = (r, s')"
  shows "sends h (confined_ref env ref) 9 s s'"
  using versionLabel_sends[OF assms(1,2), of 2 env os arch d s r s'] assms(3)
  unfolding VersionLabelForDigest_def by (auto split: option.splits)

lemma TestConnection_sends:
  assumes "parses_hosts h" "plain_host (canonicalHost (Host cfg))" "TestConnection (recording h) env cfg s = (r, s')"
  defines "c \<equiv> cfg\<lparr>Host := canonicalHost (Host cfg)\<rparr>"
  shows "sends h (confined env (Some c) (Host c)) 3 s s'"
proof -
  let ?get = "send_get (recording h) (''https://'' @ Host c @ ''/v2/'') ''''"
  let ?P = "confined env (Some c) (Host c)"
  have get: "sends h ?P 1 s s'" if "?get auth s = (r, s')"
      "auth = NoAuth \<or> auth = BearerAuth t \<or> Username c \<noteq> '''' \<and> auth = BasicAuth (Username c) (Password c)" for auth t s r s'
  proof (rule send_get_sends[OF that(1)])
    fix u assume u: "ht_parse h (''https://'' @ Host c @ ''/v2/'') = Some u"
    have "u_scheme u = ''https''" "u_host u = Host c"
      using assms(1)[unfolded parses_hosts_def, rule_format, of "Host c" "''v2/''" u] assms(2) u by (simp_all add: c_def)
    then show "?P \<lparr>gr_url = u, gr_accept = '''', gr_auth = auth\<rparr>"
      using that(2) by (auto simp: confined_def)
  qed
  have tok: "sends h ?P 1 s s'" if "authenticate (recording h) env ch \<lparr>Registry = Host c, Repository = '''', Tag = ''''\<rparr> (Some c) s = (r, s')" for ch s r s'
    by (rule authenticate_sends[OF that], drule token_auth_confined[where a = "''''"]) simp
  obtain a s1 where g: "?get NoAuth s = (a, s1)" by (rule prod.exhaust)
  have s1: "sends h ?P 1 s s1" by (rule get[OF g]) simp
  consider "s' = s" | "s' = s1"
    | b where "Username c \<noteq> ''''" "?get (BasicAuth (Username c) (Password c)) s1 = (b, s')"
    | ch t where "authenticate (recording h) env ch \<lparr>Registry = Host c, Repository = '''', Tag = ''''\<rparr> (Some c) s1 = (t, s')"
    | ch t s2 b where "authenticate (recording h) env ch \<lparr>Registry = Host c, Repository = '''', Tag = ''''\<rparr> (Some c) s1 = (Inr t, s2)"
        "?get (BearerAuth t) s2 = (b, s')"
    using assms(3) g unfolding TestConnection_def c_def[symmetric] Let_def
    by (auto split: if_splits option.splits sum.splits prod.splits)
  then show ?thesis
  proof cases
    case 2
    then show ?thesis using sends_mono[OF s1] by simp
  next
    case 3
    then show ?thesis using sends_trans[OF s1 get[OF 3(2)]] by simp
  next
    case 4
    then show ?thesis using sends_trans[OF s1 tok] by simp
  next
    case 5
    then show ?thesis using sends_trans[OF sends_trans[OF s1 tok[OF 5(1)], of 2] get[OF 5(2)]] by simp
  qed simp
qed

lemma hub_tag_pages_sends:
  "hub_tag_pages n (recording h) next_page acc s = (r, s') \<Longrightarrow> sends h (\<lambda>q. gr_auth q = NoAuth) n s s'"
proof (induction n arbitrary: next_page acc s)
  case 0
  then show ?case by (cases acc) auto
next
  case (Suc n)
  obtain tags wanted remaining where acc: "acc = (tags, wanted, remaining)" by (rule prod_cases3)
  obtain a s1 where g: "send_get (recording h) next_page '''' NoAuth s = (a, s1)" by (rule prod.exhaust)
  have s1: "sends h (\<lambda>q. gr_auth q = NoAuth) 1 s s1" by (rule send_get_sends[OF g]) simp
  consider "s' = s" | "s' = s1" | p acc' where "hub_tag_pages n (recording h) p acc' s1 = (r, s')"
    using Suc.prems acc g by (auto split: if_splits option.splits sum.splits prod.splits)
  then show ?case
  proof cases
    case 2
    then show ?thesis using sends_mono[OF s1] by simp
  next
    case 3
    then show ?thesis using sends_trans[OF s1 Suc.IH] by simp
  qed simp
qed

lemma list_tag_pages_sends:
  "list_tag_pages n (recording h) env ref next_page out s = (r, s') \<Longrightarrow> sends h (\<lambda>_. True) (3 * n) s s'"
proof (induction n arbitrary: next_page out s)
  case (Suc n)
  obtain a s1 where g: "tagsRequest (recording h) env next_page ref s = (a, s1)" by (rule prod.exhaust)
  have get: "sends h (\<lambda>_. True) 1 s s'" if "tags_get (recording h) next_page auth s = (r, s')" for auth s r s'
    using that send_get_sends[of h next_page _ _ s r s' "\<lambda>_. True"]
    by (cases auth) (auto simp: registryGET_def registryGETBasic_def)
  have s1: "sends h (\<lambda>_. True) 3 s s1"
    using challenged_get_sends[OF g[unfolded tagsRequest_def] get] by (simp add: token_requests_def)
  consider "s' = s" | "s' = s1" | p out' where "list_tag_pages n (recording h) env ref p out' s1 = (r, s')"
    using Suc.prems g by (auto split: if_splits option.splits sum.splits prod.splits)
  then show ?case
  proof cases
    case 2
    then show ?thesis using sends_mono[OF s1] by simp
  next
    case 3
    then show ?thesis using sends_trans[OF s1 Suc.IH] by simp
  qed simp
qed simp

text \<open>C33: Asking a registry for a digest or for the version label of a manifest makes at most three
  (nine) calls of the HTTP client, and testing a configuration three, each of them of at most ten
  requests with the redirects it follows. The request a call starts with carries a password only if
  it is the one configured for that registry and goes over TLS to the registry itself or its
  configured token host, whatever realm the registry's challenge names, or is the Docker Hub account
  and goes to a host with docker.io in its name; it carries a token only over TLS to the registry.
  A request that follows a redirect carries the same account to the same host name or to one
  below it, whatever the scheme and the port, and no account anywhere else.\<close>

theorem registry_accounts_confined:
  assumes "parses_hosts h" "plain_host (Registry ref)" "plain_host (canonicalHost (Host cfg))"
  shows "sends h (confined_ref env ref) 3 s (snd (Digest (recording h) env ref s))
    \<and> sends h (confined_ref env ref) 9 s (snd (VersionLabelForDigest (recording h) env os arch ref d s))
    \<and> sends h (confined env (Some (cfg\<lparr>Host := canonicalHost (Host cfg)\<rparr>)) (canonicalHost (Host cfg))) 3 s
        (snd (TestConnection (recording h) env cfg s))"
  using Digest_sends[OF assms(1,2) prod.collapse[symmetric]]
    VersionLabelForDigest_sends[OF assms(1,2) prod.collapse[symmetric]]
    TestConnection_sends[OF assms(1,3) prod.collapse[symmetric]]
  by simp

text \<open>A parser for the URLs of the examples, and a server as a function of the request.\<close>
definition simple_parse :: "string \<Rightarrow> url option" where
  "simple_parse raw =
    (let scheme = (if has_prefix raw ''https://'' then ''https'' else ''http'')
     in case cut_first (CHR ''/'') (trim_prefix raw (scheme @ ''://'')) of
          None \<Rightarrow> None | Some (host, rest) \<Rightarrow> Some \<lparr>u_scheme = scheme, u_host = host, u_rest = rest\<rparr>)"

definition served :: "(get_request \<Rightarrow> get_response) \<Rightarrow> unit http" where
  "served server = \<lparr>ht_do = (\<lambda>q s. (Inr (server q), s)), ht_parse = simple_parse, ht_set_query = (\<lambda>u _. u),
     ht_resolve = (\<lambda>base next_url. next_url), ht_hostname = u_host, ht_string = (\<lambda>u. u_scheme u @ ''://'' @ u_host u @ ''/'' @ u_rest u), ht_pem = (\<lambda>_. True)\<rparr>"

lemma served_parses: "parses_hosts (served server)"
  unfolding parses_hosts_def
proof (intro allI impI)
  fix host rest u
  assume a: "plain_host host \<and> ht_parse (served server) (''https://'' @ host @ ''/'' @ rest) = Some u"
  have "CHR ''/'' \<notin> set host" using a by (auto simp: plain_host_def list_all_iff)
  then have "cut_first (CHR ''/'') (host @ ''/'' @ rest) = Some (host, rest)" by simp
  moreover have "trim_prefix (''https://'' @ host @ ''/'' @ rest) ''https://'' = host @ ''/'' @ rest"
    by (rule trim_prefix_append)
  ultimately have "simple_parse (''https://'' @ host @ ''/'' @ rest) = Some \<lparr>u_scheme = ''https'', u_host = host, u_rest = rest\<rparr>"
    by (simp add: simple_parse_def has_prefix_iff)
  then show "u_scheme u = ''https'' \<and> u_host u = host" using a by (auto simp: served_def)
qed

definition answer :: "int \<Rightarrow> (string \<times> string) list \<Rightarrow> get_response" where
  "answer status headers = \<lparr>gs_status = status, gs_headers = headers, gs_body = None\<rparr>"

text \<open>A registry that asks for a password and then sends its client to a store at another place.\<close>
definition asks_basic :: "string \<Rightarrow> get_request \<Rightarrow> get_response" where
  "asks_basic store q =
    (if u_rest (gr_url q) = ''blob'' then answer 200 [(''Docker-Content-Digest'', ''sha256:1'')]
     else if gr_auth q = NoAuth then answer 401 [(''Www-Authenticate'', ''Basic realm=x'')]
     else answer 307 [(''Location'', store)])"

definition bob_env :: registry_env where
  "bob_env = \<lparr>re_configured = [''r.example'' \<mapsto>
       \<lparr>Host = ''r.example'', Username = ''bob'', Password = ''pw'', AuthHost = '''', ProxyURL = '''', CACertPEM = ''''\<rparr>],
     re_hub_username = ''hub'', re_hub_password = ''hubpw''\<rparr>"

definition app_ref :: Ref where
  "app_ref = \<lparr>Registry = ''r.example'', Repository = ''app'', Tag = ''1''\<rparr>"

definition asked :: "string \<Rightarrow> (fetch_error, string) result \<times> unit requests" where
  "asked store = Digest (recording (served (asks_basic store))) bob_env
     \<lparr>Registry = ''r.example'', Repository = ''app'', Tag = ''1''\<rparr> ([], ())"

theorem registry_accounts_confined_witness:
  "plain_host (Registry app_ref) \<and> fst (asked ''https://cdn.example/blob'') = Inr ''sha256:1''
    \<and> map (\<lambda>q. (u_host (gr_url q), gr_auth q)) (fst (snd (asked ''https://cdn.example/blob''))) =
       [(''r.example'', NoAuth), (''r.example'', BasicAuth ''bob'' ''pw''), (''cdn.example'', NoAuth)]
    \<and> sends (served (asks_basic ''https://cdn.example/blob'')) (confined_ref bob_env app_ref) 3 ([], ()) (snd (asked ''https://cdn.example/blob''))"
proof -
  have p: "plain_host (Registry app_ref)" by code_simp
  have c: "plain_host (canonicalHost (Host \<lparr>Host = ''r.example'', Username = '''', Password = '''', AuthHost = '''',
      ProxyURL = '''', CACertPEM = ''''\<rparr>))" by code_simp
  have d: "fst (asked ''https://cdn.example/blob'') = Inr ''sha256:1''" by code_simp
  have "map (\<lambda>q. (u_host (gr_url q), gr_auth q)) (fst (snd (asked ''https://cdn.example/blob''))) =
       [(''r.example'', NoAuth), (''r.example'', BasicAuth ''bob'' ''pw''), (''cdn.example'', NoAuth)]" by code_simp
  then show ?thesis
    using registry_accounts_confined[OF served_parses[of "asks_basic ''https://cdn.example/blob''"] p c, of bob_env "([], ())"] p d
    by (simp add: asked_def app_ref_def)
qed

text \<open>A redirect of the registry to itself without TLS: the password of the registry leaves in the
  clear, although a token host without TLS is refused it.\<close>

theorem redirect_sends_password_in_clear:
  "map (\<lambda>q. (u_scheme (gr_url q), u_host (gr_url q), gr_auth q)) (fst (snd (asked ''http://r.example/blob''))) =
   [(''https'', ''r.example'', NoAuth), (''https'', ''r.example'', BasicAuth ''bob'' ''pw''), (''http'', ''r.example'', BasicAuth ''bob'' ''pw'')]"
  by code_simp

text \<open>A registry that sends its client to a look-alike of Docker Hub.\<close>
definition asks_lookalike :: "get_request \<Rightarrow> get_response" where
  "asks_lookalike q = (if gr_auth q = NoAuth \<and> u_scheme (gr_url q) = ''https''
     then answer 401 [(''Www-Authenticate'', ''Bearer realm=http://docker.io.evil.example/token'')] else answer 200 [])"

text \<open>The Docker Hub account is not confined to Docker Hub: a registry whose challenge names a realm
  at a host that merely contains docker.io, over plain HTTP, receives it.\<close>

theorem hub_account_sent_to_lookalike:
  "map (\<lambda>q. (u_scheme (gr_url q), u_host (gr_url q), gr_auth q))
     (fst (snd (Digest (recording (served asks_lookalike)) bob_env \<lparr>Registry = ''evil.example'', Repository = ''a'', Tag = ''b''\<rparr> ([], ())))) =
   [(''https'', ''evil.example'', NoAuth), (''http'', ''docker.io.evil.example'', BasicAuth ''hub'' ''hubpw'')]"
  by code_simp

text \<open>A registry whose tag list goes on at another host, which then asks for a password.\<close>
definition links_away :: "get_request \<Rightarrow> get_response" where
  "links_away q =
    (if u_host (gr_url q) = ''r.example''
     then \<lparr>gs_status = 200, gs_headers = [(''Link'', ''<http://other.example/tags>; rel='' @ [CHR 0x22] @ ''next'' @ [CHR 0x22])],
           gs_body = Some (JObj [(''tags'', JArr [JStr ''1.0''])])\<rparr>
     else if gr_auth q = NoAuth then answer 401 [(''Www-Authenticate'', ''Basic realm=x'')] else answer 200 [])"

text \<open>Listing tags follows the registry's link to the next page to any host and scheme, and answers a
  password challenge there with the account configured for the registry.\<close>

theorem tag_pages_leave_the_registry:
  "map (\<lambda>q. (u_scheme (gr_url q), u_host (gr_url q), gr_auth q))
     (fst (snd (ListTags (recording (served links_away)) bob_env app_ref ([], ())))) =
   [(''https'', ''r.example'', NoAuth), (''http'', ''other.example'', NoAuth), (''http'', ''other.example'', BasicAuth ''bob'' ''pw'')]"
  by code_simp

lemma ListTags_sends: "sends h (\<lambda>_. True) 60 s (snd (ListTags (recording h) env ref s))"
  using list_tag_pages_sends[where n = maxTagPages and h = h, OF prod.collapse[symmetric]]
  by (simp add: ListTags_def maxTagPages_def split: option.split)

lemma ListDockerHubTags_sends:
  "sends h (\<lambda>q. gr_auth q = NoAuth) 20 s (snd (ListDockerHubTags (recording h) env repo wanted s))"
  using hub_tag_pages_sends[where n = hubTagsMaxPages and h = h, OF prod.collapse[symmetric]]
  by (simp add: ListDockerHubTags_def hubTagsMaxPages_def split: option.split)

text \<open>Whatever the servers answer, even a chain of next-page links without end, listing the tags of a
  repository ends after at most 60 calls of the HTTP client, of ten requests each at most, and on
  Docker Hub after at most 20, all of them anonymous.\<close>

theorem tag_listing_bounded:
  "sends h (\<lambda>_. True) 60 s (snd (ListTags (recording h) env ref s))
   \<and> sends h (\<lambda>q. gr_auth q = NoAuth) 20 s (snd (ListDockerHubTags (recording h) env repo wanted s))"
  using ListTags_sends ListDockerHubTags_sends by blast

section \<open>Which tags a digest is given\<close>

text \<open>A registry that answers the digest \<^term>\<open>D t\<close> for the tag \<^term>\<open>t\<close>, whenever and with
  whatever account it is asked.\<close>
definition steady :: "'h http \<Rightarrow> registry_env \<Rightarrow> Ref \<Rightarrow> (string \<Rightarrow> (fetch_error, string) result) \<Rightarrow> bool" where
  "steady h env ref D \<longleftrightarrow> (\<forall>tag kind s. fst (session_digest h env ref tag kind s) = D tag)"

lemma resolve_candidates_set:
  assumes "steady h env ref D"
    and "resolve_candidates h env ref tags remaining resolved lastErr kind s = ((resolved', lastErr'), s')"
  shows "set resolved' = set resolved \<union> {(t, d). d \<in> set remaining \<and> find (\<lambda>t. D t = Inr d) tags = Some t}
    \<and> (lastErr' \<noteq> None \<longrightarrow> lastErr \<noteq> None \<or> (\<exists>t \<in> set tags. \<exists>e. D t = Inl e))"
  using assms(2)
proof (induction tags arbitrary: remaining resolved lastErr kind s)
  case (Cons tag tags)
  obtain a kind1 s1 where d: "session_digest h env ref tag kind s = (a, kind1, s1)" by (rule prod_cases3)
  have a: "D tag = a" using assms(1) d unfolding steady_def by (metis fst_conv)
  show ?case
  proof (cases a)
    case (Inl e)
    then show ?thesis using Cons.IH[of remaining resolved "Some e" kind1 s1] Cons.prems d a by auto
  next
    case (Inr digest)
    show ?thesis
    proof (cases "digest \<in> set remaining")
      case False
      then show ?thesis
        using Cons.IH[of remaining resolved lastErr kind1 s1] Cons.prems d a Inr by auto
    next
      case True
      have split: "{(t, d'). d' \<in> set remaining \<and> find (\<lambda>t. D t = Inr d') (tag # tags) = Some t} =
          insert (tag, digest) {(t, d'). d' \<in> set (removeAll digest remaining) \<and> find (\<lambda>t. D t = Inr d') tags = Some t}"
        using a Inr True by auto
      show ?thesis
      proof (cases "removeAll digest remaining = []")
        case empty: True
        then have "resolved' = resolved @ [(tag, digest)]" "lastErr' = lastErr"
          using Cons.prems d Inr True by (simp_all add: Let_def)
        then show ?thesis unfolding split empty by simp
      next
        case False
        then have "resolve_candidates h env ref tags (removeAll digest remaining) (resolved @ [(tag, digest)]) lastErr kind1 s1 =
            ((resolved', lastErr'), s')"
          using Cons.prems d Inr True by (simp add: Let_def)
        from Cons.IH[OF this] show ?thesis unfolding split by auto
      qed
    qed
  qed
qed auto

lemma find_sorted_min:
  assumes "find P (sort_key f xs) = Some x"
  shows "x \<in> set xs \<and> P x \<and> (\<forall>y \<in> set xs. P y \<longrightarrow> f x \<le> f y)"
proof -
  obtain i where i: "i < length (sort_key f xs)" "P (sort_key f xs ! i)" "x = sort_key f xs ! i"
      "\<forall>j < i. \<not> P (sort_key f xs ! j)"
    using assms by (auto simp: find_Some_iff)
  have "f x \<le> f y" if y: "y \<in> set xs" "P y" for y
  proof -
    obtain j where j: "j < length (sort_key f xs)" "y = sort_key f xs ! j"
      using y(1) by (metis in_set_conv_nth set_sort)
    then have "i \<le> j" using i(4) y(2) not_le by blast
    then show ?thesis using sorted_nth_mono[of "map f (sort_key f xs)" i j] i(1,3) j by simp
  qed
  then show ?thesis using i by (metis nth_mem set_sort)
qed

lemma tag_rank_inj: "tag_rank t = tag_rank t' \<Longrightarrow> t = t'"
proof -
  assume "tag_rank t = tag_rank t'"
  then have "map (\<lambda>c. - of_char c :: int) t = map (\<lambda>c. - of_char c) t'" by (simp add: tag_rank_def)
  moreover have "inj (\<lambda>c. - of_char c :: int)" by (auto simp: inj_def)
  ultimately show "t = t'" by (metis inj_map_eq_map)
qed

text \<open>The best version tag of a digest among those listed.\<close>
definition best_tag :: "string list \<Rightarrow> (string \<Rightarrow> (fetch_error, string) result) \<Rightarrow> string \<Rightarrow> string \<Rightarrow> bool" where
  "best_tag tags D d t \<longleftrightarrow> t \<in> set tags \<and> IsVersionTag t \<and> D t = Inr d
    \<and> (\<forall>t' \<in> set tags. IsVersionTag t' \<and> D t' = Inr d \<longrightarrow> tag_rank t \<le> tag_rank t')"

lemma best_tag_find:
  "best_tag tags D d t \<longleftrightarrow> find (\<lambda>t. D t = Inr d) (sort_key tag_rank (filter IsVersionTag tags)) = Some t"
  (is "_ \<longleftrightarrow> find ?P ?ts = Some t")
proof
  assume "find ?P ?ts = Some t"
  from find_sorted_min[OF this] show "best_tag tags D d t" by (auto simp: best_tag_def)
next
  assume b: "best_tag tags D d t"
  then obtain t' where t': "find ?P ?ts = Some t'"
    by (cases "find ?P ?ts") (auto simp: best_tag_def find_None_iff)
  have "tag_rank t' \<le> tag_rank t" "tag_rank t \<le> tag_rank t'"
    using find_sorted_min[OF t'] b by (auto simp: best_tag_def)
  then show "find ?P ?ts = Some t" using t' tag_rank_inj[of t t'] by simp
qed

text \<open>On a registry whose manifests do not change while it is asked, resolving digests to versions
  gives every wanted digest exactly its best version tag, the one with the most parts, then the
  shortest, then the greatest name, if any listed version tag has that digest, and nothing else. An
  error is reported only when nothing was resolved and some tag could not be read.\<close>

theorem resolve_version_tags_best:
  assumes "steady h env ref D" "Registry ref \<noteq> hub_registry" "clientFor h env ref = None"
    and "ListTags h env ref s = (Inr tags, s1)" "ResolveVersionTags h env ref wanted s = (res, s2)"
  shows "(\<forall>resolved. res = Inr resolved \<longrightarrow>
      (\<forall>t d. (t, d) \<in> set resolved \<longleftrightarrow> (d, True) \<in> set wanted \<and> best_tag tags D d t))
    \<and> (\<forall>err. res = Inl err \<longrightarrow> (\<exists>t \<in> set tags. \<exists>e. D t = Inl e)
      \<and> \<not> (\<exists>t d. (d, True) \<in> set wanted \<and> best_tag tags D d t))"
proof -
  let ?cs = "sort_key tag_rank (filter IsVersionTag tags)" and ?want = "map fst (filter snd wanted)"
  obtain resolved lastErr s3 where r: "resolve_candidates h env ref ?cs ?want [] None None s1 = ((resolved, lastErr), s3)"
    by (metis surj_pair)
  have want: "d \<in> set ?want \<longleftrightarrow> (d, True) \<in> set wanted" for d by force
  have set: "set resolved = {(t, d). (d, True) \<in> set wanted \<and> best_tag tags D d t}"
    and err: "lastErr = Some e \<Longrightarrow> \<exists>t \<in> set tags. \<exists>e. D t = Inl e" for e
    using resolve_candidates_set[OF assms(1) r] unfolding best_tag_find want by auto
  have "res = (case (resolved, lastErr) of ([], Some e) \<Rightarrow> Inl e | _ \<Rightarrow> Inr resolved)"
    using assms(2-5) r unfolding ResolveVersionTags_def by (auto split: list.splits option.splits)
  then show ?thesis
  proof (cases "resolved = [] \<and> lastErr \<noteq> None")
    case True
    then obtain e where e: "resolved = []" "lastErr = Some e" by blast
    then have "{(t, d). (d, True) \<in> set wanted \<and> best_tag tags D d t} = {}" using set by simp
    moreover have "res = Inl e" using \<open>res = _\<close> e by simp
    ultimately show ?thesis using err[OF e(2)] by blast
  next
    case False
    then have "res = Inr resolved" using \<open>res = _\<close> by (auto split: list.splits option.splits)
    then show ?thesis using set by blast
  qed
qed

definition tag_server :: "get_request \<Rightarrow> get_response" where
  "tag_server q =
    (let rest = u_rest (gr_url q) in
     if rest = ''v2/app/tags/list?n=10000''
     then \<lparr>gs_status = 200, gs_headers = [], gs_body = Some (JObj [(''tags'', JArr (map JStr [''1'', ''latest'', ''1.2'', ''1.2.3'']))])\<rparr>
     else case map_of [(''v2/app/manifests/1'', ''A''), (''v2/app/manifests/1.2'', ''A''), (''v2/app/manifests/1.2.3'', ''B'')] rest of
       Some d \<Rightarrow> answer 200 [(''Docker-Content-Digest'', d)] | None \<Rightarrow> answer 404 [])"

definition tag_request :: "string \<Rightarrow> get_request" where
  "tag_request tag = \<lparr>gr_url = \<lparr>u_scheme = ''https'', u_host = ''r.example'', u_rest = ''v2/app/manifests/'' @ tag\<rparr>,
     gr_accept = '''', gr_auth = NoAuth\<rparr>"

lemma tag_server_steady: "steady (served tag_server) bob_env app_ref (\<lambda>tag. digest_of (tag_server (tag_request tag)))"
proof -
  have p: "simple_parse (api_url app_ref (''/manifests/'' @ tag)) = Some (gr_url (tag_request tag))" for tag
    by (simp add: simple_parse_def api_url_def app_ref_def tag_request_def has_prefix_iff trim_prefix_def)
  have q: "tag_server \<lparr>gr_url = gr_url (tag_request tag), gr_accept = a, gr_auth = b\<rparr> = tag_server (tag_request tag)" for tag a b
    by (simp add: tag_server_def)
  have n: "gs_status (tag_server (tag_request tag)) \<noteq> 401" for tag
    by (simp add: tag_server_def answer_def Let_def split: option.split)
  have d: "client_do (served tag_server) r s = (Inr (tag_server r), s)" for r s
    by (rule client_do_plain) (simp_all add: served_def is_redirect_def tag_server_def answer_def Let_def split: option.split)
  have parse: "ht_parse (served tag_server) (api_url app_ref (''/manifests/'' @ tag)) = Some (gr_url (tag_request tag))" for tag
    using p by (simp only: served_def http.simps)
  have sent: "send_get (served tag_server) (api_url app_ref (''/manifests/'' @ tag)) a auth s = (Inr (tag_server (tag_request tag)), s)" for tag a auth s
    unfolding send_get_def d parse option.case prod.case sum.case q ..
  have g: "manifest_get (served tag_server) (api_url app_ref (''/manifests/'' @ tag)) auth s = (Inr (tag_server (tag_request tag)), s)" for tag auth s
    using manifest_get_send[of "served tag_server" "api_url app_ref (''/manifests/'' @ tag)" auth bob_env app_ref] sent by auto
  show ?thesis unfolding steady_def session_digest_def Let_def g by (simp add: n)
qed

theorem resolve_version_tags_best_witness:
  "fst (ResolveVersionTags (served tag_server) bob_env app_ref [(''A'', True), (''B'', True), (''C'', False)] ()) =
     Inr [(''1.2.3'', ''B''), (''1.2'', ''A'')]
   \<and> best_tag [''1.2.3'', ''1.2'', ''latest'', ''1''] (\<lambda>tag. digest_of (tag_server (tag_request tag))) ''A'' ''1.2''"
proof -
  let ?r = "ResolveVersionTags (served tag_server) bob_env app_ref [(''A'', True), (''B'', True), (''C'', False)] ()"
  have r: "?r = (Inr [(''1.2.3'', ''B''), (''1.2'', ''A'')], ())" by code_simp
  have l: "ListTags (served tag_server) bob_env app_ref () = (Inr [''1.2.3'', ''1.2'', ''latest'', ''1''], ())" by code_simp
  have n: "Registry app_ref \<noteq> hub_registry" "clientFor (served tag_server) bob_env app_ref = None" by code_simp+
  have "(''1.2'', ''A'') \<in> set [(''1.2.3'', ''B''), (''1.2'', ''A'')]" by simp
  then show ?thesis
    using resolve_version_tags_best[OF tag_server_steady n l r] r by (metis fst_conv)
qed

end
