(* ===== verification/Checker.thy ===== *)
theory Checker
  imports Scheduler Registry_Client Semver
begin

text \<open>
  \<^verbatim>\<open>internal/scheduler/check.go\<close>: the registry check. It brings the container table up to date with
  the Docker daemon, compares the digests of every image with its registry, stores the update
  candidates of each scope, and finds names for the versions. Docker's image inspection and \<^verbatim>\<open>Ping\<close>
  are parameters, as are the HTTP transport and the digest syntax of the Docker library. Metrics
  and the text of messages are left out.
\<close>

section \<open>State\<close>

record 'd images =
  im_ping :: "'d \<Rightarrow> bool \<times> 'd"
  im_inspect :: "string \<Rightarrow> 'd \<Rightarrow> (string, string list \<times> (string \<times> string) list option) result \<times> 'd"
    \<comment> \<open>the repository digests and the labels, if there are any\<close>

record ('d, 'h) checker =
  ck_engine :: "'d engine"
  ck_images :: "'d images"
  ck_http :: "'h http"
  ck_env :: registry_env
  ck_os :: string
  ck_arch :: string
  ck_valid :: "string \<Rightarrow> bool"  \<comment> \<open>the syntax of a digest\<close>

record ('d, 'h) check_world =
  cw_sched :: "'d sched_world"
  cw_versions :: version_table
  cw_log :: "event_row list"
  cw_net :: 'h

abbreviation cw_world :: "('d, 'h) check_world \<Rightarrow> 'd world" where
  "cw_world s \<equiv> sw_world (cw_sched s)"

abbreviation cw_containers :: "('d, 'h) check_world \<Rightarrow> container_table" where
  "cw_containers s \<equiv> wd_containers (cw_world s)"

abbreviation cw_candidates :: "('d, 'h) check_world \<Rightarrow> candidate_table" where
  "cw_candidates s \<equiv> sw_candidates (cw_sched s)"

definition set_world :: "'d world \<Rightarrow> ('d, 'h) check_world \<Rightarrow> ('d, 'h) check_world" where
  "set_world w s = s\<lparr>cw_sched := (cw_sched s)\<lparr>sw_world := w\<rparr>\<rparr>"

definition set_containers :: "container_table \<Rightarrow> ('d, 'h) check_world \<Rightarrow> ('d, 'h) check_world" where
  "set_containers tbl s = set_world ((cw_world s)\<lparr>wd_containers := tbl\<rparr>) s"

definition set_candidates :: "candidate_table \<Rightarrow> ('d, 'h) check_world \<Rightarrow> ('d, 'h) check_world" where
  "set_candidates tbl s = s\<lparr>cw_sched := (cw_sched s)\<lparr>sw_candidates := tbl\<rparr>\<rparr>"

definition k_now :: "('d, 'h) checker \<Rightarrow> ('d, 'h) check_world \<Rightarrow> time" where
  "k_now k s = now (ck_engine k) (cw_world s)"

text \<open>An event goes to the log and to its table.\<close>
definition k_emit :: "('d, 'h) checker \<Rightarrow> event \<Rightarrow> ('d, 'h) check_world \<Rightarrow> ('d, 'h) check_world" where
  "k_emit k ev s = (set_world (emit ev (cw_world s)) s)\<lparr>cw_log := InsertEvent (k_now k s) ev (cw_log s)\<rparr>"

definition k_notify :: "string \<Rightarrow> docker_container \<Rightarrow> ('d, 'h) check_world \<Rightarrow> ('d, 'h) check_world" where
  "k_notify kind c s = set_world (notify kind (dk_name c) (dk_stack c) (cw_world s)) s"

definition k_sql :: "('d, 'h) checker \<Rightarrow> (('d, 'h) check_world \<Rightarrow> 'a \<times> ('d, 'h) check_world) \<Rightarrow> ('d, 'h) check_world \<Rightarrow>
    'a option \<times> ('d, 'h) check_world" where
  "k_sql k f s =
    (case sql (ck_engine k) (\<lambda>w. ((), w)) (cw_world s) of
       (Inl _, w) \<Rightarrow> (None, set_world w s)
     | (Inr _, w) \<Rightarrow> (case f (set_world w s) of (a, s') \<Rightarrow> (Some a, s')))"

definition on_docker :: "('d \<Rightarrow> 'a \<times> 'd) \<Rightarrow> ('d, 'h) check_world \<Rightarrow> 'a \<times> ('d, 'h) check_world" where
  "on_docker f s = (case f (wd_env (cw_world s)) of (a, d) \<Rightarrow> (a, set_world ((cw_world s)\<lparr>wd_env := d\<rparr>) s))"

definition on_net :: "('h \<Rightarrow> 'a \<times> 'h) \<Rightarrow> ('d, 'h) check_world \<Rightarrow> 'a \<times> ('d, 'h) check_world" where
  "on_net f s = (case f (cw_net s) of (a, h) \<Rightarrow> (a, s\<lparr>cw_net := h\<rparr>))"

definition image_digests :: "'d images \<Rightarrow> string \<Rightarrow> 'd \<Rightarrow> (string, string list) result \<times> 'd" where
  "image_digests im imageID d =
    (case im_inspect im imageID d of
       (Inl err, d') \<Rightarrow> (Inl err, d') | (Inr (ds, _), d') \<Rightarrow> (Inr (ImageDigests ds), d'))"

definition ImageVersionLabel :: "'d images \<Rightarrow> string \<Rightarrow> string \<Rightarrow> 'd \<Rightarrow> (string, string) result \<times> 'd" where
  "ImageVersionLabel im imageID repository d =
    (case im_inspect im imageID d of
       (Inl err, d') \<Rightarrow> (Inl err, d')
     | (Inr (_, labels), d') \<Rightarrow>
         (Inr (case labels of None \<Rightarrow> '''' | Some ls \<Rightarrow> VersionFromLabels ls repository), d'))"

abbreviation sync_failed :: "level \<Rightarrow> string \<Rightarrow> event" where
  "sync_failed lvl name \<equiv> event_of lvl ''container.sync_failed'' name ActorSystem '''' []"

text \<open>A statement whose failure is only logged.\<close>
definition k_try :: "('d, 'h) checker \<Rightarrow> event \<Rightarrow> (('d, 'h) check_world \<Rightarrow> ('d, 'h) check_world) \<Rightarrow> ('d, 'h) check_world \<Rightarrow> ('d, 'h) check_world" where
  "k_try k ev f s = (case k_sql k (\<lambda>s'. ((), f s')) s of (None, s1) \<Rightarrow> k_emit k ev s1 | (Some _, s1) \<Rightarrow> s1)"

section \<open>The reference to compare\<close>

definition registryImageRef :: "(string \<Rightarrow> bool) \<Rightarrow> string \<Rightarrow> string \<Rightarrow> string" where
  "registryImageRef valid liveImage storedImage =
    (if IsDigestReference valid liveImage \<and> storedImage \<noteq> '''' \<and> \<not> IsDigestReference valid storedImage
     then storedImage else liveImage)"

definition stored_reference :: "('d, 'h) checker \<Rightarrow> docker_container \<Rightarrow> ('d, 'h) check_world \<Rightarrow> string \<times> ('d, 'h) check_world" where
  "stored_reference k c s =
    (if IsDigestReference (ck_valid k) (dk_image c) then
       (case k_sql k (\<lambda>s. (GetContainer (dk_id c) (cw_containers s), s)) s of
          (Some (Inr rec), s1) \<Rightarrow> (registryImageRef (ck_valid k) (dk_image c) (c_current_image rec), s1)
        | (_, s1) \<Rightarrow> (dk_image c, s1))
     else (dk_image c, s))"

definition image_reference :: "('d, 'h) checker \<Rightarrow> docker_container \<Rightarrow> ('d, 'h) check_world \<Rightarrow> string \<times> ('d, 'h) check_world" where
  "image_reference k c s =
    (case stored_reference k c s of
       (img, s1) \<Rightarrow>
         if IsDigestReference (ck_valid k) img then
           (case k_sql k (\<lambda>s. (RecoverImageReference (dk_name c) (cw_log s), s)) s1 of
              (Some (Inr recovered), s2) \<Rightarrow>
                (recovered, k_try k (sync_failed LevelWarn (dk_name c))
                   (\<lambda>s. set_containers (RepairCurrentImage (dk_id c) recovered (cw_containers s)) s) s2)
            | (_, s2) \<Rightarrow> (img, s2))
         else (img, s1))"

section \<open>Candidates\<close>

type_synonym candidates = "string \<rightharpoonup> UpdateCandidate"

definition candidate_at :: "string \<Rightarrow> string \<Rightarrow> string \<Rightarrow> string \<Rightarrow> UpdateCandidate" where
  "candidate_at cid scope img version = \<lparr>uc_container = cid, uc_scope = scope, uc_image = img, uc_version = version, uc_detected = 0\<rparr>"

definition moved_candidates :: "bool \<Rightarrow> string \<Rightarrow> string \<Rightarrow> string \<Rightarrow> candidates" where
  "moved_candidates hasUpdate cid imageRef tag =
    (\<lambda>scope. if hasUpdate \<and> scope \<in> set candidate_scopes then Some (candidate_at cid scope imageRef tag) else None)"

type_synonym tag_cache = "string \<rightharpoonup> string list"

definition cache_key :: "Ref \<Rightarrow> string" where
  "cache_key ref = Registry ref @ ''/'' @ Repository ref"

text \<open>The tags of the repository, listed once per run; a failed listing is remembered as empty.\<close>
definition semver_tags :: "('d, 'h) checker \<Rightarrow> docker_container \<Rightarrow> Ref \<Rightarrow> tag_cache \<Rightarrow> ('d, 'h) check_world \<Rightarrow>
    string list \<times> tag_cache \<times> ('d, 'h) check_world" where
  "semver_tags k c ref cache s =
    (case cache (cache_key ref) of
       Some tags \<Rightarrow> (tags, cache, s)
     | None \<Rightarrow>
         (case on_net (ListTags (ck_http k) (ck_env k) ref) s of
            (Inr tags, s1) \<Rightarrow> (tags, cache(cache_key ref \<mapsto> tags), s1)
          | (Inl _, s1) \<Rightarrow> ([], cache(cache_key ref \<mapsto> []),
              k_emit k (event_of LevelWarn ''registry.tags_failed'' (dk_name c) ActorSystem '''' []) s1)))"

text \<open>The value of every listed tag is the empty string, which is looked for among the local digests.\<close>
definition semver_candidates :: "string \<Rightarrow> Ref \<Rightarrow> string list \<Rightarrow> string list \<Rightarrow> candidates \<Rightarrow> candidates" where
  "semver_candidates cid ref localDigests tags cands =
    (case SelectSemverCandidates tags (Tag ref) of
       None \<Rightarrow> cands
     | Some selected \<Rightarrow>
         (\<lambda>scope. case selected scope of
            None \<Rightarrow> cands scope
          | Some tag \<Rightarrow> if '''' \<in> set localDigests then cands scope
              else Some (candidate_at cid scope (ReplaceTag ref tag) tag)))"

definition find_candidates :: "('d, 'h) checker \<Rightarrow> docker_container \<Rightarrow> string \<Rightarrow> Ref \<Rightarrow> string list \<Rightarrow> string \<Rightarrow> tag_cache \<Rightarrow>
    ('d, 'h) check_world \<Rightarrow> candidates \<times> tag_cache \<times> ('d, 'h) check_world" where
  "find_candidates k c imageRef ref localDigests remoteDigest cache s =
    (let moved = moved_candidates (remoteDigest \<notin> set localDigests) (dk_id c) imageRef (Tag ref)
     in if IsStrictSemverTag (Tag ref) then
          (case semver_tags k c ref cache s of
             (tags, cache1, s1) \<Rightarrow> (semver_candidates (dk_id c) ref localDigests tags moved, cache1, s1))
        else (moved, cache, s))"

text \<open>The map has no other keys than the scopes; in which order its values are stored does not matter
  to a table keyed by scope.\<close>
definition candidate_list :: "candidates \<Rightarrow> UpdateCandidate list" where
  "candidate_list cands = List.map_filter cands candidate_scopes"

text \<open>The notice of a new update; the versions of the scopes are logged as a list.\<close>
definition announce :: "('d, 'h) checker \<Rightarrow> docker_container \<Rightarrow> candidates \<Rightarrow> ('d, 'h) check_world \<Rightarrow> ('d, 'h) check_world" where
  "announce k c cands s =
    (case k_sql k (\<lambda>s. (GetContainer (dk_id c) (cw_containers s), s)) s of
       (prev, s1) \<Rightarrow>
         if (case prev of Some (Inr rec) \<Rightarrow> c_update_available rec | _ \<Rightarrow> False) then s1
         else k_notify ''update.available'' c
           (k_emit k ((event_of LevelInfo ''update.candidate_detected'' (dk_name c) ActorSystem ''''
              [(''versions'', AList (map uc_version (candidate_list cands)))])\<lparr>ev_stack := dk_stack c\<rparr>) s1))"

definition store_candidates :: "('d, 'h) checker \<Rightarrow> docker_container \<Rightarrow> candidates \<Rightarrow> bool \<Rightarrow> ('d, 'h) check_world \<Rightarrow> ('d, 'h) check_world" where
  "store_candidates k c cands hasUpdate s =
    (let s1 = k_try k (sync_failed LevelError (dk_name c))
           (\<lambda>s'. set_candidates (ReplaceUpdateCandidates (dk_id c) (candidate_list cands) (k_now k s) (cw_candidates s')) s') s
     in k_try k (sync_failed LevelError (dk_name c))
          (\<lambda>s'. set_containers (SetUpdateAvailable (dk_id c) hasUpdate (k_now k s1) (cw_containers s')) s') s1)"

section \<open>Names for versions\<close>

record versionHints =
  vh_current :: string
  vh_available :: string
  vh_skip_current :: bool
  vh_skip_available :: bool

definition unresolvedVersionRetry :: int where "unresolvedVersionRetry = 6 * 3600 * nanos"

definition load_hint :: "('d, 'h) checker \<Rightarrow> Ref \<Rightarrow> string \<Rightarrow> ('d, 'h) check_world \<Rightarrow> (string \<times> bool) \<times> ('d, 'h) check_world" where
  "load_hint k ref digest s =
    (case k_sql k (\<lambda>s. (GetImageVersion (Registry ref) (Repository ref) digest (cw_versions s), s)) s of
       (Some (Some rec), s1) \<Rightarrow>
         (if iv_status rec = ''resolved'' \<and> IsVersionTag (iv_version rec) then (iv_version rec, False)
          else if iv_status rec = ''unresolved'' \<and> k_now k s1 - iv_checked rec < unresolvedVersionRetry then ('''', True)
          else ('''', False), s1)
     | (_, s1) \<Rightarrow> (('''', False), s1))"

definition current_hint :: "('d, 'h) checker \<Rightarrow> Ref \<Rightarrow> string \<Rightarrow> string \<Rightarrow> string \<Rightarrow> ('d, 'h) check_world \<Rightarrow> (string \<times> bool) \<times> ('d, 'h) check_world" where
  "current_hint k ref containerID currentDigest localVersion s =
    (if localVersion \<noteq> '''' then ((localVersion, False), s)
     else case load_hint k ref currentDigest s of
       ((cur, skip), s1) \<Rightarrow>
         if cur = '''' \<and> \<not> skip then
           (case k_sql k (\<lambda>s. (GetContainer containerID (cw_containers s), s)) s1 of
              (Some (Inr rec), s2) \<Rightarrow> ((if IsVersionTag (c_current_version rec) then c_current_version rec else '''', False), s2)
            | (_, s2) \<Rightarrow> (('''', False), s2))
         else ((cur, skip), s1))"

definition loadVersionHints :: "('d, 'h) checker \<Rightarrow> Ref \<Rightarrow> string \<Rightarrow> string \<Rightarrow> string \<Rightarrow> bool \<Rightarrow> string \<Rightarrow> ('d, 'h) check_world \<Rightarrow>
    versionHints \<times> ('d, 'h) check_world" where
  "loadVersionHints k ref containerID currentDigest remoteDigest hasUpdate localVersion s =
    (case current_hint k ref containerID currentDigest localVersion s of
       ((cur, skip), s1) \<Rightarrow>
         (case (if hasUpdate then load_hint k ref remoteDigest s1 else (('''', False), s1)) of
            ((avail, skip'), s2) \<Rightarrow>
              (\<lparr>vh_current = cur, vh_available = avail, vh_skip_current = skip, vh_skip_available = skip'\<rparr>, s2)))"

datatype resolve_error = FetchFailed fetch_error | VersionNotFound

type_synonym version_cache = "string \<rightharpoonup> (string \<times> string) list"

text \<open>A hint, or the label of the manifest: the version to show and the hint it leaves behind.\<close>
definition label_or_digest :: "('d, 'h) checker \<Rightarrow> Ref \<Rightarrow> string \<Rightarrow> string \<Rightarrow> bool \<Rightarrow> ('d, 'h) check_world \<Rightarrow> (string \<times> string) \<times> ('d, 'h) check_world" where
  "label_or_digest k ref digest hint skip s =
    (if hint \<noteq> '''' then ((hint, hint), s)
     else if skip then ((digest, hint), s)
     else case on_net (VersionLabelForDigest (ck_http k) (ck_env k) (ck_os k) (ck_arch k) ref digest) s of
       (Inr label, s1) \<Rightarrow> (if label \<noteq> '''' then (label, label) else (digest, hint), s1)
     | (Inl _, s1) \<Rightarrow> ((digest, hint), s1))"

definition merge_tags :: "(string \<times> string) list \<Rightarrow> (string \<times> string) list \<Rightarrow> (string \<times> string) list" where
  "merge_tags fetched tags = fold (\<lambda>(name, digest). AList.update name digest) fetched tags"

abbreviation is_sha :: "string \<Rightarrow> bool" where
  "is_sha v \<equiv> has_prefix v ''sha256:''"

definition missing_digests :: "(string \<times> string) list \<Rightarrow> string \<Rightarrow> string \<Rightarrow> bool \<Rightarrow> string \<Rightarrow> string \<Rightarrow> bool \<Rightarrow> bool \<Rightarrow> string list" where
  "missing_digests tags currentDigest remoteDigest hasUpdate hintCurrent available skipCurrent skipAvailable =
    remdups ((if hintCurrent = '''' \<and> \<not> skipCurrent \<and> ResolveVersion tags currentDigest = None then [currentDigest] else [])
      @ (if hasUpdate \<and> \<not> skipAvailable \<and> is_sha available \<and> ResolveVersion tags remoteDigest = None then [remoteDigest] else []))"

definition resolveVersions :: "('d, 'h) checker \<Rightarrow> version_cache \<Rightarrow> Ref \<Rightarrow> string \<Rightarrow> string \<Rightarrow> bool \<Rightarrow> versionHints \<Rightarrow> ('d, 'h) check_world \<Rightarrow>
    (string \<times> string \<times> resolve_error option) \<times> version_cache \<times> ('d, 'h) check_world" where
  "resolveVersions k cache ref currentDigest remoteDigest hasUpdate hints s =
    (if IsVersionTag (Tag ref) then ((Tag ref, Tag ref, None), cache, s)
     else case label_or_digest k ref currentDigest (vh_current hints) (vh_skip_current hints) s of
       ((current, hintCurrent), s1) \<Rightarrow>
         (case (if hasUpdate then label_or_digest k ref remoteDigest (vh_available hints) (vh_skip_available hints) s1
                else ((current, vh_available hints), s1)) of
            ((available, _), s2) \<Rightarrow>
              (let old = (case cache (cache_key ref) of None \<Rightarrow> [] | Some tags \<Rightarrow> tags);
                   missing = missing_digests old currentDigest remoteDigest hasUpdate hintCurrent available
                     (vh_skip_current hints) (vh_skip_available hints);
                   (tags, cache', err, s3) =
                     (if missing = [] then (old, cache, None, s2)
                      else case on_net (ResolveVersionTags (ck_http k) (ck_env k) ref (map (\<lambda>d. (d, True)) missing)) s2 of
                        (Inr fetched, s3) \<Rightarrow> (merge_tags fetched old, cache(cache_key ref \<mapsto> merge_tags fetched old), None, s3)
                      | (Inl e, s3) \<Rightarrow> (old, cache, Some (FetchFailed e), s3));
                   current' = (case ResolveVersion tags currentDigest of Some v \<Rightarrow> v | None \<Rightarrow> current);
                   available' = (if hasUpdate then (case ResolveVersion tags remoteDigest of Some v \<Rightarrow> v | None \<Rightarrow> available) else current');
                   err' = (if err = None \<and> (\<not> vh_skip_current hints \<and> is_sha current' \<or> hasUpdate \<and> \<not> vh_skip_available hints \<and> is_sha available')
                           then Some VersionNotFound else err)
               in ((current', available', err'), cache', s3))))"

definition store_version :: "('d, 'h) checker \<Rightarrow> Ref \<Rightarrow> resolve_error option \<Rightarrow> string \<Rightarrow> string \<Rightarrow> ('d, 'h) check_world \<Rightarrow> ('d, 'h) check_world" where
  "store_version k ref err digest version s =
    (let rec = \<lparr>iv_registry = Registry ref, iv_repository = Repository ref, iv_digest = digest, iv_version = '''', iv_status = '''', iv_checked = k_now k s\<rparr>;
         put = (\<lambda>rec. snd (k_sql k (\<lambda>s'. ((), s'\<lparr>cw_versions := PutImageVersion rec (cw_versions s')\<rparr>)) s))
     in if IsVersionTag version then put (rec\<lparr>iv_version := version, iv_status := ''resolved''\<rparr>)
        else if err = Some VersionNotFound then put (rec\<lparr>iv_status := ''unresolved''\<rparr>)
        else s)"

definition storeVersionResults :: "('d, 'h) checker \<Rightarrow> Ref \<Rightarrow> string \<Rightarrow> string \<Rightarrow> bool \<Rightarrow> string \<Rightarrow> string \<Rightarrow> resolve_error option \<Rightarrow>
    ('d, 'h) check_world \<Rightarrow> ('d, 'h) check_world" where
  "storeVersionResults k ref currentDigest remoteDigest hasUpdate currentVersion availableVersion err s =
    (let s1 = store_version k ref err currentDigest currentVersion s
     in if hasUpdate then store_version k ref err remoteDigest availableVersion s1 else s1)"

section \<open>The check of one container\<close>

record caches =
  ca_versions :: version_cache
  ca_tags :: tag_cache

type_synonym counts = "nat \<times> nat \<times> nat"  \<comment> \<open>checked, available, failed\<close>

text \<open>What follows the answer of the registry.\<close>
definition compare_image :: "('d, 'h) checker \<Rightarrow> caches \<Rightarrow> docker_container \<Rightarrow> string \<Rightarrow> Ref \<Rightarrow> string list \<Rightarrow> string \<Rightarrow> string \<Rightarrow>
    ('d, 'h) check_world \<Rightarrow> counts \<times> caches \<times> ('d, 'h) check_world" where
  "compare_image k ca c imageRef ref localDigests localVersion remoteDigest s =
    (case find_candidates k c imageRef ref localDigests remoteDigest (ca_tags ca) s of
       (cands, tagCache, s1) \<Rightarrow>
         (let hasUpdate = (if IsStrictSemverTag (Tag ref) then candidate_list cands \<noteq> [] else remoteDigest \<notin> set localDigests);
              s2 = (if hasUpdate then announce k c cands s1 else s1);
              s3 = store_candidates k c cands hasUpdate s2
          in case loadVersionHints k ref (dk_id c) (hd localDigests) remoteDigest hasUpdate localVersion s3 of
               (hints, s4) \<Rightarrow>
                 (case resolveVersions k (ca_versions ca) ref (hd localDigests) remoteDigest hasUpdate hints s4 of
                    ((current, available, err), versionCache, s5) \<Rightarrow>
                      (let s6 = storeVersionResults k ref (hd localDigests) remoteDigest hasUpdate current available err s5;
                           s7 = (if err \<noteq> None
                                 then k_emit k (event_of LevelWarn ''registry.version_resolution_failed'' (dk_name c) ActorSystem '''' []) s6 else s6);
                           available' = (case cands ''major'' of
                               Some newest \<Rightarrow> if IsVersionTag (uc_version newest) then uc_version newest else available
                             | None \<Rightarrow> available);
                           s8 = k_try k (sync_failed LevelError (dk_name c))
                             (\<lambda>s. set_containers (SetVersions (dk_id c) current available' (cw_containers s)) s) s7
                       in ((1, if hasUpdate then 1 else 0, 0), \<lparr>ca_versions = versionCache, ca_tags = tagCache\<rparr>, s8)))))"

text \<open>From the reference on: the label of the image and the digest the registry has.\<close>
definition check_reference :: "('d, 'h) checker \<Rightarrow> caches \<Rightarrow> docker_container \<Rightarrow> string \<Rightarrow> string list \<Rightarrow> ('d, 'h) check_world \<Rightarrow>
    counts \<times> caches \<times> ('d, 'h) check_world" where
  "check_reference k ca c imageRef localDigests s =
    (let ref = ParseRef imageRef
     in case on_docker (ImageVersionLabel (ck_images k) (dk_image_id c) (Repository ref)) s of
          (label, s1) \<Rightarrow>
            (let s2 = (case label of
                   Inl _ \<Rightarrow> k_emit k (event_of LevelWarn ''version.label_read_failed'' (dk_name c) ActorSystem '''' []) s1
                 | Inr _ \<Rightarrow> s1);
                 localVersion = (case label of Inl _ \<Rightarrow> '''' | Inr v \<Rightarrow> v)
             in case on_net (Digest (ck_http k) (ck_env k) ref) s2 of
                  (Inl _, s3) \<Rightarrow>
                    ((0, 0, 1), ca, k_notify ''check.failed'' c
                       (k_emit k (event_of LevelWarn ''registry.check_failed'' (dk_name c) ActorSystem '''' []) s3))
                | (Inr remoteDigest, s3) \<Rightarrow> compare_image k ca c imageRef ref localDigests localVersion remoteDigest s3))"

definition checkOneContainer :: "('d, 'h) checker \<Rightarrow> caches \<Rightarrow> docker_container \<Rightarrow> ('d, 'h) check_world \<Rightarrow> counts \<times> caches \<times> ('d, 'h) check_world" where
  "checkOneContainer k ca c s =
    (if dk_excluded c \<or> dk_image_id c = '''' then ((0, 0, 0), ca, s)
     else case on_docker (image_digests (ck_images k) (dk_image_id c)) s of
       (Inl _, s1) \<Rightarrow> ((0, 0, 0), ca, s1)
     | (Inr localDigests, s1) \<Rightarrow>
         if localDigests = [] then ((0, 0, 0), ca, s1)
         else (case image_reference k c s1 of
            (imageRef, s2) \<Rightarrow>
              if IsDigestReference (ck_valid k) imageRef \<or> trim_space imageRef = '''' then ((0, 0, 0), ca, s2)
              else check_reference k ca c imageRef localDigests s2))"

definition empty_caches :: caches where
  "empty_caches = \<lparr>ca_versions = Map.empty, ca_tags = Map.empty\<rparr>"

fun check_loop :: "('d, 'h) checker \<Rightarrow> docker_container list \<Rightarrow> counts \<Rightarrow> caches \<Rightarrow> ('d, 'h) check_world \<Rightarrow> counts \<times> ('d, 'h) check_world" where
  "check_loop k [] n ca s = (n, s)"
| "check_loop k (c # cs) (n, m, f) ca s =
    (case checkOneContainer k ca c s of ((dn, dm, df), ca', s') \<Rightarrow> check_loop k cs (n + dn, m + dm, f + df) ca' s')"

definition checkForUpdates :: "('d, 'h) checker \<Rightarrow> docker_container list \<Rightarrow> ('d, 'h) check_world \<Rightarrow> ('d, 'h) check_world" where
  "checkForUpdates k cs s =
    (case check_loop k cs (0, 0, 0) empty_caches s of
       ((checked, available, failed), s1) \<Rightarrow>
         k_emit k (event_of LevelInfo ''containers.checked'' '''' ActorNone ''''
           [(''checked'', AInt (int checked)), (''available'', AInt (int available)), (''failed'', AInt (int failed))]) s1)"

section \<open>The whole check\<close>

text \<open>The exclusions of the settings come on top of the label.\<close>
definition excluded_too :: "Exclusions \<Rightarrow> docker_container \<Rightarrow> docker_container" where
  "excluded_too ex c =
    (if dk_name c \<in> set (ex_containers ex) \<or> dk_stack c \<in> set (ex_stacks ex) then c\<lparr>dk_excluded := True\<rparr> else c)"

definition seen_record :: "docker_container \<Rightarrow> ContainerRecord" where
  "seen_record c = \<lparr>c_id = dk_id c, c_name = dk_name c, c_stack = dk_stack c, c_state = dk_state c, c_status = dk_status c,
     c_current_image = dk_image c, c_previous_image = '''', c_current_version = '''', c_available_version = '''',
     c_update_available = False, c_excluded = dk_excluded c, c_last_checked_at = None\<rparr>"

definition see_container :: "('d, 'h) checker \<Rightarrow> docker_container \<Rightarrow> ('d, 'h) check_world \<Rightarrow> ('d, 'h) check_world" where
  "see_container k c =
    k_try k (sync_failed LevelError (dk_name c)) (\<lambda>s. set_containers (UpsertSeen (seen_record c) (cw_containers s)) s)"

definition load_exclusions :: "('d, 'h) checker \<Rightarrow> ('d, 'h) check_world \<Rightarrow> Exclusions \<times> ('d, 'h) check_world" where
  "load_exclusions k s =
    (case k_sql k (\<lambda>s. (GetExclusions (wd_settings (cw_world s)), s)) s of
       (None, s1) \<Rightarrow> (\<lparr>ex_containers = [], ex_stacks = []\<rparr>, s1) | (Some ex, s1) \<Rightarrow> (ex, s1))"

definition discover :: "('d, 'h) checker \<Rightarrow> docker_container list \<Rightarrow> ('d, 'h) check_world \<Rightarrow> ('d, 'h) check_world" where
  "discover k cs s =
    (let s1 = fold (see_container k) cs s;
         s2 = k_try k (sync_failed LevelError '''')
           (\<lambda>s. set_containers (PruneContainers (map dk_id cs) (cw_containers s)) s) s1
     in k_emit k (event_of LevelInfo ''containers.discovered'' '''' ActorSystem '''' [(''count'', AInt (int (length cs)))]) s2)"

definition Check :: "('d, 'h) checker \<Rightarrow> ('d, 'h) check_world \<Rightarrow> ('d, 'h) check_world" where
  "Check k s =
    (case on_docker (im_ping (ck_images k)) s of
       (False, s1) \<Rightarrow> k_emit k (event_of LevelWarn ''docker.connect_failed'' '''' ActorSystem '''' []) s1
     | (True, s1) \<Rightarrow>
         (case on_docker (docker_List (ck_engine k)) s1 of
            (Inl _, s2) \<Rightarrow> k_emit k (event_of LevelError ''docker.list_failed'' '''' ActorSystem '''' []) s2
          | (Inr found, s2) \<Rightarrow>
              (case load_exclusions k s2 of
                 (ex, s3) \<Rightarrow> (let cs = map (excluded_too ex) found in checkForUpdates k cs (discover k cs s3)))))"

datatype now_error = StoreFailed db_error | ListFailed

definition k_by_name :: "('d, 'h) checker \<Rightarrow> string \<Rightarrow> ('d, 'h) check_world \<Rightarrow> (db_error, ContainerRecord) result \<times> ('d, 'h) check_world" where
  "k_by_name k name s =
    (case k_sql k (\<lambda>s. (GetContainerByName name (cw_containers s), s)) s of
       (None, s1) \<Rightarrow> (Inl DbFailed, s1)
     | (Some (Inl err), s1) \<Rightarrow> (Inl (DbError err), s1)
     | (Some (Inr rec), s1) \<Rightarrow> (Inr rec, s1))"

definition CheckOneContainerNow :: "('d, 'h) checker \<Rightarrow> string \<Rightarrow> ('d, 'h) check_world \<Rightarrow> (bool \<times> bool \<times> now_error option) \<times> ('d, 'h) check_world" where
  "CheckOneContainerNow k name s =
    (case k_by_name k name s of
       (Inl err, s1) \<Rightarrow> ((False, False, Some (StoreFailed err)), s1)
     | (Inr rec, s1) \<Rightarrow>
         (case on_docker (docker_List (ck_engine k)) s1 of
            (Inl _, s2) \<Rightarrow> ((False, False, Some ListFailed), s2)
          | (Inr live, s2) \<Rightarrow>
              (case find (\<lambda>c. dk_id c = c_id rec) live of
                 None \<Rightarrow> ((False, False, Some (StoreFailed (DbError ErrNotFound))), s2)
               | Some target \<Rightarrow>
                   (case checkOneContainer k empty_caches target s2 of
                      ((checked, _, _), _, s3) \<Rightarrow>
                        (case k_by_name k name s3 of
                           (Inl err, s4) \<Rightarrow> ((0 < checked, False, Some (StoreFailed err)), s4)
                         | (Inr updated, s4) \<Rightarrow> ((0 < checked, c_update_available updated, None), s4))))))"

text \<open>The versions of a container that has just been updated or rolled back.\<close>
definition versions_now :: "('d, 'h) checker \<Rightarrow> Ref \<Rightarrow> string \<Rightarrow> ('d, 'h) check_world \<Rightarrow> (string \<times> string) \<times> ('d, 'h) check_world" where
  "versions_now k ref containerID s =
    (case on_docker (en_inspect (ck_engine k) containerID) s of
       (Inl _, s1) \<Rightarrow> (('''', ''''), s1)
     | (Inr info, s1) \<Rightarrow>
         (case on_docker (image_digests (ck_images k) (in_image info)) s1 of
            (Inl _, s2) \<Rightarrow> (('''', ''''), s2)
          | (Inr localDigests, s2) \<Rightarrow>
              if localDigests = [] then (('''', ''''), s2)
              else (case on_net (Digest (ck_http k) (ck_env k) ref) s2 of
                 (remote, s3) \<Rightarrow>
                   (case on_docker (ImageVersionLabel (ck_images k) (in_image info) (Repository ref)) s3 of
                      (label, s4) \<Rightarrow>
                        (let localVersion = (case label of Inl _ \<Rightarrow> '''' | Inr v \<Rightarrow> v);
                             remoteDigest = (case remote of Inr d \<Rightarrow> d | Inl _ \<Rightarrow> hd localDigests);
                             hasUpdate = (case remote of Inr d \<Rightarrow> d \<notin> set localDigests | Inl _ \<Rightarrow> False)
                         in case loadVersionHints k ref containerID (hd localDigests) remoteDigest hasUpdate localVersion s4 of
                              (hints, s5) \<Rightarrow>
                                (case resolveVersions k Map.empty ref (hd localDigests) remoteDigest hasUpdate hints s5 of
                                   ((current, available, _), _, s6) \<Rightarrow>
                                     ((current, case remote of Inr _ \<Rightarrow> available | Inl _ \<Rightarrow> ''''), s6)))))))"

definition ResolveVersionAfterAction :: "('d, 'h) checker \<Rightarrow> string \<Rightarrow> string \<Rightarrow> ('d, 'h) check_world \<Rightarrow> bool \<times> ('d, 'h) check_world" where
  "ResolveVersionAfterAction k containerID imageRef s =
    (if IsDigestReference (ck_valid k) imageRef \<or> trim_space imageRef = '''' then (True, s)
     else case versions_now k (ParseRef imageRef) containerID s of
       ((current, available), s1) \<Rightarrow>
         (case k_sql k (\<lambda>s. ((), set_containers (SetVersions containerID current available (cw_containers s)) s)) s1 of
            (None, s2) \<Rightarrow> (False, k_emit k (event_of LevelWarn ''version.resolve_failed'' containerID ActorSystem '''' []) s2)
          | (Some _, s2) \<Rightarrow> (True, s2)))"

section \<open>What a check touches\<close>

text \<open>The tables the scheduler works on.\<close>
definition cw_tables :: "('d, 'h) check_world \<Rightarrow> container_table \<times> candidate_table \<times> schedule_table \<times> update_request list" where
  "cw_tables s = (cw_containers s, cw_candidates s, sw_schedules (cw_sched s), sw_requests (cw_sched s))"

named_theorems check_frame \<open>what the parts of the check leave alone\<close>

lemma set_simps [simp]:
  "cw_world (set_world w s) = w" "cw_candidates (set_world w s) = cw_candidates s"
  "sw_schedules (cw_sched (set_world w s)) = sw_schedules (cw_sched s)" "sw_requests (cw_sched (set_world w s)) = sw_requests (cw_sched s)"
  "cw_versions (set_world w s) = cw_versions s" "cw_log (set_world w s) = cw_log s" "cw_net (set_world w s) = cw_net s"
  "cw_containers (set_containers tbl s) = tbl" "cw_candidates (set_containers tbl s) = cw_candidates s"
  "sw_schedules (cw_sched (set_containers tbl s)) = sw_schedules (cw_sched s)" "sw_requests (cw_sched (set_containers tbl s)) = sw_requests (cw_sched s)"
  "cw_containers (set_candidates cands s) = cw_containers s" "cw_candidates (set_candidates cands s) = cands"
  "sw_schedules (cw_sched (set_candidates cands s)) = sw_schedules (cw_sched s)" "sw_requests (cw_sched (set_candidates cands s)) = sw_requests (cw_sched s)"
  by (simp_all add: set_world_def set_containers_def set_candidates_def)

lemma tables_set_world [simp]: "wd_containers w = cw_containers s \<Longrightarrow> cw_tables (set_world w s) = cw_tables s"
  by (simp add: cw_tables_def)

lemma tables_proj:
  assumes "cw_tables s' = cw_tables s"
  shows "cw_containers s' = cw_containers s" "cw_candidates s' = cw_candidates s"
    "sw_schedules (cw_sched s') = sw_schedules (cw_sched s)" "sw_requests (cw_sched s') = sw_requests (cw_sched s)"
  using assms by (simp_all add: cw_tables_def)

lemma k_emit_tables [simp]: "cw_tables (k_emit k ev s) = cw_tables s"
  by (simp add: k_emit_def emit_def set_world_def cw_tables_def)

lemma k_notify_tables [simp]: "cw_tables (k_notify kind c s) = cw_tables s"
  by (simp add: k_notify_def notify_def)

lemma on_docker_tables [check_frame]: "on_docker f s = (r, s') \<Longrightarrow> cw_tables s' = cw_tables s"
  by (auto simp: on_docker_def split: prod.splits)

lemma on_net_tables [check_frame]: "on_net f s = (r, s') \<Longrightarrow> cw_tables s' = cw_tables s"
  by (auto simp: on_net_def cw_tables_def split: prod.splits)

lemma k_sql_cases:
  assumes "k_sql k f s = (r, s')"
  obtains (failed) d where "r = None" "s' = set_world ((cw_world s)\<lparr>wd_env := d\<rparr>) s"
  | (ok) d a where "r = Some a" "f (set_world ((cw_world s)\<lparr>wd_env := d\<rparr>) s) = (a, s')"
proof -
  obtain ok d where d: "en_sql (ck_engine k) (wd_env (cw_world s)) = (ok, d)" by (rule prod.exhaust)
  show ?thesis
    using assms d failed[of d] ok[of _ d]
    by (cases ok; cases "f (set_world ((cw_world s)\<lparr>wd_env := d\<rparr>) s)") (auto simp: k_sql_def sql_def)
qed

lemma k_sql_reliable:
  assumes "reliable (ck_engine k)"
  obtains d where "k_sql k f s = (Some (fst (f (set_world ((cw_world s)\<lparr>wd_env := d\<rparr>) s))), snd (f (set_world ((cw_world s)\<lparr>wd_env := d\<rparr>) s)))"
proof -
  obtain d where "sql (ck_engine k) (\<lambda>w. ((), w)) (cw_world s) = (Inr (), (cw_world s)\<lparr>wd_env := d\<rparr>)"
    using sql_reliable[OF assms, of "\<lambda>w. ((), w)" "cw_world s"] by auto
  then show thesis using that[of d] by (simp add: k_sql_def case_prod_beta)
qed

lemma k_sql_read_tables [check_frame]:
  assumes "k_sql k (\<lambda>s. (g s, s)) s = (r, s')"
  shows "cw_tables s' = cw_tables s"
  using assms by (cases rule: k_sql_cases) auto

text \<open>A statement on the tables, when the disk works.\<close>
lemma k_try_containers:
  assumes "reliable (ck_engine k)"
  shows "cw_tables (k_try k ev (\<lambda>s. set_containers (f (cw_containers s)) s) s) =
    (f (cw_containers s), cw_candidates s, sw_schedules (cw_sched s), sw_requests (cw_sched s))"
proof -
  obtain d where "k_sql k (\<lambda>s. ((), set_containers (f (cw_containers s)) s)) s =
      (Some (), set_containers (f (cw_containers s)) (set_world ((cw_world s)\<lparr>wd_env := d\<rparr>) s))"
    using k_sql_reliable[OF assms, of "\<lambda>s. ((), set_containers (f (cw_containers s)) s)" s] by auto
  then show ?thesis by (simp add: k_try_def cw_tables_def)
qed

lemma k_try_candidates:
  assumes "reliable (ck_engine k)"
  shows "cw_tables (k_try k ev (\<lambda>s. set_candidates (f (cw_candidates s)) s) s) =
    (cw_containers s, f (cw_candidates s), sw_schedules (cw_sched s), sw_requests (cw_sched s))"
proof -
  obtain d where "k_sql k (\<lambda>s. ((), set_candidates (f (cw_candidates s)) s)) s =
      (Some (), set_candidates (f (cw_candidates s)) (set_world ((cw_world s)\<lparr>wd_env := d\<rparr>) s))"
    using k_sql_reliable[OF assms, of "\<lambda>s. ((), set_candidates (f (cw_candidates s)) s)" s] by auto
  then show ?thesis by (simp add: k_try_def cw_tables_def)
qed

lemma semver_tags_tables [check_frame]: "semver_tags k c ref cache s = (tags, cache', s') \<Longrightarrow> cw_tables s' = cw_tables s"
  by (auto simp: semver_tags_def dest: on_net_tables split: option.splits prod.splits sum.splits)

lemma find_candidates_tables [check_frame]:
  "find_candidates k c img ref ds remote cache s = (cands, cache', s') \<Longrightarrow> cw_tables s' = cw_tables s"
  by (auto simp: find_candidates_def Let_def dest: semver_tags_tables split: prod.splits if_splits)

lemma announce_tables [check_frame]: "cw_tables (announce k c cands s) = cw_tables s"
proof -
  obtain r s1 where q: "k_sql k (\<lambda>s. (GetContainer (dk_id c) (cw_containers s), s)) s = (r, s1)" by (rule prod.exhaust)
  show ?thesis unfolding announce_def q prod.case using k_sql_read_tables[OF q] by simp
qed

lemma load_hint_tables [check_frame]: "load_hint k ref digest s = (r, s') \<Longrightarrow> cw_tables s' = cw_tables s"
proof -
  obtain a s1 where q: "k_sql k (\<lambda>s. (GetImageVersion (Registry ref) (Repository ref) digest (cw_versions s), s)) s = (a, s1)" by (rule prod.exhaust)
  assume "load_hint k ref digest s = (r, s')"
  then have "s' = s1" unfolding load_hint_def q by (simp split: option.splits)
  then show ?thesis using k_sql_read_tables[OF q] by simp
qed

lemma current_hint_tables [check_frame]: "current_hint k ref cid digest lv s = (r, s') \<Longrightarrow> cw_tables s' = cw_tables s"
proof -
  obtain cur skip s1 where l: "load_hint k ref digest s = ((cur, skip), s1)" by (metis prod.exhaust)
  obtain a s2 where q: "k_sql k (\<lambda>s. (GetContainer cid (cw_containers s), s)) s1 = (a, s2)" by (rule prod.exhaust)
  assume "current_hint k ref cid digest lv s = (r, s')"
  then have "s' = s \<or> s' = s1 \<or> s' = s2" unfolding current_hint_def l prod.case q by (auto split: if_splits option.splits sum.splits)
  then show ?thesis using load_hint_tables[OF l] k_sql_read_tables[OF q] by auto
qed

lemma loadVersionHints_tables [check_frame]:
  assumes "loadVersionHints k ref cid cur remote hasUpdate lv s = (hints, s')"
  shows "cw_tables s' = cw_tables s"
proof -
  obtain h skip s1 where c: "current_hint k ref cid cur lv s = ((h, skip), s1)" by (metis prod.exhaust)
  obtain h' skip' s2 where l: "load_hint k ref remote s1 = ((h', skip'), s2)" by (metis prod.exhaust)
  have "s' = s1 \<or> s' = s2" using assms by (auto simp: loadVersionHints_def c l split: if_splits)
  then show ?thesis using current_hint_tables[OF c] load_hint_tables[OF l] by auto
qed

lemma label_or_digest_tables [check_frame]: "label_or_digest k ref digest hint skip s = (r, s') \<Longrightarrow> cw_tables s' = cw_tables s"
  by (auto simp: label_or_digest_def dest: on_net_tables split: if_splits prod.splits sum.splits)

lemma resolveVersions_tables [check_frame]:
  assumes "resolveVersions k cache ref cur remote hasUpdate hints s = (r, cache', s')"
  shows "cw_tables s' = cw_tables s"
proof -
  obtain v h s1 where a: "label_or_digest k ref cur (vh_current hints) (vh_skip_current hints) s = ((v, h), s1)" by (metis prod.exhaust)
  obtain v' h' s2 where b: "(if hasUpdate then label_or_digest k ref remote (vh_available hints) (vh_skip_available hints) s1
      else ((v, vh_available hints), s1)) = ((v', h'), s2)" by (metis prod.exhaust)
  have s2: "cw_tables s2 = cw_tables s"
    using b label_or_digest_tables[OF a] by (auto split: if_splits dest: label_or_digest_tables)
  have "s' = s \<or> s' = s2 \<or> (\<exists>f a. on_net f s2 = (a :: (fetch_error, (string \<times> string) list) result, s'))"
    using assms unfolding resolveVersions_def a prod.case b
    by (auto simp: Let_def split: if_splits prod.splits sum.splits)
  then show ?thesis using s2 by (auto dest: on_net_tables)
qed

lemma store_version_tables [simp]: "cw_tables (store_version k ref err digest v s) = cw_tables s"
proof -
  have "cw_tables (snd (k_sql k (\<lambda>s'. ((), s'\<lparr>cw_versions := PutImageVersion rec (cw_versions s')\<rparr>)) s)) = cw_tables s" for rec
  proof -
    obtain a t where q: "k_sql k (\<lambda>s'. ((), s'\<lparr>cw_versions := PutImageVersion rec (cw_versions s')\<rparr>)) s = (a, t)" by (rule prod.exhaust)
    then have "cw_tables t = cw_tables s" by (cases rule: k_sql_cases) (auto simp: cw_tables_def)
    then show ?thesis unfolding q by simp
  qed
  then show ?thesis by (simp add: store_version_def Let_def)
qed

lemma storeVersionResults_tables [simp]: "cw_tables (storeVersionResults k ref cur remote hasUpdate v v' err s) = cw_tables s"
  by (simp add: storeVersionResults_def Let_def)

lemma store_candidates_tables:
  assumes "reliable (ck_engine k)"
  obtains t t' where "cw_containers (store_candidates k c cands hasUpdate s) = SetUpdateAvailable (dk_id c) hasUpdate t (cw_containers s)"
    "cw_candidates (store_candidates k c cands hasUpdate s) = ReplaceUpdateCandidates (dk_id c) (candidate_list cands) t' (cw_candidates s)"
proof -
  let ?s1 = "k_try k (sync_failed LevelError (dk_name c))
    (\<lambda>s'. set_candidates (ReplaceUpdateCandidates (dk_id c) (candidate_list cands) (k_now k s) (cw_candidates s')) s') s"
  have s1: "cw_containers ?s1 = cw_containers s" "cw_candidates ?s1 = ReplaceUpdateCandidates (dk_id c) (candidate_list cands) (k_now k s) (cw_candidates s)"
    using k_try_candidates[OF assms, of _ "ReplaceUpdateCandidates (dk_id c) (candidate_list cands) (k_now k s)" s] by (simp_all add: cw_tables_def)
  show thesis
    using k_try_containers[OF assms, of "sync_failed LevelError (dk_name c)" "SetUpdateAvailable (dk_id c) hasUpdate (k_now k ?s1)" ?s1] s1
    by (intro that[of "k_now k ?s1" "k_now k s"]) (simp_all add: store_candidates_def Let_def cw_tables_def)
qed

lemma candidate_list_empty: "candidate_list cands = [] \<longleftrightarrow> (\<forall>scope \<in> set candidate_scopes. cands scope = None)"
  by (auto simp: candidate_list_def candidate_scopes_def map_filter_simps split: option.splits)

text \<open>A successful comparison: what is stored for the container.\<close>
lemma compare_image_tables:
  assumes "reliable (ck_engine k)" "compare_image k ca c img ref ds lv remote s = ((n, m, f), ca', s')"
    and "find_candidates k c img ref ds remote (ca_tags ca) s = (cands, cache, s1)"
  obtains t t' v v' where "n = 1" "f = 0" "m = (if candidate_list cands = [] then 0 else 1)"
    "cw_containers s' = SetVersions (dk_id c) v v' (SetUpdateAvailable (dk_id c) (candidate_list cands \<noteq> []) t (cw_containers s))"
    "cw_candidates s' = ReplaceUpdateCandidates (dk_id c) (candidate_list cands) t' (cw_candidates s)"
proof -
  define hasUpdate where "hasUpdate = (if IsStrictSemverTag (Tag ref) then candidate_list cands \<noteq> [] else remote \<notin> set ds)"
  have hu: "hasUpdate \<longleftrightarrow> candidate_list cands \<noteq> []"
    using assms(3) by (auto simp: hasUpdate_def find_candidates_def Let_def moved_candidates_def candidate_list_empty candidate_scopes_def split: if_splits)
  let ?s2 = "if hasUpdate then announce k c cands s1 else s1"
  let ?s3 = "store_candidates k c cands hasUpdate ?s2"
  obtain hints s4 where h: "loadVersionHints k ref (dk_id c) (hd ds) remote hasUpdate lv ?s3 = (hints, s4)" by (rule prod.exhaust)
  obtain cur av err vc s5 where r: "resolveVersions k (ca_versions ca) ref (hd ds) remote hasUpdate hints s4 = ((cur, av, err), vc, s5)"
    by (metis prod.exhaust)
  define s7 where "s7 = (if err \<noteq> None then k_emit k (event_of LevelWarn ''registry.version_resolution_failed'' (dk_name c) ActorSystem '''' [])
      (storeVersionResults k ref (hd ds) remote hasUpdate cur av err s5)
    else storeVersionResults k ref (hd ds) remote hasUpdate cur av err s5)"
  define av' where "av' = (case cands ''major'' of Some newest \<Rightarrow> if IsVersionTag (uc_version newest) then uc_version newest else av | None \<Rightarrow> av)"
  have res: "n = 1" "f = 0" "m = (if hasUpdate then 1 else 0)"
    and s': "s' = k_try k (sync_failed LevelError (dk_name c)) (\<lambda>s. set_containers (SetVersions (dk_id c) cur av' (cw_containers s)) s) s7"
    using assms(2) unfolding compare_image_def assms(3) prod.case Let_def hasUpdate_def[symmetric] h r s7_def av'_def by auto
  have "cw_tables ?s2 = cw_tables s" using find_candidates_tables[OF assms(3)] by (simp add: announce_tables)
  note s2 = tables_proj[OF this]
  have "cw_tables s7 = cw_tables ?s3" using loadVersionHints_tables[OF h] resolveVersions_tables[OF r] by (simp add: s7_def)
  note s7 = tables_proj[OF this]
  obtain t t' where st: "cw_containers ?s3 = SetUpdateAvailable (dk_id c) hasUpdate t (cw_containers ?s2)"
    "cw_candidates ?s3 = ReplaceUpdateCandidates (dk_id c) (candidate_list cands) t' (cw_candidates ?s2)"
    by (rule store_candidates_tables[OF assms(1)])
  have "cw_containers s' = SetVersions (dk_id c) cur av' (cw_containers s7)" "cw_candidates s' = cw_candidates s7"
    using k_try_containers[OF assms(1), of _ "SetVersions (dk_id c) cur av'" s7] unfolding s' cw_tables_def by simp_all
  then show thesis using that[of cur av' t t'] res s7 st s2 hu by simp
qed

text \<open>Finding the reference changes no candidate, and of a row only a digest kept as its image.\<close>
lemma image_reference_tables:
  assumes "image_reference k c s = (img, s')"
  shows "cw_candidates s' = cw_candidates s"
    and "cw_containers s' = cw_containers s \<or> (\<exists>img. cw_containers s' = RepairCurrentImage (dk_id c) img (cw_containers s))"
proof -
  obtain i s1 where st: "stored_reference k c s = (i, s1)" by (rule prod.exhaust)
  have s1: "cw_tables s1 = cw_tables s"
  proof -
    obtain a t where q: "k_sql k (\<lambda>s. (GetContainer (dk_id c) (cw_containers s), s)) s = (a, t)" by (rule prod.exhaust)
    have "s1 = s \<or> s1 = t" using st unfolding stored_reference_def q by (auto split: if_splits option.splits sum.splits)
    then show ?thesis using k_sql_read_tables[OF q] by auto
  qed
  obtain a s2 where q: "k_sql k (\<lambda>s. (RecoverImageReference (dk_name c) (cw_log s), s)) s1 = (a, s2)" by (rule prod.exhaust)
  have s2: "cw_tables s2 = cw_tables s" using k_sql_read_tables[OF q] s1 by simp
  let ?repair = "\<lambda>r. k_try k (sync_failed LevelWarn (dk_name c)) (\<lambda>s. set_containers (RepairCurrentImage (dk_id c) r (cw_containers s)) s) s2"
  have rp: "cw_candidates (?repair r) = cw_candidates s2 \<and> (cw_containers (?repair r) = cw_containers s2
      \<or> cw_containers (?repair r) = RepairCurrentImage (dk_id c) r (cw_containers s2))" for r
  proof -
    obtain x t where x: "k_sql k (\<lambda>s'. ((), set_containers (RepairCurrentImage (dk_id c) r (cw_containers s')) s')) s2 = (x, t)" by (rule prod.exhaust)
    have t: "cw_candidates t = cw_candidates s2 \<and> (if x = None then cw_containers t = cw_containers s2
        else cw_containers t = RepairCurrentImage (dk_id c) r (cw_containers s2))"
      using x by (cases rule: k_sql_cases) auto
    show ?thesis using t tables_proj[OF k_emit_tables, of k "sync_failed LevelWarn (dk_name c)" t]
      unfolding k_try_def x by (auto split: option.splits)
  qed
  consider "s' = s1" | "s' = s2" | r where "s' = ?repair r"
    using assms unfolding image_reference_def st prod.case q by (auto split: if_splits option.splits sum.splits)
  then have "cw_candidates s' = cw_candidates s \<and> (cw_containers s' = cw_containers s
      \<or> (\<exists>img. cw_containers s' = RepairCurrentImage (dk_id c) img (cw_containers s)))"
  proof cases
    case 3
    then show ?thesis using rp[of r] tables_proj(1,2)[OF s2] by auto
  qed (use tables_proj(1,2)[OF s1] tables_proj(1,2)[OF s2] in simp_all)
  then show "cw_candidates s' = cw_candidates s"
    and "cw_containers s' = cw_containers s \<or> (\<exists>img. cw_containers s' = RepairCurrentImage (dk_id c) img (cw_containers s))" by auto
qed

section \<open>Flags and candidates\<close>

lemma image_reference_live: "\<not> IsDigestReference (ck_valid k) (dk_image c) \<Longrightarrow> image_reference k c s = (dk_image c, s)"
  by (simp add: image_reference_def stored_reference_def)

lemma on_docker_answer: "on_docker f s = (r, s') \<Longrightarrow> \<exists>d. fst (f d) = r"
  by (auto simp: on_docker_def split: prod.splits intro!: exI[of _ "wd_env (cw_world s)"])

lemma on_net_answer: "on_net f s = (r, s') \<Longrightarrow> \<exists>h. fst (f h) = r"
  by (auto simp: on_net_def split: prod.splits intro!: exI[of _ "cw_net s"])

text \<open>The table with at most the image of \<^term>\<open>cid\<close> repaired.\<close>
definition repaired :: "string \<Rightarrow> container_table \<Rightarrow> container_table \<Rightarrow> bool" where
  "repaired cid tbl tbl' \<longleftrightarrow> tbl' = tbl \<or> (\<exists>img. tbl' = RepairCurrentImage cid img tbl)"

lemma checkOneContainer_cases:
  assumes "reliable (ck_engine k)" "checkOneContainer k ca c s = ((n, m, f), ca', s')"
  obtains (skipped) "n = 0" "m = 0" "f \<le> 1" "cw_candidates s' = cw_candidates s" "repaired (dk_id c) (cw_containers s) (cw_containers s')"
  | (compared) img ds remote cands s1 cache s2 tbl t t' v v' where "n = 1" "f = 0" "m = (if candidate_list cands = [] then 0 else 1)"
    "\<exists>d. fst (image_digests (ck_images k) (dk_image_id c) d) = Inr ds" "\<exists>h. fst (Digest (ck_http k) (ck_env k) (ParseRef img) h) = Inr remote"
    "\<not> IsDigestReference (ck_valid k) (dk_image c) \<longrightarrow> img = dk_image c" "\<not> IsDigestReference (ck_valid k) img"
    "find_candidates k c img (ParseRef img) ds remote (ca_tags ca) s1 = (cands, cache, s2)"
    "repaired (dk_id c) (cw_containers s) tbl"
    "cw_containers s' = SetVersions (dk_id c) v v' (SetUpdateAvailable (dk_id c) (candidate_list cands \<noteq> []) t tbl)"
    "cw_candidates s' = ReplaceUpdateCandidates (dk_id c) (candidate_list cands) t' (cw_candidates s)"
proof (cases "dk_excluded c \<or> dk_image_id c = ''''")
  case True
  then show thesis using assms(2) skipped by (simp add: checkOneContainer_def repaired_def)
next
  case False
  obtain a s1 where d: "on_docker (image_digests (ck_images k) (dk_image_id c)) s = (a, s1)" by (rule prod.exhaust)
  note s1 = tables_proj[OF on_docker_tables[OF d]]
  show thesis
  proof (cases "\<exists>ds. a = Inr ds \<and> ds \<noteq> []")
    case no: False
    then have "(n, m, f) = (0, 0, 0)" "s' = s1" using assms(2) False d by (auto simp: checkOneContainer_def split: sum.splits if_splits)
    then show thesis using skipped s1 by (simp add: repaired_def)
  next
    case True
    then obtain ds where ds: "a = Inr ds" "ds \<noteq> []" by blast
    obtain img s2 where i: "image_reference k c s1 = (img, s2)" by (rule prod.exhaust)
    note s2 = image_reference_tables[OF i, unfolded s1]
    show thesis
    proof (cases "IsDigestReference (ck_valid k) img \<or> trim_space img = ''''")
      case True
      then have "(n, m, f) = (0, 0, 0)" "s' = s2" using assms(2) False d ds i by (auto simp: checkOneContainer_def)
      then show thesis using skipped s2 by (simp add: repaired_def)
    next
      case good: False
      obtain label s3 where l: "on_docker (ImageVersionLabel (ck_images k) (dk_image_id c) (Repository (ParseRef img))) s2 = (label, s3)" by (rule prod.exhaust)
      define s4 where "s4 = (case label of Inl _ \<Rightarrow> k_emit k (event_of LevelWarn ''version.label_read_failed'' (dk_name c) ActorSystem '''' []) s3 | Inr _ \<Rightarrow> s3)"
      have "cw_tables s4 = cw_tables s2" using on_docker_tables[OF l] by (simp add: s4_def split: sum.splits)
      moreover obtain rd s5 where r: "on_net (Digest (ck_http k) (ck_env k) (ParseRef img)) s4 = (rd, s5)" by (rule prod.exhaust)
      ultimately have "cw_tables s5 = cw_tables s2" using on_net_tables[OF r] by simp
      note s5 = tables_proj[OF this]
      have one: "checkOneContainer k ca c s = check_reference k ca c img ds s2" using False d ds i good by (simp add: checkOneContainer_def)
      show thesis
      proof (cases rd)
        case (Inl err)
        then have res: "(n, m, f) = (0, 0, 1)" "s' = k_notify ''check.failed'' c (k_emit k (event_of LevelWarn ''registry.check_failed'' (dk_name c) ActorSystem '''' []) s5)"
          using assms(2) one l r unfolding check_reference_def Let_def s4_def by auto
        have "cw_tables s' = cw_tables s5" unfolding res(2) by simp
        note s' = tables_proj(1,2)[OF this]
        show thesis by (rule skipped) (use res(1) s2 s5 s' in \<open>simp_all add: repaired_def\<close>)
      next
        case (Inr remote)
        define lv where "lv = (case label of Inl _ \<Rightarrow> '''' | Inr v \<Rightarrow> v)"
        have cmp: "compare_image k ca c img (ParseRef img) ds lv remote s5 = ((n, m, f), ca', s')"
          using assms(2) one l r Inr unfolding check_reference_def Let_def s4_def lv_def by auto
        obtain cands cache s6 where fc: "find_candidates k c img (ParseRef img) ds remote (ca_tags ca) s5 = (cands, cache, s6)" by (metis prod.exhaust)
        have "\<not> IsDigestReference (ck_valid k) (dk_image c) \<longrightarrow> img = dk_image c" using image_reference_live i by force
        then show thesis
          using compare_image_tables[OF assms(1) cmp fc] compared[OF _ _ _ _ _ _ _ fc] on_docker_answer[OF d] on_net_answer[OF r] ds Inr good s2 s5
          by (metis repaired_def)
      qed
    qed
  qed
qed

lemma repaired_row:
  assumes "repaired cid tbl tbl'"
  shows "j \<noteq> cid \<Longrightarrow> get_row c_id j tbl' = get_row c_id j tbl"
    and "get_row c_id cid tbl = Some row \<Longrightarrow> \<exists>img. get_row c_id cid tbl' = Some (row\<lparr>c_current_image := img\<rparr>)"
proof -
  show "get_row c_id j tbl' = get_row c_id j tbl" if j: "j \<noteq> cid"
  proof -
    have "get_row c_id j (RepairCurrentImage cid img tbl) = get_row c_id j tbl" for img
      unfolding RepairCurrentImage_def using j by (cases "get_row c_id j tbl") (auto simp: row_simps dest: get_row_key)
    then show ?thesis using assms by (auto simp: repaired_def)
  qed
  assume r: "get_row c_id cid tbl = Some row"
  have "get_row c_id cid (RepairCurrentImage cid img tbl) = Some row \<or> get_row c_id cid (RepairCurrentImage cid img tbl) = Some (row\<lparr>c_current_image := img\<rparr>)" for img
    unfolding RepairCurrentImage_def using r by (auto simp: row_simps)
  moreover have "row = row\<lparr>c_current_image := c_current_image row\<rparr>" by simp
  ultimately show "\<exists>img. get_row c_id cid tbl' = Some (row\<lparr>c_current_image := img\<rparr>)"
    using assms r unfolding repaired_def by metis
qed

lemma row_after_flags:
  "get_row c_id j (SetVersions cid v v' (SetUpdateAvailable cid b t tbl)) = map_option (\<lambda>r. if c_id r = cid
     then r\<lparr>c_update_available := b, c_last_checked_at := Some t, c_current_version := v, c_available_version := v'\<rparr> else r) (get_row c_id j tbl)"
  unfolding SetVersions_def SetUpdateAvailable_def
  by (simp add: row_simps option.map_comp comp_def) (rule option.map_cong, auto)

lemma candidate_list_scopes: "distinct (map uc_scope (candidate_list cands)) \<and> get_row uc_scope scope (candidate_list cands) =
    (if scope \<in> set candidate_scopes then cands scope else None)"
  if "\<And>scope c. cands scope = Some c \<Longrightarrow> uc_scope c = scope"
  using that[of "''patch''"] that[of "''minor''"] that[of "''major''"]
  unfolding candidate_list_def candidate_scopes_def
  by (auto simp: map_filter_simps row_simps split: option.splits)

lemma find_candidates_scope:
  assumes "find_candidates k c img ref ds remote cache s = (cands, cache', s')" "cands scope = Some cand"
  shows "uc_scope cand = scope"
  using assms
  by (auto simp: find_candidates_def Let_def moved_candidates_def semver_candidates_def candidate_at_def split: if_splits option.splits prod.splits)

text \<open>The candidates of the checked container, and of any other, after a comparison.\<close>
lemma candidates_after_check:
  assumes "find_candidates k c img ref ds remote cache s1 = (cands, cache', s2)" "keys_distinct uc_key tbl" "scope \<in> set candidate_scopes"
  shows "GetUpdateCandidate cid scope (ReplaceUpdateCandidates cid (candidate_list cands) t tbl) = refreshed cid t (cands scope) (GetUpdateCandidate cid scope tbl)"
  using candidate_after_replace[of "candidate_list cands" tbl scope cid t] candidate_list_scopes[of cands scope, OF find_candidates_scope[OF assms(1)]] assms(2,3)
  by simp

lemma other_candidates:
  assumes "keys_distinct uc_key tbl" "j \<noteq> cid"
  shows "GetUpdateCandidate j scope (ReplaceUpdateCandidates cid cands t tbl) = GetUpdateCandidate j scope tbl"
proof -
  have up: "get_row uc_key (j, scope) (fold (upsert_candidate cid t) cs u) = get_row uc_key (j, scope) u" for cs u
    using assms(2) by (induction cs arbitrary: u) (simp_all add: row_simps)
  have del: "keys_distinct uc_key u \<Longrightarrow> get_row uc_key (j, scope) (fold (\<lambda>scope t. if scope \<in> uc_scope ` set cands then t
      else delete_where (\<lambda>r. uc_key r = (cid, scope)) t) ss u) = get_row uc_key (j, scope) u" for ss u
  proof (induction ss arbitrary: u)
    case (Cons x ss)
    show ?case
      using Cons.IH[OF Cons.prems] Cons.IH[OF delete_where_distinct[OF Cons.prems, of "\<lambda>r. uc_key r = (cid, x)"]]
        get_delete_key[OF Cons.prems, of "(j, scope)" "(cid, x)"] assms(2) by auto
  qed simp
  show ?thesis
    unfolding GetUpdateCandidate_def ReplaceUpdateCandidates_def
    using del[OF candidates_distinct_fold[OF assms(1)]] up by simp
qed

text \<open>C15: A successful check leaves the container marked exactly when a candidate is stored for one of the scopes
  of a policy, and reports it as available exactly then. Exclusion, name and stack of the
  container stay as they were, and so do the row and the candidates of every other container.\<close>

theorem check_marks_candidates:
  assumes "reliable (ck_engine k)" "keys_distinct uc_key (cw_candidates s)" "get_row c_id (dk_id c) (cw_containers s) = Some row"
    and "checkOneContainer k ca c s = ((1, m, f), ca', s')"
  shows "\<exists>row'. get_row c_id (dk_id c) (cw_containers s') = Some row'
      \<and> (c_update_available row' \<longleftrightarrow> (\<exists>scope \<in> set candidate_scopes. GetUpdateCandidate (dk_id c) scope (cw_candidates s') \<noteq> None))
      \<and> (c_update_available row' \<longleftrightarrow> m = 1)
      \<and> c_excluded row' = c_excluded row \<and> c_name row' = c_name row \<and> c_stack row' = c_stack row
      \<and> (\<forall>j. j \<noteq> dk_id c \<longrightarrow> get_row c_id j (cw_containers s') = get_row c_id j (cw_containers s)
          \<and> (\<forall>scope. GetUpdateCandidate j scope (cw_candidates s') = GetUpdateCandidate j scope (cw_candidates s)))"
  using assms(1,4)
proof (cases rule: checkOneContainer_cases)
  case (compared img ds remote cands s1 cache s2 tbl t t' v v')
  obtain i where row: "get_row c_id (dk_id c) tbl = Some (row\<lparr>c_current_image := i\<rparr>)" using repaired_row(2)[OF compared(9) assms(3)] by blast
  have id: "c_id row = dk_id c" using assms(3) by (rule get_row_key)
  define row' where "row' = row\<lparr>c_current_image := i, c_update_available := (candidate_list cands \<noteq> []), c_last_checked_at := Some t,
    c_current_version := v, c_available_version := v'\<rparr>"
  have "get_row c_id (dk_id c) (cw_containers s') = Some row'" by (simp add: compared(10) row_after_flags row id row'_def)
  moreover have "(\<exists>scope \<in> set candidate_scopes. GetUpdateCandidate (dk_id c) scope (cw_candidates s') \<noteq> None) \<longleftrightarrow> candidate_list cands \<noteq> []"
    unfolding compared(11) candidate_list_empty
    using candidates_after_check[OF compared(8) assms(2), of _ "dk_id c" t'] by (auto simp: refreshed_def split: option.splits)
  moreover have "get_row c_id j (cw_containers s') = get_row c_id j (cw_containers s)" if "j \<noteq> dk_id c" for j
    unfolding compared(10) row_after_flags repaired_row(1)[OF compared(9) that]
    using that by (cases "get_row c_id j (cw_containers s)") (auto dest: get_row_key)
  moreover have "GetUpdateCandidate j scope (cw_candidates s') = GetUpdateCandidate j scope (cw_candidates s)" if "j \<noteq> dk_id c" for j scope
    unfolding compared(11) using other_candidates[OF assms(2) that] .
  ultimately show ?thesis using compared(3) by (intro exI[of _ row']) (simp add: row'_def)
qed simp

section \<open>Which images are offered\<close>

text \<open>The tags a check may have seen: those remembered in this run, those the registry answered, or none.\<close>
definition seen_tags :: "('d, 'h) checker \<Rightarrow> tag_cache \<Rightarrow> Ref \<Rightarrow> string list \<Rightarrow> bool" where
  "seen_tags k cache ref tags \<longleftrightarrow>
    (case cache (cache_key ref) of
       Some ts \<Rightarrow> tags = ts
     | None \<Rightarrow> (\<exists>h. fst (ListTags (ck_http k) (ck_env k) ref h) = Inr tags)
         \<or> tags = [] \<and> (\<exists>h err. fst (ListTags (ck_http k) (ck_env k) ref h) = Inl err))"

lemma semver_tags_seen: "semver_tags k c ref cache s = (tags, cache', s') \<Longrightarrow> seen_tags k cache ref tags"
  by (auto simp: semver_tags_def seen_tags_def dest: on_net_answer split: option.splits prod.splits sum.splits)

text \<open>The newest of the tags that a policy of the scope may go to from version \<^term>\<open>cur\<close>.\<close>
definition newest_of :: "semanticVersion \<Rightarrow> string \<Rightarrow> string list \<Rightarrow> string \<Rightarrow> bool" where
  "newest_of cur scope tags tag \<longleftrightarrow> tag \<in> set tags \<and> eligible cur scope tag \<and> (\<forall>t \<in> set tags. eligible cur scope t \<longrightarrow> \<not> newer t tag)"

text \<open>What may be stored for a scope: the newest such tag, or else the reference itself when the registry
  moved it, or else nothing.\<close>
definition right_offer :: "string \<Rightarrow> string list \<Rightarrow> string \<Rightarrow> string list \<Rightarrow> string \<Rightarrow> UpdateCandidate option \<Rightarrow> bool" where
  "right_offer img ds remote tags scope found \<longleftrightarrow> (let ref = ParseRef img in case found of
     None \<Rightarrow> remote \<in> set ds \<and> (\<forall>cur tag. parseSemanticVersion (Tag ref) = Some cur \<longrightarrow> tag \<in> set tags \<longrightarrow> \<not> eligible cur scope tag)
   | Some cand \<Rightarrow> (\<exists>cur tag. parseSemanticVersion (Tag ref) = Some cur \<and> newest_of cur scope tags tag \<and> uc_image cand = ReplaceTag ref tag)
       \<or> remote \<notin> set ds \<and> uc_image cand = img
         \<and> (\<forall>cur tag. parseSemanticVersion (Tag ref) = Some cur \<longrightarrow> tag \<in> set tags \<longrightarrow> \<not> eligible cur scope tag))"

lemma right_offer_image: "right_offer img ds remote tags scope x \<Longrightarrow> map_option uc_image y = map_option uc_image x \<Longrightarrow> right_offer img ds remote tags scope y"
  by (cases x; cases y) (auto simp: right_offer_def Let_def)

lemma find_candidates_offers:
  assumes "find_candidates k c img (ParseRef img) ds remote cache s = (cands, cache', s')" "'''' \<notin> set ds"
  obtains tags where "IsStrictSemverTag (Tag (ParseRef img)) \<longrightarrow> seen_tags k cache (ParseRef img) tags"
    "\<forall>scope \<in> set candidate_scopes. right_offer img ds remote tags scope (cands scope)"
proof (cases "parseSemanticVersion (Tag (ParseRef img))")
  case None
  then have ns: "\<not> IsStrictSemverTag (Tag (ParseRef img))" by (auto simp: parseSemanticVersion_def IsStrictSemverTag_def split: option.splits)
  then have "cands = moved_candidates (remote \<notin> set ds) (dk_id c) img (Tag (ParseRef img))" using assms(1) by (simp add: find_candidates_def Let_def)
  then show thesis using that[of "[]"] ns None by (simp add: right_offer_def Let_def moved_candidates_def candidate_at_def)
next
  case (Some cur)
  then have strict: "IsStrictSemverTag (Tag (ParseRef img))" by (auto simp: parseSemanticVersion_def IsStrictSemverTag_def split: option.splits)
  obtain tags c1 s1 where t: "semver_tags k c (ParseRef img) cache s = (tags, c1, s1)" by (metis prod.exhaust)
  have cands: "cands = semver_candidates (dk_id c) (ParseRef img) ds tags (moved_candidates (remote \<notin> set ds) (dk_id c) img (Tag (ParseRef img)))"
    using assms(1) strict t by (simp add: find_candidates_def Let_def)
  show thesis
  proof (rule that[of tags])
    show "IsStrictSemverTag (Tag (ParseRef img)) \<longrightarrow> seen_tags k cache (ParseRef img) tags" using semver_tags_seen[OF t] by simp
    show "\<forall>scope \<in> set candidate_scopes. right_offer img ds remote tags scope (cands scope)"
    proof
      fix scope assume sc: "scope \<in> set candidate_scopes"
      show "right_offer img ds remote tags scope (cands scope)"
        using tag_order.scan_best_cases[of tags "eligible cur scope"] sc assms(2) Some SelectSemverCandidates_scan[OF Some, of tags]
        by (cases "scan_best (eligible cur scope) newer None tags")
          (auto simp: cands right_offer_def Let_def semver_candidates_def moved_candidates_def candidate_at_def newest_of_def)
    qed
  qed
qed

text \<open>C3: What a successful check offers. For each scope of a policy it stores the newest tag of the repository
  that the scope may go to from the version in use, or else the reference itself when the registry has a
  digest for it that the host has not, or else nothing, and then there is no such tag and the
  host has the registry's digest. The digests are those Docker reports for the running
  image, and the reference is the one the container was created from unless that is a digest.\<close>

theorem check_offers_newest:
  assumes "reliable (ck_engine k)" "keys_distinct uc_key (cw_candidates s)" "checkOneContainer k ca c s = ((1, m, f), ca', s')"
    and "\<forall>d ds. fst (image_digests (ck_images k) (dk_image_id c) d) = Inr ds \<longrightarrow> '''' \<notin> set ds"
  shows "\<exists>img ds remote tags.
      (\<exists>d. fst (image_digests (ck_images k) (dk_image_id c) d) = Inr ds)
    \<and> (\<exists>h. fst (Digest (ck_http k) (ck_env k) (ParseRef img) h) = Inr remote)
    \<and> (IsStrictSemverTag (Tag (ParseRef img)) \<longrightarrow> seen_tags k (ca_tags ca) (ParseRef img) tags)
    \<and> \<not> IsDigestReference (ck_valid k) img \<and> (\<not> IsDigestReference (ck_valid k) (dk_image c) \<longrightarrow> img = dk_image c)
    \<and> (\<forall>scope \<in> set candidate_scopes. right_offer img ds remote tags scope (GetUpdateCandidate (dk_id c) scope (cw_candidates s')))"
  using assms(1,3)
proof (cases rule: checkOneContainer_cases)
  case (compared img ds remote cands s1 cache s2 tbl t t' v v')
  have ne: "'''' \<notin> set ds" using compared(4) assms(4) by blast
  obtain tags where tags: "IsStrictSemverTag (Tag (ParseRef img)) \<longrightarrow> seen_tags k (ca_tags ca) (ParseRef img) tags"
    and offers: "\<forall>scope \<in> set candidate_scopes. right_offer img ds remote tags scope (cands scope)"
    by (rule find_candidates_offers[OF compared(8) ne])
  have "map_option uc_image (GetUpdateCandidate (dk_id c) scope (cw_candidates s')) = map_option uc_image (cands scope)"
    if "scope \<in> set candidate_scopes" for scope
    unfolding compared(11) candidates_after_check[OF compared(8) assms(2) that] by (auto simp: refreshed_def split: option.splits)
  then have "\<forall>scope \<in> set candidate_scopes. right_offer img ds remote tags scope (GetUpdateCandidate (dk_id c) scope (cw_candidates s'))"
    using offers right_offer_image by blast
  then show ?thesis using compared(4-7) tags by blast
qed simp

text \<open>A check that was skipped or failed leaves flags and candidates alone.\<close>

theorem failed_check_keeps_marks:
  assumes "reliable (ck_engine k)" "checkOneContainer k ca c s = ((0, m, f), ca', s')"
  shows "m = 0 \<and> f \<le> 1 \<and> cw_candidates s' = cw_candidates s
    \<and> (\<forall>j row. get_row c_id j (cw_containers s) = Some row \<longrightarrow>
        (\<exists>img. get_row c_id j (cw_containers s') = Some (row\<lparr>c_current_image := img\<rparr>)))"
  using assms
proof (cases rule: checkOneContainer_cases)
  case skipped
  have "\<exists>img. get_row c_id j (cw_containers s') = Some (row\<lparr>c_current_image := img\<rparr>)" if r: "get_row c_id j (cw_containers s) = Some row" for j row
  proof (cases "j = dk_id c")
    case True
    then show ?thesis using repaired_row(2)[OF skipped(5)] r by simp
  next
    case False
    then show ?thesis using repaired_row(1)[OF skipped(5) False] r by (intro exI[of _ "c_current_image row"]) simp
  qed
  then show ?thesis using skipped by simp
qed simp

section \<open>Excluded containers\<close>

text \<open>The rows keep their identity and their exclusion.\<close>
definition same_exclusions :: "container_table \<Rightarrow> container_table \<Rightarrow> bool" where
  "same_exclusions tbl tbl' \<longleftrightarrow> (keys_distinct c_id tbl \<longrightarrow> keys_distinct c_id tbl')
    \<and> (\<forall>j. map_option c_excluded (get_row c_id j tbl') = map_option c_excluded (get_row c_id j tbl))"

lemma same_exclusions_refl [simp]: "same_exclusions tbl tbl"
  by (simp add: same_exclusions_def)

lemma same_exclusions_trans [trans]: "same_exclusions t1 t2 \<Longrightarrow> same_exclusions t2 t3 \<Longrightarrow> same_exclusions t1 t3"
  by (simp add: same_exclusions_def)

lemma same_exclusions_update:
  assumes "\<And>r. c_id (f r) = c_id r" "\<And>r. c_excluded (f r) = c_excluded r"
  shows "same_exclusions tbl (update_where p f tbl)"
  using assms update_where_distinct[of c_id f tbl p]
  by (auto simp: same_exclusions_def row_simps option.map_comp comp_def intro!: option.map_cong)

lemma repaired_exclusions: "repaired cid tbl tbl' \<Longrightarrow> same_exclusions tbl tbl'"
  by (auto simp: repaired_def RepairCurrentImage_def intro!: same_exclusions_update)

lemma checkOneContainer_exclusions:
  assumes "reliable (ck_engine k)" "checkOneContainer k ca c s = (n, ca', s')"
  shows "same_exclusions (cw_containers s) (cw_containers s')"
proof -
  obtain x y z where n: "n = (x, y, z)" by (metis prod.exhaust)
  show ?thesis
    using assms(1) assms(2)[unfolded n]
  proof (cases rule: checkOneContainer_cases)
    case skipped
    then show ?thesis by (simp add: repaired_exclusions)
  next
    case (compared img ds remote cands s1 cache s2 tbl t t' v v')
    have "same_exclusions tbl (cw_containers s')"
      unfolding compared(10) SetVersions_def SetUpdateAvailable_def
      by (rule same_exclusions_trans[OF same_exclusions_update same_exclusions_update]) simp_all
    then show ?thesis using repaired_exclusions[OF compared(9)] same_exclusions_trans by blast
  qed
qed

lemma check_loop_exclusions:
  assumes "reliable (ck_engine k)" "check_loop k cs n ca s = (n', s')"
  shows "same_exclusions (cw_containers s) (cw_containers s')"
  using assms(2)
proof (induction cs arbitrary: n ca s)
  case (Cons c cs)
  obtain x y z where n: "n = (x, y, z)" by (metis prod.exhaust)
  obtain dn dm df ca1 s1 where c: "checkOneContainer k ca c s = ((dn, dm, df), ca1, s1)" by (metis prod.exhaust)
  then have "check_loop k cs (x + dn, y + dm, z + df) ca1 s1 = (n', s')" using Cons.prems n by simp
  from Cons.IH[OF this] checkOneContainer_exclusions[OF assms(1) c] show ?case using same_exclusions_trans by blast
qed simp

lemma checkForUpdates_exclusions:
  assumes "reliable (ck_engine k)"
  shows "same_exclusions (cw_containers s) (cw_containers (checkForUpdates k cs s))"
proof -
  obtain x y z s1 where l: "check_loop k cs (0, 0, 0) empty_caches s = ((x, y, z), s1)" by (metis prod.exhaust)
  have "cw_containers (checkForUpdates k cs s) = cw_containers s1"
    unfolding checkForUpdates_def l prod.case by (rule tables_proj(1)[OF k_emit_tables])
  then show ?thesis using check_loop_exclusions[OF assms l] by simp
qed

abbreviation seen_all :: "docker_container list \<Rightarrow> container_table \<Rightarrow> container_table" where
  "seen_all cs \<equiv> fold (\<lambda>c. UpsertSeen (seen_record c)) cs"

lemma seen_fold_tables:
  assumes "reliable (ck_engine k)"
  shows "cw_containers (fold (see_container k) cs s) = seen_all cs (cw_containers s)"
proof (induction cs arbitrary: s)
  case (Cons c cs)
  have "cw_containers (see_container k c s) = UpsertSeen (seen_record c) (cw_containers s)"
    using k_try_containers[OF assms, of _ "UpsertSeen (seen_record c)" s] by (simp add: see_container_def cw_tables_def)
  then show ?case using Cons by simp
qed simp

lemma discover_containers:
  assumes "reliable (ck_engine k)"
  shows "cw_containers (discover k cs s) = PruneContainers (map dk_id cs) (seen_all cs (cw_containers s))"
proof -
  let ?s1 = "fold (see_container k) cs s"
  have "cw_containers (discover k cs s) = cw_containers (k_try k (sync_failed LevelError '''')
      (\<lambda>s. set_containers (PruneContainers (map dk_id cs) (cw_containers s)) s) ?s1)"
    unfolding discover_def Let_def by (rule tables_proj(1)[OF k_emit_tables])
  then show ?thesis
    using k_try_containers[OF assms, of _ "PruneContainers (map dk_id cs)" ?s1] seen_fold_tables[OF assms] by (simp add: cw_tables_def)
qed

lemma seen_row:
  "get_row c_id j (UpsertSeen (seen_record c) tbl) = (if j = dk_id c then
     (case get_row c_id j tbl of
        None \<Rightarrow> Some (seen_record c)
      | Some r \<Rightarrow> Some (r\<lparr>c_name := dk_name c, c_stack := dk_stack c, c_state := dk_state c, c_status := dk_status c,
          c_current_image := seen_image (dk_image c) (c_current_image r), c_excluded := dk_excluded c\<rparr>))
     else get_row c_id j tbl)"
  unfolding UpsertSeen_def by (simp add: get_upsert_row) (simp add: seen_record_def split: option.splits)

lemma seen_record_excluded: "c_excluded (seen_record c) = dk_excluded c"
  by (simp add: seen_record_def)

lemma seen_all_row:
  assumes "distinct (map dk_id cs)" "c \<in> set cs"
  shows "\<exists>row. get_row c_id (dk_id c) (seen_all cs tbl) = Some row \<and> c_excluded row = dk_excluded c"
proof -
  have other: "j \<notin> dk_id ` set xs \<Longrightarrow> get_row c_id j (seen_all xs t) = get_row c_id j t" for j xs t
    by (induction xs arbitrary: t) (auto simp: seen_row)
  show ?thesis
    using assms
  proof (induction cs arbitrary: tbl)
    case (Cons x cs)
    show ?case
    proof (cases "c = x")
      case True
      then have "dk_id c \<notin> dk_id ` set cs" using Cons.prems(1) by auto
      then show ?thesis using True by (cases "get_row c_id (dk_id x) tbl") (simp_all add: other seen_row seen_record_excluded)
    next
      case False
      then show ?thesis using Cons by simp
    qed
  qed simp
qed

lemma seen_all_keys: "keys_distinct c_id tbl \<Longrightarrow> keys_distinct c_id (seen_all cs tbl)"
  by (induction cs arbitrary: tbl) (simp_all add: seen_distinct)

lemma discover_row:
  assumes "reliable (ck_engine k)" "keys_distinct c_id (cw_containers s)" "distinct (map dk_id cs)" "c \<in> set cs"
  shows "keys_distinct c_id (cw_containers (discover k cs s))"
    and "map_option c_excluded (get_row c_id (dk_id c) (cw_containers (discover k cs s))) = Some (dk_excluded c)"
proof -
  note k = seen_all_keys[OF assms(2), of cs]
  show "keys_distinct c_id (cw_containers (discover k cs s))"
    unfolding discover_containers[OF assms(1)] by (rule prune_distinct[OF k])
  obtain row where row: "get_row c_id (dk_id c) (seen_all cs (cw_containers s)) = Some row" "c_excluded row = dk_excluded c"
    using seen_all_row[OF assms(3,4)] by blast
  then have "c_id row = dk_id c" "cs \<noteq> []" using assms(4) by (auto dest: get_row_key)
  then show "map_option c_excluded (get_row c_id (dk_id c) (cw_containers (discover k cs s))) = Some (dk_excluded c)"
    unfolding discover_containers[OF assms(1)] PruneContainers_def using row assms(4) by (simp add: get_delete_where[OF k])
qed

lemma in_target_row:
  assumes "in_target sc tbl rec" "keys_distinct c_id tbl"
  shows "get_row c_id (c_id rec) tbl = Some rec"
proof (cases "sc_container sc = ''''")
  case True
  then show ?thesis using assms get_row_mem[OF assms(2), of rec] by (simp add: in_target_def)
next
  case False
  then obtain r where "get_row c_name (sc_container sc) tbl = Some r" "get_row c_id (c_id r) tbl = Some rec"
    using assms(1) by (auto simp: in_target_def GetContainerByName_def GetContainer_def split: option.splits)
  then show ?thesis using get_row_key[of c_id "c_id r" tbl rec] by simp
qed

text \<open>What a policy may ask for when a container of the table is excluded.\<close>
lemma excluded_not_requested:
  assumes "keys_distinct c_id (wd_containers (sw_world s))" "map_option c_excluded (get_row c_id j (wd_containers (sw_world s))) = Some True"
    and "applyToTargets e upd sc delay s = (r, s')"
  shows "\<exists>new. sw_requests s' = sw_requests s @ new \<and> (\<forall>q \<in> set new. rq_container q \<noteq> j)"
proof -
  obtain new where new: "sw_requests s' = sw_requests s @ new"
    "\<forall>q \<in> set new. rq_schedule q = sc_id sc \<and> (\<exists>rec cand. in_target sc (wd_containers (sw_world s)) rec
        \<and> c_id rec = rq_container q \<and> c_update_available rec \<and> \<not> c_excluded rec
        \<and> GetUpdateCandidate (c_id rec) (scope_of sc) (sw_candidates s) = Some cand \<and> rq_image q = uc_image cand
        \<and> (0 < delay \<longrightarrow> uc_detected cand + delay \<le> rq_at q))"
    using applyToTargets_requests[OF assms(3)] by blast
  have "rq_container q \<noteq> j" if "q \<in> set new" for q
  proof
    assume j: "rq_container q = j"
    obtain rec where rec: "in_target sc (wd_containers (sw_world s)) rec" "c_id rec = rq_container q" "\<not> c_excluded rec"
      using bspec[OF new(2) \<open>q \<in> set new\<close>] by (elim conjE exE)
    show False using in_target_row[OF rec(1) assms(1)] rec(2,3) assms(2) j by simp
  qed
  then show ?thesis using new(1) by blast
qed

text \<open>C9: A container that carries the label \<^verbatim>\<open>doupro.enable=false\<close>, or that the settings exclude by name or by stack,
  is left alone: no pass of a policy over the tables that a check leaves behind asks for an update of it,
  whatever the registries answer and whatever the policy is.\<close>

theorem excluded_container_left_alone:
  assumes "reliable (ck_engine k)" "keys_distinct c_id (cw_containers s)"
    and "on_docker (im_ping (ck_images k)) s = (True, s1)" "on_docker (docker_List (ck_engine k)) s1 = (Inr found, s2)"
    and "distinct (map dk_id found)" "c \<in> set found"
    and "dk_excluded c \<or> dk_name c \<in> set (ex_containers (GetExclusions (wd_settings (cw_world s)))) \<or> dk_stack c \<in> set (ex_stacks (GetExclusions (wd_settings (cw_world s))))"
    and "applyToTargets e upd sc delay (cw_sched (Check k s)) = (r, s')"
  shows "\<exists>new. sw_requests s' = sw_requests (cw_sched (Check k s)) @ new \<and> (\<forall>q \<in> set new. rq_container q \<noteq> dk_id c)"
proof -
  have set2: "wd_settings (cw_world s2) = wd_settings (cw_world s)" "cw_containers s2 = cw_containers s"
    using assms(3,4) by (auto simp: on_docker_def split: prod.splits)
  obtain d where ex: "load_exclusions k s2 = (GetExclusions (wd_settings (cw_world s)), set_world ((cw_world s2)\<lparr>wd_env := d\<rparr>) s2)"
    by (rule k_sql_reliable[OF assms(1), of "\<lambda>s. (GetExclusions (wd_settings (cw_world s)), s)" s2], rule that)
      (simp add: load_exclusions_def set2(1))
  let ?ex = "GetExclusions (wd_settings (cw_world s))" and ?s3 = "set_world ((cw_world s2)\<lparr>wd_env := d\<rparr>) s2"
  let ?cs = "map (excluded_too ?ex) found"
  have check: "Check k s = checkForUpdates k ?cs (discover k ?cs ?s3)"
    using assms(3,4) ex by (simp add: Check_def Let_def)
  have "dk_id \<circ> excluded_too ?ex = dk_id" by (auto simp: excluded_too_def)
  then have ids: "distinct (map dk_id ?cs)" "dk_id (excluded_too ?ex c) = dk_id c" using assms(5) by (simp_all add: excluded_too_def)
  have "dk_excluded (excluded_too ?ex c)" using assms(7) by (auto simp: excluded_too_def)
  then have row: "keys_distinct c_id (cw_containers (discover k ?cs ?s3))"
    "map_option c_excluded (get_row c_id (dk_id c) (cw_containers (discover k ?cs ?s3))) = Some True"
    using discover_row[OF assms(1) _ ids(1), of ?s3 "excluded_too ?ex c"] assms(2,6) set2(2) ids(2) by simp_all
  show ?thesis
    using excluded_not_requested[OF _ _ assms(8), of "dk_id c"] row checkForUpdates_exclusions[OF assms(1), of "discover k ?cs ?s3" ?cs]
    unfolding check same_exclusions_def by simp
qed

text \<open>Saving the exclusions in the settings forgets the label: every row that the saved lists do not
  name is open to updates from then on, also when its container carries the label, until the
  next check.\<close>

theorem saved_exclusions_forget_label:
  assumes "get_row c_id j tbl = Some row" "c_name row \<notin> set (ex_containers ex)" "c_stack row \<notin> set (ex_stacks ex)"
    and "c_name row \<noteq> CHR 0x00 # ''doupro-no-such-container''" "c_stack row \<noteq> CHR 0x00 # ''doupro-no-such-stack''"
  shows "get_row c_id j (ApplyExclusions ex tbl) = Some (row\<lparr>c_excluded := False\<rparr>)"
  using assms by (auto simp: ApplyExclusions_def Let_def row_simps)

section \<open>A registry with three tags\<close>

definition three_tags :: "get_request \<Rightarrow> get_response" where
  "three_tags q =
    (if u_rest (gr_url q) = ''v2/app/tags/list?n=10000''
     then \<lparr>gs_status = 200, gs_headers = [], gs_body = Some (JObj [(''tags'', JArr (map JStr [''1.2.3'', ''1.3.0'', ''1.2.4'']))])\<rparr>
     else answer 200 [(''Docker-Content-Digest'', ''sha256:aa'')])"

definition demo_images :: "host logging images" where
  "demo_images = \<lparr>im_ping = (\<lambda>d. (True, d)), im_inspect = (\<lambda>i d. (Inr ([''r.example/app@sha256:aa''], None), d))\<rparr>"

definition demo_checker :: "(host logging, unit) checker" where
  "demo_checker = \<lparr>ck_engine = logged host_engine, ck_images = demo_images, ck_http = served three_tags, ck_env = bob_env,
     ck_os = ''linux'', ck_arch = ''amd64'', ck_valid = sha_valid\<rparr>"

definition app_host :: host where
  "app_host = \<lparr>ho_next = 1, ho_items = [(''c1'', ''web'', ''r.example/app:1.2.3'', True)], ho_clock = 5, ho_faults = []\<rparr>"

definition demo_check_world :: "string list \<Rightarrow> (host logging, unit) check_world" where
  "demo_check_world excluded = \<lparr>
     cw_sched = \<lparr>
       sw_world = (web_world [])\<lparr>wd_env := ([], app_host),
         wd_containers := [container_record ''c1'' ''web'' '''' ''running'' ''Up'' ''r.example/app:1.2.3'' ''''],
         wd_settings := SetExclusions \<lparr>ex_containers = excluded, ex_stacks = []\<rparr> []\<rparr>,
       sw_schedules = \<lparr>st_rows = [], st_seq = 0\<rparr>, sw_candidates = [], sw_requests = []\<rparr>,
     cw_versions = [], cw_log = [], cw_net = ()\<rparr>"

definition app_container :: docker_container where
  "app_container = \<lparr>dk_id = ''c1'', dk_name = ''web'', dk_image = ''r.example/app:1.2.3'', dk_image_id = ''sha256:r.example/app:1.2.3'',
     dk_state = ''running'', dk_status = '''', dk_stack = '''', dk_excluded = False, dk_labels = []\<rparr>"

definition demo_check :: "counts \<times> caches \<times> (host logging, unit) check_world" where
  "demo_check = checkOneContainer demo_checker empty_caches app_container (demo_check_world [])"

definition demo_candidates :: candidates where
  "demo_candidates = fst (find_candidates demo_checker app_container ''r.example/app:1.2.3'' (ParseRef ''r.example/app:1.2.3'')
     [''sha256:aa''] ''sha256:aa'' Map.empty (demo_check_world []))"

lemma demo_checker_reliable: "reliable (ck_engine demo_checker)"
  by (simp add: demo_checker_def demo_reliable)

lemma on_docker_same: "f (wd_env (cw_world s)) = (a, wd_env (cw_world s)) \<Longrightarrow> on_docker f s = (a, s)"
  by (simp add: on_docker_def set_world_def)

lemma on_net_same: "f (cw_net s) = (a, cw_net s) \<Longrightarrow> on_net f s = (a, s)"
  by (simp add: on_net_def)

lemma demo_check_stored:
  obtains ca s' t where "demo_check = ((1, 1, 0), ca, s')"
    "cw_candidates s' = ReplaceUpdateCandidates ''c1'' (candidate_list demo_candidates) t []"
proof -
  let ?s = "demo_check_world []" and ?img = "''r.example/app:1.2.3''"
  have d: "on_docker (image_digests (ck_images demo_checker) (dk_image_id app_container)) ?s = (Inr [''sha256:aa''], ?s)"
    by (rule on_docker_same) code_simp
  have sv: "\<not> sha_valid ?img" "\<not> IsDigestReference (ck_valid demo_checker) ?img" "trim_space ?img \<noteq> ''''" by code_simp+
  have i: "image_reference demo_checker app_container ?s = (?img, ?s)"
    using image_reference_live[of demo_checker app_container ?s] sv by (simp add: app_container_def)
  have l: "on_docker (ImageVersionLabel (ck_images demo_checker) (dk_image_id app_container) (Repository (ParseRef ?img))) ?s = (Inr '''', ?s)"
    by (rule on_docker_same) code_simp
  have n: "on_net (Digest (ck_http demo_checker) (ck_env demo_checker) (ParseRef ?img)) ?s = (Inr ''sha256:aa'', ?s)"
    by (rule on_net_same) code_simp
  have x: "\<not> dk_excluded app_container" "dk_image_id app_container \<noteq> ''''" "dk_id app_container = ''c1''" "ca_tags empty_caches = Map.empty"
    by (simp_all add: app_container_def empty_caches_def)
  obtain c m f ca s' where cmp: "compare_image demo_checker empty_caches app_container ?img (ParseRef ?img) [''sha256:aa''] '''' ''sha256:aa'' ?s = ((c, m, f), ca, s')"
    by (metis prod.exhaust)
  have dc: "demo_check = ((c, m, f), ca, s')"
    unfolding demo_check_def checkOneContainer_def check_reference_def using d i l n x sv cmp by simp
  obtain cache s1 where fc: "find_candidates demo_checker app_container ?img (ParseRef ?img) [''sha256:aa''] ''sha256:aa'' (ca_tags empty_caches) ?s = (demo_candidates, cache, s1)"
    unfolding demo_candidates_def x(4) by (metis prod.collapse)
  have ne: "candidate_list demo_candidates \<noteq> []" by code_simp
  have "cw_candidates ?s = []" by (simp add: demo_check_world_def)
  then show thesis
    using compare_image_tables[OF demo_checker_reliable cmp fc] that[of ca s'] dc ne x(3) by metis
qed

lemma demo_check_counts: "demo_check = ((1, 1, 0), fst (snd demo_check), snd (snd demo_check))"
  by (rule demo_check_stored) (metis snd_conv fst_conv)

lemma demo_check_candidates:
  assumes "scope \<in> set candidate_scopes" "demo_candidates scope = Some cand"
  shows "map_option uc_image (GetUpdateCandidate ''c1'' scope (cw_candidates (snd (snd demo_check)))) = Some (uc_image cand)"
proof -
  obtain ca s' t where c: "demo_check = ((1, 1, 0), ca, s')"
    "cw_candidates s' = ReplaceUpdateCandidates ''c1'' (candidate_list demo_candidates) t []" by (rule demo_check_stored)
  obtain cache s1 where fc: "find_candidates demo_checker app_container ''r.example/app:1.2.3'' (ParseRef ''r.example/app:1.2.3'')
      [''sha256:aa''] ''sha256:aa'' Map.empty (demo_check_world []) = (demo_candidates, cache, s1)"
    unfolding demo_candidates_def by (metis prod.collapse)
  have "GetUpdateCandidate ''c1'' scope (cw_candidates s') = refreshed ''c1'' t (demo_candidates scope) (GetUpdateCandidate ''c1'' scope [])"
    unfolding c(2) by (rule candidates_after_check[OF fc _ assms(1)]) (simp add: keys_distinct_def)
  moreover have "snd (snd demo_check) = s'" using c(1) by (metis snd_conv)
  ultimately show ?thesis using assms(2) by (simp add: refreshed_def GetUpdateCandidate_def row_simps)
qed

theorem check_marks_candidates_witness:
  "\<exists>row. get_row c_id ''c1'' (cw_containers (snd (snd demo_check))) = Some row \<and> c_update_available row"
proof -
  have k: "keys_distinct uc_key (cw_candidates (demo_check_world []))"
    by (simp add: demo_check_world_def keys_distinct_def)
  have r: "get_row c_id (dk_id app_container) (cw_containers (demo_check_world [])) =
      Some (container_record ''c1'' ''web'' '''' ''running'' ''Up'' ''r.example/app:1.2.3'' '''')"
    by (simp add: demo_check_world_def app_container_def container_record_def row_simps)
  have "dk_id app_container = ''c1''" by (simp add: app_container_def)
  then show ?thesis unfolding demo_check_def using check_marks_candidates[OF demo_checker_reliable k r demo_check_counts[unfolded demo_check_def]] by auto
qed

theorem check_offers_newest_witness:
  "map_option uc_image (GetUpdateCandidate ''c1'' ''patch'' (cw_candidates (snd (snd demo_check)))) = Some ''r.example/app:1.2.4''
   \<and> map_option uc_image (GetUpdateCandidate ''c1'' ''minor'' (cw_candidates (snd (snd demo_check)))) = Some ''r.example/app:1.3.0''
   \<and> (\<exists>img ds remote tags. right_offer img ds remote tags ''minor'' (GetUpdateCandidate ''c1'' ''minor'' (cw_candidates (snd (snd demo_check)))))"
proof -
  have k: "keys_distinct uc_key (cw_candidates (demo_check_world []))"
    by (simp add: demo_check_world_def keys_distinct_def)
  have ds: "ImageDigests [''r.example/app@sha256:aa''] = [''sha256:aa'']" by code_simp
  have d: "\<forall>d ds. fst (image_digests (ck_images demo_checker) (dk_image_id app_container) d) = Inr ds \<longrightarrow> '''' \<notin> set ds"
    by (auto simp: demo_checker_def demo_images_def image_digests_def ds)
  have i: "dk_id app_container = ''c1''" "''minor'' \<in> set candidate_scopes" by (simp_all add: app_container_def candidate_scopes_def)
  have "map_option uc_image (demo_candidates ''patch'') = Some ''r.example/app:1.2.4''" "map_option uc_image (demo_candidates ''minor'') = Some ''r.example/app:1.3.0''"
    by code_simp+
  then have e: "map_option uc_image (GetUpdateCandidate ''c1'' ''patch'' (cw_candidates (snd (snd demo_check)))) = Some ''r.example/app:1.2.4''"
    "map_option uc_image (GetUpdateCandidate ''c1'' ''minor'' (cw_candidates (snd (snd demo_check)))) = Some ''r.example/app:1.3.0''"
    using demo_check_candidates[of "''patch''"] demo_check_candidates[of "''minor''"] by (auto simp: candidate_scopes_def)
  have "\<exists>img ds remote tags. \<forall>scope \<in> set candidate_scopes. right_offer img ds remote tags scope (GetUpdateCandidate ''c1'' scope (cw_candidates (snd (snd demo_check))))"
    using check_offers_newest[OF demo_checker_reliable k demo_check_counts[unfolded demo_check_def] d] unfolding i(1) demo_check_def[symmetric]
    by (elim exE conjE) (intro exI)
  then show ?thesis using e i(2) by blast
qed

theorem excluded_container_left_alone_witness:
  "\<exists>new. sw_requests (snd (applyToTargets (logged host_engine) demo_update (demo_schedule ''cron'') 0 (cw_sched (Check demo_checker (demo_check_world [''web'']))))) =
      sw_requests (cw_sched (Check demo_checker (demo_check_world [''web'']))) @ new \<and> (\<forall>q \<in> set new. rq_container q \<noteq> ''c1'')"
proof -
  let ?s = "demo_check_world [''web'']"
  have k: "keys_distinct c_id (cw_containers ?s)" by (simp add: demo_check_world_def keys_distinct_def)
  have p: "on_docker (im_ping (ck_images demo_checker)) ?s = (True, ?s)"
    by (simp add: on_docker_def demo_checker_def demo_images_def set_world_def)
  have l: "fst (on_docker (docker_List (ck_engine demo_checker)) ?s) = Inr [app_container]" by code_simp
  have l': "on_docker (docker_List (ck_engine demo_checker)) ?s = (Inr [app_container], snd (on_docker (docker_List (ck_engine demo_checker)) ?s))"
    using l surjective_pairing by metis
  have ex: "ex_containers (GetExclusions (wd_settings (cw_world ?s))) = [''web'']" by code_simp
  have x: "dk_excluded app_container \<or> dk_name app_container \<in> set (ex_containers (GetExclusions (wd_settings (cw_world ?s))))
      \<or> dk_stack app_container \<in> set (ex_stacks (GetExclusions (wd_settings (cw_world ?s))))"
    unfolding ex by (simp add: app_container_def)
  have "distinct (map dk_id [app_container])" "app_container \<in> set [app_container]" "dk_id app_container = ''c1''" by (simp_all add: app_container_def)
  then show ?thesis
    using excluded_container_left_alone[OF demo_checker_reliable k p l' _ _ x surjective_pairing] by metis
qed

end
