(* ===== verification/Self_Update.thy ===== *)
theory Self_Update
  imports Updater
begin

text \<open>
  \<^verbatim>\<open>internal/updater/self_update.go\<close>: the daemon replaces its own container. It closes the global
  gate, pulls the image and starts a sibling helper container; the helper stops the daemon's
  container, keeps it under a recovery name, creates the replacement and removes the original only
  when the replacement is healthy. The schedule horizon is asked of the scheduler through a
  function, here the parameter \<^verbatim>\<open>blockers\<close>; the host name of the process is a parameter too.
\<close>

section \<open>Identity\<close>

definition SelfUpdateSafetyWindow :: int where "SelfUpdateSafetyWindow = 5 * 60 * nanos"

datatype self_error =
    ActiveOperations "string list"
  | IdentityUnverified
  | NotConfigured
  | BlockersFailed string
  | Blocked "string list"
  | PrepareImage string
  | InspectParent string
  | CreateHelper string
  | StartHelper string

definition selfContainerID :: "'d engine \<Rightarrow> string \<Rightarrow> 'd \<Rightarrow> string option \<times> 'd" where
  "selfContainerID e hostname d =
    (case docker_List e d of
       (Inl _, d1) \<Rightarrow> (None, d1)
     | (Inr items, d1) \<Rightarrow>
         (case find (\<lambda>item. hostname \<noteq> '''' \<and> has_prefix (dk_id item) hostname) items of
            Some item \<Rightarrow> (Some (dk_id item), d1)
          | None \<Rightarrow>
              (case filter (\<lambda>item. label_at (dk_labels item) ''doupro.instance'' = ''true'') items of
                 [item] \<Rightarrow> (Some (dk_id item), d1)
               | _ \<Rightarrow> (None, d1))))"

definition same_container :: "string \<Rightarrow> string \<Rightarrow> bool" where
  "same_container selfID containerID \<longleftrightarrow> has_prefix selfID containerID \<or> has_prefix containerID selfID"

definition IsSelf :: "'d engine \<Rightarrow> string \<Rightarrow> string \<Rightarrow> 'd \<Rightarrow> bool \<times> 'd" where
  "IsSelf e hostname containerID d =
    (case selfContainerID e hostname d of
       (None, d1) \<Rightarrow> (False, d1) | (Some selfID, d1) \<Rightarrow> (same_container selfID containerID, d1))"

section \<open>The start\<close>

definition envOrDefault :: "string list \<Rightarrow> string \<Rightarrow> string \<Rightarrow> string" where
  "envOrDefault env key fallback =
    (case find (\<lambda>item. has_prefix item (key @ ''='')) env of
       Some item \<Rightarrow> trim_prefix item (key @ ''='') | None \<Rightarrow> fallback)"

definition parentEnv :: "'d engine \<Rightarrow> string \<Rightarrow> 'd \<Rightarrow> string list \<times> 'd" where
  "parentEnv e cid d =
    (case en_inspect e cid d of
       (Inr info, d1) \<Rightarrow> (case in_config info of None \<Rightarrow> ([], d1) | Some c \<Rightarrow> (cf_env c, d1))
     | (Inl _, d1) \<Rightarrow> ([], d1))"

definition mustInspectName :: "'d engine \<Rightarrow> string \<Rightarrow> 'd \<Rightarrow> string \<times> 'd" where
  "mustInspectName e cid d =
    (case en_inspect e cid d of (Inr info, d1) \<Rightarrow> (in_name info, d1) | (Inl _, d1) \<Rightarrow> (cid, d1))"

definition helper_config :: "docker_client \<Rightarrow> string \<Rightarrow> string \<Rightarrow> string \<Rightarrow> string \<Rightarrow> container_config" where
  "helper_config cl selfID targetImage token dbPath =
    \<lparr>cf_hostname = '''', cf_env = [],
     cf_cmd = [''self-update-helper'', ''--parent-id'', selfID, ''--target-image'', targetImage, ''--token'', token,
       ''--socket'', dc_socket cl, ''--db-path'', dbPath],
     cf_image = targetImage,
     cf_labels = [(''doupro.enable'', ''false''), (''doupro.self-update-helper'', ''true'')], cf_other = JNull\<rparr>"

text \<open>Whether the database lies at or below a mount point.\<close>
definition holds_db :: "string \<Rightarrow> mount_point \<Rightarrow> bool" where
  "holds_db dbPath point \<longleftrightarrow> dbPath = mp_destination point
     \<or> has_prefix dbPath (trim_suffix (mp_destination point) ''/'' @ ''/'')"

definition helper_host :: "docker_client \<Rightarrow> string \<Rightarrow> inspect \<Rightarrow> host_config" where
  "helper_host cl dbPath parent =
    \<lparr>hc_binds = [dc_socket cl @ '':'' @ dc_socket cl],
     hc_mounts = (case find (holds_db dbPath) (in_mounts parent) of
         None \<Rightarrow> []
       | Some point \<Rightarrow> [\<lparr>mt_type = mp_type point,
           mt_source = (if mp_type point = ''volume'' then mp_name point else mp_source point),
           mt_target = mp_destination point, mt_read_only = (\<not> mp_rw point), mt_other = JNull\<rparr>]),
     hc_tmpfs = [],
     hc_group_add = (case in_host parent of None \<Rightarrow> [] | Some h \<Rightarrow> hc_group_add h),
     hc_auto_remove = True, hc_oom_kill_disable = None, hc_other = JNull\<rparr>"

text \<open>Everything after the gate was closed and the identity verified. The answer is the error, or the
  helper's ID.\<close>
definition launch_helper :: "'d engine \<Rightarrow> docker_client \<Rightarrow> string \<Rightarrow> string \<Rightarrow> 'd \<Rightarrow> (self_error, string) result \<times> 'd" where
  "launch_helper e cl selfID targetImage d =
    (case Pull e cl targetImage d of
       (Some err, d1) \<Rightarrow> (Inl (PrepareImage err), d1)
     | (None, d1) \<Rightarrow>
         (let token = Itoa (en_now e d1) in
          case parentEnv e selfID d1 of (env, d2) \<Rightarrow>
          let dbPath = envOrDefault env ''DOUPRO_DB_PATH'' ''/data/doupro.db'' in
          case en_inspect e selfID d2 of
            (Inl err, d3) \<Rightarrow> (Inl (InspectParent err), d3)
          | (Inr parent, d3) \<Rightarrow>
              (case en_create e (helper_config cl selfID targetImage token dbPath) (helper_host cl dbPath parent) None
                      (''doupro-self-update-'' @ token) d3 of
                 (Inl err, d4) \<Rightarrow> (Inl (CreateHelper err), d4)
               | (Inr helperID, d4) \<Rightarrow>
                   (case en_start e helperID d4 of
                      (Some err, d5) \<Rightarrow> (Inl (StartHelper err), snd (en_remove e helperID True d5))
                    | (None, d5) \<Rightarrow> (Inr helperID, d5)))))"

text \<open>\<^verbatim>\<open>blockers\<close> and \<^verbatim>\<open>shutdown\<close> are \<^term>\<open>None\<close> and \<^term>\<open>False\<close> when not configured. The last part of
  the answer says whether the shutdown was scheduled.\<close>
definition StartSelfUpdate :: "'d engine \<Rightarrow> docker_client \<Rightarrow> string \<Rightarrow> (time \<Rightarrow> 'd world \<Rightarrow> (string, string list) result \<times> 'd world) option \<Rightarrow>
    bool \<Rightarrow> string \<Rightarrow> string \<Rightarrow> string \<Rightarrow> 'd world \<Rightarrow> self_error option \<times> 'd world \<times> bool" where
  "StartSelfUpdate e cl hostname blockers shutdown containerID targetImage actorID w =
    (case beginMaintenance (wd_guard w) of
       ((act, False), g) \<Rightarrow> (Some (ActiveOperations act), w\<lparr>wd_guard := g\<rparr>, False)
     | ((_, True), g) \<Rightarrow>
         (let failed = (\<lambda>err w. (Some err, w\<lparr>wd_guard := endMaintenance (wd_guard w)\<rparr>, False));
              w0 = w\<lparr>wd_guard := g\<rparr>
          in case selfContainerID e hostname (wd_env w0) of
               (None, d1) \<Rightarrow> failed IdentityUnverified (w0\<lparr>wd_env := d1\<rparr>)
             | (Some selfID, d1) \<Rightarrow>
                 (let w1 = w0\<lparr>wd_env := d1\<rparr> in
                  if \<not> same_container selfID containerID then failed IdentityUnverified w1
                  else case blockers of
                    None \<Rightarrow> failed NotConfigured w1
                  | Some ask \<Rightarrow>
                      if \<not> shutdown then failed NotConfigured w1
                      else case ask (now e w1 + SelfUpdateSafetyWindow) w1 of
                        (Inl err, w2) \<Rightarrow> failed (BlockersFailed err) w2
                      | (Inr (b # bs), w2) \<Rightarrow> failed (Blocked (b # bs)) w2
                      | (Inr [], w2) \<Rightarrow>
                          (case launch_helper e cl selfID targetImage (wd_env w2) of
                             (Inl err, d3) \<Rightarrow> failed err (w2\<lparr>wd_env := d3\<rparr>)
                           | (Inr helperID, d3) \<Rightarrow>
                               (case mustInspectName e selfID d3 of (name, d4) \<Rightarrow>
                                (None,
                                 emit ((event_of LevelInfo ''self_update.started'' (trimSlash name) ActorUser actorID [])
                                   \<lparr>ev_to_version := targetImage\<rparr>) (w2\<lparr>wd_env := d4\<rparr>),
                                 True))))))"

section \<open>The helper\<close>

datatype helper_error =
    HelperInspect string
  | HelperPlan recreate_error
  | HelperStop string
  | HelperRename string
  | RemoveRecovery string
  | RecoveryRename string
  | RecoveryStart string
  | Restored

definition helper_plan :: "string \<Rightarrow> recreationPlan \<Rightarrow> recreationPlan" where
  "helper_plan parentID plan =
    (if cf_hostname (pl_config plan) \<noteq> '''' \<and> has_prefix parentID (cf_hostname (pl_config plan))
     then plan\<lparr>pl_config := (pl_config plan)\<lparr>cf_hostname := ''''\<rparr>\<rparr> else plan)"

text \<open>The replacement: its ID when it was created, and whether it came up.\<close>
definition start_replacement :: "'d engine \<Rightarrow> recreationPlan \<Rightarrow> 'd \<Rightarrow> (string \<times> bool) \<times> 'd" where
  "start_replacement e plan d =
    (case en_create e (pl_config plan) (pl_host plan) (pl_network plan) (pl_name plan) d of
       (Inl _, d1) \<Rightarrow> (('''', False), d1)
     | (Inr newID, d1) \<Rightarrow>
         if \<not> pl_was_running plan then ((newID, True), d1)
         else (case en_start e newID d1 of
                 (Some _, d2) \<Rightarrow> ((newID, False), d2)
               | (None, d2) \<Rightarrow>
                   (case WaitHealthy e newID DefaultHealthTimeout DefaultStabilityWindow d2 of
                      (err, d3) \<Rightarrow> ((newID, err = None), d3))))"

definition restore_original :: "'d engine \<Rightarrow> string \<Rightarrow> recreationPlan \<Rightarrow> string \<Rightarrow> 'd \<Rightarrow> helper_error \<times> 'd" where
  "restore_original e parentID plan newID d =
    (let d1 = (if newID \<noteq> '''' then snd (en_remove e newID True d) else d) in
     case en_rename e parentID (pl_name plan) d1 of
       (Some err, d2) \<Rightarrow> (RecoveryRename err, d2)
     | (None, d2) \<Rightarrow>
         if \<not> pl_was_running plan then (Restored, d2)
         else (case en_start e parentID d2 of
                 (Some err, d3) \<Rightarrow> (RecoveryStart err, d3) | (None, d3) \<Rightarrow> (Restored, d3)))"

definition recovery_name :: "string \<Rightarrow> string \<Rightarrow> string" where
  "recovery_name name token = name @ ''-doupro-recovery-'' @ token"

definition swap_container :: "'d engine \<Rightarrow> string \<Rightarrow> recreationPlan \<Rightarrow> string \<Rightarrow> 'd \<Rightarrow> helper_error option \<times> 'd" where
  "swap_container e parentID plan token d =
    (case en_rename e parentID (recovery_name (pl_name plan) token) d of
       (Some err, d1) \<Rightarrow>
         (Some (HelperRename err), if pl_was_running plan then snd (en_start e parentID d1) else d1)
     | (None, d1) \<Rightarrow>
         (case start_replacement e plan d1 of
            ((newID, True), d2) \<Rightarrow>
              (case en_remove e parentID True d2 of
                 (Some err, d3) \<Rightarrow> (Some (RemoveRecovery err), d3) | (None, d3) \<Rightarrow> (None, d3))
          | ((newID, False), d2) \<Rightarrow>
              (case restore_original e parentID plan newID d2 of (err, d3) \<Rightarrow> (Some err, d3))))"

text \<open>The answer is the error and the event the helper writes through the daemon's database.\<close>
definition RunSelfUpdateHelper :: "'d engine \<Rightarrow> string \<Rightarrow> string \<Rightarrow> string \<Rightarrow> 'd \<Rightarrow> (helper_error option \<times> event list) \<times> 'd" where
  "RunSelfUpdateHelper e parentID targetImage token d =
    (case en_inspect e parentID d of
       (Inl err, d1) \<Rightarrow> ((Some (HelperInspect err), []), d1)
     | (Inr before, d1) \<Rightarrow>
         (case buildRecreationPlan before targetImage of
            Inl err \<Rightarrow> ((Some (HelperPlan err), []), d1)
          | Inr plan0 \<Rightarrow>
              (let plan = helper_plan parentID plan0;
                   result = (\<lambda>lvl typ. [(event_of lvl typ (pl_name plan) ActorSystem '''' [])\<lparr>ev_to_version := targetImage\<rparr>])
               in case (if pl_was_running plan then en_stop e parentID DefaultStopTimeout d1 else (None, d1)) of
                    (Some err, d2) \<Rightarrow> ((Some (HelperStop err), []), d2)
                  | (None, d2) \<Rightarrow>
                      (case swap_container e parentID plan token d2 of (r, d3) \<Rightarrow>
                       ((r, case r of None \<Rightarrow> result LevelInfo ''self_update.succeeded''
                                    | Some Restored \<Rightarrow> result LevelError ''self_update.failed''
                                    | _ \<Rightarrow> []), d3)))))"

section \<open>The host, replayed from the log\<close>

text \<open>A container has a name and runs or not.\<close>
type_synonym containers = "string \<rightharpoonup> string \<times> bool"

fun replay_call :: "docker_call \<Rightarrow> containers \<Rightarrow> containers" where
  "replay_call (CallStop i True) h = (case h i of None \<Rightarrow> h | Some (n, _) \<Rightarrow> h(i \<mapsto> (n, False)))"
| "replay_call (CallRemove i True) h = h(i := None)"
| "replay_call (CallRename i n True) h = (case h i of None \<Rightarrow> h | Some (_, r) \<Rightarrow> h(i \<mapsto> (n, r)))"
| "replay_call (CallCreate img n (Some i)) h = h(i \<mapsto> (n, False))"
| "replay_call (CallStart i True) h = (case h i of None \<Rightarrow> h | Some (n, _) \<Rightarrow> h(i \<mapsto> (n, True)))"
| "replay_call _ h = h"

definition replay :: "docker_call list \<Rightarrow> containers \<Rightarrow> containers" where
  "replay = fold replay_call"

lemma replay_simps [simp]:
  "replay [] h = h" "replay (c # cs) h = replay cs (replay_call c h)" "replay (cs @ cs') h = replay cs' (replay cs h)"
  by (simp_all add: replay_def)

lemma replay_other:
  "i \<noteq> p \<Longrightarrow> replay_call (CallStart i b) h p = h p" "i \<noteq> p \<Longrightarrow> replay_call (CallRemove i b) h p = h p"
  by (cases b; auto split: option.splits)+

text \<open>Docker hands out IDs that no container has.\<close>
definition fresh_ids :: "'d engine \<Rightarrow> string \<Rightarrow> bool" where
  "fresh_ids e p \<longleftrightarrow> (\<forall>c h ns nm d i d'. en_create e c h ns nm d = (Inr i, d') \<longrightarrow> i \<noteq> p \<and> i \<noteq> '''')"

lemma fresh_logged: "fresh_ids e p \<Longrightarrow> fresh_ids (logged e) p"
  unfolding fresh_ids_def logged_def noted_def by (auto simp: prod_eq_iff)

lemma start_replacement_calls:
  assumes "start_replacement (logged e) plan s = ((newID, ok), s')" "fresh_ids e p"
  shows "\<exists>new. added s new s' \<and>
    ((\<not> ok \<and> newID = '''' \<and> new = [CallCreate (cf_image (pl_config plan)) (pl_name plan) None])
     \<or> newID \<noteq> p \<and> newID \<noteq> '''' \<and> (\<exists>b. new = CallCreate (cf_image (pl_config plan)) (pl_name plan) (Some newID)
           # (if pl_was_running plan then [CallStart newID b] else []) \<and> (ok \<longrightarrow> b)))"
proof -
  let ?c = "en_create (logged e) (pl_config plan) (pl_host plan) (pl_network plan) (pl_name plan) s"
  obtain r1 s1 where r1: "?c = (r1, s1)" by (rule prod.exhaust)
  note c1 = logged_create[OF r1]
  show ?thesis
  proof (cases r1)
    case (Inl x)
    then show ?thesis using assms(1) r1 c1 by (auto simp: start_replacement_def)
  next
    case (Inr i)
    have f: "i \<noteq> p" "i \<noteq> ''''" using fresh_logged[OF assms(2)] r1 Inr unfolding fresh_ids_def by blast+
    obtain r2 s2 where r2: "en_start (logged e) i s1 = (r2, s2)" by (rule prod.exhaust)
    obtain r3 s3 where r3: "WaitHealthy (logged e) i DefaultHealthTimeout DefaultStabilityWindow s2 = (r3, s3)"
      by (rule prod.exhaust)
    have a: "added s (CallCreate (cf_image (pl_config plan)) (pl_name plan) (Some i) # [CallStart i (r2 = None)]) s2"
      using added_trans[OF c1 logged_noted(5)[OF r2]] Inr by simp
    show ?thesis
    proof (cases "pl_was_running plan")
      case False
      then show ?thesis using assms(1) r1 Inr c1 f by (auto simp: start_replacement_def)
    next
      case run: True
      show ?thesis
      proof (cases r2)
        case None
        then have "newID = i" "s' = s3" using assms(1) r1 r2 r3 Inr run by (simp_all add: start_replacement_def)
        then show ?thesis using a f run None wait_healthy_silent[OF r3] by (auto simp: added_def)
      next
        case (Some x)
        then have "newID = i" "s' = s2" "\<not> ok" using assms(1) r1 r2 Inr run by (simp_all add: start_replacement_def)
        then show ?thesis using a f run Some by auto
      qed
    qed
  qed
qed

lemma restore_original_calls:
  assumes "restore_original (logged e) p plan newID s = (err, s')"
  shows "\<exists>b b'. added s ((if newID \<noteq> '''' then [CallRemove newID b] else []) @
      (case err of RecoveryRename _ \<Rightarrow> [CallRename p (pl_name plan) False]
       | _ \<Rightarrow> CallRename p (pl_name plan) True # (if pl_was_running plan then [CallStart p b'] else []))) s'
    \<and> (err = Restored \<and> b' \<or> (\<exists>x. err = RecoveryStart x) \<and> \<not> b' \<and> pl_was_running plan \<or> (\<exists>x. err = RecoveryRename x))"
proof -
  obtain r0 s0 where r0: "en_remove (logged e) newID True s = (r0, s0)" by (rule prod.exhaust)
  let ?s1 = "if newID \<noteq> '''' then s0 else s"
  have a0: "added s (if newID \<noteq> '''' then [CallRemove newID (r0 = None)] else []) ?s1"
    using logged_noted(3)[OF r0] by simp
  obtain r1 s1 where r1: "en_rename (logged e) p (pl_name plan) ?s1 = (r1, s1)" by (rule prod.exhaust)
  obtain r2 s2 where r2: "en_start (logged e) p s1 = (r2, s2)" by (rule prod.exhaust)
  note a1 = added_trans[OF a0 logged_noted(4)[OF r1]] and a2 = logged_noted(5)[OF r2]
  have eq: "restore_original (logged e) p plan newID s =
     (case r1 of Some err \<Rightarrow> (RecoveryRename err, s1)
      | None \<Rightarrow> if \<not> pl_was_running plan then (Restored, s1)
               else (case r2 of Some err \<Rightarrow> (RecoveryStart err, s2) | None \<Rightarrow> (Restored, s2)))"
    using r0 r1 r2 by (auto simp: restore_original_def Let_def split: option.splits)
  show ?thesis
  proof (cases r1)
    case (Some x)
    then have "err = RecoveryRename x" "s' = s1" using assms eq by simp_all
    then show ?thesis using a1 Some by (intro exI[of _ "r0 = None"]) simp
  next
    case None
    show ?thesis
    proof (cases "pl_was_running plan")
      case False
      then have "err = Restored" "s' = s1" using assms eq None by simp_all
      then show ?thesis using a1 None False by (intro exI[of _ "r0 = None"] exI[of _ True]) simp
    next
      case True
      then have "(err = Restored \<and> r2 = None \<or> (\<exists>x. err = RecoveryStart x) \<and> r2 \<noteq> None) \<and> s' = s2"
        using assms eq None by (cases r2) auto
      then show ?thesis using added_trans[OF a1 a2] None True
        by (intro exI[of _ "r0 = None"] exI[of _ "r2 = None"]) auto
    qed
  qed
qed

text \<open>How the helper leaves the daemon's container, which had \<^term>\<open>name\<close> and ran or not.\<close>
definition helper_outcome :: "string \<Rightarrow> string \<Rightarrow> bool \<Rightarrow> string \<Rightarrow> helper_error option \<Rightarrow> containers \<Rightarrow> bool" where
  "helper_outcome p name running recovery r h =
    (case r of
       None \<Rightarrow> \<exists>n. n \<noteq> p \<and> h = [n \<mapsto> (name, running)]
     | Some (RemoveRecovery _) \<Rightarrow> \<exists>n. n \<noteq> p \<and> h = [p \<mapsto> (recovery, False), n \<mapsto> (name, running)]
     | Some Restored \<Rightarrow> h p = Some (name, running)
     | Some (RecoveryStart _) \<Rightarrow> h p = Some (name, False)
     | Some (RecoveryRename _) \<Rightarrow> h p = Some (recovery, False)
     | Some (HelperRename _) \<Rightarrow> \<exists>still. h = [p \<mapsto> (name, still)] \<and> (still \<longrightarrow> running)
     | Some _ \<Rightarrow> h = [p \<mapsto> (name, running)])"

lemma swap_container_outcome:
  assumes "swap_container (logged e) p plan token s = (r, s')" "fresh_ids e p"
  shows "\<exists>new. added s new s' \<and> helper_outcome p (pl_name plan) (pl_was_running plan)
    (recovery_name (pl_name plan) token) r (replay new [p \<mapsto> (pl_name plan, False)])"
proof -
  let ?rec = "recovery_name (pl_name plan) token"
  obtain r1 s1 where r1: "en_rename (logged e) p ?rec s = (r1, s1)" by (rule prod.exhaust)
  note a1 = logged_noted(4)[OF r1]
  show ?thesis
  proof (cases r1)
    case (Some x)
    obtain r2 s2 where r2: "en_start (logged e) p s1 = (r2, s2)" by (rule prod.exhaust)
    have r: "r = Some (HelperRename x)" "s' = (if pl_was_running plan then s2 else s1)"
      using assms(1) r1 r2 Some by (auto simp: swap_container_def)
    have "added s (if pl_was_running plan then [CallRename p ?rec False, CallStart p (r2 = None)] else [CallRename p ?rec False]) s'"
      using a1 added_trans[OF a1 logged_noted(5)[OF r2]] r(2) Some by simp
    then show ?thesis
      by (intro exI[of _ "if pl_was_running plan then [CallRename p ?rec False, CallStart p (r2 = None)] else [CallRename p ?rec False]"])
        (cases r2; auto simp: helper_outcome_def r(1))
  next
    case None
    obtain newID ok s2 where sr: "start_replacement (logged e) plan s1 = ((newID, ok), s2)" by (metis surj_pair)
    from start_replacement_calls[OF sr assms(2)] obtain new where new: "added s1 new s2" and
      n: "(\<not> ok \<and> newID = '''' \<and> new = [CallCreate (cf_image (pl_config plan)) (pl_name plan) None])
       \<or> newID \<noteq> p \<and> newID \<noteq> '''' \<and> (\<exists>b. new = CallCreate (cf_image (pl_config plan)) (pl_name plan) (Some newID)
           # (if pl_was_running plan then [CallStart newID b] else []) \<and> (ok \<longrightarrow> b))" by blast
    have a2: "added s (CallRename p ?rec True # new) s2" using added_trans[OF a1 new] None by simp
    show ?thesis
    proof (cases ok)
      case True
      obtain r3 s3 where r3: "en_remove (logged e) p True s2 = (r3, s3)" by (rule prod.exhaust)
      have r: "r = (case r3 of None \<Rightarrow> None | Some x \<Rightarrow> Some (RemoveRecovery x))" "s' = s3"
        using assms(1) r1 sr r3 None True by (cases r3; simp add: swap_container_def)+
      have ex: "newID \<noteq> p" "new = CallCreate (cf_image (pl_config plan)) (pl_name plan) (Some newID)
           # (if pl_was_running plan then [CallStart newID True] else [])" using n True by auto
      show ?thesis
        using added_trans[OF a2 logged_noted(3)[OF r3]] r ex
        by (intro exI[of _ "(CallRename p ?rec True # new) @ [CallRemove p (r3 = None)]"])
          (cases r3; auto simp: helper_outcome_def fun_eq_iff)
    next
      case False
      obtain err s3 where rs: "restore_original (logged e) p plan newID s2 = (err, s3)" by (rule prod.exhaust)
      have r: "r = Some err" "s' = s3" using assms(1) r1 sr rs None False by (simp_all add: swap_container_def)
      from restore_original_calls[OF rs] obtain b b' where a3: "added s2 ((if newID \<noteq> '''' then [CallRemove newID b] else []) @
        (case err of RecoveryRename _ \<Rightarrow> [CallRename p (pl_name plan) False]
         | _ \<Rightarrow> CallRename p (pl_name plan) True # (if pl_was_running plan then [CallStart p b'] else []))) s3" (is "added _ ?back _")
        and e: "err = Restored \<and> b' \<or> (\<exists>x. err = RecoveryStart x) \<and> \<not> b' \<and> pl_was_running plan \<or> (\<exists>x. err = RecoveryRename x)" by blast
      have st: "replay (CallRename p ?rec True # new) [p \<mapsto> (pl_name plan, False)] p = Some (?rec, False)"
        using n by (auto simp: replay_other)
      have "newID \<noteq> '''' \<Longrightarrow> newID \<noteq> p" using n by auto
      then have "helper_outcome p (pl_name plan) (pl_was_running plan) ?rec (Some err)
          (replay ?back (replay (CallRename p ?rec True # new) [p \<mapsto> (pl_name plan, False)]))"
        using e st by (cases b') (auto simp: helper_outcome_def replay_other)
      then show ?thesis using added_trans[OF a2 a3] r by (intro exI[of _ "(CallRename p ?rec True # new) @ ?back"]) simp
    qed
  qed
qed

lemma helper_plan_fields [simp]:
  "pl_name (helper_plan p plan) = pl_name plan" "pl_was_running (helper_plan p plan) = pl_was_running plan"
  by (simp_all add: helper_plan_def)

lemma helper_steps:
  assumes "RunSelfUpdateHelper (logged e) p target token s = ((r, evs), s')" "fresh_ids e p"
  obtains (early) err where "r = Some err" "(\<exists>x. err = HelperInspect x) \<or> (\<exists>x. err = HelperPlan x)" "evs = []" "added s [] s'"
  | (ran) before d d' new where "en_inspect e p d = (Inr before, d')" "added s new s'"
      "helper_outcome p (trimSlash (in_name before)) (is_running before) (recovery_name (trimSlash (in_name before)) token) r
        (replay new [p \<mapsto> (trimSlash (in_name before), is_running before)])"
      "map ev_type evs = (case r of None \<Rightarrow> [''self_update.succeeded''] | Some Restored \<Rightarrow> [''self_update.failed''] | _ \<Rightarrow> [])"
proof -
  obtain i s1 where i: "en_inspect (logged e) p s = (i, s1)" by (rule prod.exhaust)
  note a1 = logged_silent(1)[OF i]
  show thesis
  proof (cases i)
    case (Inl x)
    then show thesis using assms(1) i a1 by (intro early[of "HelperInspect x"]) (auto simp: RunSelfUpdateHelper_def)
  next
    case (Inr before)
    show thesis
    proof (cases "buildRecreationPlan before target")
      case (Inl x)
      then show thesis using assms(1) i a1 Inr by (intro early[of "HelperPlan x"]) (auto simp: RunSelfUpdateHelper_def)
    next
      case p0: (Inr plan0)
      define plan where "plan = helper_plan p plan0"
      have f: "pl_name plan = trimSlash (in_name before)" "pl_was_running plan = is_running before"
        using plan_fields[OF p0] by (simp_all add: plan_def)
      have insp: "en_inspect e p (snd s) = (Inr before, snd s1)"
        using i Inr by (auto simp: logged_def silent_def prod_eq_iff)
      let ?st = "if pl_was_running plan then en_stop (logged e) p DefaultStopTimeout s1 else (None, s1)"
      obtain r2 s2 where r2: "?st = (r2, s2)" by (rule prod.exhaust)
      define stop where "stop = (if pl_was_running plan then [CallStop p (r2 = None)] else [])"
      have a2: "added s stop s2"
        using r2 a1 logged_noted(2)[of e p DefaultStopTimeout s1 r2 s2] added_trans[OF a1, of _ s2]
        by (auto simp: stop_def split: if_splits)
      show thesis
      proof (cases r2)
        case (Some x)
        then have "r = Some (HelperStop x)" "evs = []" "s' = s2" "stop = [CallStop p False]"
          using assms(1) i Inr p0 r2 by (auto simp: RunSelfUpdateHelper_def plan_def Let_def stop_def split: if_splits)
        then show thesis using a2 by (intro ran[OF insp, of stop]) (simp_all add: helper_outcome_def)
      next
        case None
        obtain r3 s3 where r3: "swap_container (logged e) p plan token s2 = (r3, s3)" by (rule prod.exhaust)
        have r: "r = r3" "s' = s3"
          "map ev_type evs = (case r of None \<Rightarrow> [''self_update.succeeded''] | Some Restored \<Rightarrow> [''self_update.failed''] | _ \<Rightarrow> [])"
          using assms(1) i Inr p0 r2 None r3
          by (auto simp: RunSelfUpdateHelper_def plan_def[symmetric] Let_def event_of_def split: option.splits helper_error.splits)
        from swap_container_outcome[OF r3 assms(2)] obtain new where new: "added s2 new s3"
          "helper_outcome p (pl_name plan) (pl_was_running plan) (recovery_name (pl_name plan) token) r3
             (replay new [p \<mapsto> (pl_name plan, False)])" by blast
        have "replay stop [p \<mapsto> (pl_name plan, pl_was_running plan)] = [p \<mapsto> (pl_name plan, False)]"
          using None by (simp add: stop_def)
        then show thesis
          using new r added_trans[OF a2 new(1)] f by (intro ran[OF insp, of "stop @ new"]) simp_all
      qed
    qed
  qed
qed

text \<open>C7: The self-update helper never leaves the host without the daemon. When it succeeds, the only
  container of the two is the replacement, under the daemon's name and running if the daemon ran.
  When it fails, the original container still exists: untouched, or back under its name and
  running, or, if Docker refused that too, under the recovery name or stopped, which the error
  says. The original is given up only for a replacement that runs.\<close>

theorem helper_never_loses_daemon:
  assumes "RunSelfUpdateHelper (logged e) p target token s = ((r, evs), s')" "fresh_ids e p"
  shows "\<exists>new. added s new s' \<and>
    (new = [] \<and> ((\<exists>x. r = Some (HelperInspect x)) \<or> (\<exists>x. r = Some (HelperPlan x)))
     \<or> (\<exists>before d d'. en_inspect e p d = (Inr before, d') \<and>
          (let name = trimSlash (in_name before); h = replay new [p \<mapsto> (name, is_running before)]
           in helper_outcome p name (is_running before) (recovery_name name token) r h
              \<and> (h p = None \<longrightarrow> (\<exists>n. h n = Some (name, is_running before)))
              \<and> ((''self_update.succeeded'' \<in> ev_type ` set evs) = (r = None)))))"
  using assms
proof (cases rule: helper_steps)
  case (early err)
  then show ?thesis by auto
next
  case (ran before d d' new)
  let ?name = "trimSlash (in_name before)"
  let ?h = "replay new [p \<mapsto> (?name, is_running before)]"
  have "?h p = None \<longrightarrow> (\<exists>n. ?h n = Some (?name, is_running before))"
    using ran(3) by (auto simp: helper_outcome_def split: option.splits helper_error.splits)
  moreover have "(''self_update.succeeded'' \<in> set (map ev_type evs)) = (r = None)"
    unfolding ran(4) by (auto split: option.splits helper_error.splits)
  ultimately show ?thesis
    using ran(1-3) unfolding Let_def set_map
    by (intro exI[of _ new] conjI disjI2 exI[of _ before] exI[of _ d] exI[of _ d'])
qed

section \<open>The gate\<close>

definition launch_calls :: "string \<Rightarrow> (self_error, string) result \<Rightarrow> docker_call list \<Rightarrow> bool" where
  "launch_calls target r new =
    (case r of
       Inr h \<Rightarrow> (\<exists>nm. new = [CallPull target True, CallCreate target nm (Some h), CallStart h True])
     | Inl _ \<Rightarrow> new \<in> {[CallPull target False], [CallPull target True]}
         \<or> (\<exists>nm. new = [CallPull target True, CallCreate target nm None])
         \<or> (\<exists>nm h b. new = [CallPull target True, CallCreate target nm (Some h), CallStart h False, CallRemove h b]))"

lemma parentEnv_silent: "parentEnv (logged e) p s = (env, s') \<Longrightarrow> added s [] s'"
  by (auto simp: parentEnv_def split: prod.splits sum.splits option.splits dest: logged_silent(1))

lemma launch_helper_calls:
  assumes "launch_helper (logged e) cl p target s = (r, s')"
  shows "\<exists>new. added s new s' \<and> launch_calls target r new"
proof -
  obtain r1 s1 where r1: "Pull (logged e) cl target s = (r1, s1)" by (rule prod.exhaust)
  note a1 = pull_noted[OF r1]
  show ?thesis
  proof (cases r1)
    case (Some x)
    then show ?thesis using assms r1 a1 by (auto simp: launch_helper_def launch_calls_def)
  next
    case None
    obtain env s2 where env: "parentEnv (logged e) p s1 = (env, s2)" by (rule prod.exhaust)
    obtain i s3 where i: "en_inspect (logged e) p s2 = (i, s3)" by (rule prod.exhaust)
    have a3: "added s [CallPull target True] s3"
      using a1 None parentEnv_silent[OF env] logged_silent(1)[OF i] by (simp add: added_def)
    show ?thesis
    proof (cases i)
      case (Inl x)
      then show ?thesis using assms r1 None env i a3
        by (auto simp: launch_helper_def launch_calls_def Let_def)
    next
      case (Inr parent)
      define dbp where "dbp = envOrDefault env ''DOUPRO_DB_PATH'' ''/data/doupro.db''"
      define nm where "nm = ''doupro-self-update-'' @ Itoa (en_now (logged e) s1)"
      let ?cfg = "helper_config cl p target (Itoa (en_now (logged e) s1)) dbp"
      obtain c s4 where c: "en_create (logged e) ?cfg (helper_host cl dbp parent) None nm s3 = (c, s4)" by (rule prod.exhaust)
      have a4: "added s ([CallPull target True] @ [CallCreate target nm (case c of Inl _ \<Rightarrow> None | Inr j \<Rightarrow> Some j)]) s4"
        using added_trans[OF a3 logged_create[OF c]] by (simp add: helper_config_def)
      have eq: "launch_helper (logged e) cl p target s = (case c of Inl err \<Rightarrow> (Inl (CreateHelper err), s4)
          | Inr h \<Rightarrow> (case en_start (logged e) h s4 of
              (Some err, d5) \<Rightarrow> (Inl (StartHelper err), snd (en_remove (logged e) h True d5)) | (None, d5) \<Rightarrow> (Inr h, d5)))"
        using r1 None env i Inr c unfolding launch_helper_def Let_def dbp_def nm_def by simp
      show ?thesis
      proof (cases c)
        case (Inl x)
        then show ?thesis using assms eq a4 by (auto simp: launch_calls_def)
      next
        case h: (Inr h)
        obtain r5 s5 where r5: "en_start (logged e) h s4 = (r5, s5)" by (rule prod.exhaust)
        obtain r6 s6 where r6: "en_remove (logged e) h True s5 = (r6, s6)" by (rule prod.exhaust)
        note a5 = added_trans[OF a4 logged_noted(5)[OF r5]]
        note a6 = added_trans[OF a5 logged_noted(3)[OF r6]]
        show ?thesis
          using assms eq a5 a6 h r5 r6 by (cases r5) (auto simp: launch_calls_def)
      qed
    qed
  qed
qed


text \<open>The scheduler only reads.\<close>
definition reads_only :: "(time \<Rightarrow> 'd logging world \<Rightarrow> (string, string list) result \<times> 'd logging world) option \<Rightarrow> bool" where
  "reads_only blockers \<longleftrightarrow> (\<forall>ask t w r w'. blockers = Some ask \<longrightarrow> ask t w = (r, w') \<longrightarrow>
     wd_guard w' = wd_guard w \<and> added (wd_env w) [] (wd_env w'))"

lemma selfContainerID_silent: "selfContainerID (logged e) hn s = (r, s') \<Longrightarrow> added s [] s'"
  by (auto simp: selfContainerID_def docker_List_def split: prod.splits sum.splits option.splits list.splits
      dest: logged_silent(2))

lemma mustInspectName_silent: "mustInspectName (logged e) p s = (r, s') \<Longrightarrow> added s [] s'"
  by (auto simp: mustInspectName_def split: prod.splits sum.splits dest: logged_silent(1))

lemma StartSelfUpdate_steps:
  assumes "StartSelfUpdate (logged e) cl hn blockers shutdown cid target aid w = (r, w', shut)" "reads_only blockers"
  obtains (refused) err where "r = Some err" "\<not> shut" "wd_guard w' = wd_guard w" "added (wd_env w) [] (wd_env w')"
  | (failed) err new where "r = Some err" "\<not> shut" "wd_guard w' = wd_guard w" "added (wd_env w) new (wd_env w')"
      "launch_calls target (Inl err) new"
  | (started) h new where "r = None" "shut" "active (wd_guard w) = []" "\<not> maintenance (wd_guard w)"
      "wd_guard w' = (wd_guard w)\<lparr>maintenance := True\<rparr>" "added (wd_env w) new (wd_env w')" "launch_calls target (Inr h) new"
proof (cases "maintenance (wd_guard w) \<or> active (wd_guard w) \<noteq> []")
  case True
  then show thesis using assms(1)
    by (intro refused[of "ActiveOperations (map (\<lambda>(name, op). name @ '':'' @ op_kind op) (active (wd_guard w)))"])
      (auto simp: StartSelfUpdate_def beginMaintenance_def)
next
  case idle: False
  let ?w0 = "w\<lparr>wd_guard := (wd_guard w)\<lparr>maintenance := True\<rparr>\<rparr>"
  have reopen: "endMaintenance ((wd_guard w)\<lparr>maintenance := True\<rparr>) = wd_guard w"
    using idle by (simp add: endMaintenance_def)
  obtain i s1 where i: "selfContainerID (logged e) hn (wd_env w) = (i, s1)" by (rule prod.exhaust)
  note a1 = selfContainerID_silent[OF i]
  let ?w1 = "?w0\<lparr>wd_env := s1\<rparr>"
  show thesis
  proof (cases "\<exists>p ask. i = Some p \<and> same_container p cid \<and> blockers = Some ask \<and> shutdown")
    case False
    then have "(r = Some IdentityUnverified \<or> r = Some NotConfigured) \<and> w' = ?w1\<lparr>wd_guard := wd_guard w\<rparr> \<and> \<not> shut"
      using assms(1) idle i reopen
      by (auto simp: StartSelfUpdate_def beginMaintenance_def Let_def split: option.splits if_splits)
    then show thesis using a1 refused by auto
  next
    case True
    then obtain p ask where p: "i = Some p" "same_container p cid" "blockers = Some ask" "shutdown" by blast
    obtain b w2 where b: "ask (now (logged e) ?w1 + SelfUpdateSafetyWindow) ?w1 = (b, w2)" by (rule prod.exhaust)
    have w2: "wd_guard w2 = (wd_guard w)\<lparr>maintenance := True\<rparr>" "added (wd_env w) [] (wd_env w2)"
      using assms(2) p(3) b a1 unfolding reads_only_def by (fastforce simp: added_def)+
    show thesis
    proof (cases "b = Inr []")
      case False
      then have "(\<exists>err. r = Some err) \<and> w' = w2\<lparr>wd_guard := wd_guard w\<rparr> \<and> \<not> shut"
        using assms(1) idle i p b reopen w2
        by (auto simp: StartSelfUpdate_def beginMaintenance_def Let_def split: sum.splits list.splits)
      then show thesis using w2 refused by auto
    next
      case True
      obtain l s3 where l: "launch_helper (logged e) cl p target (wd_env w2) = (l, s3)" by (rule prod.exhaust)
      obtain nm s4 where nm: "mustInspectName (logged e) p s3 = (nm, s4)" by (rule prod.exhaust)
      from launch_helper_calls[OF l] obtain new where new: "added (wd_env w2) new s3" "launch_calls target l new" by blast
      have a3: "added (wd_env w) new s3" "added (wd_env w) new s4"
        using w2(2) new(1) mustInspectName_silent[OF nm] by (simp_all add: added_def)
      show thesis
      proof (cases l)
        case (Inl err)
        then have "r = Some err \<and> w' = w2\<lparr>wd_env := s3, wd_guard := wd_guard w\<rparr> \<and> \<not> shut"
          using assms(1) idle i p b reopen w2 True l
          by (simp add: StartSelfUpdate_def beginMaintenance_def Let_def)
        then show thesis using a3 new Inl failed[of err new] by simp
      next
        case (Inr h)
        then have "r = None \<and> wd_guard w' = wd_guard w2 \<and> wd_env w' = s4 \<and> shut"
          using assms(1) idle i p b w2 True l nm
          by (auto simp: StartSelfUpdate_def beginMaintenance_def Let_def frame_simps)
        then show thesis using a3 new Inr started[of new h] idle w2(1) by simp
      qed
    qed
  qed
qed

text \<open>C31: Starting a self-update is safe. It is accepted only when no operation runs, and then the gate
  stays closed, so that none can start before the daemon goes down, and the shutdown is scheduled.
  Refused or failed, it leaves the guard as it found it. In every case the daemon's own container
  is not touched: the only calls are the pull and those on the new helper container, which is
  removed again if it cannot be started.\<close>

theorem self_update_start_safe:
  assumes "StartSelfUpdate (logged e) cl hn blockers shutdown cid target aid w = (r, w', shut)" "reads_only blockers"
  shows "\<exists>new. added (wd_env w) new (wd_env w')
    \<and> (case r of
         None \<Rightarrow> shut \<and> active (wd_guard w) = [] \<and> maintenance (wd_guard w')
           \<and> (\<exists>nm h. new = [CallPull target True, CallCreate target nm (Some h), CallStart h True])
       | Some err \<Rightarrow> \<not> shut \<and> wd_guard w' = wd_guard w
           \<and> (\<forall>h. CallStart h True \<notin> set new)
           \<and> (\<forall>nm h. CallCreate target nm (Some h) \<in> set new \<longrightarrow> (\<exists>b. CallRemove h b \<in> set new)))
    \<and> (\<forall>i b. CallStop i b \<notin> set new) \<and> (\<forall>i n b. CallRename i n b \<notin> set new)
    \<and> (\<forall>i b. CallRemove i b \<in> set new \<longrightarrow> (\<exists>nm. CallCreate target nm (Some i) \<in> set new))"
  using assms
proof (cases rule: StartSelfUpdate_steps)
  case (refused err)
  then show ?thesis by auto
next
  case (failed err new)
  from failed(5) show ?thesis
    using failed(1-4) by (intro exI[of _ new]) (auto simp: launch_calls_def)
next
  case (started h new)
  from started(7) show ?thesis
    using started(1-6) by (intro exI[of _ new]) (auto simp: launch_calls_def)
qed


section \<open>Runs on a concrete host\<close>

lemma host_fresh: "fresh_ids host_engine ''c1''"
  by (auto simp: fresh_ids_def host_engine_def split: if_splits)

definition helper_run :: "string list \<Rightarrow> (helper_error option \<times> event list) \<times> host logging" where
  "helper_run faults = RunSelfUpdateHelper (logged host_engine) ''c1'' ''web:2'' ''7'' ([], web_host faults)"

theorem helper_never_loses_daemon_witness:
  "fst (fst (helper_run [''start n1''])) = Some Restored
   \<and> (\<exists>new name running. added ([], web_host [''start n1'']) new (snd (helper_run [''start n1'']))
        \<and> replay new [''c1'' \<mapsto> (name, running)] ''c1'' = Some (name, running))"
proof
  show r: "fst (fst (helper_run [''start n1''])) = Some Restored" by code_simp
  then have "RunSelfUpdateHelper (logged host_engine) ''c1'' ''web:2'' ''7'' ([], web_host [''start n1''])
      = ((Some Restored, snd (fst (helper_run [''start n1'']))), snd (helper_run [''start n1'']))"
    by (metis helper_run_def prod.collapse)
  from helper_never_loses_daemon[OF this host_fresh]
  show "\<exists>new name running. added ([], web_host [''start n1'']) new (snd (helper_run [''start n1'']))
        \<and> replay new [''c1'' \<mapsto> (name, running)] ''c1'' = Some (name, running)"
    by (fastforce simp: helper_outcome_def Let_def)
qed

definition self_start :: "self_error option \<times> host logging world \<times> bool" where
  "self_start = StartSelfUpdate (logged host_engine) plain_client ''c1'' (Some (\<lambda>t w. (Inr [], w))) True ''c1'' ''web:2'' ''ann'' (web_world [])"

theorem self_update_start_safe_witness:
  "fst self_start = None \<and> snd (snd self_start) \<and> maintenance (wd_guard (fst (snd self_start)))"
proof -
  have r: "fst self_start = None" by code_simp
  have ro: "reads_only (Some (\<lambda>t (w :: host logging world). (Inr [], w)))" by (auto simp: reads_only_def)
  have "StartSelfUpdate (logged host_engine) plain_client ''c1'' (Some (\<lambda>t w. (Inr [], w))) True ''c1'' ''web:2'' ''ann'' (web_world [])
      = (None, fst (snd self_start), snd (snd self_start))"
    using r by (metis self_start_def prod.collapse)
  from self_update_start_safe[OF this ro] r show ?thesis by auto
qed

end
