(* ===== verification/Access.thy ===== *)
theory Access
  imports Watches
begin

text \<open>
  \<^verbatim>\<open>internal/store/auth.go\<close>: accounts, role assignments, sessions and API keys. Passwords and
  tokens arrive hashed. User and key IDs come from SQLite's \<^verbatim>\<open>AUTOINCREMENT\<close> and are never
  reused; deleting a user deletes its sessions through the foreign key.
\<close>

section \<open>Roles and permissions\<close>

datatype permission =
    ReadContainers | WriteContainers | ViewLogs | ManageSchedules | ManageNotifications
  | ViewStats | ManageSettings | ManageUsers

record AccessControl =
  ac_role :: string
  ac_view_logs :: bool
  ac_manage_schedules :: bool
  ac_manage_notifications :: bool
  ac_view_stats :: bool
  ac_protected :: bool

definition plain_access :: "string \<Rightarrow> AccessControl" where
  "plain_access role = \<lparr>ac_role = role, ac_view_logs = False, ac_manage_schedules = False,
     ac_manage_notifications = False, ac_view_stats = False, ac_protected = False\<rparr>"

lemma plain_access_sel [simp]: "ac_role (plain_access r) = r" "ac_protected (plain_access r) = False"
  by (simp_all add: plain_access_def)

definition access_valid :: "AccessControl \<Rightarrow> bool" where
  "access_valid a \<longleftrightarrow> ac_role a = ''admin'' \<or> ac_role a = ''write'' \<or> ac_role a = ''read''"

definition access_can :: "AccessControl \<Rightarrow> permission \<Rightarrow> bool" where
  "access_can a p =
    (if ac_role a = ''admin'' then True
     else case p of
       ReadContainers \<Rightarrow> ac_role a = ''write'' \<or> ac_role a = ''read''
     | WriteContainers \<Rightarrow> ac_role a = ''write''
     | ViewLogs \<Rightarrow> ac_view_logs a
     | ManageSchedules \<Rightarrow> ac_manage_schedules a
     | ManageNotifications \<Rightarrow> ac_manage_notifications a
     | ViewStats \<Rightarrow> ac_view_stats a
     | ManageSettings \<Rightarrow> False
     | ManageUsers \<Rightarrow> False)"

section \<open>The tables\<close>

record user_row =
  u_id :: int
  u_username :: string
  u_password_hash :: string
  u_must_change_password :: bool
  u_auth_provider :: string
  u_oidc_subject :: "string option"
  u_created_at :: time

record rbac_row =
  ra_principal :: "string \<times> int"
  ra_access :: AccessControl

record session_row =
  se_token :: string
  se_user_id :: int
  se_created_at :: time
  se_expires_at :: time

record key_row =
  k_id :: int
  k_name :: string
  k_hash :: string
  k_prefix :: string
  k_created_at :: time
  k_last_used_at :: "time option"

record auth_db =
  users :: "user_row list"
  rbac :: "rbac_row list"
  sessions :: "session_row list"
  api_keys :: "key_row list"
  next_user_id :: int
  next_key_id :: int

definition empty_auth :: auth_db where
  "empty_auth = \<lparr>users = [], rbac = [], sessions = [], api_keys = [], next_user_id = 1, next_key_id = 1\<rparr>"

text \<open>A user as the code hands it out: the row with its assignment.\<close>
type_synonym user = "user_row \<times> AccessControl"

section \<open>Assignments\<close>

definition accessForExisting :: "string \<Rightarrow> int \<Rightarrow> auth_db \<Rightarrow> (store_error, AccessControl) result" where
  "accessForExisting ptype pid db =
    (case get_row ra_principal (ptype, pid) (rbac db) of
       None \<Rightarrow> Inl ErrNotFound | Some r \<Rightarrow> Inr (ra_access r))"

definition SetAccess :: "string \<Rightarrow> int \<Rightarrow> AccessControl \<Rightarrow> auth_db \<Rightarrow> store_error option \<times> auth_db" where
  "SetAccess ptype pid a db =
    (if (ptype \<noteq> ''user'' \<and> ptype \<noteq> ''api_key'') \<or> \<not> access_valid a then (Some ErrInvalid, db)
     else if (case accessForExisting ptype pid db of Inr c \<Rightarrow> ac_protected c | Inl _ \<Rightarrow> False)
     then (Some ErrProtected, db)
     else (None, db\<lparr>rbac := upsert_row ra_principal \<lparr>ra_principal = (ptype, pid), ra_access = a\<rparr>
            (\<lambda>r. r\<lparr>ra_access := a\<lparr>ac_protected := ac_protected (ra_access r)\<rparr>\<rparr>) (rbac db)\<rparr>))"

definition accessFor :: "string \<Rightarrow> int \<Rightarrow> auth_db \<Rightarrow> (store_error, AccessControl) result \<times> auth_db" where
  "accessFor ptype pid db =
    (case accessForExisting ptype pid db of
       Inr a \<Rightarrow> (Inr a, db)
     | Inl _ \<Rightarrow>
         (case SetAccess ptype pid (plain_access ''admin'') db of
            (Some err, db') \<Rightarrow> (Inl err, db')
          | (None, db') \<Rightarrow> (Inr (plain_access ''admin''), db')))"

section \<open>Users\<close>

definition HasAnyUser :: "auth_db \<Rightarrow> bool" where
  "HasAnyUser db \<longleftrightarrow> length (users db) > 0"

text \<open>The insert of a user row: the unique columns, and the row ID it takes.\<close>
definition insert_user :: "string \<Rightarrow> string \<Rightarrow> bool \<Rightarrow> string \<Rightarrow> string option \<Rightarrow> time \<Rightarrow> auth_db \<Rightarrow>
    (store_error, int) result \<times> auth_db" where
  "insert_user name hash must provider subject now db =
    (if name \<in> set (map u_username (users db))
        \<or> (subject \<noteq> None \<and> subject \<in> set (map u_oidc_subject (users db)))
     then (Inl ErrConflict, db)
     else (Inr (next_user_id db),
       db\<lparr>users := users db @ [\<lparr>u_id = next_user_id db, u_username = name, u_password_hash = hash,
             u_must_change_password = must, u_auth_provider = provider, u_oidc_subject = subject,
             u_created_at = now\<rparr>],
          next_user_id := next_user_id db + 1\<rparr>))"

definition delete_user_row :: "int \<Rightarrow> auth_db \<Rightarrow> auth_db" where
  "delete_user_row uid db =
    db\<lparr>users := delete_where (\<lambda>u. u_id u = uid) (users db),
       sessions := delete_where (\<lambda>s. se_user_id s = uid) (sessions db)\<rparr>"

definition user_of :: "int \<Rightarrow> auth_db \<Rightarrow> user_row option" where
  "user_of uid db = get_row u_id uid (users db)"

definition CreateUserWithAccess :: "string \<Rightarrow> string \<Rightarrow> bool \<Rightarrow> AccessControl \<Rightarrow> time \<Rightarrow> auth_db \<Rightarrow>
    (store_error, user) result \<times> auth_db" where
  "CreateUserWithAccess name hash must a now db =
    (if \<not> access_valid a then (Inl ErrInvalid, db)
     else
       (let a' = (if length (users db) = 0 then (plain_access ''admin'')\<lparr>ac_protected := True\<rparr> else a)
        in case insert_user name hash must ''local'' None now db of
             (Inl err, db') \<Rightarrow> (Inl err, db')
           | (Inr uid, db') \<Rightarrow>
               (case SetAccess ''user'' uid a' db' of
                  (Some err, db'') \<Rightarrow> (Inl err, delete_user_row uid db'')
                | (None, db'') \<Rightarrow>
                    (Inr (\<lparr>u_id = uid, u_username = name, u_password_hash = hash,
                           u_must_change_password = must, u_auth_provider = ''local'',
                           u_oidc_subject = None, u_created_at = now\<rparr>, a'), db''))))"

definition CreateUser :: "string \<Rightarrow> string \<Rightarrow> bool \<Rightarrow> time \<Rightarrow> auth_db \<Rightarrow> store_error option \<times> auth_db" where
  "CreateUser name hash must now db =
    (case CreateUserWithAccess name hash must (plain_access ''admin'') now db of
       (Inl err, db') \<Rightarrow> (Some err, db') | (Inr _, db') \<Rightarrow> (None, db'))"

definition DeleteUser :: "int \<Rightarrow> auth_db \<Rightarrow> store_error option \<times> auth_db" where
  "DeleteUser uid db =
    (case accessFor ''user'' uid db of
       (Inl err, db') \<Rightarrow> (Some err, db')
     | (Inr a, db') \<Rightarrow>
         if ac_protected a then (Some ErrProtected, db')
         else if rows_affected (\<lambda>u. u_id u = uid) (users db') = 0 then (Some ErrNotFound, db')
         else (None, (delete_user_row uid db')\<lparr>rbac :=
                 delete_where (\<lambda>r. ra_principal r = (''user'', uid)) (rbac db')\<rparr>))"

definition AdminCount :: "auth_db \<Rightarrow> nat" where
  "AdminCount db =
    rows_affected (\<lambda>r. fst (ra_principal r) = ''user'' \<and> ac_role (ra_access r) = ''admin'') (rbac db)"

definition with_access :: "user_row option \<Rightarrow> auth_db \<Rightarrow> (store_error, user) result \<times> auth_db" where
  "with_access row db =
    (case row of
       None \<Rightarrow> (Inl ErrNotFound, db)
     | Some u \<Rightarrow> (case accessFor ''user'' (u_id u) db of
         (Inl err, db') \<Rightarrow> (Inl err, db') | (Inr a, db') \<Rightarrow> (Inr (u, a), db')))"

definition GetUserByUsername :: "string \<Rightarrow> auth_db \<Rightarrow> (store_error, user) result \<times> auth_db" where
  "GetUserByUsername name db = with_access (get_row u_username name (users db)) db"

definition GetUserByID :: "int \<Rightarrow> auth_db \<Rightarrow> (store_error, user) result \<times> auth_db" where
  "GetUserByID uid db = with_access (user_of uid db) db"

definition GetOrCreateOIDCUser :: "string \<Rightarrow> string \<Rightarrow> time \<Rightarrow> auth_db \<Rightarrow> (store_error, user) result \<times> auth_db" where
  "GetOrCreateOIDCUser subject name now db =
    (case get_row u_oidc_subject (Some subject) (users db) of
       Some u \<Rightarrow> with_access (Some u) db
     | None \<Rightarrow>
         (let attempt = insert_user name '''' False ''oidc'' (Some subject) now db;
              name' = (case fst attempt of Inr _ \<Rightarrow> name | Inl _ \<Rightarrow> name @ ''-'' @ take 8 subject);
              final = (case fst attempt of
                  Inr _ \<Rightarrow> attempt
                | Inl _ \<Rightarrow> insert_user name' '''' False ''oidc'' (Some subject) now db)
          in case final of
               (Inl err, db') \<Rightarrow> (Inl err, db')
             | (Inr uid, db') \<Rightarrow>
                 (case SetAccess ''user'' uid (plain_access ''read'') db' of
                    (Some err, db'') \<Rightarrow> (Inl err, db'')
                  | (None, db'') \<Rightarrow>
                      (Inr (\<lparr>u_id = uid, u_username = name', u_password_hash = '''',
                             u_must_change_password = False, u_auth_provider = ''oidc'',
                             u_oidc_subject = Some subject, u_created_at = now\<rparr>,
                            plain_access ''read''), db''))))"

definition UpdatePassword :: "int \<Rightarrow> string \<Rightarrow> auth_db \<Rightarrow> store_error option \<times> auth_db" where
  "UpdatePassword uid hash db =
    (let db' = db\<lparr>users := update_where (\<lambda>u. u_id u = uid)
            (\<lambda>u. u\<lparr>u_password_hash := hash, u_must_change_password := False\<rparr>) (users db)\<rparr>
     in if rows_affected (\<lambda>u. u_id u = uid) (users db) = 0 then (Some ErrNotFound, db')
        else (None, db'))"

section \<open>Sessions\<close>

definition CreateSession :: "string \<Rightarrow> int \<Rightarrow> int \<Rightarrow> time \<Rightarrow> auth_db \<Rightarrow> store_error option \<times> auth_db" where
  "CreateSession tokenHash uid ttl now db =
    (if tokenHash \<in> set (map se_token (sessions db)) \<or> user_of uid db = None then (Some ErrConflict, db)
     else (None, db\<lparr>sessions := sessions db @
       [\<lparr>se_token = tokenHash, se_user_id = uid, se_created_at = now, se_expires_at = now + ttl\<rparr>]\<rparr>))"

definition live_session :: "string \<Rightarrow> time \<Rightarrow> auth_db \<Rightarrow> session_row option" where
  "live_session tokenHash now db =
    find (\<lambda>s. se_token s = tokenHash \<and> text_less now (se_expires_at s) \<and> user_of (se_user_id s) db \<noteq> None)
      (sessions db)"

definition SessionUser :: "string \<Rightarrow> time \<Rightarrow> auth_db \<Rightarrow> (store_error, user) result \<times> auth_db" where
  "SessionUser tokenHash now db =
    (case live_session tokenHash now db of
       None \<Rightarrow> (Inl ErrNotFound, db)
     | Some s \<Rightarrow> with_access (user_of (se_user_id s) db) db)"

definition DeleteSession :: "string \<Rightarrow> auth_db \<Rightarrow> auth_db" where
  "DeleteSession tokenHash db = db\<lparr>sessions := delete_where (\<lambda>s. se_token s = tokenHash) (sessions db)\<rparr>"

definition DeleteOtherSessions :: "int \<Rightarrow> string \<Rightarrow> auth_db \<Rightarrow> auth_db" where
  "DeleteOtherSessions uid keep db =
    db\<lparr>sessions := delete_where (\<lambda>s. se_user_id s = uid \<and> se_token s \<noteq> keep) (sessions db)\<rparr>"

section \<open>API keys\<close>

definition CreateAPIKeyWithAccess :: "string \<Rightarrow> string \<Rightarrow> string \<Rightarrow> AccessControl \<Rightarrow> time \<Rightarrow> auth_db \<Rightarrow>
    (store_error, int) result \<times> auth_db" where
  "CreateAPIKeyWithAccess name keyHash keyPrefix a now db =
    (if \<not> access_valid a then (Inl ErrInvalid, db)
     else if keyHash \<in> set (map k_hash (api_keys db)) then (Inl ErrConflict, db)
     else
       (let kid = next_key_id db;
            db' = db\<lparr>api_keys := api_keys db @ [\<lparr>k_id = kid, k_name = name, k_hash = keyHash,
                       k_prefix = keyPrefix, k_created_at = now, k_last_used_at = None\<rparr>],
                     next_key_id := kid + 1\<rparr>
        in case SetAccess ''api_key'' kid a db' of
             (Some err, db'') \<Rightarrow>
               (Inl err, db''\<lparr>api_keys := delete_where (\<lambda>k. k_id k = kid) (api_keys db'')\<rparr>)
           | (None, db'') \<Rightarrow> (Inr kid, db'')))"

definition AuthenticateAPIKey :: "string \<Rightarrow> time \<Rightarrow> auth_db \<Rightarrow>
    (store_error, key_row \<times> AccessControl) result \<times> auth_db" where
  "AuthenticateAPIKey keyHash now db =
    (case get_row k_hash keyHash (api_keys db) of
       None \<Rightarrow> (Inl ErrNotFound, db)
     | Some k \<Rightarrow>
         (case accessFor ''api_key'' (k_id k) db of
            (Inl err, db') \<Rightarrow> (Inl err, db')
          | (Inr a, db') \<Rightarrow>
              (Inr (k, a), db'\<lparr>api_keys := update_where (\<lambda>r. k_id r = k_id k)
                 (\<lambda>r. r\<lparr>k_last_used_at := Some now\<rparr>) (api_keys db')\<rparr>)))"

definition RevokeAPIKey :: "int \<Rightarrow> auth_db \<Rightarrow> store_error option \<times> auth_db" where
  "RevokeAPIKey kid db =
    (let db' = db\<lparr>api_keys := delete_where (\<lambda>k. k_id k = kid) (api_keys db)\<rparr>
     in if rows_affected (\<lambda>k. k_id k = kid) (api_keys db) = 0 then (Some ErrNotFound, db') else (None, db'))"

section \<open>Runs of the store\<close>

datatype auth_op =
    OpCreateUser string string bool AccessControl time
  | OpSetAccess string int AccessControl
  | OpDeleteUser int
  | OpGetUser int
  | OpGetUserByName string
  | OpOIDC string string time
  | OpUpdatePassword int string
  | OpCreateSession string int int time
  | OpSessionUser string time
  | OpDeleteSession string
  | OpDeleteOtherSessions int string
  | OpCreateKey string string string AccessControl time
  | OpAuthKey string time
  | OpRevokeKey int

fun exec :: "auth_op \<Rightarrow> auth_db \<Rightarrow> auth_db" where
  "exec (OpCreateUser n h m a t) db = snd (CreateUserWithAccess n h m a t db)"
| "exec (OpSetAccess ptype i a) db = snd (SetAccess ptype i a db)"
| "exec (OpDeleteUser i) db = snd (DeleteUser i db)"
| "exec (OpGetUser i) db = snd (GetUserByID i db)"
| "exec (OpGetUserByName n) db = snd (GetUserByUsername n db)"
| "exec (OpOIDC sub n t) db = snd (GetOrCreateOIDCUser sub n t db)"
| "exec (OpUpdatePassword i h) db = snd (UpdatePassword i h db)"
| "exec (OpCreateSession tok i ttl t) db = snd (CreateSession tok i ttl t db)"
| "exec (OpSessionUser tok t) db = snd (SessionUser tok t db)"
| "exec (OpDeleteSession tok) db = DeleteSession tok db"
| "exec (OpDeleteOtherSessions i keep) db = DeleteOtherSessions i keep db"
| "exec (OpCreateKey n h p a t) db = snd (CreateAPIKeyWithAccess n h p a t db)"
| "exec (OpAuthKey h t) db = snd (AuthenticateAPIKey h t db)"
| "exec (OpRevokeKey i) db = snd (RevokeAPIKey i db)"

text \<open>The stored assignment, and the break-glass account.\<close>
definition access_of :: "string \<Rightarrow> int \<Rightarrow> auth_db \<Rightarrow> AccessControl option" where
  "access_of ptype pid db = map_option ra_access (get_row ra_principal (ptype, pid) (rbac db))"

definition owner :: "int \<Rightarrow> auth_db \<Rightarrow> bool" where
  "owner uid db \<longleftrightarrow> user_of uid db \<noteq> None
     \<and> (\<exists>a. access_of ''user'' uid db = Some a \<and> ac_protected a \<and> ac_role a = ''admin'')"

definition ids_ok :: "auth_db \<Rightarrow> bool" where
  "ids_ok db \<longleftrightarrow> keys_distinct u_id (users db) \<and> keys_distinct ra_principal (rbac db)
     \<and> (\<forall>u \<in> set (users db). u_id u < next_user_id db)"

definition grows :: "auth_db \<Rightarrow> auth_db \<Rightarrow> bool" where
  "grows db db' \<longleftrightarrow> (ids_ok db \<longrightarrow> ids_ok db' \<and> (\<forall>uid. owner uid db \<longrightarrow> owner uid db'))"

lemma grows_refl [simp]: "grows db db"
  by (simp add: grows_def)

lemma grows_trans: "grows a b \<Longrightarrow> grows b c \<Longrightarrow> grows a c"
  by (simp add: grows_def)

lemma access_after_set:
  assumes "SetAccess ptype pid a db = (None, db')"
  shows "access_of t i db' = (if (t, i) = (ptype, pid)
      then Some (a\<lparr>ac_protected := (case access_of ptype pid db of None \<Rightarrow> ac_protected a | Some c \<Rightarrow> False)\<rparr>)
      else access_of t i db)"
    and "users db' = users db" "next_user_id db' = next_user_id db" "sessions db' = sessions db"
    and "keys_distinct ra_principal (rbac db) \<Longrightarrow> keys_distinct ra_principal (rbac db')"
    and "\<not> (\<exists>c. access_of ptype pid db = Some c \<and> ac_protected c)"
  using assms
  by (auto simp: SetAccess_def access_of_def accessForExisting_def get_upsert_row upsert_row_distinct
      split: if_splits option.splits)

lemma SetAccess_failed: "SetAccess ptype pid a db = (Some err, db') \<Longrightarrow> db' = db"
  by (auto simp: SetAccess_def split: if_splits)

lemma user_of_eq: "users db' = users db \<Longrightarrow> user_of i db' = user_of i db"
  by (simp add: user_of_def)

lemma SetAccess_grows: "grows db (snd (SetAccess ptype pid a db))"
proof (cases "SetAccess ptype pid a db")
  case (Pair r db')
  show ?thesis
  proof (cases r)
    case (Some err)
    then show ?thesis using Pair SetAccess_failed[of ptype pid a db err db'] by simp
  next
    case None
    note s = access_after_set[OF Pair[unfolded None]]
    have "owner uid db \<Longrightarrow> owner uid db'" for uid
      using s(1)[of "''user''" uid] s(6) user_of_eq[OF s(2)]
      by (auto simp: owner_def split: if_splits)
    then show ?thesis using s Pair by (simp add: grows_def ids_ok_def)
  qed
qed

lemma accessFor_grows: "grows db (snd (accessFor ptype pid db))"
  using SetAccess_grows[of db ptype pid "plain_access ''admin''"]
  by (auto simp: accessFor_def split: sum.splits prod.splits option.splits)

lemma accessFor_users [simp]:
  "users (snd (accessFor ptype pid db)) = users db"
  "sessions (snd (accessFor ptype pid db)) = sessions db"
  by (auto simp: accessFor_def SetAccess_def split: sum.splits prod.splits option.splits)

lemma with_access_grows: "grows db (snd (with_access row db))"
  using accessFor_grows[of db "''user''"]
  by (auto simp: with_access_def split: sum.splits prod.splits option.splits)
    (metis snd_conv)+

lemma insert_user_grows: "grows db (snd (insert_user n h m p s t db))"
proof -
  let ?db = "snd (insert_user n h m p s t db)"
  have "ids_ok db \<Longrightarrow> ids_ok ?db"
    by (force simp: insert_user_def ids_ok_def keys_distinct_def)
  moreover have "owner uid db \<Longrightarrow> owner uid ?db" for uid
    by (auto simp: insert_user_def owner_def user_of_def access_of_def get_row_append
        split: option.splits)
  ultimately show ?thesis by (simp add: grows_def)
qed

lemma delete_user_row_grows:
  assumes "\<not> owner uid db" "rb = rbac db \<or> rb = delete_where (\<lambda>r. ra_principal r = (''user'', uid)) (rbac db)"
  shows "grows db ((delete_user_row uid db)\<lparr>rbac := rb\<rparr>)"
proof -
  let ?db = "(delete_user_row uid db)\<lparr>rbac := rb\<rparr>"
  have "ids_ok db \<Longrightarrow> ids_ok ?db"
    using assms(2) by (auto simp: ids_ok_def delete_user_row_def delete_where_distinct)
      (auto simp: delete_where_def)
  moreover have "owner i db \<Longrightarrow> ids_ok db \<Longrightarrow> owner i ?db" for i
  proof -
    assume o: "owner i db" and ids: "ids_ok db"
    then have "i \<noteq> uid" using assms(1) by auto
    then have "access_of ''user'' i ?db = access_of ''user'' i db"
      using assms(2) ids
      by (auto simp: access_of_def ids_ok_def get_delete_where dest!: get_row_key split: option.splits)
    moreover have "user_of i ?db = user_of i db"
      using ids \<open>i \<noteq> uid\<close>
      by (auto simp: user_of_def ids_ok_def delete_user_row_def get_delete_where dest!: get_row_key
          split: option.splits)
    ultimately show "owner i ?db" using o by (simp add: owner_def)
  qed
  ultimately show ?thesis by (simp add: grows_def)
qed

lemma fresh_not_owner: "ids_ok db \<Longrightarrow> \<not> owner (next_user_id db) db"
  by (auto simp: ids_ok_def owner_def user_of_def dest!: get_row_SomeD)

lemma DeleteUser_grows: "grows db (snd (DeleteUser uid db))"
proof (cases "accessFor ''user'' uid db")
  case (Pair r db')
  have g: "grows db db'" using accessFor_grows[of db "''user''" uid] Pair by simp
  show ?thesis
  proof (cases r)
    case (Inl err)
    then show ?thesis using Pair g by (simp add: DeleteUser_def)
  next
    case (Inr a)
    show ?thesis
    proof (cases "ac_protected a \<or> rows_affected (\<lambda>u. u_id u = uid) (users db') = 0")
      case True
      then show ?thesis using Pair Inr g by (auto simp: DeleteUser_def)
    next
      case False
      have "access_of ''user'' uid db' = Some a \<or> \<not> owner uid db'"
        using Pair Inr access_after_set(1)[of "''user''" uid "plain_access ''admin''" db db' "''user''" uid]
        by (auto simp: accessFor_def accessForExisting_def access_of_def owner_def plain_access_def
            split: option.splits sum.splits prod.splits)
      then have "\<not> owner uid db'" using False by (auto simp: owner_def)
      from delete_user_row_grows[OF this] have
        "grows db' ((delete_user_row uid db')\<lparr>rbac := delete_where (\<lambda>r. ra_principal r = (''user'', uid)) (rbac db')\<rparr>)"
        by blast
      then show ?thesis using Pair Inr False g grows_trans by (auto simp: DeleteUser_def)
    qed
  qed
qed

lemma CreateUserWithAccess_grows: "grows db (snd (CreateUserWithAccess n h m a t db))"
proof (cases "access_valid a")
  case True
  let ?a = "if length (users db) = 0 then (plain_access ''admin'')\<lparr>ac_protected := True\<rparr> else a"
  obtain r db1 where ins: "insert_user n h m ''local'' None t db = (r, db1)" by (meson surj_pair)
  have g: "grows db db1" using insert_user_grows[of db n h m "''local''" None t] ins by simp
  show ?thesis
  proof (cases r)
    case (Inl err)
    then show ?thesis using True ins g by (auto simp: CreateUserWithAccess_def Let_def)
  next
    case (Inr uid)
    obtain e db2 where set: "SetAccess ''user'' uid ?a db1 = (e, db2)" by (meson surj_pair)
    have g2: "grows db1 db2" using SetAccess_grows[of db1 "''user''" uid ?a] set by simp
    show ?thesis
    proof (cases e)
      case None
      then show ?thesis
        using True ins Inr set grows_trans[OF g g2] by (auto simp: CreateUserWithAccess_def Let_def)
    next
      case (Some err)
      then have db2: "db2 = db1" using set SetAccess_failed by blast
      have uid: "uid = next_user_id db" "next_user_id db1 = uid + 1" "rbac db1 = rbac db"
        using ins Inr by (auto simp: insert_user_def split: if_splits)
      have del: "users (delete_user_row uid db2) = users db" if ids: "ids_ok db"
      proof -
        have "\<forall>u \<in> set (users db). u_id u \<noteq> next_user_id db" using ids by (force simp: ids_ok_def)
        then show ?thesis
          using ins Inr db2 uid(1)
          by (auto simp: insert_user_def delete_user_row_def delete_where_def filter_id_conv split: if_splits)
      qed
      have "grows db (delete_user_row uid db2)"
        using del db2 uid
        by (auto simp: grows_def ids_ok_def owner_def user_of_def access_of_def delete_user_row_def)
      then show ?thesis
        using True ins Inr set Some by (auto simp: CreateUserWithAccess_def Let_def)
    qed
  qed
qed (simp add: CreateUserWithAccess_def)

lemma grows_same:
  assumes "map u_id (users db') = map u_id (users db)" "rbac db' = rbac db" "next_user_id db' = next_user_id db"
  shows "grows db db'"
proof -
  have ids: "u_id ` set (users db') = u_id ` set (users db)" using assms(1) by (metis set_map)
  have "user_of i db' = None \<longleftrightarrow> user_of i db = None" for i
    by (simp add: user_of_def get_row_None ids)
  then have "owner i db' = owner i db" for i
    by (simp add: owner_def access_of_def assms(2))
  moreover have "(\<forall>u \<in> set (users db'). u_id u < b) = (\<forall>u \<in> set (users db). u_id u < b)" for b
  proof -
    have "(\<forall>u \<in> set us. u_id u < b) = (\<forall>i \<in> u_id ` set us. i < b)" for us by simp
    from this[of "users db'"] this[of "users db"] show ?thesis unfolding ids by blast
  qed
  ultimately show ?thesis
    using assms by (simp add: grows_def ids_ok_def keys_distinct_def)
qed

lemma exec_grows: "grows db (exec op db)"
proof (cases op)
  case (OpOIDC sub n t)
  obtain r1 db1 where i1: "insert_user n '''' False ''oidc'' (Some sub) t db = (r1, db1)" by (meson surj_pair)
  obtain r2 db2 where i2: "insert_user (n @ ''-'' @ take 8 sub) '''' False ''oidc'' (Some sub) t db = (r2, db2)"
    by (meson surj_pair)
  have g: "grows db db1" "grows db db2"
    using insert_user_grows[of db] i1 i2 by (metis snd_conv)+
  then have gs: "grows db (snd (SetAccess p i a db1))" "grows db (snd (SetAccess p i a db2))" for p i a
    using SetAccess_grows grows_trans by blast+
  have w: "grows db (snd (with_access row db))" for row by (rule with_access_grows)
  show ?thesis
    using OpOIDC g w gs[of "''user''" _ "plain_access ''read''"] i1 i2
    by (auto simp: GetOrCreateOIDCUser_def Let_def split: option.splits sum.splits prod.splits)
      (metis snd_conv)+
next
  case (OpCreateKey n h p a t)
  let ?db = "db\<lparr>api_keys := api_keys db @ [\<lparr>k_id = next_key_id db, k_name = n, k_hash = h,
      k_prefix = p, k_created_at = t, k_last_used_at = None\<rparr>], next_key_id := next_key_id db + 1\<rparr>"
  have "grows db ?db" by (rule grows_same) simp_all
  moreover obtain e d where s: "SetAccess ''api_key'' (next_key_id db) a ?db = (e, d)" by (meson surj_pair)
  ultimately have g: "grows db d"
    using SetAccess_grows[of ?db "''api_key''" "next_key_id db" a] grows_trans by simp
  have "grows db (d\<lparr>api_keys := ks\<rparr>)" for ks
    by (rule grows_trans[OF g]) (rule grows_same, simp_all)
  then show ?thesis
    using OpCreateKey g s
    by (cases e) (auto simp: CreateAPIKeyWithAccess_def Let_def)
next
  case (OpAuthKey h t)
  have "grows db (snd (AuthenticateAPIKey h t db))"
  proof (cases "get_row k_hash h (api_keys db)")
    case (Some k)
    obtain r d where a: "accessFor ''api_key'' (k_id k) db = (r, d)" by (meson surj_pair)
    then have g: "grows db d" using accessFor_grows[of db "''api_key''" "k_id k"] by simp
    have "grows db (d\<lparr>api_keys := ks\<rparr>)" for ks
      by (rule grows_trans[OF g]) (rule grows_same, simp_all)
    then show ?thesis using Some a g by (cases r) (auto simp: AuthenticateAPIKey_def)
  qed (simp add: AuthenticateAPIKey_def)
  then show ?thesis using OpAuthKey by simp
next
  case (OpSessionUser tok t)
  then show ?thesis by (auto simp: SessionUser_def with_access_grows split: option.splits)
next
  case (OpUpdatePassword i h)
  then show ?thesis by (auto simp: UpdatePassword_def Let_def intro!: grows_same)
next
  case (OpCreateSession tok i ttl t)
  then show ?thesis by (auto simp: CreateSession_def intro!: grows_same)
next
  case (OpRevokeKey i)
  then show ?thesis by (auto simp: RevokeAPIKey_def Let_def intro!: grows_same)
qed (auto simp: CreateUserWithAccess_grows SetAccess_grows DeleteUser_grows GetUserByID_def
    GetUserByUsername_def with_access_grows DeleteSession_def DeleteOtherSessions_def
    intro!: grows_same)

section \<open>Properties\<close>

lemma exec_all_grows: "grows db (fold exec ops db)"
  by (induction ops arbitrary: db) (auto intro: grows_trans exec_grows)

text \<open>C27: the bootstrap administrator cannot be lost. Once an account holds the protected
  administrator assignment, no sequence of store operations whatever, not an attempt to change its
  role, to delete it, or to create others, removes the account or its assignment.\<close>
theorem protected_admin_permanent:
  assumes "ids_ok db" "owner uid db"
  shows "owner uid (fold exec ops db)"
  using exec_all_grows[of db ops] assms by (simp add: grows_def)

definition one_owner :: auth_db where
  "one_owner = snd (CreateUserWithAccess ''root'' ''h0'' False (plain_access ''read'') 0 empty_auth)"

theorem protected_admin_permanent_witness:
  "owner 1 (fold exec [OpSetAccess ''user'' 1 (plain_access ''read''), OpDeleteUser 1,
      OpCreateUser ''ops'' ''h1'' False (plain_access ''admin'') 5, OpDeleteUser 2] one_owner)"
proof -
  have one: "one_owner = \<lparr>users = [\<lparr>u_id = 1, u_username = ''root'', u_password_hash = ''h0'',
      u_must_change_password = False, u_auth_provider = ''local'', u_oidc_subject = None,
      u_created_at = 0\<rparr>], rbac = [\<lparr>ra_principal = (''user'', 1),
      ra_access = (plain_access ''admin'')\<lparr>ac_protected := True\<rparr>\<rparr>], sessions = [], api_keys = [],
      next_user_id = 2, next_key_id = 1\<rparr>"
    by (simp add: one_owner_def CreateUserWithAccess_def insert_user_def SetAccess_def access_valid_def
        plain_access_def empty_auth_def accessForExisting_def row_simps upsert_row_def Let_def)
  have "ids_ok one_owner" "owner 1 one_owner"
    by (simp_all add: one ids_ok_def keys_distinct_def owner_def user_of_def access_of_def row_simps
        plain_access_def)
  then show ?thesis by (rule protected_admin_permanent)
qed

lemma other_sessions_gone:
  assumes tok: "tok \<noteq> keep"
  shows "case fst (SessionUser tok now (DeleteOtherSessions uid keep db)) of
    Inl _ \<Rightarrow> True | Inr (u, a) \<Rightarrow> u_id u \<noteq> uid"
proof (cases "live_session tok now (DeleteOtherSessions uid keep db)")
  case (Some s)
  then have "s \<in> set (sessions (DeleteOtherSessions uid keep db))" "se_token s = tok"
    by (auto simp: live_session_def find_Some_iff)
  then have "se_user_id s \<noteq> uid" using tok by (auto simp: DeleteOtherSessions_def delete_where_def)
  then show ?thesis
    using Some by (auto simp: SessionUser_def with_access_def user_of_def dest: get_row_key
        split: option.splits sum.splits prod.splits)
qed (simp add: SessionUser_def)

text \<open>a password change logs out everyone else. After \<^verbatim>\<open>DeleteOtherSessions\<close> no session token
  but the kept one resolves to the user, and the kept one resolves exactly as before.\<close>
theorem other_sessions_revoked:
  "(tok \<noteq> keep \<longrightarrow> (case fst (SessionUser tok now (DeleteOtherSessions uid keep db)) of
      Inl _ \<Rightarrow> True | Inr (u, a) \<Rightarrow> u_id u \<noteq> uid))
   \<and> live_session keep now (DeleteOtherSessions uid keep db) = live_session keep now db"
proof
  show "tok \<noteq> keep \<longrightarrow> (case fst (SessionUser tok now (DeleteOtherSessions uid keep db)) of
      Inl _ \<Rightarrow> True | Inr (u, a) \<Rightarrow> u_id u \<noteq> uid)"
    using other_sessions_gone by blast
  have kept: "find P (filter Q xs) = find P xs" if "\<And>r. P r \<Longrightarrow> Q r" for P Q and xs :: "session_row list"
    by (induction xs) (auto simp: that)
  show "live_session keep now (DeleteOtherSessions uid keep db) = live_session keep now db"
    unfolding live_session_def DeleteOtherSessions_def delete_where_def user_of_def
    by simp (rule kept, simp)
qed

theorem other_sessions_revoked_witness:
  "case fst (SessionUser ''stolen'' 10 (DeleteOtherSessions 1 ''mine''
      (one_owner\<lparr>sessions := [\<lparr>se_token = ''stolen'', se_user_id = 1, se_created_at = 0, se_expires_at = 9000000000\<rparr>]\<rparr>))) of
     Inl _ \<Rightarrow> True | Inr (u, a) \<Rightarrow> u_id u \<noteq> 1"
proof -
  have "''stolen'' \<noteq> ''mine''" by simp
  with other_sessions_revoked[where tok = "''stolen''" and keep = "''mine''" and now = 10 and uid = 1]
  show ?thesis by blast
qed

text \<open>a session lives for its lifetime, to the second. A session just created resolves to its
  user as long as a second of its lifetime is left, and no longer a second after it ended.\<close>
theorem session_lifetime:
  assumes "CreateSession tok uid ttl now db = (None, db')" "user_of uid db = Some u"
  shows "(later + nanos \<le> now + ttl \<longrightarrow> (case fst (SessionUser tok later db') of
           Inr (v, a) \<Rightarrow> v = u | Inl err \<Rightarrow> err \<noteq> ErrNotFound))
    \<and> (now + ttl + nanos \<le> later \<longrightarrow> SessionUser tok later db' = (Inl ErrNotFound, db'))"
proof -
  let ?s = "\<lparr>se_token = tok, se_user_id = uid, se_created_at = now, se_expires_at = now + ttl\<rparr>"
  have db': "db' = db\<lparr>sessions := sessions db @ [?s]\<rparr>" "tok \<notin> se_token ` set (sessions db)"
    using assms(1) by (auto simp: CreateSession_def split: if_splits)
  have "user_of uid db' = Some u" using assms(2) by (simp add: db' user_of_def)
  moreover have none: "find P (sessions db) = None" if "\<And>s. P s \<Longrightarrow> se_token s = tok" for P
    using that db'(2) by (auto simp: find_None_iff)
  ultimately have live: "live_session tok later db' =
      (if text_less later (now + ttl) then Some ?s else None)"
  proof -
    have "find P (xs @ [?s]) = (if P ?s then Some ?s else None)" if "find P xs = None" for P xs
      using that by (induction xs) (auto split: if_splits)
    from this[OF none, of "\<lambda>s. se_token s = tok \<and> text_less later (se_expires_at s)
        \<and> user_of (se_user_id s) db' \<noteq> None"]
    have "live_session tok later db' =
        (if tok = tok \<and> text_less later (now + ttl) \<and> user_of uid db' \<noteq> None then Some ?s else None)"
      unfolding live_session_def db'(1) by simp
    then show ?thesis using \<open>user_of uid db' = Some u\<close> by simp
  qed
  show ?thesis
  proof (intro conjI impI)
    assume "later + nanos \<le> now + ttl"
    then have "live_session tok later db' = Some ?s" using live text_less_late by simp
    then show "case fst (SessionUser tok later db') of Inr (v, a) \<Rightarrow> v = u | Inl err \<Rightarrow> err \<noteq> ErrNotFound"
      using \<open>user_of uid db' = Some u\<close>
      by (auto simp: SessionUser_def with_access_def accessFor_def SetAccess_def
          split: sum.splits prod.splits option.splits if_splits)
  next
    assume "now + ttl + nanos \<le> later"
    then have "\<not> text_less later (now + ttl)"
      using text_less_late[of "now + ttl" later] text_less_trans text_less_irrefl by blast
    then show "SessionUser tok later db' = (Inl ErrNotFound, db')"
      using live by (simp add: SessionUser_def)
  qed
qed

theorem session_lifetime_witness:
  "SessionUser ''t'' (20 * nanos) (snd (CreateSession ''t'' 1 (10 * nanos) 0 one_owner)) =
     (Inl ErrNotFound, snd (CreateSession ''t'' 1 (10 * nanos) 0 one_owner))"
proof -
  let ?c = "CreateSession ''t'' 1 (10 * nanos) 0 one_owner"
  have u: "user_of 1 one_owner = Some (the (user_of 1 one_owner))" by code_simp
  have "?c = (None, snd ?c)" by code_simp
  from session_lifetime[OF this u, of "20 * nanos"] show ?thesis by (simp add: nanos_def)
qed

text \<open>deleting an ID that no account has is reported as not found, but leaves an administrator
  assignment for it behind, which \<^verbatim>\<open>AdminCount\<close> counts: the guards against removing the last
  administrator then see one administrator too many.\<close>
theorem delete_missing_user_inflates_admins:
  assumes "user_of uid db = None" "access_of ''user'' uid db = None"
  shows "fst (DeleteUser uid db) = Some ErrNotFound
    \<and> AdminCount (snd (DeleteUser uid db)) = AdminCount db + 1"
proof -
  have "rows_affected (\<lambda>u. u_id u = uid) (users db) = 0"
    using assms(1) by (auto simp: user_of_def get_row_None rows_affected_def filter_empty_conv)
  moreover have "get_row ra_principal (''user'', uid) (rbac db) = None"
    using assms(2) by (simp add: access_of_def)
  moreover from this have "(''user'', uid) \<notin> ra_principal ` set (rbac db)" by (simp add: get_row_None)
  ultimately show ?thesis
    by (simp add: DeleteUser_def accessFor_def accessForExisting_def SetAccess_def access_valid_def
        plain_access_def upsert_row_def AdminCount_def rows_affected_def)
qed

theorem delete_missing_user_inflates_admins_witness:
  "AdminCount (snd (DeleteUser 9 one_owner)) = AdminCount one_owner + 1 \<and> AdminCount one_owner = 1"
proof -
  have "user_of 9 one_owner = None" "access_of ''user'' 9 one_owner = None" "AdminCount one_owner = 1"
    by code_simp+
  then show ?thesis using delete_missing_user_inflates_admins[of 9 one_owner] by simp
qed

end
