(* ===== verification/Auth_Api.thy ===== *)
theory Auth_Api
  imports Access Events
begin

text \<open>
  The guards in front of the API and the handlers of accounts: \<^verbatim>\<open>internal/auth/middleware.go\<close>
  (authentication, CSRF, permissions), \<^verbatim>\<open>internal/api/ratelimit.go\<close>, \<^verbatim>\<open>internal/api/auth.go\<close> and
  \<^verbatim>\<open>internal/api/users.go\<close>. bcrypt, SHA-256 and the token generator are parameters: \<^term>\<open>verify\<close>
  checks a password against a hash, \<^term>\<open>bcrypt\<close> hashes one (it may fail), \<^term>\<open>sha\<close> hashes a
  token, and handlers receive the tokens they generate. The engine's own failures are not modelled.
\<close>

section \<open>Requests and responses\<close>

record http_request =
  hr_method :: string
  hr_path :: string
  hr_headers :: "(string \<times> string) list"
  hr_cookies :: "(string \<times> string) list"
  hr_form :: "(string \<times> string) list"
  hr_trusted :: bool          \<comment> \<open>set by the Unix-socket listener only\<close>
  hr_tls :: bool
  hr_remote_addr :: string

definition header_get :: "string \<Rightarrow> http_request \<Rightarrow> string" where
  "header_get name r = (case find (\<lambda>(k, v). equal_fold k name) (hr_headers r) of
     None \<Rightarrow> '''' | Some (k, v) \<Rightarrow> v)"

definition cookie_get :: "string \<Rightarrow> http_request \<Rightarrow> string option" where
  "cookie_get name r = map_of (hr_cookies r) name"

definition form_value :: "string \<Rightarrow> http_request \<Rightarrow> string" where
  "form_value name r = (case map_of (hr_form r) name of None \<Rightarrow> '''' | Some v \<Rightarrow> v)"

datatype body =
    JsonError string            \<comment> \<open>the error code\<close>
  | JsonOk
  | PlainText string
  | RedirectTo string

record response =
  rs_status :: int
  rs_body :: body
  rs_set_cookies :: "(string \<times> string) list"

definition respond :: "int \<Rightarrow> body \<Rightarrow> response" where
  "respond status b = \<lparr>rs_status = status, rs_body = b, rs_set_cookies = []\<rparr>"

definition is_api :: "http_request \<Rightarrow> bool" where
  "is_api r \<longleftrightarrow> has_prefix (hr_path r) ''/api/''"

definition isJSON :: "http_request \<Rightarrow> bool" where
  "isJSON r \<longleftrightarrow> has_prefix (header_get ''Content-Type'' r) ''application/json''
     \<or> has_prefix (header_get ''Accept'' r) ''application/json''"

section \<open>Middleware\<close>

record req_context =
  cx_actor :: string
  cx_user :: "user option"
  cx_access :: AccessControl

datatype gate = Pass req_context | Deny response

definition changePasswordPaths :: "string list" where
  "changePasswordPaths = [''/change-password'', ''/api/v1/auth/password'', ''/api/v1/auth/logout'']"

definition csrfSafeMethod :: "string \<Rightarrow> bool" where
  "csrfSafeMethod m \<longleftrightarrow> m = ''GET'' \<or> m = ''HEAD'' \<or> m = ''OPTIONS''"

definition validCSRF :: "http_request \<Rightarrow> bool" where
  "validCSRF r =
    (case cookie_get ''doupro_csrf'' r of
       None \<Rightarrow> False
     | Some cookie \<Rightarrow>
         if cookie = '''' then False
         else (let submitted = (if header_get ''X-CSRF-Token'' r = '''' then form_value ''csrf_token'' r
                                else header_get ''X-CSRF-Token'' r)
               in submitted \<noteq> '''' \<and> cookie = submitted))"

definition IsSecureRequest :: "http_request \<Rightarrow> bool \<Rightarrow> bool" where
  "IsSecureRequest r trustProxyHeaders =
    (if hr_tls r then True
     else trustProxyHeaders \<and> equal_fold (header_get ''X-Forwarded-Proto'' r) ''https'')"

definition writeForbidden :: "http_request \<Rightarrow> response" where
  "writeForbidden r = (if is_api r then respond 403 (JsonError ''forbidden'')
     else respond 403 (PlainText ''insufficient permission''))"

definition writeCSRFRequired :: "http_request \<Rightarrow> response" where
  "writeCSRFRequired r = (if is_api r then respond 403 (JsonError ''csrf_token_invalid'')
     else respond 403 (PlainText ''missing or invalid CSRF token''))"

definition writePasswordChangeRequired :: "http_request \<Rightarrow> response" where
  "writePasswordChangeRequired r = (if is_api r then respond 403 (JsonError ''password_change_required'')
     else respond 303 (RedirectTo ''/change-password''))"

definition writeUnauthorized :: "http_request \<Rightarrow> response" where
  "writeUnauthorized r = (if is_api r then respond 401 (JsonError ''unauthenticated'')
     else respond 303 (RedirectTo ''/login''))"

definition RequireAuth :: "(string \<Rightarrow> string) \<Rightarrow> time \<Rightarrow> http_request \<Rightarrow> auth_db \<Rightarrow> gate \<times> auth_db" where
  "RequireAuth sha now r db =
    (if hr_trusted r then
       (Pass \<lparr>cx_actor = ''local-socket'', cx_user = None, cx_access = plain_access ''admin''\<rparr>, db)
     else if has_prefix (header_get ''Authorization'' r) ''Bearer '' then
       (case AuthenticateAPIKey (sha (trim_prefix (header_get ''Authorization'' r) ''Bearer '')) now db of
          (Inr (k, a), db') \<Rightarrow> (Pass \<lparr>cx_actor = ''api-key'', cx_user = None, cx_access = a\<rparr>, db')
        | (Inl _, db') \<Rightarrow> (Deny (writeUnauthorized r), db'))
     else case cookie_get ''doupro_session'' r of
       None \<Rightarrow> (Deny (writeUnauthorized r), db)
     | Some c \<Rightarrow>
         (case SessionUser (sha c) now db of
            (Inl _, db') \<Rightarrow> (Deny (writeUnauthorized r), db')
          | (Inr (u, a), db') \<Rightarrow>
              if u_must_change_password u \<and> hr_path r \<notin> set changePasswordPaths
              then (Deny (writePasswordChangeRequired r), db')
              else if \<not> csrfSafeMethod (hr_method r) \<and> \<not> validCSRF r
              then (Deny (writeCSRFRequired r), db')
              else (Pass \<lparr>cx_actor = u_username u, cx_user = Some (u, a), cx_access = a\<rparr>, db')))"

definition RequirePermission :: "permission \<Rightarrow> http_request \<Rightarrow> req_context option \<Rightarrow> gate" where
  "RequirePermission p r cx =
    (case cx of
       None \<Rightarrow> Deny (writeForbidden r)
     | Some c \<Rightarrow> if \<not> access_can (cx_access c) p then Deny (writeForbidden r) else Pass c)"

text \<open>A guarded route: authentication, then the permission.\<close>
definition guarded :: "(string \<Rightarrow> string) \<Rightarrow> permission \<Rightarrow> time \<Rightarrow> http_request \<Rightarrow> auth_db \<Rightarrow> gate \<times> auth_db" where
  "guarded sha p now r db =
    (case RequireAuth sha now r db of
       (Deny resp, db') \<Rightarrow> (Deny resp, db')
     | (Pass c, db') \<Rightarrow> (RequirePermission p r (Some c), db'))"

section \<open>Routes\<close>

datatype route_guard = Public | LimitedPublic | LimitedProtected | WithPermission permission

text \<open>The table \<^verbatim>\<open>RegisterRoutes\<close> builds, with the two routes that exist only when an identity
  provider is configured.\<close>
definition api_routes :: "(string \<times> string \<times> route_guard) list" where
  "api_routes = [
     (''GET'', ''/health'', Public),
     (''GET'', ''/api/v1/openapi.json'', Public),
     (''POST'', ''/api/v1/auth/login'', LimitedPublic),
     (''POST'', ''/api/v1/auth/logout'', Public),
     (''GET'', ''/api/v1/auth/oidc/login'', Public),
     (''GET'', ''/api/v1/auth/oidc/callback'', Public),
     (''POST'', ''/api/v1/auth/password'', LimitedProtected),
     (''GET'', ''/api/v1/containers'', WithPermission ReadContainers),
     (''GET'', ''/api/v1/logs'', WithPermission ViewLogs),
     (''GET'', ''/api/v1/containers/{name}'', WithPermission ReadContainers),
     (''POST'', ''/api/v1/containers/{name}/check'', WithPermission WriteContainers),
     (''GET'', ''/api/v1/containers/{name}/update'', WithPermission ReadContainers),
     (''POST'', ''/api/v1/containers/{name}/update'', WithPermission WriteContainers),
     (''POST'', ''/api/v1/containers/{name}/rollback'', WithPermission WriteContainers),
     (''POST'', ''/api/v1/containers/update-all'', WithPermission WriteContainers),
     (''GET'', ''/api/v1/settings/general'', WithPermission ManageSettings),
     (''PATCH'', ''/api/v1/settings/general'', WithPermission ManageSettings),
     (''GET'', ''/api/v1/settings/exclusions'', WithPermission ManageSettings),
     (''PATCH'', ''/api/v1/settings/exclusions'', WithPermission ManageSettings),
     (''GET'', ''/api/v1/settings/registries'', WithPermission ManageSettings),
     (''PATCH'', ''/api/v1/settings/registries'', WithPermission ManageSettings),
     (''POST'', ''/api/v1/settings/registries/test'', WithPermission ManageSettings),
     (''GET'', ''/api/v1/settings/security/api-keys'', WithPermission ManageSettings),
     (''POST'', ''/api/v1/settings/security/api-keys'', WithPermission ManageSettings),
     (''DELETE'', ''/api/v1/settings/security/api-keys/{id}'', WithPermission ManageSettings),
     (''GET'', ''/api/v1/users'', WithPermission ManageUsers),
     (''POST'', ''/api/v1/users'', WithPermission ManageUsers),
     (''PATCH'', ''/api/v1/users/{id}'', WithPermission ManageUsers),
     (''DELETE'', ''/api/v1/users/{id}'', WithPermission ManageUsers),
     (''GET'', ''/api/v1/stats'', WithPermission ViewStats),
     (''GET'', ''/api/v1/notifications'', WithPermission ManageNotifications),
     (''GET'', ''/api/v1/notifications/queue'', WithPermission ManageNotifications),
     (''POST'', ''/api/v1/notifications/queue/{id}/retry'', WithPermission ManageNotifications),
     (''GET'', ''/api/v1/settings/notifications'', WithPermission ManageNotifications),
     (''PATCH'', ''/api/v1/settings/notifications'', WithPermission ManageNotifications),
     (''POST'', ''/api/v1/settings/notifications/test'', WithPermission ManageNotifications),
     (''GET'', ''/api/v1/schedules'', WithPermission ManageSchedules),
     (''POST'', ''/api/v1/schedules'', WithPermission ManageSchedules),
     (''PATCH'', ''/api/v1/schedules/{id}'', WithPermission ManageSchedules),
     (''DELETE'', ''/api/v1/schedules/{id}'', WithPermission ManageSchedules)]"

section \<open>Rate limiting\<close>

record bucket =
  bk_count :: int
  bk_window_ends :: time

record rateLimiter =
  rl_limit :: int
  rl_window :: int
  rl_buckets :: "string \<rightharpoonup> bucket"

definition newRateLimiter :: "int \<Rightarrow> int \<Rightarrow> rateLimiter" where
  "newRateLimiter limit window = \<lparr>rl_limit = limit, rl_window = window, rl_buckets = Map.empty\<rparr>"

definition allow :: "string \<Rightarrow> time \<Rightarrow> rateLimiter \<Rightarrow> bool \<times> rateLimiter" where
  "allow key now l =
    (let fresh = \<lparr>bk_count = 0, bk_window_ends = now + rl_window l\<rparr>;
         b = (case rl_buckets l key of
                None \<Rightarrow> fresh
              | Some b \<Rightarrow> if now > bk_window_ends b then fresh else b);
         b' = b\<lparr>bk_count := bk_count b + 1\<rparr>
     in (bk_count b' \<le> rl_limit l, l\<lparr>rl_buckets := (rl_buckets l)(key \<mapsto> b')\<rparr>))"

text \<open>\<^verbatim>\<open>net.SplitHostPort\<close>: the host, when the address has a well-formed port.\<close>
definition split_host :: "string \<Rightarrow> string option" where
  "split_host addr =
    (case cut_last CHR '':'' addr of
       None \<Rightarrow> None
     | Some (before, port) \<Rightarrow>
         if has_prefix addr ''['' then
           (case cut_first CHR '']'' addr of
              None \<Rightarrow> None
            | Some (inner, rest) \<Rightarrow>
                if rest = CHR '':'' # port \<and> CHR ''['' \<notin> set (drop 1 inner)
                   \<and> CHR ''['' \<notin> set port \<and> CHR '']'' \<notin> set port
                then Some (drop 1 inner) else None)
         else if CHR '':'' \<in> set before \<or> CHR ''['' \<in> set addr \<or> CHR '']'' \<in> set addr then None
         else Some before)"

definition clientIP :: "http_request \<Rightarrow> string" where
  "clientIP r = (case split_host (hr_remote_addr r) of None \<Rightarrow> hr_remote_addr r | Some h \<Rightarrow> h)"

text \<open>The wrapper: the response on refusal, nothing when the request goes on.\<close>
definition limiter_wrap :: "http_request \<Rightarrow> time \<Rightarrow> rateLimiter \<Rightarrow> response option \<times> rateLimiter" where
  "limiter_wrap r now l =
    (case allow (clientIP r) now l of
       (ok, l') \<Rightarrow> (if \<not> ok then Some (respond 429 (JsonError ''rate_limited'')) else None, l'))"

section \<open>Accounts: sign-in\<close>

definition VerifyPasswordConstantTime :: "(string \<Rightarrow> string \<Rightarrow> bool) \<Rightarrow> string \<Rightarrow> string \<Rightarrow> bool" where
  "VerifyPasswordConstantTime verify hash password = (if hash = '''' then False else verify hash password)"

definition Bootstrap :: "(string \<Rightarrow> string option) \<Rightarrow> string \<Rightarrow> string \<Rightarrow> time \<Rightarrow> auth_db \<Rightarrow> bool \<times> auth_db" where
  "Bootstrap bcrypt adminUser adminPassword now db =
    (if HasAnyUser db then (True, db)
     else if adminUser = '''' \<and> adminPassword = '''' then
       (case bcrypt ''admin'' of
          None \<Rightarrow> (False, db)
        | Some h \<Rightarrow> (case CreateUser ''admin'' h True now db of (err, db') \<Rightarrow> (err = None, db')))
     else if adminUser = '''' \<or> adminPassword = '''' then (False, db)
     else if adminPassword = ''CHANGE_ME'' \<or> length adminPassword < 8 then (False, db)
     else (case bcrypt adminPassword of
             None \<Rightarrow> (False, db)
           | Some h \<Rightarrow> (case CreateUser adminUser h False now db of (err, db') \<Rightarrow> (err = None, db'))))"

definition SessionTTL :: int where
  "SessionTTL = 30 * 24 * 3600 * nanos"

text \<open>The credentials come from the JSON body (\<^term>\<open>body\<close>, absent when it does not decode) or from
  the form. The answer is the response, the store and the event logged.\<close>
definition handleLogin :: "(string \<Rightarrow> string) \<Rightarrow> (string \<Rightarrow> string \<Rightarrow> bool) \<Rightarrow> (string \<times> string) option \<Rightarrow>
    string \<Rightarrow> string \<Rightarrow> time \<Rightarrow> http_request \<Rightarrow> auth_db \<Rightarrow> response \<times> auth_db \<times> event list" where
  "handleLogin sha verify body token csrfToken now r db =
    (let creds = (if isJSON r then body else Some (form_value ''username'' r, form_value ''password'' r))
     in case creds of
          None \<Rightarrow> (respond 400 (JsonError ''invalid_request''), db, [])
        | Some (username, password) \<Rightarrow>
            (let (found, db1) = GetUserByUsername username db;
                 ok = (case found of Inl _ \<Rightarrow> False
                         | Inr (u, a) \<Rightarrow> VerifyPasswordConstantTime verify (u_password_hash u) password)
             in case (ok, found) of
                  (True, Inr (u, a)) \<Rightarrow>
                    (case CreateSession (sha token) (u_id u) SessionTTL now db1 of
                       (Some _, db2) \<Rightarrow> (respond 500 (JsonError ''internal_error''), db2, [])
                     | (None, db2) \<Rightarrow>
                         ((respond (if isJSON r then 200 else 303) (if isJSON r then JsonOk else RedirectTo ''/''))
                            \<lparr>rs_set_cookies := [(''doupro_session'', token), (''doupro_csrf'', csrfToken)]\<rparr>,
                          db2,
                          [event_of LevelInfo ''auth.login_succeeded'' '''' ActorUser (u_username u) []]))
                | _ \<Rightarrow>
                    (if isJSON r then respond 401 (JsonError ''invalid_credentials'')
                     else respond 303 (RedirectTo ''/login?error=1''),
                     db1,
                     [event_of LevelWarn ''auth.login_failed'' '''' ActorUser username []])))"

definition handleChangePassword :: "(string \<Rightarrow> string) \<Rightarrow> (string \<Rightarrow> string \<Rightarrow> bool) \<Rightarrow> (string \<Rightarrow> string option) \<Rightarrow>
    (string \<times> string) option \<Rightarrow> req_context \<Rightarrow> http_request \<Rightarrow> auth_db \<Rightarrow> response \<times> auth_db \<times> event list" where
  "handleChangePassword sha verify bcrypt body cx r db =
    (case cx_user cx of
       None \<Rightarrow> (respond 403 (JsonError ''forbidden''), db, [])
     | Some (u, a) \<Rightarrow>
         (case body of
            None \<Rightarrow> (respond 400 (JsonError ''invalid_request''), db, [])
          | Some (current, new) \<Rightarrow>
              if \<not> verify (u_password_hash u) current
              then (respond 401 (JsonError ''invalid_credentials''), db, [])
              else if new = ''CHANGE_ME'' \<or> length new < 8
              then (respond 400 (JsonError ''invalid_request''), db, [])
              else (case bcrypt new of
                      None \<Rightarrow> (respond 500 (JsonError ''internal_error''), db, [])
                    | Some h \<Rightarrow>
                        (case UpdatePassword (u_id u) h db of
                           (Some _, db1) \<Rightarrow> (respond 500 (JsonError ''internal_error''), db1, [])
                         | (None, db1) \<Rightarrow>
                             (respond 200 JsonOk,
                              (case cookie_get ''doupro_session'' r of
                                 None \<Rightarrow> db1
                               | Some c \<Rightarrow> DeleteOtherSessions (u_id u) (sha c) db1),
                              [event_of LevelInfo ''auth.password_changed'' '''' ActorUser (u_username u) []])))))"

definition handleLogout :: "(string \<Rightarrow> string) \<Rightarrow> time \<Rightarrow> http_request \<Rightarrow> auth_db \<Rightarrow> response \<times> auth_db \<times> event list" where
  "handleLogout sha now r db =
    (let (db', evs) = (case cookie_get ''doupro_session'' r of
           None \<Rightarrow> (db, [])
         | Some c \<Rightarrow>
             (case SessionUser (sha c) now db of
                (Inr (u, a), db1) \<Rightarrow>
                  (DeleteSession (sha c) db1, [event_of LevelInfo ''auth.logout'' '''' ActorUser (u_username u) []])
              | (Inl _, db1) \<Rightarrow> (DeleteSession (sha c) db1, [])))
     in ((respond (if isJSON r then 200 else 303) (if isJSON r then JsonOk else RedirectTo ''/login''))
           \<lparr>rs_set_cookies := [(''doupro_session'', ''''), (''doupro_csrf'', '''')]\<rparr>, db', evs))"

section \<open>Accounts: administration\<close>

text \<open>The request's access never carries the protected flag (\<^verbatim>\<open>accessResponse.model\<close>).\<close>
definition access_model :: "AccessControl \<Rightarrow> AccessControl" where
  "access_model a = a\<lparr>ac_protected := False\<rparr>"

definition handleCreateUser :: "(string \<Rightarrow> string option) \<Rightarrow> (string \<times> string \<times> AccessControl) option \<Rightarrow>
    req_context \<Rightarrow> time \<Rightarrow> auth_db \<Rightarrow> response \<times> auth_db \<times> event list" where
  "handleCreateUser bcrypt body cx now db =
    (case body of
       None \<Rightarrow> (respond 400 (JsonError ''invalid_request''), db, [])
     | Some (username, password, a) \<Rightarrow>
         (let name = trim_space username in
          if name = '''' \<or> length password < 8 \<or> \<not> access_valid (access_model a)
          then (respond 400 (JsonError ''invalid_request''), db, [])
          else (case bcrypt password of
                  None \<Rightarrow> (respond 500 (JsonError ''internal_error''), db, [])
                | Some h \<Rightarrow>
                    (case CreateUserWithAccess name h False (access_model a) now db of
                       (Inl _, db') \<Rightarrow> (respond 409 (JsonError ''user_create_failed''), db', [])
                     | (Inr u, db') \<Rightarrow>
                         (respond 201 JsonOk, db',
                          [event_of LevelInfo ''auth.user_created'' '''' ActorUser (cx_actor cx) []])))))"

definition handleUpdateUserAccess :: "int option \<Rightarrow> AccessControl option \<Rightarrow> req_context \<Rightarrow> auth_db \<Rightarrow>
    response \<times> auth_db \<times> event list" where
  "handleUpdateUserAccess pathID body cx db =
    (case pathID of
       None \<Rightarrow> (respond 400 (JsonError ''invalid_request''), db, [])
     | Some uid \<Rightarrow>
    (case body of
       None \<Rightarrow> (respond 400 (JsonError ''invalid_request''), db, [])
     | Some a \<Rightarrow>
         if \<not> access_valid (access_model a) then (respond 400 (JsonError ''invalid_request''), db, [])
         else (case GetUserByID uid db of
            (Inl err, db1) \<Rightarrow>
              (if err = ErrNotFound then respond 404 (JsonError ''not_found'')
               else respond 500 (JsonError ''internal_error''), db1, [])
          | (Inr (u, ua), db1) \<Rightarrow>
              if ac_protected ua then (respond 409 (JsonError ''protected_admin''), db1, [])
              else if ac_role ua = ''admin'' \<and> ac_role a \<noteq> ''admin'' \<and> AdminCount db1 = 1
              then (respond 409 (JsonError ''last_admin''), db1, [])
              else (case SetAccess ''user'' uid (access_model a) db1 of
                      (Some _, db2) \<Rightarrow> (respond 500 (JsonError ''internal_error''), db2, [])
                    | (None, db2) \<Rightarrow>
                        (respond 200 JsonOk, db2,
                         [event_of LevelInfo ''auth.user_access_updated'' '''' ActorUser (cx_actor cx) []])))))"

definition handleDeleteUser :: "int option \<Rightarrow> req_context \<Rightarrow> auth_db \<Rightarrow> response \<times> auth_db \<times> event list" where
  "handleDeleteUser pathID cx db =
    (case pathID of
       None \<Rightarrow> (respond 400 (JsonError ''invalid_request''), db, [])
     | Some uid \<Rightarrow>
         (case GetUserByID uid db of
            (Inl err, db1) \<Rightarrow>
              (if err = ErrNotFound then respond 404 (JsonError ''not_found'')
               else respond 500 (JsonError ''internal_error''), db1, [])
          | (Inr (u, ua), db1) \<Rightarrow>
              if (case cx_user cx of Some (me, _) \<Rightarrow> u_id me = uid | None \<Rightarrow> False)
              then (respond 409 (JsonError ''self_delete''), db1, [])
              else if ac_protected ua then (respond 409 (JsonError ''protected_admin''), db1, [])
              else if ac_role ua = ''admin'' \<and> AdminCount db1 = 1
              then (respond 409 (JsonError ''last_admin''), db1, [])
              else (case DeleteUser uid db1 of
                      (Some _, db2) \<Rightarrow> (respond 500 (JsonError ''internal_error''), db2, [])
                    | (None, db2) \<Rightarrow>
                        (respond 200 JsonOk, db2,
                         [event_of LevelInfo ''auth.user_deleted'' '''' ActorUser (cx_actor cx) []]))))"

section \<open>The guards\<close>

lemma AuthenticateAPIKey_Inr:
  "AuthenticateAPIKey h now db = (Inr (k, a), db') \<Longrightarrow> get_row k_hash h (api_keys db) = Some k
     \<and> fst (accessFor ''api_key'' (k_id k) db) = Inr a"
  by (auto simp: AuthenticateAPIKey_def split: option.splits sum.splits prod.splits)

lemma SessionUser_Inr:
  "SessionUser h now db = (Inr (u, a), db') \<Longrightarrow>
     (\<exists>s. live_session h now db = Some s \<and> user_of (se_user_id s) db = Some u)
     \<and> fst (accessFor ''user'' (u_id u) db) = Inr a"
  by (auto simp: SessionUser_def with_access_def split: option.splits sum.splits prod.splits)

lemma RequireAuth_Pass:
  assumes "RequireAuth sha now r db = (Pass cx, db')"
  shows "(hr_trusted r \<and> cx_actor cx = ''local-socket'')
    \<or> (\<exists>k. get_row k_hash (sha (trim_prefix (header_get ''Authorization'' r) ''Bearer '')) (api_keys db) = Some k
         \<and> fst (accessFor ''api_key'' (k_id k) db) = Inr (cx_access cx) \<and> cx_user cx = None)
    \<or> (\<exists>c s u. cookie_get ''doupro_session'' r = Some c \<and> live_session (sha c) now db = Some s
         \<and> user_of (se_user_id s) db = Some u \<and> fst (accessFor ''user'' (u_id u) db) = Inr (cx_access cx)
         \<and> (csrfSafeMethod (hr_method r) \<or> validCSRF r)
         \<and> (\<not> u_must_change_password u \<or> hr_path r \<in> set changePasswordPaths)
         \<and> \<not> has_prefix (header_get ''Authorization'' r) ''Bearer '')"
proof (cases "hr_trusted r")
  case True
  then show ?thesis using assms by (auto simp: RequireAuth_def)
next
  case untrusted: False
  show ?thesis
  proof (cases "has_prefix (header_get ''Authorization'' r) ''Bearer ''")
    case True
    let ?h = "sha (trim_prefix (header_get ''Authorization'' r) ''Bearer '')"
    obtain res d where d: "AuthenticateAPIKey ?h now db = (res, d)" by (meson surj_pair)
    show ?thesis
    proof (cases res)
      case (Inl e)
      then show ?thesis using assms untrusted True d by (simp add: RequireAuth_def)
    next
      case (Inr ka)
      obtain k a where ka: "ka = (k, a)" by (cases ka)
      then have "cx = \<lparr>cx_actor = ''api-key'', cx_user = None, cx_access = a\<rparr>"
        using assms untrusted True d Inr by (simp add: RequireAuth_def)
      then show ?thesis using AuthenticateAPIKey_Inr[OF d[unfolded Inr ka]] by simp
    qed
  next
    case False
    show ?thesis
    proof (cases "cookie_get ''doupro_session'' r")
      case None
      then show ?thesis using assms untrusted False by (simp add: RequireAuth_def)
    next
      case (Some c)
      obtain res d where d: "SessionUser (sha c) now db = (res, d)" by (meson surj_pair)
      show ?thesis
      proof (cases res)
        case (Inl e)
        then show ?thesis using assms untrusted False Some d by (simp add: RequireAuth_def)
      next
        case (Inr ua)
        obtain u a where ua: "ua = (u, a)" by (cases ua)
        then have "cx_access cx = a" "csrfSafeMethod (hr_method r) \<or> validCSRF r"
          "\<not> u_must_change_password u \<or> hr_path r \<in> set changePasswordPaths"
          using assms untrusted False Some d Inr by (auto simp: RequireAuth_def split: if_splits)
        then show ?thesis
          using False Some SessionUser_Inr[OF d[unfolded Inr ua]] by blast
      qed
    qed
  qed
qed

text \<open>C23: nothing passes a guarded route without a credential that carries the permission. A request
  that reaches a handler came over the local socket, or presented an API key that is stored, or a
  live session of an existing user; with a session it also used a safe method or a matching CSRF
  token, and it is not one of an account that still has to change its password outside the pages
  that do so. The access it acts with allows the route's permission; settings and users need the
  administrator role. A request with an API key never falls back to the session cookie.\<close>
theorem guarded_route_sound:
  assumes "guarded sha p now r db = (Pass cx, db')"
  shows "access_can (cx_access cx) p
    \<and> (p \<in> {ManageSettings, ManageUsers} \<longrightarrow> ac_role (cx_access cx) = ''admin'')
    \<and> ((hr_trusted r \<and> cx_actor cx = ''local-socket'')
       \<or> (\<exists>k. get_row k_hash (sha (trim_prefix (header_get ''Authorization'' r) ''Bearer '')) (api_keys db) = Some k
            \<and> fst (accessFor ''api_key'' (k_id k) db) = Inr (cx_access cx) \<and> cx_user cx = None)
       \<or> (\<exists>c s u. cookie_get ''doupro_session'' r = Some c \<and> live_session (sha c) now db = Some s
            \<and> user_of (se_user_id s) db = Some u \<and> fst (accessFor ''user'' (u_id u) db) = Inr (cx_access cx)
            \<and> (csrfSafeMethod (hr_method r) \<or> validCSRF r)
            \<and> (\<not> u_must_change_password u \<or> hr_path r \<in> set changePasswordPaths)
            \<and> \<not> has_prefix (header_get ''Authorization'' r) ''Bearer ''))"
proof -
  have ra: "RequireAuth sha now r db = (Pass cx, db')"
    and can: "access_can (cx_access cx) p"
    using assms by (auto simp: guarded_def RequirePermission_def split: prod.splits gate.splits if_splits)
  have "p \<in> {ManageSettings, ManageUsers} \<longrightarrow> ac_role (cx_access cx) = ''admin''"
    using can by (auto simp: access_can_def split: if_splits)
  then show ?thesis using can RequireAuth_Pass[OF ra] by blast
qed

definition login_db :: auth_db where
  "login_db = snd (CreateSession ''h:tok'' 1 SessionTTL 0 one_owner)"

definition sample_request :: http_request where
  "sample_request = \<lparr>hr_method = ''POST'', hr_path = ''/api/v1/settings/general'',
     hr_headers = [(''x-csrf-token'', ''c0ffee'')],
     hr_cookies = [(''doupro_session'', ''tok''), (''doupro_csrf'', ''c0ffee'')], hr_form = [],
     hr_trusted = False, hr_tls = True, hr_remote_addr = ''10.0.0.7:4711''\<rparr>"

definition toy_sha :: "string \<Rightarrow> string" where
  "toy_sha t = ''h:'' @ t"

theorem guarded_route_sound_witness:
  "\<exists>cx db'. guarded toy_sha ManageSettings 5 sample_request login_db = (Pass cx, db')
     \<and> cx_actor cx = ''root'' \<and> ac_role (cx_access cx) = ''admin''"
proof -
  define g where "g = guarded toy_sha ManageSettings 5 sample_request login_db"
  have "(case fst g of Pass cx \<Rightarrow> cx_actor cx = ''root'' | Deny _ \<Rightarrow> False)"
    unfolding g_def by code_simp
  then obtain cx where cx: "fst g = Pass cx" "cx_actor cx = ''root''" by (cases "fst g") auto
  then have eq: "guarded toy_sha ManageSettings 5 sample_request login_db = (Pass cx, snd g)"
    by (simp add: g_def prod_eq_iff)
  from guarded_route_sound[OF eq] show ?thesis using eq cx(2) by blast
qed

section \<open>Rate limiting\<close>

fun allow_all :: "string \<Rightarrow> time list \<Rightarrow> rateLimiter \<Rightarrow> bool list \<times> rateLimiter" where
  "allow_all key [] l = ([], l)"
| "allow_all key (t # ts) l =
    (let (ok, l') = allow key t l; (oks, l'') = allow_all key ts l' in (ok # oks, l''))"

lemma allow_open:
  assumes "rl_buckets l key = Some b" "\<not> bk_window_ends b < now"
  shows "allow key now l = (bk_count b + 1 \<le> rl_limit l,
    l\<lparr>rl_buckets := (rl_buckets l)(key \<mapsto> b\<lparr>bk_count := bk_count b + 1\<rparr>)\<rparr>)"
  using assms by (simp add: allow_def Let_def)

lemma allow_all_open:
  assumes "rl_buckets l key = Some b" "\<forall>t \<in> set ts. t \<le> bk_window_ends b"
  shows "fst (allow_all key ts l) = map (\<lambda>i. bk_count b + int i + 1 \<le> rl_limit l) [0..<length ts]"
  using assms
proof (induction ts arbitrary: l b)
  case (Cons t ts)
  let ?b = "b\<lparr>bk_count := bk_count b + 1\<rparr>"
  let ?l = "l\<lparr>rl_buckets := (rl_buckets l)(key \<mapsto> ?b)\<rparr>"
  have a: "allow key t l = (bk_count b + 1 \<le> rl_limit l, ?l)"
    using Cons.prems by (intro allow_open) auto
  have "fst (allow_all key ts ?l) = map (\<lambda>i. bk_count ?b + int i + 1 \<le> rl_limit ?l) [0..<length ts]"
    using Cons.prems by (intro Cons.IH) auto
  then show ?case
    by (simp add: a case_prod_beta map_upt_Suc algebra_simps del: upt_Suc)
qed simp

lemma allow_other: "k \<noteq> key \<Longrightarrow> rl_buckets (snd (allow key now l)) k = rl_buckets l k"
  by (simp add: allow_def Let_def)

text \<open>brute force is slowed down as specified. Of the attempts of one client inside one window,
  however many there are, exactly the first ones up to the limit pass, refused attempts count
  too, and other clients' windows are untouched.\<close>
theorem rate_limit_first_attempts_only:
  assumes "rl_buckets l key = None \<or> (\<exists>b. rl_buckets l key = Some b \<and> bk_window_ends b < t)"
    and "\<forall>s \<in> set ts. s \<le> t + rl_window l"
  shows "fst (allow_all key (t # ts) l) = map (\<lambda>i. int i < rl_limit l) [0..<Suc (length ts)]
    \<and> (\<forall>k. k \<noteq> key \<longrightarrow> rl_buckets (snd (allow_all key (t # ts) l)) k = rl_buckets l k)"
proof
  let ?b = "\<lparr>bk_count = 1, bk_window_ends = t + rl_window l\<rparr>"
  let ?l = "l\<lparr>rl_buckets := (rl_buckets l)(key \<mapsto> ?b)\<rparr>"
  have a: "allow key t l = (1 \<le> rl_limit l, ?l)"
    using assms(1) by (auto simp: allow_def Let_def)
  have "fst (allow_all key ts ?l) = map (\<lambda>i. bk_count ?b + int i + 1 \<le> rl_limit ?l) [0..<length ts]"
    using assms(2) by (intro allow_all_open) auto
  then have "fst (allow_all key (t # ts) l) =
      (1 \<le> rl_limit l) # map (\<lambda>i. int (Suc i) < rl_limit l) [0..<length ts]"
    by (simp add: a case_prod_beta) (auto simp: algebra_simps)
  then show "fst (allow_all key (t # ts) l) = map (\<lambda>i. int i < rl_limit l) [0..<Suc (length ts)]"
    by (simp add: map_upt_Suc del: upt_Suc) auto
  have "k \<noteq> key \<Longrightarrow> rl_buckets (snd (allow_all key us m)) k = rl_buckets m k" for k us m
    by (induction us arbitrary: m) (auto simp: case_prod_beta Let_def allow_other)
  then show "\<forall>k. k \<noteq> key \<longrightarrow> rl_buckets (snd (allow_all key (t # ts) l)) k = rl_buckets l k"
    by blast
qed

theorem rate_limit_first_attempts_only_witness:
  "fst (allow_all ''10.0.0.7'' [100, 101, 101, 150] (newRateLimiter 2 60)) = [True, True, False, False]"
  using rate_limit_first_attempts_only[of "newRateLimiter 2 60" "''10.0.0.7''" 100 "[101, 101, 150]"]
  by (simp add: newRateLimiter_def upt_rec)

text \<open>a read-only principal changes nothing. Among all registered routes, those that are not
  \<^verbatim>\<open>GET\<close> either ask for a permission that the read role without extra capabilities does not have,
  or are the sign-in, sign-out and password routes; and no route under the settings or users
  paths is open without a permission.\<close>
theorem read_only_changes_nothing:
  assumes "(m, path, g) \<in> set api_routes"
  shows "(m \<noteq> ''GET'' \<longrightarrow> (case g of
      WithPermission p \<Rightarrow> \<not> access_can (plain_access ''read'') p
    | _ \<Rightarrow> path \<in> {''/api/v1/auth/login'', ''/api/v1/auth/logout'', ''/api/v1/auth/password''}))
    \<and> (has_prefix path ''/api/v1/settings'' \<or> has_prefix path ''/api/v1/users'' \<longrightarrow>
        (\<exists>p. g = WithPermission p \<and> \<not> access_can (plain_access ''read'') p))"
proof -
  have "list_all (\<lambda>(m, path, g). (m \<noteq> ''GET'' \<longrightarrow> (case g of
      WithPermission p \<Rightarrow> \<not> access_can (plain_access ''read'') p
    | _ \<Rightarrow> path \<in> {''/api/v1/auth/login'', ''/api/v1/auth/logout'', ''/api/v1/auth/password''}))
    \<and> (has_prefix path ''/api/v1/settings'' \<or> has_prefix path ''/api/v1/users'' \<longrightarrow>
        (case g of WithPermission p \<Rightarrow> \<not> access_can (plain_access ''read'') p | _ \<Rightarrow> False))) api_routes"
    by code_simp
  from this[unfolded list_all_iff, THEN bspec, OF assms] show ?thesis
    by (auto split: route_guard.splits)
qed

theorem read_only_changes_nothing_witness:
  "(''POST'', ''/api/v1/containers/{name}/update'', WithPermission WriteContainers) \<in> set api_routes
   \<and> \<not> access_can (plain_access ''read'') WriteContainers"
proof -
  have "(''POST'', ''/api/v1/containers/{name}/update'', WithPermission WriteContainers) \<in> set api_routes"
    by (simp add: api_routes_def)
  from read_only_changes_nothing[OF this] this show ?thesis by simp
qed

section \<open>Sign-in\<close>

text \<open>a failed sign-in tells nothing. Whether the name is unknown, the password wrong or the
  account one of an identity provider without a password, the response is the same and sets no
  cookie; a sign-in succeeds only with the password of a local account of that name.\<close>
theorem login_failure_uniform:
  assumes "isJSON r \<longrightarrow> body = Some (name, password)"
    and "\<not> isJSON r \<longrightarrow> form_value ''username'' r = name \<and> form_value ''password'' r = password"
  shows "(if \<exists>u. get_row u_username name (users db) = Some u \<and> u_password_hash u \<noteq> ''''
              \<and> verify (u_password_hash u) password
              \<and> (\<exists>a. fst (accessFor ''user'' (u_id u) db) = Inr a)
          then rs_status (fst (handleLogin sha verify body tok csrf now r db)) \<in> {200, 303, 500}
          else fst (handleLogin sha verify body tok csrf now r db) =
            (if isJSON r then respond 401 (JsonError ''invalid_credentials'')
             else respond 303 (RedirectTo ''/login?error=1'')))"
proof -
  obtain found d where g: "GetUserByUsername name db = (found, d)" by (meson surj_pair)
  have creds: "(if isJSON r then body else Some (form_value ''username'' r, form_value ''password'' r)) =
      Some (name, password)" using assms by auto
  show ?thesis
  proof (cases found)
    case (Inl e)
    then have "\<not> (\<exists>u. get_row u_username name (users db) = Some u
        \<and> (\<exists>a. fst (accessFor ''user'' (u_id u) db) = Inr a))"
      using g by (auto simp: GetUserByUsername_def with_access_def split: option.splits prod.splits sum.splits)
    then show ?thesis
      unfolding handleLogin_def creds Let_def using g Inl by auto
  next
    case (Inr ua)
    obtain u a where ua: "ua = (u, a)" by (cases ua)
    then have u: "get_row u_username name (users db) = Some u" "fst (accessFor ''user'' (u_id u) db) = Inr a"
      using g Inr by (auto simp: GetUserByUsername_def with_access_def split: option.splits prod.splits sum.splits)
    show ?thesis
    proof (cases "VerifyPasswordConstantTime verify (u_password_hash u) password")
      case False
      then show ?thesis
        unfolding handleLogin_def creds Let_def using g Inr ua u
        by (auto simp: VerifyPasswordConstantTime_def split: if_splits)
    next
      case True
      obtain e d' where s: "CreateSession (sha tok) (u_id u) SessionTTL now d = (e, d')" by (meson surj_pair)
      show ?thesis
        unfolding handleLogin_def creds Let_def using g Inr ua u True s
        by (cases e) (auto simp: VerifyPasswordConstantTime_def respond_def split: if_splits)
    qed
  qed
qed

definition toy_verify :: "string \<Rightarrow> string \<Rightarrow> bool" where
  "toy_verify hash password \<longleftrightarrow> hash = ''bcrypt:'' @ password"

theorem login_failure_uniform_witness:
  "fst (handleLogin toy_sha toy_verify (Some (''root'', ''guess'')) ''t'' ''c'' 0
      (sample_request\<lparr>hr_headers := [(''Accept'', ''application/json'')]\<rparr>) one_owner) =
    fst (handleLogin toy_sha toy_verify (Some (''nobody'', ''guess'')) ''t'' ''c'' 0
      (sample_request\<lparr>hr_headers := [(''Accept'', ''application/json'')]\<rparr>) one_owner)"
proof -
  let ?r = "sample_request\<lparr>hr_headers := [(''Accept'', ''application/json'')]\<rparr>"
  have json: "isJSON ?r" by code_simp
  have root: "map_option u_password_hash (get_row u_username ''root'' (users one_owner)) = Some ''h0''"
    and nobody: "get_row u_username ''nobody'' (users one_owner) = None" by code_simp+
  from root have a: "\<not> (\<exists>u. get_row u_username ''root'' (users one_owner) = Some u
      \<and> u_password_hash u \<noteq> '''' \<and> toy_verify (u_password_hash u) ''guess''
      \<and> (\<exists>a. fst (accessFor ''user'' (u_id u) one_owner) = Inr a))"
    by (auto simp: toy_verify_def)
  have "fst (handleLogin toy_sha toy_verify (Some (''root'', ''guess'')) ''t'' ''c'' 0 ?r one_owner) =
      respond 401 (JsonError ''invalid_credentials'')"
    using login_failure_uniform[of ?r "Some (''root'', ''guess'')" "''root''" "''guess''" one_owner
        toy_verify toy_sha "''t''" "''c''" 0] a json by simp
  moreover have "fst (handleLogin toy_sha toy_verify (Some (''nobody'', ''guess'')) ''t'' ''c'' 0 ?r one_owner) =
      respond 401 (JsonError ''invalid_credentials'')"
    using login_failure_uniform[of ?r "Some (''nobody'', ''guess'')" "''nobody''" "''guess''" one_owner
        toy_verify toy_sha "''t''" "''c''" 0] nobody json by simp
  ultimately show ?thesis by simp
qed

text \<open>changing the password is effective. When the handler answers success, the account has the
  new hash and no longer has to change it, and every session of the account but the caller's own
  is gone.\<close>
theorem change_password_effective:
  assumes "handleChangePassword sha verify bcrypt body cx r db = (resp, db', evs)" "rs_status resp = 200"
    and "cx_user cx = Some (u, a)" "cookie_get ''doupro_session'' r = Some c" "tok \<noteq> sha c"
  shows "(\<exists>h u'. user_of (u_id u) db' = Some u' \<and> u_password_hash u' = h \<and> \<not> u_must_change_password u'
        \<and> (\<exists>new. bcrypt new = Some h \<and> 8 \<le> length new))
    \<and> (case fst (SessionUser tok now db') of Inl _ \<Rightarrow> True | Inr (v, b) \<Rightarrow> u_id v \<noteq> u_id u)"
proof -
  obtain old new h db1 where b: "body = Some (old, new)" "8 \<le> length new" "bcrypt new = Some h"
    and up: "UpdatePassword (u_id u) h db = (None, db1)"
    and db': "db' = DeleteOtherSessions (u_id u) (sha c) db1"
    using assms(1-4)
    by (auto simp: handleChangePassword_def respond_def split: option.splits prod.splits if_splits)
  have "user_of (u_id u) db' = user_of (u_id u) db1"
    by (simp add: db' DeleteOtherSessions_def user_of_def)
  moreover obtain u0 where "user_of (u_id u) db = Some u0"
    using up by (auto simp: UpdatePassword_def Let_def user_of_def rows_affected_def filter_empty_conv
        get_row_None split: if_splits) (metis get_row_None image_eqI not_None_eq)
  ultimately have "user_of (u_id u) db' =
      Some (u0\<lparr>u_password_hash := h, u_must_change_password := False\<rparr>)"
    using up by (auto simp: UpdatePassword_def Let_def user_of_def get_update_where
        dest: get_row_key split: if_splits)
  then show ?thesis
    using b other_sessions_gone[OF assms(5), where now = now and uid = "u_id u" and db = db1]
    by (auto simp: db')
qed

theorem change_password_effective_witness:
  "\<exists>u'. user_of 1 (fst (snd (handleChangePassword toy_sha (\<lambda>h p. p = ''secret'') (\<lambda>p. Some (''bcrypt:'' @ p))
      (Some (''secret'', ''new-secret'')) \<lparr>cx_actor = ''root'', cx_user = Some (the (user_of 1 one_owner), plain_access ''admin''),
        cx_access = plain_access ''admin''\<rparr> sample_request one_owner))) = Some u'
     \<and> \<not> u_must_change_password u'"
proof -
  let ?cx = "\<lparr>cx_actor = ''root'', cx_user = Some (the (user_of 1 one_owner), plain_access ''admin''),
        cx_access = plain_access ''admin''\<rparr>"
  let ?h = "handleChangePassword toy_sha (\<lambda>h p. p = ''secret'') (\<lambda>p. Some (''bcrypt:'' @ p))
      (Some (''secret'', ''new-secret'')) ?cx sample_request one_owner"
  have st: "rs_status (fst ?h) = 200" "cookie_get ''doupro_session'' sample_request = Some ''tok''"
    "u_id (the (user_of 1 one_owner)) = 1" by code_simp+
  have eq: "?h = (fst ?h, fst (snd ?h), snd (snd ?h))" by simp
  have cu: "cx_user ?cx = Some (the (user_of 1 one_owner), plain_access ''admin'')" by simp
  have "''other'' \<noteq> toy_sha ''tok''" by code_simp
  from change_password_effective[OF eq st(1) cu st(2) this] show ?thesis
    unfolding st(3) by blast
qed

section \<open>The last administrator\<close>

definition assignments_ok :: "auth_db \<Rightarrow> bool" where
  "assignments_ok db \<longleftrightarrow> ids_ok db
     \<and> (\<forall>i a. access_of ''user'' i db = Some a \<longrightarrow> user_of i db \<noteq> None)"

definition admin_exists :: "auth_db \<Rightarrow> bool" where
  "admin_exists db \<longleftrightarrow> (\<exists>i a. access_of ''user'' i db = Some a \<and> ac_role a = ''admin'' \<and> user_of i db \<noteq> None)"

definition is_admin_row :: "rbac_row \<Rightarrow> bool" where
  "is_admin_row r \<longleftrightarrow> fst (ra_principal r) = ''user'' \<and> ac_role (ra_access r) = ''admin''"

lemma access_of_row:
  "ids_ok db \<Longrightarrow> r \<in> set (rbac db) \<Longrightarrow> access_of (fst (ra_principal r)) (snd (ra_principal r)) db = Some (ra_access r)"
  by (simp add: access_of_def ids_ok_def get_row_mem)

lemma another_admin:
  assumes "ids_ok db" "AdminCount db \<noteq> 1" "access_of ''user'' i db = Some a" "ac_role a = ''admin''"
  shows "\<exists>j b. j \<noteq> i \<and> access_of ''user'' j db = Some b \<and> ac_role b = ''admin''"
proof -
  let ?rows = "filter is_admin_row (rbac db)"
  have count: "length ?rows \<noteq> 1" using assms(2)
    by (simp add: AdminCount_def rows_affected_def is_admin_row_def[abs_def])
  obtain r where r: "r \<in> set (rbac db)" "ra_principal r = (''user'', i)" "ra_access r = a"
    using assms(3) by (auto simp: access_of_def dest!: get_row_SomeD)
  then have "r \<in> set ?rows" using assms(4) by (simp add: is_admin_row_def)
  moreover have "distinct (map ra_principal ?rows)"
    using assms(1) by (simp add: ids_ok_def keys_distinct_def distinct_map_filter)
  ultimately have "\<exists>q \<in> set ?rows. ra_principal q \<noteq> ra_principal r"
    using count by (cases ?rows; cases "tl ?rows") fastforce+
  then obtain q where q: "q \<in> set ?rows" "ra_principal q \<noteq> ra_principal r" by blast
  then show ?thesis
    using access_of_row[OF assms(1), of q] r by (cases "ra_principal q") (auto simp: is_admin_row_def)
qed

lemma admin_existsI:
  "access_of ''user'' i db = Some a \<Longrightarrow> ac_role a = ''admin'' \<Longrightarrow> user_of i db \<noteq> None \<Longrightarrow> admin_exists db"
  unfolding admin_exists_def by blast

lemma remaining_admin:
  assumes "assignments_ok db" "admin_exists db" "access_of ''user'' uid db = Some a"
    and "ac_role a = ''admin'' \<longrightarrow> AdminCount db \<noteq> 1"
  obtains j b where "j \<noteq> uid" "access_of ''user'' j db = Some b" "ac_role b = ''admin''" "user_of j db \<noteq> None"
proof -
  have ids: "ids_ok db" using assms(1) by (simp add: assignments_ok_def)
  obtain i c where ic: "access_of ''user'' i db = Some c" "ac_role c = ''admin''"
    using assms(2) unfolding admin_exists_def by blast
  have "\<exists>j b. j \<noteq> uid \<and> access_of ''user'' j db = Some b \<and> ac_role b = ''admin''"
  proof (cases "ac_role a = ''admin''")
    case True
    then show ?thesis using another_admin[OF ids _ assms(3)] assms(4) by blast
  next
    case False
    then have "i \<noteq> uid" using ic assms(3) by auto
    then show ?thesis using ic by blast
  qed
  then show thesis using assms(1) unfolding assignments_ok_def by (metis that)
qed

lemma assign_existing:
  assumes "assignments_ok db" "user_of uid db \<noteq> None" "SetAccess ''user'' uid a db = (e, db')"
  shows "assignments_ok db'"
proof (cases e)
  case (Some err)
  then show ?thesis using assms SetAccess_failed by blast
next
  case None
  note s = access_after_set[OF assms(3)[unfolded None]]
  have "ids_ok db'" using assms(1) s(2,3,5) by (simp add: assignments_ok_def ids_ok_def)
  moreover have "user_of i db' \<noteq> None" if "access_of ''user'' i db' = Some b" for i b
    using that s(1)[of "''user''" i] assms(1,2) user_of_eq[OF s(2)]
    by (auto simp: assignments_ok_def split: if_splits)
  ultimately show ?thesis by (simp add: assignments_ok_def)
qed

lemma load_user:
  assumes "assignments_ok db" "admin_exists db" "GetUserByID uid db = (res, db1)"
  shows "assignments_ok db1 \<and> admin_exists db1 \<and> users db1 = users db
    \<and> (\<forall>u a. res = Inr (u, a) \<longrightarrow> user_of uid db = Some u \<and> access_of ''user'' uid db1 = Some a)"
proof (cases "user_of uid db")
  case None
  then show ?thesis using assms by (auto simp: GetUserByID_def with_access_def)
next
  case (Some u)
  have uid: "u_id u = uid" using Some by (auto simp: user_of_def dest: get_row_key)
  show ?thesis
  proof (cases "accessForExisting ''user'' uid db")
    case (Inr a)
    then have "res = Inr (u, a)" "db1 = db" "access_of ''user'' uid db = Some a"
      using assms(3) Some uid
      by (auto simp: GetUserByID_def with_access_def accessFor_def accessForExisting_def access_of_def
          split: option.splits)
    then show ?thesis using assms Some by auto
  next
    case (Inl e)
    obtain e' d where s: "SetAccess ''user'' uid (plain_access ''admin'') db = (e', d)" by (meson surj_pair)
    have "e' = None"
      using s Inl by (auto simp: SetAccess_def access_valid_def plain_access_def)
    note d = access_after_set[OF s[unfolded this]]
    have r: "res = Inr (u, plain_access ''admin'')" "db1 = d"
      using assms(3) Some uid Inl s \<open>e' = None\<close> by (auto simp: GetUserByID_def with_access_def accessFor_def)
    have "access_of ''user'' uid db = None"
      using Inl by (auto simp: accessForExisting_def access_of_def split: option.splits)
    then have a: "access_of ''user'' uid db1 = Some (plain_access ''admin'')"
      using d(1)[of "''user''" uid] r by (simp add: plain_access_def)
    moreover have "user_of uid db1 \<noteq> None" using Some user_of_eq[OF d(2), of uid] r by simp
    ultimately have "admin_exists db1" using admin_existsI plain_access_sel(1) by metis
    then show ?thesis
      using assign_existing[OF assms(1) _ s] Some r a d(2) by auto
  qed
qed

lemma delete_keeps_admin:
  assumes "assignments_ok db" "admin_exists db" "access_of ''user'' uid db = Some a"
    and "ac_role a = ''admin'' \<longrightarrow> AdminCount db \<noteq> 1" "DeleteUser uid db = (None, db')"
  shows "assignments_ok db' \<and> admin_exists db'"
proof -
  have ids: "ids_ok db" using assms(1) by (simp add: assignments_ok_def)
  have "accessFor ''user'' uid db = (Inr a, db)"
    using assms(3) by (auto simp: accessFor_def accessForExisting_def access_of_def)
  then have db': "db' = (delete_user_row uid db)\<lparr>rbac :=
      delete_where (\<lambda>r. ra_principal r = (''user'', uid)) (rbac db)\<rparr>"
    using assms(5) by (auto simp: DeleteUser_def split: if_splits)
  have acc: "access_of ''user'' i db' = (if i = uid then None else access_of ''user'' i db)" for i
    using ids by (simp add: db' access_of_def ids_ok_def get_delete_key)
  have usr: "i \<noteq> uid \<Longrightarrow> user_of i db' = user_of i db" for i
    using ids by (simp add: db' user_of_def ids_ok_def delete_user_row_def get_delete_key)
  have "ids_ok db'"
    using ids by (auto simp: db' ids_ok_def delete_user_row_def delete_where_distinct)
      (auto simp: delete_where_def)
  then have "assignments_ok db'"
    using assms(1) acc usr by (auto simp: assignments_ok_def split: if_splits)
  moreover have "admin_exists db'"
  proof -
    obtain j b where j: "j \<noteq> uid" "access_of ''user'' j db = Some b" "ac_role b = ''admin''" "user_of j db \<noteq> None"
      by (rule remaining_admin[OF assms(1-4)])
    then show ?thesis using acc[of j] usr[OF j(1)] by (intro admin_existsI[of j]) simp_all
  qed
  ultimately show ?thesis by simp
qed

lemma set_keeps_admin:
  assumes "assignments_ok db" "admin_exists db" "user_of uid db \<noteq> None" "access_of ''user'' uid db = Some a"
    and "ac_role a = ''admin'' \<and> ac_role b \<noteq> ''admin'' \<longrightarrow> AdminCount db \<noteq> 1"
    and "SetAccess ''user'' uid b db = (e, db')"
  shows "assignments_ok db' \<and> admin_exists db'"
proof (cases e)
  case (Some err)
  then show ?thesis using assms SetAccess_failed by blast
next
  case None
  note s = access_after_set[OF assms(6)[unfolded None]]
  have "admin_exists db'"
  proof (cases "ac_role b = ''admin''")
    case True
    moreover have "user_of uid db' \<noteq> None" using assms(3) user_of_eq[OF s(2), of uid] by simp
    moreover obtain c where "access_of ''user'' uid db' = Some c" "ac_role c = ac_role b"
      using s(1)[of "''user''" uid] by simp
    ultimately show ?thesis using admin_existsI by metis
  next
    case False
    then have guard: "ac_role a = ''admin'' \<longrightarrow> AdminCount db \<noteq> 1" using assms(5) by simp
    obtain j c where j: "j \<noteq> uid" "access_of ''user'' j db = Some c" "ac_role c = ''admin''" "user_of j db \<noteq> None"
      by (rule remaining_admin[OF assms(1,2,4) guard])
    then show ?thesis
      using s(1)[of "''user''" j] user_of_eq[OF s(2), of j] by (intro admin_existsI[of j]) simp_all
  qed
  then show ?thesis using assign_existing[OF assms(1,3,6)] by simp
qed

text \<open>The administrator's requests, one handler call each.\<close>
datatype admin_request =
    ReqCreate "(string \<times> string \<times> AccessControl) option" time
  | ReqAccess "int option" "AccessControl option"
  | ReqDelete "int option"

fun serve :: "(string \<Rightarrow> string option) \<Rightarrow> req_context \<Rightarrow> admin_request \<Rightarrow> auth_db \<Rightarrow> auth_db" where
  "serve bcrypt cx (ReqCreate b now) db = fst (snd (handleCreateUser bcrypt b cx now db))"
| "serve bcrypt cx (ReqAccess pid b) db = fst (snd (handleUpdateUserAccess pid b cx db))"
| "serve bcrypt cx (ReqDelete pid) db = fst (snd (handleDeleteUser pid cx db))"

lemma update_access_keeps_admin:
  assumes "assignments_ok db" "admin_exists db"
  shows "assignments_ok (fst (snd (handleUpdateUserAccess pid b cx db)))
    \<and> admin_exists (fst (snd (handleUpdateUserAccess pid b cx db)))"
proof (cases "\<exists>uid a. pid = Some uid \<and> b = Some a \<and> access_valid (access_model a)")
  case True
  then obtain uid a where p: "pid = Some uid" "b = Some a" "access_valid (access_model a)" by blast
  obtain res db1 where g: "GetUserByID uid db = (res, db1)" by (meson surj_pair)
  note l = load_user[OF assms g]
  show ?thesis
  proof (cases res)
    case (Inl e)
    then show ?thesis using l g p by (auto simp: handleUpdateUserAccess_def)
  next
    case (Inr ua)
    obtain u v where ua: "ua = (u, v)" by (cases ua)
    obtain e db2 where s: "SetAccess ''user'' uid (access_model a) db1 = (e, db2)" by (meson surj_pair)
    have u1: "user_of uid db1 \<noteq> None" "access_of ''user'' uid db1 = Some v"
      using l Inr ua by (auto simp: user_of_def)
    have role: "ac_role (access_model a) = ac_role a" by (simp add: access_model_def)
    show ?thesis
    proof (cases "ac_protected v \<or> (ac_role v = ''admin'' \<and> ac_role a \<noteq> ''admin'' \<and> AdminCount db1 = 1)")
      case True
      then show ?thesis using l g p Inr ua by (auto simp: handleUpdateUserAccess_def)
    next
      case False
      then have guard: "ac_role v = ''admin'' \<and> ac_role (access_model a) \<noteq> ''admin'' \<longrightarrow> AdminCount db1 \<noteq> 1"
        unfolding role by blast
      have "fst (snd (handleUpdateUserAccess pid b cx db)) = db2"
        using False g p Inr ua s by (cases e) (auto simp: handleUpdateUserAccess_def)
      then show ?thesis using set_keeps_admin[OF _ _ u1 guard s] l by simp
    qed
  qed
next
  case False
  then show ?thesis using assms by (auto simp: handleUpdateUserAccess_def split: option.splits)
qed

lemma delete_user_keeps_admin:
  assumes "assignments_ok db" "admin_exists db"
  shows "assignments_ok (fst (snd (handleDeleteUser pid cx db)))
    \<and> admin_exists (fst (snd (handleDeleteUser pid cx db)))"
proof (cases pid)
  case None
  then show ?thesis using assms by (simp add: handleDeleteUser_def)
next
  case (Some uid)
  obtain res db1 where g: "GetUserByID uid db = (res, db1)" by (meson surj_pair)
  note l = load_user[OF assms g]
  show ?thesis
  proof (cases res)
    case (Inl e)
    then show ?thesis using l g Some by (auto simp: handleDeleteUser_def)
  next
    case (Inr ua)
    obtain u v where ua: "ua = (u, v)" by (cases ua)
    obtain e db2 where d: "DeleteUser uid db1 = (e, db2)" by (meson surj_pair)
    have v: "access_of ''user'' uid db1 = Some v" and row: "user_of uid db1 \<noteq> None"
      using l Inr ua by (auto simp: user_of_def)
    let ?self = "case cx_user cx of Some (me, _) \<Rightarrow> u_id me = uid | None \<Rightarrow> False"
    show ?thesis
    proof (cases "?self \<or> ac_protected v \<or> (ac_role v = ''admin'' \<and> AdminCount db1 = 1)")
      case True
      then have "fst (snd (handleDeleteUser pid cx db)) = db1"
        using g Some Inr ua by (auto simp: handleDeleteUser_def)
      then show ?thesis using l by simp
    next
      case False
      have "accessFor ''user'' uid db1 = (Inr v, db1)"
        using v by (auto simp: accessFor_def accessForExisting_def access_of_def)
      moreover have "rows_affected (\<lambda>u. u_id u = uid) (users db1) \<noteq> 0"
        using row by (auto simp: user_of_def rows_affected_def filter_empty_conv get_row_None)
      ultimately have "e = None" using d False by (auto simp: DeleteUser_def)
      then have "fst (snd (handleDeleteUser pid cx db)) = db2"
        using False g Some Inr ua d by (auto simp: handleDeleteUser_def)
      then show ?thesis
        using delete_keeps_admin[OF _ _ v _ d[unfolded \<open>e = None\<close>]] l False by auto
    qed
  qed
qed

lemma create_keeps_admin:
  assumes "assignments_ok db" "admin_exists db"
  shows "assignments_ok (snd (CreateUserWithAccess n h m a t db)) \<and> admin_exists (snd (CreateUserWithAccess n h m a t db))"
proof (cases "access_valid a \<and> n \<notin> u_username ` set (users db)")
  case True
  let ?uid = "next_user_id db"
  let ?row = "\<lparr>u_id = ?uid, u_username = n, u_password_hash = h, u_must_change_password = m,
      u_auth_provider = ''local'', u_oidc_subject = None, u_created_at = t\<rparr>"
  let ?db = "db\<lparr>users := users db @ [?row], next_user_id := ?uid + 1\<rparr>"
  have ids: "ids_ok db" using assms(1) by (simp add: assignments_ok_def)
  have fresh: "user_of ?uid db = None" using ids by (force simp: ids_ok_def user_of_def get_row_None)
  have ne: "length (users db) \<noteq> 0" using assms(2) by (auto simp: admin_exists_def user_of_def row_simps)
  have usr: "user_of i ?db = (if i = ?uid then Some ?row else user_of i db)" for i
    using fresh by (auto simp: user_of_def get_row_append get_row_Cons get_row_Nil split: option.splits)
  have acc: "access_of p i ?db = access_of p i db" for p i by (simp add: access_of_def)
  have "assignments_ok ?db"
    using assms(1) usr acc ids insert_user_grows[of db n h m "''local''" None t] True
    by (auto simp: assignments_ok_def grows_def insert_user_def)
  moreover have "admin_exists ?db"
  proof -
    obtain i c where "access_of ''user'' i db = Some c" "ac_role c = ''admin''" "user_of i db \<noteq> None"
      using assms(2) unfolding admin_exists_def by blast
    then show ?thesis by (intro admin_existsI[of i _ c]) (simp_all add: usr acc)
  qed
  moreover have new: "access_of ''user'' ?uid ?db = None"
    using assms(1) fresh acc[of "''user''" ?uid] by (metis assignments_ok_def not_None_eq)
  obtain e db2 where s: "SetAccess ''user'' ?uid a ?db = (e, db2)" by (meson surj_pair)
  have "e = None"
    using s new True by (auto simp: SetAccess_def accessForExisting_def access_of_def split: option.splits if_splits)
  note d = access_after_set[OF s[unfolded this]]
  have "snd (CreateUserWithAccess n h m a t db) = db2"
    using True ne s \<open>e = None\<close> by (auto simp: CreateUserWithAccess_def insert_user_def Let_def)
  moreover have "assignments_ok db2"
    using assign_existing[OF \<open>assignments_ok ?db\<close> _ s] usr[of ?uid] by simp
  moreover have "admin_exists db2"
  proof -
    obtain i c where "access_of ''user'' i ?db = Some c" "ac_role c = ''admin''" "user_of i ?db \<noteq> None"
      using \<open>admin_exists ?db\<close> unfolding admin_exists_def by blast
    moreover from this have "i \<noteq> ?uid" using new by auto
    ultimately show ?thesis
      using d(1)[of "''user''" i] user_of_eq[OF d(2), of i] by (intro admin_existsI[of i _ c]) simp_all
  qed
  ultimately show ?thesis by simp
next
  case False
  then have "snd (CreateUserWithAccess n h m a t db) = db"
    by (auto simp: CreateUserWithAccess_def insert_user_def Let_def)
  then show ?thesis using assms by simp
qed

lemma serve_keeps_admin:
  "assignments_ok db \<Longrightarrow> admin_exists db \<Longrightarrow> assignments_ok (serve bcrypt cx rq db) \<and> admin_exists (serve bcrypt cx rq db)"
proof (cases rq)
  case (ReqCreate b now)
  assume inv: "assignments_ok db" "admin_exists db"
  have "fst (snd (handleCreateUser bcrypt b cx now db)) = db
      \<or> (\<exists>n h a. fst (snd (handleCreateUser bcrypt b cx now db)) = snd (CreateUserWithAccess n h False a now db))"
    by (auto simp: handleCreateUser_def Let_def split: option.splits sum.splits prod.splits) (metis snd_conv)+
  then show ?thesis using ReqCreate inv create_keeps_admin[OF inv] by auto
qed (simp_all add: update_access_keeps_admin delete_user_keeps_admin)

text \<open>C32: user administration never locks everyone out. Starting from a store whose assignments all
  belong to existing accounts and in which some account is administrator, any sequence of the user
  API's create, change-access and delete requests leaves an existing administrator account.\<close>
theorem an_administrator_remains:
  assumes "assignments_ok db" "admin_exists db"
  shows "admin_exists (fold (serve bcrypt cx) rqs db)"
proof -
  have "assignments_ok (fold (serve bcrypt cx) rqs db) \<and> admin_exists (fold (serve bcrypt cx) rqs db)"
    using assms by (induction rqs arbitrary: db) (auto simp: serve_keeps_admin)
  then show ?thesis by simp
qed

definition two_admins :: auth_db where
  "two_admins = \<lparr>users = map (\<lambda>i. \<lparr>u_id = i, u_username = ''u'', u_password_hash = ''h'',
       u_must_change_password = False, u_auth_provider = ''local'', u_oidc_subject = None, u_created_at = 0\<rparr>) [1, 2],
     rbac = [\<lparr>ra_principal = (''user'', 1), ra_access = plain_access ''admin''\<rparr>,
             \<lparr>ra_principal = (''user'', 2), ra_access = plain_access ''admin''\<rparr>],
     sessions = [], api_keys = [], next_user_id = 3, next_key_id = 1\<rparr>"

theorem an_administrator_remains_witness:
  "admin_exists (fold (serve (\<lambda>p. Some p) \<lparr>cx_actor = ''x'', cx_user = None, cx_access = plain_access ''admin''\<rparr>)
     [ReqDelete (Some 1), ReqAccess (Some 2) (Some (plain_access ''read'')), ReqDelete (Some 2)] two_admins)"
proof (rule an_administrator_remains)
  show "assignments_ok two_admins"
    by (auto simp: assignments_ok_def ids_ok_def keys_distinct_def two_admins_def access_of_def user_of_def
        row_simps split: if_splits)
  show "admin_exists two_admins"
    by (rule admin_existsI[of 1 _ "plain_access ''admin''"])
      (simp_all add: two_admins_def access_of_def user_of_def row_simps)
qed

text \<open>start-up leaves an owner or says why not. On a store without users, \<^verbatim>\<open>Bootstrap\<close> either
  reports failure and creates nobody, or creates the one account with the protected administrator
  assignment, which must change its password exactly when it is the built-in default; on a store
  with users it changes nothing.\<close>
theorem bootstrap_creates_owner:
  "(HasAnyUser db \<longrightarrow> Bootstrap bcrypt user password now db = (True, db))
   \<and> (case Bootstrap bcrypt user password now empty_auth of
        (False, db') \<Rightarrow> users db' = []
      | (True, db') \<Rightarrow> owner 1 db' \<and> (\<exists>u. users db' = [u]
          \<and> u_must_change_password u = (user = '''' \<and> password = '''')
          \<and> (user \<noteq> '''' \<longrightarrow> u_username u = user \<and> 8 \<le> length password)))"
proof -
  have create: "CreateUser n h m now empty_auth = (None, empty_auth\<lparr>users := [\<lparr>u_id = 1, u_username = n,
      u_password_hash = h, u_must_change_password = m, u_auth_provider = ''local'', u_oidc_subject = None,
      u_created_at = now\<rparr>], rbac := [\<lparr>ra_principal = (''user'', 1),
      ra_access = (plain_access ''admin'')\<lparr>ac_protected := True\<rparr>\<rparr>], next_user_id := 2\<rparr>)" for n h m
    by (simp add: CreateUser_def CreateUserWithAccess_def insert_user_def SetAccess_def access_valid_def
        empty_auth_def accessForExisting_def row_simps upsert_row_def Let_def)
  have none: "\<not> HasAnyUser empty_auth" "users empty_auth = []"
    by (simp_all add: HasAnyUser_def empty_auth_def)
  then show ?thesis
    by (auto simp: Bootstrap_def create owner_def user_of_def access_of_def row_simps
        split: option.splits)
qed

theorem bootstrap_creates_owner_witness:
  "owner 1 (snd (Bootstrap (\<lambda>p. Some p) '''' '''' 0 empty_auth))"
proof -
  have "fst (Bootstrap (\<lambda>p. Some p) '''' '''' 0 empty_auth) = True" by code_simp
  then show ?thesis
    using bootstrap_creates_owner[of empty_auth "\<lambda>p. Some p" "''''" "''''" 0] by (auto split: prod.splits bool.splits)
qed

end
