(* ===== verification/Container_Api.thy ===== *)
theory Container_Api
  imports Checker Self_Update Auth_Api
begin

text \<open>
  The container and log handlers of \<^verbatim>\<open>internal/api/api.go\<close>: listing, forced check, preview, update,
  rollback and bulk update. Times of responses are given as times, not as text; the text of errors
  is left out. The authentication in front of the handlers is in theory \<^verbatim>\<open>Auth_Api\<close>.
\<close>

section \<open>Replies\<close>

datatype 'a reply =
    Reply int 'a
  | ErrorReply int string   \<comment> \<open>status and code of the JSON error\<close>
  | BackToPage bool         \<comment> \<open>a redirect to the Containers page, with an error or not\<close>
  | RestartingPage          \<comment> \<open>the HTML page shown during a self-update\<close>
  | Aborted                 \<comment> \<open>the handler panicked: \<^verbatim>\<open>net/http\<close> recovers and closes the connection\<close>

record ('d, 'h) api =
  ap_checker :: "('d, 'h) checker"
  ap_client :: docker_client
  ap_hostname :: string
  ap_blockers :: "(time \<Rightarrow> 'd world \<Rightarrow> (string, string list) result \<times> 'd world) option"
  ap_shutdown :: bool
  ap_resolve :: bool   \<comment> \<open>whether a resolver of versions was given\<close>

text \<open>A call of the updater: the events it emits also reach the events table, with the time at its end.\<close>
definition k_world :: "('d, 'h) checker \<Rightarrow> ('d world \<Rightarrow> 'a \<times> 'd world) \<Rightarrow> ('d, 'h) check_world \<Rightarrow> 'a \<times> ('d, 'h) check_world" where
  "k_world k f s =
    (case f (cw_world s) of
       (a, w) \<Rightarrow> (a, (set_world w s)\<lparr>cw_log := fold (InsertEvent (now (ck_engine k) w)) (drop (length (wd_events (cw_world s))) (wd_events w)) (cw_log s)\<rparr>))"

definition store_reply :: "db_error \<Rightarrow> 'a reply" where
  "store_reply err = (if err = DbError ErrNotFound then ErrorReply 404 ''not_found'' else ErrorReply 500 ''internal_error'')"

section \<open>Reading\<close>

record containerResponse =
  cr_record :: ContainerRecord
  cr_current_tag :: string
  cr_version_source :: string
  cr_update_kind :: string
  cr_operation :: "operation option"
  cr_rollback_watch :: "RollbackWatch option"

definition containerVersionIdentity :: "(string \<Rightarrow> bool) \<Rightarrow> string \<Rightarrow> string \<Rightarrow> string \<times> string" where
  "containerVersionIdentity valid currentImage currentVersion =
    (let source = (if currentVersion \<noteq> '''' \<and> \<not> is_sha currentVersion then ''version'' else '''');
         tag = (if currentImage \<noteq> '''' \<and> \<not> IsDigestReference valid currentImage then Tag (ParseRef currentImage) else '''')
     in if source \<noteq> '''' then (tag, source)
        else if tag \<noteq> '''' then (tag, ''tag'')
        else if is_sha currentVersion \<or> IsDigestReference valid currentImage then ('''', ''digest'')
        else ('''', ''none''))"

definition toContainerResponse :: "('d, 'h) api \<Rightarrow> ContainerRecord \<Rightarrow> ('d, 'h) check_world \<Rightarrow> containerResponse \<times> ('d, 'h) check_world" where
  "toContainerResponse a c s =
    (case k_sql (ap_checker a) (\<lambda>s. (GetRollbackWatch (c_name c) (wd_watches (cw_world s)), s)) s of
       (got, s1) \<Rightarrow>
         (case containerVersionIdentity (ck_valid (ap_checker a)) (c_current_image c) (c_current_version c) of
            (tag, source) \<Rightarrow>
              (\<lparr>cr_record = c, cr_current_tag = tag, cr_version_source = source,
                cr_update_kind = ClassifyUpdate (c_current_version c) (c_available_version c) (c_update_available c),
                cr_operation = get_op (c_name c) (wd_guard (cw_world s)),
                cr_rollback_watch = (case got of
                   Some (Inr watch) \<Rightarrow> (if w_container_id watch = c_id c \<and> w_status watch \<in> {''active'', ''triggered''} then Some watch else None)
                 | _ \<Rightarrow> None)\<rparr>, s1)))"

fun responses :: "('d, 'h) api \<Rightarrow> ContainerRecord list \<Rightarrow> ('d, 'h) check_world \<Rightarrow> containerResponse list \<times> ('d, 'h) check_world" where
  "responses a [] s = ([], s)"
| "responses a (c # cs) s =
    (case toContainerResponse a c s of (r, s1) \<Rightarrow> (case responses a cs s1 of (rs, s2) \<Rightarrow> (r # rs, s2)))"

definition handleListContainers :: "('d, 'h) api \<Rightarrow> ('d, 'h) check_world \<Rightarrow> containerResponse list reply \<times> ('d, 'h) check_world" where
  "handleListContainers a s =
    (case k_sql (ap_checker a) (\<lambda>s. (ListContainers (cw_containers s), s)) s of
       (None, s1) \<Rightarrow> (ErrorReply 500 ''internal_error'', s1)
     | (Some records, s1) \<Rightarrow> (case responses a records s1 of (rs, s2) \<Rightarrow> (Reply 200 rs, s2)))"

definition handleGetContainer :: "('d, 'h) api \<Rightarrow> string \<Rightarrow> ('d, 'h) check_world \<Rightarrow> containerResponse reply \<times> ('d, 'h) check_world" where
  "handleGetContainer a name s =
    (case k_by_name (ap_checker a) name s of
       (Inl err, s1) \<Rightarrow> (store_reply err, s1)
     | (Inr rec, s1) \<Rightarrow> (case toContainerResponse a rec s1 of (r, s2) \<Rightarrow> (Reply 200 r, s2)))"

definition handleCheckContainer :: "('d, 'h) api \<Rightarrow> string \<Rightarrow> ('d, 'h) check_world \<Rightarrow> (bool \<times> bool) reply \<times> ('d, 'h) check_world" where
  "handleCheckContainer a name s =
    (case CheckOneContainerNow (ap_checker a) name s of
       ((_, _, Some err), s1) \<Rightarrow>
         (if err = StoreFailed (DbError ErrNotFound) then ErrorReply 404 ''not_found'' else ErrorReply 502 ''check_failed'', s1)
     | ((checked, available, None), s1) \<Rightarrow> (Reply 200 (checked, available), s1))"

text \<open>The limit is the query value, when it is an integer.\<close>
definition handleListLogs :: "('d, 'h) api \<Rightarrow> string \<Rightarrow> string \<Rightarrow> string \<Rightarrow> string \<Rightarrow> ('d, 'h) check_world \<Rightarrow> event_row list reply \<times> ('d, 'h) check_world" where
  "handleListLogs a event container level limit s =
    (let fl = \<lparr>fl_event_type = event, fl_container = container, fl_level = level,
           fl_limit = (case Atoi limit of None \<Rightarrow> 0 | Some n \<Rightarrow> n)\<rparr>
     in case k_sql (ap_checker a) (\<lambda>s. (ListEvents fl (cw_log s), s)) s of
          (None, s1) \<Rightarrow> (ErrorReply 500 ''internal_error'', s1) | (Some rows, s1) \<Rightarrow> (Reply 200 rows, s1))"

section \<open>Updating\<close>

text \<open>The \<^verbatim>\<open>semver\<close> query value.\<close>
definition parseSemverScope :: "string \<Rightarrow> string option" where
  "parseSemverScope q =
    (let scope = (if q = '''' then ''major'' else q)
     in if scope \<noteq> ''patch'' \<and> scope \<noteq> ''minor'' \<and> scope \<noteq> ''major'' then None else Some scope)"

definition resolveUpdateTarget :: "('d, 'h) api \<Rightarrow> ContainerRecord \<Rightarrow> string \<Rightarrow> ('d, 'h) check_world \<Rightarrow> (string \<times> string) \<times> ('d, 'h) check_world" where
  "resolveUpdateTarget a rec scope s =
    (case k_sql (ap_checker a) (\<lambda>s. (GetUpdateCandidate (c_id rec) scope (cw_candidates s), s)) s of
       (Some (Some cand), s1) \<Rightarrow>
         ((uc_image cand, if IsVersionTag (uc_version cand) then uc_version cand else c_available_version rec), s1)
     | (_, s1) \<Rightarrow> ((c_current_image rec, c_available_version rec), s1))"

record updatePreview =
  pv_current_image :: string
  pv_current_version :: string
  pv_target_image :: string
  pv_target_version :: string
  pv_update_kind :: string
  pv_scope :: string
  pv_available :: bool

definition handlePreviewUpdate :: "('d, 'h) api \<Rightarrow> string \<Rightarrow> string \<Rightarrow> ('d, 'h) check_world \<Rightarrow> updatePreview reply \<times> ('d, 'h) check_world" where
  "handlePreviewUpdate a name semver s =
    (case k_by_name (ap_checker a) name s of
       (Inl err, s1) \<Rightarrow> (store_reply err, s1)
     | (Inr rec, s1) \<Rightarrow>
         (case parseSemverScope semver of
            None \<Rightarrow> (ErrorReply 400 ''invalid_request'', s1)
          | Some scope \<Rightarrow>
              (case resolveUpdateTarget a rec scope s1 of
                 ((img, version), s2) \<Rightarrow>
                   (Reply 200 \<lparr>pv_current_image = c_current_image rec, pv_current_version = c_current_version rec, pv_target_image = img,
                      pv_target_version = version, pv_update_kind = ClassifyUpdate (c_current_version rec) version (c_update_available rec),
                      pv_scope = scope, pv_available = c_update_available rec\<rparr>, s2))))"

text \<open>Whether an error is a \<^verbatim>\<open>SelfUpdateSafetyError\<close>.\<close>
definition unsafe :: "self_error \<Rightarrow> bool" where
  "unsafe err =
    (case err of ActiveOperations _ \<Rightarrow> True | IdentityUnverified \<Rightarrow> True | Blocked _ \<Rightarrow> True | _ \<Rightarrow> False)"

definition respondSelfUpdate :: "http_request \<Rightarrow> self_error option \<Rightarrow> unit reply" where
  "respondSelfUpdate r err =
    (case err of
       Some e \<Rightarrow>
         (if isJSON r then ErrorReply 409 (if unsafe e then ''self_update_unsafe'' else ''self_update_failed'')
          else BackToPage True)
     | None \<Rightarrow> if isJSON r then Reply 202 () else RestartingPage)"

definition respondAction :: "http_request \<Rightarrow> op_error option \<Rightarrow> string \<Rightarrow> unit reply" where
  "respondAction r err code =
    (if isJSON r then
       (case err of
          None \<Rightarrow> Reply 200 ()
        | Some (Refused (OperationInProgressError _ _)) \<Rightarrow> ErrorReply 409 ''operation_in_progress''
        | Some _ \<Rightarrow> ErrorReply 409 code)
     else BackToPage (err \<noteq> None))"

text \<open>The end of a handler that called the updater, which may have panicked.\<close>
definition action_reply :: "http_request \<Rightarrow> op_error option \<Rightarrow> string \<Rightarrow> unit reply" where
  "action_reply r err code = (if err = Some Panicked then Aborted else respondAction r err code)"

text \<open>The names of the versions after an update or a rollback; failures are ignored.\<close>
definition resolve_after :: "('d, 'h) api \<Rightarrow> string \<Rightarrow> ('d, 'h) check_world \<Rightarrow> ('d, 'h) check_world" where
  "resolve_after a name s =
    (if \<not> ap_resolve a then s
     else case k_by_name (ap_checker a) name s of
       (Inl _, s1) \<Rightarrow> s1
     | (Inr rec, s1) \<Rightarrow> snd (ResolveVersionAfterAction (ap_checker a) (c_id rec) (c_current_image rec) s1))"

definition clear_candidates :: "('d, 'h) api \<Rightarrow> string \<Rightarrow> ('d, 'h) check_world \<Rightarrow> ('d, 'h) check_world" where
  "clear_candidates a cid s =
    snd (k_sql (ap_checker a) (\<lambda>s. ((), set_candidates (ClearUpdateCandidates cid (cw_candidates s)) s)) s)"

text \<open>One update by \<^verbatim>\<open>Updater.Update\<close>, and what follows its success.\<close>
definition apply_update :: "('d, 'h) api \<Rightarrow> ContainerRecord \<Rightarrow> string \<Rightarrow> string \<Rightarrow> ('d, 'h) check_world \<Rightarrow> op_error option \<times> ('d, 'h) check_world" where
  "apply_update a rec target actorID s =
    (let k = ap_checker a
     in case k_world k (Update (ck_engine k) (ap_client a) (ck_valid k) (c_id rec) target ActorUser actorID) s of
          (Some err, s1) \<Rightarrow> (Some err, s1)
        | (None, s1) \<Rightarrow> (None, resolve_after a (c_name rec) (clear_candidates a (c_id rec) s1)))"

definition api_is_self :: "('d, 'h) api \<Rightarrow> string \<Rightarrow> ('d, 'h) check_world \<Rightarrow> bool \<times> ('d, 'h) check_world" where
  "api_is_self a cid = on_docker (IsSelf (ck_engine (ap_checker a)) (ap_hostname a) cid)"

definition handleUpdateContainer :: "('d, 'h) api \<Rightarrow> http_request \<Rightarrow> string \<Rightarrow> string \<Rightarrow> string \<Rightarrow> ('d, 'h) check_world \<Rightarrow> unit reply \<times> ('d, 'h) check_world" where
  "handleUpdateContainer a r actorID name semver s =
    (case k_by_name (ap_checker a) name s of
       (Inl err, s1) \<Rightarrow> (store_reply err, s1)
     | (Inr rec, s1) \<Rightarrow>
         (case parseSemverScope semver of
            None \<Rightarrow> (ErrorReply 400 ''invalid_request'', s1)
          | Some scope \<Rightarrow>
              (case resolveUpdateTarget a rec scope s1 of
                 ((target, _), s2) \<Rightarrow>
                   (case api_is_self a (c_id rec) s2 of
                      (True, s3) \<Rightarrow>
                        (case k_world (ap_checker a) (\<lambda>w. case StartSelfUpdate (ck_engine (ap_checker a)) (ap_client a) (ap_hostname a) (ap_blockers a)
                                (ap_shutdown a) (c_id rec) target actorID w of (err, w', _) \<Rightarrow> (err, w')) s3 of
                           (err, s4) \<Rightarrow> (respondSelfUpdate r err, s4))
                    | (False, s3) \<Rightarrow>
                        (case apply_update a rec target actorID s3 of
                           (err, s4) \<Rightarrow> (action_reply r err ''update_failed'', s4))))))"

definition handleRollbackContainer :: "('d, 'h) api \<Rightarrow> http_request \<Rightarrow> string \<Rightarrow> string \<Rightarrow> ('d, 'h) check_world \<Rightarrow> unit reply \<times> ('d, 'h) check_world" where
  "handleRollbackContainer a r actorID name s =
    (let k = ap_checker a
     in case k_by_name k name s of
          (Inl err, s1) \<Rightarrow> (store_reply err, s1)
        | (Inr rec, s1) \<Rightarrow>
            (case k_world k (Rollback (ck_engine k) (ap_client a) (ck_valid k) (c_id rec) ActorUser actorID) s1 of
               (Some err, s2) \<Rightarrow> (action_reply r (Some err) ''rollback_failed'', s2)
             | (None, s2) \<Rightarrow> (respondAction r None ''rollback_failed'', resolve_after a (c_name rec) s2)))"

section \<open>Updating many\<close>

definition selectBulkUpdateTargets :: "ContainerRecord list \<Rightarrow> string \<Rightarrow> ContainerRecord list" where
  "selectBulkUpdateTargets records stack =
    filter (\<lambda>c. \<not> (\<not> c_update_available c \<or> c_excluded c) \<and> \<not> (stack \<noteq> '''' \<and> c_stack c \<noteq> stack)) records"

fun excludeSelf :: "('d, 'h) api \<Rightarrow> ContainerRecord list \<Rightarrow> ('d, 'h) check_world \<Rightarrow> ContainerRecord list \<times> ('d, 'h) check_world" where
  "excludeSelf a [] s = ([], s)"
| "excludeSelf a (c # cs) s =
    (case api_is_self a (c_id c) s of
       (self, s1) \<Rightarrow> (case excludeSelf a cs s1 of (out, s2) \<Rightarrow> (if self then out else c # out, s2)))"

text \<open>The answer, and the containers whose update goes on in the background.\<close>
definition handleUpdateAllContainers :: "('d, 'h) api \<Rightarrow> string \<Rightarrow> string \<Rightarrow> ('d, 'h) check_world \<Rightarrow> (nat reply \<times> ContainerRecord list) \<times> ('d, 'h) check_world" where
  "handleUpdateAllContainers a actorID stack s =
    (case k_sql (ap_checker a) (\<lambda>s. (ListContainers (cw_containers s), s)) s of
       (None, s1) \<Rightarrow> ((ErrorReply 500 ''internal_error'', []), s1)
     | (Some records, s1) \<Rightarrow>
         (case excludeSelf a (selectBulkUpdateTargets records stack) s1 of
            (targets, s2) \<Rightarrow>
              ((Reply 202 (length targets), targets),
               if targets = [] then s2
               else k_emit (ap_checker a) (event_of LevelInfo ''containers.bulk_update_started'' '''' ActorUser actorID
                      [(''count'', AInt (int (length targets))), (''stack'', AStr stack)]) s2)))"

text \<open>The loop runs in a goroutine of its own: a panic ends the daemon, and the answer is
  \<^term>\<open>None\<close>.\<close>
fun bulk_loop :: "('d, 'h) api \<Rightarrow> string \<Rightarrow> ContainerRecord list \<Rightarrow> nat \<Rightarrow> nat \<Rightarrow> ('d, 'h) check_world \<Rightarrow>
    (nat \<times> nat) option \<times> ('d, 'h) check_world" where
  "bulk_loop a actorID [] succeeded failed s = (Some (succeeded, failed), s)"
| "bulk_loop a actorID (rec # recs) succeeded failed s =
    (case apply_update a rec (c_current_image rec) actorID s of
       (Some err, s1) \<Rightarrow> if err = Panicked then (None, s1) else bulk_loop a actorID recs succeeded (Suc failed) s1
     | (None, s1) \<Rightarrow> bulk_loop a actorID recs (Suc succeeded) failed s1)"

definition runBulkUpdate :: "('d, 'h) api \<Rightarrow> string \<Rightarrow> ContainerRecord list \<Rightarrow> ('d, 'h) check_world \<Rightarrow> ('d, 'h) check_world" where
  "runBulkUpdate a actorID targets s =
    (case bulk_loop a actorID targets 0 0 s of
       (None, s1) \<Rightarrow> s1
     | (Some (succeeded, failed), s1) \<Rightarrow>
         k_emit (ap_checker a) (event_of LevelInfo ''containers.bulk_update_completed'' '''' ActorUser actorID
           [(''succeeded'', AInt (int succeeded)), (''failed'', AInt (int failed))]) s1)"

section \<open>What the handlers touch\<close>

text \<open>The calls that changed something at the engine so far.\<close>
definition calls :: "('x logging, 'h) check_world \<Rightarrow> docker_call list" where
  "calls s = fst (wd_env (cw_world s))"

lemma calls_set_world [simp]: "calls (set_world w s) = fst (wd_env w)"
  by (simp add: calls_def)

lemma calls_k_emit [simp]: "calls (k_emit k ev s) = calls s"
  by (simp add: k_emit_def calls_def emit_def set_world_def)

named_theorems no_calls \<open>steps that call nothing at the engine\<close>

lemma on_net_calls [no_calls]: "on_net f s = (r, s') \<Longrightarrow> calls s' = calls s"
  by (auto simp: on_net_def calls_def split: prod.splits)

lemma on_docker_calls:
  assumes "on_docker f s = (r, s')" "\<And>d a d'. f d = (a, d') \<Longrightarrow> added d [] d'"
  shows "calls s' = calls s"
  using assms(1) assms(2)[of "wd_env (cw_world s)"] by (auto simp: on_docker_def calls_def added_def split: prod.splits)

lemma k_sql_calls:
  assumes "ck_engine k = logged e" "k_sql k f s = (r, s')" "\<And>t. calls (snd (f t)) = calls t"
  shows "calls s' = calls s"
proof -
  obtain b d where q: "en_sql (logged e) (wd_env (cw_world s)) = (b, d)" by (rule prod.exhaust)
  then have d: "fst d = calls s" using logged_silent(5)[OF q] by (simp add: added_def calls_def)
  let ?t = "set_world ((cw_world s)\<lparr>wd_env := d\<rparr>) s"
  have "s' = (if b then snd (f ?t) else ?t)"
    using assms(1,2) q by (cases b) (auto simp: k_sql_def sql_def split: prod.splits)
  then show ?thesis using assms(3)[of ?t] d by simp
qed

lemma k_sql_read_calls [no_calls]:
  assumes "ck_engine k = logged e" "k_sql k (\<lambda>s. (g s, s)) s = (r, s')"
  shows "calls s' = calls s"
  by (rule k_sql_calls[OF assms]) simp

lemma load_hint_calls [no_calls]:
  assumes "ck_engine k = logged e" "load_hint k ref digest s = (r, s')"
  shows "calls s' = calls s"
proof -
  obtain a s1 where q: "k_sql k (\<lambda>s. (GetImageVersion (Registry ref) (Repository ref) digest (cw_versions s), s)) s = (a, s1)" by (rule prod.exhaust)
  have "s' = s1" using assms(2) unfolding load_hint_def q by (simp split: option.splits)
  then show ?thesis using k_sql_read_calls[OF assms(1) q] by simp
qed

lemma current_hint_calls [no_calls]:
  assumes "ck_engine k = logged e" "current_hint k ref cid digest lv s = (r, s')"
  shows "calls s' = calls s"
proof -
  obtain cur skip s1 where l: "load_hint k ref digest s = ((cur, skip), s1)" by (metis prod.exhaust)
  obtain a s2 where q: "k_sql k (\<lambda>s. (GetContainer cid (cw_containers s), s)) s1 = (a, s2)" by (rule prod.exhaust)
  have "s' = s \<or> s' = s1 \<or> s' = s2" using assms(2) unfolding current_hint_def l prod.case q by (auto split: if_splits option.splits sum.splits)
  then show ?thesis using load_hint_calls[OF assms(1) l] k_sql_read_calls[OF assms(1) q] by auto
qed

lemma loadVersionHints_calls [no_calls]:
  assumes "ck_engine k = logged e" "loadVersionHints k ref cid cur remote hasUpdate lv s = (hints, s')"
  shows "calls s' = calls s"
proof -
  obtain h skip s1 where c: "current_hint k ref cid cur lv s = ((h, skip), s1)" by (metis prod.exhaust)
  obtain h' skip' s2 where l: "load_hint k ref remote s1 = ((h', skip'), s2)" by (metis prod.exhaust)
  have "s' = s1 \<or> s' = s2" using assms(2) by (auto simp: loadVersionHints_def c l split: if_splits)
  then show ?thesis using current_hint_calls[OF assms(1) c] load_hint_calls[OF assms(1) l] by auto
qed

lemma label_or_digest_calls [no_calls]: "label_or_digest k ref digest hint skip s = (r, s') \<Longrightarrow> calls s' = calls s"
  by (auto simp: label_or_digest_def dest: on_net_calls split: if_splits prod.splits sum.splits)

lemma resolveVersions_calls [no_calls]:
  assumes "resolveVersions k cache ref cur remote hasUpdate hints s = (r, cache', s')"
  shows "calls s' = calls s"
proof -
  obtain v h s1 where a: "label_or_digest k ref cur (vh_current hints) (vh_skip_current hints) s = ((v, h), s1)" by (metis prod.exhaust)
  obtain v' h' s2 where b: "(if hasUpdate then label_or_digest k ref remote (vh_available hints) (vh_skip_available hints) s1
      else ((v, vh_available hints), s1)) = ((v', h'), s2)" by (metis prod.exhaust)
  have s2: "calls s2 = calls s"
    using b label_or_digest_calls[OF a] by (auto split: if_splits dest: label_or_digest_calls)
  have "s' = s \<or> s' = s2 \<or> (\<exists>f a. on_net f s2 = (a :: (fetch_error, (string \<times> string) list) result, s'))"
    using assms unfolding resolveVersions_def a prod.case b
    by (auto simp: Let_def split: if_splits prod.splits sum.splits)
  then show ?thesis using s2 by (auto dest: on_net_calls)
qed

text \<open>Inspecting an image changes nothing either.\<close>
definition quiet_images :: "'x logging images \<Rightarrow> bool" where
  "quiet_images im \<longleftrightarrow> (\<forall>i d. added d [] (snd (im_inspect im i d)))"

lemma image_digests_quiet: "quiet_images im \<Longrightarrow> image_digests im i d = (r, d') \<Longrightarrow> added d [] d'"
  unfolding quiet_images_def by (drule spec[of _ i], drule spec[of _ d]) (auto simp: image_digests_def split: prod.splits sum.splits)

lemma ImageVersionLabel_quiet: "quiet_images im \<Longrightarrow> ImageVersionLabel im i repo d = (r, d') \<Longrightarrow> added d [] d'"
  unfolding quiet_images_def by (drule spec[of _ i], drule spec[of _ d]) (auto simp: ImageVersionLabel_def split: prod.splits sum.splits)

text \<open>Nothing called and nothing stored.\<close>
definition kept :: "('x logging, 'h) check_world \<Rightarrow> ('x logging, 'h) check_world \<Rightarrow> bool" where
  "kept s s' \<longleftrightarrow> calls s' = calls s \<and> cw_tables s' = cw_tables s"

lemma kept_refl [simp]: "kept s s"
  by (simp add: kept_def)

lemma kept_trans: "kept s t \<Longrightarrow> kept t u \<Longrightarrow> kept s u"
  by (simp add: kept_def)

lemma kept_docker:
  assumes "on_docker f s = (r, s')" "\<And>d a d'. f d = (a, d') \<Longrightarrow> added d [] d'"
  shows "kept s s'"
  using on_docker_calls[OF assms] on_docker_tables[OF assms(1)] by (simp add: kept_def)

lemma kept_read:
  assumes "ck_engine k = logged e" "k_sql k (\<lambda>s. (g s, s)) s = (r, s')"
  shows "kept s s'"
  using k_sql_read_calls[OF assms] k_sql_read_tables[OF assms(2)] by (simp add: kept_def)

lemma versions_now_kept:
  assumes "ck_engine k = logged e" "quiet_images (ck_images k)" "versions_now k ref cid s = (r, s')"
  shows "kept s s'"
proof -
  obtain i s1 where i: "on_docker (en_inspect (ck_engine k) cid) s = (i, s1)" by (rule prod.exhaust)
  have s1: "kept s s1" by (rule kept_docker[OF i]) (use assms(1) logged_silent(1) in auto)
  show ?thesis
  proof (cases i)
    case (Inl err)
    then show ?thesis using assms(3) s1 by (simp add: versions_now_def i)
  next
    case (Inr info)
    obtain ds s2 where d: "on_docker (image_digests (ck_images k) (in_image info)) s1 = (ds, s2)" by (rule prod.exhaust)
    have s2: "kept s s2" by (rule kept_trans[OF s1 kept_docker[OF d image_digests_quiet[OF assms(2)]]])
    obtain remote s3 where n: "on_net (Digest (ck_http k) (ck_env k) ref) s2 = (remote, s3)" by (rule prod.exhaust)
    obtain lb s4 where l: "on_docker (ImageVersionLabel (ck_images k) (in_image info) (Repository ref)) s3 = (lb, s4)" by (rule prod.exhaust)
    have s4: "kept s s4"
      using s2 kept_docker[OF l ImageVersionLabel_quiet[OF assms(2)]] on_net_calls[OF n] on_net_tables[OF n] by (simp add: kept_def)
    show ?thesis
    proof (cases ds)
      case (Inl err)
      then show ?thesis using assms(3) s2 by (simp add: versions_now_def i \<open>i = _\<close> d)
    next
      case ds: (Inr locals)
      let ?lv = "case lb of Inl _ \<Rightarrow> '''' | Inr v \<Rightarrow> v" and ?rd = "case remote of Inr d \<Rightarrow> d | Inl _ \<Rightarrow> hd locals"
        and ?hu = "case remote of Inr d \<Rightarrow> d \<notin> set locals | Inl _ \<Rightarrow> False"
      obtain hints s5 where h: "loadVersionHints k ref cid (hd locals) ?rd ?hu ?lv s4 = (hints, s5)" by (rule prod.exhaust)
      obtain vs cache s6 where v: "resolveVersions k Map.empty ref (hd locals) ?rd ?hu hints s5 = (vs, cache, s6)" by (metis prod.exhaust)
      have "s' = s2 \<or> s' = s6"
        using assms(3) by (auto simp: versions_now_def i \<open>i = _\<close> d ds n l h v Let_def split: if_splits prod.splits)
      then show ?thesis
        using s2 s4 loadVersionHints_calls[OF assms(1) h] loadVersionHints_tables[OF h] resolveVersions_calls[OF v] resolveVersions_tables[OF v]
        by (auto simp: kept_def)
    qed
  qed
qed

text \<open>Naming the versions stores them with the container and changes nothing else.\<close>
lemma ResolveVersionAfterAction_kept:
  assumes "ck_engine k = logged e" "quiet_images (ck_images k)" "ResolveVersionAfterAction k cid img s = (r, s')"
  shows "calls s' = calls s" "cw_candidates s' = cw_candidates s"
    "\<exists>f. cw_containers s' = f (cw_containers s) \<and> f \<in> {id} \<union> {SetVersions cid v v' | v v'. True}"
proof -
  obtain v v' s1 where n: "versions_now k (ParseRef img) cid s = ((v, v'), s1)" by (metis prod.exhaust)
  note k1 = versions_now_kept[OF assms(1,2) n]
  obtain a s2 where q: "k_sql k (\<lambda>s. ((), set_containers (SetVersions cid v v' (cw_containers s)) s)) s1 = (a, s2)" by (rule prod.exhaust)
  have c: "calls s2 = calls s1" by (rule k_sql_calls[OF assms(1) q]) (simp add: set_containers_def calls_def)
  have t: "cw_candidates s2 = cw_candidates s1 \<and> (cw_containers s2 = cw_containers s1 \<or> cw_containers s2 = SetVersions cid v v' (cw_containers s1))"
    using q by (cases rule: k_sql_cases) auto
  have "s' = s \<or> s' = s2 \<or> (\<exists>ev. s' = k_emit k ev s2)"
    using assms(3) unfolding ResolveVersionAfterAction_def n prod.case q by (auto split: if_splits option.splits)
  then have s': "calls s' = calls s \<and> cw_candidates s' = cw_candidates s
      \<and> (cw_containers s' = cw_containers s \<or> cw_containers s' = SetVersions cid v v' (cw_containers s))"
    using c t k1 tables_proj[OF k_emit_tables, of k _ s2] by (auto simp: kept_def cw_tables_def)
  then show "calls s' = calls s" "cw_candidates s' = cw_candidates s" by simp_all
  show "\<exists>f. cw_containers s' = f (cw_containers s) \<and> f \<in> {id} \<union> {SetVersions cid v v' | v v'. True}"
    using s' by (metis (mono_tags, lifting) UnCI id_apply insertI1 mem_Collect_eq)
qed

lemma kept_by_name:
  assumes "ck_engine k = logged e" "k_by_name k name s = (r, s')"
  shows "kept s s'"
proof -
  obtain a t where q: "k_sql k (\<lambda>s. (GetContainerByName name (cw_containers s), s)) s = (a, t)" by (rule prod.exhaust)
  have "s' = t" using assms(2) unfolding k_by_name_def q by (auto split: option.splits sum.splits)
  then show ?thesis using kept_read[OF assms(1) q] by simp
qed

lemma k_by_name_found:
  assumes "ck_engine k = logged e" "k_by_name k name s = (Inr rec, s')"
  shows "GetContainerByName name (cw_containers s) = Inr rec"
proof -
  obtain a t where q: "k_sql k (\<lambda>s. (GetContainerByName name (cw_containers s), s)) s = (a, t)" by (rule prod.exhaust)
  then have a: "a = Some (Inr rec)" using assms(2) unfolding k_by_name_def q by (auto split: option.splits sum.splits)
  from q show ?thesis by (cases rule: k_sql_cases) (use a in auto)
qed

lemma kept_target:
  assumes "ck_engine (ap_checker a) = logged e" "resolveUpdateTarget a rec scope s = (r, s')"
  shows "kept s s'"
proof -
  obtain c t where q: "k_sql (ap_checker a) (\<lambda>s. (GetUpdateCandidate (c_id rec) scope (cw_candidates s), s)) s = (c, t)" by (rule prod.exhaust)
  have "s' = t" using assms(2) unfolding resolveUpdateTarget_def q by (auto split: option.splits)
  then show ?thesis using kept_read[OF assms(1) q] by simp
qed

lemma kept_is_self:
  assumes "ck_engine (ap_checker a) = logged e" "api_is_self a cid s = (r, s')"
  shows "kept s s'"
  using assms(2) unfolding api_is_self_def assms(1)
  by (rule kept_docker) (auto simp: IsSelf_def split: prod.splits option.splits dest: selfContainerID_silent)

lemma resolve_after_kept:
  assumes "ck_engine (ap_checker a) = logged e" "quiet_images (ck_images (ap_checker a))"
  shows "calls (resolve_after a name s) = calls s" "cw_candidates (resolve_after a name s) = cw_candidates s"
proof -
  obtain r s1 where n: "k_by_name (ap_checker a) name s = (r, s1)" by (rule prod.exhaust)
  have k1: "calls s1 = calls s" "cw_candidates s1 = cw_candidates s"
    using kept_by_name[OF assms(1) n] by (simp_all add: kept_def cw_tables_def)
  have "calls (resolve_after a name s) = calls s \<and> cw_candidates (resolve_after a name s) = cw_candidates s"
  proof (cases "ap_resolve a")
    case True
    show ?thesis
    proof (cases r)
      case (Inl err)
      then show ?thesis using True k1 by (simp add: resolve_after_def n)
    next
      case (Inr rec)
      obtain b s2 where v: "ResolveVersionAfterAction (ap_checker a) (c_id rec) (c_current_image rec) s1 = (b, s2)" by (rule prod.exhaust)
      show ?thesis using ResolveVersionAfterAction_kept(1,2)[OF assms v] k1 True by (simp add: resolve_after_def n Inr v)
    qed
  qed (simp add: resolve_after_def)
  then show "calls (resolve_after a name s) = calls s" "cw_candidates (resolve_after a name s) = cw_candidates s" by simp_all
qed

lemma clear_candidates_calls:
  assumes "ck_engine (ap_checker a) = logged e"
  shows "calls (clear_candidates a cid s) = calls s"
proof -
  obtain r t where q: "k_sql (ap_checker a) (\<lambda>s. ((), set_candidates (ClearUpdateCandidates cid (cw_candidates s)) s)) s = (r, t)" by (rule prod.exhaust)
  have "calls t = calls s" by (rule k_sql_calls[OF assms q]) (simp add: set_candidates_def calls_def)
  then show ?thesis by (simp add: clear_candidates_def q)
qed

lemma clear_candidates_cleared:
  assumes "reliable (ck_engine (ap_checker a))"
  shows "GetUpdateCandidate cid scope (cw_candidates (clear_candidates a cid s)) = None"
proof -
  obtain d where "k_sql (ap_checker a) (\<lambda>s. ((), set_candidates (ClearUpdateCandidates cid (cw_candidates s)) s)) s =
      (Some (), set_candidates (ClearUpdateCandidates cid (cw_candidates s)) (set_world ((cw_world s)\<lparr>wd_env := d\<rparr>) s))"
    using k_sql_reliable[OF assms, of "\<lambda>s. ((), set_candidates (ClearUpdateCandidates cid (cw_candidates s)) s)" s] by auto
  then show ?thesis by (simp add: clear_candidates_def cleared_candidate)
qed

text \<open>What a successful update by a handler has done.\<close>
lemma apply_update_done:
  assumes "ck_engine (ap_checker a) = logged e" "quiet_images (ck_images (ap_checker a))"
    and "keys_distinct c_id (cw_containers s)" "c_id rec \<noteq> ''''" "apply_update a rec target aid s = (None, s')"
  shows "\<exists>new n i. calls s' = calls s @ new \<and> CallRemove (c_id rec) True \<in> set new \<and> CallCreate target n (Some i) \<in> set new"
    "reliable (ck_engine (ap_checker a)) \<Longrightarrow> GetUpdateCandidate (c_id rec) scope (cw_candidates s') = None"
proof -
  let ?k = "ap_checker a"
  obtain r w where u: "Update (ck_engine ?k) (ap_client a) (ck_valid ?k) (c_id rec) target ActorUser aid (cw_world s) = (r, w)" by (rule prod.exhaust)
  define s1 where "s1 = snd (k_world ?k (\<lambda>_. (r, w)) s)"
  have k: "k_world ?k (Update (ck_engine ?k) (ap_client a) (ck_valid ?k) (c_id rec) target ActorUser aid) s = (r, s1)"
    by (simp add: k_world_def u s1_def)
  have r: "r = None" and s': "s' = resolve_after a (c_name rec) (clear_candidates a (c_id rec) s1)"
    using assms(5) by (auto simp: apply_update_def k Let_def split: option.splits)
  have s1: "calls s1 = fst (wd_env w)" by (simp add: s1_def k_world_def set_world_def calls_def)
  obtain new where new: "fst (wd_env w) = calls s @ new" "update_outcome e (c_id rec) target (cw_world s) r new w"
    using Update_outcome[OF u[unfolded assms(1)] assms(3,4)] by (auto simp: added_def calls_def)
  have c: "calls s' = calls s @ new"
    unfolding s' using resolve_after_kept(1)[OF assms(1,2)] clear_candidates_calls[OF assms(1)] s1 new(1) by simp
  show "\<exists>new n i. calls s' = calls s @ new \<and> CallRemove (c_id rec) True \<in> set new \<and> CallCreate target n (Some i) \<in> set new"
    using new(2) c assms(4) unfolding r update_outcome_def
    by (auto simp: recreate_trace_def replace_trace_def remove_trace_def)
  show "GetUpdateCandidate (c_id rec) scope (cw_candidates s') = None" if rel: "reliable (ck_engine ?k)"
    unfolding s' using resolve_after_kept(2)[OF assms(1,2)] clear_candidates_cleared[OF rel] by simp
qed

section \<open>Preview and update\<close>

lemma handlePreviewUpdate_shown:
  assumes "ck_engine (ap_checker a) = logged e" "handlePreviewUpdate a name scope s = (Reply 200 p, s')"
  obtains rec s1 sc v where "k_by_name (ap_checker a) name s = (Inr rec, s1)" "parseSemverScope scope = Some sc"
    "resolveUpdateTarget a rec sc s1 = ((pv_target_image p, v), s')" "kept s s'"
proof -
  obtain r s1 where n: "k_by_name (ap_checker a) name s = (r, s1)" by (rule prod.exhaust)
  with assms(2) obtain rec where r: "r = Inr rec" by (cases r) (simp_all add: handlePreviewUpdate_def store_reply_def split: if_splits)
  from assms(2) n r obtain sc where sc: "parseSemverScope scope = Some sc"
    by (cases "parseSemverScope scope") (simp_all add: handlePreviewUpdate_def)
  obtain img v s2 where t: "resolveUpdateTarget a rec sc s1 = ((img, v), s2)" by (metis prod.exhaust)
  have "pv_target_image p = img" "s' = s2" using assms(2) n r sc t by (auto simp: handlePreviewUpdate_def)
  then show thesis
    using that[of rec s1 sc v] n r sc t kept_trans[OF kept_by_name[OF assms(1) n] kept_target[OF assms(1) t]] by simp
qed

text \<open>C21: The preview shows what the update does. When the preview of a container is answered with target
  image \<^term>\<open>t\<close>, it has called nothing at the engine that changes anything and stored nothing; and
  when the update with the same parameters in the same state is answered with success, the engine has removed the old
  container and created a new one from exactly \<^term>\<open>t\<close>.\<close>

theorem preview_shows_what_update_does:
  assumes "ck_engine (ap_checker a) = logged e" "quiet_images (ck_images (ap_checker a))"
    and "keys_distinct c_id (cw_containers s)" "\<forall>row \<in> set (cw_containers s). c_id row \<noteq> ''''"
    and "handlePreviewUpdate a name scope s = (Reply 200 p, s1)"
    and "handleUpdateContainer a r aid name scope s = (Reply 200 (), s2)"
  shows "calls s1 = calls s \<and> cw_tables s1 = cw_tables s
    \<and> (\<exists>old new n i. GetContainerByName name (cw_containers s) = Inr old \<and> calls s2 = calls s @ new
        \<and> CallRemove (c_id old) True \<in> set new \<and> CallCreate (pv_target_image p) n (Some i) \<in> set new)"
proof -
  obtain rec t sc v where p: "k_by_name (ap_checker a) name s = (Inr rec, t)" "parseSemverScope scope = Some sc"
      "resolveUpdateTarget a rec sc t = ((pv_target_image p, v), s1)" "kept s s1"
    by (rule handlePreviewUpdate_shown[OF assms(1,5)])
  have rec: "GetContainerByName name (cw_containers s) = Inr rec" by (rule k_by_name_found[OF assms(1) p(1)])
  then have "rec \<in> set (cw_containers s)" using GetContainerByName_row assms(3) by blast
  then have i: "c_id rec \<noteq> ''''" using assms(4) by blast
  obtain self u where self: "api_is_self a (c_id rec) s1 = (self, u)" by (rule prod.exhaust)
  have ku: "kept s u" by (rule kept_trans[OF p(4) kept_is_self[OF assms(1) self]])
  then have d: "keys_distinct c_id (cw_containers u)" using assms(3) by (simp add: kept_def cw_tables_def)
  obtain err w where w: "apply_update a rec (pv_target_image p) aid u = (err, w)" by (rule prod.exhaust)
  have "err = None \<and> s2 = w"
    using assms(6) by (cases self)
      (auto simp: handleUpdateContainer_def p self w action_reply_def respondAction_def respondSelfUpdate_def split: if_splits option.splits prod.splits op_error.splits operation_error.splits)
  with w apply_update_done(1)[OF assms(1,2) d i, of "pv_target_image p" aid w] ku rec p(4)
  show ?thesis by (auto simp: kept_def)
qed

section \<open>Bulk update\<close>

text \<open>C36: \<^verbatim>\<open>Update all\<close> ignores the update a check has found. A container that the bulk update reports as
  succeeded was created again from its current image reference, whatever candidates are stored for
  it, and afterwards none is stored any more: the newer version that made the container a target is
  neither installed nor offered until the next check finds it again.\<close>

theorem bulk_update_ignores_candidates:
  assumes "ck_engine (ap_checker a) = logged e" "quiet_images (ck_images (ap_checker a))" "reliable e"
    and "keys_distinct c_id (cw_containers s)" "c_id rec \<noteq> ''''"
    and "bulk_loop a aid [rec] n m s = (Some (Suc n, m), s')"
  shows "(\<exists>new nm i. calls s' = calls s @ new \<and> CallRemove (c_id rec) True \<in> set new
      \<and> CallCreate (c_current_image rec) nm (Some i) \<in> set new)
    \<and> (\<forall>scope. GetUpdateCandidate (c_id rec) scope (cw_candidates s') = None)"
proof -
  obtain err w where w: "apply_update a rec (c_current_image rec) aid s = (err, w)" by (rule prod.exhaust)
  have "err = None" "s' = w" using assms(6) w by (simp_all split: option.splits if_splits)
  then show ?thesis
    using apply_update_done[OF assms(1,2,4,5), of "c_current_image rec" aid w] w assms(1) reliable_logged[OF assms(3)] by simp
qed

section \<open>Examples\<close>

definition demo_api :: "(host logging, unit) api" where
  "demo_api = \<lparr>ap_checker = demo_checker, ap_client = plain_client, ap_hostname = '''', ap_blockers = None,
     ap_shutdown = False, ap_resolve = False\<rparr>"

definition json_post :: http_request where
  "json_post = \<lparr>hr_method = ''POST'', hr_path = '''', hr_headers = [(''Content-Type'', ''application/json'')], hr_cookies = [],
     hr_form = [], hr_trusted = True, hr_tls = False, hr_remote_addr = ''''\<rparr>"

definition offered :: UpdateCandidate where
  "offered = \<lparr>uc_container = ''c1'', uc_scope = ''patch'', uc_image = ''r.example/app:1.2.4'', uc_version = ''1.2.4'', uc_detected = 0\<rparr>"

definition offer_world :: "(host logging, unit) check_world" where
  "offer_world = set_candidates [offered] (demo_check_world [])"

definition demo_row :: ContainerRecord where
  "demo_row = container_record ''c1'' ''web'' '''' ''running'' ''Up'' ''r.example/app:1.2.3'' ''''"

definition demo_preview :: "updatePreview reply \<times> (host logging, unit) check_world" where
  "demo_preview = handlePreviewUpdate demo_api ''web'' ''patch'' offer_world"

definition demo_update_reply :: "unit reply \<times> (host logging, unit) check_world" where
  "demo_update_reply = handleUpdateContainer demo_api json_post ''ann'' ''web'' ''patch'' offer_world"

definition demo_bulk :: "(nat \<times> nat) option \<times> (host logging, unit) check_world" where
  "demo_bulk = bulk_loop demo_api ''ann'' [demo_row] 0 0 offer_world"

lemma demo_api_engine: "ck_engine (ap_checker demo_api) = logged host_engine" "quiet_images (ck_images (ap_checker demo_api))"
  by (simp_all add: demo_api_def demo_checker_def demo_images_def quiet_images_def)

lemma offer_rows: "cw_containers offer_world = [demo_row]" "c_id demo_row = ''c1''"
  by (simp_all add: offer_world_def demo_check_world_def demo_row_def container_record_def)

theorem preview_shows_what_update_does_witness:
  "\<exists>p s1 s2. handlePreviewUpdate demo_api ''web'' ''patch'' offer_world = (Reply 200 p, s1)
    \<and> handleUpdateContainer demo_api json_post ''ann'' ''web'' ''patch'' offer_world = (Reply 200 (), s2)
    \<and> pv_target_image p = ''r.example/app:1.2.4'' \<and> (\<exists>n i. CallCreate ''r.example/app:1.2.4'' n (Some i) \<in> set (calls s2))"
proof -
  have "case fst demo_preview of Reply n p \<Rightarrow> n = 200 \<and> pv_target_image p = ''r.example/app:1.2.4'' | _ \<Rightarrow> False" by code_simp
  then obtain p where p: "handlePreviewUpdate demo_api ''web'' ''patch'' offer_world = (Reply 200 p, snd demo_preview)"
    "pv_target_image p = ''r.example/app:1.2.4''"
    unfolding demo_preview_def by (cases "handlePreviewUpdate demo_api ''web'' ''patch'' offer_world") (auto split: reply.splits)
  have "fst demo_update_reply = Reply 200 ()" by code_simp
  then have u: "handleUpdateContainer demo_api json_post ''ann'' ''web'' ''patch'' offer_world = (Reply 200 (), snd demo_update_reply)"
    unfolding demo_update_reply_def by (metis prod.collapse)
  have k: "keys_distinct c_id (cw_containers offer_world)" "\<forall>row \<in> set (cw_containers offer_world). c_id row \<noteq> ''''"
    by (simp_all add: offer_rows keys_distinct_def)
  from preview_shows_what_update_does[OF demo_api_engine k p(1) u] obtain new n i where
    "calls (snd demo_update_reply) = calls offer_world @ new" "CallCreate (pv_target_image p) n (Some i) \<in> set new" by blast
  then have "CallCreate ''r.example/app:1.2.4'' n (Some i) \<in> set (calls (snd demo_update_reply))" using p(2) by simp
  then show ?thesis using p u by blast
qed

theorem bulk_update_ignores_candidates_witness:
  "GetUpdateCandidate ''c1'' ''patch'' (cw_candidates offer_world) = Some offered
    \<and> (\<exists>nm i. CallCreate ''r.example/app:1.2.3'' nm (Some i) \<in> set (calls (snd demo_bulk)))
    \<and> GetUpdateCandidate ''c1'' ''patch'' (cw_candidates (snd demo_bulk)) = None
    \<and> CallPull ''r.example/app:1.2.4'' True \<notin> set (calls (snd demo_bulk))"
proof -
  have "fst demo_bulk = Some (1, 0)" by code_simp
  then have b: "bulk_loop demo_api ''ann'' [demo_row] 0 0 offer_world = (Some (Suc 0, 0), snd demo_bulk)"
    unfolding demo_bulk_def by (metis One_nat_def prod.collapse)
  have r: "reliable host_engine" by (rule host_reliable(2))
  have k: "keys_distinct c_id (cw_containers offer_world)" "c_id demo_row \<noteq> ''''" by (simp_all add: offer_rows keys_distinct_def)
  have o: "GetUpdateCandidate ''c1'' ''patch'' (cw_candidates offer_world) = Some offered" by code_simp
  have img: "c_current_image demo_row = ''r.example/app:1.2.3''" by (simp add: demo_row_def container_record_def)
  note done_and_cleared = bulk_update_ignores_candidates[OF demo_api_engine r k b, unfolded img offer_rows(2)]
  then obtain new nm i where "calls (snd demo_bulk) = calls offer_world @ new" "CallCreate ''r.example/app:1.2.3'' nm (Some i) \<in> set new" by blast
  then have "CallCreate ''r.example/app:1.2.3'' nm (Some i) \<in> set (calls (snd demo_bulk))" by simp
  moreover have "CallPull ''r.example/app:1.2.4'' True \<notin> set (calls (snd demo_bulk))" by code_simp
  ultimately show ?thesis using o done_and_cleared by blast
qed

end
