(* ===== verification/Schedule_Api.thy ===== *)
theory Schedule_Api
  imports Container_Api
begin

text \<open>
  \<^verbatim>\<open>internal/api/schedules.go\<close>: the handlers that create, list, switch and delete schedules, with the
  pin of the image a one-off schedule applies and the parser of its time, and the daemon as a whole:
  the passes of the scheduler, the check of the registries and the requests, in any order. The body of a
  request is given decoded; the cron library is the parameter \<^verbatim>\<open>next_cron\<close>, as in \<^verbatim>\<open>Scheduler\<close>. An answer
  holds the schedules themselves, where the code converts their times to text.
\<close>

section \<open>Times\<close>

text \<open>The days from 1970-01-01 to a date of the Gregorian calendar.\<close>
definition leap_year :: "int \<Rightarrow> bool" where
  "leap_year y \<longleftrightarrow> y mod 4 = 0 \<and> (y mod 100 \<noteq> 0 \<or> y mod 400 = 0)"

definition month_days :: "int \<Rightarrow> int \<Rightarrow> int" where
  "month_days y m = (if m = 2 then if leap_year y then 29 else 28 else if m \<in> {4, 6, 9, 11} then 30 else 31)"

definition days_before_year :: "int \<Rightarrow> int" where
  "days_before_year y = 365 * y + (y + 3) div 4 - (y + 99) div 100 + (y + 399) div 400"

definition date_days :: "int \<Rightarrow> int \<Rightarrow> int \<Rightarrow> int" where
  "date_days y m d = days_before_year y - days_before_year 1970
     + sum_list (map (\<lambda>i. month_days y (int i)) [1..<nat m]) + d - 1"

text \<open>A number of exactly \<^term>\<open>n\<close> digits.\<close>
definition take_number :: "nat \<Rightarrow> string \<Rightarrow> (int \<times> string) option" where
  "take_number n s =
    (if length s \<ge> n \<and> all_digits (take n s) then Some (digits_val (take n s), drop n s) else None)"

definition take_char :: "char \<Rightarrow> string \<Rightarrow> string option" where
  "take_char c s = (case s of x # r \<Rightarrow> if x = c then Some r else None | [] \<Rightarrow> None)"

text \<open>The hour alone may be a single digit.\<close>
definition take_hour :: "string \<Rightarrow> (int \<times> string) option" where
  "take_hour s = (case take_number 2 s of Some r \<Rightarrow> Some r | None \<Rightarrow> take_number 1 s)"

text \<open>A fraction of a second, in nanoseconds; digits after the ninth are dropped.\<close>
definition take_fraction :: "string \<Rightarrow> int \<times> string" where
  "take_fraction s =
    (case s of
       c # r \<Rightarrow>
         (let ds = takeWhile is_digit r
          in if c \<in> {CHR ''.'', CHR '',''} \<and> ds \<noteq> ''''
             then (digits_val (take 9 (ds @ replicate 9 (CHR ''0''))), dropWhile is_digit r) else (0, s))
     | [] \<Rightarrow> (0, s))"

text \<open>The offset from UTC, in seconds.\<close>
definition take_zone :: "string \<Rightarrow> int option" where
  "take_zone s =
    (if s = ''Z'' then Some 0
     else case s of
       [] \<Rightarrow> None
     | sign # r \<Rightarrow>
         if sign \<notin> {CHR ''+'', CHR ''-''} then None
         else Option.bind (take_number 2 r) (\<lambda>(h, r1). Option.bind (take_char (CHR '':'') r1) (\<lambda>r2.
           Option.bind (take_number 2 r2) (\<lambda>(m, r3).
             if r3 \<noteq> '''' \<or> h > 24 \<or> m > 60 then None
             else Some ((if sign = CHR ''-'' then -1 else 1) * (h * 60 + m) * 60)))))"

text \<open>\<^verbatim>\<open>time.Parse(time.RFC3339, s)\<close>.\<close>
definition ParseTime :: "string \<Rightarrow> time option" where
  "ParseTime s =
    Option.bind (take_number 4 s) (\<lambda>(y, s). Option.bind (take_char (CHR ''-'') s) (\<lambda>s.
    Option.bind (take_number 2 s) (\<lambda>(mo, s). Option.bind (take_char (CHR ''-'') s) (\<lambda>s.
    Option.bind (take_number 2 s) (\<lambda>(d, s). Option.bind (take_char (CHR ''T'') s) (\<lambda>s.
    Option.bind (take_hour s) (\<lambda>(h, s). Option.bind (take_char (CHR '':'') s) (\<lambda>s.
    Option.bind (take_number 2 s) (\<lambda>(mi, s). Option.bind (take_char (CHR '':'') s) (\<lambda>s.
    Option.bind (take_number 2 s) (\<lambda>(sec, s).
      case take_fraction s of
        (frac, zone) \<Rightarrow>
          Option.bind (take_zone zone) (\<lambda>off.
            if mo < 1 \<or> 12 < mo \<or> d < 1 \<or> month_days y mo < d \<or> 24 \<le> h \<or> 60 \<le> mi \<or> 60 \<le> sec then None
            else Some ((((date_days y mo d * 24 + h) * 60 + mi) * 60 + sec - off) * nanos + frac)))))))))))))"

section \<open>Requests\<close>

record scheduleRequest =
  sr_type :: string
  sr_container :: string
  sr_stack :: string
  sr_run_at :: string
  sr_cron :: string
  sr_policy :: string
  sr_after :: string
  sr_semver :: string
  sr_notify :: "bool option"

text \<open>The part before the tag; the colon of a port is no tag.\<close>
definition stripImageTag :: "string \<Rightarrow> string" where
  "stripImageTag img =
    (case cut_last (CHR '':'') img of
       None \<Rightarrow> img
     | Some (base, tag) \<Rightarrow> if CHR ''/'' \<in> set tag then img else base)"

definition pinImage :: "('d, 'h) checker \<Rightarrow> string \<Rightarrow> ('d, 'h) check_world \<Rightarrow> string \<times> ('d, 'h) check_world" where
  "pinImage k currentImage s =
    (if IsDigestReference (ck_valid k) currentImage then (currentImage, s)
     else case on_net (Digest (ck_http k) (ck_env k) (ParseRef currentImage)) s of
       (Inl _, s1) \<Rightarrow> (currentImage, s1)
     | (Inr digest, s1) \<Rightarrow> (stripImageTag currentImage @ ''@'' @ digest, s1))"

definition set_schedules :: "schedule_table \<Rightarrow> ('d, 'h) check_world \<Rightarrow> ('d, 'h) check_world" where
  "set_schedules tbl s = s\<lparr>cw_sched := (cw_sched s)\<lparr>sw_schedules := tbl\<rparr>\<rparr>"

abbreviation cw_schedules :: "('d, 'h) check_world \<Rightarrow> schedule_table" where
  "cw_schedules s \<equiv> sw_schedules (cw_sched s)"

definition k_create :: "('d, 'h) checker \<Rightarrow> Schedule \<Rightarrow> ('d, 'h) check_world \<Rightarrow> int option \<times> ('d, 'h) check_world" where
  "k_create k sc s =
    k_sql k (\<lambda>s'. case CreateSchedule (k_now k s) sc (cw_schedules s') of (i, tbl) \<Rightarrow> (i, set_schedules tbl s')) s"

definition tell :: "string \<Rightarrow> string \<Rightarrow> string \<Rightarrow> ('d, 'h) check_world \<Rightarrow> ('d, 'h) check_world" where
  "tell kind name stack s = set_world (notify kind name stack (cw_world s)) s"

text \<open>A schedule before its kind is known: enabled, with nothing set.\<close>
definition new_schedule :: "bool \<Rightarrow> string \<Rightarrow> Schedule" where
  "new_schedule wanted semver = \<lparr>sc_id = 0, sc_kind = '''', sc_container = '''', sc_stack = '''', sc_run_at = None, sc_cron = '''',
     sc_policy = '''', sc_after = '''', sc_semver = semver, sc_pinned = '''', sc_notify = wanted, sc_enabled = True,
     sc_last_run = None, sc_next_run = None, sc_created = 0\<rparr>"

definition once_schedule :: "Schedule \<Rightarrow> string \<Rightarrow> time \<Rightarrow> string \<Rightarrow> Schedule" where
  "once_schedule sc name runAt pin =
    sc\<lparr>sc_kind := ''once'', sc_container := name, sc_run_at := Some runAt, sc_next_run := Some runAt, sc_pinned := pin\<rparr>"

text \<open>One schedule for each container of a stack; the first failure ends it.\<close>
fun create_members :: "('d, 'h) checker \<Rightarrow> string \<Rightarrow> bool \<Rightarrow> time \<Rightarrow> ContainerRecord list \<Rightarrow> ('d, 'h) check_world \<Rightarrow>
    Schedule list option \<times> ('d, 'h) check_world" where
  "create_members k stack wanted runAt [] s = (Some [], s)"
| "create_members k stack wanted runAt (rec # recs) s =
    (if c_stack rec \<noteq> stack then create_members k stack wanted runAt recs s
     else case pinImage k (c_current_image rec) s of
       (pin, s1) \<Rightarrow>
         (let member = once_schedule (new_schedule wanted '''') (c_name rec) runAt pin
          in case k_create k member s1 of
               (None, s2) \<Rightarrow> (None, s2)
             | (Some i, s2) \<Rightarrow>
                 (case create_members k stack wanted runAt recs s2 of
                    (None, s3) \<Rightarrow> (None, s3)
                  | (Some members, s3) \<Rightarrow> (Some (member\<lparr>sc_id := i\<rparr> # members), s3))))"

type_synonym ('d, 'h) created = "Schedule list reply \<times> ('d, 'h) check_world"

definition create_for_stack :: "('d, 'h) checker \<Rightarrow> string \<Rightarrow> bool \<Rightarrow> time \<Rightarrow> ('d, 'h) check_world \<Rightarrow> ('d, 'h) created" where
  "create_for_stack k stack wanted runAt s =
    (case k_sql k (\<lambda>s. (ListContainers (cw_containers s), s)) s of
       (None, s1) \<Rightarrow> (ErrorReply 500 ''internal_error'', s1)
     | (Some recs, s1) \<Rightarrow>
         (case create_members k stack wanted runAt recs s1 of
            (None, s2) \<Rightarrow> (ErrorReply 500 ''internal_error'', s2)
          | (Some [], s2) \<Rightarrow> (ErrorReply 404 ''not_found'', s2)
          | (Some members, s2) \<Rightarrow> (Reply 201 members, if wanted then tell ''schedule.created'' '''' stack s2 else s2)))"

definition finish_create :: "('d, 'h) checker \<Rightarrow> Schedule \<Rightarrow> ('d, 'h) check_world \<Rightarrow> ('d, 'h) created" where
  "finish_create k sc s =
    (case k_create k sc s of
       (None, s1) \<Rightarrow> (ErrorReply 500 ''internal_error'', s1)
     | (Some i, s1) \<Rightarrow>
         (Reply 201 [sc\<lparr>sc_id := i\<rparr>],
          if sc_notify sc then tell ''schedule.created'' (sc_container sc) (sc_stack sc) s1 else s1))"

abbreviation bad_request :: "'a reply" where
  "bad_request \<equiv> ErrorReply 400 ''invalid_request''"

definition create_once :: "('d, 'h) checker \<Rightarrow> scheduleRequest \<Rightarrow> Schedule \<Rightarrow> ('d, 'h) check_world \<Rightarrow> ('d, 'h) created" where
  "create_once k req sc s =
    (if sr_container req = '''' \<and> sr_stack req = '''' \<or> sr_run_at req = '''' then (bad_request, s)
     else case ParseTime (sr_run_at req) of
       None \<Rightarrow> (bad_request, s)
     | Some runAt \<Rightarrow>
         if runAt < k_now k s then (bad_request, s)
         else if sr_stack req \<noteq> '''' then create_for_stack k (sr_stack req) (sc_notify sc) runAt s
         else (case k_by_name k (sr_container req) s of
            (Inl err, s1) \<Rightarrow> (store_reply err, s1)
          | (Inr rec, s1) \<Rightarrow>
              (case pinImage k (c_current_image rec) s1 of
                 (pin, s2) \<Rightarrow> finish_create k (once_schedule sc (sr_container req) runAt pin) s2)))"

definition create_cron :: "('d, 'h) checker \<Rightarrow> (string \<Rightarrow> time \<Rightarrow> time option) \<Rightarrow> scheduleRequest \<Rightarrow> Schedule \<Rightarrow> ('d, 'h) check_world \<Rightarrow> ('d, 'h) created" where
  "create_cron k next_cron req sc s =
    (if sr_cron req = '''' \<or> sr_container req = '''' \<and> sr_stack req = '''' then (bad_request, s)
     else case next_cron (sr_cron req) (k_now k s) of
       None \<Rightarrow> (bad_request, s)
     | Some t \<Rightarrow>
         finish_create k (sc\<lparr>sc_kind := ''cron'', sc_container := sr_container req, sc_stack := sr_stack req,
           sc_cron := sr_cron req, sc_next_run := Some t\<rparr>) s)"

definition create_relative :: "('d, 'h) checker \<Rightarrow> scheduleRequest \<Rightarrow> Schedule \<Rightarrow> ('d, 'h) check_world \<Rightarrow> ('d, 'h) created" where
  "create_relative k req sc s =
    (if sr_policy req \<noteq> ''immediate'' \<and> sr_policy req \<noteq> ''delayed'' then (bad_request, s)
     else if sr_container req = '''' \<and> sr_stack req = '''' then (bad_request, s)
     else if sr_policy req = ''delayed'' \<and> (case ParseDuration (sr_after req) of None \<Rightarrow> True | Some d \<Rightarrow> d \<le> 0) then (bad_request, s)
     else finish_create k (sc\<lparr>sc_kind := ''relative'', sc_container := sr_container req, sc_stack := sr_stack req,
         sc_policy := sr_policy req, sc_after := sr_after req\<rparr>) s)"

definition handleCreateSchedule :: "('d, 'h) checker \<Rightarrow> (string \<Rightarrow> time \<Rightarrow> time option) \<Rightarrow> scheduleRequest option \<Rightarrow> ('d, 'h) check_world \<Rightarrow> ('d, 'h) created" where
  "handleCreateSchedule k next_cron body s =
    (case body of
       None \<Rightarrow> (bad_request, s)
     | Some req \<Rightarrow>
         (let wanted = (case sr_notify req of None \<Rightarrow> True | Some b \<Rightarrow> b);
              semver = (if sr_semver req = '''' then ''major'' else sr_semver req);
              sc = new_schedule wanted semver
          in if semver \<noteq> ''patch'' \<and> semver \<noteq> ''minor'' \<and> semver \<noteq> ''major'' then (bad_request, s)
             else if sr_type req = ''once'' then create_once k req sc s
             else if sr_type req = ''cron'' then create_cron k next_cron req sc s
             else if sr_type req = ''relative'' then create_relative k req sc s
             else (bad_request, s)))"

definition handleListSchedules :: "('d, 'h) checker \<Rightarrow> ('d, 'h) check_world \<Rightarrow> ('d, 'h) created" where
  "handleListSchedules k s =
    (case k_sql k (\<lambda>s. (ListSchedules (cw_schedules s), s)) s of
       (None, s1) \<Rightarrow> (ErrorReply 500 ''internal_error'', s1) | (Some scs, s1) \<Rightarrow> (Reply 200 scs, s1))"

definition k_get :: "('d, 'h) checker \<Rightarrow> int \<Rightarrow> ('d, 'h) check_world \<Rightarrow> (db_error, Schedule) result \<times> ('d, 'h) check_world" where
  "k_get k i s =
    (case k_sql k (\<lambda>s. (GetSchedule i (cw_schedules s), s)) s of
       (None, s1) \<Rightarrow> (Inl DbFailed, s1)
     | (Some (Inl err), s1) \<Rightarrow> (Inl (DbError err), s1)
     | (Some (Inr sc), s1) \<Rightarrow> (Inr sc, s1))"

text \<open>A statement on the schedules that may find no row.\<close>
definition k_change :: "('d, 'h) checker \<Rightarrow> (schedule_table \<Rightarrow> store_error option \<times> schedule_table) \<Rightarrow> ('d, 'h) check_world \<Rightarrow>
    db_error option \<times> ('d, 'h) check_world" where
  "k_change k f s =
    (case k_sql k (\<lambda>s'. case f (cw_schedules s') of (err, tbl) \<Rightarrow> (err, set_schedules tbl s')) s of
       (None, s1) \<Rightarrow> (Some DbFailed, s1) | (Some err, s1) \<Rightarrow> (map_option DbError err, s1))"

text \<open>The body is the value of \<^verbatim>\<open>enabled\<close>, when it decodes and has one.\<close>
definition handleUpdateSchedule :: "('d, 'h) checker \<Rightarrow> string \<Rightarrow> bool option option \<Rightarrow> ('d, 'h) check_world \<Rightarrow> unit reply \<times> ('d, 'h) check_world" where
  "handleUpdateSchedule k path body s =
    (case Atoi path of
       None \<Rightarrow> (bad_request, s)
     | Some i \<Rightarrow>
         (case body of
            Some (Some b) \<Rightarrow>
              (case k_get k i s of
                 (Inl err, s1) \<Rightarrow> (store_reply err, s1)
               | (Inr old, s1) \<Rightarrow>
                   if Completed old then (ErrorReply 409 ''schedule_completed'', s1)
                   else (case k_change k (SetScheduleEnabled i b) s1 of
                      (Some err, s2) \<Rightarrow> (store_reply err, s2)
                    | (None, s2) \<Rightarrow>
                        (case k_get k i s2 of
                           (Inr sc, s3) \<Rightarrow>
                             (Reply 200 (), if sc_notify sc then tell ''schedule.modified'' (sc_container sc) (sc_stack sc) s3 else s3)
                         | (Inl _, s3) \<Rightarrow> (Reply 200 (), s3))))
          | _ \<Rightarrow> (bad_request, s)))"

definition handleDeleteSchedule :: "('d, 'h) checker \<Rightarrow> string \<Rightarrow> ('d, 'h) check_world \<Rightarrow> unit reply \<times> ('d, 'h) check_world" where
  "handleDeleteSchedule k path s =
    (case Atoi path of
       None \<Rightarrow> (bad_request, s)
     | Some i \<Rightarrow>
         (case k_get k i s of
            (found, s1) \<Rightarrow>
              (case k_change k (DeleteSchedule i) s1 of
                 (Some err, s2) \<Rightarrow> (store_reply err, s2)
               | (None, s2) \<Rightarrow>
                   (Reply 200 (),
                    case found of
                      Inr sc \<Rightarrow> if sc_notify sc \<and> \<not> Completed sc then tell ''schedule.cancelled'' (sc_container sc) (sc_stack sc) s2 else s2
                    | Inl _ \<Rightarrow> s2))))"

section \<open>What a request does to the schedules\<close>

text \<open>The rows \<^term>\<open>rows\<close>, with fresh numbers, are all that was added; nothing was asked of the updater.\<close>
definition added_rows :: "('d, 'h) check_world \<Rightarrow> ('d, 'h) check_world \<Rightarrow> Schedule list \<Rightarrow> bool" where
  "added_rows s s' rows \<longleftrightarrow> cw_containers s' = cw_containers s \<and> sw_requests (cw_sched s') = sw_requests (cw_sched s)
    \<and> cw_schedules s' = \<lparr>st_rows = st_rows (cw_schedules s) @ rows, st_seq = st_seq (cw_schedules s) + int (length rows)\<rparr>
    \<and> map sc_id rows = map (\<lambda>j. st_seq (cw_schedules s) + 1 + int j) [0..<length rows]"

lemma added_rows_refl [simp]: "added_rows s s []"
  by (simp add: added_rows_def)

lemma added_rows_trans:
  assumes "added_rows s t r1" "added_rows t u r2"
  shows "added_rows s u (r1 @ r2)"
proof -
  have "map (\<lambda>j. st_seq (cw_schedules s) + int (length r1) + 1 + int j) [0..<length r2]
      = map (\<lambda>j. st_seq (cw_schedules s) + 1 + int j) [length r1..<length r1 + length r2]"
    by (rule nth_equalityI) simp_all
  then show ?thesis using assms by (auto simp: added_rows_def upt_add_eq_append[of 0 "length r1" "length r2", simplified])
qed

lemma added_none_iff:
  "added_rows s s' [] \<longleftrightarrow> cw_containers s' = cw_containers s \<and> sw_requests (cw_sched s') = sw_requests (cw_sched s)
    \<and> cw_schedules s' = cw_schedules s"
  by (auto simp: added_rows_def)

lemma added_none_tables: "cw_tables s' = cw_tables s \<Longrightarrow> added_rows s s' []"
  by (simp add: added_none_iff cw_tables_def)

lemma added_read: "k_sql k (\<lambda>s. (g s, s)) s = (r, s') \<Longrightarrow> added_rows s s' []"
  by (rule added_none_tables[OF k_sql_read_tables])

lemma added_tell [simp]: "added_rows s (tell kind name stack t) rows \<longleftrightarrow> added_rows s t rows"
  by (simp add: added_rows_def tell_def notify_def)

lemma added_by_name: "k_by_name k name s = (r, s') \<Longrightarrow> added_rows s s' []"
proof -
  obtain a t where q: "k_sql k (\<lambda>s. (GetContainerByName name (cw_containers s), s)) s = (a, t)" by (rule prod.exhaust)
  assume "k_by_name k name s = (r, s')"
  then have "s' = t" unfolding k_by_name_def q by (auto split: option.splits sum.splits)
  then show ?thesis using added_read[OF q] by simp
qed

lemma added_pin: "pinImage k img s = (pin, s') \<Longrightarrow> added_rows s s' []"
  by (auto simp: pinImage_def intro: added_none_tables dest: on_net_tables split: if_splits prod.splits sum.splits)

lemma k_create_effect:
  assumes "k_create k sc s = (r, s')"
  obtains "r = None" "added_rows s s' []"
  | i t where "r = Some i" "i = st_seq (cw_schedules s) + 1" "added_rows s s' [sc\<lparr>sc_id := i, sc_last_run := None, sc_created := t\<rparr>]"
  using assms unfolding k_create_def
proof (cases rule: k_sql_cases)
  case (failed d)
  then show ?thesis using that(1) by (simp add: added_none_iff)
next
  case (ok d i)
  then have "i = st_seq (cw_schedules s) + 1"
    "added_rows s s' [sc\<lparr>sc_id := i, sc_last_run := None, sc_created := k_now k s\<rparr>]"
    by (auto simp: CreateSchedule_def Let_def set_schedules_def added_rows_def)
  then show ?thesis using that(2) ok(1) by blast
qed

text \<open>The image a pin stands for: the image itself, or the digest a registry gave for its tag.\<close>
definition pinned_to :: "('d, 'h) checker \<Rightarrow> string \<Rightarrow> string \<Rightarrow> bool" where
  "pinned_to k img pin \<longleftrightarrow> pin = img
    \<or> (\<exists>h digest. fst (Digest (ck_http k) (ck_env k) (ParseRef img) h) = Inr digest \<and> pin = stripImageTag img @ ''@'' @ digest)"

lemma pinImage_pinned:
  assumes "pinImage k img s = (pin, s')"
  shows "pinned_to k img pin"
proof -
  obtain r h where d: "Digest (ck_http k) (ck_env k) (ParseRef img) (cw_net s) = (r, h)" by (rule prod.exhaust)
  have "pin = (if IsDigestReference (ck_valid k) img then img else case r of Inl _ \<Rightarrow> img | Inr digest \<Rightarrow> stripImageTag img @ ''@'' @ digest)"
    using assms by (auto simp: pinImage_def on_net_def d split: sum.splits if_splits)
  moreover have "fst (Digest (ck_http k) (ck_env k) (ParseRef img) (cw_net s)) = r" by (simp add: d)
  ultimately show ?thesis unfolding pinned_to_def by (cases r) auto
qed

definition named :: "string \<Rightarrow> string \<Rightarrow> bool" where
  "named container stack \<longleftrightarrow> container \<noteq> '''' \<or> stack \<noteq> ''''"

text \<open>A schedule that the scheduler can carry out as it was asked for.\<close>
definition sound_schedule :: "('d, 'h) checker \<Rightarrow> (string \<Rightarrow> time \<Rightarrow> time option) \<Rightarrow> time \<Rightarrow> container_table \<Rightarrow> Schedule \<Rightarrow> bool" where
  "sound_schedule k next_cron t tbl sc \<longleftrightarrow> sc_enabled sc \<and> sc_last_run sc = None
    \<and> (sc_kind sc = ''once'' \<and> (\<exists>at rec. sc_run_at sc = Some at \<and> sc_next_run sc = Some at \<and> t \<le> at \<and> rec \<in> set tbl
            \<and> sc_container sc = c_name rec \<and> pinned_to k (c_current_image rec) (sc_pinned sc))
       \<or> sc_kind sc = ''cron'' \<and> named (sc_container sc) (sc_stack sc) \<and> sc_next_run sc \<noteq> None
            \<and> sc_next_run sc = next_cron (sc_cron sc) t
       \<or> sc_kind sc = ''relative'' \<and> named (sc_container sc) (sc_stack sc)
            \<and> (sc_policy sc = ''immediate'' \<or> sc_policy sc = ''delayed'' \<and> (\<exists>d > 0. ParseDuration (sc_after sc) = Some d)))"

lemma sound_ids [simp]:
  "sound_schedule k nc t tbl (sc\<lparr>sc_id := i\<rparr>) = sound_schedule k nc t tbl sc"
  "sound_schedule k nc t tbl (sc\<lparr>sc_created := c\<rparr>) = sound_schedule k nc t tbl sc"
  by (simp_all add: sound_schedule_def)

text \<open>The schedules of the first containers of a stack, but not of all.\<close>
definition members_of :: "string \<Rightarrow> container_table \<Rightarrow> ContainerRecord list" where
  "members_of stack tbl = filter (\<lambda>rec. c_stack rec = stack) (ListContainers tbl)"

definition stack_begun :: "('d, 'h) checker \<Rightarrow> (string \<Rightarrow> time \<Rightarrow> time option) \<Rightarrow> time \<Rightarrow> container_table \<Rightarrow> string \<Rightarrow> Schedule list \<Rightarrow> bool" where
  "stack_begun k next_cron t tbl stack rows \<longleftrightarrow> stack \<noteq> '''' \<and> length rows < length (members_of stack tbl)
    \<and> map sc_container rows = take (length rows) (map c_name (members_of stack tbl))
    \<and> (\<forall>row \<in> set rows. sc_kind row = ''once'' \<and> sound_schedule k next_cron t tbl row)"

text \<open>What a request to create has done; \<^term>\<open>stack\<close> is the one it names.\<close>
definition create_effect :: "('d, 'h) checker \<Rightarrow> (string \<Rightarrow> time \<Rightarrow> time option) \<Rightarrow> time \<Rightarrow> string \<Rightarrow> ('d, 'h) check_world \<Rightarrow> Schedule list reply \<Rightarrow> ('d, 'h) check_world \<Rightarrow> bool" where
  "create_effect k next_cron t stack s r s' \<longleftrightarrow>
    (\<exists>rows. added_rows s s' rows
      \<and> (case r of
           Reply code scs \<Rightarrow> code = 201 \<and> scs \<noteq> [] \<and> map (\<lambda>row. row\<lparr>sc_created := 0\<rparr>) rows = scs
             \<and> (keys_distinct c_id (cw_containers s) \<longrightarrow> list_all (sound_schedule k next_cron t (cw_containers s)) scs)
         | ErrorReply code _ \<Rightarrow> rows = [] \<or> code = 500 \<and> stack_begun k next_cron t (cw_containers s) stack rows
         | _ \<Rightarrow> False))"

lemma create_members_effect:
  assumes "create_members k stack wanted at recs s = (r, s')" "set recs \<subseteq> set (cw_containers s)" "t \<le> at"
  shows "\<exists>rows. added_rows s s' rows
    \<and> (case r of None \<Rightarrow> length rows < length (filter (\<lambda>rec. c_stack rec = stack) recs)
       | Some scs \<Rightarrow> map (\<lambda>row. row\<lparr>sc_created := 0\<rparr>) rows = scs \<and> list_all (sound_schedule k nc t (cw_containers s)) scs)
    \<and> map sc_container rows = take (length rows) (map c_name (filter (\<lambda>rec. c_stack rec = stack) recs))
    \<and> (\<forall>row \<in> set rows. sc_kind row = ''once'' \<and> sound_schedule k nc t (cw_containers s) row)"
  using assms(1,2)
proof (induction recs arbitrary: s r s')
  case (Cons rec recs)
  show ?case
  proof (cases "c_stack rec = stack")
    case False
    then have f: "filter (\<lambda>rec. c_stack rec = stack) (rec # recs) = filter (\<lambda>rec. c_stack rec = stack) recs" by simp
    show ?thesis unfolding f by (rule Cons.IH) (use Cons.prems False in simp_all)
  next
    case True
    obtain pin s1 where p: "pinImage k (c_current_image rec) s = (pin, s1)" by (rule prod.exhaust)
    let ?m = "once_schedule (new_schedule wanted '''') (c_name rec) at pin"
    obtain c s2 where c: "k_create k ?m s1 = (c, s2)" by (rule prod.exhaust)
    have sound: "sound_schedule k nc t (cw_containers s) ?m"
      using Cons.prems(2) pinImage_pinned[OF p] assms(3) by (auto simp: sound_schedule_def once_schedule_def new_schedule_def)
    note s1 = added_pin[OF p]
    from c show ?thesis
    proof (cases rule: k_create_effect)
      case 1
      then show ?thesis using Cons.prems(1) True p c added_rows_trans[OF s1 1(2)] by (auto simp: Let_def)
    next
      case (2 i u)
      let ?row = "?m\<lparr>sc_id := i, sc_last_run := None, sc_created := u\<rparr>"
      obtain ms s3 where ms: "create_members k stack wanted at recs s2 = (ms, s3)" by (rule prod.exhaust)
      have cs: "cw_containers s2 = cw_containers s" using s1 2(3) by (simp add: added_rows_def)
      from Cons.IH[OF ms, unfolded cs] Cons.prems(2) obtain rows where rows: "added_rows s2 s3 rows"
        "case ms of None \<Rightarrow> length rows < length (filter (\<lambda>rec. c_stack rec = stack) recs)
          | Some scs \<Rightarrow> map (\<lambda>row. row\<lparr>sc_created := 0\<rparr>) rows = scs \<and> list_all (sound_schedule k nc t (cw_containers s)) scs"
        "map sc_container rows = take (length rows) (map c_name (filter (\<lambda>rec. c_stack rec = stack) recs))"
        "\<forall>row \<in> set rows. sc_kind row = ''once'' \<and> sound_schedule k nc t (cw_containers s) row" by auto
      have a: "added_rows s s3 (?row # rows)"
        using added_rows_trans[OF added_rows_trans[OF s1 2(3)] rows(1)] by simp
      have "s' = s3 \<and> r = (case ms of None \<Rightarrow> None | Some ms \<Rightarrow> Some (?m\<lparr>sc_id := i\<rparr> # ms))"
        using Cons.prems(1) True p c 2(1) ms by (auto simp: Let_def split: option.splits)
      then have r: "s' = s3" "r = map_option (\<lambda>ms. ?m\<lparr>sc_id := i\<rparr> # ms) ms" by (simp_all split: option.splits)
      have row: "?row\<lparr>sc_created := 0\<rparr> = ?m\<lparr>sc_id := i\<rparr>" by (simp add: once_schedule_def new_schedule_def)
      have "case r of None \<Rightarrow> length (?row # rows) < length (filter (\<lambda>rec. c_stack rec = stack) (rec # recs))
          | Some scs \<Rightarrow> map (\<lambda>row. row\<lparr>sc_created := 0\<rparr>) (?row # rows) = scs \<and> list_all (sound_schedule k nc t (cw_containers s)) scs"
        using rows(2) sound True unfolding r(2) list.map row by (cases ms) simp_all
      moreover have "sc_kind ?row = ''once''" "sc_container ?row = c_name rec" by (simp_all add: once_schedule_def)
      moreover have "sound_schedule k nc t (cw_containers s) ?row"
        using sound by (simp add: sound_schedule_def)
      ultimately have "(case r of None \<Rightarrow> length (?row # rows) < length (filter (\<lambda>rec. c_stack rec = stack) (rec # recs))
          | Some scs \<Rightarrow> map (\<lambda>row. row\<lparr>sc_created := 0\<rparr>) (?row # rows) = scs \<and> list_all (sound_schedule k nc t (cw_containers s)) scs)
        \<and> map sc_container (?row # rows) = take (length (?row # rows)) (map c_name (filter (\<lambda>rec. c_stack rec = stack) (rec # recs)))
        \<and> (\<forall>row \<in> set (?row # rows). sc_kind row = ''once'' \<and> sound_schedule k nc t (cw_containers s) row)"
        using rows(3,4) True by simp
      then show ?thesis using a unfolding r(1) by blast
    qed
  qed
qed (auto intro: exI[of _ "[]"])

lemma create_effect_error: "added_rows s s' [] \<Longrightarrow> create_effect k nc t stack s (ErrorReply code c) s'"
  by (auto simp: create_effect_def)

lemma create_effect_store: "added_rows s s' [] \<Longrightarrow> create_effect k nc t stack s (store_reply err) s'"
  by (auto simp: create_effect_def store_reply_def intro: exI[of _ "[]"])

lemma finish_create_effect:
  assumes "finish_create k sc s = (r, s')" "added_rows s0 s []" "keys_distinct c_id (cw_containers s0) \<longrightarrow> sound_schedule k nc t (cw_containers s0) sc"
    and "sc_created sc = 0" "sc_last_run sc = None"
  shows "create_effect k nc t stack s0 r s'"
proof -
  obtain c s1 where c: "k_create k sc s = (c, s1)" by (rule prod.exhaust)
  from c show ?thesis
  proof (cases rule: k_create_effect)
    case 1
    then have "r = ErrorReply 500 ''internal_error''" "s' = s1" using assms(1) c by (simp_all add: finish_create_def)
    then show ?thesis using added_rows_trans[OF assms(2) 1(2)] by (simp add: create_effect_error)
  next
    case (2 i u)
    let ?row = "sc\<lparr>sc_id := i, sc_last_run := None, sc_created := u\<rparr>"
    have r: "r = Reply 201 [sc\<lparr>sc_id := i\<rparr>]" and s': "s' = (if sc_notify sc then tell ''schedule.created'' (sc_container sc) (sc_stack sc) s1 else s1)"
      using assms(1) c 2(1) by (simp_all add: finish_create_def)
    have "added_rows s0 s' [?row]" using added_rows_trans[OF assms(2) 2(3)] unfolding s' by (cases "sc_notify sc") simp_all
    moreover have "?row\<lparr>sc_created := 0\<rparr> = sc\<lparr>sc_id := i\<rparr>"
      using assms(4,5) by (cases sc) simp
    ultimately show ?thesis unfolding create_effect_def r by (intro exI[of _ "[?row]"]) (simp add: assms(3))
  qed
qed

lemma create_for_stack_effect:
  assumes "create_for_stack k stack wanted at s = (r, s')" "t \<le> at" "stack \<noteq> ''''"
  shows "create_effect k nc t stack s r s'"
proof -
  obtain a s1 where q: "k_sql k (\<lambda>s. (ListContainers (cw_containers s), s)) s = (a, s1)" by (rule prod.exhaust)
  note s1 = added_read[OF q]
  show ?thesis
  proof (cases a)
    case None
    then show ?thesis using assms(1) q s1 by (auto simp: create_for_stack_def intro!: create_effect_error)
  next
    case (Some recs)
    from q have listed: "recs = ListContainers (cw_containers s)" by (cases rule: k_sql_cases) (use Some in auto)
    then have recs: "set recs \<subseteq> set (cw_containers s1)" using s1 by (simp add: ListContainers_def added_none_iff)
    obtain ms s2 where ms: "create_members k stack wanted at recs s1 = (ms, s2)" by (rule prod.exhaust)
    have cs: "cw_containers s1 = cw_containers s" using s1 by (simp add: added_none_iff)
    from create_members_effect[OF ms recs assms(2), of nc, unfolded cs] obtain rows where rows: "added_rows s1 s2 rows"
      "case ms of None \<Rightarrow> length rows < length (filter (\<lambda>rec. c_stack rec = stack) recs)
        | Some scs \<Rightarrow> map (\<lambda>row. row\<lparr>sc_created := 0\<rparr>) rows = scs \<and> list_all (sound_schedule k nc t (cw_containers s)) scs"
      "map sc_container rows = take (length rows) (map c_name (filter (\<lambda>rec. c_stack rec = stack) recs))"
      "\<forall>row \<in> set rows. sc_kind row = ''once'' \<and> sound_schedule k nc t (cw_containers s) row" by blast
    have a: "added_rows s s2 rows" using added_rows_trans[OF s1 rows(1)] by simp
    show ?thesis
    proof (cases ms)
      case None
      then have "r = ErrorReply 500 ''internal_error''" "s' = s2" using assms(1) q Some ms by (simp_all add: create_for_stack_def)
      moreover have "stack_begun k nc t (cw_containers s) stack rows"
        using rows(2-4) None assms(3) by (simp add: stack_begun_def members_of_def listed)
      ultimately show ?thesis using a by (auto simp: create_effect_def)
    next
      case (Some scs)
      show ?thesis
      proof (cases scs)
        case Nil
        then have "r = ErrorReply 404 ''not_found''" "s' = s2" "rows = []"
          using assms(1) q \<open>a = _\<close> ms Some rows(2) by (simp_all add: create_for_stack_def)
        then show ?thesis using a by (simp add: create_effect_error)
      next
        case (Cons sc0 scs')
        then have "r = Reply 201 scs" "s' = (if wanted then tell ''schedule.created'' '''' stack s2 else s2)"
          using assms(1) q \<open>a = _\<close> ms Some by (simp_all add: create_for_stack_def)
        then show ?thesis using a rows(2) Some Cons unfolding create_effect_def by (intro exI[of _ rows]) auto
      qed
    qed
  qed
qed

lemma create_once_effect:
  assumes "create_once k req sc s = (r, s')" "sc = new_schedule wanted semver"
  shows "create_effect k nc (k_now k s) (sr_stack req) s r s'"
proof (cases "(sr_container req = '''' \<and> sr_stack req = '''') \<or> sr_run_at req = '''' \<or> ParseTime (sr_run_at req) = None
    \<or> the (ParseTime (sr_run_at req)) < k_now k s")
  case True
  then have "r = bad_request" "s' = s" using assms(1) by (auto simp: create_once_def split: if_splits option.splits)
  then show ?thesis by (simp add: create_effect_error)
next
  case asked: False
  then obtain at where at: "ParseTime (sr_run_at req) = Some at" "k_now k s \<le> at" by auto
  show ?thesis
  proof (cases "sr_stack req = ''''")
    case False
    then have "create_for_stack k (sr_stack req) (sc_notify sc) at s = (r, s')"
      using assms(1) at asked by (auto simp: create_once_def)
    then show ?thesis by (rule create_for_stack_effect[OF _ at(2) False])
  next
    case True
    obtain got s1 where n: "k_by_name k (sr_container req) s = (got, s1)" by (rule prod.exhaust)
    note s1 = added_by_name[OF n]
    show ?thesis
    proof (cases got)
      case (Inl err)
      then have "r = store_reply err" "s' = s1" using assms(1) at n True asked by (auto simp: create_once_def)
      then show ?thesis using s1 by (simp add: create_effect_store)
    next
      case (Inr rec)
      obtain pin s2 where p: "pinImage k (c_current_image rec) s1 = (pin, s2)" by (rule prod.exhaust)
      have f: "finish_create k (once_schedule sc (sr_container req) at pin) s2 = (r, s')"
        using assms(1) at n Inr True p asked by (auto simp: create_once_def)
      obtain b t where q: "k_sql k (\<lambda>s. (GetContainerByName (sr_container req) (cw_containers s), s)) s = (b, t)" by (rule prod.exhaust)
      then have "b = Some (Inr rec)" using n Inr unfolding k_by_name_def q by (auto split: option.splits sum.splits)
      with q have "GetContainerByName (sr_container req) (cw_containers s) = Inr rec" by (cases rule: k_sql_cases) auto
      then have rec: "rec \<in> set (cw_containers s) \<and> c_name rec = sr_container req" if "keys_distinct c_id (cw_containers s)"
        using GetContainerByName_row that by blast
      have "keys_distinct c_id (cw_containers s) \<longrightarrow> sound_schedule k nc (k_now k s) (cw_containers s) (once_schedule sc (sr_container req) at pin)"
        unfolding sound_schedule_def
        using rec at(2) pinImage_pinned[OF p] assms(2) by (auto simp: once_schedule_def new_schedule_def)
      then show ?thesis
        using finish_create_effect[OF f added_rows_trans[OF s1 added_pin[OF p], simplified]] assms(2)
        by (simp add: once_schedule_def new_schedule_def)
    qed
  qed
qed

lemma handleCreateSchedule_effect:
  assumes "handleCreateSchedule k nc body s = (r, s')"
  shows "create_effect k nc (k_now k s) (case body of None \<Rightarrow> '''' | Some req \<Rightarrow> sr_stack req) s r s'"
proof -
  have bad: "create_effect k nc (k_now k s) stack s bad_request s" for stack by (simp add: create_effect_error)
  show ?thesis
  proof (cases body)
    case None
    then show ?thesis using assms bad by (simp add: handleCreateSchedule_def)
  next
    case (Some req)
    define sc where "sc = new_schedule (case sr_notify req of None \<Rightarrow> True | Some b \<Rightarrow> b) (if sr_semver req = '''' then ''major'' else sr_semver req)"
    have "(r, s') \<in> {(bad_request, s), create_once k req sc s, create_cron k nc req sc s, create_relative k req sc s}"
      unfolding assms[symmetric] handleCreateSchedule_def Some option.case Let_def sc_def[symmetric] by simp
    then consider "r = bad_request" "s' = s" | "create_once k req sc s = (r, s')" | "create_cron k nc req sc s = (r, s')"
      | "create_relative k req sc s = (r, s')" by (metis insert_iff singletonD prod.inject)
    then show ?thesis
    proof cases
      case 1
      then show ?thesis using bad by simp
    next
      case 2
      then show ?thesis unfolding Some option.case by (rule create_once_effect[OF _ sc_def])
    next
      case 3
      show ?thesis
      proof (cases "r = bad_request \<and> s' = s")
        case True
        then show ?thesis using bad by simp
      next
        case False
        then obtain t where t: "nc (sr_cron req) (k_now k s) = Some t" "sr_container req \<noteq> '''' \<or> sr_stack req \<noteq> ''''"
          "finish_create k (sc\<lparr>sc_kind := ''cron'', sc_container := sr_container req, sc_stack := sr_stack req,
             sc_cron := sr_cron req, sc_next_run := Some t\<rparr>) s = (r, s')"
          using 3 by (auto simp: create_cron_def split: if_splits option.splits)
        show ?thesis
          by (rule finish_create_effect[OF t(3) added_rows_refl]) (use t in \<open>auto simp: sound_schedule_def named_def sc_def new_schedule_def\<close>)
      qed
    next
      case 4
      let ?slow = "sr_policy req = ''delayed'' \<and> (case ParseDuration (sr_after req) of None \<Rightarrow> True | Some d \<Rightarrow> d \<le> 0)"
      show ?thesis
      proof (cases "sr_policy req \<noteq> ''immediate'' \<and> sr_policy req \<noteq> ''delayed'' \<or> sr_container req = '''' \<and> sr_stack req = '''' \<or> ?slow")
        case True
        then have "create_relative k req sc s = (bad_request, s)" unfolding create_relative_def by presburger
        then have "r = bad_request \<and> s' = s" using 4 by simp
        then show ?thesis using bad by simp
      next
        case False
        then have t: "sr_policy req = ''immediate'' \<or> sr_policy req = ''delayed''" "sr_container req \<noteq> '''' \<or> sr_stack req \<noteq> ''''"
          "sr_policy req = ''delayed'' \<longrightarrow> (\<exists>d > 0. ParseDuration (sr_after req) = Some d)"
          "finish_create k (sc\<lparr>sc_kind := ''relative'', sc_container := sr_container req, sc_stack := sr_stack req,
             sc_policy := sr_policy req, sc_after := sr_after req\<rparr>) s = (r, s')"
          using 4 unfolding create_relative_def by (auto split: option.splits)
        show ?thesis
          by (rule finish_create_effect[OF t(4) added_rows_refl]) (use t(1-3) in \<open>auto simp: sound_schedule_def named_def sc_def new_schedule_def\<close>)
      qed
    qed
  qed
qed

text \<open>C20: A request to create a schedule adds sound schedules only. When it is answered with
  schedules, they are all that was added to the table, each with a fresh number and enabled, and each can be
  carried out: a one-off has a time that is not past and is pinned to the image of an existing container,
  or to the digest a registry gave for it; a cron schedule has the next time of its expression; a
  delayed policy has a positive delay. When it is refused, the table is as before; only when the database fails in the middle of a
  request for a stack, which is answered with status 500, one-offs stay that are sound and are those of the
  stack's first containers, in order, but not of all.\<close>

theorem create_schedule_sound:
  assumes "handleCreateSchedule k next_cron body s = (r, s')" "keys_distinct c_id (cw_containers s)"
  shows "case r of
      Reply code scs \<Rightarrow> code = 201 \<and> scs \<noteq> [] \<and> (\<forall>sc \<in> set scs. sound_schedule k next_cron (k_now k s) (cw_containers s) sc)
        \<and> (\<exists>rows. st_rows (cw_schedules s') = st_rows (cw_schedules s) @ rows \<and> map (\<lambda>row. row\<lparr>sc_created := 0\<rparr>) rows = scs
            \<and> map sc_id rows = map (\<lambda>j. st_seq (cw_schedules s) + 1 + int j) [0..<length rows])
    | ErrorReply code _ \<Rightarrow> cw_schedules s' = cw_schedules s
        \<or> code = 500 \<and> (\<exists>req rows. body = Some req \<and> stack_begun k next_cron (k_now k s) (cw_containers s) (sr_stack req) rows
            \<and> st_rows (cw_schedules s') = st_rows (cw_schedules s) @ rows
            \<and> map sc_id rows = map (\<lambda>j. st_seq (cw_schedules s) + 1 + int j) [0..<length rows])
    | _ \<Rightarrow> False"
  using handleCreateSchedule_effect[OF assms(1)] assms(2) unfolding create_effect_def
  by (cases r; cases body) (auto simp: added_rows_def list_all_iff stack_begun_def)

section \<open>The daemon\<close>

text \<open>The schedules and the requests of updates are as before.\<close>
definition same_schedules :: "('d, 'h) check_world \<Rightarrow> ('d, 'h) check_world \<Rightarrow> bool" where
  "same_schedules s s' \<longleftrightarrow> cw_schedules s' = cw_schedules s \<and> sw_requests (cw_sched s') = sw_requests (cw_sched s)"

lemma same_schedules_refl [simp]: "same_schedules s s"
  by (simp add: same_schedules_def)

lemma same_schedules_trans [trans]: "same_schedules s t \<Longrightarrow> same_schedules t u \<Longrightarrow> same_schedules s u"
  by (simp add: same_schedules_def)

lemma same_tables_schedules: "cw_tables s' = cw_tables s \<Longrightarrow> same_schedules s s'"
  by (simp add: same_schedules_def cw_tables_def)

lemma k_sql_schedules:
  assumes "k_sql k f s = (r, s')" "\<And>t. same_schedules t (snd (f t))"
  shows "same_schedules s s'"
  using assms(1)
proof (cases rule: k_sql_cases)
  case (failed d)
  then show ?thesis by (simp add: same_schedules_def)
next
  case (ok d a)
  then show ?thesis using assms(2)[of "set_world ((cw_world s)\<lparr>wd_env := d\<rparr>) s"] by (simp add: same_schedules_def)
qed

lemma k_try_schedules:
  assumes "\<And>t. same_schedules t (f t)"
  shows "same_schedules s (k_try k ev f s)"
proof -
  obtain a t where q: "k_sql k (\<lambda>s'. ((), f s')) s = (a, t)" by (rule prod.exhaust)
  have "same_schedules s t" by (rule k_sql_schedules[OF q]) (simp add: assms)
  then show ?thesis unfolding k_try_def q
    using same_schedules_trans[OF _ same_tables_schedules[OF k_emit_tables]] by (auto split: option.splits)
qed

lemma set_tables_schedules [simp]:
  "same_schedules s (set_containers tbl s)" "same_schedules s (set_candidates cands s)"
  by (simp_all add: same_schedules_def)

lemma store_candidates_schedules: "same_schedules s (store_candidates k c cands hasUpdate s)"
  unfolding store_candidates_def Let_def by (rule same_schedules_trans; rule k_try_schedules) simp_all

lemma compare_image_schedules:
  assumes "compare_image k ca c img ref ds lv remote s = (n, ca', s')"
  shows "same_schedules s s'"
proof -
  obtain cands cache s1 where f: "find_candidates k c img ref ds remote (ca_tags ca) s = (cands, cache, s1)" by (metis prod.exhaust)
  define hasUpdate where "hasUpdate = (if IsStrictSemverTag (Tag ref) then candidate_list cands \<noteq> [] else remote \<notin> set ds)"
  define s3 where "s3 = store_candidates k c cands hasUpdate (if hasUpdate then announce k c cands s1 else s1)"
  obtain hints s4 where h: "loadVersionHints k ref (dk_id c) (hd ds) remote hasUpdate lv s3 = (hints, s4)" by (rule prod.exhaust)
  obtain cur av err vc s5 where r: "resolveVersions k (ca_versions ca) ref (hd ds) remote hasUpdate hints s4 = ((cur, av, err), vc, s5)"
    by (metis prod.exhaust)
  define s7 where "s7 = (if err \<noteq> None then k_emit k (event_of LevelWarn ''registry.version_resolution_failed'' (dk_name c) ActorSystem '''' [])
      (storeVersionResults k ref (hd ds) remote hasUpdate cur av err s5)
    else storeVersionResults k ref (hd ds) remote hasUpdate cur av err s5)"
  have "cw_tables (if hasUpdate then announce k c cands s1 else s1) = cw_tables s" using find_candidates_tables[OF f] by (simp add: announce_tables)
  from same_tables_schedules[OF this] have s3: "same_schedules s s3" unfolding s3_def by (rule same_schedules_trans[OF _ store_candidates_schedules])
  have "cw_tables s7 = cw_tables s3" using loadVersionHints_tables[OF h] resolveVersions_tables[OF r] by (simp add: s7_def)
  with s3 have s7: "same_schedules s s7" using same_schedules_trans same_tables_schedules by blast
  define av' where "av' = (case cands ''major'' of Some newest \<Rightarrow> if IsVersionTag (uc_version newest) then uc_version newest else av | None \<Rightarrow> av)"
  have "s' = k_try k (sync_failed LevelError (dk_name c)) (\<lambda>s. set_containers (SetVersions (dk_id c) cur av' (cw_containers s)) s) s7"
    using assms unfolding compare_image_def f prod.case Let_def hasUpdate_def[symmetric] s3_def[symmetric] h r s7_def av'_def by auto
  then show ?thesis using same_schedules_trans[OF s7 k_try_schedules] by simp
qed

lemma image_reference_schedules:
  assumes "image_reference k c s = (img, s')"
  shows "same_schedules s s'"
proof -
  obtain i s1 where st: "stored_reference k c s = (i, s1)" by (rule prod.exhaust)
  have s1: "same_schedules s s1"
  proof -
    obtain a t where q: "k_sql k (\<lambda>s. (GetContainer (dk_id c) (cw_containers s), s)) s = (a, t)" by (rule prod.exhaust)
    have "s1 = s \<or> s1 = t" using st unfolding stored_reference_def q by (auto split: if_splits option.splits sum.splits)
    then show ?thesis using same_tables_schedules[OF k_sql_read_tables[OF q]] by auto
  qed
  obtain a s2 where q: "k_sql k (\<lambda>s. (RecoverImageReference (dk_name c) (cw_log s), s)) s1 = (a, s2)" by (rule prod.exhaust)
  have s2: "same_schedules s s2" using s1 same_tables_schedules[OF k_sql_read_tables[OF q]] by (rule same_schedules_trans)
  let ?repair = "\<lambda>r. k_try k (sync_failed LevelWarn (dk_name c)) (\<lambda>s. set_containers (RepairCurrentImage (dk_id c) r (cw_containers s)) s) s2"
  have rp: "same_schedules s (?repair r)" for r by (rule same_schedules_trans[OF s2 k_try_schedules]) simp
  have "s' = s1 \<or> s' = s2 \<or> (\<exists>r. s' = ?repair r)"
    using assms unfolding image_reference_def st prod.case q by (auto split: if_splits option.splits sum.splits)
  then show ?thesis using s1 s2 rp by blast
qed

lemma checkOneContainer_schedules:
  assumes "checkOneContainer k ca c s = (n, ca', s')"
  shows "same_schedules s s'"
proof -
  obtain ds s1 where d: "on_docker (image_digests (ck_images k) (dk_image_id c)) s = (ds, s1)" by (rule prod.exhaust)
  note s1 = same_tables_schedules[OF on_docker_tables[OF d]]
  obtain img s2 where i: "image_reference k c s1 = (img, s2)" by (rule prod.exhaust)
  have s2: "same_schedules s s2" using s1 image_reference_schedules[OF i] by (rule same_schedules_trans)
  obtain label s3 where l: "on_docker (ImageVersionLabel (ck_images k) (dk_image_id c) (Repository (ParseRef img))) s2 = (label, s3)" by (rule prod.exhaust)
  let ?s4 = "case label of Inl _ \<Rightarrow> k_emit k (event_of LevelWarn ''version.label_read_failed'' (dk_name c) ActorSystem '''' []) s3 | Inr _ \<Rightarrow> s3"
  obtain remote s5 where n: "on_net (Digest (ck_http k) (ck_env k) (ParseRef img)) ?s4 = (remote, s5)" by (rule prod.exhaust)
  have "cw_tables s5 = cw_tables s2" using on_net_tables[OF n] on_docker_tables[OF l] by (simp split: sum.splits)
  then have s5: "same_schedules s s5" using s2 same_tables_schedules same_schedules_trans by blast
  have r: "same_schedules s t" if "check_reference k ca c img locals s2 = (m, cb, t)" for locals m cb t
  proof (cases remote)
    case (Inl err)
    have "cw_tables t = cw_tables s5"
      using that unfolding check_reference_def Let_def l prod.case n Inl sum.case by auto
    then show ?thesis using s5 same_tables_schedules same_schedules_trans by blast
  next
    case (Inr digest)
    then have "compare_image k ca c img (ParseRef img) locals (case label of Inl _ \<Rightarrow> '''' | Inr v \<Rightarrow> v) digest s5 = (m, cb, t)"
      using that unfolding check_reference_def Let_def l prod.case n by simp
    from compare_image_schedules[OF this] s5 show ?thesis using same_schedules_trans by blast
  qed
  have "s' = s \<or> s' = s1 \<or> s' = s2 \<or> (\<exists>locals. check_reference k ca c img locals s2 = (n, ca', s'))"
    using assms unfolding checkOneContainer_def d prod.case i by (auto split: if_splits sum.splits)
  moreover obtain x y z where "n = (x, y, z)" by (metis prod.exhaust)
  ultimately show ?thesis using s1 s2 r by auto
qed

lemma check_loop_schedules: "check_loop k cs n ca s = (n', s') \<Longrightarrow> same_schedules s s'"
proof (induction k cs n ca s rule: check_loop.induct)
  case (2 k c cs n m f ca s)
  obtain dn dm df ca1 s1 where c: "checkOneContainer k ca c s = ((dn, dm, df), ca1, s1)" by (metis prod.exhaust)
  then have "same_schedules s1 s'" using 2 by simp
  then show ?case using checkOneContainer_schedules[OF c] same_schedules_trans by blast
qed simp

lemma discover_schedules: "same_schedules s (discover k cs s)"
proof -
  have f: "same_schedules s (fold (see_container k) cs s)"
  proof (induction cs arbitrary: s)
    case (Cons c cs)
    have "same_schedules s (see_container k c s)" unfolding see_container_def by (rule k_try_schedules) simp
    then show ?case using Cons same_schedules_trans by fastforce
  qed simp
  show ?thesis unfolding discover_def Let_def
    by (rule same_schedules_trans[OF same_schedules_trans[OF f k_try_schedules] same_tables_schedules[OF k_emit_tables]]) simp
qed

text \<open>A check leaves the schedules alone.\<close>
lemma Check_schedules: "same_schedules s (Check k s)"
proof -
  obtain up s1 where p: "on_docker (im_ping (ck_images k)) s = (up, s1)" by (rule prod.exhaust)
  obtain found s2 where l: "on_docker (docker_List (ck_engine k)) s1 = (found, s2)" by (rule prod.exhaust)
  obtain ex s3 where x: "load_exclusions k s2 = (ex, s3)" by (rule prod.exhaust)
  obtain a t where q: "k_sql k (\<lambda>s. (GetExclusions (wd_settings (cw_world s)), s)) s2 = (a, t)" by (rule prod.exhaust)
  have "s3 = t" using x unfolding load_exclusions_def q by (auto split: option.splits)
  then have t: "cw_tables s1 = cw_tables s" "cw_tables s2 = cw_tables s" "cw_tables s3 = cw_tables s"
    using on_docker_tables[OF p] on_docker_tables[OF l] k_sql_read_tables[OF q] by simp_all
  have c: "same_schedules s (checkForUpdates k cs (discover k cs s3))" for cs
  proof -
    obtain n m f s4 where c: "check_loop k cs (0, 0, 0) empty_caches (discover k cs s3) = ((n, m, f), s4)" by (metis prod.exhaust)
    have "same_schedules s3 s4" using discover_schedules check_loop_schedules[OF c] by (rule same_schedules_trans)
    then have "same_schedules s s4" using same_tables_schedules[OF t(3)] same_schedules_trans by blast
    then show ?thesis unfolding checkForUpdates_def c prod.case by (rule same_schedules_trans[OF _ same_tables_schedules[OF k_emit_tables]])
  qed
  show ?thesis
    unfolding Check_def p prod.case l x Let_def
    using c same_tables_schedules[of _ s] t by (cases up; cases found) simp_all
qed

text \<open>What happens in the daemon: the two passes of the scheduler, a check of the registries, requests to
  create, switch and delete schedules, and anything at all outside the schedules. A request runs as a whole: the
  statements of two requests do not interleave.\<close>
inductive daemon_step :: "('d, 'h) checker \<Rightarrow> 'd updater \<Rightarrow> (string \<Rightarrow> time \<Rightarrow> time option) \<Rightarrow> int \<Rightarrow> ('d, 'h) check_world \<Rightarrow> ('d, 'h) check_world \<Rightarrow> bool"
  for k upd next_cron ci where
  due: "daemon_step k upd next_cron ci s (s\<lparr>cw_sched := runDueSchedules (ck_engine k) upd next_cron (cw_sched s)\<rparr>)"
| policies: "daemon_step k upd next_cron ci s (s\<lparr>cw_sched := runRelativePolicies (ck_engine k) upd ci (cw_sched s)\<rparr>)"
| check: "daemon_step k upd next_cron ci s (Check k s)"
| created: "daemon_step k upd next_cron ci s (snd (handleCreateSchedule k next_cron body s))"
| switched: "daemon_step k upd next_cron ci s (snd (handleUpdateSchedule k path enabled s))"
| deleted: "daemon_step k upd next_cron ci s (snd (handleDeleteSchedule k path s))"
| outside: "same_schedules s s' \<Longrightarrow> daemon_step k upd next_cron ci s s'"

lemma once_inv_same: "once_inv i pin (cw_sched s) \<Longrightarrow> same_schedules s s' \<Longrightarrow> once_inv i pin (cw_sched s')"
  by (erule once_inv_unchanged) (simp_all add: same_schedules_def)

lemma added_rows_fresh:
  assumes "added_rows s s' rows" "ids_fresh (cw_schedules s)"
  shows "ids_fresh (cw_schedules s')"
proof -
  have ids: "map sc_id (st_rows (cw_schedules s')) = map sc_id (st_rows (cw_schedules s)) @ map (\<lambda>j. st_seq (cw_schedules s) + 1 + int j) [0..<length rows]"
    using assms(1) by (simp add: added_rows_def)
  have "distinct (map (\<lambda>j. st_seq (cw_schedules s) + 1 + int j) [0..<length rows])" by (simp add: distinct_map inj_on_def)
  then show ?thesis
    using assms unfolding ids_fresh_def keys_distinct_def ids by (fastforce simp: added_rows_def)
qed

lemma added_rows_once:
  assumes "added_rows s s' rows" "once_inv i pin (cw_sched s)"
  shows "once_inv i pin (cw_sched s')"
proof -
  have i: "i \<le> st_seq (cw_schedules s)" "ids_fresh (cw_schedules s)" using assms(2) by (simp_all add: once_inv_def)
  have "sc_id row \<noteq> i" if "row \<in> set rows" for row
  proof -
    have "sc_id row \<in> set (map sc_id rows)" using that by simp
    also have "map sc_id rows = map (\<lambda>j. st_seq (cw_schedules s) + 1 + int j) [0..<length rows]" using assms(1) by (simp add: added_rows_def)
    finally show ?thesis using i(1) by auto
  qed
  then have none: "get_row sc_id i rows = None" by (cases "get_row sc_id i rows") (auto dest: get_row_SomeD)
  have "st_rows (cw_schedules s') = st_rows (cw_schedules s) @ rows" using assms(1) by (simp add: added_rows_def)
  then have "schedule_of i (cw_sched s') = schedule_of i (cw_sched s)"
    using none by (simp add: get_row_append split: option.splits)
  moreover have "accepted i (cw_sched s') = accepted i (cw_sched s)" using assms(1) by (simp add: added_rows_def accepted_def)
  ultimately show ?thesis
    using assms(2) added_rows_fresh[OF assms(1) i(2)] i(1) assms(1) by (simp add: once_inv_def added_rows_def)
qed

lemma k_get_effect:
  assumes "k_get k i s = (r, s')"
  shows "same_schedules s s'" "r = Inr sc \<Longrightarrow> GetSchedule i (cw_schedules s) = Inr sc"
proof -
  obtain a t where q: "k_sql k (\<lambda>s. (GetSchedule i (cw_schedules s), s)) s = (a, t)" by (rule prod.exhaust)
  have s': "s' = t" and r: "r = Inr sc \<Longrightarrow> a = Some (Inr sc)" using assms unfolding k_get_def q by (auto split: option.splits sum.splits)
  show "same_schedules s s'" using same_tables_schedules[OF k_sql_read_tables[OF q]] s' by simp
  show "r = Inr sc \<Longrightarrow> GetSchedule i (cw_schedules s) = Inr sc"
    using q by (cases rule: k_sql_cases) (use r in auto)
qed

lemma k_change_effect:
  assumes "k_change k f s = (r, s')"
  shows "sw_requests (cw_sched s') = sw_requests (cw_sched s) \<and> (cw_schedules s' = cw_schedules s \<or> cw_schedules s' = snd (f (cw_schedules s)))"
proof -
  obtain a t where q: "k_sql k (\<lambda>s'. case f (cw_schedules s') of (err, tbl) \<Rightarrow> (err, set_schedules tbl s')) s = (a, t)" by (rule prod.exhaust)
  have "s' = t" using assms unfolding k_change_def q by (simp split: option.splits)
  with q show ?thesis by (cases rule: k_sql_cases) (auto simp: set_schedules_def split: prod.splits)
qed

lemma same_tell [simp]: "same_schedules s (tell kind name stack t) \<longleftrightarrow> same_schedules s t"
  by (simp add: same_schedules_def tell_def)

lemma switched_once:
  assumes "reliable (ck_engine k)" "once_inv i pin (cw_sched s)"
  shows "once_inv i pin (cw_sched (snd (handleUpdateSchedule k path body s)))"
proof -
  obtain r s' where h: "handleUpdateSchedule k path body s = (r, s')" by (rule prod.exhaust)
  have "once_inv i pin (cw_sched s')"
  proof (cases "same_schedules s s'")
    case True
    then show ?thesis using assms(2) once_inv_same by blast
  next
    case changed: False
    then obtain j b where jb: "Atoi path = Some j" "body = Some (Some b)"
      using h by (auto simp: handleUpdateSchedule_def split: option.splits)
    obtain got s1 where g: "k_get k j s = (got, s1)" by (rule prod.exhaust)
    note g1 = k_get_effect(1)[OF g]
    obtain old where old: "got = Inr old" "\<not> Completed old"
      using changed h jb g g1 by (cases got) (auto simp: handleUpdateSchedule_def split: if_splits)
    obtain c s2 where c: "k_change k (SetScheduleEnabled j b) s1 = (c, s2)" by (rule prod.exhaust)
    obtain got' s3 where g': "k_get k j s2 = (got', s3)" by (rule prod.exhaust)
    have s': "same_schedules s2 s'"
      using h jb g old c g' k_get_effect(1)[OF g'] by (auto simp: handleUpdateSchedule_def split: option.splits sum.splits if_splits)
    have "once_inv i pin (cw_sched s2)"
    proof (cases "cw_schedules s2 = cw_schedules s1")
      case True
      then show ?thesis using k_change_effect[OF c] g1 once_inv_unchanged[OF assms(2), of "cw_sched s2"] by (simp add: same_schedules_def)
    next
      case False
      have found: "GetSchedule j (cw_schedules s) = Inr old" by (rule k_get_effect(2)[OF g old(1)])
      let ?t = "(cw_sched s)\<lparr>sw_schedules := snd (SetScheduleEnabled j b (sw_schedules (cw_sched s)))\<rparr>"
      have "sched_step (ck_engine k) (\<lambda>_ _ _ _ w. (None, w)) (\<lambda>_ _. None) 0 (cw_sched s) ?t" by (rule switch[OF found old(2)])
      from sched_step_once[OF this assms] have "once_inv i pin ?t" .
      then show ?thesis
        by (rule once_inv_unchanged) (use False k_change_effect[OF c] g1 in \<open>auto simp: same_schedules_def\<close>)
    qed
    then show ?thesis using s' once_inv_same by blast
  qed
  then show ?thesis using h by simp
qed

lemma deleted_once:
  assumes "reliable (ck_engine k)" "once_inv i pin (cw_sched s)"
  shows "once_inv i pin (cw_sched (snd (handleDeleteSchedule k path s)))"
proof (cases "Atoi path")
  case None
  then show ?thesis using assms(2) by (simp add: handleDeleteSchedule_def)
next
  case (Some j)
  obtain got s1 where g: "k_get k j s = (got, s1)" by (rule prod.exhaust)
  note g1 = k_get_effect(1)[OF g]
  obtain c s2 where c: "k_change k (DeleteSchedule j) s1 = (c, s2)" by (rule prod.exhaust)
  have s': "same_schedules s2 (snd (handleDeleteSchedule k path s))"
    using Some g c by (auto simp: handleDeleteSchedule_def split: option.splits sum.splits)
  have "once_inv i pin (cw_sched s2)"
  proof (cases "cw_schedules s2 = cw_schedules s1")
    case True
    then show ?thesis using k_change_effect[OF c] g1 once_inv_unchanged[OF assms(2), of "cw_sched s2"] by (simp add: same_schedules_def)
  next
    case False
    let ?t = "(cw_sched s)\<lparr>sw_schedules := snd (DeleteSchedule j (sw_schedules (cw_sched s)))\<rparr>"
    have "sched_step (ck_engine k) (\<lambda>_ _ _ _ w. (None, w)) (\<lambda>_ _. None) 0 (cw_sched s) ?t" by (rule delete)
    from sched_step_once[OF this assms] have "once_inv i pin ?t" .
    then show ?thesis
      by (rule once_inv_unchanged) (use False k_change_effect[OF c] g1 in \<open>auto simp: same_schedules_def\<close>)
  qed
  then show ?thesis using s' once_inv_same by blast
qed

lemma daemon_step_once:
  assumes "daemon_step k upd next_cron ci s s'" "reliable (ck_engine k)" "once_inv i pin (cw_sched s)"
  shows "once_inv i pin (cw_sched s')"
  using assms(1)
proof cases
  case due
  then show ?thesis using runDueSchedules_once[OF assms(2,3)] by simp
next
  case policies
  then show ?thesis using runRelativePolicies_once[OF assms(3)] by simp
next
  case check
  then show ?thesis using once_inv_same[OF assms(3) Check_schedules] by simp
next
  case (created body)
  obtain r where h: "handleCreateSchedule k next_cron body s = (r, s')" using created by (metis prod.collapse)
  show ?thesis using handleCreateSchedule_effect[OF h] added_rows_once assms(3) unfolding create_effect_def by blast
next
  case (switched path enabled)
  then show ?thesis using switched_once[OF assms(2,3)] by simp
next
  case (deleted path)
  then show ?thesis using deleted_once[OF assms(2,3)] by simp
next
  case outside
  then show ?thesis using once_inv_same[OF assms(3)] by blast
qed

text \<open>C4: A one-off schedule applies once, and exactly what it was pinned to. From the answer of the request that
  creates it, through any sequence of passes of the scheduler, checks of the registries and requests on
  schedules, it asks for at most one update that maintenance does not refuse, of the image its pin names,
  whatever images appear meanwhile; afterwards it is completed and disabled, or deleted, and no
  request enables it again.\<close>

theorem pinned_update_runs_once:
  assumes "reliable (ck_engine k)" "ids_fresh (cw_schedules s0)"
    and "\<forall>q \<in> set (sw_requests (cw_sched s0)). rq_schedule q \<le> st_seq (cw_schedules s0)"
    and "handleCreateSchedule k next_cron body s0 = (Reply code scs, s1)" "sc \<in> set scs" "sc_kind sc = ''once''"
    and "(daemon_step k upd next_cron ci)\<^sup>*\<^sup>* s1 s"
  shows "length (accepted (sc_id sc) (cw_sched s)) \<le> 1
    \<and> (\<forall>q \<in> set (accepted (sc_id sc) (cw_sched s)). (sc_pinned sc \<noteq> '''' \<longrightarrow> rq_image q = sc_pinned sc)
        \<and> (case schedule_of (sc_id sc) (cw_sched s) of None \<Rightarrow> True | Some sc' \<Rightarrow> Completed sc' \<and> \<not> sc_enabled sc'))"
proof -
  obtain rows where rows: "added_rows s0 s1 rows" "map (\<lambda>row. row\<lparr>sc_created := 0\<rparr>) rows = scs"
    using handleCreateSchedule_effect[OF assms(4)] by (auto simp: create_effect_def)
  then obtain row where row: "row \<in> set rows" "sc = row\<lparr>sc_created := 0\<rparr>" using assms(5) by auto
  have f: "ids_fresh (cw_schedules s1)" by (rule added_rows_fresh[OF rows(1) assms(2)])
  have "row \<in> set (st_rows (cw_schedules s1))" using rows(1) row(1) by (simp add: added_rows_def)
  then have so: "schedule_of (sc_id sc) (cw_sched s1) = Some row"
    using f get_row_mem[of sc_id _ row] row(2) by (simp add: ids_fresh_def)
  have "sc_id row \<in> set (map sc_id rows)" using row(1) by simp
  also have "map sc_id rows = map (\<lambda>j. st_seq (cw_schedules s0) + 1 + int j) [0..<length rows]" using rows(1) by (simp add: added_rows_def)
  finally have i: "st_seq (cw_schedules s0) < sc_id sc" "sc_id sc \<le> st_seq (cw_schedules s1)"
    using rows(1) row(2) by (auto simp: added_rows_def)
  have "accepted (sc_id sc) (cw_sched s1) = []"
    using assms(3) rows(1) i(1) by (fastforce simp: added_rows_def accepted_def filter_empty_conv)
  then have "once_inv (sc_id sc) (sc_pinned sc) (cw_sched s1)"
    using f i(2) so assms(6) row(2) by (simp add: once_inv_def)
  with assms(7) have "once_inv (sc_id sc) (sc_pinned sc) (cw_sched s)"
    by induction (use daemon_step_once assms(1) in blast)+
  then show ?thesis by (auto simp: once_inv_def split: option.splits)
qed

section \<open>Pins\<close>

text \<open>Taking the tag away keeps the registry and the repository, when the repository has no colon of its own.\<close>
lemma stripped_same_repository:
  assumes "CHR '':'' \<notin> set (Repository (ParseRef img))"
  shows "Registry (ParseRef (stripImageTag img)) = Registry (ParseRef img)
    \<and> Repository (ParseRef (stripImageTag img)) = Repository (ParseRef img)"
proof (cases "stripImageTag img = img")
  case False
  then obtain base tag where c: "cut_last (CHR '':'') img = Some (base, tag)" "CHR ''/'' \<notin> set tag" "stripImageTag img = base"
    by (auto simp: stripImageTag_def split: option.splits if_splits)
  then have img: "img = base @ CHR '':'' # tag" "CHR '':'' \<notin> set tag" by (simp_all add: cut_last_Some)
  show ?thesis
  proof (cases "cut_first (CHR ''/'') img")
    case None
    then have n: "cut_first (CHR ''/'') base = None" using img by simp
    have "Repository (ParseRef img) = (if str_contains base ''/'' then base else ''library/'' @ base)"
      using None c(1) by (simp add: ParseRef_def Let_def del: cut_first_None cut_last_None)
    then have "cut_last (CHR '':'') base = None" using assms by (auto split: if_splits)
    then show ?thesis using None n c by (simp add: ParseRef_def Let_def del: cut_first_None cut_last_None)
  next
    case (Some p)
    then obtain first rest where p: "cut_first (CHR ''/'') img = Some (first, rest)" by (cases p) auto
    then have e: "base @ CHR '':'' # tag = first @ CHR ''/'' # rest" "CHR ''/'' \<notin> set first" using img(1) by (simp_all add: cut_first_Some)
    have "CHR ''/'' \<in> set base"
    proof (rule ccontr)
      assume "CHR ''/'' \<notin> set base"
      then have "CHR ''/'' \<notin> set (base @ CHR '':'' # tag)" using c(2) by simp
      then show False unfolding e(1) by simp
    qed
    then obtain a b where ab: "base = a @ CHR ''/'' # b" "CHR ''/'' \<notin> set a" by (meson split_list_first)
    have "cut_first (CHR ''/'') img = Some (a, b @ CHR '':'' # tag)" using ab img(1) by (simp add: cut_first_Some)
    then have r: "a = first" "rest = b @ CHR '':'' # tag" using p by simp_all
    have b: "cut_first (CHR ''/'') base = Some (first, b)" using ab r(1) by (simp add: cut_first_Some)
    have l: "cut_last (CHR '':'') rest = Some (b, tag)" using r(2) img(2) by (simp add: cut_last_Some)
    have s: "str_contains base ''/''" using ab(1) by (auto simp: str_contains_char)
    show ?thesis
    proof (cases "host_like first")
      case True
      have "CHR '':'' \<notin> set b" using assms p True l by (auto simp: ParseRef_def Let_def simp del: cut_first_None cut_last_None split: if_splits)
      then have "cut_last (CHR '':'') b = None" by simp
      then show ?thesis using True p l b c(3) by (simp add: ParseRef_def Let_def del: cut_first_None cut_last_None)
    next
      case False
      have "CHR '':'' \<notin> set base" using assms p False c(1) s by (simp add: ParseRef_def Let_def del: cut_first_None cut_last_None)
      then have "cut_last (CHR '':'') base = None" by simp
      then show ?thesis using False p b c s by (simp add: ParseRef_def Let_def del: cut_first_None cut_last_None)
    qed
  qed
qed simp

section \<open>Examples\<close>

definition once_request :: scheduleRequest where
  "once_request = \<lparr>sr_type = ''once'', sr_container = ''web'', sr_stack = '''', sr_run_at = ''1970-01-01T00:00:05Z'', sr_cron = '''',
     sr_policy = '''', sr_after = '''', sr_semver = '''', sr_notify = None\<rparr>"

definition demo_created :: "(host logging, unit) created" where
  "demo_created = handleCreateSchedule demo_checker (\<lambda>_ _. None) (Some once_request) (demo_check_world [])"

definition demo_later :: "(host logging, unit) check_world" where
  "demo_later = (let s = snd demo_created
     in s\<lparr>cw_sched := (cw_sched s)\<lparr>sw_world := (cw_world s)\<lparr>wd_env := ([], app_host\<lparr>ho_clock := 10 * nanos\<rparr>)\<rparr>\<rparr>\<rparr>)"

definition demo_ran :: "host logging sched_world" where
  "demo_ran = runDueSchedules (ck_engine demo_checker) demo_update (\<lambda>_ _. None) (cw_sched demo_later)"

lemma demo_created_reply:
  obtains sc where "fst demo_created = Reply 201 [sc]" "sc_pinned sc = ''r.example/app@sha256:aa''" "sc_id sc = 1" "sc_kind sc = ''once''"
proof -
  have "(case fst demo_created of Reply c [sc] \<Rightarrow> c = 201 \<and> sc_pinned sc = ''r.example/app@sha256:aa'' \<and> sc_id sc = 1 \<and> sc_kind sc = ''once''
      | _ \<Rightarrow> False)" by code_simp
  then show thesis using that by (cases "fst demo_created") (auto split: list.splits)
qed

theorem create_schedule_sound_witness:
  "\<exists>sc. fst demo_created = Reply 201 [sc] \<and> sc_pinned sc = ''r.example/app@sha256:aa''
    \<and> sound_schedule demo_checker (\<lambda>_ _. None) 5 (cw_containers (demo_check_world [])) sc"
proof -
  obtain sc where sc: "fst demo_created = Reply 201 [sc]" "sc_pinned sc = ''r.example/app@sha256:aa''" by (rule demo_created_reply)
  have k: "keys_distinct c_id (cw_containers (demo_check_world []))" by (simp add: demo_check_world_def keys_distinct_def)
  have t: "k_now demo_checker (demo_check_world []) = 5" by code_simp
  have "handleCreateSchedule demo_checker (\<lambda>_ _. None) (Some once_request) (demo_check_world []) = (Reply 201 [sc], snd demo_created)"
    using sc(1) by (metis demo_created_def prod.collapse)
  from create_schedule_sound[OF this k] show ?thesis using sc t by simp
qed

theorem pinned_update_runs_once_witness:
  "map rq_image (accepted 1 demo_ran) = [''r.example/app@sha256:aa'']
    \<and> (case schedule_of 1 demo_ran of None \<Rightarrow> True | Some sc' \<Rightarrow> Completed sc' \<and> \<not> sc_enabled sc')"
proof -
  obtain sc where sc: "fst demo_created = Reply 201 [sc]" "sc_pinned sc = ''r.example/app@sha256:aa''" "sc_id sc = 1" "sc_kind sc = ''once''"
    by (rule demo_created_reply)
  let ?s0 = "demo_check_world []"
  have a: "ids_fresh (cw_schedules ?s0)" "\<forall>q \<in> set (sw_requests (cw_sched ?s0)). rq_schedule q \<le> st_seq (cw_schedules ?s0)"
    by (simp_all add: demo_check_world_def ids_fresh_def keys_distinct_def)
  have c: "handleCreateSchedule demo_checker (\<lambda>_ _. None) (Some once_request) ?s0 = (Reply 201 [sc], snd demo_created)"
    using sc(1) by (metis demo_created_def prod.collapse)
  have "same_schedules (snd demo_created) demo_later" by (simp add: same_schedules_def demo_later_def Let_def)
  then have "daemon_step demo_checker demo_update (\<lambda>_ _. None) 0 (snd demo_created) demo_later" by (rule outside)
  moreover have "daemon_step demo_checker demo_update (\<lambda>_ _. None) 0 demo_later (demo_later\<lparr>cw_sched := demo_ran\<rparr>)"
    unfolding demo_ran_def by (rule due)
  ultimately have steps: "(daemon_step demo_checker demo_update (\<lambda>_ _. None) 0)\<^sup>*\<^sup>* (snd demo_created) (demo_later\<lparr>cw_sched := demo_ran\<rparr>)"
    by (meson converse_rtranclp_into_rtranclp r_into_rtranclp)
  have m: "sc \<in> set [sc]" by simp
  have r: "map rq_image (accepted 1 demo_ran) = [''r.example/app@sha256:aa'']" by code_simp
  then have "accepted 1 demo_ran \<noteq> []" by auto
  then show ?thesis
    using pinned_update_runs_once[OF demo_checker_reliable a c m sc(4) steps] r sc(3) by (cases "accepted 1 demo_ran") auto
qed

end
