(* ===== verification/Settings_Api.thy ===== *)
theory Settings_Api
  imports Schedule_Api
begin

text \<open>
  \<^verbatim>\<open>internal/api/settings.go\<close>: the handlers on general settings, exclusions and API keys. Bodies are given
  decoded; the hash and the token of a new key are parameters.
\<close>

section \<open>General settings\<close>

record general =
  gs_interval :: int
  gs_threshold :: int
  gs_window :: int
  gs_page :: int

abbreviation cw_settings :: "('d, 'h) check_world \<Rightarrow> settings_table" where
  "cw_settings s \<equiv> wd_settings (cw_world s)"

definition set_settings :: "settings_table \<Rightarrow> ('d, 'h) check_world \<Rightarrow> ('d, 'h) check_world" where
  "set_settings tbl s = set_world ((cw_world s)\<lparr>wd_settings := tbl\<rparr>) s"

definition k_read :: "('d, 'h) checker \<Rightarrow> (settings_table \<Rightarrow> 'a) \<Rightarrow> ('d, 'h) check_world \<Rightarrow> 'a option \<times> ('d, 'h) check_world" where
  "k_read k f = k_sql k (\<lambda>s. (f (cw_settings s), s))"

definition k_write :: "('d, 'h) checker \<Rightarrow> (settings_table \<Rightarrow> settings_table) \<Rightarrow> ('d, 'h) check_world \<Rightarrow> unit option \<times> ('d, 'h) check_world" where
  "k_write k f = k_sql k (\<lambda>s. ((), set_settings (f (cw_settings s)) s))"

definition default_interval :: int where
  "default_interval = DefaultCheckInterval div (60 * nanos)"

definition handleGetGeneralSettings :: "('d, 'h) checker \<Rightarrow> ('d, 'h) check_world \<Rightarrow> general reply \<times> ('d, 'h) check_world" where
  "handleGetGeneralSettings k s =
    (case k_read k GetCheckIntervalMinutes s of
       (None, s1) \<Rightarrow> (ErrorReply 500 ''internal_error'', s1)
     | (Some minutes, s1) \<Rightarrow>
         (case k_read k GetCrashLoopSettings s1 of
            (None, s2) \<Rightarrow> (ErrorReply 500 ''internal_error'', s2)
          | (Some (threshold, window), s2) \<Rightarrow>
              (case k_read k GetLogsPageSize s2 of
                 (None, s3) \<Rightarrow> (ErrorReply 500 ''internal_error'', s3)
               | (Some page, s3) \<Rightarrow>
                   (Reply 200 \<lparr>gs_interval = (case minutes of None \<Rightarrow> default_interval | Some m \<Rightarrow> m),
                      gs_threshold = threshold, gs_window = window, gs_page = page\<rparr>, s3))))"

text \<open>A field of the request that is zero stands for the value in force.\<close>
definition asked_interval :: "('d, 'h) checker \<Rightarrow> int \<Rightarrow> ('d, 'h) check_world \<Rightarrow> int \<times> ('d, 'h) check_world" where
  "asked_interval k m s =
    (if m \<noteq> 0 then (m, s)
     else case k_read k GetCheckIntervalMinutes s of
       (Some (Some current), s1) \<Rightarrow> (current, s1) | (_, s1) \<Rightarrow> (default_interval, s1))"

definition asked_page :: "('d, 'h) checker \<Rightarrow> int \<Rightarrow> ('d, 'h) check_world \<Rightarrow> int \<times> ('d, 'h) check_world" where
  "asked_page k n s =
    (if n \<noteq> 0 then (n, s)
     else case k_read k GetLogsPageSize s of (Some current, s1) \<Rightarrow> (current, s1) | (None, s1) \<Rightarrow> (300, s1))"

definition save_general :: "('d, 'h) checker \<Rightarrow> string \<Rightarrow> general \<Rightarrow> ('d, 'h) check_world \<Rightarrow> general reply \<times> ('d, 'h) check_world" where
  "save_general k actorID g s =
    (case k_write k (SetCheckIntervalMinutes (gs_interval g)) s of
       (None, s1) \<Rightarrow> (ErrorReply 500 ''internal_error'', s1)
     | (Some _, s1) \<Rightarrow>
         (case k_write k (SetCrashLoopSettings (gs_threshold g) (gs_window g)) s1 of
            (None, s2) \<Rightarrow> (ErrorReply 500 ''internal_error'', s2)
          | (Some _, s2) \<Rightarrow>
              (case k_write k (SetLogsPageSize (gs_page g)) s2 of
                 (None, s3) \<Rightarrow> (ErrorReply 500 ''internal_error'', s3)
               | (Some _, s3) \<Rightarrow>
                   (Reply 200 g,
                    k_emit k (event_of LevelInfo ''settings.crashloop_changed'' '''' ActorUser actorID
                      [(''threshold'', AInt (gs_threshold g)), (''window_minutes'', AInt (gs_window g))]) s3))))"

definition handleSetGeneralSettings :: "('d, 'h) checker \<Rightarrow> string \<Rightarrow> general option \<Rightarrow> ('d, 'h) check_world \<Rightarrow> general reply \<times> ('d, 'h) check_world" where
  "handleSetGeneralSettings k actorID body s =
    (case body of
       None \<Rightarrow> (bad_request, s)
     | Some req \<Rightarrow>
         (case asked_interval k (gs_interval req) s of
            (m, s1) \<Rightarrow>
              if m < 5 then (bad_request, s1)
              else (case k_read k GetCrashLoopSettings s1 of
                 (None, s2) \<Rightarrow> (ErrorReply 500 ''internal_error'', s2)
               | (Some (currentThreshold, currentWindow), s2) \<Rightarrow>
                   (let t = (if gs_threshold req = 0 then currentThreshold else gs_threshold req);
                        w = (if gs_window req = 0 then currentWindow else gs_window req)
                    in if t < 1 \<or> 20 < t \<or> w < 1 \<or> 1440 < w then (bad_request, s2)
                       else (case asked_page k (gs_page req) s2 of
                          (n, s3) \<Rightarrow>
                            if n < 50 \<or> 1000 < n then (bad_request, s3)
                            else save_general k actorID
                              \<lparr>gs_interval = m, gs_threshold = t, gs_window = w, gs_page = n\<rparr> s3)))))"

section \<open>Exclusions\<close>

definition handleGetExclusions :: "('d, 'h) checker \<Rightarrow> ('d, 'h) check_world \<Rightarrow> Exclusions reply \<times> ('d, 'h) check_world" where
  "handleGetExclusions k s =
    (case k_read k GetExclusions s of
       (None, s1) \<Rightarrow> (ErrorReply 500 ''internal_error'', s1) | (Some ex, s1) \<Rightarrow> (Reply 200 ex, s1))"

definition handleSetExclusions :: "('d, 'h) checker \<Rightarrow> string \<Rightarrow> Exclusions option \<Rightarrow> ('d, 'h) check_world \<Rightarrow> Exclusions reply \<times> ('d, 'h) check_world" where
  "handleSetExclusions k actorID body s =
    (case body of
       None \<Rightarrow> (bad_request, s)
     | Some ex \<Rightarrow>
         (case k_write k (SetExclusions ex) s of
            (None, s1) \<Rightarrow> (ErrorReply 500 ''internal_error'', s1)
          | (Some _, s1) \<Rightarrow>
              (case k_sql k (\<lambda>s. ((), set_containers (ApplyExclusions ex (cw_containers s)) s)) s1 of
                 (None, s2) \<Rightarrow> (ErrorReply 500 ''internal_error'', s2)
               | (Some _, s2) \<Rightarrow>
                   (Reply 200 ex,
                    k_emit k (event_of LevelInfo ''settings.exclusions_changed'' '''' ActorUser actorID
                      [(''containers'', AInt (int (length (ex_containers ex)))), (''stacks'', AInt (int (length (ex_stacks ex))))]) s2))))"

section \<open>API keys\<close>

text \<open>The answer to the creation of a key holds its number, its prefix and the key itself.\<close>
definition handleCreateAPIKey :: "(string \<Rightarrow> string) \<Rightarrow> string option \<Rightarrow> (string \<times> AccessControl) option \<Rightarrow> req_context \<Rightarrow> time \<Rightarrow> auth_db \<Rightarrow>
    (int \<times> string \<times> string) reply \<times> auth_db \<times> event list" where
  "handleCreateAPIKey sha token body cx at db =
    (case body of
       None \<Rightarrow> (bad_request, db, [])
     | Some (name, a0) \<Rightarrow>
         (let a = (if ac_role a0 = '''' then a0\<lparr>ac_role := ''admin''\<rparr> else a0)
          in if name = '''' \<or> \<not> access_valid (access_model a) then (bad_request, db, [])
             else (case token of
                None \<Rightarrow> (ErrorReply 500 ''internal_error'', db, [])
              | Some t \<Rightarrow>
                  (case CreateAPIKeyWithAccess name (sha t) (take 8 t) (access_model a) at db of
                     (Inl _, db') \<Rightarrow> (ErrorReply 500 ''internal_error'', db', [])
                   | (Inr i, db') \<Rightarrow>
                       (Reply 201 (i, take 8 t, t), db',
                        [event_of LevelInfo ''auth.api_key_created'' '''' ActorUser (cx_actor cx) []])))))"

definition handleRevokeAPIKey :: "string \<Rightarrow> req_context \<Rightarrow> auth_db \<Rightarrow> unit reply \<times> auth_db \<times> event list" where
  "handleRevokeAPIKey path cx db =
    (case Atoi path of
       None \<Rightarrow> (bad_request, db, [])
     | Some i \<Rightarrow>
         (case RevokeAPIKey i db of
            (Some err, db') \<Rightarrow> (store_reply (DbError err), db', [])
          | (None, db') \<Rightarrow> (Reply 200 (), db', [event_of LevelInfo ''auth.api_key_revoked'' '''' ActorUser (cx_actor cx) []])))"

section \<open>What saving the general settings does\<close>

lemma k_write_done:
  assumes "reliable (ck_engine k)"
  obtains s' where "k_write k f s = (Some (), s')" "cw_settings s' = f (cw_settings s)"
proof -
  obtain d where "k_write k f s = (Some (), set_settings (f (cw_settings s)) (set_world ((cw_world s)\<lparr>wd_env := d\<rparr>) s))"
    using k_sql_reliable[OF assms, of "\<lambda>s. ((), set_settings (f (cw_settings s)) s)" s] by (auto simp: k_write_def)
  then show thesis by (rule that) (simp add: set_settings_def)
qed

lemma k_read_done:
  assumes "reliable (ck_engine k)"
  obtains s' where "k_read k f s = (Some (f (cw_settings s)), s')" "cw_settings s' = cw_settings s"
proof -
  obtain d where "k_read k f s = (Some (f (cw_settings s)), set_world ((cw_world s)\<lparr>wd_env := d\<rparr>) s)"
    using k_sql_reliable[OF assms, of "\<lambda>s. (f (cw_settings s), s)" s] by (auto simp: k_read_def)
  then show thesis by (rule that) simp
qed

lemma k_read_settings: "k_read k f s = (r, s') \<Longrightarrow> cw_settings s' = cw_settings s"
  unfolding k_read_def by (erule k_sql_cases) auto

lemma k_emit_settings [simp]: "cw_settings (k_emit k ev s) = cw_settings s"
  by (simp add: k_emit_def emit_def set_world_def)

definition general_ok :: "general \<Rightarrow> bool" where
  "general_ok g \<longleftrightarrow> 5 \<le> gs_interval g \<and> 1 \<le> gs_threshold g \<and> gs_threshold g \<le> 20
    \<and> 1 \<le> gs_window g \<and> gs_window g \<le> 1440 \<and> 50 \<le> gs_page g \<and> gs_page g \<le> 1000"

definition general_of :: "settings_table \<Rightarrow> general" where
  "general_of tbl = \<lparr>gs_interval = (case GetCheckIntervalMinutes tbl of None \<Rightarrow> default_interval | Some m \<Rightarrow> m),
     gs_threshold = fst (GetCrashLoopSettings tbl), gs_window = snd (GetCrashLoopSettings tbl), gs_page = GetLogsPageSize tbl\<rparr>"

lemma general_of_saved:
  assumes "general_ok g" "gs_interval g \<le> max_int64"
  shows "general_of (SetLogsPageSize (gs_page g) (SetCrashLoopSettings (gs_threshold g) (gs_window g)
    (SetCheckIntervalMinutes (gs_interval g) tbl))) = g"
proof -
  have "- max_int64 - 1 \<le> gs_interval g" "- max_int64 - 1 \<le> gs_threshold g" "gs_threshold g \<le> max_int64"
    "- max_int64 - 1 \<le> gs_window g" "gs_window g \<le> max_int64" "- max_int64 - 1 \<le> gs_page g" "gs_page g \<le> max_int64"
    using assms(1) by (simp_all add: general_ok_def max_int64_def)
  then show ?thesis
    using assms
    by (simp add: general_of_def general_ok_def GetCrashLoopSettings_def SetCrashLoopSettings_def positive_or_def
        GetLogsPageSize_def SetLogsPageSize_def GetCheckIntervalMinutes_def SetCheckIntervalMinutes_def row_simps setting_keys)
qed

lemma save_general_done:
  assumes "reliable (ck_engine k)"
  obtains s' where "save_general k aid g s = (Reply 200 g, s')"
    "cw_settings s' = SetLogsPageSize (gs_page g) (SetCrashLoopSettings (gs_threshold g) (gs_window g)
      (SetCheckIntervalMinutes (gs_interval g) (cw_settings s)))"
proof -
  obtain s1 where s1: "k_write k (SetCheckIntervalMinutes (gs_interval g)) s = (Some (), s1)"
    "cw_settings s1 = SetCheckIntervalMinutes (gs_interval g) (cw_settings s)" by (rule k_write_done[OF assms])
  obtain s2 where s2: "k_write k (SetCrashLoopSettings (gs_threshold g) (gs_window g)) s1 = (Some (), s2)"
    "cw_settings s2 = SetCrashLoopSettings (gs_threshold g) (gs_window g) (cw_settings s1)" by (rule k_write_done[OF assms])
  obtain s3 where s3: "k_write k (SetLogsPageSize (gs_page g)) s2 = (Some (), s3)"
    "cw_settings s3 = SetLogsPageSize (gs_page g) (cw_settings s2)" by (rule k_write_done[OF assms])
  let ?e = "k_emit k (event_of LevelInfo ''settings.crashloop_changed'' '''' ActorUser aid
    [(''threshold'', AInt (gs_threshold g)), (''window_minutes'', AInt (gs_window g))]) s3"
  have "save_general k aid g s = (Reply 200 g, ?e)" by (simp add: save_general_def s1(1) s2(1) s3(1))
  moreover have "cw_settings ?e = SetLogsPageSize (gs_page g) (SetCrashLoopSettings (gs_threshold g) (gs_window g)
      (SetCheckIntervalMinutes (gs_interval g) (cw_settings s)))"
    unfolding k_emit_settings s3(2) s2(2) s1(2) by (rule refl)
  ultimately show thesis by (rule that)
qed

lemma handleGetGeneralSettings_done:
  assumes "reliable (ck_engine k)"
  shows "fst (handleGetGeneralSettings k s) = Reply 200 (general_of (cw_settings s))"
proof -
  obtain s1 where s1: "k_read k GetCheckIntervalMinutes s = (Some (GetCheckIntervalMinutes (cw_settings s)), s1)" "cw_settings s1 = cw_settings s"
    by (rule k_read_done[OF assms])
  obtain s2 where s2: "k_read k GetCrashLoopSettings s1 = (Some (GetCrashLoopSettings (cw_settings s1)), s2)" "cw_settings s2 = cw_settings s1"
    by (rule k_read_done[OF assms])
  obtain s3 where s3: "k_read k GetLogsPageSize s2 = (Some (GetLogsPageSize (cw_settings s2)), s3)" "cw_settings s3 = cw_settings s2"
    by (rule k_read_done[OF assms])
  show ?thesis by (simp add: handleGetGeneralSettings_def general_of_def s1 s2 s3 split: prod.splits)
qed

lemma asked_done:
  assumes "reliable (ck_engine k)"
  obtains s' where "asked_interval k m s = (if m = 0 then gs_interval (general_of (cw_settings s)) else m, s')" "cw_settings s' = cw_settings s"
proof (cases "m = 0")
  case True
  obtain s1 where "k_read k GetCheckIntervalMinutes s = (Some (GetCheckIntervalMinutes (cw_settings s)), s1)" "cw_settings s1 = cw_settings s"
    by (rule k_read_done[OF assms])
  then show thesis using that[of s1] True by (simp add: asked_interval_def general_of_def split: option.splits)
next
  case False
  then show thesis using that[of s] by (simp add: asked_interval_def)
qed

lemma asked_page_done:
  assumes "reliable (ck_engine k)"
  obtains s' where "asked_page k n s = (if n = 0 then gs_page (general_of (cw_settings s)) else n, s')" "cw_settings s' = cw_settings s"
proof (cases "n = 0")
  case True
  obtain s1 where "k_read k GetLogsPageSize s = (Some (GetLogsPageSize (cw_settings s)), s1)" "cw_settings s1 = cw_settings s"
    by (rule k_read_done[OF assms])
  then show thesis using that[of s1] True by (simp add: asked_page_def general_of_def)
next
  case False
  then show thesis using that[of s] by (simp add: asked_page_def)
qed

text \<open>A request with the values in force where it has zeros.\<close>
definition asked_general :: "general \<Rightarrow> general \<Rightarrow> general" where
  "asked_general req cur = \<lparr>gs_interval = if gs_interval req = 0 then gs_interval cur else gs_interval req,
     gs_threshold = if gs_threshold req = 0 then gs_threshold cur else gs_threshold req,
     gs_window = if gs_window req = 0 then gs_window cur else gs_window req,
     gs_page = if gs_page req = 0 then gs_page cur else gs_page req\<rparr>"

lemma handleSetGeneralSettings_done:
  assumes "reliable (ck_engine k)"
  obtains s' where
    "handleSetGeneralSettings k aid (Some req) s =
       (if general_ok (asked_general req (general_of (cw_settings s)))
        then Reply 200 (asked_general req (general_of (cw_settings s))) else bad_request, s')"
    "cw_settings s' = (let g = asked_general req (general_of (cw_settings s)) in
       if general_ok g then SetLogsPageSize (gs_page g) (SetCrashLoopSettings (gs_threshold g) (gs_window g)
         (SetCheckIntervalMinutes (gs_interval g) (cw_settings s))) else cw_settings s)"
proof -
  define g where "g = asked_general req (general_of (cw_settings s))"
  obtain s1 where s1: "asked_interval k (gs_interval req) s = (gs_interval g, s1)" "cw_settings s1 = cw_settings s"
    using asked_done[OF assms, of "gs_interval req" s] by (auto simp: g_def asked_general_def)
  obtain s2 where s2: "k_read k GetCrashLoopSettings s1 = (Some (GetCrashLoopSettings (cw_settings s)), s2)" "cw_settings s2 = cw_settings s"
    using k_read_done[OF assms, of GetCrashLoopSettings s1] s1(2) by metis
  have page: "(if gs_page req = 0 then gs_page (general_of (cw_settings s)) else gs_page req) = gs_page g"
    by (simp add: g_def asked_general_def)
  obtain s3 where "asked_page k (gs_page req) s2 = (if gs_page req = 0 then gs_page (general_of (cw_settings s2)) else gs_page req, s3)"
    "cw_settings s3 = cw_settings s2" by (rule asked_page_done[OF assms])
  then have s3: "asked_page k (gs_page req) s2 = (gs_page g, s3)" "cw_settings s3 = cw_settings s"
    unfolding s2(2) page by this
  obtain s4 where s4: "save_general k aid g s3 = (Reply 200 g, s4)"
    "cw_settings s4 = SetLogsPageSize (gs_page g) (SetCrashLoopSettings (gs_threshold g) (gs_window g)
       (SetCheckIntervalMinutes (gs_interval g) (cw_settings s)))"
    using save_general_done[OF assms, of aid g s3] s3(2) by metis
  obtain ct cw where c: "GetCrashLoopSettings (cw_settings s) = (ct, cw)" by (rule prod.exhaust)
  have tw: "(if gs_threshold req = 0 then ct else gs_threshold req) = gs_threshold g" "(if gs_window req = 0 then cw else gs_window req) = gs_window g"
    by (simp_all add: g_def asked_general_def general_of_def c)
  have eta: "\<lparr>gs_interval = gs_interval g, gs_threshold = gs_threshold g, gs_window = gs_window g, gs_page = gs_page g\<rparr> = g" by simp
  let ?t = "gs_threshold g < 1 \<or> 20 < gs_threshold g \<or> gs_window g < 1 \<or> 1440 < gs_window g"
  have run: "handleSetGeneralSettings k aid (Some req) s =
      (if gs_interval g < 5 then (bad_request, s1) else if ?t then (bad_request, s2)
       else if gs_page g < 50 \<or> 1000 < gs_page g then (bad_request, s3) else (Reply 200 g, s4))"
    unfolding handleSetGeneralSettings_def option.case s1(1) prod.case s2(1) c Let_def tw s3(1) eta s4(1) by (rule refl)
  define s' where "s' = (if gs_interval g < 5 then s1 else if ?t then s2 else if gs_page g < 50 \<or> 1000 < gs_page g then s3 else s4)"
  have ok: "general_ok g \<longleftrightarrow> \<not> gs_interval g < 5 \<and> \<not> ?t \<and> \<not> (gs_page g < 50 \<or> 1000 < gs_page g)"
    by (simp add: general_ok_def not_less conj_ac)
  have "handleSetGeneralSettings k aid (Some req) s = (if general_ok g then Reply 200 g else bad_request, s')"
    unfolding run ok s'_def by simp
  moreover have "cw_settings s' = (let g = g in if general_ok g then SetLogsPageSize (gs_page g) (SetCrashLoopSettings (gs_threshold g) (gs_window g)
       (SetCheckIntervalMinutes (gs_interval g) (cw_settings s))) else cw_settings s)"
    unfolding ok s'_def Let_def using s1(2) s2(2) s3(2) s4(2) by simp
  ultimately show thesis unfolding g_def by (rule that)
qed

lemma currentCheckInterval_saved:
  assumes "reliable e" "GetCheckIntervalMinutes (wd_settings (sw_world s)) = Some m"
  shows "fst (currentCheckInterval e ci s) = wrap64 (m * 60 * nanos)"
proof -
  obtain d where "s_sql e (\<lambda>s. (GetCheckIntervalMinutes (wd_settings (sw_world s)), s)) s
      = (Some (Some m), s\<lparr>sw_world := (sw_world s)\<lparr>wd_env := d\<rparr>\<rparr>)"
    using s_sql_reliable[OF assms(1), of "\<lambda>s. (GetCheckIntervalMinutes (wd_settings (sw_world s)), s)" s] assms(2) by auto
  then show ?thesis by (simp add: currentCheckInterval_def)
qed

lemma wrap64_small: "0 \<le> x \<Longrightarrow> x < 2 ^ 63 \<Longrightarrow> wrap64 x = x"
  by (simp add: wrap64_def)

lemma saved_interval_read:
  assumes "5 \<le> m" "m \<le> max_int64"
  shows "GetCheckIntervalMinutes (SetLogsPageSize n (SetCrashLoopSettings t w (SetCheckIntervalMinutes m tbl))) = Some m"
proof -
  have "- max_int64 - 1 \<le> m" using assms by (simp add: max_int64_def)
  then show ?thesis using assms
    by (simp add: SetCrashLoopSettings_def SetLogsPageSize_def GetCheckIntervalMinutes_def SetCheckIntervalMinutes_def row_simps setting_keys)
qed

text \<open>C39: The general settings a request saves are in range and are what later requests read. While
  statements succeed, a request is answered with success exactly when its values, with the ones in force for
  its zeros, are in range; they are then what the settings page shows, and an interval of up to 153722867 minutes
  is what the scheduler waits, as a positive duration. There is no upper bound on the interval, and one of
  153722868 minutes makes that duration negative. A request that is refused changes nothing.\<close>

theorem general_settings_saved:
  assumes "reliable (ck_engine k)" "handleSetGeneralSettings k aid (Some req) s = (r, s')"
    and "g = asked_general req (general_of (cw_settings s))"
  shows "if general_ok g
    then r = Reply 200 g
      \<and> (gs_interval g \<le> max_int64 \<longrightarrow> fst (handleGetGeneralSettings k s') = Reply 200 g)
      \<and> (gs_interval g \<le> 153722867 \<longrightarrow> fst (currentCheckInterval (ck_engine k) ci (cw_sched s')) = gs_interval g * 60 * nanos)
      \<and> (gs_interval g = 153722868 \<longrightarrow> fst (currentCheckInterval (ck_engine k) ci (cw_sched s')) < 0)
    else r = bad_request \<and> cw_settings s' = cw_settings s"
proof -
  obtain s2 where s2: "handleSetGeneralSettings k aid (Some req) s = (if general_ok g then Reply 200 g else bad_request, s2)"
    "cw_settings s2 = (if general_ok g then SetLogsPageSize (gs_page g) (SetCrashLoopSettings (gs_threshold g) (gs_window g)
      (SetCheckIntervalMinutes (gs_interval g) (cw_settings s))) else cw_settings s)"
    using handleSetGeneralSettings_done[OF assms(1), of aid req s] unfolding assms(3)[symmetric] Let_def by metis
  have r: "r = (if general_ok g then Reply 200 g else bad_request)" "s2 = s'" using s2(1) assms(2) by simp_all
  show ?thesis
  proof (cases "general_ok g")
    case False
    then show ?thesis using r s2(2) by simp
  next
    case True
    have st: "cw_settings s' = SetLogsPageSize (gs_page g) (SetCrashLoopSettings (gs_threshold g) (gs_window g)
      (SetCheckIntervalMinutes (gs_interval g) (cw_settings s)))" using True r(2) s2(2) by simp
    have shown: "fst (handleGetGeneralSettings k s') = Reply 200 g" if "gs_interval g \<le> max_int64"
      unfolding handleGetGeneralSettings_done[OF assms(1)] st general_of_saved[OF True that] by (rule refl)
    have five: "5 \<le> gs_interval g" using True by (simp add: general_ok_def)
    have wait: "fst (currentCheckInterval (ck_engine k) ci (cw_sched s')) = wrap64 (gs_interval g * 60 * nanos)"
      if "gs_interval g \<le> max_int64"
      by (rule currentCheckInterval_saved[OF assms(1)]) (unfold st, rule saved_interval_read[OF five that])
    have "fst (currentCheckInterval (ck_engine k) ci (cw_sched s')) = gs_interval g * 60 * nanos" if "gs_interval g \<le> 153722867"
      unfolding wait[OF order_trans[OF that], unfolded max_int64_def, simplified]
      by (rule wrap64_small) (use five that in \<open>simp_all add: nanos_def\<close>)
    moreover have "fst (currentCheckInterval (ck_engine k) ci (cw_sched s')) < 0" if "gs_interval g = 153722868"
      using wait that by (simp add: max_int64_def nanos_def wrap64_def)
    ultimately show ?thesis using True r(1) shown by simp
  qed
qed

definition demo_ask :: "int \<Rightarrow> general" where
  "demo_ask w = \<lparr>gs_interval = 30, gs_threshold = 3, gs_window = w, gs_page = 0\<rparr>"

lemma demo_ask_simps:
  "asked_general (demo_ask 15) (general_of (cw_settings (demo_check_world [])))
    = \<lparr>gs_interval = 30, gs_threshold = 3, gs_window = 15, gs_page = 300\<rparr>"
  "general_ok \<lparr>gs_interval = 30, gs_threshold = 3, gs_window = 15, gs_page = 300\<rparr>"
  "\<not> general_ok (asked_general (demo_ask 2880) (general_of (cw_settings (demo_check_world []))))"
  by code_simp+

text \<open>A request that leaves the page size as it is saves the rest; one with a window of two days is refused.\<close>
theorem general_settings_saved_witness:
  "(let s = demo_check_world []; p = handleSetGeneralSettings demo_checker ''user:1'' (Some (demo_ask 15)) s
    in fst p = Reply 200 \<lparr>gs_interval = 30, gs_threshold = 3, gs_window = 15, gs_page = 300\<rparr>
      \<and> fst (handleGetGeneralSettings demo_checker (snd p)) = fst p
      \<and> fst (currentCheckInterval (ck_engine demo_checker) 0 (cw_sched (snd p))) = 1800000000000
      \<and> fst (handleSetGeneralSettings demo_checker ''user:1'' (Some (demo_ask 2880)) s) = bad_request)"
proof -
  let ?s = "demo_check_world []"
  have p: "fst (handleSetGeneralSettings demo_checker ''user:1'' (Some (demo_ask 15)) ?s)
      = Reply 200 \<lparr>gs_interval = 30, gs_threshold = 3, gs_window = 15, gs_page = 300\<rparr>
    \<and> fst (handleGetGeneralSettings demo_checker (snd (handleSetGeneralSettings demo_checker ''user:1'' (Some (demo_ask 15)) ?s)))
      = Reply 200 \<lparr>gs_interval = 30, gs_threshold = 3, gs_window = 15, gs_page = 300\<rparr>
    \<and> fst (currentCheckInterval (ck_engine demo_checker) 0 (cw_sched (snd (handleSetGeneralSettings demo_checker ''user:1'' (Some (demo_ask 15)) ?s))))
      = 1800000000000"
    using general_settings_saved[OF demo_checker_reliable surjective_pairing demo_ask_simps(1)[symmetric], where aid = "''user:1''" and ci = 0]
      demo_ask_simps(2) by (simp add: max_int64_def nanos_def)
  have q: "fst (handleSetGeneralSettings demo_checker ''user:1'' (Some (demo_ask 2880)) ?s) = bad_request"
    using general_settings_saved[OF demo_checker_reliable surjective_pairing refl, where aid = "''user:1''" and req = "demo_ask 2880" and s = ?s]
      demo_ask_simps(3) by simp
  show ?thesis unfolding Let_def using p q by simp
qed

section \<open>A key works from its creation to its revocation\<close>

text \<open>The key of the hash has the number and the assignment given.\<close>
definition key_live :: "string \<Rightarrow> int \<Rightarrow> AccessControl \<Rightarrow> auth_db \<Rightarrow> bool" where
  "key_live h i a db \<longleftrightarrow> keys_distinct k_hash (api_keys db) \<and> (\<forall>r \<in> set (api_keys db). k_id r < next_key_id db)
    \<and> i < next_key_id db \<and> map_option k_id (get_row k_hash h (api_keys db)) = Some i \<and> access_of ''api_key'' i db = Some a"

definition same_keys :: "auth_db \<Rightarrow> auth_db \<Rightarrow> bool" where
  "same_keys db db' \<longleftrightarrow> api_keys db' = api_keys db \<and> next_key_id db' = next_key_id db
    \<and> (\<forall>j. access_of ''api_key'' j db' = access_of ''api_key'' j db)"

lemma same_keys_refl [simp]: "same_keys db db"
  by (simp add: same_keys_def)

lemma same_keys_trans: "same_keys a b \<Longrightarrow> same_keys b c \<Longrightarrow> same_keys a c"
  by (simp add: same_keys_def)

lemma same_keys_live: "same_keys db db' \<Longrightarrow> key_live h i a db \<Longrightarrow> key_live h i a db'"
  by (simp add: same_keys_def key_live_def)

lemma SetAccess_other:
  assumes "SetAccess ptype pid b db = (r, db')"
  shows "api_keys db' = api_keys db" "next_key_id db' = next_key_id db"
    and "(ptype, pid) \<noteq> (''api_key'', j) \<Longrightarrow> access_of ''api_key'' j db' = access_of ''api_key'' j db"
proof -
  show "api_keys db' = api_keys db" "next_key_id db' = next_key_id db"
    using assms by (auto simp: SetAccess_def split: if_splits)
  assume "(ptype, pid) \<noteq> (''api_key'', j)"
  then show "access_of ''api_key'' j db' = access_of ''api_key'' j db"
    using assms access_after_set(1)[of ptype pid b db db' "''api_key''" j] SetAccess_failed[of ptype pid b db _ db']
    by (cases r) auto
qed

lemma SetAccess_user_same: "same_keys db (snd (SetAccess ''user'' uid b db))"
proof -
  obtain r db' where q: "SetAccess ''user'' uid b db = (r, db')" by (rule prod.exhaust)
  show ?thesis using SetAccess_other[OF q] by (simp add: q same_keys_def)
qed

lemma accessFor_other:
  assumes "accessFor ptype pid db = (r, db')"
  shows "api_keys db' = api_keys db" "next_key_id db' = next_key_id db"
    and "(ptype, pid) \<noteq> (''api_key'', j) \<or> access_of ptype pid db \<noteq> None \<Longrightarrow> access_of ''api_key'' j db' = access_of ''api_key'' j db"
proof -
  obtain r1 d1 where q: "SetAccess ptype pid (plain_access ''admin'') db = (r1, d1)" by (rule prod.exhaust)
  have d: "db' = db \<or> access_of ptype pid db = None \<and> db' = d1"
    using assms q by (auto simp: accessFor_def accessForExisting_def access_of_def split: option.splits)
  show "api_keys db' = api_keys db" "next_key_id db' = next_key_id db" using d SetAccess_other[OF q] by auto
  assume a: "(ptype, pid) \<noteq> (''api_key'', j) \<or> access_of ptype pid db \<noteq> None"
  show "access_of ''api_key'' j db' = access_of ''api_key'' j db"
  proof (cases "db' = db")
    case False
    then have n: "access_of ptype pid db = None" "db' = d1" using d by simp_all
    then have "(ptype, pid) \<noteq> (''api_key'', j)" using a by simp
    then show ?thesis unfolding n(2) by (rule SetAccess_other(3)[OF q])
  qed simp
qed

lemma accessFor_user_same: "same_keys db (snd (accessFor ''user'' uid db))"
proof -
  obtain r db' where q: "accessFor ''user'' uid db = (r, db')" by (rule prod.exhaust)
  show ?thesis using accessFor_other[OF q] by (simp add: q same_keys_def)
qed

lemma with_access_same: "same_keys db (snd (with_access row db))"
proof (cases row)
  case (Some u)
  have "snd (with_access row db) = snd (accessFor ''user'' (u_id u) db)"
    by (simp add: Some with_access_def split: prod.splits sum.splits)
  then show ?thesis by (simp only: accessFor_user_same)
qed (simp add: with_access_def)

lemma insert_user_same: "same_keys db (snd (insert_user n h m p sub t db))"
  by (simp add: insert_user_def same_keys_def access_of_def)

lemma delete_row_same: "same_keys db (delete_user_row uid db)"
  by (simp add: delete_user_row_def same_keys_def access_of_def)

lemma CreateUserWithAccess_same: "same_keys db (snd (CreateUserWithAccess n h m b t db))"
proof -
  obtain r db1 where i: "insert_user n h m ''local'' None t db = (r, db1)" by (rule prod.exhaust)
  have g: "same_keys db db1" using insert_user_same[of db n h m "''local''" None t] i by simp
  have s: "same_keys db (snd (SetAccess ''user'' uid c db1))" for uid c by (rule same_keys_trans[OF g SetAccess_user_same])
  have d: "same_keys db (delete_user_row uid (snd (SetAccess ''user'' uid c db1)))" for uid c
    by (rule same_keys_trans[OF s delete_row_same])
  let ?c = "if length (users db) = 0 then (plain_access ''admin'')\<lparr>ac_protected := True\<rparr> else b"
  show ?thesis
  proof (cases r)
    case (Inr uid)
    then show ?thesis using i s[of uid ?c] d[of uid ?c]
      unfolding CreateUserWithAccess_def Let_def by (auto split: prod.splits option.splits)
  qed (use i g in \<open>simp add: CreateUserWithAccess_def Let_def\<close>)
qed

lemma get_row_delete_where: "(\<And>r. key r = k \<Longrightarrow> \<not> p r) \<Longrightarrow> get_row key k (delete_where p rows) = get_row key k rows"
  by (induction rows) (auto simp: delete_where_def row_simps)

lemma DeleteUser_same: "same_keys db (snd (DeleteUser uid db))"
proof -
  obtain r db1 where q: "accessFor ''user'' uid db = (r, db1)" by (rule prod.exhaust)
  have g: "same_keys db db1" using accessFor_user_same[of db uid] q by simp
  have "same_keys db1 ((delete_user_row uid db1)\<lparr>rbac := delete_where (\<lambda>r. ra_principal r = (''user'', uid)) (rbac db1)\<rparr>)"
    by (simp add: same_keys_def delete_user_row_def access_of_def get_row_delete_where)
  then show ?thesis using q g same_keys_trans[OF g] by (simp add: DeleteUser_def split: sum.splits)
qed

lemma OIDC_same: "same_keys db (snd (GetOrCreateOIDCUser sub n t db))"
proof (cases "get_row u_oidc_subject (Some sub) (users db)")
  case (Some u)
  then show ?thesis using with_access_same[of db "Some u"] by (simp add: GetOrCreateOIDCUser_def)
next
  case None
  define attempt where "attempt = insert_user n '''' False ''oidc'' (Some sub) t db"
  define n' where "n' = (case fst attempt of Inr _ \<Rightarrow> n | Inl _ \<Rightarrow> n @ ''-'' @ take 8 sub)"
  define final where "final = (case fst attempt of Inr _ \<Rightarrow> attempt | Inl _ \<Rightarrow> insert_user n' '''' False ''oidc'' (Some sub) t db)"
  obtain r db1 where f: "final = (r, db1)" by (rule prod.exhaust)
  have "same_keys db (snd final)" by (simp add: final_def attempt_def insert_user_same split: sum.split)
  then have g: "same_keys db db1" by (simp add: f)
  have s: "same_keys db (snd (SetAccess ''user'' uid c db1))" for uid c by (rule same_keys_trans[OF g SetAccess_user_same])
  have run: "GetOrCreateOIDCUser sub n t db = (case final of (Inl err, db') \<Rightarrow> (Inl err, db')
      | (Inr uid, db') \<Rightarrow> (case SetAccess ''user'' uid (plain_access ''read'') db' of
          (Some err, db'') \<Rightarrow> (Inl err, db'')
        | (None, db'') \<Rightarrow> (Inr (\<lparr>u_id = uid, u_username = n', u_password_hash = '''', u_must_change_password = False,
            u_auth_provider = ''oidc'', u_oidc_subject = Some sub, u_created_at = t\<rparr>, plain_access ''read''), db'')))"
    unfolding GetOrCreateOIDCUser_def None option.case(1) Let_def final_def n'_def attempt_def by (rule refl)
  show ?thesis
  proof (cases r)
    case (Inr uid)
    then show ?thesis unfolding run f using s[of uid "plain_access ''read''"] by (auto split: prod.splits option.splits)
  qed (use run f g in simp)
qed

lemma other_key_rows:
  assumes "key_live h i a db" "SetAccess ''api_key'' (next_key_id db) b (db\<lparr>api_keys := ks, next_key_id := n\<rparr>) = (r, d)"
  shows "access_of ''api_key'' i d = Some a"
proof -
  have "(''api_key'', next_key_id db) \<noteq> (''api_key'', i)" using assms(1) by (simp add: key_live_def)
  from SetAccess_other(3)[OF assms(2) this] show ?thesis using assms(1) by (simp add: key_live_def access_of_def)
qed

lemma CreateAPIKey_live:
  assumes "key_live h i a db"
  shows "key_live h i a (snd (CreateAPIKeyWithAccess name h' p b t db))"
proof (cases "access_valid b \<and> h' \<notin> set (map k_hash (api_keys db))")
  case True
  define new where "new = \<lparr>k_id = next_key_id db, k_name = name, k_hash = h', k_prefix = p, k_created_at = t, k_last_used_at = None\<rparr>"
  define db1 where "db1 = db\<lparr>api_keys := api_keys db @ [new], next_key_id := next_key_id db + 1\<rparr>"
  obtain r d where q: "SetAccess ''api_key'' (next_key_id db) b db1 = (r, d)" by (rule prod.exhaust)
  have acc: "access_of ''api_key'' i d = Some a" by (rule other_key_rows[OF assms q[unfolded db1_def]])
  have d: "api_keys d = api_keys db @ [new]" "next_key_id d = next_key_id db + 1" using SetAccess_other(1,2)[OF q] by (simp_all add: db1_def)
  have live: "key_live h i a d"
    using assms True acc d by (auto simp: key_live_def keys_distinct_def new_def row_simps)
  have drop: "delete_where (\<lambda>k. k_id k = next_key_id db) (api_keys d) = api_keys db"
    using assms unfolding d by (auto simp: key_live_def delete_where_def new_def filter_id_conv)
  have "key_live h i a (d\<lparr>api_keys := api_keys db\<rparr>)"
    using assms acc d(2) by (auto simp: key_live_def access_of_def)
  then show ?thesis using True q live drop
    by (simp add: CreateAPIKeyWithAccess_def Let_def new_def db1_def split: option.split)
qed (use assms in \<open>auto simp: CreateAPIKeyWithAccess_def\<close>)

lemma AuthenticateAPIKey_live:
  assumes "key_live h i a db"
  shows "key_live h i a (snd (AuthenticateAPIKey h' t db))"
proof (cases "get_row k_hash h' (api_keys db)")
  case (Some r)
  obtain res d where q: "accessFor ''api_key'' (k_id r) db = (res, d)" by (rule prod.exhaust)
  have "access_of ''api_key'' i db = Some a" using assms by (simp add: key_live_def)
  then have acc: "access_of ''api_key'' i d = Some a" using accessFor_other(3)[OF q, of i] by (cases "k_id r = i") auto
  note d = accessFor_other(1,2)[OF q]
  have k: "map_option k_id (get_row k_hash h (update_where (\<lambda>x. k_id x = k_id r) (\<lambda>x. x\<lparr>k_last_used_at := Some t\<rparr>) (api_keys db)))
      = map_option k_id (get_row k_hash h (api_keys db))"
    by (simp add: get_update_where option.map_comp o_def if_distrib cong: if_cong)
  have ids: "(\<forall>x \<in> set (update_where q (\<lambda>x. x\<lparr>k_last_used_at := Some t\<rparr>) ks). k_id x < n) \<longleftrightarrow> (\<forall>x \<in> set ks. k_id x < n)" for q ks n
    by (induction ks) (auto simp: update_where_def)
  have "key_live h i a (d\<lparr>api_keys := update_where (\<lambda>x. k_id x = k_id r) (\<lambda>x. x\<lparr>k_last_used_at := Some t\<rparr>) (api_keys d)\<rparr>)"
    using assms acc by (simp add: key_live_def d k ids access_of_def update_where_distinct)
  moreover have "key_live h i a d" using assms acc by (simp add: key_live_def d)
  ultimately show ?thesis using Some q by (simp add: AuthenticateAPIKey_def split: sum.split)
qed (use assms in \<open>simp add: AuthenticateAPIKey_def\<close>)

lemma RevokeAPIKey_live:
  assumes "key_live h i a db" "j \<noteq> i"
  shows "key_live h i a (snd (RevokeAPIKey j db))"
proof -
  have "map_option k_id (get_row k_hash h (delete_where (\<lambda>k. k_id k = j) (api_keys db))) = Some i"
    using assms by (auto simp: key_live_def get_delete_where)
  then have "key_live h i a (db\<lparr>api_keys := delete_where (\<lambda>k. k_id k = j) (api_keys db)\<rparr>)"
    using assms(1) by (auto simp: key_live_def delete_where_distinct access_of_def) (simp add: delete_where_def)
  then show ?thesis by (simp add: RevokeAPIKey_def Let_def)
qed

lemma exec_live:
  assumes "key_live h i a db" "op \<noteq> OpRevokeKey i" "\<forall>b. op \<noteq> OpSetAccess ''api_key'' i b"
  shows "key_live h i a (exec op db)"
proof -
  have same: ?thesis if "same_keys db (exec op db)" using that assms(1) by (rule same_keys_live)
  show ?thesis
  proof (cases op)
    case (OpSetAccess ptype j b)
    obtain r d where q: "SetAccess ptype j b db = (r, d)" by (rule prod.exhaust)
    have "(ptype, j) \<noteq> (''api_key'', i)" using assms(3) OpSetAccess by blast
    from SetAccess_other(3)[OF q this] show ?thesis
      using assms(1) SetAccess_other(1,2)[OF q] by (simp add: key_live_def OpSetAccess q)
  next
    case (OpRevokeKey j)
    then show ?thesis using RevokeAPIKey_live[OF assms(1)] assms(2) by simp
  next
    case (OpSessionUser tok t)
    then show ?thesis by (intro same) (simp add: SessionUser_def with_access_same split: option.split)
  next
    case (OpUpdatePassword j w)
    then show ?thesis by (intro same) (simp add: UpdatePassword_def Let_def same_keys_def access_of_def)
  next
    case (OpCreateSession tok j ttl t)
    then show ?thesis by (intro same) (simp add: CreateSession_def same_keys_def access_of_def)
  next
    case (OpDeleteSession tok)
    then show ?thesis by (intro same) (simp add: DeleteSession_def same_keys_def access_of_def)
  next
    case (OpDeleteOtherSessions j keep)
    then show ?thesis by (intro same) (simp add: DeleteOtherSessions_def same_keys_def access_of_def)
  qed (use assms(1) same in \<open>simp_all add: CreateUserWithAccess_same DeleteUser_same GetUserByID_def
      GetUserByUsername_def with_access_same OIDC_same CreateAPIKey_live AuthenticateAPIKey_live\<close>)
qed

lemma run_live:
  assumes "key_live h i a db" "\<forall>op \<in> set ops. op \<noteq> OpRevokeKey i \<and> (\<forall>b. op \<noteq> OpSetAccess ''api_key'' i b)"
  shows "key_live h i a (fold exec ops db)"
  using assms by (induction ops arbitrary: db) (simp_all add: exec_live)

lemma live_key_resolves:
  assumes "key_live h i a db"
  obtains k db' where "AuthenticateAPIKey h t db = (Inr (k, a), db')" "k_id k = i"
proof -
  obtain k where k: "get_row k_hash h (api_keys db) = Some k" "k_id k = i" using assms by (auto simp: key_live_def)
  have "accessFor ''api_key'' i db = (Inr a, db)"
    using assms by (auto simp: key_live_def accessFor_def accessForExisting_def access_of_def split: option.splits)
  then show thesis using k by (intro that[of k]) (simp_all add: AuthenticateAPIKey_def)
qed

lemma revoked_key_gone:
  assumes "key_live h i a db"
  obtains db' where "RevokeAPIKey i db = (None, db')" "AuthenticateAPIKey h t db' = (Inl ErrNotFound, db')"
proof -
  obtain k where k: "get_row k_hash h (api_keys db) = Some k" "k_id k = i" using assms by (auto simp: key_live_def)
  then have "rows_affected (\<lambda>k. k_id k = i) (api_keys db) \<noteq> 0"
    using get_row_SomeD[OF k(1)] rows_affected_pos[of "\<lambda>k. k_id k = i" "api_keys db"] by auto
  moreover have "get_row k_hash h (delete_where (\<lambda>k. k_id k = i) (api_keys db)) = None"
    using assms k by (simp add: key_live_def get_delete_where)
  ultimately show thesis
    by (intro that[of "db\<lparr>api_keys := delete_where (\<lambda>k. k_id k = i) (api_keys db)\<rparr>"])
      (simp_all add: RevokeAPIKey_def AuthenticateAPIKey_def Let_def)
qed

lemma created_key_live:
  assumes "CreateAPIKeyWithAccess name h p a t db = (Inr i, db')" "keys_distinct k_hash (api_keys db)"
    and "\<forall>r \<in> set (api_keys db). k_id r < next_key_id db" "access_of ''api_key'' (next_key_id db) db = None"
  shows "i = next_key_id db" "key_live h i a db'"
proof -
  define new where "new = \<lparr>k_id = next_key_id db, k_name = name, k_hash = h, k_prefix = p, k_created_at = t, k_last_used_at = None\<rparr>"
  define db1 where "db1 = db\<lparr>api_keys := api_keys db @ [new], next_key_id := next_key_id db + 1\<rparr>"
  obtain r d where q: "SetAccess ''api_key'' (next_key_id db) a db1 = (r, d)" by (rule prod.exhaust)
  have ok: "h \<notin> set (map k_hash (api_keys db))" "r = None" "i = next_key_id db" "d = db'"
    using assms(1) q by (auto simp: CreateAPIKeyWithAccess_def Let_def new_def db1_def split: if_splits option.splits)
  show "i = next_key_id db" by (rule ok(3))
  have "access_of ''api_key'' (next_key_id db) db1 = None" using assms(4) by (simp add: db1_def access_of_def)
  then have acc: "access_of ''api_key'' i d = Some a"
    using access_after_set(1)[OF q[unfolded ok(2)], of "''api_key''" i] by (simp add: ok(3))
  have "get_row k_hash h (api_keys db) = None" using ok(1) by (simp add: get_row_None)
  then show "key_live h i a db'"
    using assms(2,3) ok(1,3) acc SetAccess_other(1,2)[OF q] unfolding ok(4)[symmetric]
    by (auto simp: key_live_def keys_distinct_def db1_def new_def row_simps)
qed

definition key_access :: "AccessControl \<Rightarrow> AccessControl" where
  "key_access a0 = access_model (if ac_role a0 = '''' then a0\<lparr>ac_role := ''admin''\<rparr> else a0)"

lemma handleCreateAPIKey_done:
  assumes "handleCreateAPIKey sha (Some t) (Some (name, a0)) cx at db = (Reply 201 (i, p, t'), db1, evs)"
  shows "p = take 8 t" "t' = t" "CreateAPIKeyWithAccess name (sha t) (take 8 t) (key_access a0) at db = (Inr i, db1)"
  using assms by (auto simp: handleCreateAPIKey_def key_access_def Let_def split: if_splits prod.splits sum.splits)

text \<open>C26: An API key works from its creation to its revocation. Whatever the store does in between, short of
  assigning the key other rights, a request that bears the key passes the check with the rights asked for at its
  creation (those of an administrator when no role was named); revoking it succeeds, and from then on the same
  request is turned away. The row stored for the key holds its hash and first eight characters only.\<close>

theorem created_key_works_until_revoked:
  assumes "handleCreateAPIKey sha (Some t) (Some (name, a0)) cx at db = (Reply 201 (i, p, t'), db1, evs)"
    and "keys_distinct k_hash (api_keys db)" "\<forall>r \<in> set (api_keys db). k_id r < next_key_id db"
    and "access_of ''api_key'' (next_key_id db) db = None"
    and "\<forall>op \<in> set ops. op \<noteq> OpRevokeKey i \<and> (\<forall>b. op \<noteq> OpSetAccess ''api_key'' i b)"
    and "\<not> hr_trusted r" "header_get ''Authorization'' r = ''Bearer '' @ t'" "Atoi path = Some i"
    and "db2 = fold exec ops db1"
  shows "(t' = t \<and> p = take 8 t \<and> (\<exists>row. api_keys db1 = api_keys db @ [row] \<and> k_hash row = sha t \<and> k_prefix row = p))
    \<and> fst (RequireAuth sha tu r db2) = Pass \<lparr>cx_actor = ''api-key'', cx_user = None, cx_access = key_access a0\<rparr>
    \<and> (\<exists>db3 evs'. handleRevokeAPIKey path cx' db2 = (Reply 200 (), db3, evs')
      \<and> RequireAuth sha tr r db3 = (Deny (writeUnauthorized r), db3))"
proof (intro conjI)
  note c = handleCreateAPIKey_done[OF assms(1)]
  have "\<exists>row. api_keys db1 = api_keys db @ [row] \<and> k_hash row = sha t \<and> k_prefix row = take 8 t"
    using c(3) by (auto simp: CreateAPIKeyWithAccess_def Let_def dest!: SetAccess_other(1) split: if_splits option.splits prod.splits)
  then show "t' = t" "p = take 8 t" "\<exists>row. api_keys db1 = api_keys db @ [row] \<and> k_hash row = sha t \<and> k_prefix row = p"
    using c(1,2) by simp_all
  have live: "key_live (sha t) i (key_access a0) db2"
    unfolding assms(9) by (rule run_live[OF created_key_live(2)[OF c(3) assms(2-4)] assms(5)])
  have bearer: "has_prefix (header_get ''Authorization'' r) ''Bearer ''" "trim_prefix (header_get ''Authorization'' r) ''Bearer '' = t"
    unfolding assms(7) c(2) by (simp_all only: trim_prefix_append has_prefix_iff) blast
  obtain k d where k: "AuthenticateAPIKey (sha t) tu db2 = (Inr (k, key_access a0), d)" by (rule live_key_resolves[OF live])
  show "fst (RequireAuth sha tu r db2) = Pass \<lparr>cx_actor = ''api-key'', cx_user = None, cx_access = key_access a0\<rparr>"
    using assms(6) k by (simp add: RequireAuth_def bearer)
  obtain db3 where g: "RevokeAPIKey i db2 = (None, db3)" "AuthenticateAPIKey (sha t) tr db3 = (Inl ErrNotFound, db3)"
    by (rule revoked_key_gone[OF live])
  have "RequireAuth sha tr r db3 = (Deny (writeUnauthorized r), db3)" using assms(6) g(2) by (simp add: RequireAuth_def bearer)
  then show "\<exists>db3 evs'. handleRevokeAPIKey path cx' db2 = (Reply 200 (), db3, evs')
      \<and> RequireAuth sha tr r db3 = (Deny (writeUnauthorized r), db3)"
    using assms(8) g(1) by (simp add: handleRevokeAPIKey_def)
qed

definition demo_hash :: "string \<Rightarrow> string" where
  "demo_hash t = ''#'' @ t"

definition demo_admin_context :: req_context where
  "demo_admin_context = \<lparr>cx_actor = ''ann'', cx_user = None, cx_access = plain_access ''admin''\<rparr>"

definition demo_create_key :: "(int \<times> string \<times> string) reply \<times> auth_db \<times> event list" where
  "demo_create_key = handleCreateAPIKey demo_hash (Some ''0123456789ab'') (Some (''ci'', plain_access '''')) demo_admin_context 7 empty_auth"

definition demo_key_request :: http_request where
  "demo_key_request = \<lparr>hr_method = ''POST'', hr_path = ''/api/v1/check'', hr_headers = [(''Authorization'', ''Bearer 0123456789ab'')],
     hr_cookies = [], hr_form = [], hr_trusted = False, hr_tls = True, hr_remote_addr = ''''\<rparr>"

lemma demo_create_key_run:
  "demo_create_key = (Reply 201 (1, ''01234567'', ''0123456789ab''), fst (snd demo_create_key), snd (snd demo_create_key))"
  "keys_distinct k_hash (api_keys empty_auth)" "\<forall>r \<in> set (api_keys empty_auth). k_id r < next_key_id empty_auth"
  "access_of ''api_key'' (next_key_id empty_auth) empty_auth = None"
  "\<not> hr_trusted demo_key_request" "header_get ''Authorization'' demo_key_request = ''Bearer '' @ ''0123456789ab''" "Atoi ''1'' = Some 1"
  "key_access (plain_access '''') = plain_access ''admin''"
  by code_simp+

text \<open>A key created with no role, used by a script after a look-up of a user and another use of the key.\<close>
theorem created_key_works_until_revoked_witness:
  "(let db2 = fold exec [OpGetUserByName ''ann'', OpAuthKey ''#0123456789ab'' 8] (fst (snd demo_create_key));
        q = handleRevokeAPIKey ''1'' demo_admin_context db2
    in fst (RequireAuth demo_hash 9 demo_key_request db2)
         = Pass \<lparr>cx_actor = ''api-key'', cx_user = None, cx_access = plain_access ''admin''\<rparr>
      \<and> fst q = Reply 200 ()
      \<and> fst (RequireAuth demo_hash 11 demo_key_request (fst (snd q))) = Deny (writeUnauthorized demo_key_request))"
proof -
  let ?ops = "[OpGetUserByName ''ann'', OpAuthKey ''#0123456789ab'' 8]"
  have ops: "\<forall>op \<in> set ?ops. op \<noteq> OpRevokeKey 1 \<and> (\<forall>b. op \<noteq> OpSetAccess ''api_key'' 1 b)" by simp
  have run: "handleCreateAPIKey demo_hash (Some ''0123456789ab'') (Some (''ci'', plain_access '''')) demo_admin_context 7 empty_auth
      = (Reply 201 (1, ''01234567'', ''0123456789ab''), fst (snd demo_create_key), snd (snd demo_create_key))"
    unfolding demo_create_key_def[symmetric] by (rule demo_create_key_run(1))
  note works = created_key_works_until_revoked[OF run demo_create_key_run(2-4) ops demo_create_key_run(5-7) refl,
      where tu = 9 and tr = 11 and cx' = demo_admin_context]
  obtain db3 evs' where "handleRevokeAPIKey ''1'' demo_admin_context (fold exec ?ops (fst (snd demo_create_key))) = (Reply 200 (), db3, evs')"
    "RequireAuth demo_hash 11 demo_key_request db3 = (Deny (writeUnauthorized demo_key_request), db3)"
    using works by blast
  then show ?thesis using works unfolding Let_def demo_create_key_run(8) by simp
qed

end
