(* ===== verification/Secrets.thy ===== *)
theory Secrets
  imports Settings
begin

text \<open>
  \<^verbatim>\<open>internal/secrets/secrets.go\<close> and \<^verbatim>\<open>internal/store/secrets.go\<close>: reversible secrets are
  encrypted before they are stored. The block cipher is a parameter, a function that seals a text
  under a nonce and one that opens it again; the text format around it, base64 included, is the
  program's. A byte is a \<^typ>\<open>char\<close>.
\<close>

section \<open>Base64 without padding\<close>

definition b64_alphabet :: string where
  "b64_alphabet = ''ABCDEFGHIJKLMNOPQRSTUVWXYZabcdefghijklmnopqrstuvwxyz0123456789+/''"

definition b64_char :: "nat \<Rightarrow> char" where
  "b64_char n = b64_alphabet ! (n mod 64)"

definition b64_val :: "char \<Rightarrow> nat option" where
  "b64_val c = map_option fst (find (\<lambda>(i, x). x = c) (enumerate 0 b64_alphabet))"

fun b64_groups :: "nat list \<Rightarrow> nat list" where
  "b64_groups [] = []"
| "b64_groups [a] = [a div 4, a mod 4 * 16]"
| "b64_groups [a, b] = [a div 4, a mod 4 * 16 + b div 16, b mod 16 * 4]"
| "b64_groups (a # b # c # r) = a div 4 # (a mod 4 * 16 + b div 16) # (b mod 16 * 4 + c div 64) # c mod 64 # b64_groups r"

fun b64_bytes :: "nat list \<Rightarrow> nat list option" where
  "b64_bytes [] = Some []"
| "b64_bytes [w] = None"
| "b64_bytes [w, x] = Some [w * 4 + x div 16]"
| "b64_bytes [w, x, y] = Some [w * 4 + x div 16, x mod 16 * 16 + y div 4]"
| "b64_bytes (w # x # y # z # r) =
    map_option (\<lambda>bs. (w * 4 + x div 16) # (x mod 16 * 16 + y div 4) # (y mod 4 * 64 + z) # bs) (b64_bytes r)"

definition EncodeToString :: "string \<Rightarrow> string" where
  "EncodeToString s = map b64_char (b64_groups (map of_char s))"

text \<open>Line ends are skipped, spare bits of the last group are not looked at.\<close>
definition DecodeString :: "string \<Rightarrow> string option" where
  "DecodeString s =
    (let vs = map b64_val (filter (\<lambda>c. c \<noteq> CHR 0x0A \<and> c \<noteq> CHR 0x0D) s)
     in if None \<in> set vs then None else map_option (map char_of) (b64_bytes (map the vs)))"

lemma b64_val_char: "n < 64 \<Longrightarrow> b64_val (b64_char n) = Some n \<and> b64_char n \<noteq> CHR 0x0A \<and> b64_char n \<noteq> CHR 0x0D"
proof -
  have "\<forall>n \<in> set [0..<64]. b64_val (b64_char n) = Some n \<and> b64_char n \<noteq> CHR 0x0A \<and> b64_char n \<noteq> CHR 0x0D"
    by code_simp
  then show "n < 64 \<Longrightarrow> ?thesis" by simp
qed

lemma b64_groups_small: "list_all (\<lambda>a. a < 256) as \<Longrightarrow> list_all (\<lambda>n. n < 64) (b64_groups as)"
  by (induction as rule: b64_groups.induct) auto

lemma b64_bytes_groups: "list_all (\<lambda>a. a < 256) as \<Longrightarrow> b64_bytes (b64_groups as) = Some as"
  by (induction as rule: b64_groups.induct) auto

lemma decode_values:
  "list_all (\<lambda>n. n < 64) ns \<Longrightarrow> DecodeString (map b64_char ns) = map_option (map char_of) (b64_bytes ns)"
proof -
  assume a: "list_all (\<lambda>n. n < 64) ns"
  then have f: "filter (\<lambda>c. c \<noteq> CHR 0x0A \<and> c \<noteq> CHR 0x0D) (map b64_char ns) = map b64_char ns"
    using b64_val_char by (induction ns) auto
  from a have v: "map b64_val (map b64_char ns) = map Some ns" using b64_val_char by (induction ns) auto
  show ?thesis unfolding DecodeString_def f Let_def v by (auto simp: comp_def)
qed

lemma decode_encode [simp]: "DecodeString (EncodeToString s) = Some s"
proof -
  have "list_all (\<lambda>a. a < 256) (map of_char s :: nat list)"
    by (simp add: list_all_iff)
  then show ?thesis
    unfolding EncodeToString_def by (simp add: decode_values b64_groups_small b64_bytes_groups comp_def)
qed

section \<open>Encryption\<close>

record aead =
  NonceSize :: nat
  Seal :: "string \<Rightarrow> string \<Rightarrow> string"
  Open :: "string \<Rightarrow> string \<Rightarrow> string option"

datatype secret_error = KeyLength | NoRandom | BadBase64 | Truncated | WrongKey | NotConfigured

definition enc_prefix :: string where "enc_prefix = ''enc:v1:''"

definition IsEncrypted :: "string \<Rightarrow> bool" where
  "IsEncrypted v \<longleftrightarrow> has_prefix v enc_prefix"

text \<open>\<^term>\<open>cipher_of\<close> stands for the AES-GCM constructors, which accept a key of this length.\<close>
definition New_cipher :: "(string \<Rightarrow> aead) \<Rightarrow> string \<Rightarrow> (secret_error, aead) result" where
  "New_cipher cipher_of key = (if length key \<noteq> 32 then Inl KeyLength else Inr (cipher_of key))"

text \<open>The nonce is what the random source answers; \<^verbatim>\<open>Seal\<close> appends to the nonce.\<close>
definition Encrypt :: "aead \<Rightarrow> string option \<Rightarrow> string \<Rightarrow> (secret_error, string) result" where
  "Encrypt c random plaintext =
    (if IsEncrypted plaintext then Inr plaintext
     else case random of
       None \<Rightarrow> Inl NoRandom
     | Some nonce \<Rightarrow> Inr (enc_prefix @ EncodeToString (nonce @ Seal c nonce plaintext)))"

definition Decrypt :: "aead \<Rightarrow> string \<Rightarrow> (secret_error, string) result" where
  "Decrypt c v =
    (if \<not> IsEncrypted v then Inr v
     else case DecodeString (trim_prefix v enc_prefix) of
       None \<Rightarrow> Inl BadBase64
     | Some raw \<Rightarrow>
         if length raw < NonceSize c then Inl Truncated
         else (case Open c (take (NonceSize c) raw) (drop (NonceSize c) raw) of
                 None \<Rightarrow> Inl WrongKey | Some p \<Rightarrow> Inr p))"

section \<open>The store's secrets\<close>

text \<open>The cipher of a store, if one is configured, and the answers of the random source.\<close>
definition encryptSecret :: "aead option \<Rightarrow> string option \<Rightarrow> string \<Rightarrow> (secret_error, string) result" where
  "encryptSecret secrets random v = (case secrets of None \<Rightarrow> Inl NotConfigured | Some c \<Rightarrow> Encrypt c random v)"

definition decryptSecret :: "aead option \<Rightarrow> string \<Rightarrow> (secret_error, string) result" where
  "decryptSecret secrets v =
    (if \<not> IsEncrypted v then Inr v
     else case secrets of None \<Rightarrow> Inl NotConfigured | Some c \<Rightarrow> Decrypt c v)"

definition GetSecretSetting :: "aead option \<Rightarrow> string \<Rightarrow> settings_table \<Rightarrow> (secret_error, string option) result" where
  "GetSecretSetting secrets key tbl =
    (case GetSetting key tbl of
       None \<Rightarrow> Inr None
     | Some v \<Rightarrow> (case decryptSecret secrets v of Inl err \<Rightarrow> Inl err | Inr p \<Rightarrow> Inr (Some p)))"

definition SetSecretSetting :: "aead option \<Rightarrow> string option \<Rightarrow> string \<Rightarrow> string \<Rightarrow> settings_table \<Rightarrow>
    secret_error option \<times> settings_table" where
  "SetSecretSetting secrets random key v tbl =
    (case encryptSecret secrets random v of
       Inl err \<Rightarrow> (Some err, tbl) | Inr enc \<Rightarrow> (None, SetSetting key enc tbl))"

text \<open>What the code relies on of the cipher: a sealed text opens under the nonce it was sealed with.\<close>
definition seals :: "aead \<Rightarrow> bool" where
  "seals c \<longleftrightarrow> (\<forall>nonce p. length nonce = NonceSize c \<longrightarrow> Open c nonce (Seal c nonce p) = Some p)"

lemma decrypt_encrypt:
  assumes "seals c" "\<not> IsEncrypted p" "length nonce = NonceSize c"
  shows "\<exists>v. Encrypt c (Some nonce) p = Inr v \<and> IsEncrypted v \<and> Decrypt c v = Inr p"
  using assms by (simp add: Encrypt_def Decrypt_def IsEncrypted_def has_prefix_iff seals_def)

lemma secret_setting_roundtrip:
  assumes "seals c" "\<not> IsEncrypted v" "length nonce = NonceSize c"
  shows "\<exists>tbl'. SetSecretSetting (Some c) (Some nonce) key v tbl = (None, tbl')
    \<and> GetSecretSetting (Some c) key tbl' = Inr (Some v)
    \<and> (\<forall>k. k \<noteq> key \<longrightarrow> GetSetting k tbl' = GetSetting k tbl)"
  using decrypt_encrypt[OF assms]
  by (auto simp: SetSecretSetting_def GetSecretSetting_def encryptSecret_def decryptSecret_def row_simps)

section \<open>The key file\<close>

text \<open>The standard encoding, with padding to whole groups of four.\<close>
definition EncodeStd :: "string \<Rightarrow> string" where
  "EncodeStd s = (let t = EncodeToString s in t @ replicate ((4 - length t mod 4) mod 4) (CHR ''=''))"

definition DecodeStd :: "string \<Rightarrow> string option" where
  "DecodeStd s =
    (let t = filter (\<lambda>c. c \<noteq> CHR 0x0A \<and> c \<noteq> CHR 0x0D) s;
         body = (if has_suffix t ''=='' then take (length t - 2) t else if has_suffix t ''='' then take (length t - 1) t else t)
     in if length t mod 4 \<noteq> 0 then None else DecodeString body)"

datatype file_error = NotExist | FileError string
datatype create_answer = Created | AlreadyThere | CreateFailed string

record 'f files =
  fs_read :: "string \<Rightarrow> 'f \<Rightarrow> (file_error, string) result \<times> 'f"
  fs_mkdir :: "string \<Rightarrow> 'f \<Rightarrow> string option \<times> 'f"
  fs_random :: "nat \<Rightarrow> 'f \<Rightarrow> string option \<times> 'f"
  fs_create :: "string \<Rightarrow> 'f \<Rightarrow> create_answer \<times> 'f"      \<comment> \<open>exclusively\<close>
  fs_write :: "string \<Rightarrow> string \<Rightarrow> 'f \<Rightarrow> string option \<times> 'f"  \<comment> \<open>write, sync and close\<close>

datatype key_error = PathEmpty | KeyDecode | KeyRead string | KeyDir string | KeyRandom | KeyCreate string | KeyWrite string | KeyInvalid secret_error

text \<open>The function calls itself when the file appeared meanwhile; the number bounds the calls, and
  \<^term>\<open>None\<close> is that it was not enough.\<close>
fun loadOrCreateFile :: "nat \<Rightarrow> 'f files \<Rightarrow> (string \<Rightarrow> string) \<Rightarrow> string \<Rightarrow> 'f \<Rightarrow> ((key_error, string) result \<times> 'f) option" where
  "loadOrCreateFile 0 fs dir path s = None"
| "loadOrCreateFile (Suc n) fs dir path s =
    (if path = '''' then Some (Inl PathEmpty, s)
     else case fs_read fs path s of
       (Inr data, s1) \<Rightarrow> Some (case DecodeStd (trim_space data) of None \<Rightarrow> Inl KeyDecode | Some key \<Rightarrow> Inr key, s1)
     | (Inl (FileError err), s1) \<Rightarrow> Some (Inl (KeyRead err), s1)
     | (Inl NotExist, s1) \<Rightarrow>
         (case fs_mkdir fs (dir path) s1 of
            (Some err, s2) \<Rightarrow> Some (Inl (KeyDir err), s2)
          | (None, s2) \<Rightarrow>
              (case fs_random fs 32 s2 of
                 (None, s3) \<Rightarrow> Some (Inl KeyRandom, s3)
               | (Some key, s3) \<Rightarrow>
                   (case fs_create fs path s3 of
                      (AlreadyThere, s4) \<Rightarrow> loadOrCreateFile n fs dir path s4
                    | (CreateFailed err, s4) \<Rightarrow> Some (Inl (KeyCreate err), s4)
                    | (Created, s4) \<Rightarrow>
                        (case fs_write fs path (EncodeStd key @ [CHR 0x0A]) s4 of
                           (Some err, s5) \<Rightarrow> Some (Inl (KeyWrite err), s5) | (None, s5) \<Rightarrow> Some (Inr key, s5))))))"

definition LoadOrCreate :: "nat \<Rightarrow> 'f files \<Rightarrow> (string \<Rightarrow> string) \<Rightarrow> (string \<Rightarrow> aead) \<Rightarrow> string \<Rightarrow> string \<Rightarrow> 'f \<Rightarrow>
    ((key_error, aead) result \<times> 'f) option" where
  "LoadOrCreate n fs dir cipher_of encoded path s =
    (let finish = (\<lambda>r. case r of Inl err \<Rightarrow> Inl err
            | Inr key \<Rightarrow> (case New_cipher cipher_of key of Inl err \<Rightarrow> Inl (KeyInvalid err) | Inr c \<Rightarrow> Inr c))
     in if encoded \<noteq> '''' then Some (finish (case DecodeStd encoded of None \<Rightarrow> Inl KeyDecode | Some key \<Rightarrow> Inr key), s)
        else map_option (\<lambda>(r, s'). (finish r, s')) (loadOrCreateFile n fs dir path s))"

lemma b64_groups_length: "length (b64_groups as) mod 4 \<noteq> 1"
  by (induction as rule: b64_groups.induct) (auto simp: mod_Suc)

lemma b64_char_plain: "n < 64 \<Longrightarrow> b64_char n \<noteq> CHR ''='' \<and> \<not> is_space (b64_char n)"
proof -
  have "\<forall>n \<in> set [0..<64]. b64_char n \<noteq> CHR ''='' \<and> \<not> is_space (b64_char n)" by code_simp
  then show "n < 64 \<Longrightarrow> ?thesis" by simp
qed

lemma encoded_chars: "c \<in> set (EncodeToString s) \<Longrightarrow> c \<noteq> CHR ''='' \<and> \<not> is_space c"
proof -
  have "list_all (\<lambda>n. n < 64) (b64_groups (map of_char s))" by (rule b64_groups_small) (simp add: list_all_iff)
  then show "c \<in> set (EncodeToString s) \<Longrightarrow> ?thesis"
    using b64_char_plain by (auto simp: EncodeToString_def list_all_iff)
qed

lemma no_suffix: "(\<And>c. c \<in> set t \<Longrightarrow> c \<noteq> CHR ''='') \<Longrightarrow> \<not> has_suffix t ''='' \<and> \<not> has_suffix (t @ ''='') ''==''"
  by (cases t rule: rev_cases) (auto simp: has_suffix_def has_prefix_def)

lemma decode_std [simp]: "DecodeStd (EncodeStd s) = Some s"
proof -
  let ?t = "EncodeToString s" and ?k = "(4 - length (EncodeToString s) mod 4) mod 4"
  have free: "\<And>c. c \<in> set ?t \<Longrightarrow> c \<noteq> CHR ''=''" "\<And>c. c \<in> set ?t \<Longrightarrow> \<not> is_space c" using encoded_chars by blast+
  have f: "filter (\<lambda>c. c \<noteq> CHR 0x0A \<and> c \<noteq> CHR 0x0D) (EncodeStd s) = EncodeStd s"
    using free(2) by (auto simp: EncodeStd_def Let_def filter_id_conv is_space_def)
  have "length ?t mod 4 \<noteq> 1" using b64_groups_length by (simp add: EncodeToString_def)
  then have "length ?t mod 4 = 0 \<or> length ?t mod 4 = 2 \<or> length ?t mod 4 = 3"
    using mod_less_divisor[of 4 "length ?t"] by linarith
  then consider "length ?t mod 4 = 0" "?k = 0" | "length ?t mod 4 = 2" "?k = 2" | "length ?t mod 4 = 3" "?k = 1"
    by fastforce
  then show ?thesis
  proof cases
    case 1
    have "\<not> has_suffix ?t ''=='' " using no_suffix[of ?t] free(1) by (cases ?t rule: rev_cases) (auto simp: has_suffix_def has_prefix_def)
    then show ?thesis using 1 f no_suffix[of ?t] free(1) unfolding DecodeStd_def by (simp add: EncodeStd_def Let_def)
  next
    case 2
    have "EncodeStd s = ?t @ ''==''" using 2 by (simp add: EncodeStd_def Let_def numeral_2_eq_2)
    moreover have "has_suffix (?t @ ''=='') ''==''" by (simp add: has_suffix_def has_prefix_def)
    ultimately show ?thesis using 2(1) f unfolding DecodeStd_def by (simp add: Let_def mod_Suc)
  next
    case 3
    have "EncodeStd s = ?t @ ''=''" using 3 by (simp add: EncodeStd_def Let_def)
    moreover have "has_suffix (?t @ ''='') ''=''" by (simp add: has_suffix_def has_prefix_def)
    ultimately show ?thesis using 3(1) f no_suffix[of ?t] free(1) unfolding DecodeStd_def by (simp add: Let_def mod_Suc)
  qed
qed

lemma trim_encoded: "trim_space (EncodeStd s @ [CHR 0x0A]) = EncodeStd s"
proof -
  have "c \<in> set (EncodeStd s) \<Longrightarrow> \<not> is_space c" for c
    using encoded_chars by (auto simp: EncodeStd_def Let_def is_space_def split: if_splits)
  then have "dropWhile is_space (EncodeStd s @ [CHR 0x0A]) = (if EncodeStd s = [] then [] else EncodeStd s @ [CHR 0x0A])"
    "dropWhile is_space (rev (EncodeStd s)) = rev (EncodeStd s)"
    by (cases "EncodeStd s"; simp add: is_space_def; fail | cases "rev (EncodeStd s)"; auto simp: is_space_def; fail)+
  then show ?thesis by (auto simp: trim_space_def is_space_def)
qed

text \<open>What the code relies on of the file system: a file that was written is read back.\<close>
definition keeps_files :: "'f files \<Rightarrow> bool" where
  "keeps_files fs \<longleftrightarrow> (\<forall>path data s s'. fs_write fs path data s = (None, s') \<longrightarrow> (\<exists>s''. fs_read fs path s' = (Inr data, s'')))"

text \<open>The key a first start generates is the key the next start reads from the file, so what was
  encrypted before a restart can be read after it.\<close>

theorem key_survives_restart:
  assumes "keeps_files fs" "path \<noteq> ''''" "fs_read fs path s = (Inl NotExist, s1)"
    and "loadOrCreateFile (Suc 0) fs dir path s = Some (Inr key, s')"
  shows "\<exists>s''. loadOrCreateFile (Suc n) fs dir path s' = Some (Inr key, s'')"
proof -
  obtain s4 where "fs_write fs path (EncodeStd key @ [CHR 0x0A]) s4 = (None, s')"
    using assms(2,3,4) by (auto split: prod.splits option.splits sum.splits create_answer.splits if_splits)
  then obtain s'' where "fs_read fs path s' = (Inr (EncodeStd key @ [CHR 0x0A]), s'')"
    using assms(1) unfolding keeps_files_def by blast
  then show ?thesis using assms(2) by (simp add: trim_encoded)
qed

text \<open>A disk that keeps one file.\<close>
definition one_file :: "string option files" where
  "one_file = \<lparr>fs_read = (\<lambda>p s. (case s of None \<Rightarrow> Inl NotExist | Some data \<Rightarrow> Inr data, s)), fs_mkdir = (\<lambda>p s. (None, s)),
     fs_random = (\<lambda>n s. (Some (replicate n (CHR ''k'')), s)), fs_create = (\<lambda>p s. (Created, s)),
     fs_write = (\<lambda>p data s. (None, Some data))\<rparr>"

theorem key_survives_restart_witness:
  "\<exists>s' s''. loadOrCreateFile (Suc 0) one_file id ''key'' None = Some (Inr (replicate 32 (CHR ''k'')), s')
    \<and> loadOrCreateFile (Suc 0) one_file id ''key'' s' = Some (Inr (replicate 32 (CHR ''k'')), s'')"
proof -
  have k: "keeps_files one_file" by (simp add: keeps_files_def one_file_def)
  have r: "fs_read one_file ''key'' None = (Inl NotExist, None)" by (simp add: one_file_def)
  have l: "loadOrCreateFile (Suc 0) one_file id ''key'' None = Some (Inr (replicate 32 (CHR ''k'')), Some (EncodeStd (replicate 32 (CHR ''k'')) @ [CHR 0x0A]))"
    by (simp add: one_file_def)
  show ?thesis using key_survives_restart[OF k _ r l] l by blast
qed

text \<open>When reading the key file says that it does not exist and creating it says that it does, as for a
  symbolic link without a target, no number of calls is enough: the start never returns.\<close>

theorem dangling_key_link_never_returns:
  "loadOrCreateFile n \<lparr>fs_read = (\<lambda>p s. (Inl NotExist, s)), fs_mkdir = (\<lambda>p s. (None, s)), fs_random = (\<lambda>k s. (Some (replicate k (CHR ''k'')), s)),
      fs_create = (\<lambda>p s. (AlreadyThere, s)), fs_write = (\<lambda>p data s. (None, s))\<rparr> dir (c # path) (s :: unit) = None"
  by (induction n arbitrary: s) simp_all

end
