(* ===== verification/Notify_Queue.thy ===== *)
theory Notify_Queue
  imports Secrets
begin

text \<open>
  \<^verbatim>\<open>internal/store/notification_queue.go\<close>: the durable queue of notifications. A job waits,
  is leased to a worker, and ends as sent or as dead letter; a lease that runs out makes the job
  claimable again. Rows are never deleted. A claim of a row whose address cannot be decrypted
  changes the row and then reports the error.
\<close>

section \<open>The table\<close>

definition DefaultNotificationMaxAttempts :: int where "DefaultNotificationMaxAttempts = 6"

record NotificationJob =
  nj_id :: int
  nj_event :: string
  nj_target :: string
  nj_stack :: string
  nj_channel :: string
  nj_url :: string
  nj_message :: string
  nj_status :: string
  nj_attempts :: int
  nj_max_attempts :: int
  nj_next_attempt_at :: time
  nj_lease_until :: "time option"
  nj_last_error :: string
  nj_created_at :: time
  nj_updated_at :: time
  nj_sent_at :: "time option"

text \<open>The rows and the highest ID ever given, which \<^verbatim>\<open>AUTOINCREMENT\<close> never gives again.\<close>
record notification_queue =
  nq_rows :: "NotificationJob list"
  nq_seq :: int

text \<open>The zero value of \<^verbatim>\<open>time.Time\<close>, the first of January of the year 1.\<close>
definition zero_time :: time where "zero_time = -62135596800 * nanos"

datatype queue_error = QueueSecret secret_error | WrongState | QueueDown

definition EnqueueNotification :: "aead option \<Rightarrow> string option \<Rightarrow> time \<Rightarrow> NotificationJob \<Rightarrow> notification_queue \<Rightarrow>
    (queue_error, int) result \<times> notification_queue" where
  "EnqueueNotification secrets random now job q =
    (let maxAttempts = (if nj_max_attempts job \<le> 0 then DefaultNotificationMaxAttempts else nj_max_attempts job);
         nextAt = (if nj_next_attempt_at job = zero_time then now else nj_next_attempt_at job);
         i = nq_seq q + 1
     in case encryptSecret secrets random (nj_url job) of
          Inl err \<Rightarrow> (Inl (QueueSecret err), q)
        | Inr enc \<Rightarrow>
            (Inr i, q\<lparr>nq_seq := i,
               nq_rows := nq_rows q @ [\<lparr>nj_id = i, nj_event = nj_event job, nj_target = nj_target job, nj_stack = nj_stack job,
                 nj_channel = nj_channel job, nj_url = enc, nj_message = nj_message job, nj_status = ''pending'',
                 nj_attempts = 0, nj_max_attempts = maxAttempts, nj_next_attempt_at = nextAt, nj_lease_until = None,
                 nj_last_error = '''', nj_created_at = now, nj_updated_at = now, nj_sent_at = None\<rparr>]\<rparr>))"

definition claimable :: "time \<Rightarrow> NotificationJob \<Rightarrow> bool" where
  "claimable now r \<longleftrightarrow>
    nj_status r = ''pending'' \<and> text_le (nj_next_attempt_at r) now
    \<or> nj_status r = ''processing'' \<and> (case nj_lease_until r of None \<Rightarrow> False | Some l \<Rightarrow> text_le l now)"

text \<open>\<^verbatim>\<open>ORDER BY next_attempt_at, id LIMIT 1\<close>\<close>
definition first_claimable :: "time \<Rightarrow> NotificationJob list \<Rightarrow> NotificationJob option" where
  "first_claimable now rows =
    (case sort_key (\<lambda>r. (text_key (nj_next_attempt_at r), nj_id r)) (filter (claimable now) rows) of
       [] \<Rightarrow> None | r # _ \<Rightarrow> Some r)"

definition leased :: "time \<Rightarrow> int \<Rightarrow> NotificationJob \<Rightarrow> NotificationJob" where
  "leased now lease r = r\<lparr>nj_status := ''processing'', nj_attempts := nj_attempts r + 1,
     nj_lease_until := Some (now + lease), nj_updated_at := now\<rparr>"

definition scanNotificationJob :: "aead option \<Rightarrow> NotificationJob \<Rightarrow> (queue_error, NotificationJob) result" where
  "scanNotificationJob secrets r =
    (case decryptSecret secrets (nj_url r) of Inl err \<Rightarrow> Inl (QueueSecret err) | Inr url \<Rightarrow> Inr (r\<lparr>nj_url := url\<rparr>))"

definition ClaimNotification :: "aead option \<Rightarrow> time \<Rightarrow> int \<Rightarrow> notification_queue \<Rightarrow>
    (queue_error, NotificationJob option) result \<times> notification_queue" where
  "ClaimNotification secrets now lease q =
    (case first_claimable now (nq_rows q) of
       None \<Rightarrow> (Inr None, q)
     | Some r \<Rightarrow>
         (case scanNotificationJob secrets (leased now lease r) of Inl err \<Rightarrow> Inl err | Inr job \<Rightarrow> Inr (Some job),
          q\<lparr>nq_rows := update_where (\<lambda>x. nj_id x = nj_id r) (leased now lease) (nq_rows q)\<rparr>))"

text \<open>\<^verbatim>\<open>UPDATE ... WHERE id=? AND status=?\<close> and \<^verbatim>\<open>requireNotificationUpdate\<close>.\<close>
definition update_job :: "int \<Rightarrow> string \<Rightarrow> (NotificationJob \<Rightarrow> NotificationJob) \<Rightarrow> notification_queue \<Rightarrow>
    queue_error option \<times> notification_queue" where
  "update_job i status f q =
    (if rows_affected (\<lambda>r. nj_id r = i \<and> nj_status r = status) (nq_rows q) \<noteq> 1 then Some WrongState else None,
     q\<lparr>nq_rows := update_where (\<lambda>r. nj_id r = i \<and> nj_status r = status) f (nq_rows q)\<rparr>)"

definition CompleteNotification :: "int \<Rightarrow> time \<Rightarrow> notification_queue \<Rightarrow> queue_error option \<times> notification_queue" where
  "CompleteNotification i sentAt = update_job i ''processing''
    (\<lambda>r. r\<lparr>nj_status := ''sent'', nj_sent_at := Some sentAt, nj_lease_until := None, nj_last_error := '''', nj_updated_at := sentAt\<rparr>)"

definition FailNotification :: "time \<Rightarrow> int \<Rightarrow> time \<Rightarrow> string \<Rightarrow> bool \<Rightarrow> notification_queue \<Rightarrow> queue_error option \<times> notification_queue" where
  "FailNotification now i retryAt lastError dead = update_job i ''processing''
    (\<lambda>r. r\<lparr>nj_status := (if dead then ''dead_letter'' else ''pending''), nj_next_attempt_at := retryAt,
          nj_lease_until := None, nj_last_error := lastError, nj_updated_at := now\<rparr>)"

definition RetryNotification :: "time \<Rightarrow> int \<Rightarrow> notification_queue \<Rightarrow> queue_error option \<times> notification_queue" where
  "RetryNotification now i = update_job i ''dead_letter''
    (\<lambda>r. r\<lparr>nj_status := ''pending'', nj_attempts := 0, nj_next_attempt_at := now, nj_lease_until := None,
          nj_last_error := '''', nj_updated_at := now\<rparr>)"

fun scan_all :: "aead option \<Rightarrow> NotificationJob list \<Rightarrow> (queue_error, NotificationJob list) result" where
  "scan_all secrets [] = Inr []"
| "scan_all secrets (r # rs) =
    (case scanNotificationJob secrets r of
       Inl err \<Rightarrow> Inl err
     | Inr job \<Rightarrow> (case scan_all secrets rs of Inl err \<Rightarrow> Inl err | Inr jobs \<Rightarrow> Inr (job # jobs)))"

definition ListNotificationJobs :: "aead option \<Rightarrow> int \<Rightarrow> notification_queue \<Rightarrow> (queue_error, NotificationJob list) result" where
  "ListNotificationJobs secrets limit q =
    (let n = (if limit \<le> 0 \<or> limit > 500 then 100 else limit)
     in scan_all secrets (take (nat n) (rev (sort_key nj_id (nq_rows q)))))"

definition CountNotificationJobs :: "string \<Rightarrow> notification_queue \<Rightarrow> nat" where
  "CountNotificationJobs status q = rows_affected (\<lambda>r. nj_status r = status) (nq_rows q)"

section \<open>Migration of secrets\<close>

definition channelsSettingsKey :: string where "channelsSettingsKey = ''notifications.channels''"
definition registriesSettingsKey :: string where "registriesSettingsKey = ''registries.configs''"

text \<open>A stored value becomes encrypted, or is checked when it already is.\<close>
definition migrate_value :: "aead option \<Rightarrow> string option \<Rightarrow> string \<Rightarrow> (secret_error, string) result" where
  "migrate_value secrets random v =
    (if \<not> IsEncrypted v then encryptSecret secrets random v
     else case decryptSecret secrets v of Inl err \<Rightarrow> Inl err | Inr _ \<Rightarrow> Inr v)"

definition migrate_setting :: "aead option \<Rightarrow> string option \<Rightarrow> string \<Rightarrow> settings_table \<Rightarrow> (secret_error, settings_table) result" where
  "migrate_setting secrets random key tbl =
    (case GetSetting key tbl of
       None \<Rightarrow> Inr tbl
     | Some v \<Rightarrow> (case migrate_value secrets random v of Inl err \<Rightarrow> Inl err | Inr v' \<Rightarrow> Inr (SetSetting key v' tbl)))"

fun migrate_jobs :: "aead option \<Rightarrow> (nat \<Rightarrow> string option) \<Rightarrow> nat \<Rightarrow> NotificationJob list \<Rightarrow> (secret_error, NotificationJob list) result" where
  "migrate_jobs secrets random n [] = Inr []"
| "migrate_jobs secrets random n (r # rs) =
    (case migrate_value secrets (random n) (nj_url r) of
       Inl err \<Rightarrow> Inl err
     | Inr url \<Rightarrow>
         (case migrate_jobs secrets random (Suc n) rs of
            Inl err \<Rightarrow> Inl err | Inr rs' \<Rightarrow> Inr (r\<lparr>nj_url := url\<rparr> # rs')))"

text \<open>One transaction: an error leaves both tables as they were. \<^term>\<open>random\<close> is what the random source
  answers for each value that may need a nonce.\<close>
definition migratePlaintextSecrets :: "aead option \<Rightarrow> (nat \<Rightarrow> string option) \<Rightarrow> settings_table \<Rightarrow> notification_queue \<Rightarrow>
    secret_error option \<times> settings_table \<times> notification_queue" where
  "migratePlaintextSecrets secrets random tbl q =
    (case migrate_setting secrets (random 0) channelsSettingsKey tbl of
       Inl err \<Rightarrow> (Some err, tbl, q)
     | Inr tbl1 \<Rightarrow>
         (case migrate_setting secrets (random 1) registriesSettingsKey tbl1 of
            Inl err \<Rightarrow> (Some err, tbl, q)
          | Inr tbl2 \<Rightarrow>
              (case migrate_jobs secrets random 2 (nq_rows q) of
                 Inl err \<Rightarrow> (Some err, tbl, q)
               | Inr rows \<Rightarrow> (None, tbl2, q\<lparr>nq_rows := rows\<rparr>))))"

definition CountUnencryptedSecrets :: "settings_table \<Rightarrow> notification_queue \<Rightarrow> nat" where
  "CountUnencryptedSecrets tbl q =
    rows_affected (\<lambda>(k, v). k \<in> {channelsSettingsKey, registriesSettingsKey} \<and> \<not> sql_like ''enc:v1:%'' v) tbl
    + rows_affected (\<lambda>r. \<not> sql_like ''enc:v1:%'' (nj_url r)) (nq_rows q)"

section \<open>What each statement does to a row\<close>

abbreviation job_of :: "int \<Rightarrow> notification_queue \<Rightarrow> NotificationJob option" where
  "job_of i q \<equiv> get_row nj_id i (nq_rows q)"

lemma first_claimable_Some:
  assumes "first_claimable now rows = Some r"
  shows "r \<in> set rows \<and> claimable now r"
proof -
  obtain rs where "sort_key (\<lambda>r. (text_key (nj_next_attempt_at r), nj_id r)) (filter (claimable now) rows) = r # rs"
    using assms by (auto simp: first_claimable_def split: list.splits)
  then have "r \<in> set (filter (claimable now) rows)" by (metis list.set_intros(1) set_sort)
  then show ?thesis by simp
qed

lemma first_claimable_None: "first_claimable now rows = None \<longleftrightarrow> (\<forall>r \<in> set rows. \<not> claimable now r)"
proof -
  have "first_claimable now rows = None \<longleftrightarrow> filter (claimable now) rows = []"
    unfolding first_claimable_def
    by (metis (no_types, lifting) list.case_eq_if list.size(3) length_0_conv length_sort option.distinct(1))
  then show ?thesis by (simp add: filter_empty_conv)
qed

lemma leased_id [simp]: "nj_id (leased now lease r) = nj_id r"
  by (simp add: leased_def)

lemma job_after_claim [row_simps]:
  "job_of i (snd (ClaimNotification secrets now lease q)) =
    map_option (\<lambda>r. if (\<exists>c. first_claimable now (nq_rows q) = Some c \<and> nj_id c = i) then leased now lease r else r) (job_of i q)"
  by (auto simp: ClaimNotification_def row_simps option.map_ident split: option.splits dest: get_row_key intro!: map_option_cong)

lemma job_after_update [row_simps]:
  assumes "\<And>r. nj_id (f r) = nj_id r"
  shows "job_of j (snd (update_job i status f q)) =
    map_option (\<lambda>r. if j = i \<and> nj_status r = status then f r else r) (job_of j q)"
  using assms by (auto simp: update_job_def row_simps dest: get_row_key intro!: map_option_cong)

lemma update_job_ok:
  assumes "keys_distinct nj_id (nq_rows q)"
  shows "fst (update_job i status f q) = None \<longleftrightarrow> (\<exists>r. job_of i q = Some r \<and> nj_status r = status)"
proof -
  have "rows_affected (\<lambda>r. nj_id r = i \<and> nj_status r = status) rows =
      (case get_row nj_id i rows of None \<Rightarrow> 0 | Some r \<Rightarrow> if nj_status r = status then 1 else 0)"
    if "keys_distinct nj_id rows" for rows
    using that
  proof (induction rows)
    case (Cons r rows)
    then have none: "nj_id r = i \<Longrightarrow> get_row nj_id i rows = None"
      by (auto simp: keys_distinct_def get_row_None)
    show ?case using Cons none by (auto simp: rows_affected_def row_simps keys_distinct_def split: option.splits)
  qed (simp add: rows_affected_def row_simps)
  from this[OF assms] show ?thesis by (auto simp: update_job_def split: option.splits if_splits)
qed

section \<open>Well-formed queues\<close>

text \<open>What every row satisfies: a known status, a lease exactly while it is processed, a delivery time
  exactly when it was sent, an attempt behind everything but a waiting job.\<close>
definition job_ok :: "NotificationJob \<Rightarrow> bool" where
  "job_ok r \<longleftrightarrow> nj_status r \<in> {''pending'', ''processing'', ''sent'', ''dead_letter''}
    \<and> (nj_lease_until r \<noteq> None \<longleftrightarrow> nj_status r = ''processing'')
    \<and> (nj_sent_at r \<noteq> None \<longleftrightarrow> nj_status r = ''sent'')
    \<and> 1 \<le> nj_max_attempts r \<and> 0 \<le> nj_attempts r \<and> (nj_status r \<noteq> ''pending'' \<longrightarrow> 1 \<le> nj_attempts r)"

definition queue_ok :: "notification_queue \<Rightarrow> bool" where
  "queue_ok q \<longleftrightarrow> keys_distinct nj_id (nq_rows q) \<and> 0 \<le> nq_seq q
    \<and> (\<forall>r \<in> set (nq_rows q). job_ok r \<and> 1 \<le> nj_id r \<and> nj_id r \<le> nq_seq q)"

text \<open>What a job says is not changed by processing it.\<close>
definition content :: "NotificationJob \<Rightarrow> string list \<times> int \<times> time" where
  "content r = ([nj_event r, nj_target r, nj_stack r, nj_channel r, nj_url r, nj_message r], nj_max_attempts r, nj_created_at r)"

datatype queue_op =
    OpEnqueue "string option" time NotificationJob
  | OpClaim time int
  | OpComplete int time
  | OpFail time int time string bool
  | OpRetry time int

fun queue_step :: "aead option \<Rightarrow> queue_op \<Rightarrow> notification_queue \<Rightarrow> notification_queue" where
  "queue_step secrets (OpEnqueue random now job) q = snd (EnqueueNotification secrets random now job q)"
| "queue_step secrets (OpClaim now lease) q = snd (ClaimNotification secrets now lease q)"
| "queue_step secrets (OpComplete i at) q = snd (CompleteNotification i at q)"
| "queue_step secrets (OpFail now i retryAt lastError dead) q = snd (FailNotification now i retryAt lastError dead q)"
| "queue_step secrets (OpRetry now i) q = snd (RetryNotification now i q)"

definition queue_run :: "aead option \<Rightarrow> queue_op list \<Rightarrow> notification_queue \<Rightarrow> notification_queue" where
  "queue_run secrets ops q = fold (queue_step secrets) ops q"

lemma queue_ok_map:
  assumes "queue_ok q" "\<And>r. nj_id (f r) = nj_id r"
    and "\<And>r. r \<in> set (nq_rows q) \<Longrightarrow> p r \<Longrightarrow> job_ok r \<Longrightarrow> job_ok (f r)"
  shows "queue_ok (q\<lparr>nq_rows := update_where p f (nq_rows q)\<rparr>)"
  using assms update_where_distinct[of nj_id f "nq_rows q" p] by (auto simp: queue_ok_def update_where_def)

lemma queue_ok_append:
  assumes "queue_ok q" "job_ok r" "nj_id r = nq_seq q + 1"
  shows "queue_ok (q\<lparr>nq_seq := nq_seq q + 1, nq_rows := nq_rows q @ [r]\<rparr>)"
  using assms by (force simp: queue_ok_def keys_distinct_def)

lemma queue_ok_step: assumes "queue_ok q" shows "queue_ok (queue_step secrets op q)"
proof (cases op)
  case (OpEnqueue random now job)
  then show ?thesis
    using assms queue_ok_append[OF assms]
    by (auto simp: EnqueueNotification_def Let_def job_ok_def DefaultNotificationMaxAttempts_def split: sum.splits)
next
  case (OpClaim now lease)
  show ?thesis
  proof (cases "first_claimable now (nq_rows q)")
    case (Some r)
    have "queue_ok (q\<lparr>nq_rows := update_where (\<lambda>x. nj_id x = nj_id r) (leased now lease) (nq_rows q)\<rparr>)"
    proof (rule queue_ok_map[OF assms])
      show "job_ok (leased now lease x)" if "x \<in> set (nq_rows q)" "nj_id x = nj_id r" "job_ok x" for x
      proof -
        have "x = r"
          using first_claimable_Some[OF Some] assms that(1,2) by (auto simp: queue_ok_def keys_distinct_def distinct_map inj_on_def)
        then have "nj_status x = ''pending'' \<or> nj_status x = ''processing''"
          using first_claimable_Some[OF Some] by (auto simp: claimable_def)
        then show ?thesis using that(3) by (auto simp: job_ok_def leased_def)
      qed
    qed simp
    then show ?thesis using OpClaim Some by (simp add: ClaimNotification_def)
  qed (use OpClaim assms in \<open>simp add: ClaimNotification_def\<close>)
qed (use assms in \<open>auto simp: CompleteNotification_def FailNotification_def RetryNotification_def update_job_def
      job_ok_def intro!: queue_ok_map\<close>)

lemma queue_ok_run: "queue_ok q \<Longrightarrow> queue_ok (queue_run secrets ops q)"
  unfolding queue_run_def by (induction ops arbitrary: q) (auto simp: queue_ok_step)

lemma content_leased [simp]: "content (leased now lease r) = content r"
  by (simp add: content_def leased_def)

lemma queue_step_content:
  assumes "queue_ok q" "job_of i q = Some r"
  shows "\<exists>r'. job_of i (queue_step secrets op q) = Some r' \<and> content r' = content r
    \<and> (nj_status r = ''sent'' \<longrightarrow> r' = r)"
proof (cases op)
  case (OpEnqueue random now job)
  then show ?thesis using assms(2) by (auto simp: EnqueueNotification_def Let_def row_simps split: sum.splits)
next
  case (OpClaim now lease)
  have "nj_status r \<noteq> ''sent''" if "first_claimable now (nq_rows q) = Some c" "nj_id c = i" for c
  proof -
    have "get_row nj_id i (nq_rows q) = Some c"
      using first_claimable_Some[OF that(1)] that(2) assms(1) get_row_mem[of nj_id "nq_rows q" c] by (simp add: queue_ok_def)
    then show ?thesis using first_claimable_Some[OF that(1)] assms(2) by (auto simp: claimable_def)
  qed
  then show ?thesis using OpClaim assms(2) by (auto simp: row_simps)
qed (use assms(2) in \<open>auto simp: CompleteNotification_def FailNotification_def RetryNotification_def row_simps content_def\<close>)

lemma queue_run_content:
  assumes "queue_ok q" "job_of i q = Some r"
  shows "\<exists>r'. job_of i (queue_run secrets ops q) = Some r' \<and> content r' = content r \<and> (nj_status r = ''sent'' \<longrightarrow> r' = r)"
  using assms
proof (induction ops arbitrary: q r)
  case (Cons op ops)
  obtain r1 where r1: "job_of i (queue_step secrets op q) = Some r1" "content r1 = content r" "nj_status r = ''sent'' \<longrightarrow> r1 = r"
    using queue_step_content[OF Cons.prems] by blast
  obtain r2 where "job_of i (queue_run secrets ops (queue_step secrets op q)) = Some r2" "content r2 = content r1"
      "nj_status r1 = ''sent'' \<longrightarrow> r2 = r1"
    using Cons.IH[OF queue_ok_step[OF Cons.prems(1)] r1(1)] by blast
  then show ?case using r1 by (auto simp: queue_run_def)
qed (simp add: queue_run_def)

text \<open>C16: However the queue's operations are interleaved and whatever their arguments, every row keeps
  its type: a unique ID never given twice, one of the four states, a lease exactly while it is
  processed, a delivery time exactly when it was sent. An accepted job is never lost or altered,
  and a delivered one stays as it is.\<close>

theorem notification_rows_typed:
  assumes "queue_ok q"
  shows "queue_ok (queue_run secrets ops q)
    \<and> (\<forall>i r. job_of i q = Some r \<longrightarrow> (\<exists>r'. job_of i (queue_run secrets ops q) = Some r' \<and> content r' = content r
        \<and> (nj_status r = ''sent'' \<longrightarrow> r' = r)))"
  using assms queue_ok_run[OF assms] queue_run_content[OF assms] by blast

definition plain_job :: NotificationJob where
  "plain_job = \<lparr>nj_id = 0, nj_event = ''update.failed'', nj_target = ''web'', nj_stack = '''', nj_channel = ''ops'',
     nj_url = ''ntfy://x'', nj_message = ''m'', nj_status = '''', nj_attempts = 0, nj_max_attempts = 0,
     nj_next_attempt_at = zero_time, nj_lease_until = None, nj_last_error = '''', nj_created_at = zero_time,
     nj_updated_at = zero_time, nj_sent_at = None\<rparr>"

text \<open>A cipher for the examples: the text reversed, with the nonce in front.\<close>
definition toy_aead :: aead where
  "toy_aead = \<lparr>NonceSize = 1, Seal = (\<lambda>n p. n @ rev p), Open = (\<lambda>n c. if take 1 c = n then Some (rev (drop 1 c)) else None)\<rparr>"

lemma toy_seals: "seals toy_aead"
  by (simp add: seals_def toy_aead_def)

definition sample_ops :: "queue_op list" where
  "sample_ops = [OpEnqueue (Some ''n'') nanos plain_job, OpClaim (2 * nanos) nanos, OpFail (2 * nanos) 1 (3 * nanos) ''down'' False,
     OpEnqueue (Some ''n'') nanos plain_job, OpClaim (4 * nanos) nanos, OpComplete 2 (4 * nanos)]"

definition no_jobs :: notification_queue where
  "no_jobs = \<lparr>nq_rows = [], nq_seq = 0\<rparr>"

theorem notification_rows_typed_witness:
  "queue_ok no_jobs \<and> queue_ok (queue_run (Some toy_aead) sample_ops no_jobs)
    \<and> map nj_status (nq_rows (queue_run (Some toy_aead) sample_ops no_jobs)) = [''pending'', ''sent'']"
proof -
  have q: "queue_ok no_jobs" by code_simp
  have "map nj_status (nq_rows (queue_run (Some toy_aead) sample_ops no_jobs)) = [''pending'', ''sent'']" by code_simp
  then show ?thesis using notification_rows_typed[OF q, of "Some toy_aead" sample_ops] q by blast
qed

section \<open>Leases\<close>

text \<open>The contract of a queue that leases its jobs: a claim leases the job, is not given while an earlier
  lease runs (up to the second the times are compared to), and only settling a job ends its lease.\<close>
locale lease_queue =
  fixes lease_of :: "'i \<Rightarrow> 's \<Rightarrow> time option"
    and step :: "'o \<Rightarrow> 's \<Rightarrow> 's"
    and claims :: "'o \<Rightarrow> 's \<Rightarrow> ('i \<times> time \<times> int) option"
    and settles :: "'o \<Rightarrow> 'i \<Rightarrow> bool"
    and ok :: "'s \<Rightarrow> bool"
  assumes ok_step: "ok s \<Longrightarrow> ok (step op s)"
    and claim_leases: "ok s \<Longrightarrow> claims op s = Some (i, t, d) \<Longrightarrow> lease_of i (step op s) = Some (t + d)"
    and claim_expired: "ok s \<Longrightarrow> claims op s = Some (i, t, d) \<Longrightarrow> lease_of i s = Some l \<Longrightarrow> l < t + nanos"
    and lease_kept: "ok s \<Longrightarrow> lease_of i s = Some l \<Longrightarrow> \<not> settles op i \<Longrightarrow> (\<And>t d. claims op s \<noteq> Some (i, t, d)) \<Longrightarrow>
      lease_of i (step op s) = Some l"
begin

fun undisturbed :: "'i \<Rightarrow> 'o list \<Rightarrow> 's \<Rightarrow> bool" where
  "undisturbed i [] s \<longleftrightarrow> True"
| "undisturbed i (op # ops) s \<longleftrightarrow> \<not> settles op i \<and> (case claims op s of None \<Rightarrow> True | Some (j, _) \<Rightarrow> j \<noteq> i)
    \<and> undisturbed i ops (step op s)"

lemma lease_kept_run:
  "ok s \<Longrightarrow> lease_of i s = Some l \<Longrightarrow> undisturbed i ops s \<Longrightarrow> ok (fold step ops s) \<and> lease_of i (fold step ops s) = Some l"
proof (induction ops arbitrary: s)
  case (Cons op ops)
  have "lease_of i (step op s) = Some l"
    using Cons.prems by (intro lease_kept) (auto split: option.splits)
  then show ?case using Cons ok_step by simp
qed simp

lemma claims_apart:
  assumes "ok s" "claims op s = Some (i, t1, d1)" "undisturbed i ops (step op s)"
    and "claims op' (fold step ops (step op s)) = Some (i, t2, d2)"
  shows "t1 + d1 < t2 + nanos"
  using lease_kept_run[OF ok_step claim_leases assms(3)] assms claim_expired by blast

end

definition job_lease :: "int \<Rightarrow> notification_queue \<Rightarrow> time option" where
  "job_lease i q = Option.bind (job_of i q) nj_lease_until"

fun op_claims :: "queue_op \<Rightarrow> notification_queue \<Rightarrow> (int \<times> time \<times> int) option" where
  "op_claims (OpClaim now lease) q = map_option (\<lambda>r. (nj_id r, now, lease)) (first_claimable now (nq_rows q))"
| "op_claims op q = None"

fun op_settles :: "queue_op \<Rightarrow> int \<Rightarrow> bool" where
  "op_settles (OpComplete i at) j \<longleftrightarrow> i = j"
| "op_settles (OpFail now i retryAt lastError dead) j \<longleftrightarrow> i = j"
| "op_settles op j \<longleftrightarrow> False"

lemma claimable_row:
  "queue_ok q \<Longrightarrow> first_claimable now (nq_rows q) = Some r \<Longrightarrow> job_of (nj_id r) q = Some r \<and> claimable now r"
  using first_claimable_Some[of now "nq_rows q" r] get_row_mem[of nj_id "nq_rows q" r] by (simp add: queue_ok_def)

lemma job_ok_of: "queue_ok q \<Longrightarrow> job_of i q = Some r \<Longrightarrow> job_ok r"
  using get_row_SomeD[of nj_id i "nq_rows q" r] by (simp add: queue_ok_def)

interpretation jobs: lease_queue job_lease "queue_step secrets" op_claims op_settles queue_ok for secrets
proof unfold_locales
  fix q op and i :: int and t d l
  assume ok: "queue_ok q"
  show "queue_ok (queue_step secrets op q)" by (rule queue_ok_step[OF ok])
  show "job_lease i (queue_step secrets op q) = Some (t + d)" if "op_claims op q = Some (i, t, d)"
    using that claimable_row[OF ok] by (cases op) (auto simp: job_lease_def row_simps leased_def)
  show "l < t + nanos" if c: "op_claims op q = Some (i, t, d)" "job_lease i q = Some l"
  proof -
    obtain r where r: "job_of i q = Some r" "claimable t r" "nj_lease_until r = Some l"
      using c claimable_row[OF ok] by (cases op) (auto simp: job_lease_def)
    then show ?thesis
      using job_ok_of[OF ok r(1)] text_le_bound[of l t] by (auto simp: claimable_def job_ok_def)
  qed
  show "job_lease i (queue_step secrets op q) = Some l"
    if l: "job_lease i q = Some l" "\<not> op_settles op i" "\<And>t d. op_claims op q \<noteq> Some (i, t, d)"
  proof -
    obtain r where r: "job_of i q = Some r" "nj_lease_until r = Some l" using l(1) by (auto simp: job_lease_def split: bind_splits)
    have "nj_status r = ''processing''" using job_ok_of[OF ok r(1)] r(2) by (simp add: job_ok_def)
    then show ?thesis
      using r l(2,3)
      by (cases op) (auto simp: job_lease_def row_simps EnqueueNotification_def Let_def CompleteNotification_def
          FailNotification_def RetryNotification_def split: sum.splits)
  qed
qed

text \<open>No operation settles the job or claims it again.\<close>
fun left_alone :: "aead option \<Rightarrow> int \<Rightarrow> queue_op list \<Rightarrow> notification_queue \<Rightarrow> bool" where
  "left_alone secrets i [] q \<longleftrightarrow> True"
| "left_alone secrets i (op # ops) q \<longleftrightarrow> \<not> op_settles op i \<and> (case op_claims op q of None \<Rightarrow> True | Some (j, _) \<Rightarrow> j \<noteq> i)
    \<and> left_alone secrets i ops (queue_step secrets op q)"

lemma left_alone_undisturbed: "left_alone secrets i ops q \<longleftrightarrow> jobs.undisturbed secrets i ops q"
  by (induction ops arbitrary: q) (auto split: option.splits)

lemma claim_is_op:
  assumes "ClaimNotification secrets now lease q = (Inr (Some job), q')"
  shows "op_claims (OpClaim now lease) q = Some (nj_id job, now, lease)" "q' = queue_step secrets (OpClaim now lease) q"
  using assms by (auto simp: ClaimNotification_def scanNotificationJob_def split: option.splits sum.splits)

text \<open>C19: A job is not handed out twice at a time: after a claim, whatever happens to other jobs, it can
  be claimed again only when it was completed or failed or when its lease has run out, up to the
  second to which stored times compare.\<close>

theorem lease_excludes_second_claim:
  assumes "queue_ok q" "ClaimNotification secrets t1 d1 q = (Inr (Some job), q1)"
    and "left_alone secrets (nj_id job) ops q1"
    and "ClaimNotification secrets t2 d2 (queue_run secrets ops q1) = (Inr (Some job'), q2)" "nj_id job' = nj_id job"
  shows "t1 + d1 < t2 + nanos"
  using jobs.claims_apart[OF assms(1) claim_is_op(1)[OF assms(2)], of secrets ops "OpClaim t2 d2" t2 d2]
    assms(3) claim_is_op[OF assms(4)] claim_is_op(2)[OF assms(2)] assms(5)
  by (simp add: left_alone_undisturbed queue_run_def)

definition two_claims :: "notification_queue \<times> queue_op list" where
  "two_claims = (queue_run (Some toy_aead) [OpEnqueue (Some ''n'') nanos plain_job] no_jobs,
     [OpEnqueue (Some ''n'') nanos plain_job, OpClaim (3 * nanos) (9 * nanos)])"

definition answers_job :: "(queue_error, NotificationJob option) result \<Rightarrow> int \<Rightarrow> bool" where
  "answers_job a i = (case a of Inr (Some job) \<Rightarrow> nj_id job = i | _ \<Rightarrow> False)"

lemma answers_jobE:
  assumes "answers_job (fst r) i"
  obtains job where "r = (Inr (Some job), snd r)" "nj_id job = i"
  using assms by (cases r) (auto simp: answers_job_def split: sum.splits option.splits)

theorem lease_excludes_second_claim_witness:
  "answers_job (fst (ClaimNotification (Some toy_aead) (2 * nanos) (4 * nanos) (fst two_claims))) 1
   \<and> answers_job (fst (ClaimNotification (Some toy_aead) (6 * nanos) nanos (queue_run (Some toy_aead) (snd two_claims)
       (snd (ClaimNotification (Some toy_aead) (2 * nanos) (4 * nanos) (fst two_claims)))))) 1
   \<and> 2 * nanos + 4 * nanos < 6 * nanos + nanos"
proof -
  let ?q = "fst two_claims" and ?ops = "snd two_claims" and ?c = "Some toy_aead"
  let ?r = "ClaimNotification ?c (2 * nanos) (4 * nanos) ?q"
  let ?r2 = "ClaimNotification ?c (6 * nanos) nanos (queue_run ?c ?ops (snd ?r))"
  have q: "queue_ok ?q" by code_simp
  have a1: "answers_job (fst ?r) 1" by code_simp
  have a2: "answers_job (fst ?r2) 1" by code_simp
  have l: "left_alone ?c 1 ?ops (snd ?r)" by code_simp
  obtain job where job: "?r = (Inr (Some job), snd ?r)" "nj_id job = 1" by (rule answers_jobE[OF a1])
  obtain job' where job': "?r2 = (Inr (Some job'), snd ?r2)" "nj_id job' = 1" by (rule answers_jobE[OF a2])
  have "2 * nanos + 4 * nanos < 6 * nanos + nanos"
    by (rule lease_excludes_second_claim[OF q job(1) _ job'(1)]) (simp_all only: job(2) job'(2) l)
  then show ?thesis using a1 a2 by blast
qed

section \<open>Nothing stays in the clear\<close>

lemma sql_like_encrypted: "IsEncrypted v \<Longrightarrow> sql_like ''enc:v1:%'' v"
  by (auto simp: IsEncrypted_def enc_prefix_def has_prefix_iff sql_like_percent)

text \<open>What a stored secret stands for.\<close>
definition reads :: "aead \<Rightarrow> string \<Rightarrow> (secret_error, string) result" where
  "reads c v = decryptSecret (Some c) v"

definition nonce_ok :: "aead \<Rightarrow> string option \<Rightarrow> bool" where
  "nonce_ok c random = (case random of None \<Rightarrow> True | Some nonce \<Rightarrow> length nonce = NonceSize c)"

lemma migrate_value_ok:
  assumes "seals c" "nonce_ok c random" "migrate_value (Some c) random v = Inr v'"
  shows "IsEncrypted v' \<and> reads c v' = reads c v"
proof (cases "IsEncrypted v")
  case True
  then show ?thesis using assms(3) by (auto simp: migrate_value_def split: sum.splits)
next
  case False
  then obtain nonce where n: "random = Some nonce" "Encrypt c (Some nonce) v = Inr v'"
    using assms(3) by (auto simp: migrate_value_def encryptSecret_def Encrypt_def split: option.splits)
  then show ?thesis
    using decrypt_encrypt[OF assms(1) False, of nonce] assms(2) False by (auto simp: reads_def decryptSecret_def nonce_ok_def)
qed

lemma migrate_jobs_ok:
  assumes "seals c" "\<forall>k. nonce_ok c (random k)" "migrate_jobs (Some c) random n rows = Inr rows'"
  shows "list_all2 (\<lambda>r r'. IsEncrypted (nj_url r') \<and> reads c (nj_url r') = reads c (nj_url r) \<and> r' = r\<lparr>nj_url := nj_url r'\<rparr>) rows rows'"
  using assms(3)
proof (induction rows arbitrary: n rows')
  case (Cons r rows)
  then obtain url rs where u: "migrate_value (Some c) (random n) (nj_url r) = Inr url"
      "migrate_jobs (Some c) random (Suc n) rows = Inr rs" "rows' = r\<lparr>nj_url := url\<rparr> # rs"
    by (auto split: sum.splits)
  then show ?case using Cons.IH[OF u(2)] migrate_value_ok[OF assms(1) _ u(1)] assms(2) by simp
qed simp

lemma migrate_setting_ok:
  assumes "seals c" "nonce_ok c random" "migrate_setting (Some c) random key tbl = Inr tbl'"
  shows "(GetSetting key tbl = None \<longrightarrow> GetSetting key tbl' = None)
    \<and> (\<forall>v. GetSetting key tbl = Some v \<longrightarrow> (\<exists>v'. GetSetting key tbl' = Some v' \<and> IsEncrypted v' \<and> reads c v' = reads c v))
    \<and> (\<forall>k. k \<noteq> key \<longrightarrow> GetSetting k tbl' = GetSetting k tbl) \<and> (keys_distinct fst tbl \<longrightarrow> keys_distinct fst tbl')"
proof (cases "GetSetting key tbl")
  case None
  then show ?thesis using assms(3) by (simp add: migrate_setting_def)
next
  case (Some v)
  then obtain v' where v: "migrate_value (Some c) random v = Inr v'" "tbl' = SetSetting key v' tbl"
    using assms(3) by (auto simp: migrate_setting_def split: sum.splits)
  have "keys_distinct fst tbl \<longrightarrow> keys_distinct fst tbl'"
    unfolding v(2) SetSetting_def by (auto intro!: upsert_row_distinct)
  then show ?thesis using migrate_value_ok[OF assms(1,2) v(1)] Some v(2) by (simp add: row_simps)
qed

text \<open>A setting after the migration reads as before, encrypted.\<close>
definition same_secret :: "aead \<Rightarrow> string option \<Rightarrow> string option \<Rightarrow> bool" where
  "same_secret c old new = (case (old, new) of (None, None) \<Rightarrow> True | (Some v, Some v') \<Rightarrow> IsEncrypted v' \<and> reads c v' = reads c v | _ \<Rightarrow> False)"

lemma migrate_both:
  assumes "seals c" "\<forall>k. nonce_ok c (random k)"
    and "migrate_setting (Some c) (random 0) channelsSettingsKey tbl = Inr tbl1"
    and "migrate_setting (Some c) (random 1) registriesSettingsKey tbl1 = Inr tbl2"
  shows "same_secret c (GetSetting k tbl) (GetSetting k tbl2) \<or> k \<notin> {channelsSettingsKey, registriesSettingsKey}"
    and "keys_distinct fst tbl \<Longrightarrow> keys_distinct fst tbl2"
proof -
  have ne: "channelsSettingsKey \<noteq> registriesSettingsKey" by (simp add: channelsSettingsKey_def registriesSettingsKey_def)
  note m1 = migrate_setting_ok[OF assms(1) spec[OF assms(2)] assms(3)]
    and m2 = migrate_setting_ok[OF assms(1) spec[OF assms(2)] assms(4)]
  show "same_secret c (GetSetting k tbl) (GetSetting k tbl2) \<or> k \<notin> {channelsSettingsKey, registriesSettingsKey}"
    using m1 m2 ne unfolding same_secret_def
    by (cases "GetSetting k tbl") (auto split: option.splits)
  show "keys_distinct fst tbl \<Longrightarrow> keys_distinct fst tbl2" using m1 m2 by blast
qed

lemma unencrypted_none:
  assumes "keys_distinct fst tbl" "\<And>k v. k \<in> {channelsSettingsKey, registriesSettingsKey} \<Longrightarrow> GetSetting k tbl = Some v \<Longrightarrow> IsEncrypted v"
    and "\<And>r. r \<in> set (nq_rows q) \<Longrightarrow> IsEncrypted (nj_url r)"
  shows "CountUnencryptedSecrets tbl q = 0"
proof -
  have "GetSetting k tbl = Some v" if "(k, v) \<in> set tbl" for k v
    using get_row_mem[OF assms(1) that] by (simp add: GetSetting_def)
  then have "k \<in> {channelsSettingsKey, registriesSettingsKey} \<Longrightarrow> (k, v) \<in> set tbl \<Longrightarrow> sql_like ''enc:v1:%'' v" for k v
    using assms(2) sql_like_encrypted by blast
  then show ?thesis
    using sql_like_encrypted[OF assms(3)]
    by (auto simp: CountUnencryptedSecrets_def rows_affected_def filter_empty_conv)
qed

text \<open>C35: Configuring encryption leaves no stored secret in the clear and changes the meaning of none: each
  reads as before, through the cipher. If any of them cannot be encrypted or read, nothing is
  changed.\<close>

theorem migration_encrypts_everything:
  assumes "seals c" "\<forall>k. nonce_ok c (random k)" "keys_distinct fst tbl"
    and "migratePlaintextSecrets (Some c) random tbl q = (err, tbl', q')"
  shows "(err \<noteq> None \<longrightarrow> tbl' = tbl \<and> q' = q)
    \<and> (err = None \<longrightarrow> CountUnencryptedSecrets tbl' q' = 0
        \<and> (\<forall>k \<in> {channelsSettingsKey, registriesSettingsKey}. same_secret c (GetSetting k tbl) (GetSetting k tbl'))
        \<and> list_all2 (\<lambda>r r'. reads c (nj_url r') = reads c (nj_url r) \<and> r' = r\<lparr>nj_url := nj_url r'\<rparr>) (nq_rows q) (nq_rows q'))"
proof (cases "err = None")
  case False
  then show ?thesis using assms(4) by (auto simp: migratePlaintextSecrets_def split: sum.splits)
next
  case True
  then obtain tbl1 rows where m: "migrate_setting (Some c) (random 0) channelsSettingsKey tbl = Inr tbl1"
      "migrate_setting (Some c) (random 1) registriesSettingsKey tbl1 = Inr tbl'"
      "migrate_jobs (Some c) random 2 (nq_rows q) = Inr rows" "q' = q\<lparr>nq_rows := rows\<rparr>"
    using assms(4) by (auto simp: migratePlaintextSecrets_def split: sum.splits)
  have same: "same_secret c (GetSetting k tbl) (GetSetting k tbl')" if "k \<in> {channelsSettingsKey, registriesSettingsKey}" for k
    using migrate_both(1)[OF assms(1,2) m(1,2)] that by blast
  note rows = migrate_jobs_ok[OF assms(1,2) m(3)]
  have "CountUnencryptedSecrets tbl' q' = 0"
  proof (rule unencrypted_none)
    show "keys_distinct fst tbl'" by (rule migrate_both(2)[OF assms(1,2) m(1,2) assms(3)])
    show "IsEncrypted v" if "k \<in> {channelsSettingsKey, registriesSettingsKey}" "GetSetting k tbl' = Some v" for k v
      using same[OF that(1)] that(2) by (auto simp: same_secret_def split: option.splits)
    show "IsEncrypted (nj_url r)" if "r \<in> set (nq_rows q')" for r
      using rows that m(4) by (auto simp: list_all2_conv_all_nth in_set_conv_nth)
  qed
  then show ?thesis using True same list.rel_mono_strong[OF rows] m(4) by simp
qed

definition old_secrets :: "settings_table \<times> notification_queue" where
  "old_secrets = ([(''notifications.channels'', ''[]''), (''other'', ''x'')], \<lparr>nq_rows = [plain_job\<lparr>nj_id := 1\<rparr>], nq_seq = 1\<rparr>)"

theorem migration_encrypts_everything_witness:
  "fst (migratePlaintextSecrets (Some toy_aead) (\<lambda>_. Some ''n'') (fst old_secrets) (snd old_secrets)) = None
   \<and> CountUnencryptedSecrets (fst old_secrets) (snd old_secrets) = 2
   \<and> (case migratePlaintextSecrets (Some toy_aead) (\<lambda>_. Some ''n'') (fst old_secrets) (snd old_secrets) of
        (_, tbl', q') \<Rightarrow> CountUnencryptedSecrets tbl' q' = 0)"
proof -
  let ?m = "migratePlaintextSecrets (Some toy_aead) (\<lambda>_. Some ''n'') (fst old_secrets) (snd old_secrets)"
  have r: "\<forall>k. nonce_ok toy_aead ((\<lambda>_::nat. Some ''n'') k)" by (simp add: toy_aead_def nonce_ok_def)
  have d: "keys_distinct fst (fst old_secrets)" by code_simp
  have n: "fst ?m = None" by code_simp
  have c: "CountUnencryptedSecrets (fst old_secrets) (snd old_secrets) = 2" by code_simp
  have m: "?m = (fst ?m, fst (snd ?m), snd (snd ?m))" by (simp only: prod.collapse)
  have "CountUnencryptedSecrets (fst (snd ?m)) (snd (snd ?m)) = 0"
    using migration_encrypts_everything[OF toy_seals r d m] n by blast
  then show ?thesis using n c by (simp only: case_prod_beta simp_thms)
qed

end
