(* ===== verification/Notifier.thy ===== *)
theory Notifier
  imports Notify_Queue Go_Decode
begin

text \<open>
  \<^verbatim>\<open>internal/notifier/notifier.go\<close>: which channels hear of an event, their configuration, and the
  worker that delivers the queue. SQLite, the clock, the random source and the delivery service
  (shoutrrr) are functions on an environment of any type: a statement may fail, a delivery may
  fail or hang.
\<close>

section \<open>Channels\<close>

definition categorize :: "string \<Rightarrow> string" where
  "categorize eventType =
    (if eventType = ''update.available'' then ''update.available''
     else if eventType = ''update.succeeded'' then ''update.applied''
     else if has_prefix eventType ''update.'' then ''update.failed''
     else if has_prefix eventType ''rollback.auto'' then ''rollback.auto''
     else if has_prefix eventType ''rollback.manual'' then ''rollback.manual''
     else if eventType \<in> {''schedule.created'', ''schedule.modified'', ''schedule.cancelled''} then ''schedule.changed''
     else if eventType = ''schedule.executed'' then ''schedule.executed''
     else if eventType = ''check.failed'' then ''check.failed''
     else eventType)"

record Channel =
  ch_name :: string
  ch_url :: string
  ch_events :: "string list"
  ch_stacks :: "string list"
  ch_containers :: "string list"
  ch_configured :: bool
  ch_provider :: string

definition channel_matches :: "Channel \<Rightarrow> string \<Rightarrow> string \<Rightarrow> string \<Rightarrow> bool" where
  "channel_matches ch eventType container stack =
    (let category = categorize eventType in
     if ch_events ch \<noteq> [] \<and> category \<noteq> ''rollback.auto'' \<and> category \<notin> set (ch_events ch) then False
     else if ch_stacks ch = [] \<and> ch_containers ch = [] then True
     else if container = '''' \<and> stack = '''' then True
     else if stack \<noteq> '''' \<and> stack \<in> set (ch_stacks ch) then True
     else if container \<noteq> '''' \<and> container \<in> set (ch_containers ch) then True
     else False)"

definition decode_channel :: "(string \<times> json) list \<Rightarrow> Channel option" where
  "decode_channel ms =
    (case (go_string ''name'' ms, go_string ''url'' ms, go_strings ''events'' ms, go_strings ''stacks'' ms,
           go_strings ''containers'' ms, go_bool ''configured'' ms, go_string ''provider'' ms) of
       (Some name, Some url, Some evs, Some stacks, Some containers, Some configured, Some provider) \<Rightarrow>
         Some \<lparr>ch_name = name, ch_url = url, ch_events = evs, ch_stacks = stacks, ch_containers = containers,
               ch_configured = configured, ch_provider = provider\<rparr>
     | _ \<Rightarrow> None)"

definition decode_channels :: "string \<Rightarrow> Channel list option" where
  "decode_channels raw = Option.bind (json_parse raw) (go_slice decode_channel)"

definition str_member :: "string \<Rightarrow> string \<Rightarrow> (string \<times> json) list" where
  "str_member name v = (if v = '''' then [] else [(name, JStr v)])"

definition list_member :: "string \<Rightarrow> string list \<Rightarrow> (string \<times> json) list" where
  "list_member name vs = (if vs = [] then [] else [(name, JArr (map JStr vs))])"

definition channel_members :: "Channel \<Rightarrow> (string \<times> json) list" where
  "channel_members ch =
    [(''name'', JStr (ch_name ch))] @ str_member ''url'' (ch_url ch) @ list_member ''events'' (ch_events ch)
    @ list_member ''stacks'' (ch_stacks ch) @ list_member ''containers'' (ch_containers ch)
    @ (if ch_configured ch then [(''configured'', JBool True)] else []) @ str_member ''provider'' (ch_provider ch)"

text \<open>The model writes an empty list as \<^verbatim>\<open>[]\<close>; a nil slice is written as \<^verbatim>\<open>null\<close> and read the same.\<close>
definition marshal_channels :: "Channel list \<Rightarrow> string" where
  "marshal_channels chs = json_marshal (JArr (map (\<lambda>ch. JObj (channel_members ch)) chs))"

section \<open>The notifier's world\<close>

record 'w nenv =
  ne_sql :: "'w \<Rightarrow> bool \<times> 'w"
  ne_now :: "'w \<Rightarrow> time \<times> 'w"
  ne_random :: "'w \<Rightarrow> string option \<times> 'w"
  ne_send :: "string \<Rightarrow> string \<Rightarrow> 'w \<Rightarrow> (string option \<times> int) \<times> 'w"  \<comment> \<open>the error, if any, and how long it took\<close>

record NotificationRecord =
  nr_event :: string
  nr_target :: string
  nr_channel :: string
  nr_status :: string
  nr_error :: string
  nr_message :: string

record 'w nworld =
  nw_settings :: settings_table
  nw_queue :: notification_queue
  nw_records :: "NotificationRecord list"
  nw_events :: "event list"
  nw_env :: 'w

record notifier =
  nf_secrets :: "aead option"
  nf_logger :: bool
  nf_lease :: int
  nf_base_backoff :: int
  nf_max_backoff :: int
  nf_send_timeout :: int

definition New_notifier :: "aead option \<Rightarrow> bool \<Rightarrow> notifier" where
  "New_notifier secrets logger = \<lparr>nf_secrets = secrets, nf_logger = logger, nf_lease = 120 * nanos,
     nf_base_backoff = 60 * nanos, nf_max_backoff = 3600 * nanos, nf_send_timeout = 30 * nanos\<rparr>"

datatype notify_error = StoreDown | SecretFailed secret_error | ParseFailed | NeedsURL string | ChannelNotFound
  | SendFailed string | Queue queue_error

text \<open>A statement: \<^term>\<open>f\<close> is run when SQLite lets it.\<close>
definition n_stmt :: "'w nenv \<Rightarrow> ('w nworld \<Rightarrow> 'a \<times> 'w nworld) \<Rightarrow> 'w nworld \<Rightarrow> 'a option \<times> 'w nworld" where
  "n_stmt e f w =
    (case ne_sql e (nw_env w) of
       (False, d) \<Rightarrow> (None, w\<lparr>nw_env := d\<rparr>)
     | (True, d) \<Rightarrow> (case f (w\<lparr>nw_env := d\<rparr>) of (a, w') \<Rightarrow> (Some a, w')))"

definition n_now :: "'w nenv \<Rightarrow> 'w nworld \<Rightarrow> time \<times> 'w nworld" where
  "n_now e w = (case ne_now e (nw_env w) of (t, d) \<Rightarrow> (t, w\<lparr>nw_env := d\<rparr>))"

definition n_random :: "'w nenv \<Rightarrow> 'w nworld \<Rightarrow> string option \<times> 'w nworld" where
  "n_random e w = (case ne_random e (nw_env w) of (r, d) \<Rightarrow> (r, w\<lparr>nw_env := d\<rparr>))"

definition n_emit :: "notifier \<Rightarrow> level \<Rightarrow> string \<Rightarrow> string \<Rightarrow> string \<Rightarrow> string \<Rightarrow> int \<Rightarrow> 'w nworld \<Rightarrow> 'w nworld" where
  "n_emit nf lvl kind target stack channel i w =
    (if \<not> nf_logger nf then w
     else w\<lparr>nw_events := nw_events w @ [(event_of lvl kind target ActorSystem ''''
         [(''channel'', AStr channel), (''queue_id'', AInt i)])\<lparr>ev_stack := stack\<rparr>]\<rparr>)"

section \<open>Configuration\<close>

definition Channels :: "'w nenv \<Rightarrow> notifier \<Rightarrow> 'w nworld \<Rightarrow> (notify_error, Channel list) result \<times> 'w nworld" where
  "Channels e nf w =
    (case n_stmt e (\<lambda>w. (GetSecretSetting (nf_secrets nf) channelsSettingsKey (nw_settings w), w)) w of
       (None, w1) \<Rightarrow> (Inl StoreDown, w1)
     | (Some (Inl err), w1) \<Rightarrow> (Inl (SecretFailed err), w1)
     | (Some (Inr None), w1) \<Rightarrow> (Inr [], w1)
     | (Some (Inr (Some raw)), w1) \<Rightarrow>
         if raw = '''' then (Inr [], w1)
         else (case decode_channels raw of None \<Rightarrow> (Inl ParseFailed, w1) | Some chs \<Rightarrow> (Inr chs, w1)))"

text \<open>The map \<^verbatim>\<open>byName\<close>: of two channels with one name the later counts.\<close>
definition url_by_name :: "Channel list \<Rightarrow> string \<Rightarrow> string" where
  "url_by_name existing name = (case find (\<lambda>ch. ch_name ch = name) (rev existing) of None \<Rightarrow> '''' | Some ch \<Rightarrow> ch_url ch)"

text \<open>The loop of \<^verbatim>\<open>SetChannels\<close> from position \<^term>\<open>i\<close> on.\<close>
fun fill_urls :: "Channel list \<Rightarrow> bool \<Rightarrow> nat \<Rightarrow> Channel list \<Rightarrow> (notify_error, Channel list) result" where
  "fill_urls existing samePositions i [] = Inr []"
| "fill_urls existing samePositions i (ch # chs) =
    (let url1 = (if ch_url ch = '''' then url_by_name existing (ch_name ch) else ch_url ch);
         url = (if url1 = '''' \<and> samePositions then ch_url (existing ! i) else url1)
     in if url = '''' then Inl (NeedsURL (ch_name ch))
        else (case fill_urls existing samePositions (Suc i) chs of
                Inl err \<Rightarrow> Inl err
              | Inr chs' \<Rightarrow> Inr (ch\<lparr>ch_url := url, ch_configured := False, ch_provider := ''''\<rparr> # chs')))"

definition SetChannels :: "'w nenv \<Rightarrow> notifier \<Rightarrow> Channel list \<Rightarrow> 'w nworld \<Rightarrow> notify_error option \<times> 'w nworld" where
  "SetChannels e nf chs w =
    (case Channels e nf w of
       (Inl err, w1) \<Rightarrow> (Some err, w1)
     | (Inr existing, w1) \<Rightarrow>
         (case fill_urls existing (length chs = length existing) 0 chs of
            Inl err \<Rightarrow> (Some err, w1)
          | Inr chs' \<Rightarrow>
              (case n_random e w1 of
                 (random, w2) \<Rightarrow>
                   (case encryptSecret (nf_secrets nf) random (marshal_channels chs') of
                      Inl err \<Rightarrow> (Some (SecretFailed err), w2)
                    | Inr enc \<Rightarrow>
                        (case n_stmt e (\<lambda>w. ((), w\<lparr>nw_settings := SetSetting channelsSettingsKey enc (nw_settings w)\<rparr>)) w2 of
                           (None, w3) \<Rightarrow> (Some StoreDown, w3) | (Some _, w3) \<Rightarrow> (None, w3))))))"

text \<open>\<^verbatim>\<open>strings.SplitN(url, "://", 2)[0]\<close>\<close>
fun before_scheme_end :: "string \<Rightarrow> string" where
  "before_scheme_end [] = []"
| "before_scheme_end (c # s) = (if has_prefix (c # s) ''://'' then [] else c # before_scheme_end s)"

definition public_channel :: "Channel \<Rightarrow> Channel" where
  "public_channel ch = ch\<lparr>ch_provider := before_scheme_end (ch_url ch), ch_url := '''', ch_configured := True\<rparr>"

definition PublicChannels :: "'w nenv \<Rightarrow> notifier \<Rightarrow> 'w nworld \<Rightarrow> (notify_error, Channel list) result \<times> 'w nworld" where
  "PublicChannels e nf w =
    (case Channels e nf w of (Inl err, w1) \<Rightarrow> (Inl err, w1) | (Inr chs, w1) \<Rightarrow> (Inr (map public_channel chs), w1))"

definition test_message :: string where
  "test_message = ''DoUpRo test notification '' @ [CHR 0xE2, CHR 0x80, CHR 0x94] @ '' if you can read this, the channel works.''"

text \<open>\<^verbatim>\<open>shoutrrr.Send\<close> without the worker's time limit.\<close>
definition n_send :: "'w nenv \<Rightarrow> string \<Rightarrow> string \<Rightarrow> 'w nworld \<Rightarrow> (string option \<times> int) \<times> 'w nworld" where
  "n_send e url msg w = (case ne_send e url msg (nw_env w) of (r, d) \<Rightarrow> (r, w\<lparr>nw_env := d\<rparr>))"

definition TestChannel :: "'w nenv \<Rightarrow> notifier \<Rightarrow> string \<Rightarrow> string \<Rightarrow> 'w nworld \<Rightarrow> notify_error option \<times> 'w nworld" where
  "TestChannel e nf name rawURL w =
    (let send = (\<lambda>url w. case n_send e url test_message w of ((err, _), w') \<Rightarrow> (map_option SendFailed err, w'))
     in if rawURL \<noteq> '''' then send rawURL w
        else case Channels e nf w of
          (Inl err, w1) \<Rightarrow> (Some err, w1)
        | (Inr chs, w1) \<Rightarrow>
            (case find (\<lambda>ch. ch_name ch = name) chs of
               None \<Rightarrow> (Some ChannelNotFound, w1) | Some ch \<Rightarrow> send (ch_url ch) w1))"

section \<open>Queueing\<close>

text \<open>The job \<^verbatim>\<open>Notify\<close> hands to the queue; the fields it leaves out have their zero value.\<close>
definition notice :: "string \<Rightarrow> string \<Rightarrow> string \<Rightarrow> string \<Rightarrow> Channel \<Rightarrow> NotificationJob" where
  "notice eventType target stack message ch =
    \<lparr>nj_id = 0, nj_event = eventType, nj_target = target, nj_stack = stack, nj_channel = ch_name ch, nj_url = ch_url ch,
     nj_message = message, nj_status = '''', nj_attempts = 0, nj_max_attempts = 0, nj_next_attempt_at = zero_time,
     nj_lease_until = None, nj_last_error = '''', nj_created_at = zero_time, nj_updated_at = zero_time, nj_sent_at = None\<rparr>"

definition enqueue :: "'w nenv \<Rightarrow> notifier \<Rightarrow> NotificationJob \<Rightarrow> 'w nworld \<Rightarrow> (notify_error, int) result \<times> 'w nworld" where
  "enqueue e nf job w =
    (case n_now e w of
       (now, w1) \<Rightarrow>
         (case n_random e w1 of
            (random, w2) \<Rightarrow>
              (case encryptSecret (nf_secrets nf) random (nj_url job) of
                 Inl err \<Rightarrow> (Inl (SecretFailed err), w2)
               | Inr _ \<Rightarrow>
                   (case n_stmt e (\<lambda>w. case EnqueueNotification (nf_secrets nf) random now job (nw_queue w) of
                            (r, q) \<Rightarrow> (r, w\<lparr>nw_queue := q\<rparr>)) w2 of
                      (None, w3) \<Rightarrow> (Inl StoreDown, w3)
                    | (Some (Inl err), w3) \<Rightarrow> (Inl (Queue err), w3)
                    | (Some (Inr i), w3) \<Rightarrow> (Inr i, w3)))))"

fun notify_channels :: "'w nenv \<Rightarrow> notifier \<Rightarrow> string \<Rightarrow> string \<Rightarrow> string \<Rightarrow> string \<Rightarrow> Channel list \<Rightarrow> 'w nworld \<Rightarrow> 'w nworld" where
  "notify_channels e nf eventType target stack message [] w = w"
| "notify_channels e nf eventType target stack message (ch # chs) w =
    (if \<not> channel_matches ch eventType target stack then notify_channels e nf eventType target stack message chs w
     else case enqueue e nf (notice eventType target stack message ch) w of
       (Inl _, w1) \<Rightarrow> notify_channels e nf eventType target stack message chs
           (n_emit nf LevelError ''notification.enqueue_failed'' target stack (ch_name ch) 0 w1)
     | (Inr i, w1) \<Rightarrow> notify_channels e nf eventType target stack message chs
           (n_emit nf LevelInfo ''notification.queued'' target stack (ch_name ch) i w1))"

definition Notify :: "'w nenv \<Rightarrow> notifier \<Rightarrow> string \<Rightarrow> string \<Rightarrow> string \<Rightarrow> string \<Rightarrow> 'w nworld \<Rightarrow> 'w nworld" where
  "Notify e nf eventType target stack message w =
    (case Channels e nf w of
       (Inl _, w1) \<Rightarrow> w1
     | (Inr chs, w1) \<Rightarrow> notify_channels e nf eventType target stack message chs w1)"

section \<open>Delivery\<close>

definition sendWithTimeout :: "'w nenv \<Rightarrow> notifier \<Rightarrow> string \<Rightarrow> string \<Rightarrow> 'w nworld \<Rightarrow> string option \<times> 'w nworld" where
  "sendWithTimeout e nf url msg w =
    (case n_send e url msg w of
       ((err, took), w1) \<Rightarrow> (if took < nf_send_timeout nf then err else Some ''send notification: timed out'', w1))"

text \<open>A product beyond 64 bits has no defined conversion; \<^term>\<open>wrapped\<close> stands for what it gives.\<close>
definition backoff :: "(int \<Rightarrow> int) \<Rightarrow> notifier \<Rightarrow> int \<Rightarrow> int" where
  "backoff wrapped nf attempt =
    (let product = nf_base_backoff nf * 2 ^ nat (max (attempt - 1) 0);
         d = (if product \<le> max_int64 then product else wrapped product)
     in if d > nf_max_backoff nf then nf_max_backoff nf else d)"

definition update_queue :: "'w nenv \<Rightarrow> (notification_queue \<Rightarrow> queue_error option \<times> notification_queue) \<Rightarrow> 'w nworld \<Rightarrow>
    notify_error option \<times> 'w nworld" where
  "update_queue e f w =
    (case n_stmt e (\<lambda>w. case f (nw_queue w) of (r, q) \<Rightarrow> (r, w\<lparr>nw_queue := q\<rparr>)) w of
       (None, w1) \<Rightarrow> (Some StoreDown, w1)
     | (Some r, w1) \<Rightarrow> (map_option Queue r, w1))"

text \<open>The delivery log; its error is ignored.\<close>
definition record_attempt :: "'w nenv \<Rightarrow> NotificationJob \<Rightarrow> string \<Rightarrow> string \<Rightarrow> 'w nworld \<Rightarrow> 'w nworld" where
  "record_attempt e job status errText w =
    snd (n_stmt e (\<lambda>w. ((), w\<lparr>nw_records := nw_records w @
      [\<lparr>nr_event = nj_event job, nr_target = nj_target job, nr_channel = nj_channel job, nr_status = status,
        nr_error = errText, nr_message = nj_message job\<rparr>]\<rparr>)) w)"

definition finish_sent :: "'w nenv \<Rightarrow> notifier \<Rightarrow> NotificationJob \<Rightarrow> 'w nworld \<Rightarrow> notify_error option \<times> 'w nworld" where
  "finish_sent e nf job w =
    (case n_now e w of
       (now, w1) \<Rightarrow>
         (case update_queue e (CompleteNotification (nj_id job) now) w1 of
            (Some err, w2) \<Rightarrow> (Some err, w2)
          | (None, w2) \<Rightarrow>
              (None, record_attempt e job ''sent'' ''''
                 (n_emit nf LevelInfo ''notification.sent'' (nj_target job) (nj_stack job) (nj_channel job) (nj_id job) w2))))"

definition finish_failed :: "(int \<Rightarrow> int) \<Rightarrow> 'w nenv \<Rightarrow> notifier \<Rightarrow> NotificationJob \<Rightarrow> string \<Rightarrow> 'w nworld \<Rightarrow> notify_error option \<times> 'w nworld" where
  "finish_failed wrapped e nf job errText w =
    (let dead = nj_max_attempts job \<le> nj_attempts job in
     case n_now e w of
       (now, w1) \<Rightarrow>
         (case n_now e w1 of
            (now', w2) \<Rightarrow>
              (case update_queue e (FailNotification now' (nj_id job) (now + backoff wrapped nf (nj_attempts job)) errText dead) w2 of
                 (Some err, w3) \<Rightarrow> (Some err, w3)
               | (None, w3) \<Rightarrow>
                   (None, record_attempt e job ''failed'' errText
                      (if dead
                       then n_emit nf LevelError ''notification.dead_lettered'' (nj_target job) (nj_stack job) (nj_channel job) (nj_id job) w3
                       else n_emit nf LevelWarn ''notification.retry_scheduled'' (nj_target job) (nj_stack job) (nj_channel job) (nj_id job) w3)))))"

definition deliverOne :: "(int \<Rightarrow> int) \<Rightarrow> 'w nenv \<Rightarrow> notifier \<Rightarrow> 'w nworld \<Rightarrow> (bool \<times> notify_error option) \<times> 'w nworld" where
  "deliverOne wrapped e nf w =
    (case n_now e w of
       (now, w1) \<Rightarrow>
         (case n_stmt e (\<lambda>w. case ClaimNotification (nf_secrets nf) now (nf_lease nf) (nw_queue w) of
                  (r, q) \<Rightarrow> (r, w\<lparr>nw_queue := q\<rparr>)) w1 of
            (None, w2) \<Rightarrow> ((False, Some StoreDown), w2)
          | (Some (Inl err), w2) \<Rightarrow> ((False, Some (Queue err)), w2)
          | (Some (Inr None), w2) \<Rightarrow> ((False, None), w2)
          | (Some (Inr (Some job)), w2) \<Rightarrow>
              (case sendWithTimeout e nf (nj_url job) (nj_message job) w2 of
                 (None, w3) \<Rightarrow> (case finish_sent e nf job w3 of (err, w4) \<Rightarrow> ((True, err), w4))
               | (Some errText, w3) \<Rightarrow> (case finish_failed wrapped e nf job errText w3 of (err, w4) \<Rightarrow> ((True, err), w4)))))"

text \<open>One turn of the loop of \<^verbatim>\<open>Run\<close>: whether it goes on at once, and the world.\<close>
definition worker_turn :: "(int \<Rightarrow> int) \<Rightarrow> 'w nenv \<Rightarrow> notifier \<Rightarrow> 'w nworld \<Rightarrow> bool \<times> 'w nworld" where
  "worker_turn wrapped e nf w =
    (case deliverOne wrapped e nf w of
       ((worked, None), w1) \<Rightarrow> (worked, w1)
     | ((worked, Some _), w1) \<Rightarrow> (worked, n_emit nf LevelError ''notification.worker_failed'' '''' '''' '''' 0 w1))"

text \<open>The loop until it was stopped, after \<^term>\<open>n\<close> turns.\<close>
primrec worker_run :: "nat \<Rightarrow> (int \<Rightarrow> int) \<Rightarrow> 'w nenv \<Rightarrow> notifier \<Rightarrow> 'w nworld \<Rightarrow> 'w nworld" where
  "worker_run 0 wrapped e nf w = w"
| "worker_run (Suc n) wrapped e nf w = worker_run n wrapped e nf (snd (worker_turn wrapped e nf w))"

section \<open>Stored channels read back\<close>

definition channel_fields :: "string list" where
  "channel_fields = [''name'', ''url'', ''events'', ''stacks'', ''containers'', ''configured'', ''provider'']"

lemma channel_fields_fold: "k \<in> set channel_fields \<Longrightarrow> n \<in> set channel_fields \<Longrightarrow> equal_fold k n \<longleftrightarrow> k = n"
proof -
  have "\<forall>k \<in> set channel_fields. \<forall>n \<in> set channel_fields. equal_fold k n \<longleftrightarrow> k = n" by code_simp
  then show "k \<in> set channel_fields \<Longrightarrow> n \<in> set channel_fields \<Longrightarrow> ?thesis" by blast
qed

lemma member_values:
  assumes "k \<in> set channel_fields" "n \<in> set channel_fields"
  shows "field_values n (str_member k v) = (if k = n \<and> v \<noteq> '''' then [JStr v] else [])"
    and "field_values n (list_member k vs) = (if k = n \<and> vs \<noteq> [] then [JArr (map JStr vs)] else [])"
    and "field_values n [(k, j)] = (if k = n \<and> j \<noteq> JNull then [j] else [])"
  using channel_fields_fold[OF assms] by (auto simp: str_member_def list_member_def field_values_simps)

lemma channel_values:
  "field_values ''name'' (channel_members ch) = [JStr (ch_name ch)]"
  "field_values ''url'' (channel_members ch) = (if ch_url ch \<noteq> '''' then [JStr (ch_url ch)] else [])"
  "field_values ''events'' (channel_members ch) = (if ch_events ch \<noteq> [] then [JArr (map JStr (ch_events ch))] else [])"
  "field_values ''stacks'' (channel_members ch) = (if ch_stacks ch \<noteq> [] then [JArr (map JStr (ch_stacks ch))] else [])"
  "field_values ''containers'' (channel_members ch) = (if ch_containers ch \<noteq> [] then [JArr (map JStr (ch_containers ch))] else [])"
  "field_values ''configured'' (channel_members ch) = (if ch_configured ch then [JBool True] else [])"
  "field_values ''provider'' (channel_members ch) = (if ch_provider ch \<noteq> '''' then [JStr (ch_provider ch)] else [])"
  unfolding channel_members_def field_values_append if_distrib[of "field_values _"]
  by (simp_all add: field_values_nil member_values channel_fields_def)

lemma go_string_of_values: "field_values n ms = (if v \<noteq> '''' then [JStr v] else []) \<Longrightarrow> go_string n ms = Some v"
  by (auto simp: go_string_def is_str_def)

lemma go_strings_of_values: "field_values n ms = (if vs \<noteq> [] then [JArr (map JStr vs)] else []) \<Longrightarrow> go_strings n ms = Some vs"
  by (auto simp: go_strings_def is_str_def list_all_iff comp_def)

lemma decode_members: "decode_channel (channel_members ch) = Some ch"
proof -
  have "go_string ''name'' (channel_members ch) = Some (ch_name ch)"
    by (simp add: go_string_def channel_values is_str_def)
  moreover have "go_bool ''configured'' (channel_members ch) = Some (ch_configured ch)"
    by (simp add: go_bool_def channel_values)
  ultimately show ?thesis
    by (simp add: decode_channel_def go_string_of_values[OF channel_values(2)] go_string_of_values[OF channel_values(7)]
        go_strings_of_values[OF channel_values(3)] go_strings_of_values[OF channel_values(4)] go_strings_of_values[OF channel_values(5)])
qed

lemma decode_marshal_channels: "decode_channels (marshal_channels chs) = Some chs"
proof -
  have "plain (JObj (channel_members ch))" for ch
    by (auto simp: channel_members_def str_member_def list_member_def)
  then have "json_parse (marshal_channels chs) = Some (JArr (map (\<lambda>ch. JObj (channel_members ch)) chs))"
    unfolding marshal_channels_def by (intro json_marshal_roundtrip) auto
  then show ?thesis unfolding decode_channels_def using go_slice_map[OF decode_members] by simp
qed

lemma marshal_channels_plain: "\<not> IsEncrypted (marshal_channels chs)" "marshal_channels chs \<noteq> ''''"
proof -
  have "\<exists>t. marshal_channels chs = CHR ''['' # t"
    by (simp add: marshal_channels_def json_marshal_def)
  then show "\<not> IsEncrypted (marshal_channels chs)" "marshal_channels chs \<noteq> ''''"
    by (auto simp: IsEncrypted_def enc_prefix_def has_prefix_iff)
qed

section \<open>A working environment\<close>

definition sql_works :: "'w nenv \<Rightarrow> bool" where
  "sql_works e \<longleftrightarrow> (\<forall>d. fst (ne_sql e d))"

definition random_works :: "'w nenv \<Rightarrow> aead \<Rightarrow> bool" where
  "random_works e c \<longleftrightarrow> (\<forall>d. \<exists>nonce. fst (ne_random e d) = Some nonce \<and> length nonce = NonceSize c)"

lemma n_stmt_works: "sql_works e \<Longrightarrow> \<exists>d. n_stmt e f w = (case f (w\<lparr>nw_env := d\<rparr>) of (a, w') \<Rightarrow> (Some a, w'))"
  by (cases "ne_sql e (nw_env w)") (auto simp: sql_works_def n_stmt_def split: bool.splits dest: spec[of _ "nw_env w"])

lemma n_stmt_env:
  "sql_works e \<Longrightarrow> \<exists>d. n_stmt e f (w\<lparr>nw_env := x\<rparr>) = (case f (w\<lparr>nw_env := d\<rparr>) of (a, w') \<Rightarrow> (Some a, w'))"
  using n_stmt_works[of e f "w\<lparr>nw_env := x\<rparr>"] by simp

text \<open>The channels configured in a world, as \<^verbatim>\<open>Channels\<close> reads them when the store works.\<close>
definition configured :: "notifier \<Rightarrow> 'w nworld \<Rightarrow> (notify_error, Channel list) result" where
  "configured nf w =
    (case GetSecretSetting (nf_secrets nf) channelsSettingsKey (nw_settings w) of
       Inl err \<Rightarrow> Inl (SecretFailed err)
     | Inr None \<Rightarrow> Inr []
     | Inr (Some raw) \<Rightarrow> if raw = '''' then Inr [] else (case decode_channels raw of None \<Rightarrow> Inl ParseFailed | Some chs \<Rightarrow> Inr chs))"

lemma Channels_works: "sql_works e \<Longrightarrow> \<exists>d. Channels e nf w = (configured nf w, w\<lparr>nw_env := d\<rparr>)"
  using n_stmt_works[of e "\<lambda>w. (GetSecretSetting (nf_secrets nf) channelsSettingsKey (nw_settings w), w)" w]
  by (auto simp: Channels_def configured_def split: sum.splits option.splits)

lemma n_random_works:
  "random_works e c \<Longrightarrow> \<exists>d nonce. n_random e w = (Some nonce, w\<lparr>nw_env := d\<rparr>) \<and> length nonce = NonceSize c"
  unfolding random_works_def n_random_def
  by (cases "ne_random e (nw_env w)", erule allE[of _ "nw_env w"]) auto

lemma SetChannels_works:
  assumes "sql_works e" "random_works e c" "seals c" "nf_secrets nf = Some c" "configured nf w = Inr existing"
    and "fill_urls existing (length chs = length existing) 0 chs = Inr chs'"
  shows "\<exists>w'. SetChannels e nf chs w = (None, w') \<and> configured nf w' = Inr chs' \<and> nw_queue w' = nw_queue w
    \<and> (\<forall>k. k \<noteq> channelsSettingsKey \<longrightarrow> GetSetting k (nw_settings w') = GetSetting k (nw_settings w))"
proof -
  obtain d1 where c: "Channels e nf w = (Inr existing, w\<lparr>nw_env := d1\<rparr>)" using Channels_works[OF assms(1)] assms(5) by metis
  obtain d2 nonce where r: "n_random e (w\<lparr>nw_env := d1\<rparr>) = (Some nonce, w\<lparr>nw_env := d2\<rparr>)" "length nonce = NonceSize c"
    using n_random_works[OF assms(2), of "w\<lparr>nw_env := d1\<rparr>"] by auto
  obtain enc where enc: "Encrypt c (Some nonce) (marshal_channels chs') = Inr enc" "IsEncrypted enc"
      "Decrypt c enc = Inr (marshal_channels chs')"
    using decrypt_encrypt[OF assms(3) marshal_channels_plain(1) r(2)] by blast
  obtain d3 where s: "n_stmt e (\<lambda>w. ((), w\<lparr>nw_settings := SetSetting channelsSettingsKey enc (nw_settings w)\<rparr>)) (w\<lparr>nw_env := d2\<rparr>)
      = (Some (), w\<lparr>nw_env := d3, nw_settings := SetSetting channelsSettingsKey enc (nw_settings w)\<rparr>)"
    using n_stmt_works[OF assms(1), of "\<lambda>w. ((), w\<lparr>nw_settings := SetSetting channelsSettingsKey enc (nw_settings w)\<rparr>)" "w\<lparr>nw_env := d2\<rparr>"]
    by auto
  let ?w = "w\<lparr>nw_env := d3, nw_settings := SetSetting channelsSettingsKey enc (nw_settings w)\<rparr>"
  have "SetChannels e nf chs w = (None, ?w)"
    using c r(1) enc(1) s assms(4,6) by (simp add: SetChannels_def encryptSecret_def)
  moreover have "configured nf ?w = Inr chs'"
    using assms(4) enc(2,3) marshal_channels_plain(2)
    by (simp add: configured_def GetSecretSetting_def decryptSecret_def row_simps decode_marshal_channels)
  ultimately show ?thesis by (simp add: row_simps)
qed

section \<open>Editing channels\<close>

definition kept_channel :: "Channel \<Rightarrow> Channel \<Rightarrow> Channel" where
  "kept_channel new old = new\<lparr>ch_url := ch_url old, ch_configured := False, ch_provider := ''''\<rparr>"

lemma url_by_name_position:
  assumes "distinct (map ch_name existing)" "i < length existing"
  shows "url_by_name existing (ch_name (existing ! i)) = ch_url (existing ! i)"
proof -
  have "find (\<lambda>ch. ch_name ch = ch_name (existing ! i)) (rev existing) = Some (existing ! i)"
    using get_row_mem[of ch_name "rev existing" "existing ! i"] assms
    by (simp add: get_row_def keys_distinct_def rev_map[symmetric])
  then show ?thesis by (simp add: url_by_name_def)
qed

lemma url_by_name_new: "n \<notin> ch_name ` set existing \<Longrightarrow> url_by_name existing n = ''''"
  using find_None_iff[of "\<lambda>ch. ch_name ch = n" "rev existing"] by (auto simp: url_by_name_def)

text \<open>An entry of a list as the settings page submits it: without an address, under its old name or a new
  one.\<close>
definition edited :: "Channel list \<Rightarrow> Channel \<Rightarrow> Channel \<Rightarrow> bool" where
  "edited existing new old \<longleftrightarrow> ch_url new = '''' \<and> (ch_name new = ch_name old \<or> ch_name new \<notin> ch_name ` set existing)"

lemma fill_urls_edited:
  assumes "distinct (map ch_name existing)" "\<forall>ch \<in> set existing. ch_url ch \<noteq> ''''"
    and "list_all2 (edited existing) chs (drop i existing)"
  shows "fill_urls existing True i chs = Inr (map2 kept_channel chs (drop i existing))"
  using assms(3)
proof (induction chs arbitrary: i)
  case (Cons ch chs)
  then have i: "i < length existing" using list_all2_lengthD by fastforce
  then have d: "drop i existing = existing ! i # drop (Suc i) existing" by (simp add: Cons_nth_drop_Suc)
  have e: "edited existing ch (existing ! i)" "list_all2 (edited existing) chs (drop (Suc i) existing)"
    using Cons.prems by (simp_all add: d)
  have "ch_url (existing ! i) \<noteq> ''''" using assms(2) i by simp
  moreover have "url_by_name existing (ch_name ch) = ch_url (existing ! i) \<or> url_by_name existing (ch_name ch) = ''''"
    using e(1) url_by_name_position[OF assms(1) i] url_by_name_new by (auto simp: edited_def)
  ultimately show ?case
    using e(1) Cons.IH[OF e(2)] by (auto simp: d edited_def kept_channel_def Let_def)
qed simp

text \<open>Saving the channel list as the settings page shows it, with its addresses left out, entries renamed
  to unused names or their filters changed, keeps the address of every channel and stores what was
  edited; the list shown afterwards has no address in it.\<close>

theorem channel_edit_keeps_destinations:
  assumes "sql_works e" "random_works e c" "seals c" "nf_secrets nf = Some c" "configured nf w = Inr existing"
    and "distinct (map ch_name existing)" "\<forall>ch \<in> set existing. ch_url ch \<noteq> ''''"
    and "list_all2 (edited existing) chs existing"
  shows "\<exists>w' w'' public. SetChannels e nf chs w = (None, w') \<and> configured nf w' = Inr (map2 kept_channel chs existing)
    \<and> PublicChannels e nf w' = (Inr public, w'') \<and> (\<forall>ch \<in> set public. ch_url ch = '''')
    \<and> map ch_name public = map ch_name chs"
proof -
  have len: "length chs = length existing" using assms(8) by (rule list_all2_lengthD)
  obtain w' where w': "SetChannels e nf chs w = (None, w')" "configured nf w' = Inr (map2 kept_channel chs existing)"
    using SetChannels_works[OF assms(1-5), of chs] fill_urls_edited[OF assms(6,7), of chs 0] assms(8) len by auto
  obtain d where "Channels e nf w' = (Inr (map2 kept_channel chs existing), w'\<lparr>nw_env := d\<rparr>)"
    using Channels_works[OF assms(1), of nf w'] w'(2) by auto
  moreover have "map ch_name (map public_channel (map2 kept_channel chs existing)) = map ch_name chs"
    using len by (induction chs existing rule: list_induct2) (simp_all add: public_channel_def kept_channel_def)
  ultimately show ?thesis
    using w' by (auto simp: PublicChannels_def public_channel_def)
qed

section \<open>Queueing a notification\<close>

lemma n_now_env: "\<exists>d. n_now e w = (fst (ne_now e (nw_env w)), w\<lparr>nw_env := d\<rparr>)"
  by (cases "ne_now e (nw_env w)") (auto simp: n_now_def)

text \<open>A new row that stands for \<^term>\<open>job\<close>.\<close>
definition queued_as :: "aead \<Rightarrow> NotificationJob \<Rightarrow> NotificationJob \<Rightarrow> bool" where
  "queued_as c job r \<longleftrightarrow> nj_status r = ''pending'' \<and> nj_attempts r = 0 \<and> nj_event r = nj_event job \<and> nj_target r = nj_target job
    \<and> nj_stack r = nj_stack job \<and> nj_channel r = nj_channel job \<and> nj_message r = nj_message job
    \<and> decryptSecret (Some c) (nj_url r) = Inr (nj_url job)"

lemma enqueue_works:
  assumes "sql_works e" "random_works e c" "seals c" "nf_secrets nf = Some c" "\<not> IsEncrypted (nj_url job)"
  shows "\<exists>i w' r. enqueue e nf job w = (Inr i, w') \<and> nq_rows (nw_queue w') = nq_rows (nw_queue w) @ [r]
    \<and> nw_settings w' = nw_settings w \<and> queued_as c job r"
proof -
  obtain d1 where n: "n_now e w = (fst (ne_now e (nw_env w)), w\<lparr>nw_env := d1\<rparr>)" using n_now_env[of e w] by blast
  let ?now = "fst (ne_now e (nw_env w))"
  obtain d2 nonce where r: "n_random e (w\<lparr>nw_env := d1\<rparr>) = (Some nonce, w\<lparr>nw_env := d2\<rparr>)" "length nonce = NonceSize c"
    using n_random_works[OF assms(2), of "w\<lparr>nw_env := d1\<rparr>"] by auto
  obtain enc where enc: "Encrypt c (Some nonce) (nj_url job) = Inr enc" "IsEncrypted enc" "Decrypt c enc = Inr (nj_url job)"
    using decrypt_encrypt[OF assms(3,5) r(2)] by blast
  define f where "f = (\<lambda>w :: 'a nworld. case EnqueueNotification (Some c) (Some nonce) ?now job (nw_queue w) of (r, q) \<Rightarrow> (r, w\<lparr>nw_queue := q\<rparr>))"
  obtain d3 where s: "n_stmt e f (w\<lparr>nw_env := d2\<rparr>) = (case f (w\<lparr>nw_env := d3\<rparr>) of (a, w') \<Rightarrow> (Some a, w'))"
    using n_stmt_env[OF assms(1), of f d2 w] by blast
  obtain i q row where f: "f (w\<lparr>nw_env := d3\<rparr>) = (Inr i, w\<lparr>nw_env := d3, nw_queue := q\<rparr>)"
      "nq_rows q = nq_rows (nw_queue w) @ [row]" "queued_as c job row"
    using enc by (auto simp: f_def encryptSecret_def EnqueueNotification_def Let_def queued_as_def decryptSecret_def)
  have "enqueue e nf job w = (Inr i, w\<lparr>nw_env := d3, nw_queue := q\<rparr>)"
    unfolding enqueue_def using n r(1) enc(1) s f(1) assms(4) by (simp add: encryptSecret_def f_def)
  then show ?thesis using f(2,3) by simp
qed

lemma n_emit_frame [simp]:
  "nw_queue (n_emit nf lvl k t s ch i w) = nw_queue w" "nw_settings (n_emit nf lvl k t s ch i w) = nw_settings w"
  "nw_env (n_emit nf lvl k t s ch i w) = nw_env w"
  by (simp_all add: n_emit_def)

text \<open>Whether an event concerns what a channel watches.\<close>
definition in_scope :: "Channel \<Rightarrow> string \<Rightarrow> string \<Rightarrow> bool" where
  "in_scope ch container stack \<longleftrightarrow> ch_stacks ch = [] \<and> ch_containers ch = [] \<or> container = '''' \<and> stack = ''''
    \<or> stack \<noteq> '''' \<and> stack \<in> set (ch_stacks ch) \<or> container \<noteq> '''' \<and> container \<in> set (ch_containers ch)"

lemma channel_matches_iff:
  "channel_matches ch ev container stack \<longleftrightarrow>
     (ch_events ch = [] \<or> categorize ev = ''rollback.auto'' \<or> categorize ev \<in> set (ch_events ch)) \<and> in_scope ch container stack"
  by (auto simp: channel_matches_def in_scope_def Let_def)

lemma notify_channels_works:
  assumes "sql_works e" "random_works e c" "seals c" "nf_secrets nf = Some c" "\<forall>ch \<in> set chs. \<not> IsEncrypted (ch_url ch)"
  shows "\<exists>new. nq_rows (nw_queue (notify_channels e nf ev target stack msg chs w)) = nq_rows (nw_queue w) @ new
    \<and> list_all2 (\<lambda>ch r. queued_as c (notice ev target stack msg ch) r) (filter (\<lambda>ch. channel_matches ch ev target stack) chs) new"
  using assms(5)
proof (induction chs arbitrary: w)
  case (Cons ch chs)
  show ?case
  proof (cases "channel_matches ch ev target stack")
    case True
    have "\<not> IsEncrypted (nj_url (notice ev target stack msg ch))" using Cons.prems by (simp add: notice_def)
    then obtain i w1 r where q: "enqueue e nf (notice ev target stack msg ch) w = (Inr i, w1)"
        "nq_rows (nw_queue w1) = nq_rows (nw_queue w) @ [r]" "queued_as c (notice ev target stack msg ch) r"
      using enqueue_works[OF assms(1-4)] by blast
    then show ?thesis
      using True Cons.IH[of "n_emit nf LevelInfo ''notification.queued'' target stack (ch_name ch) i w1"] Cons.prems by fastforce
  next
    case False
    then show ?thesis using Cons.IH[of w] Cons.prems by simp
  qed
qed simp

text \<open>C28: A notification is queued, once and in order, for exactly the configured channels whose event filter
  and scope admit it, each job with the address that channel has now; news of an automatic rollback
  passes every event filter.\<close>

theorem notify_queues_matching:
  assumes "sql_works e" "random_works e c" "seals c" "nf_secrets nf = Some c" "configured nf w = Inr chs"
    and "\<forall>ch \<in> set chs. \<not> IsEncrypted (ch_url ch)"
  shows "\<exists>new. nq_rows (nw_queue (Notify e nf ev target stack msg w)) = nq_rows (nw_queue w) @ new
    \<and> list_all2 (\<lambda>ch r. queued_as c (notice ev target stack msg ch) r)
        (filter (\<lambda>ch. (ch_events ch = [] \<or> categorize ev = ''rollback.auto'' \<or> categorize ev \<in> set (ch_events ch))
           \<and> in_scope ch target stack) chs) new"
proof -
  obtain d where "Channels e nf w = (Inr chs, w\<lparr>nw_env := d\<rparr>)" using Channels_works[OF assms(1), of nf w] assms(5) by auto
  then have "Notify e nf ev target stack msg w = notify_channels e nf ev target stack msg chs (w\<lparr>nw_env := d\<rparr>)"
    by (simp add: Notify_def)
  then show ?thesis
    using notify_channels_works[OF assms(1-4,6), of ev target stack msg "w\<lparr>nw_env := d\<rparr>"]
    unfolding channel_matches_iff by simp
qed

section \<open>What a turn of the worker does\<close>

text \<open>The environment with a list of the deliveries asked of the service and its answers.\<close>
type_synonym 'w hearing = "(string \<times> string \<times> string option) list \<times> 'w"

definition hearing :: "'w nenv \<Rightarrow> 'w hearing nenv" where
  "hearing e = \<lparr>
     ne_sql = (\<lambda>d. case ne_sql e (snd d) of (b, d') \<Rightarrow> (b, (fst d, d'))),
     ne_now = (\<lambda>d. case ne_now e (snd d) of (t, d') \<Rightarrow> (t, (fst d, d'))),
     ne_random = (\<lambda>d. case ne_random e (snd d) of (r, d') \<Rightarrow> (r, (fst d, d'))),
     ne_send = (\<lambda>url msg d. case ne_send e url msg (snd d) of ((err, took), d') \<Rightarrow> ((err, took), (fst d @ [(url, msg, err)], d')))\<rparr>"

abbreviation heard :: "'w hearing nworld \<Rightarrow> (string \<times> string \<times> string option) list" where
  "heard w \<equiv> fst (nw_env w)"

abbreviation clock :: "'w nenv \<Rightarrow> 'w hearing nworld \<Rightarrow> time" where
  "clock e w \<equiv> fst (ne_now e (snd (nw_env w)))"

lemma hearing_now: "\<exists>d. n_now (hearing e) w = (clock e w, w\<lparr>nw_env := (heard w, d)\<rparr>)"
  by (cases "ne_now e (snd (nw_env w))") (auto simp: n_now_def hearing_def)

lemma hearing_stmt:
  "sql_works e \<Longrightarrow> \<exists>d. n_stmt (hearing e) f w = (case f (w\<lparr>nw_env := (heard w, d)\<rparr>) of (a, w') \<Rightarrow> (Some a, w'))"
  by (cases "ne_sql e (snd (nw_env w))")
    (auto simp: sql_works_def n_stmt_def hearing_def split: bool.splits dest: spec[of _ "snd (nw_env w)"])

lemma hearing_send: "\<exists>err took d. n_send (hearing e) url msg w = ((err, took), w\<lparr>nw_env := (heard w @ [(url, msg, err)], d)\<rparr>)"
  by (cases "ne_send e url msg (snd (nw_env w))") (auto simp: n_send_def hearing_def split: prod.splits)

lemma update_queue_works:
  assumes "sql_works e"
  shows "\<exists>d. update_queue (hearing e) f w = (map_option Queue (fst (f (nw_queue w))), w\<lparr>nw_env := (heard w, d), nw_queue := snd (f (nw_queue w))\<rparr>)"
proof -
  define g where "g = (\<lambda>w :: 'a hearing nworld. case f (nw_queue w) of (r, q) \<Rightarrow> (r, w\<lparr>nw_queue := q\<rparr>))"
  obtain d where d: "n_stmt (hearing e) g w = (case g (w\<lparr>nw_env := (heard w, d)\<rparr>) of (a, w') \<Rightarrow> (Some a, w'))"
    using hearing_stmt[OF assms, of g w] by blast
  have "update_queue (hearing e) f w = (map_option Queue (fst (f (nw_queue w))), w\<lparr>nw_env := (heard w, d), nw_queue := snd (f (nw_queue w))\<rparr>)"
    unfolding update_queue_def g_def[symmetric] d by (simp add: g_def case_prod_beta)
  then show ?thesis by blast
qed

lemma record_attempt_works:
  assumes "sql_works e"
  shows "nw_queue (record_attempt (hearing e) job st er w) = nw_queue w \<and> heard (record_attempt (hearing e) job st er w) = heard w"
proof -
  define g where "g = (\<lambda>w :: 'a hearing nworld. ((), w\<lparr>nw_records := nw_records w @
      [\<lparr>nr_event = nj_event job, nr_target = nj_target job, nr_channel = nj_channel job, nr_status = st,
        nr_error = er, nr_message = nj_message job\<rparr>]\<rparr>))"
  obtain d where "n_stmt (hearing e) g w = (case g (w\<lparr>nw_env := (heard w, d)\<rparr>) of (a, w') \<Rightarrow> (Some a, w'))"
    using hearing_stmt[OF assms, of g w] by blast
  then show ?thesis unfolding record_attempt_def g_def[symmetric] by (simp add: g_def)
qed

definition completed :: "time \<Rightarrow> NotificationJob \<Rightarrow> NotificationJob" where
  "completed now r = r\<lparr>nj_status := ''sent'', nj_sent_at := Some now, nj_lease_until := None, nj_last_error := '''', nj_updated_at := now\<rparr>"

lemma finish_sent_works:
  assumes "sql_works e" "fst (update_job (nj_id job) ''processing'' id (nw_queue w)) = None"
  shows "\<exists>now w'. finish_sent (hearing e) nf job w = (None, w') \<and> heard w' = heard w
    \<and> nw_queue w' = snd (update_job (nj_id job) ''processing'' (completed now) (nw_queue w))"
proof -
  obtain d1 where n: "n_now (hearing e) w = (clock e w, w\<lparr>nw_env := (heard w, d1)\<rparr>)" using hearing_now[of e w] by blast
  let ?c = "CompleteNotification (nj_id job) (clock e w)"
  have c: "?c = update_job (nj_id job) ''processing'' (completed (clock e w))"
    by (simp add: CompleteNotification_def completed_def[abs_def])
  obtain d2 where u: "update_queue (hearing e) ?c (w\<lparr>nw_env := (heard w, d1)\<rparr>) =
      (map_option Queue (fst (?c (nw_queue w))), w\<lparr>nw_env := (heard w, d2), nw_queue := snd (?c (nw_queue w))\<rparr>)"
    using update_queue_works[OF assms(1), of ?c "w\<lparr>nw_env := (heard w, d1)\<rparr>"] by auto
  have "fst (?c (nw_queue w)) = None" using assms(2) by (simp add: c update_job_def)
  then show ?thesis
    using n u record_attempt_works[OF assms(1)] by (auto simp: finish_sent_def c)
qed

lemma finish_failed_works:
  assumes "sql_works e" "fst (update_job (nj_id job) ''processing'' id (nw_queue w)) = None"
  shows "\<exists>now retryAt w'. finish_failed wrapped (hearing e) nf job err w = (None, w') \<and> heard w' = heard w
    \<and> nw_queue w' = snd (update_job (nj_id job) ''processing''
        (\<lambda>r. r\<lparr>nj_status := (if nj_max_attempts job \<le> nj_attempts job then ''dead_letter'' else ''pending''),
               nj_next_attempt_at := retryAt, nj_lease_until := None, nj_last_error := err, nj_updated_at := now\<rparr>) (nw_queue w))"
proof -
  obtain d1 where n: "n_now (hearing e) w = (clock e w, w\<lparr>nw_env := (heard w, d1)\<rparr>)" using hearing_now[of e w] by blast
  obtain t d2 where n2: "n_now (hearing e) (w\<lparr>nw_env := (heard w, d1)\<rparr>) = (t, w\<lparr>nw_env := (heard w, d2)\<rparr>)"
    using hearing_now[of e "w\<lparr>nw_env := (heard w, d1)\<rparr>"] by auto
  let ?at = "clock e w + backoff wrapped nf (nj_attempts job)" and ?dead = "nj_max_attempts job \<le> nj_attempts job"
  let ?c = "FailNotification t (nj_id job) ?at err ?dead"
  obtain d3 where u: "update_queue (hearing e) ?c (w\<lparr>nw_env := (heard w, d2)\<rparr>) =
      (map_option Queue (fst (?c (nw_queue w))), w\<lparr>nw_env := (heard w, d3), nw_queue := snd (?c (nw_queue w))\<rparr>)"
    using update_queue_works[OF assms(1), of ?c "w\<lparr>nw_env := (heard w, d2)\<rparr>"] by auto
  have "fst (?c (nw_queue w)) = None" using assms(2) by (simp add: FailNotification_def update_job_def)
  then show ?thesis
    using n n2 u record_attempt_works[OF assms(1)] by (auto simp: finish_failed_def FailNotification_def Let_def)
qed

definition settled :: "NotificationJob \<Rightarrow> bool" where
  "settled r \<longleftrightarrow> nj_status r \<in> {''sent'', ''dead_letter''}"

definition replace_job :: "NotificationJob \<Rightarrow> notification_queue \<Rightarrow> notification_queue" where
  "replace_job r q = q\<lparr>nq_rows := update_where (\<lambda>x. nj_id x = nj_id r) (\<lambda>_. r) (nq_rows q)\<rparr>"

text \<open>The row after one attempt: delivered, given up after the last attempt, or waiting for the next.\<close>
definition attempted :: "NotificationJob \<Rightarrow> string option \<Rightarrow> NotificationJob \<Rightarrow> bool" where
  "attempted r err r' \<longleftrightarrow> nj_id r' = nj_id r \<and> content r' = content r \<and> nj_attempts r' = nj_attempts r + 1
    \<and> (nj_status r' = ''sent'' \<and> err = None
       \<or> nj_status r' = ''dead_letter'' \<and> nj_max_attempts r \<le> nj_attempts r'
       \<or> nj_status r' = ''pending'' \<and> nj_attempts r' < nj_max_attempts r)"

lemma claimed_queue:
  assumes "queue_ok q" "first_claimable now (nq_rows q) = Some r" "\<And>x. nj_id (f x) = nj_id x"
  shows "snd (update_job (nj_id r) ''processing'' f (snd (ClaimNotification secrets now lease q))) = replace_job (f (leased now lease r)) q"
proof -
  have one: "x = r" if "x \<in> set (nq_rows q)" "nj_id x = nj_id r" for x
    using first_claimable_Some[OF assms(2)] assms(1) that by (auto simp: queue_ok_def keys_distinct_def distinct_map inj_on_def)
  have p: "nj_status (leased now lease x) = ''processing''" for x by (simp add: leased_def)
  have "update_where (\<lambda>x. nj_id x = nj_id r \<and> nj_status x = ''processing'') f (update_where (\<lambda>x. nj_id x = nj_id r) (leased now lease) (nq_rows q)) =
      update_where (\<lambda>x. nj_id x = nj_id r) (\<lambda>_. f (leased now lease r)) (nq_rows q)"
    unfolding update_where_def map_map by (rule map_cong[OF refl]) (auto dest: one simp: p)
  then show ?thesis
    using assms(2,3) by (simp add: update_job_def ClaimNotification_def replace_job_def)
qed

lemma claimed_processing:
  assumes "queue_ok q" "first_claimable now (nq_rows q) = Some r"
  shows "fst (update_job (nj_id r) ''processing'' id (snd (ClaimNotification secrets now lease q))) = None"
proof -
  have "queue_ok (snd (ClaimNotification secrets now lease q))"
    using queue_ok_step[OF assms(1), of secrets "OpClaim now lease"] by simp
  moreover have "job_of (nj_id r) (snd (ClaimNotification secrets now lease q)) = Some (leased now lease r)"
    using assms claimable_row[OF assms] by (simp add: row_simps)
  ultimately show ?thesis by (simp add: update_job_ok queue_ok_def leased_def)
qed

lemma claim_answer:
  assumes "first_claimable now (nq_rows q) = Some r" "decryptSecret secrets (nj_url r) = Inr url"
  shows "fst (ClaimNotification secrets now lease q) = Inr (Some ((leased now lease r)\<lparr>nj_url := url\<rparr>))"
  using assms by (simp add: ClaimNotification_def scanNotificationJob_def leased_def)

lemma claim_works:
  assumes "sql_works e"
  shows "\<exists>d1 d2. n_now (hearing e) w = (clock e w, w\<lparr>nw_env := (heard w, d1)\<rparr>)
    \<and> n_stmt (hearing e) (\<lambda>w. case ClaimNotification secrets (clock e w0) lease (nw_queue w) of (r, q) \<Rightarrow> (r, w\<lparr>nw_queue := q\<rparr>))
        (w\<lparr>nw_env := (heard w, d1)\<rparr>) =
      (Some (fst (ClaimNotification secrets (clock e w0) lease (nw_queue w))),
       w\<lparr>nw_env := (heard w, d2), nw_queue := snd (ClaimNotification secrets (clock e w0) lease (nw_queue w))\<rparr>)"
proof -
  define g where "g = (\<lambda>w :: 'a hearing nworld. case ClaimNotification secrets (clock e w0) lease (nw_queue w) of (r, q) \<Rightarrow> (r, w\<lparr>nw_queue := q\<rparr>))"
  obtain d1 where n: "n_now (hearing e) w = (clock e w, w\<lparr>nw_env := (heard w, d1)\<rparr>)" using hearing_now[of e w] by blast
  obtain d2 where "n_stmt (hearing e) g (w\<lparr>nw_env := (heard w, d1)\<rparr>) = (case g (w\<lparr>nw_env := (heard w, d2)\<rparr>) of (a, w') \<Rightarrow> (Some a, w'))"
    using hearing_stmt[OF assms, of g "w\<lparr>nw_env := (heard w, d1)\<rparr>"] by auto
  then show ?thesis using n unfolding g_def[symmetric] by (auto simp: g_def case_prod_beta)
qed

lemma turn_idle:
  assumes "sql_works e" "first_claimable (clock e w) (nq_rows (nw_queue w)) = None"
  shows "nw_queue (snd (worker_turn wrapped (hearing e) nf w)) = nw_queue w
    \<and> heard (snd (worker_turn wrapped (hearing e) nf w)) = heard w"
  using claim_works[OF assms(1), of w "nf_secrets nf" w "nf_lease nf"] assms(2)
  by (auto simp: worker_turn_def deliverOne_def ClaimNotification_def)

lemma sendWithTimeout_works:
  "\<exists>err res d. sendWithTimeout (hearing e) nf url msg w = (res, w\<lparr>nw_env := (heard w @ [(url, msg, err)], d)\<rparr>)
    \<and> (res = None \<longrightarrow> err = None)"
proof -
  obtain err took d where "n_send (hearing e) url msg w = ((err, took), w\<lparr>nw_env := (heard w @ [(url, msg, err)], d)\<rparr>)"
    using hearing_send[of e url msg w] by blast
  then show ?thesis by (intro exI[of _ err] exI[of _ "if took < nf_send_timeout nf then err else Some ''send notification: timed out''"] exI[of _ d]) (simp add: sendWithTimeout_def)
qed

lemma turn_claims:
  assumes "sql_works e" "queue_ok (nw_queue w)" "first_claimable (clock e w) (nq_rows (nw_queue w)) = Some r"
    and "decryptSecret (nf_secrets nf) (nj_url r) = Inr url"
  shows "\<exists>r' err. nw_queue (snd (worker_turn wrapped (hearing e) nf w)) = replace_job r' (nw_queue w)
    \<and> heard (snd (worker_turn wrapped (hearing e) nf w)) = heard w @ [(url, nj_message r, err)] \<and> attempted r err r' \<and> job_ok r'"
proof -
  have ok: "job_ok r" "nj_status r \<noteq> ''sent''"
    using first_claimable_Some[OF assms(3)] assms(2) by (auto simp: queue_ok_def claimable_def)
  let ?t = "clock e w" and ?q = "nw_queue w" and ?s = "nf_secrets nf"
  let ?q1 = "snd (ClaimNotification ?s ?t (nf_lease nf) ?q)" and ?job = "(leased ?t (nf_lease nf) r)\<lparr>nj_url := url\<rparr>"
  obtain d1 d2 where c: "n_now (hearing e) w = (?t, w\<lparr>nw_env := (heard w, d1)\<rparr>)"
      "n_stmt (hearing e) (\<lambda>w'. case ClaimNotification ?s ?t (nf_lease nf) (nw_queue w') of (r, q) \<Rightarrow> (r, w'\<lparr>nw_queue := q\<rparr>))
         (w\<lparr>nw_env := (heard w, d1)\<rparr>) = (Some (Inr (Some ?job)), w\<lparr>nw_env := (heard w, d2), nw_queue := ?q1\<rparr>)"
    using claim_works[OF assms(1), of w ?s w "nf_lease nf"] claim_answer[OF assms(3,4), of "nf_lease nf"] by auto
  let ?w2 = "w\<lparr>nw_env := (heard w, d2), nw_queue := ?q1\<rparr>"
  obtain err res d3 where s: "sendWithTimeout (hearing e) nf url (nj_message r) ?w2 = (res, ?w2\<lparr>nw_env := (heard w @ [(url, nj_message r, err)], d3)\<rparr>)"
      "res = None \<longrightarrow> err = None"
    using sendWithTimeout_works[of e nf url "nj_message r" ?w2] by auto
  let ?w3 = "?w2\<lparr>nw_env := (heard w @ [(url, nj_message r, err)], d3)\<rparr>"
  have job: "nj_url ?job = url" "nj_message ?job = nj_message r" "nj_id ?job = nj_id r" by (simp_all add: leased_def)
  have p: "fst (update_job (nj_id ?job) ''processing'' id (nw_queue ?w3)) = None"
    using claimed_processing[OF assms(2,3)] by simp
  note turn = worker_turn_def deliverOne_def c s(1) job
  show ?thesis
  proof (cases res)
    case None
    obtain now w' where f: "finish_sent (hearing e) nf ?job ?w3 = (None, w')" "heard w' = heard ?w3"
        "nw_queue w' = snd (update_job (nj_id ?job) ''processing'' (completed now) (nw_queue ?w3))"
      using finish_sent_works[OF assms(1) p] by blast
    have "snd (worker_turn wrapped (hearing e) nf w) = w'" using None f(1) by (simp add: turn)
    moreover have "nw_queue w' = replace_job (completed now (leased ?t (nf_lease nf) r)) ?q"
      using f(3) claimed_queue[OF assms(2,3), of "completed now"] by (simp add: completed_def)
    ultimately show ?thesis
      using f(2) s(2) None by (intro exI[of _ "completed now (leased ?t (nf_lease nf) r)"] exI[of _ err])
        (use ok in \<open>auto simp: attempted_def completed_def leased_def content_def job_ok_def\<close>)
  next
    case (Some errText)
    obtain now at w' where f: "finish_failed wrapped (hearing e) nf ?job errText ?w3 = (None, w')" "heard w' = heard ?w3"
        "nw_queue w' = snd (update_job (nj_id ?job) ''processing''
          (\<lambda>x. x\<lparr>nj_status := (if nj_max_attempts ?job \<le> nj_attempts ?job then ''dead_letter'' else ''pending''),
               nj_next_attempt_at := at, nj_lease_until := None, nj_last_error := errText, nj_updated_at := now\<rparr>) (nw_queue ?w3))"
      using finish_failed_works[OF assms(1) p, of wrapped nf errText] by blast
    let ?f = "\<lambda>x. x\<lparr>nj_status := (if nj_max_attempts ?job \<le> nj_attempts ?job then ''dead_letter'' else ''pending''),
               nj_next_attempt_at := at, nj_lease_until := None, nj_last_error := errText, nj_updated_at := now\<rparr>"
    have "snd (worker_turn wrapped (hearing e) nf w) = w'" using Some f(1) by (simp add: turn)
    moreover have "nw_queue w' = replace_job (?f (leased ?t (nf_lease nf) r)) ?q"
      using f(3) claimed_queue[OF assms(2,3), of ?f] by simp
    ultimately show ?thesis
      using f(2) by (intro exI[of _ "?f (leased ?t (nf_lease nf) r)"] exI[of _ err])
        (use ok in \<open>auto simp: attempted_def leased_def content_def job_ok_def\<close>)
  qed
qed

section \<open>Every job is settled\<close>

definition weight :: "NotificationJob \<Rightarrow> nat" where
  "weight r = (if settled r then 0 else 1 + nat (nj_max_attempts r - nj_attempts r))"

definition pending_work :: "notification_queue \<Rightarrow> nat" where
  "pending_work q = sum_list (map weight (nq_rows q))"

definition readable :: "aead option \<Rightarrow> notification_queue \<Rightarrow> bool" where
  "readable secrets q \<longleftrightarrow> (\<forall>r \<in> set (nq_rows q). \<exists>url. decryptSecret secrets (nj_url r) = Inr url)"

lemma content_fields:
  "content r' = content r \<Longrightarrow> nj_url r' = nj_url r \<and> nj_message r' = nj_message r \<and> nj_max_attempts r' = nj_max_attempts r"
  by (simp add: content_def)

lemma attempted_weight: "attempted r err r' \<Longrightarrow> \<not> settled r \<Longrightarrow> weight r' < weight r"
  using content_fields[of r' r] by (auto simp: attempted_def weight_def settled_def)

lemma sum_replace:
  assumes "keys_distinct nj_id rows" "r \<in> set rows" "nj_id r' = nj_id r"
  shows "sum_list (map h (update_where (\<lambda>x. nj_id x = nj_id r') (\<lambda>_. r') rows)) + h r = sum_list (map h rows) + (h r' :: nat)"
  using assms
proof (induction rows)
  case (Cons x rows)
  show ?case
  proof (cases "x = r")
    case True
    then have "nj_id y \<noteq> nj_id r'" if "y \<in> set rows" for y
      using Cons.prems imageI[OF that, of nj_id] by (auto simp: keys_distinct_def)
    then have "map (\<lambda>y. if nj_id y = nj_id r' then r' else y) rows = rows"
      by (intro map_idI) simp
    then show ?thesis using True Cons.prems(3) by (simp add: update_where_def)
  next
    case False
    then have "nj_id x \<noteq> nj_id r'" using Cons.prems by (auto simp: keys_distinct_def)
    then show ?thesis using Cons False by (simp add: update_where_def keys_distinct_def)
  qed
qed simp

lemma claimable_unsettled: "claimable t r \<Longrightarrow> \<not> settled r"
  by (auto simp: claimable_def settled_def)

lemma replace_job_of: "nj_id r' = nj_id r \<Longrightarrow> job_of (nj_id r) q = Some r \<Longrightarrow> job_of i (replace_job r' q) = (if i = nj_id r then Some r' else job_of i q)"
proof -
  assume a: "nj_id r' = nj_id r" "job_of (nj_id r) q = Some r"
  have "get_row nj_id i (update_where (\<lambda>x. nj_id x = nj_id r') (\<lambda>_. r') rows) =
      map_option (\<lambda>x. if i = nj_id r' then r' else x) (get_row nj_id i rows)" for rows
    by (induction rows) (auto simp: get_row_Nil get_row_Cons update_where_def)
  then show ?thesis using a by (auto simp: replace_job_def option.map_ident)
qed

text \<open>A turn with something to do replaces one unsettled job by the same job after an attempt.\<close>
lemma turn_step:
  assumes "sql_works e" "queue_ok (nw_queue w)" "readable (nf_secrets nf) (nw_queue w)"
    and "first_claimable (clock e w) (nq_rows (nw_queue w)) \<noteq> None"
  obtains r r' url err where "job_of (nj_id r) (nw_queue w) = Some r" "\<not> settled r" "decryptSecret (nf_secrets nf) (nj_url r) = Inr url"
    "nw_queue (snd (worker_turn wrapped (hearing e) nf w)) = replace_job r' (nw_queue w)" "attempted r err r'" "job_ok r'"
    "heard (snd (worker_turn wrapped (hearing e) nf w)) = heard w @ [(url, nj_message r, err)]"
proof -
  obtain r where r: "first_claimable (clock e w) (nq_rows (nw_queue w)) = Some r" using assms(4) by blast
  have m: "r \<in> set (nq_rows (nw_queue w))" "claimable (clock e w) r" using first_claimable_Some[OF r] by auto
  obtain url where url: "decryptSecret (nf_secrets nf) (nj_url r) = Inr url" using assms(3) m(1) by (auto simp: readable_def)
  show ?thesis
    using turn_claims[OF assms(1,2) r url] claimable_row[OF assms(2) r] claimable_unsettled[OF m(2)] url that by blast
qed

lemma queue_ok_replace:
  assumes "queue_ok q" "job_of (nj_id r) q = Some r" "nj_id r' = nj_id r" "job_ok r'"
  shows "queue_ok (replace_job r' q)"
proof -
  have "map nj_id (update_where (\<lambda>x. nj_id x = nj_id r') (\<lambda>_. r') rows) = map nj_id rows" for rows
    by (induction rows) (auto simp: update_where_def)
  then have "keys_distinct nj_id (nq_rows (replace_job r' q))" using assms(1) by (simp add: replace_job_def queue_ok_def keys_distinct_def)
  then show ?thesis
    using assms get_row_SomeD[OF assms(2)] by (auto simp: queue_ok_def replace_job_def update_where_def)
qed

text \<open>What holds of the queue in the course of delivery: it is well formed and readable, its jobs are those
  of the start, and every settled job that was not settled before has been handed to its channel: a sent
  one was accepted, a dead one was tried at least as often as it may be.\<close>
definition delivery_inv :: "aead option \<Rightarrow> notification_queue \<Rightarrow> notification_queue \<Rightarrow> (string \<times> string \<times> string option) list \<Rightarrow> bool" where
  "delivery_inv secrets q0 q log \<longleftrightarrow> queue_ok q \<and> readable secrets q
    \<and> (\<forall>i. case (job_of i q0, job_of i q) of
          (None, None) \<Rightarrow> True
        | (Some r0, Some r) \<Rightarrow> content r = content r0 \<and> (settled r \<and> \<not> settled r0 \<longrightarrow>
            (\<exists>url err. decryptSecret secrets (nj_url r) = Inr url \<and> (url, nj_message r, err) \<in> set log
              \<and> (nj_status r = ''sent'' \<longrightarrow> err = None) \<and> (nj_status r = ''dead_letter'' \<longrightarrow> nj_max_attempts r \<le> nj_attempts r)))
        | _ \<Rightarrow> False)"

lemma delivery_inv_start: "queue_ok q \<Longrightarrow> readable secrets q \<Longrightarrow> delivery_inv secrets q q log"
  by (auto simp: delivery_inv_def split: option.splits)

lemma delivery_inv_turn:
  fixes wrapped :: "int \<Rightarrow> int"
  assumes "sql_works e" "delivery_inv (nf_secrets nf) q0 (nw_queue w) (heard w)"
  defines "w' \<equiv> snd (worker_turn wrapped (hearing e) nf w)"
  shows "delivery_inv (nf_secrets nf) q0 (nw_queue w') (heard w')"
    and "first_claimable (clock e w) (nq_rows (nw_queue w)) \<noteq> None \<Longrightarrow> pending_work (nw_queue w') < pending_work (nw_queue w)"
    and "first_claimable (clock e w) (nq_rows (nw_queue w)) = None \<Longrightarrow> nw_queue w' = nw_queue w"
proof -
  have q: "queue_ok (nw_queue w)" "readable (nf_secrets nf) (nw_queue w)" using assms(2) by (auto simp: delivery_inv_def)
  show idle: "nw_queue w' = nw_queue w" if "first_claimable (clock e w) (nq_rows (nw_queue w)) = None"
    using turn_idle[OF assms(1) that] by (simp add: w'_def)
  have busy: "delivery_inv (nf_secrets nf) q0 (nw_queue w') (heard w') \<and> pending_work (nw_queue w') < pending_work (nw_queue w)"
    if c: "first_claimable (clock e w) (nq_rows (nw_queue w)) \<noteq> None"
  proof -
    obtain r r' url err where t: "job_of (nj_id r) (nw_queue w) = Some r" "\<not> settled r" "decryptSecret (nf_secrets nf) (nj_url r) = Inr url"
        "nw_queue w' = replace_job r' (nw_queue w)" "attempted r err r'" "job_ok r'" "heard w' = heard w @ [(url, nj_message r, err)]"
      unfolding w'_def by (rule turn_step[OF assms(1) q c])
    have id: "nj_id r' = nj_id r" and con: "content r' = content r" using t(5) by (auto simp: attempted_def)
    have mem: "r \<in> set (nq_rows (nw_queue w))" using get_row_SomeD[OF t(1)] by simp
    have "pending_work (nw_queue w') + weight r = pending_work (nw_queue w) + weight r'"
      using sum_replace[of "nq_rows (nw_queue w)" r r' weight] q(1) mem id
      by (simp add: t(4) pending_work_def replace_job_def queue_ok_def)
    then have less: "pending_work (nw_queue w') < pending_work (nw_queue w)" using attempted_weight[OF t(5,2)] by simp
    have read: "readable (nf_secrets nf) (nw_queue w')"
      using q(2) t(3) content_fields[OF con] by (auto simp: t(4) readable_def replace_job_def update_where_def)
    have inv: "delivery_inv (nf_secrets nf) q0 (nw_queue w') (heard w')"
      unfolding delivery_inv_def
    proof (intro conjI allI)
      show "queue_ok (nw_queue w')" unfolding t(4) by (rule queue_ok_replace[OF q(1) t(1) id t(6)])
      fix i
      note i = assms(2)[unfolded delivery_inv_def, THEN conjunct2, THEN conjunct2, rule_format, of i]
      show "case (job_of i q0, job_of i (nw_queue w')) of
          (None, None) \<Rightarrow> True
        | (Some r0, Some r) \<Rightarrow> content r = content r0 \<and> (settled r \<and> \<not> settled r0 \<longrightarrow>
            (\<exists>url err. decryptSecret (nf_secrets nf) (nj_url r) = Inr url \<and> (url, nj_message r, err) \<in> set (heard w')
              \<and> (nj_status r = ''sent'' \<longrightarrow> err = None) \<and> (nj_status r = ''dead_letter'' \<longrightarrow> nj_max_attempts r \<le> nj_attempts r)))
        | _ \<Rightarrow> False"
      proof (cases "i = nj_id r")
        case True
        then obtain r0 where r0: "job_of i q0 = Some r0" "content r = content r0" using i t(1) by (auto split: option.splits)
        have "settled r' \<Longrightarrow> (nj_status r' = ''sent'' \<longrightarrow> err = None) \<and> (nj_status r' = ''dead_letter'' \<longrightarrow> nj_max_attempts r' \<le> nj_attempts r')"
          using t(5) content_fields[OF con] by (auto simp: attempted_def settled_def)
        then show ?thesis
          using True r0 con content_fields[OF con] t(3) by (auto simp: t(4,7) replace_job_of[OF id t(1)])
      next
        case False
        then show ?thesis using i by (auto simp: t(4,7) replace_job_of[OF id t(1)] split: option.splits)
      qed
    qed (rule read)
    show ?thesis using inv less by blast
  qed
  show "pending_work (nw_queue w') < pending_work (nw_queue w)" if "first_claimable (clock e w) (nq_rows (nw_queue w)) \<noteq> None"
    using busy[OF that] by blast
  show "delivery_inv (nf_secrets nf) q0 (nw_queue w') (heard w')"
  proof (cases "first_claimable (clock e w) (nq_rows (nw_queue w)) = None")
    case True
    then show ?thesis using idle turn_idle[OF assms(1) True] assms(2) by (simp add: w'_def)
  qed (use busy in blast)
qed

lemma worker_run_add: "worker_run (m + n) wrapped e nf w = worker_run n wrapped e nf (worker_run m wrapped e nf w)"
  by (induction m arbitrary: w) simp_all

lemma worker_run_Suc: "worker_run (Suc n) wrapped e nf w = snd (worker_turn wrapped e nf (worker_run n wrapped e nf w))"
  using worker_run_add[of n 1 wrapped e nf w] by simp

lemma delivery_inv_run:
  assumes "sql_works e" "delivery_inv (nf_secrets nf) q0 (nw_queue w) (heard w)"
  shows "delivery_inv (nf_secrets nf) q0 (nw_queue (worker_run n wrapped (hearing e) nf w)) (heard (worker_run n wrapped (hearing e) nf w))"
  using assms(2) by (induction n arbitrary: w) (simp_all add: delivery_inv_turn(1)[OF assms(1)])

definition all_settled :: "notification_queue \<Rightarrow> bool" where
  "all_settled q \<longleftrightarrow> (\<forall>r \<in> set (nq_rows q). settled r)"

lemma all_settled_turn:
  assumes "sql_works e" "delivery_inv (nf_secrets nf) q0 (nw_queue w) (heard w)" "all_settled (nw_queue w)"
  shows "all_settled (nw_queue (worker_run n wrapped (hearing e) nf w))"
  using assms(2,3)
proof (induction n arbitrary: w)
  case (Suc n)
  have "first_claimable (clock e w) (nq_rows (nw_queue w)) = None"
    using Suc.prems(2) claimable_unsettled by (auto simp: first_claimable_None all_settled_def)
  then have "all_settled (nw_queue (snd (worker_turn wrapped (hearing e) nf w)))"
    using turn_idle[OF assms(1)] Suc.prems(2) by metis
  then show ?case unfolding worker_run.simps by (rule Suc.IH[OF delivery_inv_turn(1)[OF assms(1) Suc.prems(1)]])
qed simp

definition due_at :: "NotificationJob \<Rightarrow> time" where
  "due_at r = (if nj_status r = ''pending'' then nj_next_attempt_at r else the (nj_lease_until r))"

lemma claimable_late:
  assumes "job_ok r" "\<not> settled r" "due_at r + nanos \<le> t" shows "claimable t r"
proof -
  have "text_le (due_at r) t"
    using text_less_late[OF assms(3)] text_less_trans[of t "due_at r" t] by (auto simp: text_le_def)
  then show ?thesis using assms(1,2) by (auto simp: claimable_def due_at_def job_ok_def settled_def)
qed

lemma queue_unchanged:
  assumes "sql_works e" "\<forall>j < n. first_claimable (clock e (worker_run j wrapped (hearing e) nf w)) (nq_rows (nw_queue (worker_run j wrapped (hearing e) nf w))) = None"
  shows "nw_queue (worker_run n wrapped (hearing e) nf w) = nw_queue w"
  using assms(2)
proof (induction n)
  case (Suc n)
  then show ?case unfolding worker_run_Suc using turn_idle[OF assms(1), of "worker_run n wrapped (hearing e) nf w"] by (metis lessI less_SucI)
qed simp

text \<open>While a job is unsettled, the clock will reach it, and some turn will make an attempt.\<close>
lemma progress:
  assumes "sql_works e" "delivery_inv (nf_secrets nf) q0 (nw_queue w) (heard w)" "\<not> all_settled (nw_queue w)"
    and "\<forall>T. \<exists>k. T \<le> clock e (worker_run k wrapped (hearing e) nf w)"
  shows "\<exists>j. pending_work (nw_queue (worker_run j wrapped (hearing e) nf w)) < pending_work (nw_queue w)"
proof -
  let ?run = "\<lambda>j. worker_run j wrapped (hearing e) nf w"
  let ?busy = "\<lambda>j. first_claimable (clock e (?run j)) (nq_rows (nw_queue (?run j))) \<noteq> None"
  obtain r where r: "r \<in> set (nq_rows (nw_queue w))" "\<not> settled r" using assms(3) by (auto simp: all_settled_def)
  have ok: "job_ok r" using r(1) assms(2) by (auto simp: delivery_inv_def queue_ok_def)
  obtain k where k: "due_at r + nanos \<le> clock e (?run k)" using assms(4) by blast
  have "\<exists>j. ?busy j"
  proof (rule ccontr)
    assume idle: "\<not> (\<exists>j. ?busy j)"
    then have "nw_queue (?run k) = nw_queue w" by (intro queue_unchanged[OF assms(1)]) blast
    then have "?busy k" using claimable_late[OF ok r(2) k] r(1) by (auto simp: first_claimable_None simp del: not_None_eq)
    then show False using idle by blast
  qed
  then obtain j where j: "?busy j" "\<forall>i < j. \<not> ?busy i" using exists_least_iff[of ?busy] by blast
  have same: "nw_queue (?run j) = nw_queue w" using j(2) by (intro queue_unchanged[OF assms(1)]) blast
  have "pending_work (nw_queue (?run (Suc j))) < pending_work (nw_queue (?run j))"
    unfolding worker_run_Suc by (rule delivery_inv_turn(2)[OF assms(1) delivery_inv_run[OF assms(1,2)] j(1)])
  then show ?thesis using same by metis
qed

lemma eventually_settled:
  assumes "sql_works e" "delivery_inv (nf_secrets nf) q0 (nw_queue w) (heard w)"
    and "\<forall>T n. \<exists>k \<ge> n. T \<le> clock e (worker_run k wrapped (hearing e) nf w)"
  shows "\<exists>n. all_settled (nw_queue (worker_run n wrapped (hearing e) nf w))"
  using assms(2,3)
proof (induction "pending_work (nw_queue w)" arbitrary: w rule: less_induct)
  case less
  show ?case
  proof (cases "all_settled (nw_queue w)")
    case True
    then show ?thesis by (intro exI[of _ 0]) simp
  next
    case False
    obtain j where j: "pending_work (nw_queue (worker_run j wrapped (hearing e) nf w)) < pending_work (nw_queue w)"
      using progress[OF assms(1) less.prems(1) False, of wrapped] less.prems(2) by blast
    let ?w = "worker_run j wrapped (hearing e) nf w"
    have "\<exists>k \<ge> n. T \<le> clock e (worker_run k wrapped (hearing e) nf ?w)" for T n
    proof -
      obtain k where k: "k \<ge> j + n" "T \<le> clock e (worker_run k wrapped (hearing e) nf w)" using less.prems(2) by blast
      then show ?thesis using worker_run_add[of j "k - j" wrapped "hearing e" nf w] by (intro exI[of _ "k - j"]) simp
    qed
    then obtain n where "all_settled (nw_queue (worker_run n wrapped (hearing e) nf ?w))"
      using less.hyps[OF j delivery_inv_run[OF assms(1) less.prems(1)]] by blast
    then show ?thesis by (metis worker_run_add)
  qed
qed

text \<open>C12: With a working store and a clock that goes on, every job in the queue is settled in the end and stays
  so: it was handed to its channel with its own message and address, and is sent only if the channel
  accepted it, and given up only after as many attempts as it has; whatever the channels answer and
  however long they take.\<close>

theorem notifications_settle:
  assumes "sql_works e" "queue_ok (nw_queue w)" "readable (nf_secrets nf) (nw_queue w)"
    and "\<forall>T n. \<exists>k \<ge> n. T \<le> clock e (worker_run k wrapped (hearing e) nf w)"
  shows "\<exists>n. \<forall>m \<ge> n. \<forall>i r. job_of i (nw_queue w) = Some r \<longrightarrow>
    (\<exists>r'. job_of i (nw_queue (worker_run m wrapped (hearing e) nf w)) = Some r' \<and> content r' = content r \<and> settled r'
      \<and> (\<not> settled r \<longrightarrow> (\<exists>url err. decryptSecret (nf_secrets nf) (nj_url r) = Inr url
          \<and> (url, nj_message r, err) \<in> set (heard (worker_run m wrapped (hearing e) nf w))
          \<and> (nj_status r' = ''sent'' \<longrightarrow> err = None) \<and> (nj_status r' = ''dead_letter'' \<longrightarrow> nj_max_attempts r \<le> nj_attempts r'))))"
proof -
  note inv = delivery_inv_start[OF assms(2,3), of "heard w"]
  obtain n where n: "all_settled (nw_queue (worker_run n wrapped (hearing e) nf w))"
    using eventually_settled[OF assms(1) inv assms(4)] by blast
  show ?thesis
  proof (intro exI[of _ n] allI impI)
    fix m i r assume m: "n \<le> m" and r: "job_of i (nw_queue w) = Some r"
    let ?w = "worker_run m wrapped (hearing e) nf w"
    have s: "all_settled (nw_queue ?w)"
      using all_settled_turn[OF assms(1) delivery_inv_run[OF assms(1) inv] n, of "m - n" wrapped] m
      by (simp flip: worker_run_add)
    have i: "delivery_inv (nf_secrets nf) (nw_queue w) (nw_queue ?w) (heard ?w)" by (rule delivery_inv_run[OF assms(1) inv])
    obtain r' where r': "job_of i (nw_queue ?w) = Some r'"
      using i r by (cases "job_of i (nw_queue ?w)") (auto simp: delivery_inv_def dest!: spec[of _ i])
    have "settled r'" using s get_row_SomeD[OF r'] by (simp add: all_settled_def)
    then show "\<exists>r'. job_of i (nw_queue ?w) = Some r' \<and> content r' = content r \<and> settled r'
      \<and> (\<not> settled r \<longrightarrow> (\<exists>url err. decryptSecret (nf_secrets nf) (nj_url r) = Inr url \<and> (url, nj_message r, err) \<in> set (heard ?w)
          \<and> (nj_status r' = ''sent'' \<longrightarrow> err = None) \<and> (nj_status r' = ''dead_letter'' \<longrightarrow> nj_max_attempts r \<le> nj_attempts r')))"
      using i r r' content_fields[of r' r] unfolding delivery_inv_def by (auto dest!: spec[of _ i])
  qed
qed

section \<open>Examples\<close>

text \<open>An environment whose clock advances by two hours at every reading; the channel \<^verbatim>\<open>bad\<close> is down.\<close>
definition tick_env :: "int nenv" where
  "tick_env = \<lparr>ne_sql = (\<lambda>d. (True, d)), ne_now = (\<lambda>d. (d, d + 7200 * nanos)), ne_random = (\<lambda>d. (Some ''n'', d)),
     ne_send = (\<lambda>url msg d. ((if url = ''bad://x'' then Some ''down'' else None, 0), d))\<rparr>"

lemma tick_works: "sql_works tick_env" "random_works tick_env toy_aead"
  by (simp_all add: sql_works_def random_works_def tick_env_def toy_aead_def)

lemma tick_steps:
  "n_now (hearing tick_env) w = (snd (nw_env w), w\<lparr>nw_env := (heard w, snd (nw_env w) + 7200 * nanos)\<rparr>)"
  "n_stmt (hearing tick_env) f w = (case f w of (a, w') \<Rightarrow> (Some a, w'))"
  by (simp_all add: n_now_def n_stmt_def hearing_def tick_env_def)

lemma tick_send: "snd (nw_env (snd (n_send (hearing tick_env) url msg w))) = snd (nw_env w)"
  by (simp add: n_send_def hearing_def tick_env_def)

lemma tick_finish:
  "snd (nw_env w) \<le> snd (nw_env (snd (finish_sent (hearing tick_env) nf job w)))"
  "snd (nw_env w) \<le> snd (nw_env (snd (finish_failed wrapped (hearing tick_env) nf job err w)))"
  by (auto simp: finish_sent_def finish_failed_def update_queue_def record_attempt_def tick_steps Let_def nanos_def split: option.splits prod.splits)

lemma tick_turn: "snd (nw_env w) + nanos \<le> snd (nw_env (snd (worker_turn wrapped (hearing tick_env) nf w)))"
proof -
  let ?w1 = "w\<lparr>nw_env := (heard w, snd (nw_env w) + 7200 * nanos)\<rparr>"
  obtain r q where c: "ClaimNotification (nf_secrets nf) (snd (nw_env w)) (nf_lease nf) (nw_queue w) = (r, q)" by (rule prod.exhaust)
  let ?w2 = "?w1\<lparr>nw_queue := q\<rparr>"
  have "snd (nw_env ?w2) \<le> snd (nw_env (snd (deliverOne wrapped (hearing tick_env) nf w)))"
  proof (cases "\<exists>job. r = Inr (Some job)")
    case True
    then obtain job where job: "r = Inr (Some job)" by blast
    obtain a w3 where s: "sendWithTimeout (hearing tick_env) nf (nj_url job) (nj_message job) ?w2 = (a, w3)" by (rule prod.exhaust)
    have "snd (nw_env w3) = snd (nw_env ?w2)"
      using s tick_send[of "nj_url job" "nj_message job" ?w2] by (auto simp: sendWithTimeout_def split: prod.splits)
    then show ?thesis
      using s c job tick_finish(1)[of w3 nf job] tick_finish(2)[of w3 wrapped nf job]
      by (auto simp: deliverOne_def tick_steps case_prod_beta split: option.splits)
  next
    case False
    then show ?thesis using c by (auto simp: deliverOne_def tick_steps split: sum.splits option.splits)
  qed
  then show ?thesis by (auto simp: worker_turn_def nanos_def split: prod.splits option.splits)
qed

lemma tick_unbounded: "\<forall>T n. \<exists>k \<ge> n. T \<le> clock tick_env (worker_run k wrapped (hearing tick_env) nf w)"
proof (intro allI)
  fix T n
  have run: "snd (nw_env w) + int k * nanos \<le> snd (nw_env (worker_run k wrapped (hearing tick_env) nf w))" for k
  proof (induction k)
    case (Suc k)
    then show ?case
      using tick_turn[of "worker_run k wrapped (hearing tick_env) nf w" wrapped nf] unfolding worker_run_Suc by (simp add: algebra_simps)
  qed simp
  let ?k = "max n (nat (T - snd (nw_env w)))"
  have "int ?k \<le> int ?k * nanos" by (simp add: nanos_def)
  moreover have "T - snd (nw_env w) \<le> int ?k" by simp
  ultimately have "T \<le> snd (nw_env (worker_run ?k wrapped (hearing tick_env) nf w))" using run[of ?k] by linarith
  then show "\<exists>k \<ge> n. T \<le> clock tick_env (worker_run k wrapped (hearing tick_env) nf w)"
    by (intro exI[of _ ?k]) (simp add: tick_env_def)
qed

definition toy_notifier :: notifier where
  "toy_notifier = New_notifier (Some toy_aead) True"

definition world_with :: "notification_queue \<Rightarrow> int hearing nworld" where
  "world_with q = \<lparr>nw_settings = [], nw_queue = q, nw_records = [], nw_events = [], nw_env = ([], nanos)\<rparr>"

definition two_jobs :: notification_queue where
  "two_jobs = queue_run (Some toy_aead) [OpEnqueue (Some ''n'') 0 plain_job, OpEnqueue (Some ''n'') 0 (plain_job\<lparr>nj_url := ''bad://x''\<rparr>)] no_jobs"

theorem notifications_settle_witness:
  "(\<exists>n. \<forall>m \<ge> n. \<exists>r'. job_of 2 (nw_queue (worker_run m id (hearing tick_env) toy_notifier (world_with two_jobs))) = Some r' \<and> settled r')
   \<and> map nj_status (nq_rows (nw_queue (worker_run 2 id (hearing tick_env) toy_notifier (world_with two_jobs)))) = [''sent'', ''pending'']"
proof -
  let ?w = "world_with two_jobs"
  have q: "queue_ok (nw_queue ?w)" by code_simp
  have r: "readable (nf_secrets toy_notifier) (nw_queue ?w)"
  proof -
    have "list_all (\<lambda>r. \<not> isl (decryptSecret (nf_secrets toy_notifier) (nj_url r))) (nq_rows (nw_queue ?w))" by code_simp
    then show ?thesis unfolding readable_def list_all_iff by (metis sum.collapse(2))
  qed
  have "job_of 2 (nw_queue ?w) \<noteq> None" by code_simp
  then obtain r0 where r0: "job_of 2 (nw_queue ?w) = Some r0" by blast
  have "map nj_status (nq_rows (nw_queue (worker_run 2 id (hearing tick_env) toy_notifier ?w))) = [''sent'', ''pending'']" by code_simp
  then show ?thesis
    using notifications_settle[OF tick_works(1) q r tick_unbounded[of id toy_notifier ?w]] r0 by blast
qed

definition channel :: "string \<Rightarrow> string \<Rightarrow> Channel" where
  "channel name url = \<lparr>ch_name = name, ch_url = url, ch_events = [''check.failed''], ch_stacks = [], ch_containers = [],
     ch_configured = False, ch_provider = ''''\<rparr>"

definition empty_world :: "int nworld" where
  "empty_world = \<lparr>nw_settings = [], nw_queue = no_jobs, nw_records = [], nw_events = [], nw_env = nanos\<rparr>"

lemma toy_secrets: "nf_secrets toy_notifier = Some toy_aead"
  by (simp add: toy_notifier_def New_notifier_def)

text \<open>A world with two channels, stored by the program itself.\<close>
lemma two_channels:
  obtains w :: "int nworld" where "configured toy_notifier w = Inr [channel ''a'' ''ntfy://a'', channel ''b'' ''ntfy://b'']"
    "nw_queue w = no_jobs"
proof -
  let ?chs = "[channel ''a'' ''ntfy://a'', channel ''b'' ''ntfy://b'']"
  have e: "configured toy_notifier empty_world = Inr []" by code_simp
  have f: "fill_urls [] (length ?chs = length ([] :: Channel list)) 0 ?chs = Inr ?chs" by code_simp
  have "nw_queue empty_world = no_jobs" by (simp add: empty_world_def)
  then show ?thesis using SetChannels_works[OF tick_works toy_seals toy_secrets e f] that by metis
qed

theorem channel_edit_keeps_destinations_witness:
  "\<exists>w w'. configured toy_notifier w = Inr [channel ''a'' ''ntfy://a'', channel ''b'' ''ntfy://b'']
    \<and> SetChannels tick_env toy_notifier [channel ''renamed'' '''', channel ''b'' ''''] w = (None, w')
    \<and> configured toy_notifier w' = Inr [channel ''renamed'' ''ntfy://a'', channel ''b'' ''ntfy://b'']"
proof -
  obtain w :: "int nworld" where w: "configured toy_notifier w = Inr [channel ''a'' ''ntfy://a'', channel ''b'' ''ntfy://b'']" by (rule two_channels)
  let ?old = "[channel ''a'' ''ntfy://a'', channel ''b'' ''ntfy://b'']" and ?new = "[channel ''renamed'' '''', channel ''b'' '''']"
  have d: "distinct (map ch_name ?old)" "\<forall>ch \<in> set ?old. ch_url ch \<noteq> ''''" by code_simp+
  have e: "list_all2 (edited ?old) ?new ?old" by code_simp
  have k: "map2 kept_channel ?new ?old = [channel ''renamed'' ''ntfy://a'', channel ''b'' ''ntfy://b'']" by code_simp
  show ?thesis
    using channel_edit_keeps_destinations[OF tick_works toy_seals toy_secrets w d e] w unfolding k by blast
qed

theorem notify_queues_matching_witness:
  "\<exists>w new. nq_rows (nw_queue (Notify tick_env toy_notifier ''rollback.auto.failed'' ''web'' '''' ''m'' w)) = new
    \<and> map nj_channel new = [''a'', ''b'']"
proof -
  obtain w :: "int nworld" where w: "configured toy_notifier w = Inr [channel ''a'' ''ntfy://a'', channel ''b'' ''ntfy://b'']" "nw_queue w = no_jobs"
    by (rule two_channels)
  let ?chs = "[channel ''a'' ''ntfy://a'', channel ''b'' ''ntfy://b'']"
  have u: "\<forall>ch \<in> set ?chs. \<not> IsEncrypted (ch_url ch)" by code_simp
  have f: "filter (\<lambda>ch. (ch_events ch = [] \<or> categorize ''rollback.auto.failed'' = ''rollback.auto'' \<or> categorize ''rollback.auto.failed'' \<in> set (ch_events ch))
      \<and> in_scope ch ''web'' '''') ?chs = ?chs" by code_simp
  obtain new where new: "nq_rows (nw_queue (Notify tick_env toy_notifier ''rollback.auto.failed'' ''web'' '''' ''m'' w)) = nq_rows (nw_queue w) @ new"
      "list_all2 (\<lambda>ch r. queued_as toy_aead (notice ''rollback.auto.failed'' ''web'' '''' ''m'' ch) r) ?chs new"
    using notify_queues_matching[OF tick_works toy_seals toy_secrets w(1) u, of "''rollback.auto.failed''" "''web''" "''''" "''m''"]
    unfolding f by blast
  have "map nj_channel new = map ch_name ?chs"
    using new(2) by (auto simp: list_all2_Cons1 queued_as_def notice_def)
  moreover have "nq_rows (nw_queue w) = []" using w(2) by (simp add: no_jobs_def)
  ultimately show ?thesis using new(1) by (intro exI[of _ w] exI[of _ new]) (simp add: channel_def)
qed

text \<open>Two channels of one name are accepted, but the next save of the list as it is shown gives both the
  address of the later one.\<close>

theorem duplicate_names_lose_address:
  "\<exists>w. configured toy_notifier w = Inr [channel ''a'' ''ntfy://first'', channel ''a'' ''ntfy://second'']
    \<and> (\<exists>w'. SetChannels tick_env toy_notifier [channel ''a'' '''', channel ''a'' ''''] w = (None, w')
        \<and> configured toy_notifier w' = Inr [channel ''a'' ''ntfy://second'', channel ''a'' ''ntfy://second''])"
proof -
  let ?old = "[channel ''a'' ''ntfy://first'', channel ''a'' ''ntfy://second'']" and ?new = "[channel ''a'' '''', channel ''a'' '''']"
  have e: "configured toy_notifier empty_world = Inr []" by code_simp
  have f1: "fill_urls [] (length ?old = length ([] :: Channel list)) 0 ?old = Inr ?old" by code_simp
  have f2: "fill_urls ?old (length ?new = length ?old) 0 ?new = Inr [channel ''a'' ''ntfy://second'', channel ''a'' ''ntfy://second'']" by code_simp
  obtain w :: "int nworld" where w: "configured toy_notifier w = Inr ?old"
    using SetChannels_works[OF tick_works toy_seals toy_secrets e f1] by metis
  obtain w' where "SetChannels tick_env toy_notifier ?new w = (None, w')"
      "configured toy_notifier w' = Inr [channel ''a'' ''ntfy://second'', channel ''a'' ''ntfy://second'']"
    using SetChannels_works[OF tick_works toy_seals toy_secrets w f2] by metis
  with w show ?thesis by blast
qed

text \<open>An address that begins like an encrypted one is queued as it is; no later start of the daemon with
  that queue succeeds in configuring its secrets, whatever the key.\<close>

theorem prefixed_address_blocks_restart:
  "\<exists>q i. EnqueueNotification (Some c) random now (plain_job\<lparr>nj_url := ''enc:v1:x''\<rparr>) no_jobs = (Inr i, q)
    \<and> fst (migratePlaintextSecrets (Some c) random' tbl q) \<noteq> None"
proof -
  have e: "IsEncrypted ''enc:v1:x''" by code_simp
  have "DecodeString (trim_prefix ''enc:v1:x'' enc_prefix) = None" by code_simp
  then have d: "decryptSecret (Some c) ''enc:v1:x'' = Inl BadBase64" using e by (simp add: decryptSecret_def Decrypt_def)
  obtain q i where q: "EnqueueNotification (Some c) random now (plain_job\<lparr>nj_url := ''enc:v1:x''\<rparr>) no_jobs = (Inr i, q)"
      "map nj_url (nq_rows q) = [''enc:v1:x'']"
    using e by (simp add: EnqueueNotification_def Let_def encryptSecret_def Encrypt_def plain_job_def no_jobs_def)
  then have "migrate_jobs (Some c) random' 2 (nq_rows q) = Inl BadBase64"
    using e d by (cases "nq_rows q") (auto simp: migrate_value_def)
  then show ?thesis
    using q(1) by (auto simp: migratePlaintextSecrets_def split: sum.splits)
qed

end
