(* ===== verification/Registry_Api.thy ===== *)
theory Registry_Api
  imports Schedule_Api Notifier Registry_Client
begin

text \<open>
  \<^verbatim>\<open>internal/store/registries.go\<close>, \<^verbatim>\<open>internal/api/registries.go\<close> and the part of \<^verbatim>\<open>cmd_serve.go\<close> that
  configures the registries when the daemon starts. The list of registries is one encrypted setting; the
  process keeps the map of \<^verbatim>\<open>registry.Configure\<close> beside it. Bodies are given decoded. SQLite, the random
  source, the cipher, the URL and certificate parsers, the fingerprint of a certificate and the HTTP
  client are parameters.
\<close>

section \<open>The stored list\<close>

definition no_config :: Config where
  "no_config = \<lparr>Host = '''', Username = '''', Password = '''', AuthHost = '''', ProxyURL = '''', CACertPEM = ''''\<rparr>"

definition decode_config :: "(string \<times> json) list \<Rightarrow> Config option" where
  "decode_config ms =
    (case (go_string ''host'' ms, go_string ''username'' ms, go_string ''password'' ms, go_string ''auth_host'' ms,
           go_string ''proxy_url'' ms, go_string ''ca_pem'' ms) of
       (Some host, Some user, Some pass, Some auth, Some proxy, Some ca) \<Rightarrow>
         Some \<lparr>Host = host, Username = user, Password = pass, AuthHost = auth, ProxyURL = proxy, CACertPEM = ca\<rparr>
     | _ \<Rightarrow> None)"

definition decode_configs :: "string \<Rightarrow> Config list option" where
  "decode_configs raw = Option.bind (json_parse raw) (go_slice decode_config)"

definition config_members :: "Config \<Rightarrow> (string \<times> json) list" where
  "config_members cfg =
    [(''host'', JStr (Host cfg))] @ str_member ''username'' (Username cfg) @ str_member ''password'' (Password cfg)
    @ str_member ''auth_host'' (AuthHost cfg) @ str_member ''proxy_url'' (ProxyURL cfg) @ str_member ''ca_pem'' (CACertPEM cfg)"

text \<open>As for the channels, an empty list is written as \<^verbatim>\<open>[]\<close>; a nil slice is written as \<^verbatim>\<open>null\<close> and read the same.\<close>
definition marshal_configs :: "Config list \<Rightarrow> string" where
  "marshal_configs cfgs = json_marshal (JArr (map (\<lambda>cfg. JObj (config_members cfg)) cfgs))"

datatype registries_error = SettingUnavailable | SettingSecret secret_error | SettingInvalid

definition GetRegistryConfigs :: "'w nenv \<Rightarrow> aead option \<Rightarrow> 'w nworld \<Rightarrow> (registries_error, Config list) result \<times> 'w nworld" where
  "GetRegistryConfigs e secrets w =
    (case n_stmt e (\<lambda>w. (GetSecretSetting secrets registriesSettingsKey (nw_settings w), w)) w of
       (None, w1) \<Rightarrow> (Inl SettingUnavailable, w1)
     | (Some (Inl err), w1) \<Rightarrow> (Inl (SettingSecret err), w1)
     | (Some (Inr None), w1) \<Rightarrow> (Inr [], w1)
     | (Some (Inr (Some raw)), w1) \<Rightarrow> (case decode_configs raw of None \<Rightarrow> (Inl SettingInvalid, w1) | Some cfgs \<Rightarrow> (Inr cfgs, w1)))"

text \<open>The map \<^verbatim>\<open>byHost\<close>: of two entries for one host the later counts; a missing one is the zero value.\<close>
definition by_host :: "Config list \<Rightarrow> string \<Rightarrow> Config" where
  "by_host existing host = (case find (\<lambda>cfg. to_lower (Host cfg) = host) (rev existing) of None \<Rightarrow> no_config | Some cfg \<Rightarrow> cfg)"

abbreviation host_key :: "string \<Rightarrow> string" where
  "host_key h \<equiv> to_lower (trim_space h)"

definition merge_config :: "Config list \<Rightarrow> Config \<Rightarrow> Config" where
  "merge_config existing cfg =
    (let old = by_host existing (host_key (Host cfg))
     in \<lparr>Host = host_key (Host cfg), Username = Username cfg,
         Password = (if Username cfg = '''' then '''' else if Password cfg = '''' then Password old else Password cfg),
         AuthHost = AuthHost cfg,
         ProxyURL = (if ProxyURL cfg = '''' then ProxyURL old else ProxyURL cfg),
         CACertPEM = (if CACertPEM cfg = '''' then CACertPEM old else CACertPEM cfg)\<rparr>)"

definition SetRegistryConfigs :: "'w nenv \<Rightarrow> aead option \<Rightarrow> Config list \<Rightarrow> 'w nworld \<Rightarrow> registries_error option \<times> 'w nworld" where
  "SetRegistryConfigs e secrets configs w =
    (case GetRegistryConfigs e secrets w of
       (Inl err, w1) \<Rightarrow> (Some err, w1)
     | (Inr existing, w1) \<Rightarrow>
         (case n_random e w1 of
            (random, w2) \<Rightarrow>
              (case encryptSecret secrets random (marshal_configs (map (merge_config existing) configs)) of
                 Inl err \<Rightarrow> (Some (SettingSecret err), w2)
               | Inr enc \<Rightarrow>
                   (case n_stmt e (\<lambda>w. ((), w\<lparr>nw_settings := SetSetting registriesSettingsKey enc (nw_settings w)\<rparr>)) w2 of
                      (None, w3) \<Rightarrow> (Some SettingUnavailable, w3) | (Some _, w3) \<Rightarrow> (None, w3)))))"

section \<open>The handlers\<close>

record shown_registry =
  rs_host :: string
  rs_username :: string
  rs_auth_host :: string
  rs_credentials :: bool
  rs_proxy :: bool
  rs_ca :: bool
  rs_fingerprint :: string

definition public_registry :: "(string \<Rightarrow> string) \<Rightarrow> Config \<Rightarrow> shown_registry" where
  "public_registry caFingerprint cfg =
    \<lparr>rs_host = Host cfg, rs_username = Username cfg, rs_auth_host = AuthHost cfg,
     rs_credentials = (Username cfg \<noteq> '''' \<and> Password cfg \<noteq> ''''), rs_proxy = (ProxyURL cfg \<noteq> ''''), rs_ca = (CACertPEM cfg \<noteq> ''''),
     rs_fingerprint = (if CACertPEM cfg \<noteq> '''' then caFingerprint (CACertPEM cfg) else '''')\<rparr>"

definition publicRegistryConfigs :: "(string \<Rightarrow> string) \<Rightarrow> Config list \<Rightarrow> shown_registry list" where
  "publicRegistryConfigs caFingerprint configs = map (public_registry caFingerprint) configs"

definition handleGetRegistries :: "'w nenv \<Rightarrow> aead option \<Rightarrow> (string \<Rightarrow> string) \<Rightarrow> 'w nworld \<Rightarrow> shown_registry list reply \<times> 'w nworld" where
  "handleGetRegistries e secrets caFingerprint w =
    (case GetRegistryConfigs e secrets w of
       (Inl _, w1) \<Rightarrow> (ErrorReply 500 ''internal_error'', w1)
     | (Inr cfgs, w1) \<Rightarrow> (Reply 200 (publicRegistryConfigs caFingerprint cfgs), w1))"

text \<open>The parsers that \<^verbatim>\<open>transportFor\<close> calls: the scheme of a URL that parses, and whether a text holds a
  certificate.\<close>
record parsers =
  ps_scheme :: "string \<Rightarrow> string option"
  ps_pem :: "string \<Rightarrow> bool"

definition auth_host_ok :: "string \<Rightarrow> bool" where
  "auth_host_ok h \<longleftrightarrow> \<not> str_contains h ''://'' \<and> (\<forall>c \<in> set h. c \<notin> set ''/?#'')"

text \<open>The loop that checks a submitted list; \<^term>\<open>seen\<close> are the hosts before.\<close>
fun check_registries :: "parsers \<Rightarrow> Config list \<Rightarrow> string list \<Rightarrow> Config list \<Rightarrow> bool" where
  "check_registries ps existing seen [] = True"
| "check_registries ps existing seen (cfg # cfgs) =
    (let host = host_key (Host cfg)
     in if host = '''' \<or> str_contains host ''://'' \<or> host \<in> set seen then False
        else if \<not> auth_host_ok (host_key (AuthHost cfg)) then False
        else if Username cfg = '''' \<and> Password cfg \<noteq> '''' then False
        else if Username cfg \<noteq> '''' \<and> Password cfg = '''' \<and> Password (by_host existing host) = '''' then False
        else if ValidateConfig (ps_scheme ps) (ps_pem ps) (no_config\<lparr>Host := host, ProxyURL := ProxyURL cfg, CACertPEM := CACertPEM cfg\<rparr>) \<noteq> None then False
        else check_registries ps existing (host # seen) cfgs)"

definition emit_event :: "event \<Rightarrow> 'w nworld \<Rightarrow> 'w nworld" where
  "emit_event ev w = w\<lparr>nw_events := nw_events w @ [ev]\<rparr>"

definition handleSetRegistries :: "'w nenv \<Rightarrow> aead option \<Rightarrow> parsers \<Rightarrow> (string \<Rightarrow> string) \<Rightarrow> Config list option \<Rightarrow>
    registry_config \<times> 'w nworld \<Rightarrow> shown_registry list reply \<times> registry_config \<times> 'w nworld" where
  "handleSetRegistries e secrets ps caFingerprint body st =
    (case st of (running, w) \<Rightarrow>
      (case body of
         None \<Rightarrow> (bad_request, running, w)
       | Some configs \<Rightarrow>
           (case GetRegistryConfigs e secrets w of
              (existing, w1) \<Rightarrow>
                if \<not> check_registries ps (case existing of Inl _ \<Rightarrow> [] | Inr cfgs \<Rightarrow> cfgs) [] configs then (bad_request, running, w1)
                else (case SetRegistryConfigs e secrets configs w1 of
                   (Some _, w2) \<Rightarrow> (ErrorReply 500 ''internal_error'', running, w2)
                 | (None, w2) \<Rightarrow>
                     (case GetRegistryConfigs e secrets w2 of
                        (Inl _, w3) \<Rightarrow> (ErrorReply 500 ''internal_error'', running, w3)
                      | (Inr stored, w3) \<Rightarrow>
                          (case Configure (ps_scheme ps) (ps_pem ps) stored running of
                             (Some _, running') \<Rightarrow> (bad_request, running', w3)
                           | (None, running') \<Rightarrow>
                               (Reply 200 (publicRegistryConfigs caFingerprint stored), running',
                                emit_event (event_of LevelInfo ''settings.registries_changed'' '''' ActorUser ''''
                                  [(''count'', AInt (int (length stored)))]) w3)))))))"

text \<open>The test of a connection uses the stored secrets of the host where the request leaves them out.\<close>
definition fill_test :: "Config list \<Rightarrow> Config \<Rightarrow> Config" where
  "fill_test existing req =
    (case find (\<lambda>cfg. equal_fold (Host cfg) (Host req)) existing of
       None \<Rightarrow> req
     | Some cfg \<Rightarrow> req\<lparr>Password := (if Username req = Username cfg \<and> Password req = '''' then Password cfg else Password req),
         ProxyURL := (if ProxyURL req = '''' then ProxyURL cfg else ProxyURL req),
         CACertPEM := (if CACertPEM req = '''' then CACertPEM cfg else CACertPEM req)\<rparr>)"

definition handleTestRegistry :: "'w nenv \<Rightarrow> aead option \<Rightarrow> 'h http \<Rightarrow> registry_env \<Rightarrow> Config option \<Rightarrow> 'w nworld \<times> 'h \<Rightarrow>
    unit reply \<times> 'w nworld \<times> 'h" where
  "handleTestRegistry e secrets h env body st =
    (case st of (w, net) \<Rightarrow>
      (case body of
         None \<Rightarrow> (bad_request, w, net)
       | Some req0 \<Rightarrow>
           (let req = req0\<lparr>Host := host_key (Host req0)\<rparr>
            in if Host req = '''' \<or> str_contains (Host req) ''://'' then (bad_request, w, net)
               else (case GetRegistryConfigs e secrets w of
                  (existing, w1) \<Rightarrow>
                    (case TestConnection h env (fill_test (case existing of Inl _ \<Rightarrow> [] | Inr cfgs \<Rightarrow> cfgs) req) net of
                       (Some _, net') \<Rightarrow>
                         (ErrorReply 502 ''registry_connection_failed'',
                          emit_event (event_of LevelWarn ''registry.connection_test_failed'' '''' ActorUser '''' [(''registry'', AStr (Host req))]) w1, net')
                     | (None, net') \<Rightarrow>
                         (Reply 200 (),
                          emit_event (event_of LevelInfo ''registry.connection_tested'' '''' ActorUser '''' [(''registry'', AStr (Host req))]) w1, net'))))))"

section \<open>The start of the daemon\<close>

datatype start_error = LoadRegistries registries_error | ConfigureRegistries config_error

definition runtime_registries :: "string \<Rightarrow> string \<Rightarrow> Config list \<Rightarrow> Config list" where
  "runtime_registries hubUser hubPass stored =
    (let hasDockerHub = (\<exists>cfg \<in> set stored. Host cfg = hub_registry \<or> Host cfg = ''docker.io'')
     in stored @ (if \<not> hasDockerHub \<and> hubUser \<noteq> ''''
                  then [no_config\<lparr>Host := hub_registry, Username := hubUser, Password := hubPass, AuthHost := ''auth.docker.io''\<rparr>] else []))"

definition load_registries :: "'w nenv \<Rightarrow> aead option \<Rightarrow> parsers \<Rightarrow> string \<Rightarrow> string \<Rightarrow> 'w nworld \<Rightarrow>
    start_error option \<times> registry_config \<times> 'w nworld" where
  "load_registries e secrets ps hubUser hubPass w =
    (case GetRegistryConfigs e secrets w of
       (Inl err, w1) \<Rightarrow> (Some (LoadRegistries err), Map.empty, w1)
     | (Inr stored, w1) \<Rightarrow>
         (case Configure (ps_scheme ps) (ps_pem ps) (runtime_registries hubUser hubPass stored) Map.empty of
            (Some err, running) \<Rightarrow> (Some (ConfigureRegistries err), running, w1)
          | (None, running) \<Rightarrow> (None, running, w1)))"

section \<open>The stored list read back\<close>

definition config_fields :: "string list" where
  "config_fields = [''host'', ''username'', ''password'', ''auth_host'', ''proxy_url'', ''ca_pem'']"

lemma config_fields_fold: "k \<in> set config_fields \<Longrightarrow> n \<in> set config_fields \<Longrightarrow> equal_fold k n \<longleftrightarrow> k = n"
proof -
  have "\<forall>k \<in> set config_fields. \<forall>n \<in> set config_fields. equal_fold k n \<longleftrightarrow> k = n" by code_simp
  then show "k \<in> set config_fields \<Longrightarrow> n \<in> set config_fields \<Longrightarrow> ?thesis" by blast
qed

lemma config_member_values:
  assumes "k \<in> set config_fields" "n \<in> set config_fields"
  shows "field_values n (str_member k v) = (if k = n \<and> v \<noteq> '''' then [JStr v] else [])"
    and "field_values n [(k, j)] = (if k = n \<and> j \<noteq> JNull then [j] else [])"
  using config_fields_fold[OF assms] by (auto simp: str_member_def field_values_simps)

lemma config_values:
  "field_values ''host'' (config_members cfg) = [JStr (Host cfg)]"
  "field_values ''username'' (config_members cfg) = (if Username cfg \<noteq> '''' then [JStr (Username cfg)] else [])"
  "field_values ''password'' (config_members cfg) = (if Password cfg \<noteq> '''' then [JStr (Password cfg)] else [])"
  "field_values ''auth_host'' (config_members cfg) = (if AuthHost cfg \<noteq> '''' then [JStr (AuthHost cfg)] else [])"
  "field_values ''proxy_url'' (config_members cfg) = (if ProxyURL cfg \<noteq> '''' then [JStr (ProxyURL cfg)] else [])"
  "field_values ''ca_pem'' (config_members cfg) = (if CACertPEM cfg \<noteq> '''' then [JStr (CACertPEM cfg)] else [])"
  unfolding config_members_def field_values_append
  by (simp_all add: config_member_values config_fields_def)

lemma decode_config_members: "decode_config (config_members cfg) = Some cfg"
proof -
  have "go_string ''host'' (config_members cfg) = Some (Host cfg)" by (simp add: go_string_def config_values is_str_def)
  then show ?thesis
    by (simp add: decode_config_def go_string_of_values[OF config_values(2)] go_string_of_values[OF config_values(3)]
        go_string_of_values[OF config_values(4)] go_string_of_values[OF config_values(5)] go_string_of_values[OF config_values(6)])
qed

lemma decode_marshal_configs: "decode_configs (marshal_configs cfgs) = Some cfgs"
proof -
  have "plain (JObj (config_members cfg))" for cfg by (auto simp: config_members_def str_member_def)
  then have "json_parse (marshal_configs cfgs) = Some (JArr (map (\<lambda>cfg. JObj (config_members cfg)) cfgs))"
    unfolding marshal_configs_def by (intro json_marshal_roundtrip) auto
  then show ?thesis unfolding decode_configs_def using go_slice_map[OF decode_config_members] by simp
qed

lemma marshal_configs_plain: "\<not> IsEncrypted (marshal_configs cfgs)"
proof -
  have "\<exists>t. marshal_configs cfgs = CHR ''['' # t" by (simp add: marshal_configs_def json_marshal_def)
  then show ?thesis by (auto simp: IsEncrypted_def enc_prefix_def has_prefix_iff)
qed

text \<open>The registries stored in a world, as \<^verbatim>\<open>GetRegistryConfigs\<close> reads them when the store works.\<close>
definition registries_of :: "aead option \<Rightarrow> 'w nworld \<Rightarrow> (registries_error, Config list) result" where
  "registries_of secrets w =
    (case GetSecretSetting secrets registriesSettingsKey (nw_settings w) of
       Inl err \<Rightarrow> Inl (SettingSecret err)
     | Inr None \<Rightarrow> Inr []
     | Inr (Some raw) \<Rightarrow> (case decode_configs raw of None \<Rightarrow> Inl SettingInvalid | Some cfgs \<Rightarrow> Inr cfgs))"

lemma registries_env [simp]: "registries_of secrets (w\<lparr>nw_env := d\<rparr>) = registries_of secrets w"
  by (simp add: registries_of_def)

lemma registries_emit [simp]: "registries_of secrets (emit_event ev w) = registries_of secrets w"
  by (simp add: registries_of_def emit_event_def)

lemma GetRegistryConfigs_works:
  assumes "sql_works e"
  obtains d where "GetRegistryConfigs e secrets w = (registries_of secrets w, w\<lparr>nw_env := d\<rparr>)"
proof -
  obtain d where "n_stmt e (\<lambda>w. (GetSecretSetting secrets registriesSettingsKey (nw_settings w), w)) w
      = (Some (GetSecretSetting secrets registriesSettingsKey (nw_settings w)), w\<lparr>nw_env := d\<rparr>)"
    using n_stmt_works[OF assms, of "\<lambda>w. (GetSecretSetting secrets registriesSettingsKey (nw_settings w), w)" w] by auto
  then show thesis by (intro that[of d]) (simp add: GetRegistryConfigs_def registries_of_def split: sum.split option.split)
qed

lemma SetRegistryConfigs_works:
  assumes "sql_works e" "random_works e c" "seals c" "registries_of (Some c) w = Inr existing"
  obtains w' where "SetRegistryConfigs e (Some c) configs w = (None, w')"
    "registries_of (Some c) w' = Inr (map (merge_config existing) configs)"
proof -
  obtain d1 where g: "GetRegistryConfigs e (Some c) w = (Inr existing, w\<lparr>nw_env := d1\<rparr>)"
    by (rule GetRegistryConfigs_works[OF assms(1), of "Some c" w]) (simp only: assms(4))
  obtain d2 nonce where r: "n_random e (w\<lparr>nw_env := d1\<rparr>) = (Some nonce, w\<lparr>nw_env := d2\<rparr>)" "length nonce = NonceSize c"
    using n_random_works[OF assms(2), of "w\<lparr>nw_env := d1\<rparr>"] by auto
  obtain enc where enc: "Encrypt c (Some nonce) (marshal_configs (map (merge_config existing) configs)) = Inr enc" "IsEncrypted enc"
      "Decrypt c enc = Inr (marshal_configs (map (merge_config existing) configs))"
    using decrypt_encrypt[OF assms(3) marshal_configs_plain r(2)] by blast
  obtain d3 where st: "n_stmt e (\<lambda>w. ((), w\<lparr>nw_settings := SetSetting registriesSettingsKey enc (nw_settings w)\<rparr>)) (w\<lparr>nw_env := d2\<rparr>)
      = (Some (), w\<lparr>nw_env := d3, nw_settings := SetSetting registriesSettingsKey enc (nw_settings w)\<rparr>)"
    using n_stmt_works[OF assms(1), of "\<lambda>w. ((), w\<lparr>nw_settings := SetSetting registriesSettingsKey enc (nw_settings w)\<rparr>)" "w\<lparr>nw_env := d2\<rparr>"]
    by auto
  let ?w = "w\<lparr>nw_env := d3, nw_settings := SetSetting registriesSettingsKey enc (nw_settings w)\<rparr>"
  have "SetRegistryConfigs e (Some c) configs w = (None, ?w)"
    using g r(1) enc(1) st by (simp add: SetRegistryConfigs_def encryptSecret_def)
  moreover have "registries_of (Some c) ?w = Inr (map (merge_config existing) configs)"
    using enc(2,3) by (simp add: registries_of_def GetSecretSetting_def decryptSecret_def row_simps decode_marshal_configs)
  ultimately show thesis by (rule that)
qed

lemma SetRegistryConfigs_unreadable:
  assumes "sql_works e" "registries_of secrets w = Inl err"
  shows "\<exists>w'. SetRegistryConfigs e secrets configs w = (Some err, w')"
  using GetRegistryConfigs_works[OF assms(1), of secrets w] assms(2) by (metis (no_types, lifting) SetRegistryConfigs_def prod.case sum.case(1))

section \<open>Saving the list\<close>

text \<open>What a request to save the list does when statements succeed.\<close>
definition saved :: "parsers \<Rightarrow> (string \<Rightarrow> string) \<Rightarrow> Config list \<Rightarrow> Config list \<Rightarrow> registry_config \<Rightarrow>
    shown_registry list reply \<times> registry_config" where
  "saved ps caFingerprint existing configs running =
    (case Configure (ps_scheme ps) (ps_pem ps) (map (merge_config existing) configs) running of
       (Some _, running') \<Rightarrow> (bad_request, running')
     | (None, running') \<Rightarrow> (Reply 200 (publicRegistryConfigs caFingerprint (map (merge_config existing) configs)), running'))"

lemma handleSetRegistries_accepted:
  assumes "sql_works e" "random_works e c" "seals c" "registries_of (Some c) w = Inr existing"
    and "check_registries ps existing [] configs"
  obtains w' where "handleSetRegistries e (Some c) ps fp (Some configs) (running, w)
      = (fst (saved ps fp existing configs running), snd (saved ps fp existing configs running), w')"
    "registries_of (Some c) w' = Inr (map (merge_config existing) configs)"
proof -
  let ?stored = "map (merge_config existing) configs"
  obtain d1 where g1: "GetRegistryConfigs e (Some c) w = (Inr existing, w\<lparr>nw_env := d1\<rparr>)"
    by (rule GetRegistryConfigs_works[OF assms(1), of "Some c" w]) (simp only: assms(4))
  obtain w2 where g2: "SetRegistryConfigs e (Some c) configs (w\<lparr>nw_env := d1\<rparr>) = (None, w2)" "registries_of (Some c) w2 = Inr ?stored"
    by (rule SetRegistryConfigs_works[OF assms(1-3), of "w\<lparr>nw_env := d1\<rparr>" existing configs]) (simp_all add: assms(4))
  obtain d3 where g3: "GetRegistryConfigs e (Some c) w2 = (Inr ?stored, w2\<lparr>nw_env := d3\<rparr>)"
    by (rule GetRegistryConfigs_works[OF assms(1), of "Some c" w2]) (simp only: g2(2))
  show thesis
  proof (cases "Configure (ps_scheme ps) (ps_pem ps) ?stored running")
    case (Pair err running')
    then show thesis
      using that[of "if err = None then emit_event (event_of LevelInfo ''settings.registries_changed'' '''' ActorUser ''''
          [(''count'', AInt (int (length ?stored)))]) (w2\<lparr>nw_env := d3\<rparr>) else w2\<lparr>nw_env := d3\<rparr>"] g1 g2 g3 assms(5)
      by (cases err) (simp_all add: handleSetRegistries_def saved_def)
  qed
qed

lemma handleSetRegistries_success:
  assumes "sql_works e" "random_works e c" "seals c"
    and "handleSetRegistries e (Some c) ps fp (Some configs) (running, w) = (Reply 200 shown, running', w')"
  obtains existing where "registries_of (Some c) w = Inr existing" "check_registries ps existing [] configs"
    "registries_of (Some c) w' = Inr (map (merge_config existing) configs)"
    "shown = publicRegistryConfigs fp (map (merge_config existing) configs)"
    "configure_loop (ps_scheme ps) (ps_pem ps) (map (merge_config existing) configs) Map.empty = Inr running'"
proof (cases "registries_of (Some c) w")
  case (Inl err)
  obtain d where g: "GetRegistryConfigs e (Some c) w = (Inl err, w\<lparr>nw_env := d\<rparr>)"
    by (rule GetRegistryConfigs_works[OF assms(1), of "Some c" w]) (simp only: Inl)
  obtain w2 where "SetRegistryConfigs e (Some c) configs (w\<lparr>nw_env := d\<rparr>) = (Some err, w2)"
    using SetRegistryConfigs_unreadable[OF assms(1), of "Some c" "w\<lparr>nw_env := d\<rparr>" err configs] Inl by auto
  then show thesis using assms(4) g by (simp add: handleSetRegistries_def split: if_splits)
next
  case (Inr existing)
  show thesis
  proof (cases "check_registries ps existing [] configs")
    case False
    obtain d where "GetRegistryConfigs e (Some c) w = (Inr existing, w\<lparr>nw_env := d\<rparr>)"
      by (rule GetRegistryConfigs_works[OF assms(1), of "Some c" w]) (simp only: Inr)
    then show thesis using assms(4) False by (simp add: handleSetRegistries_def)
  next
    case True
    obtain w2 where q: "handleSetRegistries e (Some c) ps fp (Some configs) (running, w)
        = (fst (saved ps fp existing configs running), snd (saved ps fp existing configs running), w2)"
      "registries_of (Some c) w2 = Inr (map (merge_config existing) configs)"
      by (rule handleSetRegistries_accepted[OF assms(1-3) Inr True])
    have "saved ps fp existing configs running = (Reply 200 shown, running')" "w2 = w'" using q(1) assms(4) by (simp_all add: prod_eq_iff)
    then show thesis using that[OF Inr True] q(2)
      by (auto simp: saved_def Configure_def split: prod.splits option.splits sum.splits)
  qed
qed

lemma check_registries_distinct:
  "check_registries ps existing seen cs \<Longrightarrow> distinct (map (\<lambda>cfg. host_key (Host cfg)) cs)
    \<and> (\<forall>cfg \<in> set cs. host_key (Host cfg) \<notin> set seen)"
proof (induction cs arbitrary: seen)
  case (Cons cfg cs)
  then have "check_registries ps existing (host_key (Host cfg) # seen) cs" "host_key (Host cfg) \<notin> set seen"
    by (simp_all add: Let_def split: if_splits)
  then show ?case using Cons.IH[of "host_key (Host cfg) # seen"] by auto
qed simp

lemma by_host_merged:
  assumes "distinct (map (\<lambda>cfg. host_key (Host cfg)) configs)" "cfg \<in> set configs"
  shows "by_host (map (merge_config existing) configs) (host_key (Host cfg)) = merge_config existing cfg"
proof -
  have k: "to_lower (Host (merge_config existing c)) = host_key (Host c)" for c by (simp add: merge_config_def Let_def)
  let ?rows = "rev (map (merge_config existing) configs)"
  have "keys_distinct (\<lambda>c. to_lower (Host c)) ?rows"
    using assms(1) by (simp add: keys_distinct_def rev_map[symmetric] comp_def k)
  from get_row_mem[OF this, of "merge_config existing cfg"]
  have "get_row (\<lambda>c. to_lower (Host c)) (host_key (Host cfg)) ?rows = Some (merge_config existing cfg)"
    using assms(2) by (simp add: k)
  then show ?thesis by (simp add: by_host_def get_row_def)
qed

text \<open>An entry as the settings page submits it back.\<close>
definition resubmit :: "shown_registry \<Rightarrow> Config" where
  "resubmit r = no_config\<lparr>Host := rs_host r, Username := rs_username r, AuthHost := rs_auth_host r\<rparr>"

lemma resubmit_merge:
  assumes "by_host stored (host_key (Host cfg)) = merge_config existing cfg"
  shows "merge_config stored (resubmit (public_registry fp (merge_config existing cfg))) = merge_config existing cfg"
proof -
  let ?m = "merge_config existing cfg"
  have h: "Host ?m = host_key (Host cfg)" by (simp add: merge_config_def Let_def)
  have "Username ?m = '''' \<Longrightarrow> Password ?m = ''''" by (simp add: merge_config_def Let_def)
  then show ?thesis
    unfolding merge_config_def[of stored] by (simp add: resubmit_def public_registry_def no_config_def h assms Let_def)
qed

lemma resubmit_check:
  assumes "check_registries ps existing seen cs" "\<forall>cfg \<in> set cs. by_host stored (host_key (Host cfg)) = merge_config existing cfg"
  shows "check_registries ps stored seen (map (\<lambda>cfg. resubmit (public_registry fp (merge_config existing cfg))) cs)"
  using assms
proof (induction cs arbitrary: seen)
  case (Cons cfg cs)
  let ?m = "merge_config existing cfg"
  let ?r = "resubmit (public_registry fp ?m)"
  have c: "\<not> (host_key (Host cfg) = '''' \<or> str_contains (host_key (Host cfg)) ''://'' \<or> host_key (Host cfg) \<in> set seen)"
    "auth_host_ok (host_key (AuthHost cfg))"
    "\<not> (Username cfg \<noteq> '''' \<and> Password cfg = '''' \<and> Password (by_host existing (host_key (Host cfg))) = '''')"
    "check_registries ps existing (host_key (Host cfg) # seen) cs"
    using Cons.prems(1) by (simp_all add: Let_def split: if_splits)
  have r: "host_key (Host ?r) = host_key (Host cfg)" "AuthHost ?r = AuthHost cfg" "Username ?r = Username cfg"
    "Password ?r = ''''" "ProxyURL ?r = ''''" "CACertPEM ?r = ''''"
    by (simp_all add: resubmit_def public_registry_def no_config_def merge_config_def Let_def)
  have "by_host stored (host_key (Host cfg)) = ?m" using Cons.prems(2) by simp
  then have p: "\<not> (Username cfg \<noteq> '''' \<and> Password (by_host stored (host_key (Host cfg))) = '''')"
    using c(3) by (auto simp: merge_config_def Let_def)
  have v: "ValidateConfig (ps_scheme ps) (ps_pem ps) (no_config\<lparr>Host := host_key (Host cfg), ProxyURL := '''', CACertPEM := ''''\<rparr>) = None"
    by (simp add: ValidateConfig_def transportFor_def)
  have "check_registries ps stored (host_key (Host cfg) # seen) (map (\<lambda>cfg. resubmit (public_registry fp (merge_config existing cfg))) cs)"
    by (rule Cons.IH[OF c(4)]) (use Cons.prems(2) in simp)
  then show ?case unfolding list.map check_registries.simps Let_def r using c(1,2) p v by simp
qed simp

lemma configure_loop_append:
  "configure_loop us pem (xs @ ys) acc = (case configure_loop us pem xs acc of Inl err \<Rightarrow> Inl err | Inr m \<Rightarrow> configure_loop us pem ys m)"
  by (induction xs arbitrary: acc) (auto simp: Let_def split: option.split)

lemma runtime_registries_load:
  assumes "configure_loop us pem stored Map.empty = Inr running"
  shows "fst (Configure us pem (runtime_registries hubUser hubPass stored) Map.empty) = None"
proof -
  have "canonicalHost hub_registry \<noteq> ''''" by code_simp
  then show ?thesis using assms
    by (simp add: Configure_def runtime_registries_def configure_loop_append transportFor_def no_config_def Let_def)
qed

text \<open>C29: A saved registry list is what is shown, survives being saved back as it is shown, and is what the
  next start loads. After a save that is answered with success the list read back is the one of the answer;
  submitting its entries as the page shows them, without passwords, proxies and certificates, succeeds, leaves
  every stored value and the configuration in force as they are; and the next start of the daemon accepts the
  list, whatever Docker Hub account its environment gives.\<close>

theorem registries_saved_as_shown:
  assumes "sql_works e" "random_works e c" "seals c"
    and "handleSetRegistries e (Some c) ps fp (Some configs) (running, w) = (Reply 200 shown, running', w')"
  shows "fst (handleGetRegistries e (Some c) fp w') = Reply 200 shown
    \<and> (\<exists>w2. handleSetRegistries e (Some c) ps fp (Some (map resubmit shown)) (running', w') = (Reply 200 shown, running', w2)
      \<and> registries_of (Some c) w2 = registries_of (Some c) w')
    \<and> fst (load_registries e (Some c) ps hubUser hubPass w') = None"
proof (intro conjI)
  obtain existing where ex: "registries_of (Some c) w = Inr existing" "check_registries ps existing [] configs"
    "registries_of (Some c) w' = Inr (map (merge_config existing) configs)"
    "shown = publicRegistryConfigs fp (map (merge_config existing) configs)"
    "configure_loop (ps_scheme ps) (ps_pem ps) (map (merge_config existing) configs) Map.empty = Inr running'"
    by (rule handleSetRegistries_success[OF assms])
  let ?stored = "map (merge_config existing) configs"
  have hosts: "\<forall>cfg \<in> set configs. by_host ?stored (host_key (Host cfg)) = merge_config existing cfg"
    using by_host_merged check_registries_distinct[OF ex(2)] by blast
  have sub: "map resubmit shown = map (\<lambda>cfg. resubmit (public_registry fp (merge_config existing cfg))) configs"
    by (simp add: ex(4) publicRegistryConfigs_def)
  have same: "map (merge_config ?stored) (map resubmit shown) = ?stored"
    unfolding sub map_map comp_def using hosts resubmit_merge by (intro map_cong[OF refl]) blast
  have "check_registries ps ?stored [] (map resubmit shown)" unfolding sub by (rule resubmit_check[OF ex(2) hosts])
  then obtain w2 where w2: "handleSetRegistries e (Some c) ps fp (Some (map resubmit shown)) (running', w')
      = (fst (saved ps fp ?stored (map resubmit shown) running'), snd (saved ps fp ?stored (map resubmit shown) running'), w2)"
    "registries_of (Some c) w2 = Inr (map (merge_config ?stored) (map resubmit shown))"
    by (rule handleSetRegistries_accepted[OF assms(1-3) ex(3)])
  have "saved ps fp ?stored (map resubmit shown) running' = (Reply 200 shown, running')"
    unfolding saved_def same by (simp add: Configure_def ex(4,5))
  then show "\<exists>w2. handleSetRegistries e (Some c) ps fp (Some (map resubmit shown)) (running', w') = (Reply 200 shown, running', w2)
      \<and> registries_of (Some c) w2 = registries_of (Some c) w'"
    using w2 unfolding same ex(3) by auto
  obtain d where g: "GetRegistryConfigs e (Some c) w' = (Inr ?stored, w'\<lparr>nw_env := d\<rparr>)"
    by (rule GetRegistryConfigs_works[OF assms(1), of "Some c" w']) (simp only: ex(3))
  then show "fst (handleGetRegistries e (Some c) fp w') = Reply 200 shown" by (simp add: handleGetRegistries_def ex(4))
  show "fst (load_registries e (Some c) ps hubUser hubPass w') = None"
    using g runtime_registries_load[OF ex(5), of hubUser hubPass]
    by (auto simp: load_registries_def split: prod.split option.split)
qed

lemma configure_loop_no_host:
  assumes "cfg \<in> set cfgs" "canonicalHost (Host cfg) = ''''"
  shows "\<exists>err. configure_loop us pem (cfgs @ rest) acc = Inl err"
  using assms by (induction cfgs arbitrary: acc) (auto simp: Let_def split: option.split)

lemma slash_host: "canonicalHost ''/'' = ''''"
  by code_simp

text \<open>A registry host that is a single slash passes the check of a submitted list, and the list is stored
  before \<^verbatim>\<open>Configure\<close> rejects it: the request is answered with an error and the configuration in force stays,
  but the list is the one stored from then on, and every start of the daemon with it fails.\<close>

theorem slash_host_blocks_restart:
  assumes "sql_works e" "random_works e c" "seals c" "registries_of (Some c) w = Inr existing"
    and "check_registries ps existing [] configs" "cfg \<in> set configs" "host_key (Host cfg) = ''/''"
  shows "\<exists>w'. handleSetRegistries e (Some c) ps fp (Some configs) (running, w) = (bad_request, running, w')
    \<and> registries_of (Some c) w' = Inr (map (merge_config existing) configs)
    \<and> (\<forall>hubUser hubPass. fst (load_registries e (Some c) ps hubUser hubPass w') \<noteq> None)"
proof -
  let ?stored = "map (merge_config existing) configs"
  have "Host (merge_config existing cfg) = ''/''" using assms(7) by (simp add: merge_config_def Let_def)
  then have h: "merge_config existing cfg \<in> set ?stored" "canonicalHost (Host (merge_config existing cfg)) = ''''"
    using assms(6) slash_host by simp_all
  have "fst (saved ps fp existing configs running) = bad_request \<and> snd (saved ps fp existing configs running) = running"
    using configure_loop_no_host[OF h, of "ps_scheme ps" "ps_pem ps" "[]" Map.empty] by (auto simp: saved_def Configure_def)
  moreover obtain w' where w': "handleSetRegistries e (Some c) ps fp (Some configs) (running, w)
      = (fst (saved ps fp existing configs running), snd (saved ps fp existing configs running), w')"
    "registries_of (Some c) w' = Inr ?stored"
    by (rule handleSetRegistries_accepted[OF assms(1-5)])
  moreover have "fst (load_registries e (Some c) ps hubUser hubPass w') \<noteq> None" for hubUser hubPass
  proof -
    obtain d where g: "GetRegistryConfigs e (Some c) w' = (Inr ?stored, w'\<lparr>nw_env := d\<rparr>)"
      by (rule GetRegistryConfigs_works[OF assms(1), of "Some c" w']) (simp only: w'(2))
    obtain rest where rest: "runtime_registries hubUser hubPass ?stored = ?stored @ rest" by (simp add: runtime_registries_def Let_def)
    obtain err where "configure_loop (ps_scheme ps) (ps_pem ps) (?stored @ rest) Map.empty = Inl err"
      using configure_loop_no_host[OF h] by blast
    then show ?thesis by (simp add: load_registries_def g rest Configure_def)
  qed
  ultimately show ?thesis by auto
qed

section \<open>Examples\<close>

definition demo_parsers :: parsers where
  "demo_parsers = \<lparr>ps_scheme = (\<lambda>raw. if has_prefix raw ''http://'' then Some ''http'' else None), ps_pem = (\<lambda>t. t = ''CERT'')\<rparr>"

definition demo_settings_world :: "int nworld" where
  "demo_settings_world = \<lparr>nw_settings = [], nw_queue = no_jobs, nw_records = [], nw_events = [], nw_env = 0\<rparr>"

definition private_registry :: "string \<Rightarrow> Config" where
  "private_registry h = \<lparr>Host = h, Username = ''bob'', Password = ''pw'', AuthHost = ''auth.example'', ProxyURL = ''http://proxy'', CACertPEM = ''CERT''\<rparr>"

definition shown_private :: shown_registry where
  "shown_private = \<lparr>rs_host = ''r.example:5000'', rs_username = ''bob'', rs_auth_host = ''auth.example'', rs_credentials = True,
     rs_proxy = True, rs_ca = True, rs_fingerprint = ''fp''\<rparr>"

lemma demo_registries:
  "registries_of (Some toy_aead) demo_settings_world = Inr []"
  "check_registries demo_parsers [] [] [private_registry '' R.example:5000 '']"
  "check_registries demo_parsers [] [] [private_registry ''/'']"
  "fst (saved demo_parsers (\<lambda>_. ''fp'') [] [private_registry '' R.example:5000 ''] Map.empty) = Reply 200 [shown_private]"
  by code_simp+

text \<open>A registry with an account, a proxy and a certificate, saved and then saved again from the page.\<close>
theorem registries_saved_as_shown_witness:
  "\<exists>running' w' w2. handleSetRegistries tick_env (Some toy_aead) demo_parsers (\<lambda>_. ''fp'') (Some [private_registry '' R.example:5000 ''])
      (Map.empty, demo_settings_world) = (Reply 200 [shown_private], running', w')
    \<and> handleSetRegistries tick_env (Some toy_aead) demo_parsers (\<lambda>_. ''fp'') (Some [resubmit shown_private]) (running', w')
      = (Reply 200 [shown_private], running', w2)
    \<and> fst (load_registries tick_env (Some toy_aead) demo_parsers ''hub'' ''hubpw'' w') = None"
proof -
  obtain w' where w': "handleSetRegistries tick_env (Some toy_aead) demo_parsers (\<lambda>_. ''fp'') (Some [private_registry '' R.example:5000 ''])
      (Map.empty, demo_settings_world) = (Reply 200 [shown_private], snd (saved demo_parsers (\<lambda>_. ''fp'') [] [private_registry '' R.example:5000 ''] Map.empty), w')"
    by (rule handleSetRegistries_accepted[OF tick_works toy_seals demo_registries(1,2), of "\<lambda>_. ''fp''" Map.empty]) (simp only: demo_registries(4))
  note again = registries_saved_as_shown[OF tick_works toy_seals w']
  then show ?thesis using w' by auto
qed

theorem slash_host_blocks_restart_witness:
  "\<exists>w'. handleSetRegistries tick_env (Some toy_aead) demo_parsers (\<lambda>_. ''fp'') (Some [private_registry ''/''])
      (Map.empty, demo_settings_world) = (bad_request, Map.empty, w')
    \<and> fst (load_registries tick_env (Some toy_aead) demo_parsers '''' '''' w') \<noteq> None"
proof -
  have "host_key (Host (private_registry ''/'')) = ''/''" by code_simp
  from slash_host_blocks_restart[OF tick_works toy_seals demo_registries(1,3) list.set_intros(1) this, of "\<lambda>_. ''fp''" Map.empty]
  show ?thesis by blast
qed

end
