(* ===== verification/Page_Prefs.thy ===== *)
theory Page_Prefs
  imports Prelude
begin

text \<open>
  \<^verbatim>\<open>web/static/theme.js\<close> and \<^verbatim>\<open>web/static/sidebar.js\<close>: two display choices kept in the
  browser's local storage. Both scripts run before the first paint, read the stored choice, and
  wire their buttons when the page has them.
\<close>

type_synonym storage = "string \<rightharpoonup> string"

section \<open>The contract of a stored choice\<close>

locale stored_choice =
  fixes key :: string
    and load :: "storage \<Rightarrow> 'a"
    and save :: "'a \<Rightarrow> storage \<Rightarrow> storage"
    and valid :: "'a \<Rightarrow> bool"
  assumes load_save: "valid a \<Longrightarrow> load (save a st) = a"
    and save_other: "k \<noteq> key \<Longrightarrow> save a st k = st k"
    and load_local: "st key = st' key \<Longrightarrow> load st = load st'"
begin

lemma load_last: "as \<noteq> [] \<Longrightarrow> \<forall>a \<in> set as. valid a \<Longrightarrow> load (fold save as st) = last as"
  by (induction as rule: rev_induct) (auto simp: load_save)

end

text \<open>Two choices under different keys do not disturb each other.\<close>

locale two_choices =
  one: stored_choice key\<^sub>1 load\<^sub>1 save\<^sub>1 valid\<^sub>1 + two: stored_choice key\<^sub>2 load\<^sub>2 save\<^sub>2 valid\<^sub>2
  for key\<^sub>1 :: string and load\<^sub>1 :: "storage \<Rightarrow> 'a" and save\<^sub>1 valid\<^sub>1
    and key\<^sub>2 :: string and load\<^sub>2 :: "storage \<Rightarrow> 'b" and save\<^sub>2 valid\<^sub>2 +
  assumes keys_differ: "key\<^sub>1 \<noteq> key\<^sub>2"
begin

lemma independent: "load\<^sub>1 (save\<^sub>2 b st) = load\<^sub>1 st" "load\<^sub>2 (save\<^sub>1 a st) = load\<^sub>2 st"
  by (rule one.load_local, simp add: two.save_other keys_differ)
    (rule two.load_local, simp add: one.save_other keys_differ[symmetric])

end

section \<open>Theme\<close>

definition theme_key :: string where "theme_key = ''doupro-theme''"

datatype icon = Sun | Moon

record page =
  local_storage :: storage
  data_theme :: string      \<comment> \<open>\<^verbatim>\<open>document.documentElement.dataset.theme\<close>\<close>
  data_sidebar :: string    \<comment> \<open>\<^verbatim>\<open>document.documentElement.dataset.sidebar\<close>\<close>
  theme_button :: bool      \<comment> \<open>whether the page has the toggle\<close>
  theme_icon :: icon
  theme_title :: string
  sidebar_buttons :: bool   \<comment> \<open>whether the page has both sidebar buttons\<close>
  collapsed :: bool         \<comment> \<open>the closure variable of \<^verbatim>\<open>sidebar.js\<close>\<close>

definition stored_theme :: "storage \<Rightarrow> string" where
  "stored_theme st = (if st theme_key = Some ''light'' then ''light'' else ''dark'')"

definition render_theme :: "page \<Rightarrow> page" where
  "render_theme p = p\<lparr>theme_icon := (if data_theme p = ''light'' then Sun else Moon),
     theme_title := (if data_theme p = ''light'' then ''Switch to dark theme'' else ''Switch to light theme'')\<rparr>"

text \<open>Loading a page: the script's start and \<^verbatim>\<open>wireToggle\<close>.\<close>
definition theme_load :: "page \<Rightarrow> page" where
  "theme_load p =
    (let p' = p\<lparr>data_theme := stored_theme (local_storage p)\<rparr>
     in if theme_button p' then render_theme p' else p')"

definition save_theme :: "string \<Rightarrow> storage \<Rightarrow> storage" where
  "save_theme t st = st(theme_key \<mapsto> t)"

definition theme_click :: "page \<Rightarrow> page" where
  "theme_click p =
    (if \<not> theme_button p then p
     else (let next_theme = (if data_theme p = ''light'' then ''dark'' else ''light'')
           in render_theme (p\<lparr>data_theme := next_theme,
                              local_storage := save_theme next_theme (local_storage p)\<rparr>)))"

section \<open>Sidebar\<close>

definition sidebar_key :: string where "sidebar_key = ''doupro-sidebar-collapsed''"

definition sidebar_text :: "bool \<Rightarrow> string" where
  "sidebar_text c = (if c then ''collapsed'' else ''expanded'')"

definition stored_collapsed :: "storage \<Rightarrow> bool" where
  "stored_collapsed st = (st sidebar_key = Some ''1'')"

definition sidebar_load :: "page \<Rightarrow> page" where
  "sidebar_load p =
    (let c = stored_collapsed (local_storage p) in p\<lparr>collapsed := c, data_sidebar := sidebar_text c\<rparr>)"

definition save_collapsed :: "bool \<Rightarrow> storage \<Rightarrow> storage" where
  "save_collapsed c st = st(sidebar_key \<mapsto> (if c then ''1'' else ''0''))"

definition setCollapsed :: "bool \<Rightarrow> page \<Rightarrow> page" where
  "setCollapsed c p = p\<lparr>collapsed := c, data_sidebar := sidebar_text c,
     local_storage := save_collapsed c (local_storage p)\<rparr>"

definition sidebar_click :: "bool \<Rightarrow> page \<Rightarrow> page" where
  "sidebar_click hide p = (if sidebar_buttons p then setCollapsed hide p else p)"

section \<open>Properties\<close>

interpretation theme: stored_choice theme_key stored_theme save_theme "\<lambda>t. t \<in> {''light'', ''dark''}"
  by unfold_locales (auto simp: stored_theme_def save_theme_def)

interpretation sidebar: stored_choice sidebar_key stored_collapsed save_collapsed "\<lambda>_. True"
  by unfold_locales (auto simp: stored_collapsed_def save_collapsed_def)

interpretation theme_sidebar: two_choices
    theme_key stored_theme save_theme "\<lambda>t. t \<in> {''light'', ''dark''}"
    sidebar_key stored_collapsed save_collapsed "\<lambda>_. True"
  by unfold_locales (simp add: theme_key_def sidebar_key_def)

datatype pref_event = ThemeClick | HideClick | ShowClick

fun pref_step :: "pref_event \<Rightarrow> page \<Rightarrow> page" where
  "pref_step ThemeClick p = theme_click p"
| "pref_step HideClick p = sidebar_click True p"
| "pref_step ShowClick p = sidebar_click False p"

definition load_page :: "page \<Rightarrow> page" where
  "load_page p = sidebar_load (theme_load p)"

definition prefs_saved :: "page \<Rightarrow> bool" where
  "prefs_saved p \<longleftrightarrow> data_theme p = stored_theme (local_storage p)
     \<and> collapsed p = stored_collapsed (local_storage p) \<and> data_sidebar p = sidebar_text (collapsed p)
     \<and> (theme_button p \<longrightarrow> theme_icon p = (if data_theme p = ''light'' then Sun else Moon))"

lemma prefs_saved_load: "prefs_saved (load_page p)"
  by (simp add: prefs_saved_def load_page_def sidebar_load_def theme_load_def render_theme_def Let_def)

lemma prefs_saved_step: "prefs_saved p \<Longrightarrow> prefs_saved (pref_step ev p)"
proof (cases ev)
  case ThemeClick
  assume inv: "prefs_saved p"
  have "stored_collapsed (save_theme t st) = stored_collapsed st" for t st
    by (rule theme_sidebar.independent)
  moreover have "stored_theme (save_theme ''dark'' st) = ''dark''"
    "stored_theme (save_theme ''light'' st) = ''light''" for st
    by (rule theme.load_save, simp)+
  ultimately show ?thesis
    using inv ThemeClick by (simp add: prefs_saved_def theme_click_def render_theme_def Let_def)
next
  case HideClick
  then show "prefs_saved p \<Longrightarrow> ?thesis"
    by (simp add: prefs_saved_def sidebar_click_def setCollapsed_def sidebar.load_save
        theme_sidebar.independent)
next
  case ShowClick
  then show "prefs_saved p \<Longrightarrow> ?thesis"
    by (simp add: prefs_saved_def sidebar_click_def setCollapsed_def sidebar.load_save
        theme_sidebar.independent)
qed

lemma prefs_saved_run: "prefs_saved p \<Longrightarrow> prefs_saved (fold pref_step evs p)"
  by (induction evs arbitrary: p) (auto simp: prefs_saved_step)

text \<open>theme and sidebar choices survive a reload. After any clicks on a loaded page, loading
  the page again from the same storage shows the same theme, sidebar state and icon: neither
  choice overwrites the other, and nothing is lost between the screen and the storage.\<close>
theorem prefs_survive_reload:
  "let p' = fold pref_step evs (load_page p)
   in data_theme (load_page p') = data_theme p' \<and> data_sidebar (load_page p') = data_sidebar p'
      \<and> (theme_button p' \<longrightarrow> theme_icon (load_page p') = theme_icon p')"
  using prefs_saved_run[OF prefs_saved_load, of evs p] prefs_saved_load[of "fold pref_step evs (load_page p)"]
  by (simp add: Let_def prefs_saved_def load_page_def sidebar_load_def theme_load_def render_theme_def)

definition fresh_page :: page where
  "fresh_page = \<lparr>local_storage = Map.empty, data_theme = '''', data_sidebar = '''', theme_button = True,
     theme_icon = Moon, theme_title = '''', sidebar_buttons = True, collapsed = False\<rparr>"

theorem prefs_survive_reload_witness:
  "let p' = fold pref_step [ThemeClick, HideClick] (load_page fresh_page)
   in data_theme p' = ''light'' \<and> data_sidebar p' = ''collapsed'' \<and> theme_button p'
      \<and> data_theme (load_page p') = ''light'' \<and> data_sidebar (load_page p') = ''collapsed''
      \<and> theme_icon (load_page p') = Sun"
proof -
  let ?p = "fold pref_step [ThemeClick, HideClick] (load_page fresh_page)"
  have "data_theme ?p = ''light''" "data_sidebar ?p = ''collapsed''" "theme_icon ?p = Sun"
    "theme_button ?p" by code_simp+
  then show ?thesis
    using prefs_survive_reload[of "[ThemeClick, HideClick]" fresh_page] unfolding Let_def by simp
qed

end
