(* ===== verification/Tailwind.thy ===== *)
theory Tailwind
  imports Json Page_Prefs
begin

text \<open>
  \<^verbatim>\<open>web/tailwind.config.js\<close>, the configuration object as the module exports it, and the colours of
  \<^verbatim>\<open>web/input.css\<close> that its gray scale refers to. The generator that makes style sheets from them is
  third-party code and is not modelled.
\<close>

section \<open>The configuration\<close>

text \<open>The gray scale is the same text for every shade.\<close>
definition gray_reference :: "string \<Rightarrow> json" where
  "gray_reference shade = JStr (''rgb(var(--gray-'' @ shade @ '') / <alpha-value>)'')"

definition gray_shades :: "string list" where
  "gray_shades = [''50'', ''100'', ''200'', ''300'', ''400'', ''500'', ''600'', ''700'', ''800'', ''900'', ''950'']"

definition config_colors :: "(string \<times> json) list" where
  "config_colors =
    [(''gray'', JObj (map (\<lambda>shade. (shade, gray_reference shade)) gray_shades)),
     (''brand'', JStr ''#0395E4''),
     (''state'', JObj [(''running'', JStr ''#22c55e''), (''warning'', JStr ''#d97706''), (''stopped'', JStr ''#dc2626''),
        (''created'', JStr ''#3b82f6''), (''pausedbg'', JStr ''#374151'')]),
     (''chip'', JObj [(''current'', JStr ''#bbf7d0''), (''current-text'', JStr ''#065f46''),
        (''previous'', JStr ''#e5e7eb''), (''previous-text'', JStr ''#374151'')]),
     (''badge'', JObj [(''update'', JStr ''#2563eb''), (''available'', JStr ''#f97316''), (''scheduled'', JStr ''#7c3aed'')]),
     (''nav'', JObj [(''active'', JStr ''rgb(254 116 31)'')])]"

definition tailwind_config :: json where
  "tailwind_config = JObj
    [(''content'', JArr [JStr ''./web/templates/**/*.html'', JStr ''./web/static/*.js'']),
     (''darkMode'', JStr ''class''),
     (''theme'', JObj [(''extend'', JObj [(''colors'', JObj config_colors)])]),
     (''plugins'', JArr [])]"

text \<open>A property of an object of the configuration, by its path.\<close>
fun config_at :: "string list \<Rightarrow> json \<Rightarrow> json option" where
  "config_at [] v = Some v"
| "config_at (key # keys) (JObj ms) = (case json_get ms key of None \<Rightarrow> None | Some v \<Rightarrow> config_at keys v)"
| "config_at _ _ = None"

definition config_color :: "string list \<Rightarrow> string option" where
  "config_color path =
    (case config_at ([''theme'', ''extend'', ''colors''] @ path) tailwind_config of Some (JStr c) \<Rightarrow> Some c | _ \<Rightarrow> None)"

section \<open>The style sheet\<close>

type_synonym rgb = "nat \<times> nat \<times> nat"

text \<open>The variables set for every page, and for the dark theme.\<close>
definition root_grays :: "(string \<times> rgb) list" where
  "root_grays =
    [(''--gray-50'', 249, 250, 251), (''--gray-100'', 243, 244, 246), (''--gray-200'', 229, 231, 235),
     (''--gray-300'', 209, 213, 219), (''--gray-400'', 156, 163, 175), (''--gray-500'', 107, 114, 128),
     (''--gray-600'', 75, 85, 99), (''--gray-700'', 55, 65, 81), (''--gray-800'', 31, 41, 55),
     (''--gray-900'', 17, 24, 39), (''--gray-950'', 3, 7, 18)]"

definition light_grays :: "(string \<times> rgb) list" where
  "light_grays =
    [(''--gray-50'', 3, 7, 18), (''--gray-100'', 17, 24, 39), (''--gray-200'', 31, 41, 55),
     (''--gray-300'', 55, 65, 81), (''--gray-400'', 75, 85, 99), (''--gray-500'', 107, 114, 128),
     (''--gray-600'', 156, 163, 175), (''--gray-700'', 209, 213, 219), (''--gray-800'', 229, 231, 235),
     (''--gray-900'', 243, 244, 246), (''--gray-950'', 249, 250, 251)]"

text \<open>The value of a variable under a \<^verbatim>\<open>data-theme\<close> attribute: the rule of the light theme is the
  more specific one.\<close>
definition css_variable :: "string \<Rightarrow> string \<Rightarrow> rgb option" where
  "css_variable theme name =
    (if theme = ''light'' \<and> map_of light_grays name \<noteq> None then map_of light_grays name else map_of root_grays name)"

text \<open>The variable a colour of the form \<^verbatim>\<open>rgb(var(NAME) ...)\<close> refers to.\<close>
definition css_reference :: "string \<Rightarrow> string option" where
  "css_reference color =
    (if has_prefix color ''rgb(var('' then Some (takeWhile (\<lambda>c. c \<noteq> CHR '')'') (drop (length ''rgb(var('') color)) else None)"

text \<open>A shade of gray on a page, through the configuration and the style sheet.\<close>
definition shade_on :: "page \<Rightarrow> nat \<Rightarrow> rgb option" where
  "shade_on p i =
    (case config_color [''gray'', gray_shades ! i] of
       None \<Rightarrow> None
     | Some c \<Rightarrow> (case css_reference c of None \<Rightarrow> None | Some name \<Rightarrow> css_variable (data_theme p) name))"

section \<open>Properties\<close>

lemma all_shades:
  assumes "list_all P [0..<11]" "i < length gray_shades"
  shows "P i"
  using assms by (simp add: list_all_iff gray_shades_def)

lemma shade_reference:
  assumes "i < length gray_shades"
  shows "config_color [''gray'', gray_shades ! i] = Some (''rgb(var(--gray-'' @ gray_shades ! i @ '') / <alpha-value>)'')"
    "css_reference (''rgb(var(--gray-'' @ gray_shades ! i @ '') / <alpha-value>)'') = Some (''--gray-'' @ gray_shades ! i)"
  by (rule all_shades[OF _ assms], code_simp)+

text \<open>In both themes every shade of the scale is a colour.\<close>
lemma shade_variable:
  assumes "i < length gray_shades"
  shows "map_of light_grays (''--gray-'' @ gray_shades ! i) = Some (snd (light_grays ! i))"
    "map_of root_grays (''--gray-'' @ gray_shades ! i) = Some (snd (root_grays ! i))"
  by (rule all_shades[OF _ assms], code_simp)+

lemma shade_on_eq:
  assumes "i < length gray_shades"
  shows "shade_on p i = Some (snd ((if data_theme p = ''light'' then light_grays else root_grays) ! i))"
  unfolding shade_on_def shade_reference[OF assms] option.case css_variable_def shade_variable[OF assms] by simp

lemma grays_mirrored:
  assumes "i < length gray_shades"
  shows "snd (light_grays ! i) = snd (root_grays ! (10 - i))" "snd (root_grays ! i) = snd (light_grays ! (10 - i))"
  by (rule all_shades[OF _ assms], code_simp)+

text \<open>The toggle mirrors the gray scale. On every page with the button, whatever its theme, a click
  gives each shade of the configured scale the colour its mirror image had, so that the lightest shade
  of one theme is the darkest of the other, and no shade is left without a colour.\<close>

theorem toggle_mirrors_grays:
  assumes "i < length gray_shades" "theme_button p"
  shows "shade_on (theme_click p) i = shade_on p (10 - i) \<and> shade_on p i \<noteq> None"
proof -
  have "10 - i < length gray_shades" by (simp add: gray_shades_def)
  moreover have "data_theme (theme_click p) = (if data_theme p = ''light'' then ''dark'' else ''light'')"
    using assms(2) by (simp add: theme_click_def render_theme_def Let_def)
  ultimately show ?thesis using assms(1) grays_mirrored[OF assms(1)] by (simp add: shade_on_eq)
qed

theorem toggle_mirrors_grays_witness:
  "\<exists>p. data_theme p = ''dark'' \<and> shade_on p 10 = Some (3, 7, 18) \<and> shade_on (theme_click p) 10 = Some (249, 250, 251)"
proof -
  let ?p = "\<lparr>local_storage = Map.empty, data_theme = ''dark'', data_sidebar = '''', theme_button = True, theme_icon = Moon, theme_title = '''',
     sidebar_buttons = False, collapsed = False\<rparr> :: page"
  have i: "10 < length gray_shades" "0 < length gray_shades" by (simp_all add: gray_shades_def)
  have "shade_on ?p 10 = Some (3, 7, 18)" "shade_on ?p 0 = Some (249, 250, 251)"
    unfolding shade_on_eq[OF i(1)] shade_on_eq[OF i(2)] by (simp_all add: root_grays_def)
  then show ?thesis using toggle_mirrors_grays[OF i(1), of ?p] by (intro exI[of _ ?p]) simp
qed

end
