(* ===== verification/Combobox.thy ===== *)
theory Combobox
  imports Prelude
begin

text \<open>
  \<^verbatim>\<open>web/static/combobox.js\<close>: the searchable dropdown. The state is what the closure of
  \<^verbatim>\<open>attachCombobox\<close> and the elements it writes hold; one definition per inner function and one
  handler per event listener. \<^term>\<open>getOptions\<close> is the page's callback: each handler that calls
  it receives the list it returns.
\<close>

section \<open>State\<close>

text \<open>A chip carries the text and the \<^verbatim>\<open>data-name\<close> attribute as written into the HTML.\<close>
record chip =
  chip_text :: string
  chip_data_name :: string

record combobox =
  multi :: bool
  input_value :: string
  hidden_value :: string            \<comment> \<open>the hidden CSV input\<close>
  chips :: "chip list"
  chips_sel :: "string list"        \<comment> \<open>the selection the chips' click handlers captured\<close>
  panel_html :: "string list"       \<comment> \<open>the option buttons of the panel\<close>
  panel_hidden :: bool
  currentOptions :: "string list"
  highlighted :: int
  marked :: "bool list"             \<comment> \<open>which option buttons carry the highlight class\<close>
  on_select :: "string list"        \<comment> \<open>the calls made to \<^verbatim>\<open>onSelect\<close>\<close>

definition escape_char :: "char \<Rightarrow> string" where
  "escape_char c =
    (if c = CHR ''&'' then ''&amp;''
     else if c = CHR ''<'' then ''&lt;''
     else if c = CHR ''>'' then ''&gt;''
     else if c = CHR 0x22 then ''&quot;''
     else [c])"

definition escapeHtml :: "string \<Rightarrow> string" where
  "escapeHtml s = concat (map escape_char s)"

text \<open>The browser's reading of character references, for the four the page writes.\<close>
fun html_decode :: "string \<Rightarrow> string" where
  "html_decode [] = []"
| "html_decode (c # s) =
    (if c \<noteq> CHR ''&'' then c # html_decode s
     else if has_prefix s ''amp;'' then CHR ''&'' # html_decode (drop 4 s)
     else if has_prefix s ''lt;'' then CHR ''<'' # html_decode (drop 3 s)
     else if has_prefix s ''gt;'' then CHR ''>'' # html_decode (drop 3 s)
     else if has_prefix s ''quot;'' then CHR 0x22 # html_decode (drop 5 s)
     else c # html_decode s)"

section \<open>The inner functions\<close>

definition csv_values :: "string \<Rightarrow> string list" where
  "csv_values csv = filter (\<lambda>s. s \<noteq> '''') (map trim_space (split_on CHR '','' csv))"

definition selected :: "combobox \<Rightarrow> string list" where
  "selected cb = (if \<not> multi cb then [] else csv_values (hidden_value cb))"

definition renderChips :: "combobox \<Rightarrow> combobox" where
  "renderChips cb =
    (if \<not> multi cb then cb
     else (let sel = selected cb
       in cb\<lparr>chips := map (\<lambda>name. \<lparr>chip_text = escapeHtml name, chip_data_name = escapeHtml name\<rparr>) sel,
             chips_sel := sel\<rparr>))"

text \<open>A click on the remove button of chip \<^term>\<open>i\<close>.\<close>
definition remove_chip :: "nat \<Rightarrow> combobox \<Rightarrow> combobox" where
  "remove_chip i cb =
    (if i < length (chips cb)
     then renderChips (cb\<lparr>hidden_value := join_with '',''
            (filter (\<lambda>n. n \<noteq> html_decode (chip_data_name (chips cb ! i))) (chips_sel cb))\<rparr>)
     else cb)"

definition highlight :: "combobox \<Rightarrow> combobox" where
  "highlight cb = cb\<lparr>marked := map (\<lambda>i. int i = highlighted cb) [0..<length (panel_html cb)]\<rparr>"

definition open_panel :: "string list \<Rightarrow> combobox \<Rightarrow> combobox" where
  "open_panel options cb =
    (let query = to_lower (trim_space (input_value cb));
         sel = selected cb;
         current = take 8 (filter (\<lambda>opt. opt \<notin> set sel \<and> str_contains (to_lower opt) query) options);
         cb' = cb\<lparr>currentOptions := current, highlighted := -1\<rparr>
     in if current = [] then cb'\<lparr>panel_hidden := True\<rparr>
        else cb'\<lparr>panel_html := map escapeHtml current, marked := map (\<lambda>_. False) current,
                 panel_hidden := False\<rparr>)"

definition close_panel :: "combobox \<Rightarrow> combobox" where
  "close_panel cb = cb\<lparr>panel_hidden := True\<rparr>"

definition pick :: "string \<Rightarrow> combobox \<Rightarrow> combobox" where
  "pick v cb =
    close_panel
     (if multi cb then
        (let sel = selected cb;
             cb' = (if v \<notin> set sel
                    then renderChips (cb\<lparr>hidden_value := join_with '','' (sel @ [v])\<rparr>)
                    else cb)
         in cb'\<lparr>input_value := ''''\<rparr>)
      else cb\<lparr>input_value := v, on_select := on_select cb @ [v]\<rparr>)"

definition keydown :: "string \<Rightarrow> combobox \<Rightarrow> combobox" where
  "keydown key cb =
    (if panel_hidden cb then cb
     else if key = ''ArrowDown'' then
       highlight (cb\<lparr>highlighted := min (highlighted cb + 1) (int (length (currentOptions cb)) - 1)\<rparr>)
     else if key = ''ArrowUp'' then highlight (cb\<lparr>highlighted := max (highlighted cb - 1) 0\<rparr>)
     else if key = ''Enter'' then
       (if highlighted cb \<ge> 0 then pick (currentOptions cb ! nat (highlighted cb)) cb else cb)
     else if key = ''Escape'' then close_panel cb
     else cb)"

text \<open>The \<^verbatim>\<open>mousedown\<close> of option button \<^term>\<open>i\<close>, which only a visible panel receives.\<close>
definition mousedown :: "nat \<Rightarrow> combobox \<Rightarrow> combobox" where
  "mousedown i cb =
    (if \<not> panel_hidden cb \<and> i < length (panel_html cb) then pick (currentOptions cb ! i) cb else cb)"

definition attachCombobox :: "bool \<Rightarrow> string \<Rightarrow> string \<Rightarrow> combobox" where
  "attachCombobox is_multi value0 hidden0 =
    renderChips \<lparr>multi = is_multi, input_value = value0, hidden_value = hidden0, chips = [],
      chips_sel = [], panel_html = [], panel_hidden = True, currentOptions = [], highlighted = -1,
      marked = [], on_select = []\<rparr>"

section \<open>Events\<close>

datatype dom_event =
    Typed string "string list"   \<comment> \<open>the new text and what \<^verbatim>\<open>getOptions\<close> returns\<close>
  | Focus "string list"
  | Blur
  | Key string
  | MouseDown nat
  | ChipRemove nat
  | RefreshChips string          \<comment> \<open>the page rewrites the hidden input and calls \<^verbatim>\<open>refreshChips\<close>\<close>

fun on_event :: "dom_event \<Rightarrow> combobox \<Rightarrow> combobox" where
  "on_event (Typed s options) cb = open_panel options (cb\<lparr>input_value := s\<rparr>)"
| "on_event (Focus options) cb = open_panel options cb"
| "on_event Blur cb = close_panel cb"
| "on_event (Key k) cb = keydown k cb"
| "on_event (MouseDown i) cb = mousedown i cb"
| "on_event (ChipRemove i) cb = remove_chip i cb"
| "on_event (RefreshChips csv) cb = renderChips (cb\<lparr>hidden_value := csv\<rparr>)"

definition run_events :: "dom_event list \<Rightarrow> combobox \<Rightarrow> combobox" where
  "run_events evs cb = fold on_event evs cb"

section \<open>Escaping\<close>

lemma html_decode_escape: "html_decode (escape_char c @ s) = c # html_decode s"
  by (simp add: escape_char_def has_prefix_def)

lemma html_decode_escapeHtml [simp]: "html_decode (escapeHtml s) = s"
proof (induction s)
  case (Cons c s)
  have "escapeHtml (c # s) = escape_char c @ escapeHtml s" by (simp add: escapeHtml_def)
  then show ?case using Cons html_decode_escape by simp
qed (simp add: escapeHtml_def)

text \<open>what the combobox writes into the page cannot break out of its element or attribute: an
  escaped name has no angle bracket and no double quote, and the browser reads it back as the name
  itself, so a chip's button removes exactly the name it shows.\<close>
theorem escapeHtml_safe:
  "CHR ''<'' \<notin> set (escapeHtml s) \<and> CHR ''>'' \<notin> set (escapeHtml s) \<and> CHR 0x22 \<notin> set (escapeHtml s)
   \<and> html_decode (escapeHtml s) = s"
proof -
  have "\<forall>c \<in> set (escape_char d). c \<noteq> CHR ''<'' \<and> c \<noteq> CHR ''>'' \<and> c \<noteq> CHR 0x22" for d
    by (auto simp: escape_char_def)
  then show ?thesis by (fastforce simp: escapeHtml_def[of s] html_decode_escapeHtml[unfolded escapeHtml_def])
qed

section \<open>The hidden list\<close>

text \<open>A value the CSV field can hold: no comma, no surrounding blanks, not empty.\<close>
definition csv_item :: "string \<Rightarrow> bool" where
  "csv_item s \<longleftrightarrow> CHR '','' \<notin> set s \<and> trim_space s = s \<and> s \<noteq> ''''"

lemma split_join:
  "xs \<noteq> [] \<Longrightarrow> (\<forall>x \<in> set xs. c \<notin> set x) \<Longrightarrow> split_on c (join_with [c] xs) = xs"
  by (induction "[c]" xs rule: join_with.induct) auto

lemma csv_values_join: "(\<forall>x \<in> set xs. csv_item x) \<Longrightarrow> csv_values (join_with '','' xs) = xs"
proof (cases "xs = []")
  case True
  then show ?thesis by (simp add: csv_values_def trim_space_def)
next
  case False
  assume "\<forall>x \<in> set xs. csv_item x"
  then have "split_on CHR '','' (join_with '','' xs) = xs"
    using False by (intro split_join) (auto simp: csv_item_def)
  moreover have "map trim_space xs = xs" "filter (\<lambda>s. s \<noteq> '''') xs = xs"
    using \<open>\<forall>x \<in> set xs. csv_item x\<close> by (auto simp: csv_item_def map_idI filter_id_conv)
  ultimately show ?thesis by (simp add: csv_values_def)
qed

lemma csv_values_items: "v \<in> set (csv_values s) \<Longrightarrow> csv_item v"
proof -
  have "set (trim_space t) \<subseteq> set t" for t
    unfolding trim_space_def by (metis set_dropWhileD set_rev subsetI)
  then show "v \<in> set (csv_values s) \<Longrightarrow> csv_item v"
    using split_on_free[of _ "CHR '',''" s] by (auto simp: csv_values_def csv_item_def trim_space_idem)
qed

section \<open>Invariant\<close>

definition chip_for :: "string \<Rightarrow> chip" where
  "chip_for name = \<lparr>chip_text = escapeHtml name, chip_data_name = escapeHtml name\<rparr>"

definition combobox_inv :: "combobox \<Rightarrow> bool" where
  "combobox_inv cb \<longleftrightarrow>
     length (currentOptions cb) \<le> 8
     \<and> (\<forall>v \<in> set (currentOptions cb). csv_item v)
     \<and> (\<not> panel_hidden cb \<longrightarrow> currentOptions cb \<noteq> [] \<and> panel_html cb = map escapeHtml (currentOptions cb)
          \<and> -1 \<le> highlighted cb \<and> highlighted cb < int (length (currentOptions cb))
          \<and> marked cb = map (\<lambda>i. int i = highlighted cb) [0..<length (panel_html cb)])
     \<and> distinct (selected cb)
     \<and> (multi cb \<longrightarrow> chips_sel cb = selected cb \<and> chips cb = map chip_for (selected cb))"

text \<open>The pages offer container and stack names, and rewrite the hidden list without repeats.\<close>
fun event_ok :: "dom_event \<Rightarrow> bool" where
  "event_ok (Typed s options) = (\<forall>v \<in> set options. csv_item v)"
| "event_ok (Focus options) = (\<forall>v \<in> set options. csv_item v)"
| "event_ok (RefreshChips csv) = distinct (csv_values csv)"
| "event_ok _ = True"

lemma selected_sel [simp]:
  "selected (cb\<lparr>input_value := a\<rparr>) = selected cb"
  "selected (cb\<lparr>panel_hidden := b\<rparr>) = selected cb"
  "selected (cb\<lparr>panel_html := h\<rparr>) = selected cb"
  "selected (cb\<lparr>highlighted := i\<rparr>) = selected cb"
  "selected (cb\<lparr>marked := m\<rparr>) = selected cb"
  "selected (cb\<lparr>currentOptions := os\<rparr>) = selected cb"
  "selected (cb\<lparr>chips := c\<rparr>) = selected cb"
  "selected (cb\<lparr>chips_sel := l\<rparr>) = selected cb"
  "selected (cb\<lparr>on_select := l\<rparr>) = selected cb"
  by (simp_all add: selected_def)

lemma selected_set_hidden:
  "multi cb \<Longrightarrow> selected (cb\<lparr>hidden_value := csv\<rparr>) = csv_values csv"
  by (simp add: selected_def)

lemma renderChips_simps [simp]:
  "selected (renderChips cb) = selected cb" "multi (renderChips cb) = multi cb"
  "panel_hidden (renderChips cb) = panel_hidden cb"
  "currentOptions (renderChips cb) = currentOptions cb"
  "panel_html (renderChips cb) = panel_html cb"
  "highlighted (renderChips cb) = highlighted cb" "marked (renderChips cb) = marked cb" "hidden_value (renderChips cb) = hidden_value cb"
  "multi cb \<Longrightarrow> chips_sel (renderChips cb) = selected cb"
  "multi cb \<Longrightarrow> chips (renderChips cb) = map chip_for (selected cb)"
  by (simp_all add: renderChips_def Let_def chip_for_def)

lemma selected_after_pick:
  assumes "multi cb" "csv_item v"
  shows "selected (pick v cb) = (if v \<in> set (selected cb) then selected cb else selected cb @ [v])"
proof -
  have "\<forall>x \<in> set (selected cb @ [v]). csv_item x"
    using assms csv_values_items by (auto simp: selected_def)
  then have "csv_values (join_with '','' (selected cb @ [v])) = selected cb @ [v]"
    by (rule csv_values_join)
  then show ?thesis
    using assms(1) by (simp add: pick_def close_panel_def Let_def selected_set_hidden)
qed

lemma selected_after_remove:
  assumes "combobox_inv cb" "multi cb" "i < length (chips cb)"
  shows "selected (remove_chip i cb) = filter (\<lambda>n. n \<noteq> selected cb ! i) (selected cb)"
proof -
  have "chips cb ! i = chip_for (selected cb ! i)" "chips_sel cb = selected cb"
    using assms by (auto simp: combobox_inv_def)
  moreover have "\<forall>x \<in> set (filter (\<lambda>n. n \<noteq> selected cb ! i) (selected cb)). csv_item x"
    using csv_values_items assms(2) by (auto simp: selected_def)
  ultimately show ?thesis
    using assms csv_values_join
    by (simp add: remove_chip_def selected_set_hidden chip_for_def)
qed

lemma none_marked: "map (\<lambda>i. int i = -1) [0..<length xs] = map (\<lambda>_. False) xs"
  by (rule nth_equalityI) simp_all

lemma inv_open:
  "combobox_inv cb \<Longrightarrow> \<forall>v \<in> set options. csv_item v \<Longrightarrow> combobox_inv (open_panel options cb)"
  using none_marked[of "take 8 (filter (\<lambda>opt. opt \<notin> set (selected cb)
      \<and> str_contains (to_lower opt) (to_lower (trim_space (input_value cb)))) options)"]
  by (auto simp: combobox_inv_def open_panel_def Let_def dest!: in_set_takeD split: if_splits)

lemma inv_close: "combobox_inv cb \<Longrightarrow> combobox_inv (close_panel cb)"
  by (simp add: combobox_inv_def close_panel_def)

lemma inv_pick:
  assumes "combobox_inv cb" "csv_item v"
  shows "combobox_inv (pick v cb)"
proof (cases "multi cb")
  case True
  have "distinct (selected (pick v cb))"
    using selected_after_pick[OF True assms(2)] assms(1) by (simp add: combobox_inv_def)
  then show ?thesis
    using assms(1) True
    by (auto simp: combobox_inv_def pick_def close_panel_def Let_def)
next
  case False
  then show ?thesis
    using assms(1) by (simp add: combobox_inv_def pick_def close_panel_def)
qed


lemma inv_keydown: "combobox_inv cb \<Longrightarrow> combobox_inv (keydown k cb)"
proof -
  assume inv: "combobox_inv cb"
  have enter: "0 \<le> highlighted cb \<Longrightarrow> \<not> panel_hidden cb \<Longrightarrow>
      combobox_inv (pick (currentOptions cb ! nat (highlighted cb)) cb)"
    using inv by (intro inv_pick) (auto simp: combobox_inv_def)
  have mark: "combobox_inv (highlight (cb\<lparr>highlighted := h\<rparr>))"
    if "-1 \<le> h" "h < int (length (currentOptions cb))" for h
    using inv that by (auto simp: combobox_inv_def highlight_def)
  have range: "\<not> panel_hidden cb \<Longrightarrow> currentOptions cb \<noteq> [] \<and> -1 \<le> highlighted cb
      \<and> highlighted cb < int (length (currentOptions cb))"
    using inv by (simp add: combobox_inv_def)
  show ?thesis
  proof (cases "panel_hidden cb")
    case False
    then have r: "0 < length (currentOptions cb)" "-1 \<le> highlighted cb"
        "highlighted cb < int (length (currentOptions cb))"
      using range by auto
    have "combobox_inv (highlight (cb\<lparr>highlighted := min (highlighted cb + 1) (int (length (currentOptions cb)) - 1)\<rparr>))"
      using r by (intro mark) linarith+
    moreover have "combobox_inv (highlight (cb\<lparr>highlighted := max (highlighted cb - 1) 0\<rparr>))"
      using r by (intro mark) linarith+
    ultimately show ?thesis
      using inv enter[OF _ False] inv_close[OF inv] by (simp add: keydown_def)
  qed (simp add: keydown_def inv)
qed

lemma inv_mousedown: "combobox_inv cb \<Longrightarrow> combobox_inv (mousedown i cb)"
proof (cases "\<not> panel_hidden cb \<and> i < length (panel_html cb)")
  case True
  assume inv: "combobox_inv cb"
  then have "csv_item (currentOptions cb ! i)" using True by (auto simp: combobox_inv_def)
  from inv_pick[OF inv this] show ?thesis using True by (simp add: mousedown_def)
qed (auto simp: mousedown_def)

lemma inv_remove: "combobox_inv cb \<Longrightarrow> combobox_inv (remove_chip i cb)"
proof (cases "multi cb \<and> i < length (chips cb)")
  case True
  assume inv: "combobox_inv cb"
  then have sel: "selected (remove_chip i cb) = filter (\<lambda>n. n \<noteq> selected cb ! i) (selected cb)"
    using True selected_after_remove by blast
  show ?thesis
    using inv True sel
    by (auto simp: combobox_inv_def remove_chip_def)
next
  case False
  assume inv: "combobox_inv cb"
  show ?thesis
  proof (cases "multi cb")
    case True
    then show ?thesis using False inv by (simp add: remove_chip_def)
  next
    case single: False
    then have sel: "selected (cb\<lparr>hidden_value := h\<rparr>) = selected cb" for h by (simp add: selected_def)
    show ?thesis
      using inv single by (auto simp: combobox_inv_def remove_chip_def sel)
  qed
qed

lemma inv_refresh:
  assumes "combobox_inv cb" "distinct (csv_values csv)"
  shows "combobox_inv (renderChips (cb\<lparr>hidden_value := csv\<rparr>))"
proof (cases "multi cb")
  case True
  then show ?thesis
    using assms by (auto simp: combobox_inv_def selected_set_hidden)
next
  case False
  then have "selected (cb\<lparr>hidden_value := csv\<rparr>) = selected cb" by (simp add: selected_def)
  then show ?thesis using assms False by (auto simp: combobox_inv_def)
qed

lemma inv_event: "combobox_inv cb \<Longrightarrow> event_ok ev \<Longrightarrow> combobox_inv (on_event ev cb)"
proof (cases ev)
  case (Typed s options)
  assume "combobox_inv cb" "event_ok ev"
  then have "combobox_inv (cb\<lparr>input_value := s\<rparr>)" by (simp add: combobox_inv_def)
  then show ?thesis using Typed \<open>event_ok ev\<close> by (simp add: inv_open)
qed (simp_all add: inv_open inv_close inv_keydown inv_mousedown inv_remove inv_refresh)

lemma inv_attach:
  "distinct (csv_values hidden0) \<Longrightarrow> combobox_inv (attachCombobox m value0 hidden0)"
  by (auto simp: attachCombobox_def combobox_inv_def selected_def)

lemma inv_run: "combobox_inv cb \<Longrightarrow> \<forall>ev \<in> set evs. event_ok ev \<Longrightarrow> combobox_inv (run_events evs cb)"
  by (induction evs arbitrary: cb) (auto simp: run_events_def inv_event)

section \<open>What an event does to the choice\<close>

text \<open>The dropdown took \<^term>\<open>v\<close>: a multi-select appends it once, the other kind shows it and
  reports it to the page. Or it took nothing.\<close>
definition chosen :: "string \<Rightarrow> combobox \<Rightarrow> combobox \<Rightarrow> bool" where
  "chosen v cb cb' \<longleftrightarrow> panel_hidden cb' \<and>
    (if multi cb
     then selected cb' = (if v \<in> set (selected cb) then selected cb else selected cb @ [v])
       \<and> input_value cb' = '''' \<and> on_select cb' = on_select cb
     else input_value cb' = v \<and> on_select cb' = on_select cb @ [v])"

definition unchosen :: "combobox \<Rightarrow> combobox \<Rightarrow> bool" where
  "unchosen cb cb' \<longleftrightarrow> selected cb' = selected cb \<and> on_select cb' = on_select cb"

text \<open>Option \<^term>\<open>i\<close> as the user reads it on the open panel, if it is there.\<close>
definition shown_option :: "combobox \<Rightarrow> nat \<Rightarrow> string option" where
  "shown_option cb i = (if panel_hidden cb \<or> length (panel_html cb) \<le> i then None
     else Some (html_decode (panel_html cb ! i)))"

definition marked_option :: "combobox \<Rightarrow> nat \<Rightarrow> bool" where
  "marked_option cb i \<longleftrightarrow> shown_option cb i \<noteq> None \<and> marked cb ! i"

definition choice_effect :: "dom_event \<Rightarrow> combobox \<Rightarrow> combobox \<Rightarrow> bool" where
  "choice_effect ev cb cb' \<longleftrightarrow>
    (case ev of
       MouseDown i \<Rightarrow> (case shown_option cb i of None \<Rightarrow> cb' = cb | Some v \<Rightarrow> chosen v cb cb')
     | Key k \<Rightarrow>
         (if k = ''Enter'' \<and> (\<exists>i. marked_option cb i)
          then \<exists>i v. (\<forall>j. marked_option cb j \<longleftrightarrow> j = i) \<and> shown_option cb i = Some v \<and> chosen v cb cb'
          else unchosen cb cb' \<and> input_value cb' = input_value cb)
     | ChipRemove i \<Rightarrow> on_select cb' = on_select cb \<and> (multi cb \<longrightarrow>
         (if i < length (chips cb)
          then selected cb' = filter (\<lambda>n. n \<noteq> html_decode (chip_data_name (chips cb ! i))) (selected cb)
          else cb' = cb))
     | RefreshChips csv \<Rightarrow> on_select cb' = on_select cb \<and> (multi cb \<longrightarrow> selected cb' = csv_values csv)
     | Typed s options \<Rightarrow> unchosen cb cb' \<and> input_value cb' = s
     | _ \<Rightarrow> unchosen cb cb' \<and> input_value cb' = input_value cb)"

lemma shown_option_inv:
  assumes "combobox_inv cb" "\<not> panel_hidden cb"
  shows "shown_option cb i = (if i < length (currentOptions cb) then Some (currentOptions cb ! i) else None)"
  using assms by (auto simp: combobox_inv_def shown_option_def)

lemma marked_option_inv:
  assumes "combobox_inv cb"
  shows "marked_option cb i \<longleftrightarrow> \<not> panel_hidden cb \<and> 0 \<le> highlighted cb \<and> i = nat (highlighted cb)"
proof (cases "panel_hidden cb")
  case False
  then have "length (panel_html cb) = length (currentOptions cb)" "highlighted cb < int (length (currentOptions cb))"
    "marked cb = map (\<lambda>i. int i = highlighted cb) [0..<length (panel_html cb)]"
    using assms by (auto simp: combobox_inv_def)
  then show ?thesis using False shown_option_inv[OF assms False, of i] by (auto simp: marked_option_def)
qed (simp add: marked_option_def shown_option_def)

lemma pick_chosen: "multi cb \<longrightarrow> csv_item v \<Longrightarrow> chosen v cb (pick v cb)"
proof (cases "multi cb")
  case True
  assume "multi cb \<longrightarrow> csv_item v"
  then show ?thesis using True selected_after_pick[OF True, of v]
    by (auto simp: chosen_def pick_def close_panel_def renderChips_def Let_def)
qed (simp add: chosen_def pick_def close_panel_def)

lemma keydown_effect:
  assumes "combobox_inv cb"
  shows "choice_effect (Key k) cb (keydown k cb)"
proof (cases "panel_hidden cb \<or> k \<noteq> ''Enter''")
  case True
  then have "unchosen cb (keydown k cb) \<and> input_value (keydown k cb) = input_value cb"
    by (auto simp: keydown_def unchosen_def highlight_def close_panel_def)
  then show ?thesis using True marked_option_inv[OF assms] by (auto simp: choice_effect_def)
next
  case False
  show ?thesis
  proof (cases "0 \<le> highlighted cb")
    case True
    let ?v = "currentOptions cb ! nat (highlighted cb)"
    have r: "nat (highlighted cb) < length (currentOptions cb)" "csv_item ?v"
      using assms False True by (auto simp: combobox_inv_def)
    have k: "keydown k cb = pick ?v cb" using False True by (simp add: keydown_def)
    have "\<forall>j. marked_option cb j \<longleftrightarrow> j = nat (highlighted cb)" "shown_option cb (nat (highlighted cb)) = Some ?v"
      using False True r(1) marked_option_inv[OF assms] shown_option_inv[OF assms] by auto
    moreover have "chosen ?v cb (keydown k cb)" unfolding k using r(2) by (simp add: pick_chosen)
    ultimately show ?thesis using False unfolding choice_effect_def by auto
  next
    case neg: False
    then have "keydown k cb = cb" using False by (simp add: keydown_def)
    then show ?thesis using neg marked_option_inv[OF assms] by (simp add: choice_effect_def unchosen_def)
  qed
qed

lemma mousedown_effect:
  assumes "combobox_inv cb"
  shows "choice_effect (MouseDown i) cb (mousedown i cb)"
proof (cases "\<not> panel_hidden cb \<and> i < length (panel_html cb)")
  case True
  then have r: "i < length (currentOptions cb)" "csv_item (currentOptions cb ! i)"
    using assms by (auto simp: combobox_inv_def)
  then show ?thesis using True shown_option_inv[OF assms, of i] pick_chosen
    by (simp add: choice_effect_def mousedown_def)
next
  case False
  then show ?thesis by (auto simp: choice_effect_def shown_option_def mousedown_def)
qed

lemma remove_effect:
  assumes "combobox_inv cb"
  shows "choice_effect (ChipRemove i) cb (remove_chip i cb)"
proof -
  have "on_select (remove_chip i cb) = on_select cb" by (simp add: remove_chip_def renderChips_def Let_def)
  moreover have "selected (remove_chip i cb) = filter (\<lambda>n. n \<noteq> html_decode (chip_data_name (chips cb ! i))) (selected cb)"
    if "multi cb" "i < length (chips cb)"
    using selected_after_remove[OF assms that] assms that by (auto simp: combobox_inv_def chip_for_def)
  ultimately show ?thesis by (auto simp: choice_effect_def remove_chip_def)
qed

lemma event_effect: "combobox_inv cb \<Longrightarrow> choice_effect ev cb (on_event ev cb)"
proof (cases ev)
  case (Key k)
  then show "combobox_inv cb \<Longrightarrow> ?thesis" by (simp add: keydown_effect)
next
  case (MouseDown i)
  then show "combobox_inv cb \<Longrightarrow> ?thesis" by (simp add: mousedown_effect)
next
  case (ChipRemove i)
  then show "combobox_inv cb \<Longrightarrow> ?thesis" by (simp add: remove_effect)
next
  case (RefreshChips csv)
  have "on_select (renderChips cb') = on_select cb'" for cb' by (simp add: renderChips_def Let_def)
  then show ?thesis using RefreshChips by (simp add: choice_effect_def selected_set_hidden)
qed (simp_all add: choice_effect_def unchosen_def open_panel_def close_panel_def Let_def)

lemma enter_takes:
  assumes "choice_effect (Key ''Enter'') cb cb'" "marked_option cb i" "shown_option cb i = Some v"
  shows "chosen v cb cb'"
proof -
  have "\<exists>i v. (\<forall>j. marked_option cb j \<longleftrightarrow> j = i) \<and> shown_option cb i = Some v \<and> chosen v cb cb'"
    using assms(1,2) unfolding choice_effect_def by (auto split: if_splits)
  then show ?thesis using assms(2,3) by (metis option.inject)
qed

lemma enter_keeps: "choice_effect (Key ''Enter'') cb cb' \<Longrightarrow> \<forall>i. \<not> marked_option cb i \<Longrightarrow> unchosen cb cb'"
  unfolding choice_effect_def by auto

lemma not_marked: "\<forall>i < length (panel_html cb). \<not> marked cb ! i \<Longrightarrow> \<forall>i. \<not> marked_option cb i"
  by (simp add: marked_option_def shown_option_def)

section \<open>Properties\<close>

text \<open>C38: whatever the user has done, while the panel is shown it is not empty, its buttons are
  exactly the current options, at most eight, and the highlighted index is either none or one of
  them; the chips always show the stored selection, which has no repeats. And whatever the user
  does next, the choice changes in these ways only: pressing the mouse on an option takes the
  option the panel shows there; Enter takes the option that is marked on the panel and, when none
  is, nothing; removing a chip takes out the name on the chip; and the page may rewrite the list.\<close>
theorem combobox_always_consistent:
  assumes "\<forall>ev \<in> set evs. event_ok ev" "distinct (csv_values hidden0)"
  shows "let cb = run_events evs (attachCombobox m value0 hidden0)
    in (\<not> panel_hidden cb \<longrightarrow> currentOptions cb \<noteq> [] \<and> length (currentOptions cb) \<le> 8
          \<and> map html_decode (panel_html cb) = currentOptions cb
          \<and> -1 \<le> highlighted cb \<and> highlighted cb < int (length (currentOptions cb))
          \<and> marked cb = map (\<lambda>i. int i = highlighted cb) [0..<length (panel_html cb)])
       \<and> distinct (selected cb)
       \<and> (multi cb \<longrightarrow> map (\<lambda>c. html_decode (chip_data_name c)) (chips cb) = selected cb)
       \<and> choice_effect ev cb (on_event ev cb)"
proof -
  have "combobox_inv (run_events evs (attachCombobox m value0 hidden0))"
    using assms inv_run inv_attach by blast
  then show ?thesis by (auto simp: combobox_inv_def Let_def comp_def chip_for_def event_effect)
qed

definition sample_run :: "dom_event list" where
  "sample_run = [Focus [''nginx'', ''a<b''], Key ''ArrowDown'', Key ''ArrowDown'']"

theorem combobox_always_consistent_witness:
  "selected (run_events [Focus [''nginx'', ''a<b''], Key ''ArrowDown'', Key ''ArrowDown'', Key ''Enter'']
      (attachCombobox True '''' ''redis'')) = [''redis'', ''a<b'']
   \<and> selected (run_events [Focus [''nginx'', ''a<b''], Key ''Enter''] (attachCombobox True '''' ''redis'')) = [''redis'']"
proof
  let ?cb = "attachCombobox True '''' ''redis''"
  have item: "csv_item ''nginx''" "csv_item ''a<b''" by code_simp+
  have dist: "distinct (csv_values ''redis'')" by code_simp
  have ok: "\<forall>ev \<in> set sample_run. event_ok ev" "\<forall>ev \<in> set [Focus [''nginx'', ''a<b'']]. event_ok ev"
    using item by (simp_all add: sample_run_def)
  let ?c = "run_events sample_run ?cb"
  have "choice_effect (Key ''Enter'') ?c (on_event (Key ''Enter'') ?c)"
    using combobox_always_consistent[OF ok(1) dist, of True "''''" "Key ''Enter''"] unfolding Let_def by blast
  moreover have "marked_option ?c 1" "shown_option ?c 1 = Some ''a<b''" by code_simp+
  ultimately have "chosen ''a<b'' ?c (on_event (Key ''Enter'') ?c)" by (rule enter_takes)
  moreover have "multi ?c" "selected ?c = [''redis'']" by code_simp+
  ultimately have "selected (on_event (Key ''Enter'') ?c) = [''redis'', ''a<b'']" by (simp add: chosen_def del: on_event.simps)
  then show "selected (run_events [Focus [''nginx'', ''a<b''], Key ''ArrowDown'', Key ''ArrowDown'', Key ''Enter''] ?cb)
      = [''redis'', ''a<b'']" by (simp add: sample_run_def run_events_def del: on_event.simps)
  let ?d = "run_events [Focus [''nginx'', ''a<b'']] ?cb"
  have "choice_effect (Key ''Enter'') ?d (on_event (Key ''Enter'') ?d)"
    using combobox_always_consistent[OF ok(2) dist, of True "''''" "Key ''Enter''"] unfolding Let_def by blast
  moreover have "\<forall>i < length (panel_html ?d). \<not> marked ?d ! i" by code_simp
  ultimately have "unchosen ?d (on_event (Key ''Enter'') ?d)" by (intro enter_keeps not_marked)
  moreover have "selected ?d = [''redis'']" by code_simp
  ultimately have "selected (on_event (Key ''Enter'') ?d) = [''redis'']" by (simp add: unchosen_def del: on_event.simps)
  then show "selected (run_events [Focus [''nginx'', ''a<b''], Key ''Enter''] ?cb) = [''redis'']"
    by (simp add: run_events_def del: on_event.simps)
qed

text \<open>the panel offers the first eight options that contain the typed text, ignoring case and
  surrounding blanks, and that are not selected yet, in the order the page gave them; it is hidden
  exactly when there is none, and nothing is highlighted.\<close>
theorem combobox_offers:
  "(let cb' = on_event (Typed s options) cb;
        wanted = filter (\<lambda>opt. opt \<notin> set (selected cb)
                   \<and> str_contains (to_lower opt) (to_lower (trim_space s))) options
    in currentOptions cb' = take 8 wanted
       \<and> panel_hidden cb' = (wanted = [])
       \<and> (wanted \<noteq> [] \<longrightarrow> map html_decode (panel_html cb') = take 8 wanted)
       \<and> highlighted cb' = -1 \<and> selected cb' = selected cb)"
  by (auto simp: open_panel_def Let_def comp_def)

theorem combobox_offers_witness:
  "currentOptions (on_event (Typed '' DB '' [''web'', ''my-db'', ''dbadmin''])
      (attachCombobox True '''' ''my-db'')) = [''dbadmin'']"
proof -
  have "currentOptions (on_event (Typed '' DB '' [''web'', ''my-db'', ''dbadmin''])
      (attachCombobox True '''' ''my-db'')) =
    take 8 (filter (\<lambda>opt. opt \<notin> set (selected (attachCombobox True '''' ''my-db''))
      \<and> str_contains (to_lower opt) (to_lower (trim_space '' DB ''))) [''web'', ''my-db'', ''dbadmin''])"
    using combobox_offers[of "'' DB ''" "[''web'', ''my-db'', ''dbadmin'']"] unfolding Let_def by blast
  also have "\<dots> = [''dbadmin'']" by code_simp
  finally show ?thesis .
qed

text \<open>picking and removing in a multi-select round-trip through the hidden comma-separated
  field: a picked name is appended once, removing a chip takes out exactly that name, and so
  picking a new name and removing its chip restores the selection.\<close>
theorem combobox_pick_remove:
  assumes "combobox_inv cb" "multi cb" "csv_item v" "v \<notin> set (selected cb)"
  shows "selected (pick v cb) = selected cb @ [v]
    \<and> selected (remove_chip (length (selected cb)) (pick v cb)) = selected cb"
proof -
  have sel: "selected (pick v cb) = selected cb @ [v]" using selected_after_pick assms by simp
  have inv: "combobox_inv (pick v cb)" by (rule inv_pick[OF assms(1,3)])
  have m: "multi (pick v cb)" using assms(2) by (simp add: pick_def close_panel_def Let_def)
  then have "length (selected cb) < length (chips (pick v cb))"
    using inv sel by (simp add: combobox_inv_def)
  from selected_after_remove[OF inv m this] show ?thesis
    using sel assms(4) by (auto simp: filter_id_conv)
qed

theorem combobox_pick_remove_witness:
  "selected (pick ''db'' (attachCombobox True '''' ''redis'')) = [''redis'', ''db'']"
proof -
  have inv: "combobox_inv (attachCombobox True '''' ''redis'')" by (rule inv_attach) code_simp
  have sel: "selected (attachCombobox True '''' ''redis'') = [''redis'']" by code_simp
  have item: "csv_item ''db''" by code_simp
  have m: "multi (attachCombobox True '''' ''redis'')" by code_simp
  show ?thesis using combobox_pick_remove[OF inv m item] by (simp add: sel)
qed

end
