(* ===== verification/Stacks_Page.thy ===== *)
theory Stacks_Page
  imports Json Page_Prefs "HOL-Library.AList"
begin

text \<open>
  \<^verbatim>\<open>web/static/stacks.js\<close>: the three scripts of the Containers page. Collapsible stacks remember
  the collapsed set as a JSON object in local storage; the Updatable filter hides rows and empty
  stacks; the Update and Rollback buttons post in the background, show a spinner, and either reload
  the page or restore the button with an alert.
\<close>

section \<open>The document\<close>

record row =
  row_updatable :: string   \<comment> \<open>\<^verbatim>\<open>data-updatable\<close>\<close>
  row_hidden :: bool

record section_el =
  sec_name :: string        \<comment> \<open>\<^verbatim>\<open>data-stack\<close>\<close>
  sec_wired :: bool         \<comment> \<open>whether it has its toggle and body\<close>
  body_hidden :: bool
  chevron_rotated :: bool
  sec_hidden :: bool
  sec_rows :: "row list"

record stacks_page =
  sections :: "section_el list"
  state_obj :: "(string \<times> json) list"   \<comment> \<open>the closure variable \<^verbatim>\<open>state\<close>\<close>
  page_storage :: storage
  filter_active :: bool
  filter_text :: string
  filter_title :: string

section \<open>Collapsible stacks\<close>

definition stacks_key :: string where "stacks_key = ''doupro-collapsed-stacks''"

text \<open>JavaScript's conversion to a boolean.\<close>
fun truthy :: "json \<Rightarrow> bool" where
  "truthy JNull = False"
| "truthy (JBool b) = b"
| "truthy (JNum t) = (\<not> list_all (\<lambda>c. c \<in> {CHR ''-'', CHR ''0'', CHR ''.''})
     (takeWhile (\<lambda>c. c \<noteq> CHR ''e'' \<and> c \<noteq> CHR ''E'') t))"
| "truthy (JStr s) = (s \<noteq> '''')"
| "truthy (JArr vs) = True"
| "truthy (JObj ms) = True"

text \<open>What every plain object inherits.\<close>
definition object_prototype :: "string list" where
  "object_prototype = [''constructor'', ''__defineGetter__'', ''__defineSetter__'', ''hasOwnProperty'',
     ''__lookupGetter__'', ''__lookupSetter__'', ''isPrototypeOf'', ''propertyIsEnumerable'',
     ''toString'', ''valueOf'', ''__proto__'', ''toLocaleString'']"

definition prop_truthy :: "(string \<times> json) list \<Rightarrow> string \<Rightarrow> bool" where
  "prop_truthy obj name =
    (case json_get obj name of Some v \<Rightarrow> truthy v | None \<Rightarrow> name \<in> set object_prototype)"

text \<open>\<^verbatim>\<open>obj[name] = v\<close> for a boolean \<^term>\<open>v\<close>; the setter of \<^verbatim>\<open>__proto__\<close> ignores it.\<close>
definition prop_set :: "(string \<times> json) list \<Rightarrow> string \<Rightarrow> json \<Rightarrow> (string \<times> json) list" where
  "prop_set obj name v =
    (if name \<in> fst ` set obj then map (\<lambda>(k, w). if k = name then (k, v) else (k, w)) obj
     else if name = ''__proto__'' then obj
     else obj @ [(name, v)])"

definition loadState :: "storage \<Rightarrow> json" where
  "loadState st =
    (let text = (case st stacks_key of None \<Rightarrow> ''{}'' | Some t \<Rightarrow> if t = '''' then ''{}'' else t)
     in case json_parse text of None \<Rightarrow> JObj [] | Some v \<Rightarrow> v)"

definition saveState :: "(string \<times> json) list \<Rightarrow> storage \<Rightarrow> storage" where
  "saveState obj st = st(stacks_key \<mapsto> json_stringify (JObj obj))"

text \<open>The key is only ever written by \<^verbatim>\<open>saveState\<close>, so it holds an object.\<close>
definition object_members :: "json \<Rightarrow> (string \<times> json) list" where
  "object_members v = (case v of JObj ms \<Rightarrow> ms | _ \<Rightarrow> [])"

definition applyState :: "bool \<Rightarrow> section_el \<Rightarrow> section_el" where
  "applyState c s = s\<lparr>body_hidden := c, chevron_rotated := \<not> c\<rparr>"

definition wireStacks :: "stacks_page \<Rightarrow> stacks_page" where
  "wireStacks p =
    (let obj = object_members (loadState (page_storage p))
     in p\<lparr>state_obj := obj,
          sections := map (\<lambda>s. if sec_wired s then applyState (prop_truthy obj (sec_name s)) s else s)
            (sections p)\<rparr>)"

text \<open>A click on the toggle of section \<^term>\<open>i\<close>.\<close>
definition toggle_stack :: "nat \<Rightarrow> stacks_page \<Rightarrow> stacks_page" where
  "toggle_stack i p =
    (if i < length (sections p) \<and> sec_wired (sections p ! i)
     then (let s = sections p ! i;
               c = (\<not> prop_truthy (state_obj p) (sec_name s));
               obj = prop_set (state_obj p) (sec_name s) (JBool c)
           in p\<lparr>state_obj := obj, page_storage := saveState obj (page_storage p),
                sections := (sections p)[i := applyState c s]\<rparr>)
     else p)"

section \<open>The updatable filter\<close>

definition show_row :: "bool \<Rightarrow> row \<Rightarrow> bool" where
  "show_row act r \<longleftrightarrow> \<not> act \<or> row_updatable r = ''1''"

definition apply_filter :: "bool \<Rightarrow> section_el \<Rightarrow> section_el" where
  "apply_filter act s =
    (let visibleCount = length (filter (show_row act) (sec_rows s))
     in s\<lparr>sec_rows := map (\<lambda>r. r\<lparr>row_hidden := \<not> show_row act r\<rparr>) (sec_rows s),
          sec_hidden := (act \<and> visibleCount = 0)\<rparr>)"

definition filter_click :: "stacks_page \<Rightarrow> stacks_page" where
  "filter_click p =
    (let act = (\<not> filter_active p)
     in p\<lparr>filter_active := act,
          filter_text := (if act then ''All'' else ''Updatable''),
          filter_title := (if act then ''Show all containers''
                           else ''Show only containers with an update available''),
          sections := map (apply_filter act) (sections p)\<rparr>)"

section \<open>Update and rollback buttons\<close>

datatype dom_node = Element string "(string \<times> string) list" "dom_node list"

fun setAttribute :: "string \<Rightarrow> string \<Rightarrow> dom_node \<Rightarrow> dom_node" where
  "setAttribute k v (Element tag as ns) = Element tag (AList.update k v as) ns"

fun appendChild :: "dom_node \<Rightarrow> dom_node \<Rightarrow> dom_node" where
  "appendChild child (Element tag as ns) = Element tag as (ns @ [child])"

definition createDonutSpinner :: dom_node where
  "createDonutSpinner =
    (let svg = setAttribute ''fill'' ''none'' (setAttribute ''viewBox'' ''0 0 24 24''
           (setAttribute ''class'' ''doupro-spinner'' (Element ''svg'' [] [])));
         bgCircle = fold (\<lambda>(k, v). setAttribute k v)
           [(''cx'', ''12''), (''cy'', ''12''), (''r'', ''10''), (''stroke'', ''currentColor''),
            (''stroke-width'', ''2''), (''opacity'', ''0.15'')] (Element ''circle'' [] []);
         arc = fold (\<lambda>(k, v). setAttribute k v)
           [(''cx'', ''12''), (''cy'', ''12''), (''r'', ''10''), (''fill'', ''none''), (''stroke'', ''currentColor''),
            (''stroke-width'', ''2''), (''stroke-dasharray'', ''62.8''), (''stroke-dashoffset'', ''15.7''),
            (''stroke-linecap'', ''round'')] (Element ''circle'' [] [])
     in appendChild arc (appendChild bgCircle svg))"

datatype markup = Html string | Nodes "dom_node list"

abbreviation DonutSpinner :: markup where "DonutSpinner \<equiv> Nodes [createDonutSpinner]"

record request =
  rq_url :: string
  rq_method :: string
  rq_headers :: "(string \<times> string) list"

record action_button =
  form_action :: "string option"   \<comment> \<open>the enclosing form's action\<close>
  btn_disabled :: bool
  btn_html :: markup
  btn_class :: string
  saved_html :: markup             \<comment> \<open>\<^verbatim>\<open>originalHTML\<close> of the click being served\<close>
  saved_class :: string
  in_flight :: nat
  sent :: "request list"
  alerts :: "string list"
  reload_after :: "nat option"     \<comment> \<open>milliseconds to the scheduled reload\<close>

definition action_request :: "string \<Rightarrow> request" where
  "action_request url = \<lparr>rq_url = url, rq_method = ''POST'',
     rq_headers = [(''X-Requested-With'', ''XMLHttpRequest''), (''Accept'', ''application/json'')]\<rparr>"

text \<open>A disabled button gets no click.\<close>
definition action_click :: "action_button \<Rightarrow> action_button" where
  "action_click b =
    (if btn_disabled b then b
     else case form_action b of
       None \<Rightarrow> b
     | Some url \<Rightarrow>
         b\<lparr>saved_html := btn_html b, saved_class := btn_class b,
           btn_disabled := True, btn_html := DonutSpinner,
           sent := sent b @ [action_request url], in_flight := in_flight b + 1\<rparr>)"

text \<open>How the request ends: the network fails, or a response arrives with its status flag and its
  body, parsed or not.\<close>
datatype outcome =
    NetworkError string
  | Response bool "json option"

text \<open>The server's error bodies carry their message as a string.\<close>
definition body_error :: "json \<Rightarrow> string" where
  "body_error body =
    (let msg = (case body of
        JObj ms \<Rightarrow> (case json_get ms ''error'' of
            Some (JObj es) \<Rightarrow> (case json_get es ''message'' of Some (JStr m) \<Rightarrow> m | _ \<Rightarrow> '''')
          | _ \<Rightarrow> '''')
      | _ \<Rightarrow> '''')
     in if msg = '''' then ''operation failed'' else msg)"

definition restore :: "string \<Rightarrow> action_button \<Rightarrow> action_button" where
  "restore msg b = b\<lparr>btn_disabled := False, btn_html := saved_html b, btn_class := saved_class b,
     alerts := alerts b @ [''Error: '' @ msg]\<rparr>"

definition action_settled :: "outcome \<Rightarrow> action_button \<Rightarrow> action_button" where
  "action_settled out b =
    (if in_flight b = 0 then b
     else (let b' = b\<lparr>in_flight := in_flight b - 1\<rparr> in
       case out of
         NetworkError msg \<Rightarrow> restore msg b'
       | Response ok body \<Rightarrow>
           (let parsed = (case body of None \<Rightarrow> JObj [] | Some v \<Rightarrow> v)
            in if \<not> ok then restore (body_error parsed) b'
               else b'\<lparr>reload_after := Some 500\<rparr>)))"

datatype button_event = Clicked | Settled outcome

fun button_step :: "button_event \<Rightarrow> action_button \<Rightarrow> action_button" where
  "button_step Clicked b = action_click b"
| "button_step (Settled out) b = action_settled out b"

section \<open>The stored object\<close>

lemma json_get_prop_set:
  assumes "name \<noteq> ''__proto__''"
  shows "json_get (prop_set obj name v) k = (if k = name then Some v else json_get obj k)"
proof (cases "name \<in> fst ` set obj")
  case True
  have upd: "map_of (map (\<lambda>(k, w). if k = name then (k, v) else (k, w)) xs) k =
      (if k = name then map_option (\<lambda>_. v) (map_of xs k) else map_of xs k)" for xs
    by (induction xs) auto
  have "map_of (rev obj) name \<noteq> None" using True by (simp add: map_of_eq_None_iff)
  then show ?thesis
    using True upd[of "rev obj"] by (auto simp: json_get_def prop_set_def rev_map)
next
  case False
  then show ?thesis using assms by (simp add: json_get_def prop_set_def)
qed

lemma prop_truthy_set:
  "name \<noteq> ''__proto__'' \<Longrightarrow>
     prop_truthy (prop_set obj name (JBool b)) k = (if k = name then b else prop_truthy obj k)"
  by (simp add: prop_truthy_def json_get_prop_set)

lemma plain_prop_set: "plain (JObj obj) \<Longrightarrow> plain (JObj (prop_set obj name (JBool b)))"
  by (auto simp: prop_set_def)

lemma loadState_saveState: "plain (JObj obj) \<Longrightarrow> loadState (saveState obj st) = JObj obj"
  using json_roundtrip[of "JObj obj"] by (simp add: loadState_def saveState_def json_stringify_def)

interpretation stacks_store: stored_choice stacks_key "\<lambda>st. object_members (loadState st)" saveState
    "\<lambda>obj. plain (JObj obj)"
proof unfold_locales
  fix a st
  assume "plain (JObj a)"
  from loadState_saveState[OF this] show "object_members (loadState (saveState a st)) = a"
    by (simp add: object_members_def)
qed (auto simp: saveState_def loadState_def)

definition stacks_inv :: "stacks_page \<Rightarrow> bool" where
  "stacks_inv p \<longleftrightarrow>
     object_members (loadState (page_storage p)) = state_obj p
     \<and> plain (JObj (state_obj p))
     \<and> (\<forall>s \<in> set (sections p). sec_wired s \<longrightarrow>
          body_hidden s = prop_truthy (state_obj p) (sec_name s) \<and> chevron_rotated s = (\<not> body_hidden s))"

lemma stacks_inv_wire:
  "plain (JObj (object_members (loadState (page_storage p)))) \<Longrightarrow> stacks_inv (wireStacks p)"
  by (auto simp: stacks_inv_def wireStacks_def Let_def applyState_def split: if_splits)

lemma toggle_stack_shape:
  "map sec_name (sections (toggle_stack i p)) = map sec_name (sections p)"
  "filter_active (toggle_stack i p) = filter_active p"
  by (auto simp: toggle_stack_def Let_def applyState_def map_update list_update_same_conv
      intro: list_update_same_conv[THEN iffD2])

lemma stacks_inv_toggle:
  assumes inv: "stacks_inv p" and dist: "distinct (map sec_name (sections p))"
    and proto: "''__proto__'' \<notin> set (map sec_name (sections p))"
  shows "stacks_inv (toggle_stack i p)"
proof (cases "i < length (sections p) \<and> sec_wired (sections p ! i)")
  case True
  define s where "s = sections p ! i"
  define c where "c = (\<not> prop_truthy (state_obj p) (sec_name s))"
  define obj where "obj = prop_set (state_obj p) (sec_name s) (JBool c)"
  have "sec_name s \<in> set (map sec_name (sections p))" using True by (simp add: s_def)
  then have name: "sec_name s \<noteq> ''__proto__''" using proto by metis
  have plain: "plain (JObj obj)"
    unfolding obj_def using inv by (intro plain_prop_set) (simp add: stacks_inv_def)
  have others: "sec_name t \<noteq> sec_name s" if t: "t \<in> set ((sections p)[i := x])" "t \<noteq> x" for t x
  proof -
    obtain j where "j < length (sections p)" "t = (sections p)[i := x] ! j"
      using t(1) by (auto simp: in_set_conv_nth)
    then have j: "j < length (sections p)" "j \<noteq> i" "t = sections p ! j"
      using t(2) by (cases "j = i"; simp)+
    then show ?thesis
      using dist True by (auto simp: s_def distinct_conv_nth)
  qed
  have t: "toggle_stack i p = p\<lparr>state_obj := obj, page_storage := saveState obj (page_storage p),
      sections := (sections p)[i := applyState c s]\<rparr>"
    using True by (simp add: toggle_stack_def Let_def s_def c_def obj_def)
  have "body_hidden u = prop_truthy obj (sec_name u) \<and> chevron_rotated u = (\<not> body_hidden u)"
    if u: "u \<in> set ((sections p)[i := applyState c s])" "sec_wired u" for u
  proof (cases "u = applyState c s")
    case True
    then show ?thesis by (simp add: applyState_def obj_def prop_truthy_set[OF name])
  next
    case False
    then have "u \<in> set (sections p)" using u(1) set_update_subset_insert by fastforce
    then show ?thesis
      using inv u(2) others[OF u(1) False] by (simp add: stacks_inv_def obj_def prop_truthy_set[OF name])
  qed
  then show ?thesis
    using plain stacks_store.load_save[OF plain] by (simp add: t stacks_inv_def)
next
  case False
  then show ?thesis using inv by (auto simp: toggle_stack_def)
qed

section \<open>Runs of the page\<close>

datatype stacks_event = Toggle nat | FilterClick

fun stacks_step :: "stacks_event \<Rightarrow> stacks_page \<Rightarrow> stacks_page" where
  "stacks_step (Toggle i) p = toggle_stack i p"
| "stacks_step FilterClick p = filter_click p"

definition filter_inv :: "stacks_page \<Rightarrow> bool" where
  "filter_inv p \<longleftrightarrow> (\<forall>s \<in> set (sections p).
     (\<forall>r \<in> set (sec_rows s). row_hidden r = (filter_active p \<and> row_updatable r \<noteq> ''1''))
     \<and> sec_hidden s = (filter_active p \<and> (\<forall>r \<in> set (sec_rows s). row_updatable r \<noteq> ''1'')))"

lemma filter_click_names: "map sec_name (sections (filter_click p)) = map sec_name (sections p)"
  by (simp add: filter_click_def Let_def apply_filter_def comp_def)

lemma stacks_inv_filter: "stacks_inv p \<Longrightarrow> stacks_inv (filter_click p)"
  by (auto simp: stacks_inv_def filter_click_def Let_def apply_filter_def)

lemma filter_inv_filter: "filter_inv (filter_click p)"
  by (auto simp: filter_inv_def filter_click_def Let_def apply_filter_def show_row_def
      filter_empty_conv)

lemma filter_inv_toggle: "filter_inv p \<Longrightarrow> filter_inv (toggle_stack i p)"
proof (cases "i < length (sections p) \<and> sec_wired (sections p ! i)")
  case True
  assume inv: "filter_inv p"
  have "sections p ! i \<in> set (sections p)" using True by simp
  then show ?thesis
    using inv True set_update_subset_insert[of "sections p" i]
    by (fastforce simp: filter_inv_def toggle_stack_def Let_def applyState_def)
qed (auto simp: toggle_stack_def)

lemma stacks_run:
  assumes "stacks_inv p" "filter_inv p" "distinct (map sec_name (sections p))"
    "''__proto__'' \<notin> set (map sec_name (sections p))"
  shows "stacks_inv (fold stacks_step evs p) \<and> filter_inv (fold stacks_step evs p)"
  using assms
proof (induction evs arbitrary: p)
  case (Cons ev evs)
  have "stacks_inv (stacks_step ev p)" "filter_inv (stacks_step ev p)"
    "map sec_name (sections (stacks_step ev p)) = map sec_name (sections p)"
    using Cons.prems stacks_inv_toggle stacks_inv_filter filter_inv_filter filter_inv_toggle
      filter_click_names toggle_stack_shape(1)
    by (cases ev; simp)+
  then show ?case using Cons by (metis fold_simps(2))
qed simp

lemma wire_fixpoint: "stacks_inv p \<Longrightarrow> wireStacks p = p"
proof -
  assume inv: "stacks_inv p"
  have "applyState (prop_truthy (state_obj p) (sec_name s)) s = s"
    if "s \<in> set (sections p)" "sec_wired s" for s
    using inv that by (simp add: stacks_inv_def applyState_def)
  then have "map (\<lambda>s. if sec_wired s then applyState (prop_truthy (state_obj p) (sec_name s)) s else s)
      (sections p) = sections p" by (intro map_idI) simp
  then show ?thesis using inv by (simp add: wireStacks_def Let_def stacks_inv_def)
qed

section \<open>Properties\<close>

text \<open>C40: the collapsed stacks survive a reload and the two scripts of the page do not disturb each
  other. After any clicks on stack toggles and the filter button, wiring the page again from its
  storage changes nothing on screen, and a row is hidden exactly when the filter is on and the row
  has no update, a stack exactly when the filter is on and none of its rows has one.\<close>
theorem stacks_page_consistent:
  assumes "plain (JObj (object_members (loadState (page_storage p))))" "filter_inv (wireStacks p)"
    and "distinct (map sec_name (sections p))" "''__proto__'' \<notin> set (map sec_name (sections p))"
  shows "let p' = fold stacks_step evs (wireStacks p) in wireStacks p' = p' \<and> filter_inv p'"
proof -
  have "map sec_name (sections (wireStacks p)) = map sec_name (sections p)"
    by (simp add: wireStacks_def Let_def applyState_def comp_def)
  then show ?thesis
    using stacks_run[OF stacks_inv_wire[OF assms(1)] assms(2)] assms(3,4) wire_fixpoint
    by (simp add: Let_def del: set_map)
qed

definition sample_section :: "string \<Rightarrow> section_el" where
  "sample_section name = \<lparr>sec_name = name, sec_wired = True, body_hidden = False,
     chevron_rotated = False, sec_hidden = False,
     sec_rows = [\<lparr>row_updatable = ''1'', row_hidden = False\<rparr>, \<lparr>row_updatable = ''0'', row_hidden = False\<rparr>]\<rparr>"

definition sample_page :: "string list \<Rightarrow> stacks_page" where
  "sample_page names = \<lparr>sections = map sample_section names, state_obj = [], page_storage = Map.empty,
     filter_active = False, filter_text = ''Updatable'', filter_title = ''''\<rparr>"

theorem stacks_page_consistent_witness:
  "let p' = fold stacks_step [Toggle 1, FilterClick, Toggle 0, Toggle 1] (wireStacks (sample_page [''web'', ''db'']))
   in wireStacks p' = p' \<and> filter_inv p' \<and> map body_hidden (sections p') = [True, False]"
proof -
  have "plain (JObj (object_members (loadState (page_storage (sample_page [''web'', ''db''])))))"
    by code_simp
  moreover have "filter_inv (wireStacks (sample_page [''web'', ''db'']))" by code_simp
  moreover have "map body_hidden (sections (fold stacks_step [Toggle 1, FilterClick, Toggle 0, Toggle 1]
      (wireStacks (sample_page [''web'', ''db''])))) = [True, False]" by code_simp
  ultimately show ?thesis
    using stacks_page_consistent[of "sample_page [''web'', ''db'']" "[Toggle 1, FilterClick, Toggle 0, Toggle 1]"]
    unfolding Let_def by (simp add: sample_page_def sample_section_def)
qed

text \<open>with nothing stored, a stack is shown expanded, as documented, unless its name is one that
  every JavaScript object inherits: a stack called \<^verbatim>\<open>constructor\<close> starts collapsed.\<close>
theorem stacks_default_expanded:
  assumes "page_storage p stacks_key = None" "s \<in> set (sections (wireStacks p))" "sec_wired s"
  shows "body_hidden s \<longleftrightarrow> sec_name s \<in> set object_prototype"
proof -
  have "json_parse ''{}'' = Some (JObj [])"
    using json_roundtrip[of "JObj []"] by (simp add: json_stringify_def)
  then have "object_members (loadState (page_storage p)) = []"
    using assms(1) by (simp add: loadState_def object_members_def)
  then show ?thesis
    using assms(2,3)
    by (auto simp: wireStacks_def Let_def applyState_def prop_truthy_def json_get_def split: if_splits)
qed

theorem stacks_default_expanded_witness:
  "map body_hidden (sections (wireStacks (sample_page [''web'', ''constructor'']))) = [False, True]"
proof -
  let ?p = "sample_page [''web'', ''constructor'']"
  let ?web = "sections (wireStacks ?p) ! 0" and ?con = "sections (wireStacks ?p) ! 1"
  have st: "page_storage ?p stacks_key = None" by (simp add: sample_page_def)
  have secs: "sections (wireStacks ?p) = [?web, ?con]" by code_simp
  have "sec_wired ?web" "sec_wired ?con" "sec_name ?web = ''web''" "sec_name ?con = ''constructor''"
    by code_simp+
  moreover have "?web \<in> set (sections (wireStacks ?p))" "?con \<in> set (sections (wireStacks ?p))"
    using secs by (metis list.set_intros)+
  ultimately have "body_hidden ?web = False" "body_hidden ?con = True"
    using stacks_default_expanded[OF st, of ?web] stacks_default_expanded[OF st, of ?con]
    by (simp_all add: object_prototype_def)
  then show ?thesis by (subst secs) simp
qed

section \<open>The action button\<close>

definition button_inv :: "action_button \<Rightarrow> action_button \<Rightarrow> bool" where
  "button_inv b0 b \<longleftrightarrow>
     form_action b = form_action b0
     \<and> length (sent b) = length (alerts b) + in_flight b + (if reload_after b = None then 0 else 1)
     \<and> (\<forall>r \<in> set (sent b). \<exists>url. form_action b0 = Some url \<and> r = action_request url)
     \<and> (if in_flight b = 0
        then btn_disabled b = (reload_after b \<noteq> None)
          \<and> (reload_after b = None \<longrightarrow> btn_html b = btn_html b0 \<and> btn_class b = btn_class b0)
        else in_flight b = 1 \<and> reload_after b = None \<and> btn_disabled b \<and> btn_html b = DonutSpinner
          \<and> saved_html b = btn_html b0 \<and> saved_class b = btn_class b0)"

lemma button_inv_step: "button_inv b0 b \<Longrightarrow> button_inv b0 (button_step ev b)"
proof (cases ev)
  case Clicked
  then show "button_inv b0 b \<Longrightarrow> ?thesis"
    by (auto simp: button_inv_def action_click_def split: option.splits if_splits)
next
  case (Settled out)
  then show "button_inv b0 b \<Longrightarrow> ?thesis"
    by (cases out) (auto simp: button_inv_def action_settled_def restore_def Let_def split: if_splits)
qed

lemma button_run: "button_inv b0 b \<Longrightarrow> button_inv b0 (fold button_step evs b)"
  by (induction evs arbitrary: b) (auto simp: button_inv_step)

text \<open>an Update or Rollback button never has two requests in flight, however it is clicked, each
  request asks the server for a JSON answer, and every request sent is accounted for: it is still
  in flight, it was reported to the user in an alert, or it scheduled the reload. After a failure
  the button is enabled again with its original content.\<close>
theorem action_button_accounts_for_requests:
  assumes "\<not> btn_disabled b0" "in_flight b0 = 0" "sent b0 = []" "alerts b0 = []" "reload_after b0 = None"
  shows "let b = fold button_step evs b0
    in in_flight b \<le> 1
       \<and> length (sent b) = length (alerts b) + in_flight b + (if reload_after b = None then 0 else 1)
       \<and> (\<forall>r \<in> set (sent b). rq_method r = ''POST'' \<and> (''Accept'', ''application/json'') \<in> set (rq_headers r))
       \<and> (in_flight b = 0 \<and> reload_after b = None \<longrightarrow>
            \<not> btn_disabled b \<and> btn_html b = btn_html b0 \<and> btn_class b = btn_class b0)"
proof -
  have "button_inv b0 b0" using assms by (simp add: button_inv_def)
  from button_run[OF this, of evs] show ?thesis
    by (auto simp: button_inv_def Let_def action_request_def split: if_splits)
qed

definition sample_button :: action_button where
  "sample_button = \<lparr>form_action = Some ''/api/v1/containers/web/update'', btn_disabled = False,
     btn_html = Html ''Update'', btn_class = ''btn'', saved_html = Html '''', saved_class = '''',
     in_flight = 0, sent = [], alerts = [], reload_after = None\<rparr>"

theorem action_button_accounts_for_requests_witness:
  "let b = fold button_step [Clicked, Clicked, Settled (Response False None), Clicked] sample_button
   in in_flight b = 1 \<and> length (sent b) = 2 \<and> alerts b = [''Error: operation failed'']"
proof -
  let ?evs = "[Clicked, Clicked, Settled (Response False None), Clicked]"
  let ?b = "fold button_step ?evs sample_button"
  have f: "in_flight ?b = 1" "alerts ?b = [''Error: operation failed'']" "reload_after ?b = None"
    by code_simp+
  have "length (sent ?b) = length (alerts ?b) + in_flight ?b + (if reload_after ?b = None then 0 else 1)"
    using action_button_accounts_for_requests[of sample_button ?evs] unfolding Let_def
    by (simp add: sample_button_def)
  then show ?thesis using f unfolding Let_def by simp
qed

end
