(* ===== verification/Csrf.thy ===== *)
theory Csrf
  imports Auth_Api Json
begin

text \<open>
  \<^verbatim>\<open>web/static/csrf.js\<close>: the script that puts the CSRF cookie's value on every request that changes
  state, and its agreement with the server's check in \<^verbatim>\<open>internal/auth/middleware.go\<close>. A thrown
  \<^verbatim>\<open>URIError\<close> is the value None.
\<close>

section \<open>Reading a cookie\<close>

text \<open>\<^verbatim>\<open>decodeURIComponent\<close> on bytes: an escape is one byte below 0x80 or a well-formed UTF-8
  sequence of escapes.\<close>

definition escaped_byte :: "string \<Rightarrow> (nat \<times> string) option" where
  "escaped_byte s = (case s of
     p # a # b # r \<Rightarrow>
       if p = CHR ''%'' then
         (case (hex_val a, hex_val b) of (Some i, Some j) \<Rightarrow> Some (i * 16 + j, r) | _ \<Rightarrow> None)
       else None
   | _ \<Rightarrow> None)"

fun continuation :: "nat \<Rightarrow> string \<Rightarrow> (nat list \<times> string) option" where
  "continuation 0 s = Some ([], s)"
| "continuation (Suc n) s =
    (case escaped_byte s of
       None \<Rightarrow> None
     | Some (b, r) \<Rightarrow>
         if 128 \<le> b \<and> b < 192 then map_option (\<lambda>(bs, q). (b # bs, q)) (continuation n r) else None)"

text \<open>How many continuation bytes a lead byte announces, and whether the code point is one that
  needs them and is no surrogate.\<close>
definition utf8_follow :: "nat \<Rightarrow> nat option" where
  "utf8_follow b = (if 192 \<le> b \<and> b < 224 then Some 1 else if 224 \<le> b \<and> b < 240 then Some 2
     else if 240 \<le> b \<and> b < 248 then Some 3 else None)"

definition utf8_ok :: "nat \<Rightarrow> nat list \<Rightarrow> bool" where
  "utf8_ok b bs =
    (let lead = (if length bs = 1 then b - 192 else if length bs = 2 then b - 224 else b - 240);
         cp = foldl (\<lambda>n c. n * 64 + (c - 128)) lead bs
     in (length bs = 1 \<longrightarrow> 128 \<le> cp) \<and> (length bs = 2 \<longrightarrow> 2048 \<le> cp \<and> \<not> (55296 \<le> cp \<and> cp < 57344))
        \<and> (length bs = 3 \<longrightarrow> 65536 \<le> cp \<and> cp < 1114112))"

fun decode_uri :: "nat \<Rightarrow> string \<Rightarrow> string option" where
  "decode_uri n [] = Some []"
| "decode_uri 0 (c # s) = None"
| "decode_uri (Suc n) (c # s) =
    (if c \<noteq> CHR ''%'' then map_option (\<lambda>t. c # t) (decode_uri n s)
     else (case escaped_byte (c # s) of
             None \<Rightarrow> None
           | Some (b, r) \<Rightarrow>
               if b < 128 then map_option (\<lambda>t. char_of b # t) (decode_uri n r)
               else (case utf8_follow b of
                       None \<Rightarrow> None
                     | Some k \<Rightarrow>
                         (case continuation k r of
                            None \<Rightarrow> None
                          | Some (bs, q) \<Rightarrow>
                              if utf8_ok b bs then map_option (\<lambda>t. map char_of (b # bs) @ t) (decode_uri n q)
                              else None))))"

definition decodeURIComponent :: "string \<Rightarrow> string option" where
  "decodeURIComponent s = decode_uri (length s) s"

text \<open>The first match of \<^verbatim>\<open>(?:^|; )name=([^;]*)\<close>, its group.\<close>
definition match_here :: "string \<Rightarrow> string \<Rightarrow> string option" where
  "match_here name s =
    (if has_prefix s (name @ ''='') then Some (takeWhile (\<lambda>c. c \<noteq> CHR '';'') (drop (length name + 1) s))
     else None)"

fun match_later :: "string \<Rightarrow> string \<Rightarrow> string option" where
  "match_later name [] = None"
| "match_later name (c # s) =
    (case (if has_prefix (c # s) ''; '' then match_here name (drop 1 s) else None) of
       Some v \<Rightarrow> Some v | None \<Rightarrow> match_later name s)"

definition match_cookie :: "string \<Rightarrow> string \<Rightarrow> string option" where
  "match_cookie name s = (case match_here name s of Some v \<Rightarrow> Some v | None \<Rightarrow> match_later name s)"

definition getCookie :: "string \<Rightarrow> string \<Rightarrow> string option" where
  "getCookie name document_cookie =
    (case match_cookie name document_cookie of None \<Rightarrow> Some '''' | Some v \<Rightarrow> decodeURIComponent v)"

section \<open>The patched fetch and the submit listener\<close>

definition to_upper_char :: "char \<Rightarrow> char" where
  "to_upper_char c = (if CHR ''a'' \<le> c \<and> c \<le> CHR ''z'' then char_of (of_char c - 32 :: nat) else c)"

definition to_upper :: "string \<Rightarrow> string" where
  "to_upper s = map to_upper_char s"

record fetch_init =
  fi_method :: "string option"
  fi_headers :: "(string \<times> string) list"

text \<open>\<^verbatim>\<open>Headers.set\<close>: names are compared without case and the value is replaced.\<close>
definition headers_set :: "string \<Rightarrow> string \<Rightarrow> (string \<times> string) list \<Rightarrow> (string \<times> string) list" where
  "headers_set name v hs = filter (\<lambda>(k, _). \<not> equal_fold k name) hs @ [(name, v)]"

text \<open>What \<^verbatim>\<open>originalFetch\<close> is called with.\<close>
definition patched_fetch :: "string \<Rightarrow> fetch_init option \<Rightarrow> fetch_init option" where
  "patched_fetch document_cookie init0 =
    (let init = (case init0 of None \<Rightarrow> \<lparr>fi_method = None, fi_headers = []\<rparr> | Some i \<Rightarrow> i);
         method = to_upper (case fi_method init of None \<Rightarrow> ''GET'' | Some m \<Rightarrow> if m = '''' then ''GET'' else m)
     in if method \<noteq> ''GET'' \<and> method \<noteq> ''HEAD''
        then (case getCookie ''doupro_csrf'' document_cookie of
                None \<Rightarrow> None
              | Some v \<Rightarrow> Some (init\<lparr>fi_headers := headers_set ''X-CSRF-Token'' v (fi_headers init)\<rparr>))
        else Some init)"

record form_el =
  fm_tag :: string
  fm_method :: string
  fm_fields :: "(string \<times> string) list"

fun set_first :: "string \<Rightarrow> string \<Rightarrow> (string \<times> string) list \<Rightarrow> (string \<times> string) list" where
  "set_first name v [] = [(name, v)]"
| "set_first name v ((k, w) # fs) = (if k = name then (k, v) # fs else (k, w) # set_first name v fs)"

definition submit_listener :: "string \<Rightarrow> form_el \<Rightarrow> form_el option" where
  "submit_listener document_cookie form =
    (if fm_tag form \<noteq> ''FORM'' \<or> to_upper (fm_method form) \<noteq> ''POST'' then Some form
     else (case getCookie ''doupro_csrf'' document_cookie of
             None \<Rightarrow> None
           | Some v \<Rightarrow> Some (form\<lparr>fm_fields := set_first ''csrf_token'' v (fm_fields form)\<rparr>)))"

section \<open>Cookie text\<close>

text \<open>The browser's \<^verbatim>\<open>document.cookie\<close> for the cookies scripts may read.\<close>
definition cookie_text :: "(string \<times> string) list \<Rightarrow> string" where
  "cookie_text jar = join_with ''; '' (map (\<lambda>(n, v). n @ ''='' @ v) jar)"

definition jar_ok :: "(string \<times> string) list \<Rightarrow> bool" where
  "jar_ok jar \<longleftrightarrow> (\<forall>(n, v) \<in> set jar. CHR ''='' \<notin> set n \<and> CHR '';'' \<notin> set n \<and> CHR '';'' \<notin> set v)"

lemma prefix_name:
  assumes "CHR ''='' \<notin> set n" "CHR ''='' \<notin> set name"
  shows "has_prefix (n @ CHR ''='' # s) (name @ ''='') \<longleftrightarrow> n = name"
proof
  assume "has_prefix (n @ CHR ''='' # s) (name @ ''='')"
  then obtain t where "n @ CHR ''='' # s = name @ CHR ''='' # t" by (auto simp: has_prefix_iff)
  then have "cut_first CHR ''='' (n @ CHR ''='' # s) = Some (name, t)"
    using assms(2) by (simp add: cut_first_intro)
  then show "n = name" using assms(1) by (simp add: cut_first_intro)
qed (simp add: has_prefix_iff)

lemma match_here_cookie:
  assumes "CHR ''='' \<notin> set n" "CHR ''='' \<notin> set name" "CHR '';'' \<notin> set v"
    "rest = [] \<or> (\<exists>r. rest = CHR '';'' # r)"
  shows "match_here name (n @ CHR ''='' # v @ rest) = (if n = name then Some v else None)"
proof -
  have "takeWhile (\<lambda>c. c \<noteq> CHR '';'') (v @ rest) = v"
    using assms(3,4) by (induction v) auto
  then show ?thesis
    using prefix_name[OF assms(1,2)] by (simp add: match_here_def)
qed

lemma match_later_other: "c \<noteq> CHR '';'' \<Longrightarrow> match_later name (c # s) = match_later name s"
  by (simp add: has_prefix_def)

lemma match_later_skip:
  "CHR '';'' \<notin> set s \<Longrightarrow> match_later name (s @ t) = match_later name t"
proof (induction s)
  case (Cons c s)
  then have "match_later name (c # (s @ t)) = match_later name (s @ t)"
    by (intro match_later_other) auto
  then show ?case using Cons by simp
qed simp

lemma cookie_text_Cons:
  "cookie_text ((n, v) # jar) =
    n @ CHR ''='' # v @ (if jar = [] then [] else CHR '';'' # CHR '' '' # cookie_text jar)"
  by (cases jar) (auto simp: cookie_text_def)

lemma match_cookie_text:
  assumes "jar_ok jar" "CHR ''='' \<notin> set name"
  shows "match_cookie name (cookie_text jar) = map_of jar name"
  using assms
proof (induction jar)
  case Nil
  then show ?case by (simp add: cookie_text_def match_cookie_def match_here_def has_prefix_def)
next
  case (Cons p jar)
  obtain n v where p: "p = (n, v)" by (cases p)
  define rest where "rest = (if jar = [] then [] else CHR '';'' # CHR '' '' # cookie_text jar)"
  have nv: "CHR ''='' \<notin> set n" "CHR '';'' \<notin> set n" "CHR '';'' \<notin> set v" and jar: "jar_ok jar"
    using Cons.prems(1) by (auto simp: jar_ok_def p)
  have txt_eq: "cookie_text (p # jar) = n @ CHR ''='' # v @ rest"
    by (simp add: p cookie_text_Cons rest_def)
  have "rest = [] \<or> (\<exists>r. rest = CHR '';'' # r)" by (simp add: rest_def)
  note here = match_here_cookie[OF nv(1) Cons.prems(2) nv(3) this]
  have "CHR '';'' \<notin> set (n @ CHR ''='' # v)" using nv by simp
  from match_later_skip[OF this, of name rest] have
    later: "match_later name (n @ CHR ''='' # v @ rest) = match_later name rest" by simp
  have "match_later name rest = match_cookie name (cookie_text jar)" if "jar \<noteq> []"
  proof -
    have "match_later name (CHR '' '' # cookie_text jar) = match_later name (cookie_text jar)"
      by (rule match_later_other) simp
    moreover have "match_later name (CHR '';'' # CHR '' '' # cookie_text jar) =
        (case match_here name (cookie_text jar) of Some v \<Rightarrow> Some v
         | None \<Rightarrow> match_later name (CHR '' '' # cookie_text jar))"
      by (subst match_later.simps) (simp add: has_prefix_def del: match_later.simps)
    ultimately show ?thesis
      using that by (cases "match_here name (cookie_text jar)")
        (simp_all add: rest_def match_cookie_def del: match_later.simps)
  qed
  moreover have "match_later name rest = None" if "jar = []" using that by (simp add: rest_def)
  ultimately show ?case
    using here later txt_eq Cons.IH[OF jar Cons.prems(2)]
    by (cases "jar = []") (auto simp: match_cookie_def p split: option.splits)
qed

lemma decode_plain: "CHR ''%'' \<notin> set s \<Longrightarrow> decodeURIComponent s = Some s"
proof -
  have "CHR ''%'' \<notin> set s \<Longrightarrow> length s \<le> n \<Longrightarrow> decode_uri n s = Some s" for n
  proof (induction s arbitrary: n)
    case (Cons c s)
    then obtain m where "n = Suc m" "length s \<le> m" by (cases n) auto
    then show ?case using Cons by auto
  qed simp
  then show "CHR ''%'' \<notin> set s \<Longrightarrow> decodeURIComponent s = Some s"
    by (simp add: decodeURIComponent_def)
qed

section \<open>Properties\<close>

lemma getCookie_text:
  assumes "jar_ok jar" "map_of jar ''doupro_csrf'' = Some token" "CHR ''%'' \<notin> set token"
  shows "getCookie ''doupro_csrf'' (cookie_text jar) = Some token"
  using assms match_cookie_text[OF assms(1), of "''doupro_csrf''"]
  by (simp add: getCookie_def decode_plain)

lemma header_after_set:
  "find (\<lambda>(k, v). equal_fold k name) (headers_set name v hs) = Some (name, v)"
proof -
  have none: "find P (filter (\<lambda>x. \<not> P x) xs) = None" for P and xs :: "(string \<times> string) list"
    by (induction xs) auto
  have app: "find P xs = None \<Longrightarrow> find P (xs @ [y]) = (if P y then Some y else None)" for P xs and y :: "string \<times> string"
    by (induction xs) (auto split: if_splits)
  have eq: "(\<lambda>(k, w). \<not> equal_fold k name) = (\<lambda>x :: string \<times> string. \<not> (case x of (k, w) \<Rightarrow> equal_fold k name))"
    by auto
  show ?thesis
    unfolding headers_set_def eq by (subst app[OF none]) (simp add: equal_fold_def)
qed

lemma form_after_set: "map_of (set_first name v fs) name = Some v"
  by (induction name v fs rule: set_first.induct) auto

lemma patched_fetch_valid:
  assumes "jar_ok jar" "map_of jar ''doupro_csrf'' = Some token" "token \<noteq> ''''" "CHR ''%'' \<notin> set token"
    and "cookie_get ''doupro_csrf'' r = Some token" "to_upper m \<notin> {''GET'', ''HEAD''}" "m \<noteq> ''''"
  shows "\<exists>init. patched_fetch (cookie_text jar) (Some \<lparr>fi_method = Some m, fi_headers = hs\<rparr>) = Some init
    \<and> fi_method init = Some m \<and> validCSRF (r\<lparr>hr_headers := fi_headers init\<rparr>)"
proof -
  have "header_get ''X-CSRF-Token'' (r\<lparr>hr_headers := headers_set ''X-CSRF-Token'' token hs\<rparr>) = token"
    using header_after_set by (simp add: header_get_def)
  moreover have "cookie_get ''doupro_csrf'' (r\<lparr>hr_headers := hh\<rparr>) = Some token" for hh
    using assms(5) by (simp add: cookie_get_def)
  ultimately show ?thesis
    using getCookie_text[OF assms(1,2,4)] assms(3,6,7) by (auto simp: patched_fetch_def validCSRF_def Let_def)
qed

text \<open>C34: the page and the server agree on CSRF. Whatever cookies scripts can see and whatever
  headers the caller sets, a fetch that the server would check carries the token header the
  server compares with the same cookie, and a form post carries the form field; both pass the
  server's check. Tokens are the hexadecimal strings the server issues.\<close>
theorem csrf_client_server_agree:
  assumes "jar_ok jar" "map_of jar ''doupro_csrf'' = Some token" "token \<noteq> ''''" "CHR ''%'' \<notin> set token"
    and "cookie_get ''doupro_csrf'' r = Some token"
  shows "(to_upper (hr_method r) \<notin> {''GET'', ''HEAD''} \<and> hr_method r \<noteq> '''' \<longrightarrow>
       (\<exists>init. patched_fetch (cookie_text jar) (Some \<lparr>fi_method = Some (hr_method r), fi_headers = hs\<rparr>) = Some init
          \<and> validCSRF (r\<lparr>hr_headers := fi_headers init\<rparr>)))
    \<and> (fm_tag form = ''FORM'' \<and> to_upper (fm_method form) = ''POST'' \<and> header_get ''X-CSRF-Token'' r = '''' \<longrightarrow>
       (\<exists>form'. submit_listener (cookie_text jar) form = Some form' \<and> validCSRF (r\<lparr>hr_form := fm_fields form'\<rparr>)))"
proof -
  note cookie = getCookie_text[OF assms(1,2,4)]
  have same: "cookie_get ''doupro_csrf'' (r\<lparr>hr_form := ff\<rparr>) = Some token" for ff
    using assms(5) by (simp add: cookie_get_def)
  have field: "form_value ''csrf_token'' (r\<lparr>hr_form := set_first ''csrf_token'' token fs\<rparr>) = token" for fs
    by (simp add: form_value_def form_after_set)
  have keep: "header_get ''X-CSRF-Token'' (r\<lparr>hr_form := ff\<rparr>) = header_get ''X-CSRF-Token'' r" for ff
    by (simp add: header_get_def)
  show ?thesis
    using patched_fetch_valid[OF assms, of _ hs] cookie same field keep assms(3)
    by (fastforce simp: submit_listener_def validCSRF_def Let_def)
qed

theorem csrf_client_server_agree_witness:
  "\<exists>init. patched_fetch (cookie_text [(''lang'', ''en''), (''doupro_csrf'', ''c0ffee'')])
      (Some \<lparr>fi_method = Some ''POST'', fi_headers = [(''x-csrf-token'', ''stale'')]\<rparr>) = Some init
    \<and> validCSRF (sample_request\<lparr>hr_headers := fi_headers init\<rparr>)"
proof -
  have jar: "jar_ok [(''lang'', ''en''), (''doupro_csrf'', ''c0ffee'')]"
    "map_of [(''lang'', ''en''), (''doupro_csrf'', ''c0ffee'')] ''doupro_csrf'' = Some ''c0ffee''"
    by (simp_all add: jar_ok_def)
  have tok: "''c0ffee'' \<noteq> ''''" "CHR ''%'' \<notin> set ''c0ffee''" by simp_all
  have c: "cookie_get ''doupro_csrf'' sample_request = Some ''c0ffee''" by code_simp
  have m: "to_upper (hr_method sample_request) \<notin> {''GET'', ''HEAD''} \<and> hr_method sample_request \<noteq> ''''"
    "hr_method sample_request = ''POST''" by code_simp+
  show ?thesis
    using csrf_client_server_agree[OF jar tok c, of "[(''x-csrf-token'', ''stale'')]"] m by simp
qed

end
