(* ===== verification/Page_Load.thy ===== *)
theory Page_Load
  imports Stacks_Page Csrf
begin

text \<open>
  How the page scripts start: the function expressions of \<^verbatim>\<open>theme.js\<close>, \<^verbatim>\<open>sidebar.js\<close>, \<^verbatim>\<open>csrf.js\<close>
  and \<^verbatim>\<open>stacks.js\<close>, each of which wires its listeners at once or, while the document is still being
  parsed, when \<^verbatim>\<open>DOMContentLoaded\<close> fires. A listener that were added twice would undo its own toggle
  or send a request twice, one that were never added would leave a dead button.
\<close>

section \<open>The document\<close>

datatype ready = Loading | Interactive | Complete

datatype wiring = WireTheme | WireSidebar | WireStacks | WireFilter | WireActions

datatype script = ThemeScript | SidebarScript | CsrfScript | StacksScript

record form_button =
  fb_type :: string
  fb_button :: action_button
  fb_clicks :: nat              \<comment> \<open>click listeners of \<^verbatim>\<open>wireUpdateActions\<close>\<close>

record document =
  readyState :: ready
  content_loaded :: bool        \<comment> \<open>whether \<^verbatim>\<open>DOMContentLoaded\<close> has fired\<close>
  waiting :: "wiring list"      \<comment> \<open>its listeners, in the order they were added\<close>
  prefs :: page
  theme_clicks :: nat
  hide_clicks :: nat
  show_clicks :: nat
  stacks :: stacks_page
  toggle_clicks :: "nat list"   \<comment> \<open>click listeners of the stack toggles, by section\<close>
  has_filter :: bool
  filter_clicks :: nat
  buttons :: "form_button list"
  head_styles :: "(string \<times> string) list"   \<comment> \<open>identifier and text of the style elements\<close>
  fetch_patches :: nat
  submit_captures :: nat

section \<open>Wiring\<close>

text \<open>The start of \<^verbatim>\<open>theme.js\<close> and of \<^verbatim>\<open>sidebar.js\<close>, and the two functions called \<^verbatim>\<open>wireToggle\<close>.\<close>
definition theme_start :: "page \<Rightarrow> page" where
  "theme_start p = p\<lparr>data_theme := stored_theme (local_storage p)\<rparr>"

definition wireThemeToggle :: "document \<Rightarrow> document" where
  "wireThemeToggle d =
    (if theme_button (prefs d) then d\<lparr>prefs := render_theme (prefs d), theme_clicks := theme_clicks d + 1\<rparr> else d)"

definition wireSidebarToggle :: "document \<Rightarrow> document" where
  "wireSidebarToggle d =
    (if sidebar_buttons (prefs d) then d\<lparr>hide_clicks := hide_clicks d + 1, show_clicks := show_clicks d + 1\<rparr> else d)"

definition wire_sections :: "document \<Rightarrow> document" where
  "wire_sections d = d\<lparr>stacks := wireStacks (stacks d),
     toggle_clicks := map2 (\<lambda>s n. if sec_wired s then n + 1 else n) (sections (stacks d)) (toggle_clicks d)\<rparr>"

definition wireUpdatableFilter :: "document \<Rightarrow> document" where
  "wireUpdatableFilter d =
    (if has_filter d then d\<lparr>stacks := (stacks d)\<lparr>filter_active := False\<rparr>, filter_clicks := filter_clicks d + 1\<rparr> else d)"

text \<open>The selector of \<^verbatim>\<open>wireUpdateActions\<close>.\<close>
definition is_action_button :: "form_button \<Rightarrow> bool" where
  "is_action_button b \<longleftrightarrow> fb_type b = ''submit''
     \<and> (case form_action (fb_button b) of None \<Rightarrow> False
        | Some url \<Rightarrow> str_contains url ''/update'' \<or> str_contains url ''/rollback'')"

definition wireUpdateActions :: "document \<Rightarrow> document" where
  "wireUpdateActions d =
    d\<lparr>buttons := map (\<lambda>b. if is_action_button b then b\<lparr>fb_clicks := fb_clicks b + 1\<rparr> else b) (buttons d)\<rparr>"

fun wire :: "wiring \<Rightarrow> document \<Rightarrow> document" where
  "wire WireTheme d = wireThemeToggle d"
| "wire WireSidebar d = wireSidebarToggle d"
| "wire WireStacks d = wire_sections d"
| "wire WireFilter d = wireUpdatableFilter d"
| "wire WireActions d = wireUpdateActions d"

definition when_ready :: "wiring \<Rightarrow> document \<Rightarrow> document" where
  "when_ready w d = (if readyState d = Loading then d\<lparr>waiting := waiting d @ [w]\<rparr> else wire w d)"

definition spinner_css :: string where
  "spinner_css = join_with [CHR 0x0A]
    ['''', ''      @keyframes doupro-spin {'', ''        from { transform: rotate(0deg); }'',
     ''        to { transform: rotate(360deg); }'', ''      }'', ''      .doupro-spinner {'',
     ''        width: 1rem;'', ''        height: 1rem;'',
     ''        animation: doupro-spin 1s linear infinite;'', ''        display: inline-block;'',
     ''      }'', ''    '']"

definition inject_style :: "document \<Rightarrow> document" where
  "inject_style d =
    (if ''doupro-spinner-style'' \<in> fst ` set (head_styles d) then d
     else d\<lparr>head_styles := head_styles d @ [(''doupro-spinner-style'', spinner_css)]\<rparr>)"

text \<open>The function expressions of the files; \<^verbatim>\<open>stacks.js\<close> has three.\<close>
definition theme_script :: "document \<Rightarrow> document" where
  "theme_script d = when_ready WireTheme (d\<lparr>prefs := theme_start (prefs d)\<rparr>)"

definition sidebar_script :: "document \<Rightarrow> document" where
  "sidebar_script d = when_ready WireSidebar (d\<lparr>prefs := sidebar_load (prefs d)\<rparr>)"

definition csrf_script :: "document \<Rightarrow> document" where
  "csrf_script d = d\<lparr>fetch_patches := fetch_patches d + 1, submit_captures := submit_captures d + 1\<rparr>"

definition collapse_script :: "document \<Rightarrow> document" where
  "collapse_script d = when_ready WireStacks d"

definition filter_script :: "document \<Rightarrow> document" where
  "filter_script d = when_ready WireFilter d"

definition actions_script :: "document \<Rightarrow> document" where
  "actions_script d = when_ready WireActions (inject_style d)"

fun run_script :: "script \<Rightarrow> document \<Rightarrow> document" where
  "run_script ThemeScript d = theme_script d"
| "run_script SidebarScript d = sidebar_script d"
| "run_script CsrfScript d = csrf_script d"
| "run_script StacksScript d = actions_script (filter_script (collapse_script d))"

lemmas script_defs = theme_script_def sidebar_script_def csrf_script_def collapse_script_def
  filter_script_def actions_script_def

text \<open>The browser: a script may run at any moment; parsing ends; then, once, \<^verbatim>\<open>DOMContentLoaded\<close>
  fires and its listeners run in order; at last the page is complete. The list records the
  scripts that have run.\<close>
definition fire_content_loaded :: "document \<Rightarrow> document" where
  "fire_content_loaded d = fold wire (waiting d) (d\<lparr>waiting := [], content_loaded := True\<rparr>)"

inductive loads :: "document \<Rightarrow> script list \<Rightarrow> document \<Rightarrow> bool" for d0 where
  start: "loads d0 [] d0"
| script: "loads d0 ss d \<Longrightarrow> s \<notin> set ss \<Longrightarrow> loads d0 (ss @ [s]) (run_script s d)"
| parsed: "loads d0 ss d \<Longrightarrow> readyState d = Loading \<Longrightarrow> loads d0 ss (d\<lparr>readyState := Interactive\<rparr>)"
| fired: "loads d0 ss d \<Longrightarrow> readyState d = Interactive \<Longrightarrow> \<not> content_loaded d \<Longrightarrow>
    loads d0 ss (fire_content_loaded d)"
| complete: "loads d0 ss d \<Longrightarrow> content_loaded d \<Longrightarrow> loads d0 ss (d\<lparr>readyState := Complete\<rparr>)"

section \<open>Clicks\<close>



definition click_filter :: "document \<Rightarrow> document" where
  "click_filter d = d\<lparr>stacks := (filter_click ^^ filter_clicks d) (stacks d)\<rparr>"

definition click_toggle :: "nat \<Rightarrow> document \<Rightarrow> document" where
  "click_toggle i d = d\<lparr>stacks := (toggle_stack i ^^ (toggle_clicks d ! i)) (stacks d)\<rparr>"

definition click_button :: "form_button \<Rightarrow> form_button" where
  "click_button b = b\<lparr>fb_button := (action_click ^^ fb_clicks b) (fb_button b)\<rparr>"

text \<open>What the network gets of a \<^verbatim>\<open>fetch\<close> call of the page.\<close>
definition page_fetch :: "document \<Rightarrow> string \<Rightarrow> fetch_init \<Rightarrow> fetch_init option" where
  "page_fetch d cookies init = (if fetch_patches d = 0 then Some init else
     (((\<lambda>i. Option.bind i (\<lambda>j. patched_fetch cookies (Some j))) ^^ fetch_patches d) (Some init)))"

text \<open>The form as the browser submits it, after the listeners that capture the event.\<close>
definition page_submit :: "document \<Rightarrow> string \<Rightarrow> form_el \<Rightarrow> form_el option" where
  "page_submit d cookies form = ((\<lambda>f. Option.bind f (submit_listener cookies)) ^^ submit_captures d) (Some form)"

section \<open>What has run\<close>

fun script_of :: "wiring \<Rightarrow> script" where
  "script_of WireTheme = ThemeScript"
| "script_of WireSidebar = SidebarScript"
| "script_of WireStacks = StacksScript"
| "script_of WireFilter = StacksScript"
| "script_of WireActions = StacksScript"

definition fresh_document :: "document \<Rightarrow> bool" where
  "fresh_document d \<longleftrightarrow> readyState d = Loading \<and> \<not> content_loaded d \<and> waiting d = []
     \<and> theme_clicks d = 0 \<and> hide_clicks d = 0 \<and> show_clicks d = 0 \<and> filter_clicks d = 0
     \<and> toggle_clicks d = replicate (length (sections (stacks d))) 0 \<and> \<not> filter_active (stacks d)
     \<and> (\<forall>b \<in> set (buttons d). fb_clicks b = 0) \<and> head_styles d = [] \<and> fetch_patches d = 0 \<and> submit_captures d = 0"

definition prefs_after :: "script set \<Rightarrow> bool \<Rightarrow> page \<Rightarrow> page" where
  "prefs_after ss rendered p =
    (let p1 = (if ThemeScript \<in> ss then theme_start p else p);
         p2 = (if SidebarScript \<in> ss then sidebar_load p1 else p1)
     in if rendered \<and> theme_button p then render_theme p2 else p2)"

text \<open>The document after the scripts \<^term>\<open>ss\<close> ran and the functions in \<^term>\<open>done_w\<close> wired it.\<close>
definition expected :: "document \<Rightarrow> script set \<Rightarrow> wiring set \<Rightarrow> document \<Rightarrow> bool" where
  "expected d0 ss done_w d \<longleftrightarrow>
     prefs d = prefs_after ss (WireTheme \<in> done_w) (prefs d0)
     \<and> theme_clicks d = (if WireTheme \<in> done_w \<and> theme_button (prefs d0) then 1 else 0)
     \<and> hide_clicks d = (if WireSidebar \<in> done_w \<and> sidebar_buttons (prefs d0) then 1 else 0)
     \<and> show_clicks d = hide_clicks d
     \<and> stacks d = (if WireStacks \<in> done_w then wireStacks (stacks d0) else stacks d0)
     \<and> toggle_clicks d = map (\<lambda>s. if WireStacks \<in> done_w \<and> sec_wired s then 1 else 0) (sections (stacks d0))
     \<and> has_filter d = has_filter d0
     \<and> filter_clicks d = (if WireFilter \<in> done_w \<and> has_filter d0 then 1 else 0)
     \<and> buttons d = map (\<lambda>b. if WireActions \<in> done_w \<and> is_action_button b then b\<lparr>fb_clicks := 1\<rparr> else b) (buttons d0)
     \<and> head_styles d = (if StacksScript \<in> ss then [(''doupro-spinner-style'', spinner_css)] else [])
     \<and> fetch_patches d = (if CsrfScript \<in> ss then 1 else 0) \<and> submit_captures d = fetch_patches d"

lemma wire_frame [simp]:
  "waiting (wire w d) = waiting d" "readyState (wire w d) = readyState d" "content_loaded (wire w d) = content_loaded d"
  by (cases w; simp add: wireThemeToggle_def wireSidebarToggle_def wire_sections_def wireUpdatableFilter_def
      wireUpdateActions_def)+

lemma inject_frame [simp]:
  "waiting (inject_style d) = waiting d" "readyState (inject_style d) = readyState d"
  "content_loaded (inject_style d) = content_loaded d"
  by (simp_all add: inject_style_def)

lemma when_ready_frame [simp]:
  "readyState (when_ready w d) = readyState d" "content_loaded (when_ready w d) = content_loaded d"
  by (simp_all add: when_ready_def)

lemma run_script_frame [simp]:
  "readyState (run_script s d) = readyState d" "content_loaded (run_script s d) = content_loaded d"
  by (cases s; simp add: script_defs)+

lemma filter_stays_off: "\<not> filter_active p \<Longrightarrow> p\<lparr>filter_active := False\<rparr> = p"
  by (cases p) simp

lemma wireStacks_filter: "filter_active (wireStacks p) = filter_active p"
  by (simp add: wireStacks_def Let_def)

lemmas prefs_simps = prefs_after_def render_theme_def theme_start_def sidebar_load_def Let_def

lemma prefs_after_frame [simp]:
  "theme_button (prefs_after ss r p) = theme_button p" "sidebar_buttons (prefs_after ss r p) = sidebar_buttons p"
  by (simp_all add: prefs_simps)

lemma prefs_after_render: "theme_button p \<Longrightarrow> render_theme (prefs_after ss False p) = prefs_after ss True p"
  by (simp add: prefs_after_def Let_def)

lemma prefs_after_none: "\<not> theme_button p \<Longrightarrow> prefs_after ss r p = prefs_after ss False p"
  by (simp add: prefs_after_def Let_def)

lemma prefs_after_theme: "ThemeScript \<notin> ss \<Longrightarrow> theme_start (prefs_after ss False p) = prefs_after (insert ThemeScript ss) False p"
  by (auto simp: prefs_simps)

lemma prefs_after_sidebar: "SidebarScript \<notin> ss \<Longrightarrow> sidebar_load (prefs_after ss r p) = prefs_after (insert SidebarScript ss) r p"
  by (auto simp: prefs_simps)

lemma prefs_after_other: "s \<noteq> ThemeScript \<Longrightarrow> s \<noteq> SidebarScript \<Longrightarrow> prefs_after (insert s ss) r p = prefs_after ss r p"
  by (simp add: prefs_after_def)


lemma count_wired:
  "map2 (\<lambda>s n. if sec_wired s then n + 1 else n) secs (map (\<lambda>s. 0) secs) = map (\<lambda>s. if sec_wired s then 1 else (0::nat)) secs"
  by (induction secs) simp_all

lemma wire_expected:
  assumes "expected d0 ss D d" "w \<notin> D" "fresh_document d0"
  shows "expected d0 ss (insert w D) (wire w d)"
proof (cases w)
  case WireTheme
  then show ?thesis
    using assms by (cases "theme_button (prefs d0)")
      (auto simp: expected_def wireThemeToggle_def prefs_after_render prefs_after_none[of _ _ True])
next
  case WireSidebar
  then show ?thesis using assms by (auto simp: expected_def wireSidebarToggle_def)
next
  case WireStacks
  then have "toggle_clicks d = map (\<lambda>s. 0) (sections (stacks d0))" "stacks d = stacks d0"
    using assms by (auto simp: expected_def)
  then show ?thesis
    using assms WireStacks by (auto simp: expected_def wire_sections_def count_wired)
next
  case WireFilter
  have "\<not> filter_active (stacks d)"
    using assms by (auto simp: expected_def fresh_document_def wireStacks_filter)
  from filter_stays_off[OF this] show ?thesis
    using assms WireFilter by (auto simp: expected_def wireUpdatableFilter_def)
next
  case WireActions
  then have "buttons d = buttons d0" using assms by (auto simp: expected_def)
  moreover have "b\<lparr>fb_clicks := Suc (fb_clicks b)\<rparr> = b\<lparr>fb_clicks := 1\<rparr>" if "b \<in> set (buttons d0)" for b
    using assms(3) that by (simp add: fresh_document_def)
  ultimately show ?thesis
    using assms WireActions by (auto simp: expected_def wireUpdateActions_def)
qed

lemma wire_all_expected:
  assumes "expected d0 ss D d" "fresh_document d0" "distinct ws" "set ws \<inter> D = {}"
  shows "expected d0 ss (D \<union> set ws) (fold wire ws d)"
  using assms
proof (induction ws arbitrary: D d)
  case (Cons w ws)
  have "expected d0 ss (insert w D \<union> set ws) (fold wire ws (wire w d))"
    using Cons.prems by (intro Cons.IH wire_expected) auto
  then show ?case by simp
qed simp

definition wired_by :: "script list \<Rightarrow> document \<Rightarrow> wiring set" where
  "wired_by ss d = {w. script_of w \<in> set ss} - set (waiting d)"

definition load_inv :: "document \<Rightarrow> script list \<Rightarrow> document \<Rightarrow> bool" where
  "load_inv d0 ss d \<longleftrightarrow> expected d0 (set ss) (wired_by ss d) d \<and> distinct (waiting d)
     \<and> (\<forall>w \<in> set (waiting d). script_of w \<in> set ss)
     \<and> (content_loaded d \<longrightarrow> waiting d = [] \<and> readyState d \<noteq> Loading)"

text \<open>The state between the parts of a script: its wirings still to be requested are \<^term>\<open>ws\<close>.\<close>
definition running_inv :: "document \<Rightarrow> script set \<Rightarrow> wiring list \<Rightarrow> document \<Rightarrow> bool" where
  "running_inv d0 ss ws d \<longleftrightarrow>
     expected d0 ss ({w. script_of w \<in> ss} - set (waiting d) - set ws) d \<and> distinct (waiting d @ ws)
     \<and> (\<forall>w \<in> set (waiting d @ ws). script_of w \<in> ss)
     \<and> (content_loaded d \<longrightarrow> waiting d = [] \<and> readyState d \<noteq> Loading)"

lemma running_done: "running_inv d0 (set ss) [] d \<longleftrightarrow> load_inv d0 ss d"
  by (simp add: running_inv_def load_inv_def wired_by_def)

lemma expected_waiting: "expected d0 ss D (d\<lparr>waiting := ws\<rparr>) = expected d0 ss D d"
  by (simp add: expected_def)

lemma running_wire:
  assumes "running_inv d0 ss (w # ws) d" "fresh_document d0"
  shows "running_inv d0 ss ws (when_ready w d)"
proof (cases "readyState d = Loading")
  case True
  have eq: "{v. script_of v \<in> ss} - set (waiting d @ [w]) - set ws
      = {v. script_of v \<in> ss} - set (waiting d) - set (w # ws)" by auto
  show ?thesis
    using assms(1) True unfolding running_inv_def when_ready_def
    by (auto simp: expected_waiting eq simp del: set_append)
next
  case False
  have eq: "insert w ({v. script_of v \<in> ss} - set (waiting d) - set (w # ws))
      = {v. script_of v \<in> ss} - set (waiting d) - set ws"
    using assms(1) by (auto simp: running_inv_def)
  have "expected d0 ss ({v. script_of v \<in> ss} - set (waiting d) - set ws) (wire w d)"
    using wire_expected[of d0 ss "{v. script_of v \<in> ss} - set (waiting d) - set (w # ws)" d w] assms
    unfolding eq by (simp add: running_inv_def)
  then show ?thesis using assms(1) False by (simp add: running_inv_def when_ready_def)
qed

text \<open>The wirings a script asks for, and what it does before them.\<close>
fun wirings_of :: "script \<Rightarrow> wiring list" where
  "wirings_of ThemeScript = [WireTheme]"
| "wirings_of SidebarScript = [WireSidebar]"
| "wirings_of CsrfScript = []"
| "wirings_of StacksScript = [WireStacks, WireFilter, WireActions]"

lemma wirings_of_script: "{w. script_of w = s} = set (wirings_of s)"
  by (cases s; auto) (metis script.distinct script_of.elims)+

lemma inject_when_ready: "inject_style (when_ready w d) = when_ready w (inject_style d)"
proof -
  have "inject_style (wire w d) = wire w (inject_style d)"
  proof (cases w)
    case WireTheme
    then show ?thesis by (simp add: inject_style_def wireThemeToggle_def)
  next
    case WireSidebar
    then show ?thesis by (simp add: inject_style_def wireSidebarToggle_def)
  next
    case WireStacks
    then show ?thesis by (simp add: inject_style_def wire_sections_def)
  next
    case WireFilter
    then show ?thesis by (simp add: inject_style_def wireUpdatableFilter_def)
  next
    case WireActions
    then show ?thesis by (simp add: inject_style_def wireUpdateActions_def)
  qed
  then show ?thesis by (simp add: when_ready_def) (simp add: inject_style_def)
qed

definition script_start :: "script \<Rightarrow> document \<Rightarrow> document" where
  "script_start s d = (case s of
     ThemeScript \<Rightarrow> d\<lparr>prefs := theme_start (prefs d)\<rparr>
   | SidebarScript \<Rightarrow> d\<lparr>prefs := sidebar_load (prefs d)\<rparr>
   | CsrfScript \<Rightarrow> run_script CsrfScript d
   | StacksScript \<Rightarrow> inject_style d)"

lemma run_script_split: "run_script s d = fold when_ready (wirings_of s) (script_start s d)"
  by (cases s) (simp_all add: script_start_def script_defs inject_when_ready)

lemma script_start_frame [simp]:
  "waiting (script_start s d) = waiting d" "readyState (script_start s d) = readyState d"
  "content_loaded (script_start s d) = content_loaded d"
  by (cases s; simp add: script_start_def script_defs)+

lemma start_expected:
  assumes "expected d0 ss D d" "s \<notin> ss" "s = ThemeScript \<Longrightarrow> WireTheme \<notin> D" "fresh_document d0"
  shows "expected d0 (insert s ss) D (script_start s d)"
proof (cases s)
  case ThemeScript
  then show ?thesis using assms by (auto simp: expected_def script_start_def prefs_after_theme)
next
  case SidebarScript
  then show ?thesis using assms by (auto simp: expected_def script_start_def prefs_after_sidebar)
next
  case CsrfScript
  then show ?thesis using assms by (auto simp: expected_def script_start_def script_defs prefs_after_other)
next
  case StacksScript
  then show ?thesis using assms by (auto simp: expected_def script_start_def inject_style_def prefs_after_other)
qed

lemma running_script:
  assumes "load_inv d0 ss d" "s \<notin> set ss" "fresh_document d0"
  shows "running_inv d0 (set (ss @ [s])) (wirings_of s) (script_start s d)"
proof -
  have mine: "v \<in> set (wirings_of s) \<longleftrightarrow> script_of v = s" for v using wirings_of_script[of s] by auto
  have old: "script_of v \<noteq> s" if "v \<in> set (waiting d)" for v
    using assms(1,2) that by (auto simp: load_inv_def)
  have eq: "{v. script_of v \<in> set (ss @ [s])} - set (waiting d) - set (wirings_of s) = wired_by ss d"
    using assms(2) mine old by (auto simp: wired_by_def)
  have "expected d0 (insert s (set ss)) (wired_by ss d) (script_start s d)"
    using assms by (intro start_expected) (auto simp: load_inv_def wired_by_def)
  moreover have "distinct (wirings_of s)" by (cases s) auto
  ultimately show ?thesis
    using assms(1) mine old unfolding running_inv_def script_start_frame eq
    by (auto simp: load_inv_def)
qed

lemma running_fold:
  "running_inv d0 ss ws d \<Longrightarrow> fresh_document d0 \<Longrightarrow> running_inv d0 ss [] (fold when_ready ws d)"
  by (induction ws arbitrary: d) (auto dest: running_wire)

lemma fold_wire_frame [simp]:
  "waiting (fold wire ws d) = waiting d" "readyState (fold wire ws d) = readyState d"
  "content_loaded (fold wire ws d) = content_loaded d"
  by (induction ws arbitrary: d; simp)+

lemma load_inv_fire:
  assumes "load_inv d0 ss d" "readyState d = Interactive" "fresh_document d0"
  shows "load_inv d0 ss (fire_content_loaded d)"
proof -
  let ?d = "d\<lparr>waiting := [], content_loaded := True\<rparr>"
  have eq: "wired_by ss d \<union> set (waiting d) = {v. script_of v \<in> set ss}"
    using assms(1) by (auto simp: wired_by_def load_inv_def)
  have "expected d0 (set ss) (wired_by ss d) ?d" using assms(1) by (simp add: load_inv_def expected_def)
  from wire_all_expected[OF this assms(3), of "waiting d"] have
    "expected d0 (set ss) {v. script_of v \<in> set ss} (fire_content_loaded d)"
    using assms(1) unfolding eq fire_content_loaded_def by (auto simp: load_inv_def wired_by_def)
  then show ?thesis using assms(2) by (simp add: load_inv_def wired_by_def fire_content_loaded_def)
qed

lemma loads_inv:
  assumes "loads d0 ss d" "fresh_document d0"
  shows "load_inv d0 ss d"
  using assms
proof (induction rule: loads.induct)
  case start
  then show ?case
    by (auto simp: load_inv_def wired_by_def expected_def fresh_document_def prefs_after_def
        map_replicate_const[symmetric])
next
  case (script ss d s)
  have "running_inv d0 (set (ss @ [s])) [] (fold when_ready (wirings_of s) (script_start s d))"
    using script by (intro running_fold running_script) auto
  then show ?case by (simp only: running_done run_script_split)
next
  case (parsed ss d)
  then show ?case by (auto simp: load_inv_def wired_by_def expected_def)
next
  case (fired ss d)
  then show ?case by (intro load_inv_fire) auto
next
  case (complete ss d)
  then show ?case by (auto simp: load_inv_def wired_by_def expected_def)
qed


section \<open>Properties\<close>



definition csrf_wired :: "document \<Rightarrow> bool" where
  "csrf_wired d \<longleftrightarrow> fetch_patches d = 1 \<and> submit_captures d = 1
    \<and> (\<forall>cookies init. page_fetch d cookies init = patched_fetch cookies (Some init))
    \<and> (\<forall>cookies form. page_submit d cookies form = submit_listener cookies form)"

definition stacks_wired :: "document \<Rightarrow> document \<Rightarrow> bool" where
  "stacks_wired d0 d \<longleftrightarrow> stacks d = wireStacks (stacks d0) \<and> length (head_styles d) = 1
    \<and> filter_clicks d = (if has_filter d0 then 1 else 0)
    \<and> (has_filter d0 \<longrightarrow> stacks (click_filter d) = filter_click (stacks d))
    \<and> toggle_clicks d = map (\<lambda>s. if sec_wired s then 1 else 0) (sections (stacks d))
    \<and> (\<forall>i < length (sections (stacks d)). stacks (click_toggle i d) = toggle_stack i (stacks d))
    \<and> map fb_button (buttons d) = map fb_button (buttons d0)
    \<and> (\<forall>b \<in> set (buttons d). fb_clicks b = (if is_action_button b then 1 else 0)
         \<and> fb_button (click_button b) = (if is_action_button b then action_click (fb_button b) else fb_button b))"

lemma page_expected:
  assumes "fresh_document d0" "loads d0 ss d" "content_loaded d"
  shows "expected d0 (set ss) {w. script_of w \<in> set ss} d"
  using loads_inv[OF assms(2,1)] assms(3) by (auto simp: load_inv_def wired_by_def)




lemma page_csrf:
  "expected d0 (set ss) {w. script_of w \<in> set ss} d \<Longrightarrow> CsrfScript \<in> set ss \<Longrightarrow> csrf_wired d"
  by (simp add: expected_def csrf_wired_def page_fetch_def page_submit_def)

lemma page_stacks:
  assumes "expected d0 (set ss) {w. script_of w \<in> set ss} d" "StacksScript \<in> set ss" "fresh_document d0"
  shows "stacks_wired d0 d"
proof -
  from assms(1,2) have s: "stacks d = wireStacks (stacks d0)" "length (head_styles d) = 1"
    "filter_clicks d = (if has_filter d0 then 1 else 0)"
    "toggle_clicks d = map (\<lambda>s. if sec_wired s then 1 else 0) (sections (stacks d0))"
    "buttons d = map (\<lambda>b. if is_action_button b then b\<lparr>fb_clicks := 1\<rparr> else b) (buttons d0)"
    by (auto simp: expected_def)
  have w: "toggle_clicks d = map (\<lambda>s. if sec_wired s then 1 else 0) (sections (stacks d))"
    unfolding s(1) s(4) by (simp add: wireStacks_def Let_def applyState_def comp_def)
  have "stacks (click_toggle i d) = toggle_stack i (stacks d)" if "i < length (sections (stacks d))" for i
    using that w by (auto simp: click_toggle_def toggle_stack_def)
  moreover have "fb_clicks b = (if is_action_button b then 1 else 0)
      \<and> fb_button (click_button b) = (if is_action_button b then action_click (fb_button b) else fb_button b)"
    if "b \<in> set (buttons d)" for b
    using that assms(3) by (auto simp: s(5) click_button_def fresh_document_def is_action_button_def)
  moreover have "map fb_button (buttons d) = map fb_button (buttons d0)" by (simp add: s(5))
  ultimately show ?thesis using s(1-3) w by (simp add: stacks_wired_def click_filter_def)
qed


text \<open>The scripts work together: on a loaded page an Update or Rollback button sends one request per
  click, and that request, after the patched \<^verbatim>\<open>fetch\<close>, passes the server's CSRF check.\<close>

theorem button_request_passes_csrf:
  assumes "fresh_document d0" "loads d0 ss d" "content_loaded d" "{StacksScript, CsrfScript} \<subseteq> set ss"
    and "b \<in> set (buttons d)" "is_action_button b" "\<not> btn_disabled (fb_button b)"
    and "jar_ok jar" "map_of jar ''doupro_csrf'' = Some token" "token \<noteq> ''''" "CHR ''%'' \<notin> set token"
    and "cookie_get ''doupro_csrf'' r = Some token"
  shows "\<exists>req init. sent (fb_button (click_button b)) = sent (fb_button b) @ [req]
    \<and> page_fetch d (cookie_text jar) \<lparr>fi_method = Some (rq_method req), fi_headers = rq_headers req\<rparr> = Some init
    \<and> validCSRF (r\<lparr>hr_method := rq_method req, hr_headers := fi_headers init\<rparr>)"
proof -
  obtain url where url: "form_action (fb_button b) = Some url"
    using assms(6) by (auto simp: is_action_button_def split: option.splits)
  let ?req = "action_request url"
  note e = page_expected[OF assms(1-3)]
  have "sent (fb_button (click_button b)) = sent (fb_button b) @ [?req]"
    using page_stacks[OF e _ assms(1)] assms(4-7) url by (simp add: stacks_wired_def action_click_def)
  moreover have "cookie_get ''doupro_csrf'' (r\<lparr>hr_method := rq_method ?req\<rparr>) = Some token"
    using assms(12) by (simp add: cookie_get_def)
  from patched_fetch_valid[OF assms(8-11) this, of "rq_method ?req" "rq_headers ?req"] obtain init where
    "patched_fetch (cookie_text jar) (Some \<lparr>fi_method = Some (rq_method ?req), fi_headers = rq_headers ?req\<rparr>) = Some init"
    "validCSRF (r\<lparr>hr_method := rq_method ?req, hr_headers := fi_headers init\<rparr>)"
    by (auto simp: action_request_def to_upper_def to_upper_char_def)
  moreover have "page_fetch d (cookie_text jar) i = patched_fetch (cookie_text jar) (Some i)" for i
    using page_csrf[OF e] assms(4) by (simp add: csrf_wired_def)
  ultimately show ?thesis by (intro exI[of _ ?req] exI[of _ init]) simp
qed

definition sample_document :: document where
  "sample_document = \<lparr>readyState = Loading, content_loaded = False, waiting = [], prefs = fresh_page,
     theme_clicks = 0, hide_clicks = 0, show_clicks = 0, stacks = sample_page [''web'', ''db''], toggle_clicks = [0, 0],
     has_filter = True, filter_clicks = 0,
     buttons = [\<lparr>fb_type = ''submit'', fb_button = sample_button, fb_clicks = 0\<rparr>],
     head_styles = [], fetch_patches = 0, submit_captures = 0\<rparr>"

text \<open>The scripts of \<^verbatim>\<open>layout.html\<close>: three in the head, the last one deferred.\<close>
definition loaded_document :: document where
  "loaded_document = fire_content_loaded (run_script StacksScript
     ((run_script CsrfScript (run_script SidebarScript (run_script ThemeScript sample_document)))\<lparr>readyState := Interactive\<rparr>))"

lemma sample_loads: "loads sample_document [ThemeScript, SidebarScript, CsrfScript, StacksScript] loaded_document"
proof -
  have 1: "loads sample_document ([] @ [ThemeScript]) (run_script ThemeScript sample_document)"
    by (intro loads.start loads.script) simp
  have 2: "loads sample_document ([ThemeScript, SidebarScript] @ [CsrfScript])
      (run_script CsrfScript (run_script SidebarScript (run_script ThemeScript sample_document)))" (is "loads _ _ ?d")
    using 1 loads.script[of sample_document "[ThemeScript]" _ SidebarScript] by (intro loads.script) simp_all
  have "loads sample_document ([ThemeScript, SidebarScript, CsrfScript] @ [StacksScript])
      (run_script StacksScript (?d\<lparr>readyState := Interactive\<rparr>))" (is "loads _ _ ?e")
    using 2 by (intro loads.script loads.parsed) (simp_all add: sample_document_def del: run_script.simps)
  moreover have "readyState ?e = Interactive" "\<not> content_loaded ?e"
    by (simp_all add: sample_document_def del: run_script.simps)
  ultimately show ?thesis unfolding loaded_document_def by (intro loads.fired) simp_all
qed

lemma sample_fresh: "fresh_document sample_document" and sample_content: "content_loaded loaded_document"
  by (simp_all add: fresh_document_def sample_document_def sample_page_def loaded_document_def fire_content_loaded_def)


theorem button_request_passes_csrf_witness:
  "\<exists>b req init. b \<in> set (buttons loaded_document) \<and> sent (fb_button (click_button b)) = [req]
    \<and> page_fetch loaded_document (cookie_text [(''doupro_csrf'', ''c0ffee'')])
        \<lparr>fi_method = Some (rq_method req), fi_headers = rq_headers req\<rparr> = Some init
    \<and> validCSRF (sample_request\<lparr>hr_method := rq_method req, hr_headers := fi_headers init\<rparr>)"
proof -
  let ?b = "\<lparr>fb_type = ''submit'', fb_button = sample_button, fb_clicks = 1\<rparr>"
  have b: "?b \<in> set (buttons loaded_document)" "is_action_button ?b" "\<not> btn_disabled (fb_button ?b)"
    "sent (fb_button ?b) = []"
    by (simp_all add: sample_button_def) code_simp+
  have jar: "jar_ok [(''doupro_csrf'', ''c0ffee'')]"
    "map_of [(''doupro_csrf'', ''c0ffee'')] ''doupro_csrf'' = Some ''c0ffee''" by (simp_all add: jar_ok_def)
  have c: "cookie_get ''doupro_csrf'' sample_request = Some ''c0ffee''" by code_simp
  show ?thesis
    using button_request_passes_csrf[OF sample_fresh sample_loads sample_content _ b(1-3) jar _ _ c] b(1,4) by fastforce
qed

end
